(* ===== verification/Prelude.thy ===== *)
theory Prelude
  imports Main "HOL-Library.Sublist" "HOL-Library.Char_ord" "HOL-Library.List_Lexorder"
    "HOL-Library.Multiset"
begin

text \<open>
  Shared notions of the development: the JavaScript string functions the sources call, results
  with errors as values, \<open>Array.prototype.sort\<close> with a comparator, and the two generic
  contracts (a consistent comparator, a state machine with an invariant) the components
  instantiate.

  A JavaScript string is a \<^typ>\<open>string\<close>: a list of code units. A \<^typ>\<open>char\<close> of HOL has
  eight bits, so the strings of the model are those whose code units are below 256; letter case
  is that of the ASCII letters. Integral JavaScript numbers (times in milliseconds, counters,
  sizes) are \<^typ>\<open>int\<close> or \<^typ>\<open>nat\<close>; they stay far below \<open>2 ^ 53\<close> in the sources.
\<close>

named_theorems js_defs "definitions of the string functions of the language"

section \<open>Results\<close>

type_synonym ('e, 'a) res = "'e + 'a"

definition bind_res :: "('e, 'a) res \<Rightarrow> ('a \<Rightarrow> ('e, 'b) res) \<Rightarrow> ('e, 'b) res" where
  "bind_res r f = (case r of Inl e \<Rightarrow> Inl e | Inr a \<Rightarrow> f a)"

lemma bind_res_simps [simp]:
  "bind_res (Inl e) f = Inl e"
  "bind_res (Inr a) f = f a"
  by (simp_all add: bind_res_def)

lemma bind_res_eq_Inr: "bind_res r f = Inr b \<longleftrightarrow> (\<exists>a. r = Inr a \<and> f a = Inr b)"
  by (cases r) auto

lemma bind_res_eq_Inl:
  "bind_res r f = Inl e \<longleftrightarrow> r = Inl e \<or> (\<exists>a. r = Inr a \<and> f a = Inl e)"
  by (cases r) auto

definition is_ok :: "('e, 'a) res \<Rightarrow> bool" where
  "is_ok r = (case r of Inl _ \<Rightarrow> False | Inr _ \<Rightarrow> True)"

lemma is_ok_simps [simp]: "is_ok (Inr a)" "\<not> is_ok (Inl e)"
  by (simp_all add: is_ok_def)

text \<open>\<open>x ?? d\<close>, with \<open>None\<close> for the nullish values.\<close>

definition nullish :: "'a option \<Rightarrow> 'a \<Rightarrow> 'a" where
  "nullish x d = (case x of None \<Rightarrow> d | Some v \<Rightarrow> v)"

lemma nullish_Some [simp]: "nullish (Some x) d = x" and nullish_None [simp]: "nullish None d = d"
  by (simp_all add: nullish_def)

section \<open>Strings\<close>

definition starts_with :: "string \<Rightarrow> string \<Rightarrow> bool" where
  [js_defs]: "starts_with s p = prefix p s"

definition ends_with :: "string \<Rightarrow> string \<Rightarrow> bool" where
  [js_defs]: "ends_with s p = suffix p s"

fun char_index :: "char \<Rightarrow> string \<Rightarrow> nat option" where
  "char_index c [] = None"
| "char_index c (x # xs) = (if x = c then Some 0 else map_option Suc (char_index c xs))"

fun substr_index :: "string \<Rightarrow> string \<Rightarrow> nat option" where
  "substr_index p [] = (if p = [] then Some 0 else None)"
| "substr_index p (x # xs) =
     (if prefix p (x # xs) then Some 0 else map_option Suc (substr_index p xs))"

definition includes_char :: "string \<Rightarrow> char \<Rightarrow> bool" where
  [js_defs]: "includes_char s c = (c \<in> set s)"

definition includes_str :: "string \<Rightarrow> string \<Rightarrow> bool" where
  [js_defs]: "includes_str s p = (substr_index p s \<noteq> None)"

fun split_char :: "char \<Rightarrow> string \<Rightarrow> string list" where
  "split_char c [] = [[]]"
| "split_char c (x # xs) =
     (if x = c then [] # split_char c xs
      else (case split_char c xs of [] \<Rightarrow> [[x]] | y # ys \<Rightarrow> (x # y) # ys))"

text \<open>The white space \<open>String.prototype.trim\<close> and \<open>\s\<close> know, below code unit 256.\<close>

definition is_ws :: "char \<Rightarrow> bool" where
  [js_defs]: "is_ws c = (of_char c \<in> ({9, 10, 11, 12, 13, 32, 160} :: nat set))"

definition trim_start :: "string \<Rightarrow> string" where
  [js_defs]: "trim_start s = dropWhile is_ws s"

definition trim_end :: "string \<Rightarrow> string" where
  [js_defs]: "trim_end s = rev (dropWhile is_ws (rev s))"

definition trim :: "string \<Rightarrow> string" where
  [js_defs]: "trim s = trim_end (trim_start s)"

text \<open>\<open>s.split(/\s+/)\<close>: the maximal runs of white space separate the parts.\<close>

fun split_ws_aux :: "bool \<Rightarrow> string \<Rightarrow> string list" where
  "split_ws_aux in_ws [] = [[]]"
| "split_ws_aux in_ws (x # xs) =
     (if is_ws x
      then (if in_ws then split_ws_aux True xs else [] # split_ws_aux True xs)
      else (case split_ws_aux False xs of [] \<Rightarrow> [[x]] | y # ys \<Rightarrow> (x # y) # ys))"

definition split_ws :: "string \<Rightarrow> string list" where
  "split_ws s = split_ws_aux False s"

definition upper_char :: "char \<Rightarrow> char" where
  "upper_char c =
     (let n = of_char c :: nat in if 97 \<le> n \<and> n \<le> 122 then char_of (n - 32) else c)"

definition lower_char :: "char \<Rightarrow> char" where
  "lower_char c =
     (let n = of_char c :: nat in if 65 \<le> n \<and> n \<le> 90 then char_of (n + 32) else c)"

definition to_upper :: "string \<Rightarrow> string" where "to_upper s = map upper_char s"
definition to_lower :: "string \<Rightarrow> string" where "to_lower s = map lower_char s"

definition is_digit :: "char \<Rightarrow> bool" where
  "is_digit c = (let n = of_char c :: nat in 48 \<le> n \<and> n \<le> 57)"

definition is_alpha :: "char \<Rightarrow> bool" where
  "is_alpha c =
     (let n = of_char c :: nat in (65 \<le> n \<and> n \<le> 90) \<or> (97 \<le> n \<and> n \<le> 122))"

definition is_alnum :: "char \<Rightarrow> bool" where "is_alnum c = (is_alpha c \<or> is_digit c)"

definition is_word :: "char \<Rightarrow> bool" where "is_word c = (is_alnum c \<or> c = CHR ''_'')"

definition digit_val :: "char \<Rightarrow> nat" where "digit_val c = of_char c - 48"

definition digits_val :: "string \<Rightarrow> nat" where
  "digits_val s = foldl (\<lambda>acc c. acc * 10 + digit_val c) 0 s"

text \<open>
  \<open>parseInt(s, 10)\<close>: leading white space, an optional sign, the longest run of digits;
  \<open>None\<close> is \<open>NaN\<close>.
\<close>

definition parse_int :: "string \<Rightarrow> int option" where
  "parse_int s =
     (let t = trim_start s;
          neg = (t \<noteq> [] \<and> hd t = CHR ''-'');
          u = (if t \<noteq> [] \<and> (hd t = CHR ''-'' \<or> hd t = CHR ''+'') then tl t else t);
          ds = takeWhile is_digit u
      in if ds = [] then None
         else Some (if neg then - int (digits_val ds) else int (digits_val ds)))"

text \<open>\<open>String(n)\<close> of a natural number.\<close>

fun show_nat :: "nat \<Rightarrow> string" where
  "show_nat n = (if n < 10 then [char_of (48 + n)] else show_nat (n div 10) @ [char_of (48 + n mod 10)])"

declare show_nat.simps [simp del]

text \<open>The number of bytes \<open>TextEncoder\<close> produces for a string.\<close>

definition utf8_len :: "string \<Rightarrow> nat" where
  "utf8_len s = sum_list (map (\<lambda>c. if (of_char c :: nat) < 128 then 1 else 2) s)"

lemma utf8_len_simps [simp]:
  "utf8_len [] = 0"
  "utf8_len (c # s) = (if (of_char c :: nat) < 128 then 1 else 2) + utf8_len s"
  by (simp_all add: utf8_len_def)

lemma length_le_utf8_len: "length s \<le> utf8_len s"
  by (induction s) auto

text \<open>Strings are compared code unit by code unit, by the language and by SQLite.\<close>

definition code_units :: "string \<Rightarrow> nat list" where
  "code_units s = map of_char s"

subsection \<open>Facts about the string functions\<close>

lemma code_units_eq: "code_units s = code_units s' \<longleftrightarrow> s = s'"
  unfolding code_units_def by (rule inj_map_eq_map) (simp add: inj_def of_char_eq_iff)

lemma starts_with_append [simp]: "starts_with (p @ s) p"
  by (simp add: js_defs)

lemma starts_withE: "starts_with s p \<Longrightarrow> (\<And>t. s = p @ t \<Longrightarrow> P) \<Longrightarrow> P"
  by (auto simp: js_defs elim: prefixE)

lemma ends_withE: "ends_with s p \<Longrightarrow> (\<And>t. s = t @ p \<Longrightarrow> P) \<Longrightarrow> P"
  by (auto simp: js_defs elim: suffixE)

lemma char_index_None_iff: "char_index c s = None \<longleftrightarrow> c \<notin> set s"
  by (induction s) auto

lemma char_index_SomeD:
  "char_index c s = Some i \<Longrightarrow> i < length s \<and> s ! i = c \<and> c \<notin> set (take i s)"
  by (induction s arbitrary: i) (auto split: if_splits)

lemma split_char_neq_Nil [simp]: "split_char c s \<noteq> []"
  by (cases s) (auto split: list.split)

lemma split_char_hd: "hd (split_char c s) = takeWhile (\<lambda>x. x \<noteq> c) s"
proof (induction s)
  case (Cons x xs)
  then show ?case by (cases "split_char c xs") auto
qed simp

lemma split_char_no_sep: "p \<in> set (split_char c s) \<Longrightarrow> c \<notin> set p"
proof (induction s arbitrary: p)
  case (Cons x xs)
  then show ?case by (cases "split_char c xs") (auto split: if_splits)
qed simp

lemma split_ws_aux_neq_Nil [simp]: "split_ws_aux b s \<noteq> []"
  by (induction b s rule: split_ws_aux.induct) (auto split: list.split)

lemma find_SomeD: "find P xs = Some x \<Longrightarrow> x \<in> set xs \<and> P x"
  by (induction xs) (auto split: if_splits)

lemma map_fst_zip_comp:
  "length xs = length ys \<Longrightarrow> map (\<lambda>x. f (fst x)) (zip xs ys) = map f xs"
  by (induction xs ys rule: list_induct2) auto

lemma length_dropWhile_le: "length (dropWhile P xs) \<le> length xs"
  by (induction xs) auto

end
