(* ===== verification/Comparators.thy ===== *)
theory Comparators
  imports Prelude
begin

text \<open>
  \<open>Array.prototype.sort(cmp)\<close> is a stable sort. For a consistent comparator its result is
  determined: the permutation that is ordered by the comparator and keeps equivalent elements
  in their order. \<open>sort_cmp\<close> computes it; the locale \<open>comparator\<close> states when a function is
  consistent and proves what a client may rely on.
\<close>

fun insert_cmp :: "('a \<Rightarrow> 'a \<Rightarrow> int) \<Rightarrow> 'a \<Rightarrow> 'a list \<Rightarrow> 'a list" where
  "insert_cmp cmp x [] = [x]"
| "insert_cmp cmp x (y # ys) =
     (if cmp x y \<le> 0 then x # y # ys else y # insert_cmp cmp x ys)"

fun sort_cmp :: "('a \<Rightarrow> 'a \<Rightarrow> int) \<Rightarrow> 'a list \<Rightarrow> 'a list" where
  "sort_cmp cmp [] = []"
| "sort_cmp cmp (x # xs) = insert_cmp cmp x (sort_cmp cmp xs)"

lemma mset_insert_cmp [simp]: "mset (insert_cmp cmp x xs) = add_mset x (mset xs)"
  by (induction xs) auto

lemma mset_sort_cmp [simp]: "mset (sort_cmp cmp xs) = mset xs"
  by (induction xs) auto

lemma set_insert_cmp [simp]: "set (insert_cmp cmp x xs) = insert x (set xs)"
  by (induction xs) auto

lemma set_sort_cmp [simp]: "set (sort_cmp cmp xs) = set xs"
  by (induction xs) auto

lemma length_sort_cmp [simp]: "length (sort_cmp cmp xs) = length xs"
  by (metis mset_sort_cmp size_mset)

abbreviation ordered_by :: "('a \<Rightarrow> 'a \<Rightarrow> int) \<Rightarrow> 'a list \<Rightarrow> bool" where
  "ordered_by cmp \<equiv> sorted_wrt (\<lambda>x y. cmp x y \<le> 0)"

locale comparator =
  fixes cmp :: "'a \<Rightarrow> 'a \<Rightarrow> int"
  assumes cmp_total: "cmp x y \<le> 0 \<or> cmp y x \<le> 0"
    and cmp_neg: "0 < cmp x y \<longleftrightarrow> cmp y x < 0"
    and cmp_trans: "cmp x y \<le> 0 \<Longrightarrow> cmp y z \<le> 0 \<Longrightarrow> cmp x z \<le> 0"
begin

lemma ordered_insert: "ordered_by cmp xs \<Longrightarrow> ordered_by cmp (insert_cmp cmp x xs)"
proof (induction xs)
  case (Cons y ys)
  show ?case
  proof (cases "cmp x y \<le> 0")
    case True
    with Cons.prems show ?thesis by (auto intro: cmp_trans)
  next
    case False
    then have "cmp y x \<le> 0" using cmp_total by blast
    with Cons False show ?thesis by auto
  qed
qed simp

lemma ordered_sort: "ordered_by cmp (sort_cmp cmp xs)"
  by (induction xs) (auto intro: ordered_insert)

lemma sort_ordered_id: "ordered_by cmp xs \<Longrightarrow> sort_cmp cmp xs = xs"
proof (induction xs)
  case (Cons x xs)
  then show ?case by (cases xs) auto
qed simp

lemma insert_stable:
  "ordered_by cmp xs \<Longrightarrow>
   filter (\<lambda>y. cmp z y = 0) (insert_cmp cmp x xs) =
   (if cmp z x = 0 then x # filter (\<lambda>y. cmp z y = 0) xs else filter (\<lambda>y. cmp z y = 0) xs)"
proof (induction xs)
  case (Cons y ys)
  have eq: "cmp x y \<le> 0" if "cmp z x = 0" "cmp z y = 0"
  proof -
    from that have "cmp x z \<le> 0" using cmp_neg[of x z] by simp
    then show ?thesis using cmp_trans[of x z y] that by simp
  qed
  show ?case using Cons eq by auto
qed simp

lemma sort_stable:
  "filter (\<lambda>y. cmp z y = 0) (sort_cmp cmp xs) = filter (\<lambda>y. cmp z y = 0) xs"
  by (induction xs) (auto simp: insert_stable ordered_sort)

text \<open>The first element of an ordered list with a property is a least one with it.\<close>

lemma find_least:
  assumes "ordered_by cmp xs" and "find P xs = Some x" and "y \<in> set xs" and "P y"
  shows "cmp x y \<le> 0"
  using assms
proof (induction xs)
  case (Cons z zs)
  have "cmp z z \<le> 0" using cmp_total by blast
  with Cons show ?case by (auto split: if_splits)
qed simp

end

text \<open>
  The comparators of the sources are built from differences of numbers, compared one after the
  other until one is not zero.
\<close>

definition key_cmp :: "('a \<Rightarrow> int) \<Rightarrow> 'a \<Rightarrow> 'a \<Rightarrow> int" where
  "key_cmp f x y = f x - f y"

definition lex_cmp :: "('a \<Rightarrow> 'a \<Rightarrow> int) \<Rightarrow> ('a \<Rightarrow> 'a \<Rightarrow> int) \<Rightarrow> 'a \<Rightarrow> 'a \<Rightarrow> int" where
  "lex_cmp c d x y = (if c x y \<noteq> 0 then c x y else d x y)"

lemma comparator_key: "comparator (key_cmp f)"
  by unfold_locales (auto simp: key_cmp_def)

lemma comparator_lex:
  assumes "comparator c" and "comparator d"
  shows "comparator (lex_cmp c d)"
proof
  fix x y z
  note c = comparator.cmp_total[OF assms(1)] comparator.cmp_neg[OF assms(1)]
    and d = comparator.cmp_total[OF assms(2)] comparator.cmp_neg[OF assms(2)]
  have c0: "c x y = 0 \<longleftrightarrow> c y x = 0" for x y
    using c(2)[of x y] c(2)[of y x] by linarith
  show "lex_cmp c d x y \<le> 0 \<or> lex_cmp c d y x \<le> 0"
    using c(1)[of x y] d(1)[of x y] c0[of x y] by (auto simp: lex_cmp_def)
  show "0 < lex_cmp c d x y \<longleftrightarrow> lex_cmp c d y x < 0"
    using c(2)[of x y] d(2)[of x y] c0[of x y] by (auto simp: lex_cmp_def)
  assume xy: "lex_cmp c d x y \<le> 0" and yz: "lex_cmp c d y z \<le> 0"
  then have "c x y \<le> 0" "c y z \<le> 0" by (auto simp: lex_cmp_def split: if_splits)
  then have xz: "c x z \<le> 0" by (rule comparator.cmp_trans[OF assms(1)])
  show "lex_cmp c d x z \<le> 0"
  proof (cases "c x z = 0")
    case True
    then have "c z x \<le> 0" using c0[of x z] by simp
    with \<open>c x y \<le> 0\<close> \<open>c y z \<le> 0\<close> have "c z y \<le> 0" "c y x \<le> 0"
      by (blast intro: comparator.cmp_trans[OF assms(1)])+
    with \<open>c x y \<le> 0\<close> \<open>c y z \<le> 0\<close> have "c x y = 0" "c y z = 0"
      using c(2)[of x y] c(2)[of y x] c(2)[of y z] c(2)[of z y] by linarith+
    with xy yz have "d x y \<le> 0" "d y z \<le> 0" by (simp_all add: lex_cmp_def)
    then have "d x z \<le> 0" by (rule comparator.cmp_trans[OF assms(2)])
    with True show ?thesis by (simp add: lex_cmp_def)
  next
    case False
    with xz show ?thesis by (simp add: lex_cmp_def)
  qed
qed

lemma ordered_by_filter: "ordered_by cmp xs \<Longrightarrow> ordered_by cmp (filter P xs)"
  by (rule sorted_wrt_filter)

end
