(* ===== verification/Contracts.thy ===== *)
theory Contracts
  imports Comparators
begin

text \<open>
  The contracts shared by the components: \<open>machine\<close> (a transition function that keeps an
  invariant, lifted to runs and to every state of a run) and \<open>record_store\<close> (a keyed store with
  the laws its clients rely on), and the model of the SQLite statements the bindings issue.

  A table is the list of its rows in rowid order. \<open>SELECT\<close>, \<open>UPDATE\<close> and \<open>DELETE\<close> with a
  condition are \<^const>\<open>filter\<close> and \<^const>\<open>map\<close>; \<open>INSERT\<close> appends; \<open>INSERT OR REPLACE\<close> removes the
  rows with the key of the new one and appends it. \<open>ORDER BY e LIMIT n\<close> sorts the selected rows
  by the value of \<open>e\<close> and takes the first \<open>n\<close>; rows with equal keys come in rowid order.
\<close>

section \<open>Machines with an invariant\<close>

locale machine =
  fixes step :: "'s \<Rightarrow> 'e \<Rightarrow> 's" and inv :: "'s \<Rightarrow> bool"
  assumes inv_step: "inv s \<Longrightarrow> inv (step s e)"
begin

lemma inv_run: "inv s \<Longrightarrow> inv (foldl step s es)"
  by (induction es arbitrary: s) (auto intro: inv_step)

lemma inv_run_prefix: "inv s \<Longrightarrow> prefix es' es \<Longrightarrow> inv (foldl step s es')"
  by (rule inv_run)

end

text \<open>A machine whose invariant needs a condition on the events runs on guarded events.\<close>

lemma foldl_guard: "\<forall>e \<in> set es. P e \<Longrightarrow> foldl (\<lambda>s e. if P e then f s e else s) s es = foldl f s es"
  by (induction es arbitrary: s) auto

section \<open>Tables\<close>

named_theorems sql_defs "definitions of the SQL statements"

definition sql_select :: "('r \<Rightarrow> bool) \<Rightarrow> 'r list \<Rightarrow> 'r list" where
  [sql_defs]: "sql_select P t = filter P t"

definition sql_get :: "('r \<Rightarrow> bool) \<Rightarrow> 'r list \<Rightarrow> 'r option" where
  [sql_defs]: "sql_get P t = find P t"

definition sql_select_ordered ::
    "('r \<Rightarrow> bool) \<Rightarrow> ('r \<Rightarrow> 'k::linorder) \<Rightarrow> nat \<Rightarrow> 'r list \<Rightarrow> 'r list" where
  [sql_defs]: "sql_select_ordered P k n t = take n (sort_key k (filter P t))"

definition sql_insert :: "'r \<Rightarrow> 'r list \<Rightarrow> 'r list" where
  [sql_defs]: "sql_insert r t = t @ [r]"

definition sql_update :: "('r \<Rightarrow> bool) \<Rightarrow> ('r \<Rightarrow> 'r) \<Rightarrow> 'r list \<Rightarrow> 'r list" where
  [sql_defs]: "sql_update P f t = map (\<lambda>r. if P r then f r else r) t"

definition sql_delete :: "('r \<Rightarrow> bool) \<Rightarrow> 'r list \<Rightarrow> 'r list" where
  [sql_defs]: "sql_delete P t = filter (\<lambda>r. \<not> P r) t"

definition sql_replace :: "('r \<Rightarrow> 'k) \<Rightarrow> 'r \<Rightarrow> 'r list \<Rightarrow> 'r list" where
  [sql_defs]: "sql_replace k r t = filter (\<lambda>x. k x \<noteq> k r) t @ [r]"

abbreviation keyed_by :: "('r \<Rightarrow> 'k) \<Rightarrow> 'r list \<Rightarrow> bool" where
  "keyed_by k t \<equiv> distinct (map k t)"

lemma set_sql_select [simp]: "set (sql_select P t) = {r \<in> set t. P r}"
  by (auto simp: sql_defs)

lemma set_sql_delete [simp]: "set (sql_delete P t) = {r \<in> set t. \<not> P r}"
  by (auto simp: sql_defs)

lemma set_sql_update [simp]: "set (sql_update P f t) = (\<lambda>r. if P r then f r else r) ` set t"
  by (auto simp: sql_defs)

lemma set_sql_insert [simp]: "set (sql_insert r t) = insert r (set t)"
  by (auto simp: sql_defs)

lemma set_sql_replace [simp]: "set (sql_replace k r t) = insert r {x \<in> set t. k x \<noteq> k r}"
  by (auto simp: sql_defs)

lemma sql_get_None_iff: "sql_get P t = None \<longleftrightarrow> (\<forall>r \<in> set t. \<not> P r)"
  by (auto simp: sql_defs find_None_iff)

lemma sql_get_SomeD: "sql_get P t = Some r \<Longrightarrow> r \<in> set t \<and> P r"
  by (auto simp: sql_defs find_Some_iff)

lemma sql_select_orderedD:
  "r \<in> set (sql_select_ordered P k n t) \<Longrightarrow> r \<in> set t \<and> P r"
  by (auto simp: sql_defs dest!: in_set_takeD)

lemma length_sql_select_ordered_le [simp]: "length (sql_select_ordered P k n t) \<le> n"
  by (simp add: sql_defs)

lemma sorted_sql_select_ordered: "sorted (map k (sql_select_ordered P k n t))"
  by (simp add: sql_defs flip: take_map)

lemma sort_key_filter_extend:
  assumes "\<And>x. P x \<Longrightarrow> P' x" and "\<And>x y. P x \<Longrightarrow> P' y \<Longrightarrow> \<not> P y \<Longrightarrow> k x < k y"
  shows "sort_key k (filter P' xs) = sort_key k (filter P xs) @ sort_key k (filter (\<lambda>x. P' x \<and> \<not> P x) xs)"
proof (rule properties_for_sort_key)
  have "mset (filter P' xs) = mset (filter P xs) + mset (filter (\<lambda>x. P' x \<and> \<not> P x) xs)"
    using assms(1) by (induction xs) auto
  then show "mset (sort_key k (filter P xs) @ sort_key k (filter (\<lambda>x. P' x \<and> \<not> P x) xs)) = mset (filter P' xs)"
    by simp
  show "sorted (map k (sort_key k (filter P xs) @ sort_key k (filter (\<lambda>x. P' x \<and> \<not> P x) xs)))"
    using assms(2) by (auto simp: sorted_append intro!: less_imp_le)
  show "filter (\<lambda>x. k j = k x) (sort_key k (filter P xs) @ sort_key k (filter (\<lambda>x. P' x \<and> \<not> P x) xs)) =
    filter (\<lambda>x. k j = k x) (filter P' xs)"
    if "j \<in> set (sort_key k (filter P xs) @ sort_key k (filter (\<lambda>x. P' x \<and> \<not> P x) xs))" for j
  proof -
    have *: "filter (\<lambda>x. k j = k x) (sort_key k ys) = filter (\<lambda>x. k j = k x) ys" for ys
      using sort_key_stable[of k "k j" ys] by (simp add: eq_commute)
    show ?thesis
    proof (cases "P j")
      case True
      then have "filter (\<lambda>x. k j = k x \<and> P' x \<and> \<not> P x) xs = []"
        "filter (\<lambda>x. k j = k x \<and> P x) xs = filter (\<lambda>x. k j = k x \<and> P' x) xs"
        using assms by (auto simp: filter_empty_conv intro!: filter_cong dest: order_less_imp_not_eq)
      then show ?thesis by (simp add: * conj_commute)
    next
      case False
      with that have "P' j" by auto
      with False have less: "P x \<Longrightarrow> k j = k x \<Longrightarrow> False" for x
        using assms(2)[of x j] by auto
      with \<open>P' j\<close> False have "filter (\<lambda>x. k j = k x \<and> P x) xs = []"
        "filter (\<lambda>x. k j = k x \<and> P' x \<and> \<not> P x) xs = filter (\<lambda>x. k j = k x \<and> P' x) xs"
        using less by (auto simp: filter_empty_conv intro!: filter_cong)
      then show ?thesis by (simp add: * conj_commute)
    qed
  qed
qed

lemma sort_key_map_same_key:
  assumes "\<And>x. k (g x) = k x"
  shows "sort_key k (map g xs) = map g (sort_key k xs)"
proof (rule properties_for_sort_key)
  show "mset (map g (sort_key k xs)) = mset (map g xs)" by simp
  have "k \<circ> g = k" by (simp add: fun_eq_iff assms)
  then show "sorted (map k (map g (sort_key k xs)))" by simp
  show "filter (\<lambda>x. k j = k x) (map g (sort_key k xs)) = filter (\<lambda>x. k j = k x) (map g xs)" for j
    using sort_key_stable[of k "k j" xs] by (simp add: filter_map comp_def assms eq_commute)
qed

lemma sql_update_keyed:
  assumes "\<And>r. k (f r) = k r"
  shows "map k (sql_update P f t) = map k t"
  using assms by (simp add: sql_defs)

lemma keyed_by_filter: "keyed_by k t \<Longrightarrow> keyed_by k (filter P t)"
  by (simp add: distinct_map_filter)

lemma keyed_by_replace: "keyed_by k t \<Longrightarrow> keyed_by k (sql_replace k r t)"
  by (auto simp: sql_defs distinct_map_filter)

lemma keyed_by_insert: "keyed_by k t \<Longrightarrow> k r \<notin> k ` set t \<Longrightarrow> keyed_by k (sql_insert r t)"
  by (auto simp: sql_defs)

lemma keyed_by_unique: "keyed_by k t \<Longrightarrow> x \<in> set t \<Longrightarrow> y \<in> set t \<Longrightarrow> k x = k y \<Longrightarrow> x = y"
  by (auto simp: distinct_map inj_on_def)

lemma sql_get_replace_same [simp]:
  "sql_get (\<lambda>x. k x = k r) (sql_replace k r t) = Some r"
proof -
  have "find (\<lambda>x. k x = k r) (filter (\<lambda>x. k x \<noteq> k r) t) = None"
    by (auto simp: find_None_iff)
  then show ?thesis
    unfolding sql_defs by (induction t) auto
qed

lemma sql_get_replace_other:
  "q \<noteq> k r \<Longrightarrow> sql_get (\<lambda>x. k x = q) (sql_replace k r t) = sql_get (\<lambda>x. k x = q) t"
  unfolding sql_defs by (induction t) auto

lemma sql_get_delete_same [simp]: "sql_get (\<lambda>x. k x = q) (sql_delete (\<lambda>x. k x = q) t) = None"
  by (auto simp: sql_get_None_iff)

lemma sql_get_delete_other:
  "\<not> P r \<Longrightarrow> sql_get Q t = Some r \<Longrightarrow> sql_get Q (sql_delete P t) = Some r"
  unfolding sql_defs by (induction t) (auto split: if_splits)

lemma sql_get_delete_disjoint:
  "(\<And>r. Q r \<Longrightarrow> \<not> P r) \<Longrightarrow> sql_get Q (sql_delete P t) = sql_get Q t"
  unfolding sql_defs by (induction t) auto

section \<open>Patterns\<close>

text \<open>
  \<open>LIKE\<close>, with or without an escape character, as SQLite documents it: \<open>%\<close> matches any sequence, \<open>_\<close> any
  character, the character after the escape stands for itself, and the case of ASCII letters
  is ignored.
\<close>

fun sql_like :: "char option \<Rightarrow> string \<Rightarrow> string \<Rightarrow> bool" where
  "sql_like e [] t = (t = [])"
| "sql_like e (p # ps) t =
     (if p = CHR ''%'' then
        sql_like e ps t \<or> (case t of [] \<Rightarrow> False | x # xs \<Rightarrow> sql_like e (p # ps) xs)
      else if Some p = e then
        (case ps of
           [] \<Rightarrow> False
         | q # qs \<Rightarrow> (case t of [] \<Rightarrow> False | x # xs \<Rightarrow> lower_char x = lower_char q \<and> sql_like e qs xs))
      else
        (case t of
           [] \<Rightarrow> False
         | x # xs \<Rightarrow> (p = CHR ''_'' \<or> lower_char x = lower_char p) \<and> sql_like e ps xs))"

lemma sql_like_any [simp]: "sql_like e ''%'' t"
  by (induction t) auto

text \<open>\<open>LIMIT n\<close>: a negative number is no limit.\<close>

definition sql_limit :: "int \<Rightarrow> 'a list \<Rightarrow> 'a list" where
  "sql_limit n rows = (if n < 0 then rows else take (nat n) rows)"

section \<open>Keyed stores\<close>

locale record_store =
  fixes lookup :: "'k \<Rightarrow> 's \<Rightarrow> 'v option"
    and store :: "'k \<Rightarrow> 'v \<Rightarrow> 's \<Rightarrow> 's"
    and remove :: "'k \<Rightarrow> 's \<Rightarrow> 's"
  assumes lookup_store: "lookup k (store k v s) = Some v"
    and lookup_store_other: "k' \<noteq> k \<Longrightarrow> lookup k' (store k v s) = lookup k' s"
    and lookup_remove: "lookup k (remove k s) = None"
    and lookup_remove_other: "k' \<noteq> k \<Longrightarrow> lookup k' (remove k s) = lookup k' s"
begin

definition store_all :: "('k \<times> 'v) list \<Rightarrow> 's \<Rightarrow> 's" where
  "store_all kvs s = foldl (\<lambda>s (k, v). store k v s) s kvs"

definition remove_all :: "'k list \<Rightarrow> 's \<Rightarrow> 's" where
  "remove_all ks s = foldl (\<lambda>s k. remove k s) s ks"

lemma lookup_as_map: "(\<lambda>k'. lookup k' (store k v s)) = (\<lambda>k'. lookup k' s)(k \<mapsto> v)"
  by (auto simp: lookup_store lookup_store_other)

lemma lookup_store_all:
  "lookup k (store_all kvs s) = (case map_of (rev kvs) k of None \<Rightarrow> lookup k s | Some v \<Rightarrow> Some v)"
proof (induction kvs arbitrary: s)
  case (Cons a kvs)
  obtain k' v' where "a = (k', v')" by force
  with Cons show ?case
    by (cases "k = k'")
      (auto simp: store_all_def map_add_def lookup_store lookup_store_other split: option.split)
qed (simp add: store_all_def)

lemma lookup_remove_all: "lookup k (remove_all ks s) = (if k \<in> set ks then None else lookup k s)"
proof (induction ks arbitrary: s)
  case (Cons a ks)
  then show ?case
    by (cases "k = a") (auto simp: remove_all_def lookup_remove lookup_remove_other)
qed (simp add: remove_all_def)

end

end
