(* ===== verification/Routes.thy ===== *)
theory Routes
  imports Contracts "HOL-Library.Product_Lexorder"
begin

text \<open>
  The route dispatcher of \<^verbatim>\<open>src/route-matcher.ts\<close>: extraction of the path part of a Cloudflare
  route pattern, matching of paths and host names, and \<open>RouteDispatcher\<close>, which keeps the
  entries of the auxiliary workers, sorts them lazily by specificity and resolves a request to
  the first entry that applies, or to the fallback. Managers are compared by identity only and
  are a type variable. The warnings printed on the console are not part of the model.
\<close>

section \<open>Patterns\<close>

datatype route = RouteStr string | RouteObj string bool \<comment> \<open>pattern, \<open>custom_domain\<close>\<close>

fun route_pattern :: "route \<Rightarrow> string" where
  "route_pattern (RouteStr p) = p"
| "route_pattern (RouteObj p _) = p"

definition strip_protocol :: "string \<Rightarrow> string" where
  "strip_protocol p =
     (if starts_with p ''https://'' then drop 8 p
      else if starts_with p ''http://'' then drop 7 p else p)"

definition cut_at :: "char \<Rightarrow> string \<Rightarrow> string" where
  "cut_at c s = (case char_index c s of None \<Rightarrow> s | Some i \<Rightarrow> take i s)"

definition extractPathPattern :: "route \<Rightarrow> string" where
  "extractPathPattern r =
     (let pattern = strip_protocol (route_pattern r);
          path = (if starts_with pattern ''/'' then pattern
                  else (case char_index (CHR ''/'') pattern of
                          None \<Rightarrow> ''/*''
                        | Some slashIndex \<Rightarrow> drop slashIndex pattern))
      in cut_at (CHR ''#'') (cut_at (CHR ''?'') path))"

definition matchRoute :: "string \<Rightarrow> string \<Rightarrow> bool" where
  "matchRoute pathname pattern =
     (if pattern = ''/*'' \<or> pattern = ''*'' then True
      else if ends_with pattern ''/*''
        then starts_with pathname (take (length pattern - 2) pattern @ ''/'')
      else if ends_with pattern ''*''
        then starts_with pathname (take (length pattern - 1) pattern)
      else pathname = pattern)"

definition extractHostname :: "string \<Rightarrow> string" where
  "extractHostname hostHeader = hd (split_char (CHR '':'') hostHeader)"

definition matchHost :: "string \<Rightarrow> string \<Rightarrow> bool" where
  "matchHost hostname pattern =
     (if pattern = hostname then True
      else if starts_with pattern ''*.''
        then (let suff = drop 1 pattern
              in ends_with hostname suff \<and> length suff < length hostname)
      else False)"

definition hasWildcardHost :: "string list option \<Rightarrow> bool" where
  "hasWildcardHost patterns =
     (case patterns of None \<Rightarrow> False
      | Some ps \<Rightarrow> list_ex (\<lambda>p. includes_char p (CHR ''*'')) ps)"

text \<open>\<open>pattern.replace(/\/?\*$/, '')\<close>\<close>

definition strip_trailing_star :: "string \<Rightarrow> string" where
  "strip_trailing_star p =
     (if ends_with p ''/*'' then take (length p - 2) p
      else if ends_with p ''*'' then take (length p - 1) p else p)"

definition segmentCount :: "string \<Rightarrow> nat" where
  "segmentCount pattern =
     (let clean = strip_trailing_star pattern
      in if clean = '''' \<or> clean = ''/'' then 0
         else length (filter (\<lambda>s. s \<noteq> '''') (split_char (CHR ''/'') clean)))"

section \<open>The dispatcher\<close>

record 'm route_entry =
  re_pattern :: string
  re_workerName :: string
  re_manager :: 'm
  re_hostPatterns :: "string list option"
  re_hasWildcardHost :: bool

record 'm dispatcher =
  rd_routes :: "'m route_entry list"
  rd_sorted :: bool
  rd_fallback :: 'm

definition new_dispatcher :: "'m \<Rightarrow> 'm dispatcher" where
  "new_dispatcher fallback = \<lparr>rd_routes = [], rd_sorted = True, rd_fallback = fallback\<rparr>"

definition add_route ::
    "'m \<Rightarrow> string \<Rightarrow> string list option \<Rightarrow> 'm dispatcher \<Rightarrow> route \<Rightarrow> 'm dispatcher" where
  "add_route manager workerName hostPatterns d route =
     (if (case route of RouteObj _ cd \<Rightarrow> cd | _ \<Rightarrow> False) then d
      else if trim (route_pattern route) = '''' then d
      else (let pattern = extractPathPattern route
            in if list_ex (\<lambda>r. re_pattern r = pattern \<and> re_hostPatterns r = None
                               \<and> hostPatterns = None) (rd_routes d)
               then d
               else d\<lparr>rd_routes := rd_routes d @
                       [\<lparr>re_pattern = pattern, re_workerName = workerName, re_manager = manager,
                         re_hostPatterns = hostPatterns,
                         re_hasWildcardHost = hasWildcardHost hostPatterns\<rparr>],
                     rd_sorted := False\<rparr>))"

definition addRoutes ::
    "route list option \<Rightarrow> 'm \<Rightarrow> string \<Rightarrow> string list option \<Rightarrow> 'm dispatcher \<Rightarrow> 'm dispatcher" where
  "addRoutes config_routes manager workerName hostPatterns d =
     (case config_routes of
        None \<Rightarrow> d
      | Some rs \<Rightarrow>
          (let hadRoutes = (rd_routes d \<noteq> []);
               routes = filter (\<lambda>r. re_workerName r \<noteq> workerName) (rd_routes d);
               d1 = d\<lparr>rd_routes := routes,
                      rd_sorted := (if hadRoutes \<and> routes = [] then True else rd_sorted d)\<rparr>
           in foldl (add_route manager workerName hostPatterns) d1 rs))"

definition addHostWorker :: "'m \<Rightarrow> string \<Rightarrow> string list \<Rightarrow> 'm dispatcher \<Rightarrow> 'm dispatcher" where
  "addHostWorker manager workerName hostPatterns d =
     d\<lparr>rd_routes := filter (\<lambda>r. re_workerName r \<noteq> workerName) (rd_routes d) @
         [\<lparr>re_pattern = ''/*'', re_workerName = workerName, re_manager = manager,
           re_hostPatterns = Some hostPatterns,
           re_hasWildcardHost = hasWildcardHost (Some hostPatterns)\<rparr>],
       rd_sorted := False\<rparr>"

definition removeWorkerRoutes :: "string \<Rightarrow> 'm dispatcher \<Rightarrow> 'm dispatcher" where
  "removeWorkerRoutes workerName d =
     d\<lparr>rd_routes := filter (\<lambda>r. re_workerName r \<noteq> workerName) (rd_routes d)\<rparr>"

definition route_cmp :: "'m route_entry \<Rightarrow> 'm route_entry \<Rightarrow> int" where
  "route_cmp a b =
     (let aHasWild = includes_char (re_pattern a) (CHR ''*'');
          bHasWild = includes_char (re_pattern b) (CHR ''*'')
      in if aHasWild \<noteq> bHasWild then (if aHasWild then 1 else -1)
         else (let segDiff = int (segmentCount (re_pattern b)) - int (segmentCount (re_pattern a))
         in if segDiff \<noteq> 0 then segDiff
            else (let aSlashStar = ends_with (re_pattern a) ''/*'';
                      bSlashStar = ends_with (re_pattern b) ''/*''
            in if aSlashStar \<noteq> bSlashStar then (if aSlashStar then -1 else 1)
               else if re_hasWildcardHost a \<noteq> re_hasWildcardHost b
                 then (if re_hasWildcardHost a then 1 else -1)
               else int (length (re_pattern b)) - int (length (re_pattern a)))))"

definition ensureSorted :: "'m dispatcher \<Rightarrow> 'm dispatcher" where
  "ensureSorted d =
     (if rd_sorted d then d
      else d\<lparr>rd_routes := sort_cmp route_cmp (rd_routes d), rd_sorted := True\<rparr>)"

definition entry_applies :: "string \<Rightarrow> string option \<Rightarrow> 'm route_entry \<Rightarrow> bool" where
  "entry_applies pathname hostname entry =
     ((case re_hostPatterns entry of
         None \<Rightarrow> True
       | Some hps \<Rightarrow> (case hostname of None \<Rightarrow> False
                      | Some h \<Rightarrow> list_ex (\<lambda>hp. matchHost h hp) hps))
      \<and> matchRoute pathname (re_pattern entry))"

definition resolve :: "string \<Rightarrow> string option \<Rightarrow> 'm dispatcher \<Rightarrow> 'm \<times> 'm dispatcher" where
  "resolve pathname hostname d =
     (let d' = ensureSorted d
      in (case find (entry_applies pathname hostname) (rd_routes d') of
            Some entry \<Rightarrow> re_manager entry
          | None \<Rightarrow> rd_fallback d', d'))"

definition isFallback :: "'m \<Rightarrow> 'm dispatcher \<Rightarrow> bool" where
  "isFallback manager d = (manager = rd_fallback d)"

definition hasRoutes :: "'m dispatcher \<Rightarrow> bool" where
  "hasRoutes d = (0 < length (rd_routes d))"

definition getRegisteredRoutes ::
    "'m dispatcher \<Rightarrow> (string \<times> string \<times> string list option) list \<times> 'm dispatcher" where
  "getRegisteredRoutes d =
     (let d' = ensureSorted d
      in (map (\<lambda>r. (re_pattern r, re_workerName r, re_hostPatterns r)) (rd_routes d'), d'))"


section \<open>What the patterns mean\<close>

lemma take_suffix_eq: "suffix p s \<Longrightarrow> take (length s - length p) s @ p = s"
  by (auto elim: suffixE)

lemma ends_with_snoc: "ends_with s (p @ [c]) \<longleftrightarrow> (\<exists>t. s = t @ p @ [c])"
  by (auto simp: js_defs suffix_def)

lemma starts_with_slash_iff: "starts_with s [c] \<longleftrightarrow> (\<exists>t. s = c # t)"
  by (auto simp: js_defs prefix_def)

lemma cut_at_props:
  assumes "s = x # t" and "x \<noteq> c"
  shows "\<exists>t'. cut_at c s = x # t' \<and> c \<notin> set (cut_at c s) \<and> set (cut_at c s) \<subseteq> set s"
proof (cases "char_index c t")
  case None
  moreover from None have "c \<notin> set t" by (simp add: char_index_None_iff)
  ultimately show ?thesis using assms by (auto simp: cut_at_def)
next
  case (Some j)
  then show ?thesis using assms char_index_SomeD[OF Some]
    by (auto simp: cut_at_def dest: in_set_takeD)
qed

lemma drop_index_Cons: "char_index c s = Some i \<Longrightarrow> \<exists>t. drop i s = c # t"
  using char_index_SomeD[of c s i] by (metis Cons_nth_drop_Suc)

lemma path_of_route:
  "\<exists>t. extractPathPattern r = CHR ''/'' # t \<and> CHR ''?'' \<notin> set (extractPathPattern r)
      \<and> CHR ''#'' \<notin> set (extractPathPattern r)"
proof -
  define p where "p = strip_protocol (route_pattern r)"
  define path where "path = (if starts_with p ''/'' then p
                  else (case char_index (CHR ''/'') p of None \<Rightarrow> ''/*'' | Some i \<Rightarrow> drop i p))"
  have "\<exists>t. path = CHR ''/'' # t"
    unfolding path_def
    by (auto simp: starts_with_slash_iff split: option.splits dest: drop_index_Cons)
  then obtain t where t: "path = CHR ''/'' # t" by blast
  obtain u where u: "cut_at (CHR ''?'') path = CHR ''/'' # u"
    and q: "CHR ''?'' \<notin> set (cut_at (CHR ''?'') path)"
    using cut_at_props[OF t, of "CHR ''?''"] by auto
  have "extractPathPattern r = cut_at (CHR ''#'') (cut_at (CHR ''?'') path)"
    unfolding extractPathPattern_def path_def p_def Let_def by (rule refl)
  with cut_at_props[OF u, of "CHR ''#''"] q show ?thesis by auto
qed

text \<open>
  C26. Whatever the route is (with or without a protocol, a domain, a query or a fragment), the
  extracted path pattern starts with a slash and contains neither \<open>?\<close> nor \<open>#\<close>.
\<close>

theorem extractPathPattern_clean:
  "\<exists>t. extractPathPattern r = CHR ''/'' # t \<and> CHR ''?'' \<notin> set (extractPathPattern r)
      \<and> CHR ''#'' \<notin> set (extractPathPattern r)"
  by (rule path_of_route)

text \<open>
  A pattern matches a path when it is \<open>/*\<close>, when it is the path itself, or when it ends
  with a star and what is before the star is a prefix of the path. In particular \<open>/api/*\<close> does
  not match \<open>/api\<close> and a star anywhere but at the end has no special meaning.
\<close>

theorem matchRoute_iff:
  "matchRoute path pat \<longleftrightarrow>
     pat = ''/*'' \<or> pat = path \<or> (\<exists>p. pat = p @ ''*'' \<and> prefix p path)"
proof (cases "ends_with pat ''*''")
  case True
  then obtain p where p: "pat = p @ ''*''" by (auto elim: ends_withE)
  show ?thesis
  proof (cases "ends_with pat ''/*''")
    case True
    then obtain q where q: "pat = q @ ''/*''" by (auto elim: ends_withE)
    with p have "p = q @ ''/''" by simp
    with p q True show ?thesis by (auto simp: matchRoute_def js_defs)
  next
    case False
    with p True show ?thesis by (auto simp: matchRoute_def js_defs)
  qed
next
  case False
  then have "\<not> ends_with pat ''/*''"
    by (auto simp: js_defs suffix_def)
  with False show ?thesis by (auto simp: matchRoute_def js_defs)
qed

text \<open>
  A host pattern matches a host name when they are equal, or when the pattern is \<open>*.\<close>
  followed by a domain and the host is a non-empty label string, a dot and that domain: the bare
  domain never matches its own wildcard.
\<close>

theorem matchHost_iff:
  "matchHost h pat \<longleftrightarrow> pat = h \<or> (\<exists>dom sub. pat = ''*.'' @ dom \<and> sub \<noteq> [] \<and> h = sub @ ''.'' @ dom)"
proof (cases "starts_with pat ''*.''")
  case True
  then obtain dom where dom: "pat = ''*.'' @ dom" by (auto elim: starts_withE)
  have "(ends_with h (CHR ''.'' # dom) \<and> Suc (length dom) < length h)
     \<longleftrightarrow> (\<exists>sub. sub \<noteq> [] \<and> h = sub @ CHR ''.'' # dom)"
    by (auto simp: js_defs suffix_def)
  with dom True show ?thesis by (auto simp: matchHost_def Let_def)
next
  case False
  then show ?thesis by (auto simp: matchHost_def js_defs)
qed

section \<open>Specificity is a consistent order\<close>

lemma route_cmp_lex:
  "route_cmp =
     lex_cmp (key_cmp (\<lambda>e. of_bool (includes_char (re_pattern e) (CHR ''*''))))
    (lex_cmp (key_cmp (\<lambda>e. - int (segmentCount (re_pattern e))))
    (lex_cmp (key_cmp (\<lambda>e. - of_bool (ends_with (re_pattern e) ''/*'')))
    (lex_cmp (key_cmp (\<lambda>e. of_bool (re_hasWildcardHost e)))
             (key_cmp (\<lambda>e. - int (length (re_pattern e)))))))"
  by (intro ext) (simp add: route_cmp_def lex_cmp_def key_cmp_def Let_def)

interpretation specificity: comparator "route_cmp :: 'm route_entry \<Rightarrow> 'm route_entry \<Rightarrow> int"
  unfolding route_cmp_lex by (intro comparator_lex comparator_key)

lemma route_cmp_exact_first:
  "route_cmp a b \<le> 0 \<Longrightarrow> includes_char (re_pattern a) (CHR ''*'') \<Longrightarrow>
   includes_char (re_pattern b) (CHR ''*'')"
  by (auto simp: route_cmp_def Let_def split: if_splits)

section \<open>The invariant of the dispatcher\<close>

definition unscoped :: "'m route_entry \<Rightarrow> bool" where
  "unscoped r = (re_hostPatterns r = None)"

definition rd_inv :: "'m dispatcher \<Rightarrow> bool" where
  "rd_inv d =
     ((rd_sorted d \<longrightarrow> ordered_by route_cmp (rd_routes d))
      \<and> distinct (map re_pattern (filter unscoped (rd_routes d)))
      \<and> (\<forall>r \<in> set (rd_routes d). re_hasWildcardHost r = hasWildcardHost (re_hostPatterns r)))"

datatype 'm rd_op =
    AddRoutes "route list option" 'm string "string list option"
  | AddHostWorker 'm string "string list"
  | RemoveWorkerRoutes string
  | Resolve string "string option"
  | GetRegisteredRoutes

fun rd_step :: "'m dispatcher \<Rightarrow> 'm rd_op \<Rightarrow> 'm dispatcher" where
  "rd_step d (AddRoutes rs m w hp) = addRoutes rs m w hp d"
| "rd_step d (AddHostWorker m w hp) = addHostWorker m w hp d"
| "rd_step d (RemoveWorkerRoutes w) = removeWorkerRoutes w d"
| "rd_step d (Resolve p h) = snd (resolve p h d)"
| "rd_step d GetRegisteredRoutes = snd (getRegisteredRoutes d)"

lemma distinct_patterns_filter:
  "distinct (map re_pattern (filter unscoped rs)) \<Longrightarrow>
   distinct (map re_pattern (filter (\<lambda>r. P r \<and> unscoped r) rs))"
  by (induction rs) (auto split: if_splits)

lemma rd_inv_clear: "rd_inv d \<Longrightarrow> rd_inv (removeWorkerRoutes w d)"
  by (auto simp: rd_inv_def removeWorkerRoutes_def sorted_wrt_filter
      intro: distinct_patterns_filter)

lemma add_route_inv: "rd_inv d \<Longrightarrow> rd_inv (add_route m w hp d r)"
  by (auto simp: rd_inv_def add_route_def Let_def unscoped_def list_ex_iff)

lemma add_routes_inv: "rd_inv d \<Longrightarrow> rd_inv (foldl (add_route m w hp) d rs)"
  by (induction rs arbitrary: d) (auto intro: add_route_inv)

lemma rd_inv_resorted:
  "rd_inv d \<Longrightarrow> (b \<Longrightarrow> ordered_by route_cmp (rd_routes d)) \<Longrightarrow> rd_inv (d\<lparr>rd_sorted := b\<rparr>)"
  by (auto simp: rd_inv_def)

lemma addRoutes_inv:
  assumes "rd_inv d"
  shows "rd_inv (addRoutes rs m w hp d)"
proof (cases rs)
  case (Some routes)
  let ?d = "removeWorkerRoutes w d"
  have inv: "rd_inv ?d" using assms by (rule rd_inv_clear)
  then have "rd_inv (?d\<lparr>rd_sorted := (if rd_routes d \<noteq> [] \<and> rd_routes ?d = [] then True else rd_sorted ?d)\<rparr>)"
    by (rule rd_inv_resorted) (use inv in \<open>auto simp: rd_inv_def split: if_splits\<close>)
  moreover have "addRoutes rs m w hp d = foldl (add_route m w hp)
      (?d\<lparr>rd_sorted := (if rd_routes d \<noteq> [] \<and> rd_routes ?d = [] then True else rd_sorted ?d)\<rparr>) routes"
    using Some by (simp add: addRoutes_def removeWorkerRoutes_def Let_def)
  ultimately show ?thesis by (simp add: add_routes_inv)
qed (use assms in \<open>simp add: addRoutes_def\<close>)

lemma addHostWorker_inv:
  assumes "rd_inv d"
  shows "rd_inv (addHostWorker m w hp d)"
proof -
  have "rd_inv (removeWorkerRoutes w d)" using assms by (rule rd_inv_clear)
  then show ?thesis
    by (simp add: rd_inv_def addHostWorker_def removeWorkerRoutes_def unscoped_def)
qed

lemma distinct_map_mset_cong: "mset xs = mset ys \<Longrightarrow> distinct (map f xs) = distinct (map f ys)"
  by (metis mset_eq_imp_distinct_iff mset_map)

lemma ensureSorted_inv: "rd_inv d \<Longrightarrow> rd_inv (ensureSorted d)"
proof -
  assume inv: "rd_inv d"
  have "distinct (map re_pattern (filter unscoped (sort_cmp route_cmp (rd_routes d))))
      = distinct (map re_pattern (filter unscoped (rd_routes d)))"
    by (rule distinct_map_mset_cong) simp
  with inv show ?thesis
    by (simp add: rd_inv_def ensureSorted_def specificity.ordered_sort)
qed

interpretation routing: machine "rd_step :: 'm dispatcher \<Rightarrow> 'm rd_op \<Rightarrow> 'm dispatcher" rd_inv
proof
  fix s :: "'m dispatcher" and e
  assume "rd_inv s"
  then show "rd_inv (rd_step s e)"
    by (cases e)
      (simp_all add: addRoutes_inv addHostWorker_inv rd_inv_clear resolve_def
        getRegisteredRoutes_def Let_def ensureSorted_inv)
qed

lemma new_dispatcher_inv: "rd_inv (new_dispatcher m)"
  by (simp add: rd_inv_def new_dispatcher_def)

lemma ensureSorted_ordered: "rd_inv d \<Longrightarrow> ordered_by route_cmp (rd_routes (ensureSorted d))"
  by (auto simp: rd_inv_def ensureSorted_def specificity.ordered_sort)

lemma ensureSorted_frame [simp]:
  "set (rd_routes (ensureSorted d)) = set (rd_routes d)"
  "rd_fallback (ensureSorted d) = rd_fallback d"
  by (simp_all add: ensureSorted_def)

section \<open>Resolution\<close>

lemma add_route_fallback [simp]: "rd_fallback (add_route m w hp d r) = rd_fallback d"
  by (simp add: add_route_def Let_def)

lemma add_routes_fallback [simp]: "rd_fallback (foldl (add_route m w hp) d rs) = rd_fallback d"
  by (induction rs arbitrary: d) auto

lemma rd_step_fallback [simp]: "rd_fallback (rd_step d e) = rd_fallback d"
  by (cases e) (auto simp: addRoutes_def addHostWorker_def removeWorkerRoutes_def resolve_def
      getRegisteredRoutes_def Let_def split: option.split)

lemma rd_run_fallback [simp]: "rd_fallback (foldl rd_step d es) = rd_fallback d"
  by (induction es arbitrary: d) auto

lemma resolve_least:
  assumes "rd_inv d"
  shows "(fst (resolve p h d) = rd_fallback d \<and> (\<forall>e \<in> set (rd_routes d). \<not> entry_applies p h e))
    \<or> (\<exists>e \<in> set (rd_routes d). entry_applies p h e \<and> fst (resolve p h d) = re_manager e
         \<and> (\<forall>e' \<in> set (rd_routes d). entry_applies p h e' \<longrightarrow> route_cmp e e' \<le> 0))"
proof (cases "find (entry_applies p h) (rd_routes (ensureSorted d))")
  case None
  then have "fst (resolve p h d) = rd_fallback d" by (simp add: resolve_def Let_def)
  moreover from None have "\<forall>e \<in> set (rd_routes d). \<not> entry_applies p h e"
    by (auto simp: find_None_iff)
  ultimately show ?thesis by blast
next
  case (Some e)
  from find_SomeD[OF Some] have e: "e \<in> set (rd_routes d)" "entry_applies p h e" by simp_all
  moreover have "route_cmp e e' \<le> 0" if "e' \<in> set (rd_routes d)" "entry_applies p h e'" for e'
    using specificity.find_least[OF ensureSorted_ordered[OF assms] Some] that by simp
  moreover have "fst (resolve p h d) = re_manager e" using Some by (simp add: resolve_def Let_def)
  ultimately show ?thesis by blast
qed

section \<open>Specificity means fewer paths\<close>

text \<open>
  The rank of an entry, as the comments of the code describe it: exact patterns first, then more
  segments, then slash-star before bare star, exact hosts before wildcard hosts, longer
  patterns first. It is written without the comparison function.
\<close>

definition rank :: "'m route_entry \<Rightarrow> bool \<times> int \<times> bool \<times> bool \<times> int" where
  "rank e = (CHR ''*'' \<in> set (re_pattern e), - int (segmentCount (re_pattern e)), \<not> suffix ''/*'' (re_pattern e),
             re_hasWildcardHost e, - int (length (re_pattern e)))"

lemma route_cmp_rank: "route_cmp a b \<le> 0 \<longleftrightarrow> rank a \<le> rank b"
  by (auto simp: route_cmp_def rank_def Let_def includes_char_def js_defs)

text \<open>The paths an entry serves, and the patterns with a star at most at the end.\<close>

definition served :: "'m route_entry \<Rightarrow> string set" where
  "served e = {p. matchRoute p (re_pattern e)}"

definition trailing_star_only :: "'m route_entry \<Rightarrow> bool" where
  "trailing_star_only e = (CHR ''*'' \<notin> set (butlast (re_pattern e)))"

text \<open>The segments of a text, counted where they begin.\<close>

fun segment_starts :: "bool \<Rightarrow> string \<Rightarrow> nat" where
  "segment_starts fresh [] = 0"
| "segment_starts fresh (c # s) =
     (if c = CHR ''/'' then segment_starts True s else (if fresh then 1 else 0) + segment_starts False s)"

fun at_start :: "bool \<Rightarrow> string \<Rightarrow> bool" where
  "at_start fresh [] = fresh"
| "at_start fresh (c # s) = at_start (c = CHR ''/'') s"

lemma segment_starts_append: "segment_starts b (s @ t) = segment_starts b s + segment_starts (at_start b s) t"
  by (induction s arbitrary: b) auto

lemma at_start_snoc: "at_start b (s @ [c]) = (c = CHR ''/'')"
  by (induction s arbitrary: b) auto

lemma no_new_segment: "segment_starts True t = 0 \<Longrightarrow> set t \<subseteq> {CHR ''/''}"
  by (induction t) (auto split: if_splits)

lemma split_segments:
  "length (filter (\<lambda>x. x \<noteq> '''') (split_char (CHR ''/'') s)) = segment_starts True s
   \<and> length (filter (\<lambda>x. x \<noteq> '''') (tl (split_char (CHR ''/'') s))) = segment_starts False s"
proof (induction s)
  case (Cons c s)
  obtain y ys where "split_char (CHR ''/'') s = y # ys" by (cases "split_char (CHR ''/'') s") simp_all
  with Cons show ?case by (auto split: if_splits)
qed simp

lemma segmentCount_star: "segmentCount (p @ ''*'') = segment_starts True p"
proof -
  have c: "segmentCount (p @ ''*'') =
      (let clean = strip_trailing_star (p @ ''*'') in if clean = '''' \<or> clean = ''/'' then 0 else segment_starts True clean)"
    unfolding segmentCount_def using split_segments by (metis (mono_tags, lifting))
  show ?thesis
  proof (cases "suffix ''/'' p")
    case True
    then obtain q where q: "p = q @ ''/''" by (auto elim: suffixE)
    then have "strip_trailing_star (p @ ''*'') = q" by (simp add: strip_trailing_star_def js_defs suffix_def)
    with c show ?thesis unfolding q Let_def by (auto simp: segment_starts_append)
  next
    case False
    then have "\<not> suffix ''/*'' (p @ ''*'')" by (auto simp: suffix_def)
    then have "strip_trailing_star (p @ ''*'') = p" by (simp add: strip_trailing_star_def js_defs suffix_def)
    then show ?thesis using False unfolding c Let_def by auto
  qed
qed

text \<open>A pattern with a star at the end serves the paths that begin with what is before it.\<close>

lemma served_exact: "CHR ''*'' \<notin> set (re_pattern e) \<Longrightarrow> served e = {re_pattern e}"
  by (auto simp: served_def matchRoute_iff)

lemma served_star:
  assumes "re_pattern e = p @ ''*''" and "CHR ''*'' \<notin> set p"
  shows "served e = (if p = ''/'' then UNIV else {s. prefix p s})"
  using assms by (auto simp: served_def matchRoute_iff)

lemma star_or_exact:
  assumes "trailing_star_only e"
  obtains "CHR ''*'' \<notin> set (re_pattern e)"
  | p where "re_pattern e = p @ ''*''" "CHR ''*'' \<notin> set p"
proof (cases "CHR ''*'' \<in> set (re_pattern e)")
  case True
  then have "re_pattern e = butlast (re_pattern e) @ [last (re_pattern e)]" by (metis append_butlast_last_id empty_iff empty_set)
  with True assms that(2)[of "butlast (re_pattern e)"] show ?thesis
    by (metis (no_types, lifting) Un_iff empty_iff empty_set set_ConsD set_append trailing_star_only_def)
qed (use that(1) in blast)

lemma rank_less:
  fixes n m k l :: nat
  assumes "n \<le> m" and "m = n \<Longrightarrow> \<not> y \<Longrightarrow> \<not> x" and "0 < l"
  shows "(True, - int m, x, w :: bool, - int (k + l + 1)) < (True, - int n, y, w, - int (k + 1))"
  using assms by (cases x; cases y; cases "m = n") simp_all

lemma longer_prefix_rank:
  assumes "re_pattern a = p @ ''*''" and "re_pattern b = (p @ r) @ ''*''" and "r \<noteq> []"
    and "re_hasWildcardHost a = re_hasWildcardHost b"
  shows "rank b < rank a"
proof -
  have le: "segment_starts True p \<le> segment_starts True (p @ r)" by (simp add: segment_starts_append)
  have slash: "suffix ''/*'' (p @ r @ ''*'')" if "suffix ''/*'' (p @ ''*'')" "segment_starts True (p @ r) = segment_starts True p"
  proof -
    from that(1) obtain q where q: "p = q @ ''/''" by (auto simp: suffix_def)
    with that(2) have "segment_starts True r = 0" by (simp add: segment_starts_append at_start_snoc)
    then have "set r \<subseteq> {CHR ''/''}" by (rule no_new_segment)
    then have "r = butlast r @ ''/''" using assms(3) by (metis append_butlast_last_id in_mono last_in_set singletonD)
    then have "p @ r @ ''*'' = (p @ butlast r) @ ''/*''" by (metis append.assoc append_Cons append_Nil)
    then show ?thesis by (metis suffixI)
  qed
  have a: "rank a = (True, - int (segment_starts True p), \<not> suffix ''/*'' (p @ ''*''), re_hasWildcardHost a, - int (length p + 1))"
    unfolding rank_def assms(1) segmentCount_star by simp
  have b: "rank b = (True, - int (segment_starts True (p @ r)), \<not> suffix ''/*'' (p @ r @ ''*''), re_hasWildcardHost a,
      - int (length p + length r + 1))"
    unfolding rank_def assms(2) segmentCount_star using assms(4) by simp
  show ?thesis
    unfolding a b
  proof (rule rank_less[OF le])
    assume "segment_starts True (p @ r) = segment_starts True p" and "\<not> \<not> suffix ''/*'' (p @ ''*'')"
    with slash show "\<not> \<not> suffix ''/*'' (p @ r @ ''*'')" by blast
  qed (use assms(3) in simp)
qed

lemma rooted_subset_rank:
  assumes "trailing_star_only a" and "trailing_star_only b" and "served b \<subset> served a"
    and "re_hasWildcardHost a = re_hasWildcardHost b" and "\<exists>t. re_pattern b = CHR ''/'' # t"
  shows "rank b < rank a"
  using assms(1)
proof (cases rule: star_or_exact)
  case 1
  have "re_pattern b \<in> served b" by (simp add: served_def matchRoute_iff)
  moreover have "served b = {}"
    using assms(3) unfolding served_exact[OF 1] by (metis psubset_eq subset_singletonD)
  ultimately show ?thesis by simp
next
  case a: (2 p)
  from assms(2) show ?thesis
  proof (cases rule: star_or_exact)
    case 1
    with a show ?thesis by (simp add: rank_def)
  next
    case b: (2 q)
    have sub: "served b \<subset> served a" by (rule assms(3))
    have q: "q \<in> served b" using served_star[OF b] by auto
    from b assms(5) obtain q' where q': "q = CHR ''/'' # q'" by (cases q) auto
    have "\<exists>r. r \<noteq> [] \<and> q = p @ r"
    proof (cases "p = ''/''")
      case True
      then have "q \<noteq> ''/''" using sub served_star[OF a] served_star[OF b] by auto
      then show ?thesis using True q' by auto
    next
      case False
      then have "prefix p q" using sub q served_star[OF a] by auto
      moreover have "p \<noteq> q" using sub served_star[OF a] served_star[OF b] by auto
      ultimately show ?thesis by (auto simp: prefix_def)
    qed
    then show ?thesis using longer_prefix_rank[of a p b] a(1) b(1) assms(4) by auto
  qed
qed

text \<open>Every registered pattern is a path.\<close>

definition rooted :: "'m dispatcher \<Rightarrow> bool" where
  "rooted d = (\<forall>e \<in> set (rd_routes d). \<exists>t. re_pattern e = CHR ''/'' # t)"

lemma add_route_rooted: "rooted d \<Longrightarrow> rooted (add_route m w hp d r)"
  using path_of_route[of r] by (auto simp: rooted_def add_route_def Let_def)

lemma add_routes_rooted: "rooted d \<Longrightarrow> rooted (foldl (add_route m w hp) d rs)"
  by (induction rs arbitrary: d) (simp_all add: add_route_rooted)

interpretation patterns: machine "rd_step :: 'm dispatcher \<Rightarrow> 'm rd_op \<Rightarrow> 'm dispatcher" rooted
proof
  fix s :: "'m dispatcher" and e
  assume s: "rooted s"
  show "rooted (rd_step s e)"
  proof (cases e)
    case (AddRoutes rs m w hp)
    have "rooted (s\<lparr>rd_routes := filter P (rd_routes s), rd_sorted := b\<rparr>)" for P b
      using s by (simp add: rooted_def)
    then show ?thesis using AddRoutes s by (simp add: addRoutes_def Let_def add_routes_rooted split: option.split)
  qed (use s in \<open>auto simp: rooted_def addHostWorker_def removeWorkerRoutes_def resolve_def getRegisteredRoutes_def Let_def\<close>)
qed

lemma run_rooted: "rooted (foldl rd_step (new_dispatcher m) ops)"
  by (rule patterns.inv_run) (simp add: rooted_def new_dispatcher_def)

text \<open>
  C2. After any sequence of registrations, re-registrations, removals and lookups, resolving a
  request gives the fallback exactly when no registered entry applies to it, and otherwise the
  manager of an entry that applies and is most specific: no applicable entry has a smaller rank
  (exact patterns before wildcards, then more segments, then slash-star before bare star, exact
  hosts before wildcard hosts, longer patterns first), and so, among patterns with stars at
  the end only and hosts of the same kind, no applicable entry serves strictly fewer paths.
\<close>

theorem resolve_most_specific:
  assumes "d = foldl rd_step (new_dispatcher fb) ops"
  shows "(fst (resolve p h d) = fb \<and> (\<forall>e \<in> set (rd_routes d). \<not> entry_applies p h e))
    \<or> (\<exists>e \<in> set (rd_routes d). entry_applies p h e \<and> fst (resolve p h d) = re_manager e
         \<and> (\<forall>e' \<in> set (rd_routes d). entry_applies p h e' \<longrightarrow>
              rank e \<le> rank e'
              \<and> (trailing_star_only e \<and> trailing_star_only e' \<and> re_hasWildcardHost e = re_hasWildcardHost e' \<longrightarrow>
                   \<not> served e' \<subset> served e)))"
proof -
  have inv: "rd_inv d" unfolding assms by (rule routing.inv_run[OF new_dispatcher_inv])
  have root: "\<exists>t. re_pattern e = CHR ''/'' # t" if "e \<in> set (rd_routes d)" for e
    using run_rooted[of fb ops] that by (simp add: assms rooted_def)
  have fb: "rd_fallback d = fb" unfolding assms by (simp add: new_dispatcher_def)
  have "\<not> served e' \<subset> served e"
    if "e' \<in> set (rd_routes d)" "rank e \<le> rank e'" "trailing_star_only e" "trailing_star_only e'"
      "re_hasWildcardHost e = re_hasWildcardHost e'" for e e'
    using rooted_subset_rank[OF that(3,4) _ that(5) root[OF that(1)]] that(2) leD by blast
  with resolve_least[OF inv, of p h] fb show ?thesis unfolding route_cmp_rank by blast
qed

definition demo_ops :: "nat rd_op list" where
  "demo_ops =
     [AddRoutes (Some [RouteStr ''example.com/api/*'']) 1 ''api'' None,
      AddRoutes (Some [RouteObj ''https://example.com/api/v1/users'' False]) 2 ''users'' None,
      AddHostWorker 3 ''admin'' [''admin.localhost'']]"

theorem resolve_most_specific_witness:
  "fst (resolve ''/api/v1/users'' None (foldl rd_step (new_dispatcher 0) demo_ops)) = (2::nat)
   \<and> fst (resolve ''/other'' None (foldl rd_step (new_dispatcher 0) demo_ops)) = (0::nat)
   \<and> fst (resolve ''/x'' (Some ''admin.localhost'') (foldl rd_step (new_dispatcher 0) demo_ops)) = (3::nat)
   \<and> (\<exists>e. e \<in> set (rd_routes (foldl rd_step (new_dispatcher 0) demo_ops)) \<and> re_manager e = 2)"
proof -
  have r: "fst (resolve ''/api/v1/users'' None (foldl rd_step (new_dispatcher 0) demo_ops)) = (2::nat)"
    by code_simp
  have "\<exists>e. e \<in> set (rd_routes (foldl rd_step (new_dispatcher 0) demo_ops)) \<and> re_manager e = 2"
    using resolve_most_specific[OF refl, of "''/api/v1/users''" None "0::nat" demo_ops] r by force
  moreover have "fst (resolve ''/other'' None (foldl rd_step (new_dispatcher 0) demo_ops)) = (0::nat)"
    by code_simp
  moreover have "fst (resolve ''/x'' (Some ''admin.localhost'')
      (foldl rd_step (new_dispatcher 0) demo_ops)) = (3::nat)"
    by code_simp
  ultimately show ?thesis using r by blast
qed

text \<open>
  C25. The invariant of the dispatcher holds after every sequence of operations: when the entries
  are flagged as sorted they are ordered by specificity, no two entries without host patterns
  share a pattern, and the cached wildcard flag of an entry is that of its host patterns.
\<close>

theorem dispatcher_invariant: "rd_inv (foldl rd_step (new_dispatcher fb) ops)"
  by (rule routing.inv_run[OF new_dispatcher_inv])

section \<open>Re-registration\<close>

definition routable :: "route \<Rightarrow> bool" where
  "routable r = (\<not> (case r of RouteObj _ cd \<Rightarrow> cd | _ \<Rightarrow> False) \<and> trim (route_pattern r) \<noteq> '''')"

lemma add_route_routes:
  "rd_routes (add_route m w hp d r) = rd_routes d \<or>
   (\<exists>e. rd_routes (add_route m w hp d r) = rd_routes d @ [e] \<and> re_workerName e = w
      \<and> re_manager e = m \<and> re_hostPatterns e = hp \<and> re_pattern e = extractPathPattern r)"
  by (auto simp: add_route_def Let_def)

lemma add_route_covers:
  "routable r \<Longrightarrow> extractPathPattern r \<in> re_pattern ` set (rd_routes (add_route m w hp d r))"
  by (auto simp: add_route_def Let_def routable_def list_ex_iff split: route.splits
      intro: rev_image_eqI)

lemma add_route_mono: "set (rd_routes d) \<subseteq> set (rd_routes (add_route m w hp d r))"
  using add_route_routes[of m w hp d r] by auto

lemma add_routes_mono: "set (rd_routes d) \<subseteq> set (rd_routes (foldl (add_route m w hp) d rs))"
proof (induction rs arbitrary: d)
  case (Cons r rs)
  show ?case using add_route_mono[of d m w hp r] Cons[of "add_route m w hp d r"] by auto
qed simp

lemma add_routes_others:
  "filter (\<lambda>e. re_workerName e \<noteq> w) (rd_routes (foldl (add_route m w hp) d rs)) =
   filter (\<lambda>e. re_workerName e \<noteq> w) (rd_routes d)"
proof (induction rs arbitrary: d)
  case (Cons r rs)
  have "filter (\<lambda>e. re_workerName e \<noteq> w) (rd_routes (add_route m w hp d r)) =
        filter (\<lambda>e. re_workerName e \<noteq> w) (rd_routes d)"
    using add_route_routes[of m w hp d r] by auto
  then show ?case using Cons[of "add_route m w hp d r"] by simp
qed simp

lemma add_routes_own:
  assumes "e \<in> set (rd_routes (foldl (add_route m w hp) d rs))" and "e \<notin> set (rd_routes d)"
  shows "re_workerName e = w \<and> re_manager e = m \<and> re_hostPatterns e = hp
       \<and> re_pattern e \<in> extractPathPattern ` set rs"
  using assms
proof (induction rs arbitrary: d)
  case (Cons r rs)
  show ?case
  proof (cases "e \<in> set (rd_routes (add_route m w hp d r))")
    case True
    with Cons.prems(2) show ?thesis using add_route_routes[of m w hp d r] by auto
  next
    case False
    with Cons.IH[of "add_route m w hp d r"] Cons.prems(1) show ?thesis by auto
  qed
qed simp

lemma add_routes_cover:
  "r \<in> set rs \<Longrightarrow> routable r \<Longrightarrow>
   extractPathPattern r \<in> re_pattern ` set (rd_routes (foldl (add_route m w hp) d rs))"
proof (induction rs arbitrary: d)
  case (Cons x rs)
  show ?case
  proof (cases "r = x")
    case True
    with Cons.prems(2) have "extractPathPattern r \<in> re_pattern ` set (rd_routes (add_route m w hp d x))"
      by (simp add: add_route_covers)
    with add_routes_mono[of "add_route m w hp d x" m w hp rs] show ?thesis by auto
  next
    case False
    with Cons show ?thesis by auto
  qed
qed simp

text \<open>
  Registering a worker again replaces exactly its own entries: the entries of the other
  workers stay as they are and in their order, every entry of the worker carries the new
  manager, the new host patterns and the path pattern of one of the new routes, and the pattern
  of every routable new route is served by some entry.
\<close>

theorem addRoutes_replaces:
  "filter (\<lambda>e. re_workerName e \<noteq> w) (rd_routes (addRoutes (Some rs) m w hp d)) =
     filter (\<lambda>e. re_workerName e \<noteq> w) (rd_routes d)
   \<and> {e \<in> set (rd_routes (addRoutes (Some rs) m w hp d)). re_workerName e = w}
       \<subseteq> {e. re_manager e = m \<and> re_hostPatterns e = hp \<and> re_pattern e \<in> extractPathPattern ` set rs}
   \<and> extractPathPattern ` {r \<in> set rs. routable r}
       \<subseteq> re_pattern ` set (rd_routes (addRoutes (Some rs) m w hp d))"
proof -
  define d1 where "d1 = d\<lparr>rd_routes := filter (\<lambda>r. re_workerName r \<noteq> w) (rd_routes d),
      rd_sorted := (if rd_routes d \<noteq> [] \<and> filter (\<lambda>r. re_workerName r \<noteq> w) (rd_routes d) = []
                    then True else rd_sorted d)\<rparr>"
  have eq: "addRoutes (Some rs) m w hp d = foldl (add_route m w hp) d1 rs"
    by (simp add: addRoutes_def d1_def Let_def)
  have d1: "rd_routes d1 = filter (\<lambda>r. re_workerName r \<noteq> w) (rd_routes d)" by (simp add: d1_def)
  then have "e \<notin> set (rd_routes d1)" if "re_workerName e = w" for e
    using that by simp
  then show ?thesis
    unfolding eq using add_routes_own[of _ m w hp d1 rs] add_routes_cover[of _ rs m w hp d1]
    by (auto simp: add_routes_others d1)
qed

end
