(* ===== verification/Json.thy ===== *)
theory Json
  imports Prelude
begin

text \<open>
  The part of the language's library the bindings store their data with: JSON values,
  \<open>JSON.stringify\<close>, \<open>JSON.parse\<close>, and UTF-8 as \<open>TextEncoder\<close> and \<open>TextDecoder\<close> use it.
  Numbers are the integral ones; an object is its list of own properties in insertion order.
  A value that is \<open>undefined\<close> is the \<^const>\<open>None\<close> of \<^typ>\<open>'a option\<close>.
  Bytes are \<^typ>\<open>char\<close>s, byte strings are again \<^typ>\<open>string\<close>s.

  The main result is that parsing what was stringified gives the value back.
\<close>

type_synonym bytes = string

datatype json =
    JNull
  | JBool bool
  | JNum int
  | JStr string
  | JArr "json list"
  | JObj "(string \<times> json) list"

section \<open>Numbers\<close>

definition show_int :: "int \<Rightarrow> string" where
  "show_int i = (if i < 0 then CHR ''-'' # show_nat (nat (- i)) else show_nat (nat i))"

lemma is_digit_char_of [simp]: "n < 10 \<Longrightarrow> is_digit (char_of (48 + n :: nat))"
  by (simp add: is_digit_def Let_def)

lemma digit_val_char_of [simp]: "n < 10 \<Longrightarrow> digit_val (char_of (48 + n :: nat)) = n"
  by (simp add: digit_val_def)

lemma show_nat_neq_Nil [simp]: "show_nat n \<noteq> []"
  by (subst show_nat.simps) simp

lemma show_nat_digits: "c \<in> set (show_nat n) \<Longrightarrow> is_digit c"
proof (induction n rule: show_nat.induct)
  case (1 n)
  then show ?case
    by (subst (asm) (2) show_nat.simps) (auto split: if_splits simp del: char_of_eq_iff)
qed

lemma digits_val_snoc: "digits_val (s @ [c]) = digits_val s * 10 + digit_val c"
  by (simp add: digits_val_def)

lemma digits_val_show_nat [simp]: "digits_val (show_nat n) = n"
proof (induction n rule: show_nat.induct)
  case (1 n)
  show ?case
  proof (cases "n < 10")
    case True
    then show ?thesis by (subst show_nat.simps) (simp add: digits_val_def)
  next
    case False
    then show ?thesis using 1 by (subst show_nat.simps) (simp add: digits_val_snoc)
  qed
qed

lemma show_nat_no_leading_zero: "hd (show_nat n) = CHR ''0'' \<Longrightarrow> show_nat n = [CHR ''0'']"
proof (induction n rule: show_nat.induct)
  case (1 n)
  show ?case
  proof (cases "n < 10")
    case True
    then show ?thesis using 1 by (subst (asm) (2) show_nat.simps, subst show_nat.simps) simp
  next
    case False
    then have eq: "show_nat n = show_nat (n div 10) @ [char_of (48 + n mod 10)]"
      by (subst show_nat.simps) simp
    with "1.prems" have "hd (show_nat (n div 10)) = CHR ''0''" by simp
    with 1 False have "show_nat (n div 10) = [CHR ''0'']" by simp
    then have "digits_val (show_nat (n div 10)) = 0" by (simp add: digits_val_def digit_val_def)
    with False show ?thesis by simp
  qed
qed

section \<open>\<open>JSON.stringify\<close>\<close>

definition hex_digit :: "nat \<Rightarrow> char" where
  "hex_digit n = (if n < 10 then char_of (48 + n) else char_of (87 + n))"

definition esc_char :: "char \<Rightarrow> string" where
  "esc_char c =
     (let n = of_char c :: nat
      in if c = CHR 0x22 then [CHR 0x5C, CHR 0x22]
         else if c = CHR 0x5C then [CHR 0x5C, CHR 0x5C]
         else if n = 8 then CHR 0x5C # ''b''
         else if n = 9 then CHR 0x5C # ''t''
         else if n = 10 then CHR 0x5C # ''n''
         else if n = 12 then CHR 0x5C # ''f''
         else if n = 13 then CHR 0x5C # ''r''
         else if n < 32 then CHR 0x5C # ''u00'' @ [hex_digit (n div 16), hex_digit (n mod 16)]
         else [c])"

definition quote_json :: "string \<Rightarrow> string" where
  "quote_json s = CHR 0x22 # concat (map esc_char s) @ [CHR 0x22]"

fun join :: "string \<Rightarrow> string list \<Rightarrow> string" where
  "join sep [] = []"
| "join sep [x] = x"
| "join sep (x # y # ys) = x @ sep @ join sep (y # ys)"

fun stringify :: "json \<Rightarrow> string" where
  "stringify JNull = ''null''"
| "stringify (JBool b) = (if b then ''true'' else ''false'')"
| "stringify (JNum i) = show_int i"
| "stringify (JStr s) = quote_json s"
| "stringify (JArr xs) = ''['' @ join '','' (map stringify xs) @ '']''"
| "stringify (JObj kvs) =
     CHR 0x7B # join '','' (map (\<lambda>(k, v). quote_json k @ '':'' @ stringify v) kvs) @ [CHR 0x7D]"

section \<open>\<open>JSON.parse\<close>\<close>

definition json_ws :: "char \<Rightarrow> bool" where
  "json_ws c = (of_char c \<in> ({9, 10, 13, 32} :: nat set))"

definition skip_ws :: "string \<Rightarrow> string" where "skip_ws s = dropWhile json_ws s"

definition hex_val :: "char \<Rightarrow> nat option" where
  "hex_val c =
     (let n = of_char c :: nat
      in if 48 \<le> n \<and> n \<le> 57 then Some (n - 48)
         else if 97 \<le> n \<and> n \<le> 102 then Some (n - 87)
         else if 65 \<le> n \<and> n \<le> 70 then Some (n - 55) else None)"

definition unescape :: "char \<Rightarrow> char option" where
  "unescape e =
     (if e \<in> {CHR 0x22, CHR 0x5C, CHR ''/''} then Some e
      else if e = CHR ''b'' then Some (char_of (8::nat))
      else if e = CHR ''t'' then Some (char_of (9::nat))
      else if e = CHR ''n'' then Some (char_of (10::nat))
      else if e = CHR ''f'' then Some (char_of (12::nat))
      else if e = CHR ''r'' then Some (char_of (13::nat)) else None)"

definition unhex4 :: "char \<Rightarrow> char \<Rightarrow> char \<Rightarrow> char \<Rightarrow> char option" where
  "unhex4 a b c d =
     (case (hex_val a, hex_val b, hex_val c, hex_val d) of
        (Some w, Some x, Some y, Some z) \<Rightarrow>
          (if w = 0 \<and> x = 0 then Some (char_of (16 * y + z)) else None)
      | _ \<Rightarrow> None)"

fun parse_chars :: "string \<Rightarrow> (string \<times> string) option" where
  "parse_chars [] = None"
| "parse_chars (c # s) =
     (if c = CHR 0x22 then Some ([], s)
      else if c = CHR 0x5C then
        (case s of
           [] \<Rightarrow> None
         | e # s' \<Rightarrow>
             (if e = CHR ''u''
              then (case s' of
                      h1 # h2 # h3 # h4 # s'' \<Rightarrow>
                        (case unhex4 h1 h2 h3 h4 of
                           None \<Rightarrow> None
                         | Some x \<Rightarrow> map_option (\<lambda>(r, t). (x # r, t)) (parse_chars s''))
                    | _ \<Rightarrow> None)
              else (case unescape e of
                      None \<Rightarrow> None
                    | Some x \<Rightarrow> map_option (\<lambda>(r, t). (x # r, t)) (parse_chars s'))))
      else if (of_char c :: nat) < 32 then None
      else map_option (\<lambda>(r, t). (c # r, t)) (parse_chars s))"

definition parse_num :: "string \<Rightarrow> (json \<times> string) option" where
  "parse_num s =
     (let neg = (s \<noteq> [] \<and> hd s = CHR ''-'');
          u = (if neg then tl s else s);
          ds = takeWhile is_digit u;
          rest = dropWhile is_digit u
      in if ds = [] \<or> (1 < length ds \<and> hd ds = CHR ''0'')
            \<or> (rest \<noteq> [] \<and> hd rest \<in> {CHR ''.'', CHR ''e'', CHR ''E''}) then None
         else Some (JNum (if neg then - int (digits_val ds) else int (digits_val ds)), rest))"

definition obj_set :: "('k \<times> 'v) list \<Rightarrow> 'k \<Rightarrow> 'v \<Rightarrow> ('k \<times> 'v) list" where
  "obj_set kvs k v =
     (if k \<in> fst ` set kvs then map (\<lambda>(k', v'). (k', if k' = k then v else v')) kvs
      else kvs @ [(k, v)])"

definition obj_of :: "(string \<times> 'v) list \<Rightarrow> (string \<times> 'v) list" where
  "obj_of kvs = foldl (\<lambda>o' (k, v). obj_set o' k v) [] kvs"

text \<open>Objects and \<open>Map\<close>s keep the order in which their keys were first inserted.\<close>

definition obj_delete :: "'k \<Rightarrow> ('k \<times> 'v) list \<Rightarrow> ('k \<times> 'v) list" where
  "obj_delete k kvs = filter (\<lambda>e. fst e \<noteq> k) kvs"

lemma map_of_obj_delete: "map_of (obj_delete k kvs) = (map_of kvs)(k := None)"
  by (induction kvs) (auto simp: obj_delete_def fun_eq_iff)

lemma set_obj_delete [simp]: "set (obj_delete k kvs) = {e \<in> set kvs. fst e \<noteq> k}"
  by (auto simp: obj_delete_def)

lemma map_of_overwrite:
  "x \<noteq> k \<Longrightarrow> map_of (map (\<lambda>(k', v'). (k', if k' = k then v else v')) kvs) x = map_of kvs x"
  "map_of (map (\<lambda>(k', v'). (k', if k' = k then v else v')) kvs) k = map_option (\<lambda>_. v) (map_of kvs k)"
  by (induction kvs) auto

lemma obj_set_map_of: "map_of (obj_set kvs k v) = (map_of kvs)(k \<mapsto> v)"
proof (cases "k \<in> fst ` set kvs")
  case True
  then obtain w where "map_of kvs k = Some w" by (cases "map_of kvs k") (auto simp: map_of_eq_None_iff)
  with True show ?thesis by (simp add: obj_set_def fun_eq_iff map_of_overwrite)
next
  case False
  then have "map_of (kvs @ [(k, v)]) = (map_of kvs)(k \<mapsto> v)"
    by (induction kvs) (auto simp: fun_upd_twist)
  with False show ?thesis by (simp add: obj_set_def)
qed

lemma distinct_obj_set: "List.distinct (map fst kvs) \<Longrightarrow> List.distinct (map fst (obj_set kvs k v))"
proof -
  assume d: "List.distinct (map fst kvs)"
  have "map fst (map (\<lambda>(k', v'). (k', if k' = k then v else v')) kvs) = map fst kvs" by auto
  with d show ?thesis by (cases "k \<in> fst ` set kvs") (simp_all only: obj_set_def if_True if_False, simp)
qed

lemma set_obj_set: "e \<in> set (obj_set kvs k v) \<Longrightarrow> e = (k, v) \<or> e \<in> set kvs \<and> fst e \<noteq> k"
proof (cases "k \<in> fst ` set kvs")
  case True
  then have "obj_set kvs k v = map (\<lambda>(k', v'). (k', if k' = k then v else v')) kvs"
    by (simp add: obj_set_def)
  then show "e \<in> set (obj_set kvs k v) \<Longrightarrow> ?thesis" by (auto split: if_splits)
next
  case False
  then have "obj_set kvs k v = kvs @ [(k, v)]" by (simp add: obj_set_def)
  with False show "e \<in> set (obj_set kvs k v) \<Longrightarrow> ?thesis" by auto
qed

lemma obj_set_keys: "fst ` set (obj_set kvs k v) = insert k (fst ` set kvs)"
  by (auto simp: obj_set_def image_image case_prod_unfold)

fun parse_val :: "nat \<Rightarrow> string \<Rightarrow> (json \<times> string) option"
  and parse_elems :: "nat \<Rightarrow> string \<Rightarrow> (json list \<times> string) option"
  and parse_members :: "nat \<Rightarrow> string \<Rightarrow> ((string \<times> json) list \<times> string) option" where
  "parse_val 0 s = None"
| "parse_val (Suc n) s =
     (case skip_ws s of
        [] \<Rightarrow> None
      | c # t \<Rightarrow>
          (if c = CHR 0x22 then map_option (\<lambda>(r, u). (JStr r, u)) (parse_chars t)
           else if c = CHR ''['' then
             (if skip_ws t \<noteq> [] \<and> hd (skip_ws t) = CHR '']'' then Some (JArr [], tl (skip_ws t))
              else map_option (\<lambda>(vs, u). (JArr vs, u)) (parse_elems n t))
           else if c = CHR 0x7B then
             (if skip_ws t \<noteq> [] \<and> hd (skip_ws t) = CHR 0x7D then Some (JObj [], tl (skip_ws t))
              else map_option (\<lambda>(kvs, u). (JObj (obj_of kvs), u)) (parse_members n t))
           else if prefix ''null'' (c # t) then Some (JNull, drop 4 (c # t))
           else if prefix ''true'' (c # t) then Some (JBool True, drop 4 (c # t))
           else if prefix ''false'' (c # t) then Some (JBool False, drop 5 (c # t))
           else parse_num (c # t)))"
| "parse_elems 0 s = None"
| "parse_elems (Suc n) s =
     (case parse_val n s of
        None \<Rightarrow> None
      | Some (v, t) \<Rightarrow>
          (case skip_ws t of
             [] \<Rightarrow> None
           | c # u \<Rightarrow>
               (if c = CHR '','' then map_option (\<lambda>(vs, w). (v # vs, w)) (parse_elems n u)
                else if c = CHR '']'' then Some ([v], u) else None)))"
| "parse_members 0 s = None"
| "parse_members (Suc n) s =
     (case skip_ws s of
        [] \<Rightarrow> None
      | q # s1 \<Rightarrow>
          (if q \<noteq> CHR 0x22 then None
           else case parse_chars s1 of
                  None \<Rightarrow> None
                | Some (k, s2) \<Rightarrow>
                    (case skip_ws s2 of
                       [] \<Rightarrow> None
                     | d # s3 \<Rightarrow>
                         (if d \<noteq> CHR '':'' then None
                          else case parse_val n s3 of
                                 None \<Rightarrow> None
                               | Some (v, t) \<Rightarrow>
                                   (case skip_ws t of
                                      [] \<Rightarrow> None
                                    | c # u \<Rightarrow>
                                        (if c = CHR '','' then
                                           map_option (\<lambda>(kvs, w). ((k, v) # kvs, w)) (parse_members n u)
                                         else if c = CHR 0x7D then Some ([(k, v)], u)
                                         else None))))))"

definition json_parse :: "string \<Rightarrow> json option" where
  "json_parse s =
     (case parse_val (Suc (length s)) s of
        Some (v, t) \<Rightarrow> if skip_ws t = [] then Some v else None
      | None \<Rightarrow> None)"


section \<open>Round trip\<close>

lemma hex_val_hex_digit: "k < 16 \<Longrightarrow> hex_val (hex_digit k) = Some k"
  by (auto simp: hex_val_def hex_digit_def Let_def)

lemma unhex4_hex:
  "n < 32 \<Longrightarrow> unhex4 (CHR ''0'') (CHR ''0'') (hex_digit (n div 16)) (hex_digit (n mod 16)) =
   Some (char_of n)"
proof -
  assume "n < 32"
  then have "n div 16 < 16" "n mod 16 < 16" by auto
  moreover have "hex_val (CHR ''0'') = Some 0" by (simp add: hex_val_def Let_def)
  ultimately show ?thesis by (simp add: unhex4_def hex_val_hex_digit)
qed

lemma char_eq_of_nat: "of_char c = n \<Longrightarrow> c = char_of (n :: nat)"
  by auto

lemma parse_chars_esc:
  "parse_chars (esc_char c @ s) = map_option (\<lambda>(r, t). (c # r, t)) (parse_chars s)"
proof -
  consider "c = CHR 0x22" | "c = CHR 0x5C"
    | "of_char c \<in> ({8, 9, 10, 12, 13} :: nat set)"
    | "c \<noteq> CHR 0x22" "c \<noteq> CHR 0x5C" "of_char c \<notin> ({8, 9, 10, 12, 13} :: nat set)" "(of_char c :: nat) < 32"
    | "c \<noteq> CHR 0x22" "c \<noteq> CHR 0x5C" "32 \<le> (of_char c :: nat)"
    by linarith
  then show ?thesis
  proof cases
    case 3
    then have "c = char_of (8 :: nat) \<or> c = char_of (9 :: nat) \<or> c = char_of (10 :: nat)
        \<or> c = char_of (12 :: nat) \<or> c = char_of (13 :: nat)"
      by (auto dest!: char_eq_of_nat)
    then show ?thesis by (elim disjE) (simp_all add: esc_char_def Let_def unescape_def)
  next
    case 4
    then show ?thesis by (simp add: esc_char_def Let_def unhex4_hex)
  qed (simp_all add: esc_char_def Let_def unescape_def)
qed

lemma parse_chars_quoted:
  "parse_chars (concat (map esc_char s) @ CHR 0x22 # rest) = Some (s, rest)"
  by (induction s) (auto simp: parse_chars_esc)

definition json_stop :: "string \<Rightarrow> bool" where
  "json_stop s = (s = [] \<or> hd s \<in> {CHR '','', CHR '']'', CHR 0x7D})"

lemma takeWhile_digits_stop:
  assumes "\<And>c. c \<in> set ds \<Longrightarrow> is_digit c" and "json_stop rest"
  shows "takeWhile is_digit (ds @ rest) = ds" and "dropWhile is_digit (ds @ rest) = rest"
proof -
  have "rest = [] \<or> \<not> is_digit (hd rest)"
    using assms(2) by (auto simp: json_stop_def is_digit_def)
  with assms(1) show "takeWhile is_digit (ds @ rest) = ds" "dropWhile is_digit (ds @ rest) = rest"
    by (cases rest; simp)+
qed

lemma show_nat_minus: "hd (show_nat n) \<noteq> CHR ''-''"
  using show_nat_digits[of "hd (show_nat n)" n] by (auto simp: is_digit_def)

lemma parse_num_show_int:
  assumes "json_stop rest"
  shows "parse_num (show_int i @ rest) = Some (JNum i, rest)"
proof -
  have stop: "\<not> (rest \<noteq> [] \<and> hd rest \<in> {CHR ''.'', CHR ''e'', CHR ''E''})"
    using assms by (auto simp: json_stop_def)
  have zero: "\<not> (1 < length (show_nat n) \<and> hd (show_nat n) = CHR ''0'')" for n
    using show_nat_no_leading_zero[of n] by auto
  have tw: "takeWhile is_digit (show_nat n @ rest) = show_nat n"
    "dropWhile is_digit (show_nat n @ rest) = rest" for n
    by (rule takeWhile_digits_stop[OF show_nat_digits assms], assumption)+
  show ?thesis
  proof (cases "i < 0")
    case True
    then show ?thesis
      using stop zero
      by (simp add: parse_num_def show_int_def Let_def tw del: dropWhile_eq_Nil_conv takeWhile_eq_Nil_iff)
  next
    case False
    then show ?thesis
      using stop zero show_nat_minus
      by (simp add: parse_num_def show_int_def Let_def tw del: dropWhile_eq_Nil_conv takeWhile_eq_Nil_iff)
  qed
qed

lemma show_int_start:
  "show_int i \<noteq> [] \<and> (hd (show_int i) = CHR ''-'' \<or> is_digit (hd (show_int i)))"
  using show_nat_digits[of "hd (show_nat (nat i))" "nat i"] by (auto simp: show_int_def)

definition json_start :: "char \<Rightarrow> bool" where
  "json_start c = (c \<in> {CHR ''n'', CHR ''t'', CHR ''f'', CHR 0x22, CHR ''['', CHR 0x7B, CHR ''-''} \<or> is_digit c)"

lemma json_start_not_ws: "json_start c \<Longrightarrow> \<not> json_ws c \<and> c \<notin> {CHR '']'', CHR 0x7D}"
  by (auto simp: json_start_def json_ws_def is_digit_def Let_def)

lemma stringify_start: "\<exists>c t. stringify v = c # t \<and> json_start c"
proof (cases v)
  case (JNum i)
  then show ?thesis
    using show_int_start[of i] by (cases "show_int i") (auto simp: json_start_def)
qed (auto simp: json_start_def quote_json_def)

lemma skip_ws_start [simp]: "json_start c \<Longrightarrow> skip_ws (c # t) = c # t"
  using json_start_not_ws[of c] by (simp add: skip_ws_def)

lemma skip_ws_stringify: "skip_ws (stringify v @ s) = stringify v @ s"
  using stringify_start[of v] by auto

lemma obj_of_distinct:
  assumes "distinct (map fst kvs)"
  shows "obj_of kvs = kvs"
proof -
  have "foldl (\<lambda>o' (k, v). obj_set o' k v) acc kvs = acc @ kvs"
    if "distinct (map fst (acc @ kvs))" for acc
    using that
  proof (induction kvs arbitrary: acc)
    case (Cons a kvs)
    obtain k v where a: "a = (k, v)" by force
    with Cons.prems have "obj_set acc k v = acc @ [(k, v)]" by (auto simp: obj_set_def)
    with Cons.IH[of "acc @ [(k, v)]"] Cons.prems a show ?case by simp
  qed simp
  from this[of "[]"] assms show ?thesis by (simp add: obj_of_def)
qed

text \<open>A value a JavaScript object can hold: no object has a property twice.\<close>

fun json_wf :: "json \<Rightarrow> bool" where
  "json_wf (JArr xs) = list_all json_wf xs"
| "json_wf (JObj kvs) = (distinct (map fst kvs) \<and> list_all (\<lambda>(k, v). json_wf v) kvs)"
| "json_wf _ = True"

fun elems_str :: "json list \<Rightarrow> string" where
  "elems_str [] = []"
| "elems_str [v] = stringify v @ '']''"
| "elems_str (v # w # vs) = stringify v @ '','' @ elems_str (w # vs)"

fun members_str :: "(string \<times> json) list \<Rightarrow> string" where
  "members_str [] = []"
| "members_str [(k, v)] = quote_json k @ '':'' @ stringify v @ [CHR 0x7D]"
| "members_str ((k, v) # w # kvs) =
     quote_json k @ '':'' @ stringify v @ '','' @ members_str (w # kvs)"

lemma join_elems: "vs \<noteq> [] \<Longrightarrow> join '','' (map stringify vs) @ '']'' = elems_str vs"
  by (induction vs rule: elems_str.induct) auto

lemma join_members:
  "kvs \<noteq> [] \<Longrightarrow>
   join '','' (map (\<lambda>(k, v). quote_json k @ '':'' @ stringify v) kvs) @ [CHR 0x7D] = members_str kvs"
  by (induction kvs rule: members_str.induct) auto

lemma elems_str_start: "vs \<noteq> [] \<Longrightarrow> \<exists>c t. elems_str vs = c # t \<and> json_start c"
proof (cases vs rule: elems_str.cases)
  case (2 v)
  then show ?thesis using stringify_start[of v] by auto
next
  case (3 v w vs)
  then show ?thesis using stringify_start[of v] by auto
qed simp

lemma members_str_start: "kvs \<noteq> [] \<Longrightarrow> \<exists>t. members_str kvs = CHR 0x22 # t"
  by (induction kvs rule: members_str.induct) (auto simp: quote_json_def)

definition reads_back :: "json \<Rightarrow> bool" where
  "reads_back v =
     (\<forall>m rest. length (stringify v) \<le> m \<longrightarrow> json_stop rest \<longrightarrow>
        parse_val (Suc m) (stringify v @ rest) = Some (v, rest))"

lemma reads_backD:
  "reads_back v \<Longrightarrow> length (stringify v) < n \<Longrightarrow> json_stop rest \<Longrightarrow>
   parse_val n (stringify v @ rest) = Some (v, rest)"
  by (cases n) (auto simp: reads_back_def simp del: parse_val.simps)

lemma json_stop_simps [simp]:
  "json_stop []" "json_stop (CHR '','' # s)" "json_stop (CHR '']'' # s)" "json_stop (CHR 0x7D # s)"
  by (simp_all add: json_stop_def)

lemma parse_elems_back:
  assumes "vs \<noteq> []" and "\<And>v. v \<in> set vs \<Longrightarrow> reads_back v" and "length (elems_str vs) < n"
  shows "parse_elems n (elems_str vs @ rest) = Some (vs, rest)"
  using assms
proof (induction vs arbitrary: n rule: elems_str.induct)
  case (2 v)
  then obtain m where n: "n = Suc m" "length (stringify v) < m" by (cases n) auto
  have "parse_val m (stringify v @ '']'' @ rest) = Some (v, '']'' @ rest)"
    by (rule reads_backD) (use 2 n in auto)
  with n show ?case by (simp add: skip_ws_def json_ws_def)
next
  case (3 v w vs)
  then obtain m where n: "n = Suc m" "length (stringify v) < m" "length (elems_str (w # vs)) < m"
    by (cases n) auto
  have "parse_val m (stringify v @ '','' @ elems_str (w # vs) @ rest)
      = Some (v, '','' @ elems_str (w # vs) @ rest)"
    by (rule reads_backD) (use 3 n in auto)
  moreover have "parse_elems m (elems_str (w # vs) @ rest) = Some (w # vs, rest)"
    by (rule "3.IH") (use 3 n in auto)
  ultimately show ?case using n by (simp add: skip_ws_def json_ws_def)
qed simp

lemma parse_members_back:
  assumes "kvs \<noteq> []" and "\<And>k v. (k, v) \<in> set kvs \<Longrightarrow> reads_back v" and "length (members_str kvs) < n"
  shows "parse_members n (members_str kvs @ rest) = Some (kvs, rest)"
  using assms
proof (induction kvs arbitrary: n rule: members_str.induct)
  case (2 k v)
  then obtain m where n: "n = Suc m" "length (stringify v) < m" by (cases n) auto
  have "parse_val m (stringify v @ CHR 0x7D # rest) = Some (v, CHR 0x7D # rest)"
    by (rule reads_backD) (use 2 n in auto)
  with n show ?case by (simp add: skip_ws_def json_ws_def quote_json_def parse_chars_quoted)
next
  case (3 k v w kvs)
  then obtain m where n: "n = Suc m" "length (stringify v) < m" "length (members_str (w # kvs)) < m"
    by (cases n) auto
  have "parse_val m (stringify v @ CHR '','' # members_str (w # kvs) @ rest)
      = Some (v, CHR '','' # members_str (w # kvs) @ rest)"
    by (rule reads_backD) (use 3 n in auto)
  moreover have "parse_members m (members_str (w # kvs) @ rest) = Some (w # kvs, rest)"
    by (rule "3.IH") (use 3 n in auto)
  ultimately show ?case
    using n by (simp add: skip_ws_def json_ws_def quote_json_def parse_chars_quoted)
qed simp

lemma parse_val_num:
  assumes "c = CHR ''-'' \<or> is_digit c"
  shows "parse_val (Suc n) (c # t) = parse_num (c # t)"
proof -
  have "c \<notin> {CHR ''n'', CHR ''t'', CHR ''f'', CHR 0x22, CHR ''['', CHR 0x7B}" and "json_start c"
    using assms by (auto simp: is_digit_def json_start_def)
  then show ?thesis by auto
qed

lemma reads_back_JNum: "reads_back (JNum i)"
proof -
  obtain c t where ct: "show_int i = c # t" "c = CHR ''-'' \<or> is_digit c"
    using show_int_start[of i] by (cases "show_int i") auto
  have "parse_val (Suc m) (show_int i @ rest) = Some (JNum i, rest)" if "json_stop rest" for m rest
    using parse_val_num[OF ct(2), of m "t @ rest"] parse_num_show_int[OF that, of i] ct(1)
    by (simp del: parse_val.simps)
  then show ?thesis by (simp add: reads_back_def del: parse_val.simps)
qed

lemma reads_back_JArr:
  assumes "\<And>v. v \<in> set xs \<Longrightarrow> reads_back v"
  shows "reads_back (JArr xs)"
proof (cases "xs = []")
  case True
  then show ?thesis by (simp add: reads_back_def skip_ws_def json_ws_def)
next
  case False
  obtain c t where ct: "elems_str xs = c # t" "json_start c" using elems_str_start[OF False] by blast
  have str: "stringify (JArr xs) = ''['' @ elems_str xs" using join_elems[OF False] by simp
  have "parse_val (Suc m) (stringify (JArr xs) @ rest) = Some (JArr xs, rest)"
    if "length (stringify (JArr xs)) \<le> m" for m rest
  proof -
    have "parse_elems m (elems_str xs @ rest) = Some (xs, rest)"
      by (rule parse_elems_back[OF False]) (use that[unfolded str] assms in auto)
    moreover have "skip_ws (elems_str xs @ rest) = c # t @ rest" using ct by simp
    ultimately show ?thesis
      unfolding str using json_start_not_ws[OF ct(2)] by (simp add: skip_ws_def[of "CHR ''['' # _"] json_ws_def)
  qed
  then show ?thesis by (simp add: reads_back_def del: parse_val.simps)
qed

lemma reads_back_JObj:
  assumes "\<And>k v. (k, v) \<in> set kvs \<Longrightarrow> reads_back v" and "distinct (map fst kvs)"
  shows "reads_back (JObj kvs)"
proof (cases "kvs = []")
  case True
  then show ?thesis by (simp add: reads_back_def skip_ws_def json_ws_def)
next
  case False
  obtain t where ct: "members_str kvs = CHR 0x22 # t" using members_str_start[OF False] by blast
  have str: "stringify (JObj kvs) = CHR 0x7B # members_str kvs" using join_members[OF False] by simp
  have "parse_val (Suc m) (stringify (JObj kvs) @ rest) = Some (JObj kvs, rest)"
    if "length (stringify (JObj kvs)) \<le> m" for m rest
  proof -
    have "parse_members m (members_str kvs @ rest) = Some (kvs, rest)"
      by (rule parse_members_back[OF False]) (use that[unfolded str] assms in auto)
    moreover have "skip_ws (members_str kvs @ rest) = CHR 0x22 # t @ rest"
      using ct by (simp add: skip_ws_def json_ws_def)
    ultimately show ?thesis
      unfolding str using obj_of_distinct[OF assms(2)]
      by (simp add: skip_ws_def[of "CHR 0x7B # _"] json_ws_def)
  qed
  then show ?thesis by (simp add: reads_back_def del: parse_val.simps)
qed

lemma stringify_reads_back: "json_wf v \<Longrightarrow> reads_back v"
proof (induction v)
  case (JNum i)
  show ?case by (rule reads_back_JNum)
next
  case (JArr xs)
  then show ?case by (intro reads_back_JArr) (auto simp: list_all_iff)
next
  case (JObj kvs)
  show ?case
  proof (rule reads_back_JObj)
    show "reads_back v" if "(k, v) \<in> set kvs" for k v
      by (rule JObj.IH[OF that]) (use JObj.prems that in \<open>auto simp: list_all_iff\<close>)
  qed (use JObj.prems in simp)
qed (auto simp: reads_back_def quote_json_def skip_ws_def json_ws_def parse_chars_quoted)

theorem json_round_trip:
  assumes "json_wf v"
  shows "json_parse (stringify v) = Some v"
proof -
  have "parse_val (Suc (length (stringify v))) (stringify v @ []) = Some (v, [])"
    using stringify_reads_back[OF assms] by (rule reads_backD) simp_all
  then show ?thesis by (simp add: json_parse_def skip_ws_def del: parse_val.simps)
qed

lemma json_parse_empty [simp]: "json_parse [] = None"
  by (simp add: json_parse_def skip_ws_def)

section \<open>UTF-8\<close>

definition utf8_encode :: "string \<Rightarrow> bytes" where
  "utf8_encode s =
     concat (map (\<lambda>c. let n = of_char c :: nat
                      in if n < 128 then [c] else [char_of (192 + n div 64), char_of (128 + n mod 64)]) s)"

text \<open>\<^const>\<open>None\<close>: the text has a code unit the model does not know.\<close>

fun utf8_decode :: "bytes \<Rightarrow> string option" where
  "utf8_decode [] = Some []"
| "utf8_decode (b # s) =
     (if (of_char b :: nat) < 128 then map_option ((#) b) (utf8_decode s)
      else (case s of
              [] \<Rightarrow> None
            | b' # s' \<Rightarrow>
                (if (of_char b :: nat) \<in> {194, 195} \<and> 128 \<le> (of_char b' :: nat) \<and> (of_char b' :: nat) < 192
                 then map_option ((#) (char_of ((of_char b - 192) * 64 + (of_char b' - 128) :: nat))) (utf8_decode s')
                 else None)))"

lemma length_utf8_encode [simp]: "length (utf8_encode s) = utf8_len s"
  by (induction s) (auto simp: utf8_encode_def Let_def)

lemma of_char_lt_256: "(of_char c :: nat) < 256"
  by (metis of_char_mod_256 mod_less_divisor zero_less_numeral)

lemma utf8_round_trip [simp]: "utf8_decode (utf8_encode s) = Some s"
proof (induction s)
  case (Cons c s)
  define n where "n = (of_char c :: nat)"
  have n: "n < 256" "c = char_of n" by (simp_all add: n_def of_char_lt_256)
  show ?case
  proof (cases "n < 128")
    case True
    with Cons show ?thesis by (simp add: utf8_encode_def Let_def n_def)
  next
    case False
    define q r where "q = n div 64" and "r = n mod 64"
    have r: "r < 64" and q: "q = 2 \<or> q = 3" and nqr: "n = 64 * q + r"
      using n(1) False by (auto simp: q_def r_def)
    have enc: "utf8_encode (c # s) = char_of (192 + q) # char_of (128 + r) # utf8_encode s"
      using False by (simp add: utf8_encode_def Let_def n_def q_def r_def)
    from q show ?thesis
      by (elim disjE) (use enc r n(2) nqr Cons in simp_all)
  qed
qed (simp add: utf8_encode_def)

end
