(* ===== verification/Queue.thy ===== *)
theory Queue
  imports Contracts Json
begin

text \<open>
  The queues of \<^verbatim>\<open>src/bindings/queue.ts\<close>: the producer (\<open>send\<close>, \<open>sendBatch\<close>), the push
  consumer (\<open>poll\<close> and the delivery of a batch) and the pull consumer (\<open>pull\<close>, \<open>ack\<close>), over the
  tables \<open>queue_messages\<close> and \<open>queue_leases\<close>.

  The values the runtime supplies are arguments: the time \<open>now\<close> of the clock (constant during a
  synchronous stretch of code), the identifiers of \<open>randomUUIDv7\<close> and \<open>randomUUID\<close>, and what the
  user's handler did with a batch (the calls it made, in order, and whether it threw). The push
  consumer is split where it awaits the handler: \<open>poll_begin\<close> runs up to the call of the handler,
  \<open>poll_end\<close> from its return on, and other operations may change the tables in between.
\<close>

section \<open>Types\<close>

datatype content_type = CtJson | CtText | CtBytes | CtV8

datatype js_message = MUndefined | MArrayBuffer bytes | MUint8Array bytes | MValue json

datatype decoded = DBytes bytes | DText string | DValue json

datatype queue_error =
    DelayOutOfRange int
  | BytesRequired
  | MessageTooLarge nat
  | TooManyMessages nat
  | BatchTooLarge nat
  | JsonSyntaxError
  | TextOutsideModel \<comment> \<open>a stored text with code units the model does not know\<close>

datatype message_status = Pending | Acked | Failed

record queue_row =
  qr_id :: string
  qr_queue :: string
  qr_body :: bytes
  qr_content_type :: content_type
  qr_attempts :: nat
  qr_status :: message_status
  qr_visible_at :: int
  qr_created_at :: int
  qr_completed_at :: "int option"

record lease =
  ls_id :: string
  ls_message :: string
  ls_queue :: string
  ls_expires_at :: int

record queue_limits =
  maxMessageSize :: nat
  maxBatchMessages :: nat
  maxBatchSize :: nat
  maxDelaySeconds :: int

definition QUEUE_DEFAULTS :: queue_limits where
  "QUEUE_DEFAULTS = \<lparr>maxMessageSize = 128 * 1024, maxBatchMessages = 100,
     maxBatchSize = 256 * 1024, maxDelaySeconds = 43200\<rparr>"

record producer =
  qp_queueName :: string
  qp_defaultDelay :: int
  qp_limits :: queue_limits

record consumer_config =
  cc_queue :: string
  cc_maxBatchSize :: nat
  cc_maxRetries :: nat
  cc_deadLetterQueue :: "string option"
  cc_maxConcurrency :: "nat option"
  cc_retryDelay :: "int option"
  cc_retentionPeriodSeconds :: "int option"

section \<open>Encoding of bodies\<close>

text \<open>\<open>String(v)\<close> and \<open>JSON.stringify(v)\<close> of a message; a view other than \<open>Uint8Array\<close> is not modelled.\<close>

fun js_String :: "json \<Rightarrow> string" where
  "js_String JNull = ''null''"
| "js_String (JBool b) = (if b then ''true'' else ''false'')"
| "js_String (JNum i) = show_int i"
| "js_String (JStr s) = s"
| "js_String (JArr vs) = join '','' (map (\<lambda>v. if v = JNull then '''' else js_String v) vs)"
| "js_String (JObj _) = ''[object Object]''"

fun message_String :: "js_message \<Rightarrow> string" where
  "message_String MUndefined = ''undefined''"
| "message_String (MArrayBuffer _) = ''[object ArrayBuffer]''"
| "message_String (MUint8Array b) = join '','' (map (\<lambda>c. show_nat (of_char c)) b)"
| "message_String (MValue v) = js_String v"

fun message_stringify :: "js_message \<Rightarrow> string option" where
  "message_stringify MUndefined = None"
| "message_stringify (MArrayBuffer _) = Some ''{}''"
| "message_stringify (MUint8Array b) =
     Some (stringify (JObj (map (\<lambda>(i, c). (show_nat i, JNum (of_char c))) (enumerate 0 b))))"
| "message_stringify (MValue v) = Some (stringify v)"

definition TextEncoder_encode :: "string option \<Rightarrow> bytes" where
  "TextEncoder_encode s = (case s of None \<Rightarrow> [] | Some t \<Rightarrow> utf8_encode t)"

definition encodeBody :: "js_message \<Rightarrow> content_type \<Rightarrow> (queue_error, bytes) res" where
  "encodeBody message contentType =
     (case contentType of
        CtBytes \<Rightarrow> (case message of
                     MArrayBuffer b \<Rightarrow> Inr b
                   | MUint8Array b \<Rightarrow> Inr b
                   | _ \<Rightarrow> Inl BytesRequired)
      | CtText \<Rightarrow> Inr (TextEncoder_encode (Some (message_String message)))
      | CtV8 \<Rightarrow> Inr (TextEncoder_encode (message_stringify message))
      | CtJson \<Rightarrow> Inr (TextEncoder_encode (message_stringify message)))"

definition parse_text :: "bytes \<Rightarrow> (queue_error, decoded) res" where
  "parse_text raw =
     (case utf8_decode raw of
        None \<Rightarrow> Inl TextOutsideModel
      | Some t \<Rightarrow> (case json_parse t of None \<Rightarrow> Inl JsonSyntaxError | Some v \<Rightarrow> Inr (DValue v)))"

definition decodeBody :: "bytes \<Rightarrow> content_type \<Rightarrow> (queue_error, decoded) res" where
  "decodeBody raw contentType =
     (case contentType of
        CtBytes \<Rightarrow> Inr (DBytes raw)
      | CtText \<Rightarrow> (case utf8_decode raw of None \<Rightarrow> Inl TextOutsideModel | Some t \<Rightarrow> Inr (DText t))
      | CtV8 \<Rightarrow> parse_text raw
      | CtJson \<Rightarrow> parse_text raw)"

section \<open>Producer\<close>

definition new_row ::
    "string \<Rightarrow> string \<Rightarrow> bytes \<Rightarrow> content_type \<Rightarrow> int \<Rightarrow> int \<Rightarrow> queue_row" where
  "new_row uuid queue body ct visibleAt now =
     \<lparr>qr_id = uuid, qr_queue = queue, qr_body = body, qr_content_type = ct, qr_attempts = 0,
      qr_status = Pending, qr_visible_at = visibleAt, qr_created_at = now, qr_completed_at = None\<rparr>"

definition check_message ::
    "producer \<Rightarrow> js_message \<Rightarrow> content_type \<Rightarrow> int \<Rightarrow> (queue_error, bytes) res" where
  "check_message p message contentType delaySeconds =
     (if delaySeconds < 0 \<or> maxDelaySeconds (qp_limits p) < delaySeconds
      then Inl (DelayOutOfRange (maxDelaySeconds (qp_limits p)))
      else bind_res (encodeBody message contentType)
             (\<lambda>encoded. if maxMessageSize (qp_limits p) < length encoded
                        then Inl (MessageTooLarge (maxMessageSize (qp_limits p)))
                        else Inr encoded))"

definition send ::
    "producer \<Rightarrow> js_message \<Rightarrow> content_type option \<Rightarrow> int option \<Rightarrow> string \<Rightarrow> int
     \<Rightarrow> queue_row list \<Rightarrow> (queue_error, queue_row list) res" where
  "send p message ct delay uuid now t =
     (let contentType = nullish ct CtJson;
          delaySeconds = nullish delay (qp_defaultDelay p)
      in bind_res (check_message p message contentType delaySeconds)
           (\<lambda>encoded. Inr (sql_insert (new_row uuid (qp_queueName p) encoded contentType
                                         (now + delaySeconds * 1000) now) t)))"

record batch_message =
  bm_body :: js_message
  bm_contentType :: "content_type option"
  bm_delaySeconds :: "int option"

record encoded_message =
  em_data :: bytes
  em_contentType :: content_type
  em_delaySeconds :: int

text \<open>The loop that encodes and checks every message of a batch, with the total size so far.\<close>

fun encode_batch ::
    "producer \<Rightarrow> content_type option \<Rightarrow> int option \<Rightarrow> batch_message list \<Rightarrow> nat
     \<Rightarrow> (queue_error, encoded_message list \<times> nat) res" where
  "encode_batch p ct delay [] totalSize = Inr ([], totalSize)"
| "encode_batch p ct delay (msg # msgs) totalSize =
     (let contentType = nullish (bm_contentType msg) (nullish ct CtJson);
          delaySeconds = nullish (bm_delaySeconds msg) (nullish delay (qp_defaultDelay p))
      in bind_res (check_message p (bm_body msg) contentType delaySeconds)
           (\<lambda>encoded.
              bind_res (encode_batch p ct delay msgs (totalSize + length encoded))
                (\<lambda>(rest, total).
                   Inr (\<lparr>em_data = encoded, em_contentType = contentType,
                         em_delaySeconds = delaySeconds\<rparr> # rest, total))))"

fun insert_batch ::
    "producer \<Rightarrow> int \<Rightarrow> (encoded_message \<times> string) list \<Rightarrow> queue_row list \<Rightarrow> queue_row list" where
  "insert_batch p now [] t = t"
| "insert_batch p now ((m, uuid) # ms) t =
     insert_batch p now ms
       (sql_insert (new_row uuid (qp_queueName p) (em_data m) (em_contentType m)
                      (now + em_delaySeconds m * 1000) now) t)"

definition sendBatch ::
    "producer \<Rightarrow> batch_message list \<Rightarrow> content_type option \<Rightarrow> int option \<Rightarrow> (nat \<Rightarrow> string) \<Rightarrow> int
     \<Rightarrow> queue_row list \<Rightarrow> (queue_error, queue_row list) res" where
  "sendBatch p messages ct delay uuid now t =
     (if maxBatchMessages (qp_limits p) < length messages
      then Inl (TooManyMessages (maxBatchMessages (qp_limits p)))
      else bind_res (encode_batch p ct delay messages 0)
             (\<lambda>(encoded, totalSize).
                if maxBatchSize (qp_limits p) < totalSize
                then Inl (BatchTooLarge (maxBatchSize (qp_limits p)))
                else Inr (insert_batch p now (zip encoded (map uuid [0..<length encoded])) t)))"

section \<open>Push consumer\<close>

datatype decision = DAck | DRetry "int option"

text \<open>The calls a handler can make on a batch and its messages.\<close>

datatype batch_call =
    CallAck string
  | CallRetry string "int option"
  | CallAckAll
  | CallRetryAll "int option"

fun apply_call ::
    "(string \<rightharpoonup> decision) \<times> decision option \<Rightarrow> batch_call \<Rightarrow> (string \<rightharpoonup> decision) \<times> decision option" where
  "apply_call (messageDecisions, batchDecision) (CallAck i) =
     (messageDecisions(i \<mapsto> DAck), batchDecision)"
| "apply_call (messageDecisions, batchDecision) (CallRetry i d) =
     (messageDecisions(i \<mapsto> DRetry d), batchDecision)"
| "apply_call (messageDecisions, batchDecision) CallAckAll =
     (messageDecisions, Some DAck)"
| "apply_call (messageDecisions, batchDecision) (CallRetryAll d) =
     (messageDecisions, Some (DRetry d))"

definition decisions :: "batch_call list \<Rightarrow> (string \<rightharpoonup> decision) \<times> decision option" where
  "decisions calls = foldl apply_call (Map.empty, None) calls"

record message =
  msg_id :: string
  msg_timestamp :: int
  msg_body :: decoded
  msg_attempts :: nat

fun to_messages :: "queue_row list \<Rightarrow> (queue_error, message list) res" where
  "to_messages [] = Inr []"
| "to_messages (row # rows) =
     bind_res (decodeBody (qr_body row) (qr_content_type row))
       (\<lambda>body. bind_res (to_messages rows)
          (\<lambda>ms. Inr (\<lparr>msg_id = qr_id row, msg_timestamp = qr_created_at row, msg_body = body,
                      msg_attempts = qr_attempts row + 1\<rparr> # ms)))"

record consumer =
  qc_polling :: bool
  qc_activeDeliveries :: nat

datatype poll_outcome =
    PollSkipped
  | PollEmpty
  | PollThrown queue_error
  | PollHandler "queue_row list" "message list" \<comment> \<open>the handler is called with the messages\<close>

definition concurrency_gate :: "consumer_config \<Rightarrow> consumer \<Rightarrow> bool" where
  "concurrency_gate cfg c =
     (case cc_maxConcurrency cfg of None \<Rightarrow> False
      | Some m \<Rightarrow> m \<noteq> 0 \<and> m \<le> qc_activeDeliveries c)"

definition eligible :: "string \<Rightarrow> int \<Rightarrow> queue_row \<Rightarrow> bool" where
  "eligible queue now r =
     (qr_queue r = queue \<and> qr_status r = Pending \<and> qr_visible_at r \<le> now)"

definition expire_messages :: "consumer_config \<Rightarrow> int \<Rightarrow> queue_row list \<Rightarrow> queue_row list" where
  "expire_messages cfg now t =
     (let retentionMs = nullish (cc_retentionPeriodSeconds cfg) 345600 * 1000
      in sql_delete (\<lambda>r. qr_queue r = cc_queue cfg \<and> qr_created_at r < now - retentionMs) t)"

definition select_batch :: "consumer_config \<Rightarrow> int \<Rightarrow> queue_row list \<Rightarrow> queue_row list" where
  "select_batch cfg now t =
     sql_select_ordered (eligible (cc_queue cfg) now) qr_visible_at (cc_maxBatchSize cfg) t"

definition bump_attempts :: "string list \<Rightarrow> queue_row list \<Rightarrow> queue_row list" where
  "bump_attempts ids t =
     sql_update (\<lambda>r. qr_id r \<in> set ids) (\<lambda>r. r\<lparr>qr_attempts := qr_attempts r + 1\<rparr>) t"

definition poll_begin ::
    "consumer_config \<Rightarrow> int \<Rightarrow> consumer \<times> queue_row list
     \<Rightarrow> poll_outcome \<times> consumer \<times> queue_row list" where
  "poll_begin cfg now st =
     (let (c, t) = st in
      if qc_polling c then (PollSkipped, c, t)
      else if concurrency_gate cfg c then (PollSkipped, c, t)
      else (let t1 = expire_messages cfg now t;
                rows = select_batch cfg now t1
            in if rows = [] then (PollEmpty, c\<lparr>qc_polling := False\<rparr>, t1)
               else (let t2 = bump_attempts (map qr_id rows) t1
                     in (case to_messages rows of
                           Inl e \<Rightarrow> (PollThrown e, c\<lparr>qc_polling := False\<rparr>, t2)
                         | Inr ms \<Rightarrow>
                             (PollHandler rows ms,
                              c\<lparr>qc_polling := True,
                                qc_activeDeliveries := qc_activeDeliveries c + 1\<rparr>, t2)))))"

definition truthy_str :: "string option \<Rightarrow> bool" where
  "truthy_str s = (case s of None \<Rightarrow> False | Some x \<Rightarrow> x \<noteq> '''')"

definition settle_row ::
    "consumer_config \<Rightarrow> int \<Rightarrow> decision option \<Rightarrow> queue_row \<Rightarrow> queue_row list \<Rightarrow> queue_row list" where
  "settle_row cfg now dec row t =
     (let currentAttempts = qr_attempts row + 1;
          upd = (\<lambda>f. sql_update (\<lambda>r. qr_id r = qr_id row) f t)
      in (case dec of
            None \<Rightarrow> upd (\<lambda>r. r\<lparr>qr_status := Acked, qr_completed_at := Some now\<rparr>)
          | Some DAck \<Rightarrow> upd (\<lambda>r. r\<lparr>qr_status := Acked, qr_completed_at := Some now\<rparr>)
          | Some (DRetry delaySeconds) \<Rightarrow>
              (let delay = nullish delaySeconds (nullish (cc_retryDelay cfg) 0)
               in if cc_maxRetries cfg \<le> currentAttempts
                  then (if truthy_str (cc_deadLetterQueue cfg)
                        then upd (\<lambda>r. r\<lparr>qr_queue := the (cc_deadLetterQueue cfg),
                                        qr_visible_at := now, qr_status := Pending\<rparr>)
                        else upd (\<lambda>r. r\<lparr>qr_status := Failed, qr_completed_at := Some now\<rparr>))
                  else upd (\<lambda>r. r\<lparr>qr_visible_at := now + delay * 1000\<rparr>))))"

definition row_decision ::
    "bool \<Rightarrow> (string \<rightharpoonup> decision) \<times> decision option \<Rightarrow> queue_row \<Rightarrow> decision option" where
  "row_decision handlerError ds row =
     (if handlerError then Some (DRetry None)
      else (case fst ds (qr_id row) of Some d \<Rightarrow> Some d | None \<Rightarrow> snd ds))"

definition poll_end ::
    "consumer_config \<Rightarrow> int \<Rightarrow> queue_row list \<Rightarrow> batch_call list \<Rightarrow> bool
     \<Rightarrow> consumer \<times> queue_row list \<Rightarrow> consumer \<times> queue_row list" where
  "poll_end cfg now rows calls handlerError st =
     (let (c, t) = st;
          ds = decisions calls;
          t' = foldl (\<lambda>t row. settle_row cfg now (row_decision handlerError ds row) row t) t rows
      in (c\<lparr>qc_polling := False, qc_activeDeliveries := qc_activeDeliveries c - 1\<rparr>, t'))"

section \<open>Pull consumer\<close>

definition DEFAULT_VISIBILITY_TIMEOUT_MS :: int where "DEFAULT_VISIBILITY_TIMEOUT_MS = 30000"
definition DEFAULT_PULL_BATCH_SIZE :: nat where "DEFAULT_PULL_BATCH_SIZE = 10"

record pull_message =
  pm_lease_id :: string
  pm_id :: string
  pm_timestamp :: int
  pm_body :: decoded
  pm_attempts :: nat

type_synonym queue_db = "queue_row list \<times> lease list"

definition active_lease :: "string \<Rightarrow> int \<Rightarrow> lease \<Rightarrow> bool" where
  "active_lease queue now l = (ls_queue l = queue \<and> now < ls_expires_at l)"

definition pull_rows :: "string \<Rightarrow> int \<Rightarrow> nat \<Rightarrow> queue_db \<Rightarrow> queue_row list" where
  "pull_rows queue now batchSize db =
     sql_select_ordered
       (\<lambda>r. eligible queue now r
            \<and> qr_id r \<notin> set (map ls_message (sql_select (active_lease queue now) (snd db))))
       qr_visible_at batchSize (fst db)"

text \<open>The body of the transaction: a lease, the attempt counter and the decoded body, row by row.\<close>

fun lease_rows ::
    "string \<Rightarrow> int \<Rightarrow> (queue_row \<times> string) list \<Rightarrow> queue_db
     \<Rightarrow> (queue_error, pull_message list \<times> queue_db) res" where
  "lease_rows queue expiresAt [] db = Inr ([], db)"
| "lease_rows queue expiresAt ((row, leaseId) # rows) db =
     (let leases = sql_insert \<lparr>ls_id = leaseId, ls_message = qr_id row, ls_queue = queue,
                               ls_expires_at = expiresAt\<rparr> (snd db);
          msgs = sql_update (\<lambda>r. qr_id r = qr_id row)
                   (\<lambda>r. r\<lparr>qr_attempts := qr_attempts r + 1\<rparr>) (fst db)
      in bind_res (decodeBody (qr_body row) (qr_content_type row))
           (\<lambda>body. bind_res (lease_rows queue expiresAt rows (msgs, leases))
              (\<lambda>(ms, db'). Inr (\<lparr>pm_lease_id = leaseId, pm_id = qr_id row,
                                  pm_timestamp = qr_created_at row, pm_body = body,
                                  pm_attempts = qr_attempts row + 1\<rparr> # ms, db'))))"

definition pull ::
    "string \<Rightarrow> nat option \<Rightarrow> int option \<Rightarrow> (nat \<Rightarrow> string) \<Rightarrow> int \<Rightarrow> queue_db
     \<Rightarrow> (queue_error, pull_message list) res \<times> queue_db" where
  "pull queue batch_size visibility_timeout_ms uuid now db =
     (let batchSize = nullish batch_size DEFAULT_PULL_BATCH_SIZE;
          visibilityTimeoutMs = nullish visibility_timeout_ms DEFAULT_VISIBILITY_TIMEOUT_MS;
          db1 = (fst db, sql_delete (\<lambda>l. ls_queue l = queue \<and> ls_expires_at l \<le> now) (snd db));
          rows = pull_rows queue now batchSize db1
      in if rows = [] then (Inr [], db1)
         else (let validRows = filter (\<lambda>r. qr_content_type r \<noteq> CtV8) rows
               in (case lease_rows queue (now + visibilityTimeoutMs) (zip validRows (map uuid [0..<length validRows])) db1 of
                     Inl e \<Rightarrow> (Inl e, db1) \<comment> \<open>the transaction rolls back\<close>
                   | Inr (ms, db2) \<Rightarrow> (Inr ms, db2))))"

definition find_lease :: "string \<Rightarrow> int \<Rightarrow> string \<Rightarrow> lease list \<Rightarrow> lease option" where
  "find_lease queue now lease_id ls =
     sql_get (\<lambda>l. ls_id l = lease_id \<and> ls_queue l = queue \<and> now < ls_expires_at l) ls"

definition ack_one :: "string \<Rightarrow> int \<Rightarrow> nat \<times> queue_db \<Rightarrow> string \<Rightarrow> nat \<times> queue_db" where
  "ack_one queue now st lease_id =
     (let (acked, msgs, leases) = st in
      case find_lease queue now lease_id leases of
        None \<Rightarrow> st
      | Some lease \<Rightarrow>
          (acked + 1,
           sql_update (\<lambda>r. qr_id r = ls_message lease)
             (\<lambda>r. r\<lparr>qr_status := Acked, qr_completed_at := Some now\<rparr>) msgs,
           sql_delete (\<lambda>l. ls_id l = lease_id) leases))"

definition retry_one ::
    "string \<Rightarrow> int \<Rightarrow> nat \<times> queue_db \<Rightarrow> string \<times> int option \<Rightarrow> nat \<times> queue_db" where
  "retry_one queue now st req =
     (let (retried, msgs, leases) = st; (lease_id, delay_seconds) = req in
      case find_lease queue now lease_id leases of
        None \<Rightarrow> st
      | Some lease \<Rightarrow>
          (retried + 1,
           sql_update (\<lambda>r. qr_id r = ls_message lease)
             (\<lambda>r. r\<lparr>qr_visible_at := now + nullish delay_seconds 0 * 1000\<rparr>) msgs,
           sql_delete (\<lambda>l. ls_id l = lease_id) leases))"

definition ack ::
    "string \<Rightarrow> string list option \<Rightarrow> (string \<times> int option) list option \<Rightarrow> int \<Rightarrow> queue_db
     \<Rightarrow> (nat \<times> nat) \<times> queue_db" where
  "ack queue acks retries now db =
     (let (acked, db1) = foldl (ack_one queue now) (0, db) (nullish acks []);
          (retried, db2) = foldl (retry_one queue now) (0, db1) (nullish retries [])
      in ((acked, retried), db2))"


section \<open>Bodies\<close>

text \<open>
  C18. What a consumer reads of the messages of the model: every well-formed JSON value comes back as
  itself under \<open>json\<close> and \<open>v8\<close>, every message under \<open>text\<close> as \<open>String(message)\<close>, buffers under
  \<open>bytes\<close> as their bytes. \<open>undefined\<close> is the exception: under \<open>json\<close> and \<open>v8\<close> it is
  accepted, encoded as no bytes, and these do not decode. Values that are not JSON (dates, maps) and
  characters above code unit 255 are outside the model.
\<close>

theorem body_round_trip:
  assumes "json_wf v"
  shows "bind_res (encodeBody (MValue v) CtJson) (\<lambda>b. decodeBody b CtJson) = Inr (DValue v)
    \<and> bind_res (encodeBody (MValue v) CtV8) (\<lambda>b. decodeBody b CtV8) = Inr (DValue v)
    \<and> bind_res (encodeBody m CtText) (\<lambda>b. decodeBody b CtText) = Inr (DText (message_String m))
    \<and> bind_res (encodeBody (MUint8Array bs) CtBytes) (\<lambda>b. decodeBody b CtBytes) = Inr (DBytes bs)
    \<and> bind_res (encodeBody (MArrayBuffer bs) CtBytes) (\<lambda>b. decodeBody b CtBytes) = Inr (DBytes bs)
    \<and> bind_res (encodeBody MUndefined CtJson) (\<lambda>b. decodeBody b CtJson) = Inl JsonSyntaxError
    \<and> bind_res (encodeBody MUndefined CtV8) (\<lambda>b. decodeBody b CtV8) = Inl JsonSyntaxError"
  using json_round_trip[OF assms]
  by (simp add: encodeBody_def decodeBody_def parse_text_def TextEncoder_encode_def json_parse_empty)

theorem body_round_trip_witness:
  "bind_res (encodeBody (MValue (JObj [(''k'', JArr [JNum (-7), JNull])])) CtJson)
     (\<lambda>b. decodeBody b CtJson) = Inr (DValue (JObj [(''k'', JArr [JNum (-7), JNull])]))"
  using body_round_trip[of "JObj [(''k'', JArr [JNum (-7), JNull])]"] by simp

section \<open>Batches and single sends\<close>

text \<open>Sending the messages of a batch one by one, stopping at the first error.\<close>

fun send_each ::
    "producer \<Rightarrow> content_type option \<Rightarrow> int option \<Rightarrow> int \<Rightarrow> (batch_message \<times> string) list
     \<Rightarrow> queue_row list \<Rightarrow> (queue_error, queue_row list) res" where
  "send_each p ct delay now [] t = Inr t"
| "send_each p ct delay now ((m, uuid) # ms) t =
     bind_res (send p (bm_body m) (Some (nullish (bm_contentType m) (nullish ct CtJson)))
                 (Some (nullish (bm_delaySeconds m) (nullish delay (qp_defaultDelay p)))) uuid now t)
       (send_each p ct delay now ms)"

lemma encode_batch_total:
  "encode_batch p ct delay msgs n = Inr (es, sz) \<Longrightarrow>
   sz = n + sum_list (map (length \<circ> em_data) es) \<and> length es = length msgs"
  by (induction msgs arbitrary: n es sz) (fastforce simp: Let_def bind_res_eq_Inr)+

lemma insert_batch_sends:
  "encode_batch p ct delay msgs n = Inr (es, sz) \<Longrightarrow> length us = length msgs \<Longrightarrow>
   send_each p ct delay now (zip msgs us) t = Inr (insert_batch p now (zip es us) t)"
proof (induction msgs arbitrary: n es us t)
  case (Cons msg msgs)
  then obtain u us' where us: "us = u # us'" by (cases us) auto
  with Cons show ?case
    by (fastforce simp: Let_def bind_res_eq_Inr send_def)
qed auto

lemma insert_batch_append:
  "insert_batch p now ms t =
   t @ map (\<lambda>(m, u). new_row u (qp_queueName p) (em_data m) (em_contentType m)
                       (now + em_delaySeconds m * 1000) now) ms"
  by (induction p now ms t rule: insert_batch.induct) (auto simp: sql_defs)

text \<open>
  A batch that is accepted leaves the table exactly as sending its messages one by one
  would, with the batch's options as defaults; a batch is never accepted in part, and an
  accepted one respects the count limit and the limit on the total size.
\<close>

theorem sendBatch_as_sends:
  assumes "sendBatch p msgs ct delay uuid now t = Inr t'"
  shows "send_each p ct delay now (zip msgs (map uuid [0..<length msgs])) t = Inr t'
    \<and> (\<exists>rows. t' = t @ rows \<and> length rows = length msgs
        \<and> sum_list (map (length \<circ> qr_body) rows) \<le> maxBatchSize (qp_limits p))
    \<and> length msgs \<le> maxBatchMessages (qp_limits p)"
proof -
  from assms obtain es sz where enc: "encode_batch p ct delay msgs 0 = Inr (es, sz)"
    and total: "sz \<le> maxBatchSize (qp_limits p)"
    and n: "length msgs \<le> maxBatchMessages (qp_limits p)"
    and t': "t' = insert_batch p now (zip es (map uuid [0..<length es])) t"
    by (auto simp: sendBatch_def bind_res_eq_Inr split: if_splits)
  note tot = encode_batch_total[OF enc]
  let ?rows = "map (\<lambda>(m, u). new_row u (qp_queueName p) (em_data m) (em_contentType m)
                       (now + em_delaySeconds m * 1000) now) (zip es (map uuid [0..<length es]))"
  have "map (length \<circ> qr_body) ?rows = map (length \<circ> em_data) (map fst (zip es (map uuid [0..<length es])))"
    using map_fst_zip_comp[of es "map uuid [0..<length es]" "\<lambda>m. length (em_data m)"]
    by (simp add: new_row_def case_prod_unfold comp_def)
  then have "sum_list (map (length \<circ> qr_body) ?rows) = sz" using tot by simp
  moreover have "t' = t @ ?rows" unfolding t' insert_batch_append ..
  ultimately have "\<exists>rows. t' = t @ rows \<and> length rows = length msgs
        \<and> sum_list (map (length \<circ> qr_body) rows) \<le> maxBatchSize (qp_limits p)"
    using total tot by (intro exI[of _ ?rows]) simp
  moreover have "send_each p ct delay now (zip msgs (map uuid [0..<length msgs])) t = Inr t'"
    unfolding t' using insert_batch_sends[OF enc, of "map uuid [0..<length msgs]"] tot by simp
  ultimately show ?thesis using n by blast
qed

definition demo_producer :: producer where
  "demo_producer = \<lparr>qp_queueName = ''q'', qp_defaultDelay = 0, qp_limits = QUEUE_DEFAULTS\<rparr>"

definition demo_batch :: "batch_message list" where
  "demo_batch =
     [\<lparr>bm_body = MValue (JNum 1), bm_contentType = None, bm_delaySeconds = None\<rparr>,
      \<lparr>bm_body = MValue (JStr ''x''), bm_contentType = Some CtText, bm_delaySeconds = Some 5\<rparr>]"

definition demo_uuid :: "nat \<Rightarrow> string" where
  "demo_uuid i = (if i = 0 then ''u0'' else ''u1'')"

theorem sendBatch_as_sends_witness:
  "\<exists>t'. sendBatch demo_producer demo_batch None None demo_uuid 100 [] = Inr t'
     \<and> send_each demo_producer None None 100 (zip demo_batch (map demo_uuid [0..<length demo_batch])) [] = Inr t'
     \<and> map qr_visible_at t' = [100, 5100] \<and> map qr_body t' = [''1'', ''x'']"
proof -
  define t' where "t' = [new_row ''u0'' ''q'' ''1'' CtJson 100 100, new_row ''u1'' ''q'' ''x'' CtText 5100 100]"
  have enc: "utf8_encode (show_int 1) = ''1''" "utf8_encode ''x'' = ''x''" by code_simp+
  have us: "map demo_uuid [0..<Suc (Suc 0)] = [''u0'', ''u1'']" by (simp add: demo_uuid_def)
  have "sendBatch demo_producer demo_batch None None demo_uuid 100 [] = Inr t'"
    unfolding t'_def
    by (simp add: sendBatch_def demo_producer_def demo_batch_def QUEUE_DEFAULTS_def check_message_def
        encodeBody_def TextEncoder_encode_def sql_defs enc us del: upt_Suc)
  moreover note conjunct1[OF sendBatch_as_sends[OF this]]
  moreover have "map qr_visible_at t' = [100, 5100]" "map qr_body t' = [''1'', ''x'']"
    by (simp_all add: t'_def new_row_def)
  ultimately show ?thesis by (intro exI[of _ t'] conjI) assumption+
qed

section \<open>What a poll selects\<close>

lemma poll_begin_cases:
  "poll_begin cfg now (c, t) =
     (if qc_polling c \<or> concurrency_gate cfg c then (PollSkipped, c, t)
      else let t1 = expire_messages cfg now t; rows = select_batch cfg now t1
           in if rows = [] then (PollEmpty, c\<lparr>qc_polling := False\<rparr>, t1)
              else case to_messages rows of
                     Inl e \<Rightarrow> (PollThrown e, c\<lparr>qc_polling := False\<rparr>, bump_attempts (map qr_id rows) t1)
                   | Inr ms \<Rightarrow> (PollHandler rows ms,
                       c\<lparr>qc_polling := True, qc_activeDeliveries := qc_activeDeliveries c + 1\<rparr>,
                       bump_attempts (map qr_id rows) t1))"
  by (simp add: poll_begin_def Let_def split: sum.split)

lemma take_sort_key_least:
  assumes "x \<in> set (take n (sort_key k xs))" and "y \<in> set (drop n (sort_key k xs))"
  shows "k x \<le> k y"
proof -
  have "sorted (map k (take n (sort_key k xs) @ drop n (sort_key k xs)))" by simp
  with assms show ?thesis unfolding map_append sorted_append by auto
qed

lemma sql_select_ordered_least:
  assumes "x \<in> set (sql_select_ordered P k n t)" and "y \<in> set t" "P y"
    and "y \<notin> set (sql_select_ordered P k n t)"
  shows "k x \<le> k y"
proof -
  let ?s = "sort_key k (filter P t)"
  have "set ?s = set (take n ?s) \<union> set (drop n ?s)"
    using set_append[of "take n ?s" "drop n ?s"] unfolding append_take_drop_id .
  moreover have "y \<in> set ?s" using assms(2,3) by simp
  ultimately have "y \<in> set (drop n ?s)" using assms(4) unfolding sql_defs by blast
  with assms(1) show ?thesis unfolding sql_defs by (rule take_sort_key_least)
qed

lemma sql_select_ordered_full:
  assumes "y \<in> set t" "P y" "y \<notin> set (sql_select_ordered P k n t)"
  shows "length (sql_select_ordered P k n t) = n"
proof -
  let ?s = "sort_key k (filter P t)"
  have "y \<in> set ?s" "y \<notin> set (take n ?s)" using assms by (simp_all add: sql_defs)
  then have "n < length ?s" by (metis not_less take_all)
  then show ?thesis by (simp add: sql_defs)
qed

text \<open>
  The batch a poll hands to the handler consists of pending messages of the consumer's queue
  that are visible and within the retention period, at most \<open>maxBatchSize\<close> of them, in the order
  of their visibility times; a message that qualifies is left out only when the batch is full,
  and never in favour of one that became visible later.
\<close>

theorem poll_selects_oldest:
  assumes "poll_begin cfg now (c, t) = (PollHandler rows ms, c', t')"
  shows "rows \<noteq> [] \<and> length rows \<le> cc_maxBatchSize cfg \<and> sorted (map qr_visible_at rows)
    \<and> map msg_id ms = map qr_id rows
    \<and> (\<forall>r \<in> set rows. r \<in> set t \<and> eligible (cc_queue cfg) now r
         \<and> now - nullish (cc_retentionPeriodSeconds cfg) 345600 * 1000 \<le> qr_created_at r)
    \<and> (\<forall>r \<in> set (expire_messages cfg now t). eligible (cc_queue cfg) now r \<longrightarrow> r \<notin> set rows \<longrightarrow>
         length rows = cc_maxBatchSize cfg \<and> (\<forall>x \<in> set rows. qr_visible_at x \<le> qr_visible_at r))"
proof -
  have ids: "to_messages rs = Inr xs \<Longrightarrow> map msg_id xs = map qr_id rs" for rs xs
    by (induction rs arbitrary: xs) (auto simp: bind_res_eq_Inr)
  from assms have rows: "rows = select_batch cfg now (expire_messages cfg now t)" "rows \<noteq> []"
    and ms: "to_messages rows = Inr ms"
    by (auto simp: poll_begin_cases Let_def split: if_splits sum.splits)
  let ?P = "eligible (cc_queue cfg) now" and ?t1 = "expire_messages cfg now t"
  have sel: "rows = sql_select_ordered ?P qr_visible_at (cc_maxBatchSize cfg) ?t1"
    using rows(1) unfolding select_batch_def .
  have "r \<in> set ?t1 \<and> ?P r" if "r \<in> set rows" for r
    using that unfolding sel by (rule sql_select_orderedD)
  moreover have "r \<in> set t \<and> now - nullish (cc_retentionPeriodSeconds cfg) 345600 * 1000 \<le> qr_created_at r"
    if "r \<in> set ?t1" "?P r" for r
    using that by (auto simp: expire_messages_def eligible_def Let_def)
  ultimately have 1: "\<forall>r \<in> set rows. r \<in> set t \<and> ?P r
         \<and> now - nullish (cc_retentionPeriodSeconds cfg) 345600 * 1000 \<le> qr_created_at r" by blast
  have 2: "length rows = cc_maxBatchSize cfg \<and> (\<forall>x \<in> set rows. qr_visible_at x \<le> qr_visible_at r)"
    if "r \<in> set ?t1" "?P r" "r \<notin> set rows" for r
    using sql_select_ordered_full[where P = ?P, OF that(1,2)]
      sql_select_ordered_least[where P = ?P, OF _ that(1,2)] that(3)
    unfolding sel by blast
  have 3: "length rows \<le> cc_maxBatchSize cfg" "sorted (map qr_visible_at rows)"
    unfolding sel by (simp, rule sorted_sql_select_ordered)
  show ?thesis using rows(2) ids[OF ms] 1 2 3 by blast
qed

definition demo_config :: consumer_config where
  "demo_config = \<lparr>cc_queue = ''q'', cc_maxBatchSize = 2, cc_maxRetries = 2, cc_deadLetterQueue = Some ''dlq'',
     cc_maxConcurrency = Some 1, cc_retryDelay = None, cc_retentionPeriodSeconds = None\<rparr>"

definition demo_consumer :: consumer where
  "demo_consumer = \<lparr>qc_polling = False, qc_activeDeliveries = 0\<rparr>"

definition demo_rows :: "queue_row list" where
  "demo_rows = [new_row ''a'' ''q'' ''x'' CtText 30 10, new_row ''b'' ''q'' ''y'' CtText 20 10,
     new_row ''c'' ''q'' ''z'' CtText 40 10, new_row ''d'' ''other'' ''z'' CtText 0 10]"

lemma utf8_decode_demo: "utf8_decode ''x'' = Some ''x''" "utf8_decode ''y'' = Some ''y''"
  by code_simp+

theorem poll_selects_oldest_witness:
  "\<exists>rows ms c' t'. poll_begin demo_config 50 (demo_consumer, demo_rows) = (PollHandler rows ms, c', t')
     \<and> map msg_id ms = [''b'', ''a''] \<and> sorted (map qr_visible_at rows)"
proof -
  have ids: "(case fst (poll_begin demo_config 50 (demo_consumer, demo_rows)) of
               PollHandler rows ms \<Rightarrow> map msg_id ms = [''b'', ''a''] | _ \<Rightarrow> False)"
    by (simp add: poll_begin_def demo_config_def demo_consumer_def demo_rows_def concurrency_gate_def
        expire_messages_def select_batch_def eligible_def new_row_def sql_defs decodeBody_def utf8_decode_demo)
  then obtain rows ms c' t' where
    p: "poll_begin demo_config 50 (demo_consumer, demo_rows) = (PollHandler rows ms, c', t')"
    by (cases "poll_begin demo_config 50 (demo_consumer, demo_rows)") (auto split: poll_outcome.splits)
  with ids poll_selects_oldest[OF p] show ?thesis by auto
qed

section \<open>What a delivery does to the table\<close>

text \<open>The new state of a delivered message, by the decision taken for it.\<close>

definition settled ::
    "consumer_config \<Rightarrow> int \<Rightarrow> decision option \<Rightarrow> nat \<Rightarrow> queue_row \<Rightarrow> queue_row" where
  "settled cfg now dec attempts r =
     (case dec of
        Some (DRetry d) \<Rightarrow>
          (if attempts < cc_maxRetries cfg
           then r\<lparr>qr_visible_at := now + nullish d (nullish (cc_retryDelay cfg) 0) * 1000\<rparr>
           else if truthy_str (cc_deadLetterQueue cfg)
           then r\<lparr>qr_queue := the (cc_deadLetterQueue cfg), qr_visible_at := now, qr_status := Pending\<rparr>
           else r\<lparr>qr_status := Failed, qr_completed_at := Some now\<rparr>)
      | _ \<Rightarrow> r\<lparr>qr_status := Acked, qr_completed_at := Some now\<rparr>)"

lemma option_decision_cases [case_names None Ack Retry]:
  obtains "dec = None" | "dec = Some DAck" | d where "dec = Some (DRetry d)"
  by (cases dec; cases "the dec") auto

lemma settle_row_eq:
  "settle_row cfg now dec row t =
   sql_update (\<lambda>r. qr_id r = qr_id row) (settled cfg now dec (qr_attempts row + 1)) t"
  by (cases dec rule: option_decision_cases)
    (auto simp: settle_row_def settled_def Let_def intro!: arg_cong2[where f = "\<lambda>f. sql_update _ f"])

lemma settled_id [simp]: "qr_id (settled cfg now dec n r) = qr_id r"
  by (auto simp: settled_def split: option.split decision.split)

lemma settled_frame [simp]:
  "qr_body (settled cfg now dec n r) = qr_body r"
  "qr_attempts (settled cfg now dec n r) = qr_attempts r"
  "qr_content_type (settled cfg now dec n r) = qr_content_type r"
  "qr_created_at (settled cfg now dec n r) = qr_created_at r"
  by (auto simp: settled_def split: option.split decision.split)

lemma fold_settle:
  "distinct (map qr_id rows) \<Longrightarrow>
   foldl (\<lambda>t row. settle_row cfg now (dec row) row t) t rows =
   map (\<lambda>r. case find (\<lambda>row. qr_id row = qr_id r) rows of
              None \<Rightarrow> r
            | Some row \<Rightarrow> settled cfg now (dec row) (qr_attempts row + 1) r) t"
proof (induction rows arbitrary: t)
  case (Cons row rows)
  have none: "find (\<lambda>row'. qr_id row' = qr_id row) rows = None"
    unfolding find_None_iff using Cons.prems by (simp add: image_iff) metis
  show ?case using Cons none by (auto simp: settle_row_eq sql_defs)
qed simp

lemma poll_end_table:
  assumes "distinct (map qr_id rows)"
  shows "snd (poll_end cfg now rows calls err (c, t)) =
    map (\<lambda>r. case find (\<lambda>row. qr_id row = qr_id r) rows of
               None \<Rightarrow> r
             | Some row \<Rightarrow> settled cfg now (row_decision err (decisions calls) row) (qr_attempts row + 1) r) t"
  using fold_settle[OF assms] by (simp add: poll_end_def Let_def)

text \<open>
  The decision for a message as the sequence of calls reads: the last call on the message, else
  the last call on the whole batch, else none; a handler that threw means a retry.
\<close>

fun call_on :: "string \<Rightarrow> batch_call \<Rightarrow> decision option" where
  "call_on m (CallAck i) = (if i = m then Some DAck else None)"
| "call_on m (CallRetry i d) = (if i = m then Some (DRetry d) else None)"
| "call_on m _ = None"

fun call_on_all :: "batch_call \<Rightarrow> decision option" where
  "call_on_all CallAckAll = Some DAck"
| "call_on_all (CallRetryAll d) = Some (DRetry d)"
| "call_on_all _ = None"

definition last_decision :: "bool \<Rightarrow> batch_call list \<Rightarrow> string \<Rightarrow> decision option" where
  "last_decision err calls m =
     (if err then Some (DRetry None)
      else case List.map_filter (call_on m) (rev calls) of
             d # _ \<Rightarrow> Some d
           | [] \<Rightarrow> (case List.map_filter call_on_all (rev calls) of d # _ \<Rightarrow> Some d | [] \<Rightarrow> None))"

lemma decisions_last:
  "fst (decisions calls) m = (case List.map_filter (call_on m) (rev calls) of d # _ \<Rightarrow> Some d | [] \<Rightarrow> None)"
  "snd (decisions calls) = (case List.map_filter call_on_all (rev calls) of d # _ \<Rightarrow> Some d | [] \<Rightarrow> None)"
proof (induction calls rule: rev_induct)
  case (snoc c calls)
  obtain md bd where d: "decisions calls = (md, bd)" by force
  then have step: "decisions (calls @ [c]) = apply_call (md, bd) c" for c by (simp add: decisions_def)
  { case 1 then show ?case using snoc.IH d by (cases c) (auto simp: step List.map_filter_simps) }
  { case 2 then show ?case using snoc.IH d by (cases c) (auto simp: step List.map_filter_simps) }
qed (auto simp: decisions_def List.map_filter_simps)

lemma row_decision_last: "row_decision err (decisions calls) row = last_decision err calls (qr_id row)"
  by (simp add: row_decision_def last_decision_def decisions_last split: list.split)

lemma find_distinct_key:
  "distinct (map k xs) \<Longrightarrow> x \<in> set xs \<Longrightarrow> find (\<lambda>y. k y = k x) xs = Some x"
  by (induction xs) (auto simp: image_iff)

text \<open>
  C5. When the handler returns, every message of the batch that is still in the table is settled
  by the decision taken for it (a retry when the handler threw, else the last call on the
  message, else the last call on the batch, else an acknowledgement): acknowledged, made visible
  again after the delay, moved to the dead letter queue, or failed. Every other message of the
  table is as it was, and no message is lost, duplicated or reordered.
\<close>

theorem poll_end_settles:
  assumes "distinct (map qr_id rows)"
  shows "map qr_id (snd (poll_end cfg now rows calls err (c, t))) = map qr_id t
    \<and> map qr_body (snd (poll_end cfg now rows calls err (c, t))) = map qr_body t
    \<and> (\<forall>i < length t. let r = t ! i; r' = snd (poll_end cfg now rows calls err (c, t)) ! i in
         (qr_id r \<notin> qr_id ` set rows \<longrightarrow> r' = r)
         \<and> (\<forall>row \<in> set rows. qr_id row = qr_id r \<longrightarrow>
              r' = settled cfg now (last_decision err calls (qr_id row)) (qr_attempts row + 1) r))"
proof -
  let ?t = "snd (poll_end cfg now rows calls err (c, t))"
  note eq = poll_end_table[OF assms, of cfg now calls err c t]
  have "map qr_id ?t = map qr_id t" "map qr_body ?t = map qr_body t"
    unfolding eq by (simp_all split: option.split)
  moreover have "?t ! i = t ! i" if "i < length t" "qr_id (t ! i) \<notin> qr_id ` set rows" for i
  proof -
    have "find (\<lambda>row. qr_id row = qr_id (t ! i)) rows = None"
      unfolding find_None_iff using that(2) by (simp add: image_iff) metis
    then show ?thesis unfolding eq using that(1) by simp
  qed
  moreover have "?t ! i = settled cfg now (last_decision err calls (qr_id row)) (qr_attempts row + 1) (t ! i)"
    if "i < length t" "row \<in> set rows" "qr_id row = qr_id (t ! i)" for i row
    using find_distinct_key[OF assms that(2)] that(1,3) unfolding eq by (simp add: row_decision_last)
  ultimately show ?thesis by (simp add: Let_def)
qed

text \<open>The messages of one delivery: ''a'' fails for the last time, ''b'' is acknowledged.\<close>

theorem poll_end_settles_witness:
  "map qr_id (snd (poll_end demo_config 60 (take 2 demo_rows) [CallRetry ''a'' None, CallAckAll] False
      (demo_consumer, demo_rows))) = [''a'', ''b'', ''c'', ''d'']
   \<and> snd (poll_end demo_config 60 (take 2 demo_rows) [CallRetry ''a'' None, CallAckAll] False
      (demo_consumer, demo_rows)) ! 1 =
      (new_row ''b'' ''q'' ''y'' CtText 20 10)\<lparr>qr_status := Acked, qr_completed_at := Some 60\<rparr>"
proof -
  let ?calls = "[CallRetry ''a'' None, CallAckAll]"
  have d: "distinct (map qr_id (take 2 demo_rows))"
    by (simp add: demo_rows_def new_row_def)
  note P = poll_end_settles[OF d, of demo_config 60 ?calls False demo_consumer demo_rows]
  let ?b = "new_row ''b'' ''q'' ''y'' CtText 20 10"
  have b: "demo_rows ! 1 = ?b" "?b \<in> set (take 2 demo_rows)" "1 < length demo_rows"
    by (simp_all add: demo_rows_def)
  then have "snd (poll_end demo_config 60 (take 2 demo_rows) ?calls False (demo_consumer, demo_rows)) ! 1 =
    settled demo_config 60 (last_decision False ?calls (qr_id ?b)) (qr_attempts ?b + 1) ?b"
    using P unfolding Let_def by metis
  moreover have "last_decision False ?calls (qr_id ?b) = Some DAck"
    by (simp add: last_decision_def new_row_def List.map_filter_simps)
  moreover have "map qr_id demo_rows = [''a'', ''b'', ''c'', ''d'']"
    by (simp add: demo_rows_def new_row_def)
  ultimately show ?thesis using conjunct1[OF P] by (simp add: settled_def)
qed

end
