(* ===== verification/QueueLaws.thy ===== *)
theory QueueLaws
  imports Queue
begin

text \<open>
  Further laws of the queues: a message whose body does not decode blocks the push consumer of
  its queue, two pulls never lease the same message at the same time, and an acknowledgement
  settles exactly the messages of the active leases it names.
\<close>

section \<open>A body that does not decode\<close>

lemma to_messages_append_error: "to_messages xs = Inl e \<Longrightarrow> to_messages (xs @ ys) = Inl e"
proof (induction xs)
  case (Cons x xs)
  then show ?case by (auto simp: bind_res_eq_Inl)
qed simp

lemma to_messages_cong_error:
  "map (\<lambda>r. (qr_body r, qr_content_type r)) xs = map (\<lambda>r. (qr_body r, qr_content_type r)) ys \<Longrightarrow>
   to_messages xs = Inl e \<Longrightarrow> to_messages ys = Inl e"
proof (induction xs arbitrary: ys)
  case (Cons x xs)
  from Cons.prems(1) obtain y ys' where ys: "ys = y # ys'" by (cases ys) simp_all
  with Cons.prems(1) have "qr_body y = qr_body x" "qr_content_type y = qr_content_type x"
    by simp_all
  moreover from Cons.prems(1) ys have "map (\<lambda>r. (qr_body r, qr_content_type r)) xs = map (\<lambda>r. (qr_body r, qr_content_type r)) ys'"
    by simp
  note IH = Cons.IH[OF this]
  ultimately show ?case using Cons.prems(2) IH unfolding ys by (auto simp: bind_res_eq_Inl)
qed simp

definition kept :: "consumer_config \<Rightarrow> int \<Rightarrow> queue_row \<Rightarrow> bool" where
  "kept cfg now r = (\<not> (qr_queue r = cc_queue cfg
     \<and> qr_created_at r < now - nullish (cc_retentionPeriodSeconds cfg) 345600 * 1000))"

lemma expire_messages_kept: "expire_messages cfg now t = filter (kept cfg now) t"
  by (simp add: expire_messages_def sql_defs kept_def[abs_def] Let_def)

definition bump :: "string list \<Rightarrow> queue_row \<Rightarrow> queue_row" where
  "bump ids r = (if qr_id r \<in> set ids then r\<lparr>qr_attempts := qr_attempts r + 1\<rparr> else r)"

lemma bump_attempts_map: "bump_attempts ids t = map (bump ids) t"
  by (simp add: bump_attempts_def sql_defs bump_def)

lemma concurrency_gate_polling [simp]:
  "concurrency_gate cfg (c\<lparr>qc_polling := b\<rparr>) = concurrency_gate cfg c"
  by (simp add: concurrency_gate_def split: option.split)

lemma bump_frame [simp]:
  "qr_id (bump ids r) = qr_id r" "qr_body (bump ids r) = qr_body r"
  "qr_content_type (bump ids r) = qr_content_type r" "qr_visible_at (bump ids r) = qr_visible_at r"
  "qr_created_at (bump ids r) = qr_created_at r" "qr_queue (bump ids r) = qr_queue r"
  "qr_status (bump ids r) = qr_status r"
  by (simp_all add: bump_def)

lemma kept_bump [simp]: "kept cfg now (bump ids r) = kept cfg now r"
  and eligible_bump [simp]: "eligible q now (bump ids r) = eligible q now r"
  by (simp_all add: kept_def eligible_def)

text \<open>A later selection of a table whose attempt counters were raised starts with the earlier one.\<close>

lemma select_batch_later:
  assumes "now \<le> now'"
    and "\<forall>r \<in> set (select_batch cfg now t). kept cfg now' r"
  shows "\<exists>rest. select_batch cfg now' (expire_messages cfg now' (bump_attempts ids t)) =
    map (bump ids) (select_batch cfg now t) @ rest"
proof -
  let ?E = "eligible (cc_queue cfg) now" and ?E' = "eligible (cc_queue cfg) now'"
    and ?n = "cc_maxBatchSize cfg" and ?sort = "sort_key qr_visible_at"
  let ?A = "?sort (filter ?E t)" and ?B = "?sort (filter (\<lambda>r. ?E' r \<and> \<not> ?E r) t)"
  have ext: "?sort (filter ?E' t) = ?A @ ?B"
    using assms(1) by (intro sort_key_filter_extend) (auto simp: eligible_def)
  have sel: "select_batch cfg now t = take ?n ?A" by (simp add: select_batch_def sql_defs)
  have "filter ?E' (filter (kept cfg now') (map (bump ids) t)) =
      map (bump ids) (filter (kept cfg now') (filter ?E' t))"
    by (simp add: filter_map comp_def conj_commute)
  then have "?sort (filter ?E' (filter (kept cfg now') (map (bump ids) t))) =
      map (bump ids) (?sort (filter (kept cfg now') (filter ?E' t)))"
    by (simp only:) (simp add: sort_key_map_same_key)
  also have "?sort (filter (kept cfg now') (filter ?E' t)) = filter (kept cfg now') (?A @ ?B)"
    unfolding ext[symmetric] filter_sort ..
  also have "?A @ ?B = take ?n ?A @ (drop ?n ?A @ ?B)" by simp
  also have "filter (kept cfg now') (take ?n ?A @ drop ?n ?A @ ?B) =
      take ?n ?A @ filter (kept cfg now') (drop ?n ?A @ ?B)"
    using assms(2) unfolding sel by simp
  finally have "select_batch cfg now' (expire_messages cfg now' (bump_attempts ids t)) =
      take ?n (map (bump ids) (take ?n ?A) @ map (bump ids) (filter (kept cfg now') (drop ?n ?A @ ?B)))"
    by (simp add: select_batch_def sql_defs expire_messages_kept bump_attempts_map)
  then show ?thesis unfolding sel by (auto simp: take_map)
qed

text \<open>
  A poll that cannot decode a body of its batch throws before the handler is called. It
  changes no status, no queue and no visibility time: it only raises the attempt counters of
  the whole batch. Unless another operation removes the message, every later poll throws the
  same error until the retention period ends, so the batch is never delivered, never failed and
  never moved to the dead letter queue, however far its counters are beyond \<open>maxRetries\<close>.
\<close>

theorem undecodable_blocks_queue:
  assumes "poll_begin cfg now (c, t) = (PollThrown e, c', t')"
    and "now \<le> now'" and "\<forall>r \<in> set (select_batch cfg now (expire_messages cfg now t)). kept cfg now' r"
  shows "qc_polling c' = False
    \<and> map qr_status t' = map qr_status (expire_messages cfg now t)
    \<and> map qr_queue t' = map qr_queue (expire_messages cfg now t)
    \<and> map qr_visible_at t' = map qr_visible_at (expire_messages cfg now t)
    \<and> (\<exists>c'' t''. poll_begin cfg now' (c', t') = (PollThrown e, c'', t''))"
proof -
  let ?t1 = "expire_messages cfg now t"
  let ?rows = "select_batch cfg now ?t1"
  let ?ids = "map qr_id ?rows"
  from assms(1) have go: "\<not> qc_polling c" "\<not> concurrency_gate cfg c" "?rows \<noteq> []"
    and err: "to_messages ?rows = Inl e"
    and c': "c' = c\<lparr>qc_polling := False\<rparr>" and t': "t' = bump_attempts ?ids ?t1"
    by (auto simp: poll_begin_cases Let_def split: if_splits sum.splits)
  obtain rest where later: "select_batch cfg now' (expire_messages cfg now' t') = map (bump ?ids) ?rows @ rest"
    using select_batch_later[OF assms(2,3)] unfolding t' by blast
  have "to_messages (map (bump ?ids) ?rows) = Inl e"
    by (rule to_messages_cong_error[OF _ err]) simp
  then have "to_messages (map (bump ?ids) ?rows @ rest) = Inl e" by (rule to_messages_append_error)
  with go have "\<exists>c'' t''. poll_begin cfg now' (c', t') = (PollThrown e, c'', t'')"
    by (simp add: poll_begin_cases later c' Let_def)
  then show ?thesis by (simp add: c') (simp add: t' bump_attempts_map comp_def)
qed

text \<open>\<open>send(undefined)\<close> with the default content type stores such a body.\<close>

lemma send_undefined:
  "send demo_producer MUndefined None None uuid now t = Inr (t @ [new_row uuid ''q'' [] CtJson now now])"
  by (simp add: send_def check_message_def encodeBody_def TextEncoder_encode_def demo_producer_def
      QUEUE_DEFAULTS_def sql_defs)

lemma decode_empty: "decodeBody [] CtJson = Inl JsonSyntaxError"
  by (simp add: decodeBody_def parse_text_def json_parse_empty)

lemma demo_undefined_selected:
  "select_batch demo_config 20 (expire_messages demo_config 20 [new_row ''u'' ''q'' [] CtJson 10 10])
   = [new_row ''u'' ''q'' [] CtJson 10 10]"
  by (simp add: select_batch_def sql_defs expire_messages_def demo_config_def eligible_def new_row_def)

theorem undecodable_blocks_queue_witness:
  "\<exists>c' t'. poll_begin demo_config 20 (demo_consumer, [new_row ''u'' ''q'' [] CtJson 10 10])
        = (PollThrown JsonSyntaxError, c', t')
     \<and> (\<exists>c'' t''. poll_begin demo_config 99 (c', t') = (PollThrown JsonSyntaxError, c'', t''))"
proof -
  let ?t = "[new_row ''u'' ''q'' [] CtJson 10 10]"
  have "to_messages ?t = Inl JsonSyntaxError" by (simp add: new_row_def decode_empty)
  then have p: "poll_begin demo_config 20 (demo_consumer, ?t) =
      (PollThrown JsonSyntaxError, demo_consumer\<lparr>qc_polling := False\<rparr>,
       bump_attempts [''u''] (expire_messages demo_config 20 ?t))"
    unfolding poll_begin_cases
    by (simp add: Let_def demo_undefined_selected)
       (simp add: demo_consumer_def concurrency_gate_def demo_config_def new_row_def)
  have "\<forall>r \<in> set (select_batch demo_config 20 (expire_messages demo_config 20 ?t)). kept demo_config 99 r"
    unfolding demo_undefined_selected by (simp add: kept_def demo_config_def new_row_def)
  note Q = undecodable_blocks_queue[OF p _ this]
  have "\<exists>c'' t''. poll_begin demo_config 99 (demo_consumer\<lparr>qc_polling := False\<rparr>,
      bump_attempts [''u''] (expire_messages demo_config 20 ?t)) = (PollThrown JsonSyntaxError, c'', t'')"
    by (rule Q[THEN conjunct2, THEN conjunct2, THEN conjunct2, THEN conjunct2]) simp
  with p show ?thesis by blast
qed

section \<open>Leases\<close>

lemma lease_rows_result:
  "lease_rows q ex rows db = Inr (ms, db') \<Longrightarrow>
   map pm_id ms = map (qr_id \<circ> fst) rows \<and> set (snd db) \<subseteq> set (snd db')
   \<and> (\<forall>m \<in> set ms. \<exists>l \<in> set (snd db'). ls_message l = pm_id m \<and> ls_queue l = q \<and> ls_id l = pm_lease_id m \<and> ls_expires_at l = ex)"
proof (induction q ex rows db arbitrary: ms db' rule: lease_rows.induct)
  case (2 queue ex row leaseId rows db)
  let ?l = "\<lparr>ls_id = leaseId, ls_message = qr_id row, ls_queue = queue, ls_expires_at = ex\<rparr>"
  from 2(2) obtain body ms1 where "lease_rows queue ex rows
      (sql_update (\<lambda>r. qr_id r = qr_id row) (\<lambda>r. r\<lparr>qr_attempts := qr_attempts r + 1\<rparr>) (fst db),
       sql_insert ?l (snd db)) = Inr (ms1, db')"
    and ms: "ms = \<lparr>pm_lease_id = leaseId, pm_id = qr_id row, pm_timestamp = qr_created_at row,
        pm_body = body, pm_attempts = qr_attempts row + 1\<rparr> # ms1"
    and "decodeBody (qr_body row) (qr_content_type row) = Inr body"
    by (auto simp: bind_res_eq_Inr Let_def)
  note IH = 2(1)[OF refl refl this(1)]
  then have "?l \<in> set (snd db')" by auto
  then have "\<exists>l \<in> set (snd db'). ls_message l = qr_id row \<and> ls_queue l = queue \<and> ls_id l = leaseId \<and> ls_expires_at l = ex"
    by force
  with IH show ?case unfolding ms by auto
qed simp

lemma pull_result:
  assumes "pull q bs vt uuid now db = (Inr ms, db')"
  shows "map pm_id ms = map qr_id (filter (\<lambda>r. qr_content_type r \<noteq> CtV8) (pull_rows q now (nullish bs DEFAULT_PULL_BATCH_SIZE)
           (fst db, filter (\<lambda>l. \<not> (ls_queue l = q \<and> ls_expires_at l \<le> now)) (snd db))))
    \<and> (\<forall>m \<in> set ms. \<exists>l \<in> set (snd db'). ls_message l = pm_id m \<and> ls_queue l = q \<and> ls_id l = pm_lease_id m
          \<and> ls_expires_at l = now + nullish vt DEFAULT_VISIBILITY_TIMEOUT_MS)"
proof -
  let ?db1 = "(fst db, sql_delete (\<lambda>l. ls_queue l = q \<and> ls_expires_at l \<le> now) (snd db))"
  let ?rows = "pull_rows q now (nullish bs DEFAULT_PULL_BATCH_SIZE) ?db1"
  let ?valid = "filter (\<lambda>r. qr_content_type r \<noteq> CtV8) ?rows"
  let ?z = "zip ?valid (map uuid [0..<length ?valid])"
  show ?thesis
  proof (cases "?rows = []")
    case True
    with assms show ?thesis by (auto simp: pull_def Let_def sql_defs)
  next
    case False
    with assms have "lease_rows q (now + nullish vt DEFAULT_VISIBILITY_TIMEOUT_MS) ?z ?db1 = Inr (ms, db')"
      by (auto simp: pull_def Let_def split: sum.splits)
    note L = lease_rows_result[OF this]
    have ids: "map pm_id ms = map qr_id ?valid"
      using L map_fst_zip_comp[of ?valid "map uuid [0..<length ?valid]" qr_id] by (simp add: comp_def)
    with L show ?thesis by (simp add: sql_defs)
  qed
qed

text \<open>A lease that is neither named nor expired survives.\<close>

lemma ack_one_keeps: "l \<in> set (snd (snd st)) \<Longrightarrow> ls_id l \<noteq> i \<Longrightarrow> l \<in> set (snd (snd (ack_one q now st i)))"
  by (auto simp: ack_one_def sql_defs split: option.split prod.splits)

lemma retry_one_keeps: "l \<in> set (snd (snd st)) \<Longrightarrow> ls_id l \<noteq> fst r \<Longrightarrow> l \<in> set (snd (snd (retry_one q now st r)))"
  by (auto simp: retry_one_def sql_defs Let_def split: option.split prod.splits)

lemma foldl_keeps:
  "(\<And>st x. l \<in> set (snd (snd st)) \<Longrightarrow> x \<in> set xs \<Longrightarrow> l \<in> set (snd (snd (f st x)))) \<Longrightarrow>
   l \<in> set (snd (snd st)) \<Longrightarrow> l \<in> set (snd (snd (foldl f st xs)))"
  by (induction xs arbitrary: st) auto

lemma ack_keeps:
  assumes "l \<in> set (snd db)" and "ls_id l \<notin> set (nullish acks [])" and "ls_id l \<notin> fst ` set (nullish retries [])"
  shows "l \<in> set (snd (snd (ack q acks retries now db)))"
proof -
  obtain n1 db1 where a: "foldl (ack_one q now) (0, db) (nullish acks []) = (n1, db1)" by (metis surj_pair)
  obtain n2 db2 where r: "foldl (retry_one q now) (0, db1) (nullish retries []) = (n2, db2)" by (metis surj_pair)
  have "l \<in> set (snd (snd (foldl (ack_one q now) (0, db) (nullish acks []))))"
    by (rule foldl_keeps) (use assms in \<open>auto intro: ack_one_keeps\<close>)
  then have "l \<in> set (snd (snd (foldl (retry_one q now) (0, db1) (nullish retries []))))"
    unfolding a by (intro foldl_keeps) (use assms(3) in \<open>force intro: retry_one_keeps\<close>, simp)
  then show ?thesis using a r by (simp add: ack_def)
qed

lemma pull_keeps:
  assumes "l \<in> set (snd db)" and "ls_queue l = q \<longrightarrow> now < ls_expires_at l"
  shows "l \<in> set (snd (snd (pull q bs vt uuid now db)))"
proof -
  let ?db1 = "(fst db, sql_delete (\<lambda>l. ls_queue l = q \<and> ls_expires_at l \<le> now) (snd db))"
  have l: "l \<in> set (snd ?db1)" using assms by (auto simp: sql_defs)
  have "l \<in> set (snd db')" if "lease_rows q ex rows ?db1 = Inr (ms, db')" for ex rows ms db'
    using lease_rows_result[OF that] l by blast
  with l show ?thesis by (auto simp: pull_def Let_def split: sum.split)
qed

text \<open>
  What happens at the pull interface of any queue of the database, and in between: pulls and
  acknowledgements, and any change of the table of messages (sends, deliveries to push
  consumers, the retention). A run collects what its pulls return, with the queue.
\<close>

datatype pull_event =
    DoPull string "nat option" "int option" "nat \<Rightarrow> string" int
  | DoAck string "string list option" "(string \<times> int option) list option" int
  | DoMessages "queue_row list \<Rightarrow> queue_row list"

fun pull_step :: "pull_event \<Rightarrow> queue_db \<Rightarrow> (string \<times> string) list \<times> queue_db" where
  "pull_step (DoPull q bs vt uuid now) db =
     (case pull q bs vt uuid now db of
        (Inl e, db') \<Rightarrow> ([], db')
      | (Inr ms, db') \<Rightarrow> (map (\<lambda>m. (q, pm_id m)) ms, db'))"
| "pull_step (DoAck q acks retries now) db = ([], snd (ack q acks retries now db))"
| "pull_step (DoMessages f) db = ([], (f (fst db), snd db))"

fun pull_run :: "pull_event list \<Rightarrow> queue_db \<Rightarrow> (string \<times> string) list \<times> queue_db" where
  "pull_run [] db = ([], db)"
| "pull_run (e # es) db = (let (out, db1) = pull_step e db; (rest, db2) = pull_run es db1 in (out @ rest, db2))"

text \<open>An event leaves a lease of a queue alone when it happens before the expiry and does not name the lease.\<close>

fun leaves_lease :: "string \<Rightarrow> string \<Rightarrow> int \<Rightarrow> pull_event \<Rightarrow> bool" where
  "leaves_lease i q expiry (DoPull q' bs vt uuid now) = (q' = q \<longrightarrow> now < expiry)"
| "leaves_lease i q expiry (DoAck q' acks retries now) = (i \<notin> set (nullish acks []) \<and> i \<notin> fst ` set (nullish retries []))"
| "leaves_lease i q expiry (DoMessages f) = True"

lemma leased_not_pulled:
  assumes "l \<in> set (snd db)" and "now < ls_expires_at l" and "pull (ls_queue l) bs vt uuid now db = (Inr ms, db')"
  shows "ls_message l \<notin> pm_id ` set ms"
proof
  let ?q = "ls_queue l"
  let ?db = "(fst db, filter (\<lambda>l. \<not> (ls_queue l = ?q \<and> ls_expires_at l \<le> now)) (snd db))"
  assume "ls_message l \<in> pm_id ` set ms"
  then have "ls_message l \<in> set (map pm_id ms)" by simp
  with pull_result[OF assms(3)] obtain r where
    "r \<in> set (pull_rows ?q now (nullish bs DEFAULT_PULL_BATCH_SIZE) ?db)" "qr_id r = ls_message l" by auto
  then have "ls_message l \<notin> set (map ls_message (sql_select (active_lease ?q now) (snd ?db)))"
    unfolding pull_rows_def by (auto dest!: sql_select_orderedD)
  then show False using assms(1,2) by (force simp: active_lease_def)
qed

lemma pull_run_exclusive:
  assumes "l \<in> set (snd db)" and "list_all (leaves_lease (ls_id l) (ls_queue l) (ls_expires_at l)) evs"
  shows "(ls_queue l, ls_message l) \<notin> set (fst (pull_run evs db))"
  using assms
proof (induction evs arbitrary: db)
  case (Cons e evs)
  obtain out db1 where step: "pull_step e db = (out, db1)" by (metis surj_pair)
  have keep: "l \<in> set (snd db1)" and out: "(ls_queue l, ls_message l) \<notin> set out"
  proof -
    have "l \<in> set (snd db1) \<and> (ls_queue l, ls_message l) \<notin> set out"
    proof (cases e)
      case (DoPull q bs vt uuid now)
      obtain r db' where p: "pull q bs vt uuid now db = (r, db')" by (metis surj_pair)
      have "l \<in> set (snd db')" using pull_keeps[of l db q now bs vt uuid] Cons.prems DoPull p by simp
      moreover have "(ls_queue l, ls_message l) \<notin> (\<lambda>m. (q, pm_id m)) ` set ms" if "r = Inr ms" for ms
        using leased_not_pulled[of l db now bs vt uuid ms db'] Cons.prems DoPull p that by auto
      ultimately show ?thesis using step DoPull p by (auto split: sum.splits)
    next
      case (DoAck q acks retries now)
      then show ?thesis using step ack_keeps[of l db acks retries q now] Cons.prems by auto
    qed (use step Cons.prems in auto)
    then show "l \<in> set (snd db1)" "(ls_queue l, ls_message l) \<notin> set out" by simp_all
  qed
  from Cons.IH[OF keep] Cons.prems(2) out step show ?case by (simp add: case_prod_unfold Let_def)
qed simp

text \<open>
  C6. A pulled message is leased to its consumer alone. From a pull on, and as long as its
  visibility timeout runs and nobody acknowledges or retries the lease the pull gave out, no other pull of the
  queue returns the message: whatever pulls, acknowledgements and retries of other leases and
  other changes of the messages happen, on this queue and others.
\<close>

theorem pull_exclusive:
  assumes "pull q bs vt uuid now db = (Inr ms, db1)" and "m \<in> set ms"
    and "list_all (leaves_lease (pm_lease_id m) q (now + nullish vt DEFAULT_VISIBILITY_TIMEOUT_MS)) evs"
  shows "(q, pm_id m) \<notin> set (fst (pull_run evs db1))"
proof -
  from pull_result[OF assms(1)] assms(2) obtain l where l: "l \<in> set (snd db1)"
    "ls_message l = pm_id m" "ls_queue l = q" "ls_id l = pm_lease_id m"
    "ls_expires_at l = now + nullish vt DEFAULT_VISIBILITY_TIMEOUT_MS" by blast
  from pull_run_exclusive[OF l(1), of evs] assms(3) l show ?thesis by simp
qed

theorem pull_exclusive_witness:
  "(''q'', ''b'') \<notin> set (fst (pull_run [DoPull ''q'' None None demo_uuid 60, DoAck ''q'' (Some [''u1'']) None 70]
     (snd (pull ''q'' (Some 1) None demo_uuid 50 (demo_rows, [])))))"
proof -
  let ?m = "\<lparr>pm_lease_id = ''u0'', pm_id = ''b'', pm_timestamp = 10, pm_body = DText ''y'', pm_attempts = 1\<rparr>"
  define db1 where "db1 = ([new_row ''a'' ''q'' ''x'' CtText 30 10,
     (new_row ''b'' ''q'' ''y'' CtText 20 10)\<lparr>qr_attempts := 1\<rparr>,
     new_row ''c'' ''q'' ''z'' CtText 40 10, new_row ''d'' ''other'' ''z'' CtText 0 10],
     [\<lparr>ls_id = ''u0'', ls_message = ''b'', ls_queue = ''q'', ls_expires_at = 30050\<rparr>])"
  have p: "pull ''q'' (Some 1) None demo_uuid 50 (demo_rows, []) = (Inr [?m], db1)"
    by (simp add: pull_def pull_rows_def eligible_def demo_rows_def new_row_def sql_defs decodeBody_def
        utf8_decode_demo DEFAULT_VISIBILITY_TIMEOUT_MS_def demo_uuid_def db1_def)
  from pull_exclusive[OF p, of ?m "[DoPull ''q'' None None demo_uuid 60, DoAck ''q'' (Some [''u1'']) None 70]"] p
  show ?thesis by (simp add: DEFAULT_VISIBILITY_TIMEOUT_MS_def)
qed

definition active_ids :: "string \<Rightarrow> int \<Rightarrow> lease list \<Rightarrow> string set" where
  "active_ids q now ls = ls_id ` {l \<in> set ls. active_lease q now l}"

lemma find_lease_Some:
  "find_lease q now i ls = Some l \<Longrightarrow> l \<in> set ls \<and> ls_id l = i \<and> active_lease q now l"
  by (auto simp: find_lease_def active_lease_def dest: sql_get_SomeD)

lemma find_lease_None: "find_lease q now i ls = None \<longleftrightarrow> i \<notin> active_ids q now ls"
  by (auto simp: find_lease_def active_ids_def active_lease_def sql_get_None_iff image_iff)

abbreviation acked_row :: "int \<Rightarrow> queue_row \<Rightarrow> queue_row" where
  "acked_row now r \<equiv> r\<lparr>qr_status := Acked, qr_completed_at := Some now\<rparr>"

definition named_lease :: "string \<Rightarrow> int \<Rightarrow> string list \<Rightarrow> lease \<Rightarrow> bool" where
  "named_lease q now acks l = (active_lease q now l \<and> ls_id l \<in> set acks)"

lemma fold_ack:
  "keyed_by ls_id ls \<Longrightarrow>
   foldl (ack_one q now) (n, msgs, ls) acks =
     (n + card (set acks \<inter> active_ids q now ls),
      map (\<lambda>r. if \<exists>l \<in> set ls. named_lease q now acks l \<and> ls_message l = qr_id r then acked_row now r else r) msgs,
      filter (\<lambda>l. \<not> named_lease q now acks l) ls)"
proof (induction acks arbitrary: n msgs ls)
  case Nil
  then show ?case by (simp add: named_lease_def cong: if_cong)
next
  case (Cons a acks)
  show ?case
  proof (cases "find_lease q now a ls")
    case None
    then have a: "a \<notin> active_ids q now ls" by (simp add: find_lease_None)
    then have "named_lease q now (a # acks) l = named_lease q now acks l" if "l \<in> set ls" for l
      using that by (auto simp: named_lease_def active_ids_def)
    then show ?thesis using Cons.IH[OF Cons.prems, of n msgs] None a
      by (auto simp: ack_one_def cong: filter_cong intro!: filter_cong)
  next
    case (Some l)
    note l = find_lease_Some[OF Some]
    let ?ls = "sql_delete (\<lambda>l. ls_id l = a) ls"
    have uniq: "x = l" if "x \<in> set ls" "ls_id x = a" for x
      using keyed_by_unique[OF Cons.prems, of x l] l that by simp
    have ids: "active_ids q now ?ls = active_ids q now ls - {a}" "a \<in> active_ids q now ls"
      using l by (auto simp: active_ids_def)
    have "card (set (a # acks) \<inter> active_ids q now ls) = Suc (card (set acks \<inter> (active_ids q now ls - {a})))"
    proof -
      have "set (a # acks) \<inter> active_ids q now ls = insert a (set acks \<inter> (active_ids q now ls - {a}))"
        using ids(2) by auto
      then show ?thesis by simp
    qed
    moreover have "filter (\<lambda>l. \<not> named_lease q now acks l) ?ls = filter (\<lambda>l. \<not> named_lease q now (a # acks) l) ls"
      unfolding sql_defs filter_filter using l uniq by (intro filter_cong) (auto simp: named_lease_def)
    moreover have "keyed_by ls_id ?ls" unfolding sql_defs using Cons.prems by (rule keyed_by_filter)
    moreover have "(\<exists>x \<in> set ls. named_lease q now (a # acks) x \<and> ls_message x = i) \<longleftrightarrow>
       ls_message l = i \<or> (\<exists>x \<in> set ?ls. named_lease q now acks x \<and> ls_message x = i)" for i
      using l uniq by (auto simp: named_lease_def)
    ultimately show ?thesis using Cons.IH[of ?ls] ids
      by (simp add: ack_one_def Some) (auto simp: sql_defs)
  qed
qed

text \<open>
  An acknowledgement settles exactly the messages whose leases it names and that still run:
  each of them becomes acknowledged, its lease is given up, every other message and lease stays
  as it is, and the number returned counts the leases once each, however often they are named.
\<close>

theorem ack_exact:
  assumes "keyed_by ls_id ls"
  shows "ack q (Some acks) None now (msgs, ls) =
     ((card (set acks \<inter> active_ids q now ls), 0),
      map (\<lambda>r. if \<exists>l. l \<in> set ls \<and> named_lease q now acks l \<and> ls_message l = qr_id r
               then r\<lparr>qr_status := Acked, qr_completed_at := Some now\<rparr> else r) msgs,
      filter (\<lambda>l. \<not> named_lease q now acks l) ls)"
  using fold_ack[OF assms, of q now 0 msgs acks] by (simp add: ack_def Bex_def)

theorem ack_exact_witness:
  "fst (ack ''q'' (Some [''l'', ''l'', ''m'', ''n'']) None 50 (demo_rows,
     [\<lparr>ls_id = ''l'', ls_message = ''a'', ls_queue = ''q'', ls_expires_at = 60\<rparr>,
      \<lparr>ls_id = ''m'', ls_message = ''b'', ls_queue = ''q'', ls_expires_at = 50\<rparr>])) = (1, 0)"
proof -
  let ?ls = "[\<lparr>ls_id = ''l'', ls_message = ''a'', ls_queue = ''q'', ls_expires_at = 60\<rparr>,
      \<lparr>ls_id = ''m'', ls_message = ''b'', ls_queue = ''q'', ls_expires_at = 50\<rparr>]"
  have "keyed_by ls_id ?ls" by simp
  note ack_exact[OF this, of "''q''" "[''l'', ''l'', ''m'', ''n'']" 50 demo_rows]
  moreover have "set [''l'', ''l'', ''m'', ''n''] \<inter> active_ids ''q'' 50 ?ls = {''l''}"
    by (force simp: active_ids_def active_lease_def)
  ultimately show ?thesis by simp
qed

end
