(* ===== verification/Kv.thy ===== *)
theory Kv
  imports Complex_Main Contracts Json
begin

text \<open>
  The KV namespace of \<^verbatim>\<open>src/bindings/kv.ts\<close> over the table \<open>kv\<close>. Times are seconds as
  rational numbers (the clock counts milliseconds and the code divides by 1000); \<open>now\<close> is the
  clock in seconds at the call. Keys are compared as SQLite compares text, code unit by code
  unit. Every method is a function from the table to its result and the new table, an
  exception being a value of \<open>kv_error\<close>.
\<close>

section \<open>Types\<close>

record kv_row =
  kv_namespace :: string
  kv_key :: string
  kv_value :: bytes
  kv_metadata :: "string option"
  kv_expiration :: "rat option"

datatype kv_error =
    KeyNotAllowed string
  | KeyTooLarge nat
  | ValueTooLarge nat
  | MetadataTooLarge nat
  | TtlTooSmall rat
  | ExpirationTooSoon rat
  | TooManyKeys nat
  | BulkTypeUnsupported string
  | KvJsonError
  | KvTextOutsideModel

record kv_limits =
  maxKeySize :: nat
  maxValueSize :: nat
  maxMetadataSize :: nat
  minTtlSeconds :: rat
  maxBulkGetKeys :: nat

definition KV_DEFAULTS :: kv_limits where
  "KV_DEFAULTS = \<lparr>maxKeySize = 512, maxValueSize = 25 * 1024 * 1024, maxMetadataSize = 1024,
     minTtlSeconds = 60, maxBulkGetKeys = 100\<rparr>"

datatype kv_result = KvText string | KvJson json | KvBuffer bytes | KvReadable bytes

datatype kv_input = InString string | InArrayBuffer bytes | InStream "bytes list"

section \<open>Validation and encoding\<close>

definition validateKey :: "kv_limits \<Rightarrow> string \<Rightarrow> (kv_error, unit) res" where
  "validateKey lims key =
     (if key = '''' \<or> key = ''.'' \<or> key = ''..'' then Inl (KeyNotAllowed key)
      else if maxKeySize lims < length (utf8_encode key) then Inl (KeyTooLarge (maxKeySize lims))
      else Inr ())"

fun validateKeys :: "kv_limits \<Rightarrow> string list \<Rightarrow> (kv_error, unit) res" where
  "validateKeys lims [] = Inr ()"
| "validateKeys lims (key # keys) = bind_res (validateKey lims key) (\<lambda>_. validateKeys lims keys)"

definition validateValue :: "kv_limits \<Rightarrow> bytes \<Rightarrow> (kv_error, unit) res" where
  "validateValue lims blob =
     (if maxValueSize lims < length blob then Inl (ValueTooLarge (maxValueSize lims)) else Inr ())"

definition validateMetadata :: "kv_limits \<Rightarrow> json \<Rightarrow> (kv_error, string) res" where
  "validateMetadata lims metadata =
     (let serialized = stringify metadata
      in if maxMetadataSize lims < length (utf8_encode serialized)
         then Inl (MetadataTooLarge (maxMetadataSize lims)) else Inr serialized)"

definition validateTtl :: "kv_limits \<Rightarrow> rat \<Rightarrow> (kv_error, unit) res" where
  "validateTtl lims ttl = (if ttl < minTtlSeconds lims then Inl (TtlTooSmall (minTtlSeconds lims)) else Inr ())"

definition kv_text :: "bytes \<Rightarrow> (kv_error, string) res" where
  "kv_text blob = (case utf8_decode blob of None \<Rightarrow> Inl KvTextOutsideModel | Some s \<Rightarrow> Inr s)"

definition kv_json :: "string \<Rightarrow> (kv_error, json) res" where
  "kv_json s = (case json_parse s of None \<Rightarrow> Inl KvJsonError | Some v \<Rightarrow> Inr v)"

definition decodeValue :: "bytes \<Rightarrow> string \<Rightarrow> (kv_error, kv_result) res" where
  "decodeValue blob type =
     (if type = ''json'' then bind_res (bind_res (kv_text blob) kv_json) (\<lambda>v. Inr (KvJson v))
      else if type = ''arrayBuffer'' then Inr (KvBuffer blob)
      else if type = ''stream'' then Inr (KvReadable blob)
      else bind_res (kv_text blob) (\<lambda>s. Inr (KvText s)))"

fun encodeValue :: "kv_input \<Rightarrow> bytes" where
  "encodeValue (InString s) = utf8_encode s"
| "encodeValue (InArrayBuffer b) = b"
| "encodeValue (InStream chunks) = concat chunks"

text \<open>\<open>row.metadata ? JSON.parse(row.metadata) : null\<close>\<close>

definition decode_metadata :: "string option \<Rightarrow> (kv_error, json option) res" where
  "decode_metadata m =
     (case m of None \<Rightarrow> Inr None
      | Some s \<Rightarrow> if s = '''' then Inr None else bind_res (kv_json s) (\<lambda>v. Inr (Some v)))"

section \<open>Reading\<close>

text \<open>\<open>row.expiration \<and> row.expiration < now\<close>, with the number zero taken for absence.\<close>

definition expired :: "rat \<Rightarrow> rat option \<Rightarrow> bool" where
  "expired now expiration = (case expiration of None \<Rightarrow> False | Some e \<Rightarrow> e \<noteq> 0 \<and> e < now)"

definition has_key :: "string \<Rightarrow> string \<Rightarrow> kv_row \<Rightarrow> bool" where
  "has_key ns key r = (kv_namespace r = ns \<and> kv_key r = key)"

definition kv_get ::
    "kv_limits \<Rightarrow> string \<Rightarrow> string \<Rightarrow> string option \<Rightarrow> rat \<Rightarrow> kv_row list
     \<Rightarrow> (kv_error, kv_result option) res \<times> kv_row list" where
  "kv_get lims ns key type now t =
     (case validateKey lims key of
        Inl e \<Rightarrow> (Inl e, t)
      | Inr _ \<Rightarrow>
          (case sql_get (has_key ns key) t of
             None \<Rightarrow> (Inr None, t)
           | Some row \<Rightarrow>
               if expired now (kv_expiration row)
               then (Inr None, sql_delete (has_key ns key) t)
               else (bind_res (decodeValue (kv_value row) (nullish type ''text'')) (\<lambda>v. Inr (Some v)), t)))"

definition kv_getWithMetadata ::
    "kv_limits \<Rightarrow> string \<Rightarrow> string \<Rightarrow> string option \<Rightarrow> rat \<Rightarrow> kv_row list
     \<Rightarrow> (kv_error, kv_result option \<times> json option) res \<times> kv_row list" where
  "kv_getWithMetadata lims ns key type now t =
     (case validateKey lims key of
        Inl e \<Rightarrow> (Inl e, t)
      | Inr _ \<Rightarrow>
          (case sql_get (has_key ns key) t of
             None \<Rightarrow> (Inr (None, None), t)
           | Some row \<Rightarrow>
               if expired now (kv_expiration row)
               then (Inr (None, None), sql_delete (has_key ns key) t)
               else (bind_res (decodeValue (kv_value row) (nullish type ''text''))
                       (\<lambda>v. bind_res (decode_metadata (kv_metadata row)) (\<lambda>m. Inr (Some v, m))), t)))"

text \<open>The loop over the selected rows: expired ones are deleted, the others go to \<open>rowMap\<close>.\<close>

fun sweep_rows ::
    "string \<Rightarrow> rat \<Rightarrow> kv_row list \<Rightarrow> (string \<rightharpoonup> kv_row) \<Rightarrow> kv_row list \<Rightarrow> (string \<rightharpoonup> kv_row) \<times> kv_row list" where
  "sweep_rows ns now [] rowMap t = (rowMap, t)"
| "sweep_rows ns now (row # rows) rowMap t =
     (if expired now (kv_expiration row)
      then sweep_rows ns now rows rowMap (sql_delete (has_key ns (kv_key row)) t)
      else sweep_rows ns now rows (rowMap(kv_key row \<mapsto> row)) t)"

fun collect_values ::
    "string \<Rightarrow> (string \<rightharpoonup> kv_row) \<Rightarrow> string list \<Rightarrow> (string \<times> kv_result option) list
     \<Rightarrow> (kv_error, (string \<times> kv_result option) list) res" where
  "collect_values type rowMap [] result = Inr result"
| "collect_values type rowMap (key # keys) result =
     (case rowMap key of
        None \<Rightarrow> collect_values type rowMap keys (obj_set result key None)
      | Some row \<Rightarrow> bind_res (decodeValue (kv_value row) type)
          (\<lambda>v. collect_values type rowMap keys (obj_set result key (Some v))))"

fun collect_with_metadata ::
    "string \<Rightarrow> (string \<rightharpoonup> kv_row) \<Rightarrow> string list \<Rightarrow> (string \<times> kv_result option \<times> json option) list
     \<Rightarrow> (kv_error, (string \<times> kv_result option \<times> json option) list) res" where
  "collect_with_metadata type rowMap [] result = Inr result"
| "collect_with_metadata type rowMap (key # keys) result =
     (case rowMap key of
        None \<Rightarrow> collect_with_metadata type rowMap keys (obj_set result key (None, None))
      | Some row \<Rightarrow> bind_res (decodeValue (kv_value row) type)
          (\<lambda>v. bind_res (decode_metadata (kv_metadata row))
             (\<lambda>m. collect_with_metadata type rowMap keys (obj_set result key (Some v, m)))))"

definition check_bulk :: "kv_limits \<Rightarrow> string list \<Rightarrow> string \<Rightarrow> (kv_error, unit) res" where
  "check_bulk lims keys type =
     (if maxBulkGetKeys lims < length keys then Inl (TooManyKeys (maxBulkGetKeys lims))
      else bind_res (validateKeys lims keys)
             (\<lambda>_. if type = ''arrayBuffer'' \<or> type = ''stream'' then Inl (BulkTypeUnsupported type) else Inr ()))"

definition bulkGet ::
    "kv_limits \<Rightarrow> string \<Rightarrow> string list \<Rightarrow> string option \<Rightarrow> rat \<Rightarrow> kv_row list
     \<Rightarrow> (kv_error, (string \<times> kv_result option) list) res \<times> kv_row list" where
  "bulkGet lims ns keys options now t =
     (let type = nullish options ''text'' in
      case check_bulk lims keys type of
        Inl e \<Rightarrow> (Inl e, t)
      | Inr _ \<Rightarrow>
          if keys = [] then (Inr [], t)
          else (let rows = sql_select (\<lambda>r. kv_namespace r = ns \<and> kv_key r \<in> set keys) t;
                    (rowMap, t') = sweep_rows ns now rows Map.empty t
                in (collect_values type rowMap keys [], t')))"

definition bulkGetWithMetadata ::
    "kv_limits \<Rightarrow> string \<Rightarrow> string list \<Rightarrow> string option \<Rightarrow> rat \<Rightarrow> kv_row list
     \<Rightarrow> (kv_error, (string \<times> kv_result option \<times> json option) list) res \<times> kv_row list" where
  "bulkGetWithMetadata lims ns keys options now t =
     (let type = nullish options ''text'' in
      case check_bulk lims keys type of
        Inl e \<Rightarrow> (Inl e, t)
      | Inr _ \<Rightarrow>
          if keys = [] then (Inr [], t)
          else (let rows = sql_select (\<lambda>r. kv_namespace r = ns \<and> kv_key r \<in> set keys) t;
                    (rowMap, t') = sweep_rows ns now rows Map.empty t
                in (collect_with_metadata type rowMap keys [], t')))"

section \<open>Writing\<close>

record put_options =
  po_metadata :: "json option"
  po_expirationTtl :: "rat option"
  po_expiration :: "rat option"

definition kv_truthy :: "rat option \<Rightarrow> bool" where
  "kv_truthy x = (case x of None \<Rightarrow> False | Some v \<Rightarrow> v \<noteq> 0)"

definition put_expiration :: "put_options \<Rightarrow> rat \<Rightarrow> rat option" where
  "put_expiration opts now =
     (if kv_truthy (po_expiration opts) then po_expiration opts
      else if kv_truthy (po_expirationTtl opts) then Some (now + the (po_expirationTtl opts))
      else None)"

definition check_put :: "kv_limits \<Rightarrow> string \<Rightarrow> bytes \<Rightarrow> put_options \<Rightarrow> rat \<Rightarrow> (kv_error, string option) res" where
  "check_put lims key blob opts now =
     bind_res (validateKey lims key) (\<lambda>_.
     bind_res (validateValue lims blob) (\<lambda>_.
     bind_res (case po_expirationTtl opts of None \<Rightarrow> Inr () | Some ttl \<Rightarrow> validateTtl lims ttl) (\<lambda>_.
     bind_res (case po_expiration opts of
                 None \<Rightarrow> Inr ()
               | Some e \<Rightarrow> if e < now + minTtlSeconds lims then Inl (ExpirationTooSoon (minTtlSeconds lims))
                           else Inr ()) (\<lambda>_.
     (case po_metadata opts of
        None \<Rightarrow> Inr None
      | Some m \<Rightarrow> bind_res (validateMetadata lims m) (\<lambda>s. Inr (Some s)))))))"

definition row_id :: "kv_row \<Rightarrow> string \<times> string" where
  "row_id r = (kv_namespace r, kv_key r)"

definition kv_put ::
    "kv_limits \<Rightarrow> string \<Rightarrow> string \<Rightarrow> kv_input \<Rightarrow> put_options \<Rightarrow> rat \<Rightarrow> kv_row list
     \<Rightarrow> (kv_error, unit) res \<times> kv_row list" where
  "kv_put lims ns key value opts now t =
     (let blob = encodeValue value in
      case check_put lims key blob opts now of
        Inl e \<Rightarrow> (Inl e, t)
      | Inr metadata \<Rightarrow>
          (Inr (), sql_replace row_id
             \<lparr>kv_namespace = ns, kv_key = key, kv_value = blob, kv_metadata = metadata,
              kv_expiration = put_expiration opts now\<rparr> t))"

definition kv_delete :: "string \<Rightarrow> string \<Rightarrow> kv_row list \<Rightarrow> kv_row list" where
  "kv_delete ns key t = sql_delete (has_key ns key) t"

section \<open>Listing\<close>

record list_key =
  lk_name :: string
  lk_expiration :: "rat option"
  lk_metadata :: "json option"

record list_result =
  lr_keys :: "list_key list"
  lr_complete :: bool
  lr_cursor :: string

definition prefixEnd :: "string \<Rightarrow> nat list" where
  "prefixEnd pfx =
     (if 0 < length pfx then code_units (butlast pfx) @ [of_char (last pfx) + 1] else [])"

definition list_match :: "string \<Rightarrow> string \<Rightarrow> string \<Rightarrow> kv_row \<Rightarrow> bool" where
  "list_match ns pfx cursor r =
     (let k = code_units (kv_key r) in
      kv_namespace r = ns
      \<and> (pfx \<noteq> '''' \<longrightarrow> code_units pfx \<le> k \<and> k < prefixEnd pfx)
      \<and> (cursor \<noteq> '''' \<longrightarrow> code_units cursor < k))"

fun list_keys :: "kv_row list \<Rightarrow> (kv_error, list_key list) res" where
  "list_keys [] = Inr []"
| "list_keys (row # rows) =
     bind_res (decode_metadata (kv_metadata row))
       (\<lambda>m. bind_res (list_keys rows)
          (\<lambda>ks. Inr (\<lparr>lk_name = kv_key row, lk_expiration = kv_expiration row, lk_metadata = m\<rparr> # ks)))"

definition kv_list ::
    "string \<Rightarrow> string option \<Rightarrow> nat option \<Rightarrow> string option \<Rightarrow> rat \<Rightarrow> kv_row list
     \<Rightarrow> (kv_error, list_result) res \<times> kv_row list" where
  "kv_list ns pfx limit cursor now t =
     (let pfx = nullish pfx '''';
          limit = min (nullish limit 1000) 1000;
          cursor = nullish cursor '''';
          t1 = sql_delete (\<lambda>r. kv_namespace r = ns
                 \<and> (case kv_expiration r of None \<Rightarrow> False | Some e \<Rightarrow> e < now)) t;
          rows = sql_select_ordered (list_match ns pfx cursor) (\<lambda>r. code_units (kv_key r)) (limit + 1) t1;
          listComplete = (length rows \<le> limit);
          resultRows = take limit rows
      in (bind_res (list_keys resultRows)
            (\<lambda>keys. Inr \<lparr>lr_keys = keys, lr_complete = listComplete,
               lr_cursor = (if listComplete \<or> resultRows = [] then '''' else kv_key (last resultRows))\<rparr>), t1))"

end
