(* ===== verification/KvLaws.thy ===== *)
theory KvLaws
  imports Kv
begin

text \<open>
  The KV namespace against its contract: a map from keys to values with metadata, each with an
  optional expiration time. \<open>live\<close> is the abstraction of the table at a moment; reads return it
  and do not change it, a write changes it at one key, and the pages of a listing are the live
  keys with the prefix, in order and each once.
\<close>

section \<open>The table as a keyed store\<close>

type_synonym kv_entry = "bytes \<times> string option \<times> rat option"

definition entry_of :: "kv_row \<Rightarrow> kv_entry" where
  "entry_of r = (kv_value r, kv_metadata r, kv_expiration r)"

definition row_of :: "string \<times> string \<Rightarrow> kv_entry \<Rightarrow> kv_row" where
  "row_of k e = \<lparr>kv_namespace = fst k, kv_key = snd k, kv_value = fst e, kv_metadata = fst (snd e),
     kv_expiration = snd (snd e)\<rparr>"

definition kv_lookup :: "string \<times> string \<Rightarrow> kv_row list \<Rightarrow> kv_entry option" where
  "kv_lookup k t = map_option entry_of (sql_get (\<lambda>r. row_id r = k) t)"

definition kv_store :: "string \<times> string \<Rightarrow> kv_entry \<Rightarrow> kv_row list \<Rightarrow> kv_row list" where
  "kv_store k e t = sql_replace row_id (row_of k e) t"

definition kv_remove :: "string \<times> string \<Rightarrow> kv_row list \<Rightarrow> kv_row list" where
  "kv_remove k t = sql_delete (\<lambda>r. row_id r = k) t"

lemma row_of_simps [simp]: "row_id (row_of k e) = k" "entry_of (row_of k e) = e"
  by (simp_all add: row_id_def row_of_def entry_of_def)

lemma kv_lookup_remove_other: "k' \<noteq> k \<Longrightarrow> kv_lookup k' (kv_remove k t) = kv_lookup k' t"
  unfolding kv_lookup_def kv_remove_def by (subst sql_get_delete_disjoint) auto

interpretation kv: record_store kv_lookup kv_store kv_remove
proof
  fix k k' :: "string \<times> string" and e t
  show "kv_lookup k (kv_store k e t) = Some e"
    using sql_get_replace_same[of row_id "row_of k e" t] by (simp add: kv_lookup_def kv_store_def)
  show "kv_lookup k' (kv_store k e t) = kv_lookup k' t" if "k' \<noteq> k"
    using sql_get_replace_other[of k' row_id "row_of k e" t] that by (simp add: kv_lookup_def kv_store_def)
  show "kv_lookup k (kv_remove k t) = None"
    by (simp add: kv_lookup_def kv_remove_def)
  show "kv_lookup k' (kv_remove k t) = kv_lookup k' t" if "k' \<noteq> k"
    using that by (rule kv_lookup_remove_other)
qed

lemma has_key_row_id: "has_key ns key = (\<lambda>r. row_id r = (ns, key))"
  by (auto simp: has_key_def row_id_def)

lemma sql_get_has_key: "map_option entry_of (sql_get (has_key ns key) t) = kv_lookup (ns, key) t"
  by (simp add: kv_lookup_def has_key_row_id)

lemma sql_delete_has_key: "sql_delete (has_key ns key) t = kv_remove (ns, key) t"
  by (simp add: kv_remove_def has_key_row_id)

section \<open>What is live at a moment\<close>

definition live :: "string \<Rightarrow> rat \<Rightarrow> kv_row list \<Rightarrow> string \<Rightarrow> kv_entry option" where
  "live ns now t key =
     (case kv_lookup (ns, key) t of
        None \<Rightarrow> None
      | Some e \<Rightarrow> if expired now (snd (snd e)) then None else Some e)"

lemma expired_mono: "expired now e \<Longrightarrow> now \<le> now' \<Longrightarrow> expired now' e"
  by (auto simp: expired_def split: option.splits)

lemma live_remove_expired:
  assumes "\<And>e. kv_lookup (ns, key) t = Some e \<Longrightarrow> expired now (snd (snd e))" and "now \<le> now'"
  shows "live ns' now' (kv_remove (ns, key) t) key' = live ns' now' t key'"
proof (cases "(ns', key') = (ns, key)")
  case True
  then show ?thesis using assms
    by (auto simp: live_def kv.lookup_remove split: option.split dest: expired_mono)
next
  case False
  then show ?thesis by (simp add: live_def kv.lookup_remove_other)
qed

definition read_value :: "string option \<Rightarrow> kv_entry \<Rightarrow> (kv_error, kv_result) res" where
  "read_value type e = decodeValue (fst e) (nullish type ''text'')"

text \<open>
  C17. A read of a valid key returns what is live under the key at the time of the call, decoded
  as the type asks, and \<open>null\<close> when nothing is. Its lazy deletion of an expired row changes
  nothing anyone can read, in any namespace, from then on.
\<close>

theorem kv_get_reads_live:
  assumes "validateKey lims key = Inr ()"
  shows "fst (kv_get lims ns key type now t) =
      (case live ns now t key of
         None \<Rightarrow> Inr None
       | Some e \<Rightarrow> bind_res (read_value type e) (\<lambda>v. Inr (Some v)))
    \<and> (now \<le> now' \<longrightarrow> live ns' now' (snd (kv_get lims ns key type now t)) key' = live ns' now' t key')"
proof (cases "sql_get (has_key ns key) t")
  case None
  then have "kv_lookup (ns, key) t = None" using sql_get_has_key[of ns key t] by simp
  with None assms show ?thesis by (simp add: kv_get_def live_def)
next
  case (Some row)
  then have lk: "kv_lookup (ns, key) t = Some (entry_of row)" using sql_get_has_key[of ns key t] by simp
  show ?thesis
  proof (cases "expired now (kv_expiration row)")
    case True
    have "live ns' now' (kv_remove (ns, key) t) key' = live ns' now' t key'" if "now \<le> now'"
      using lk True that by (intro live_remove_expired) (auto simp: entry_of_def)
    with Some True lk assms show ?thesis
      by (simp add: kv_get_def live_def sql_delete_has_key entry_of_def)
  next
    case False
    with Some lk assms show ?thesis
      by (simp add: kv_get_def live_def entry_of_def read_value_def)
  qed
qed

definition demo_kv :: "kv_row list" where
  "demo_kv = [\<lparr>kv_namespace = ''n'', kv_key = ''a'', kv_value = ''x'', kv_metadata = None, kv_expiration = Some 10\<rparr>,
     \<lparr>kv_namespace = ''n'', kv_key = ''b'', kv_value = ''y'', kv_metadata = None, kv_expiration = None\<rparr>]"

theorem kv_get_reads_live_witness:
  "fst (kv_get KV_DEFAULTS ''n'' ''a'' None 20 demo_kv) = Inr None
   \<and> live ''n'' 30 (snd (kv_get KV_DEFAULTS ''n'' ''a'' None 20 demo_kv)) ''b'' = Some (''y'', None, None)"
proof -
  have v: "validateKey KV_DEFAULTS ''a'' = Inr ()"
    by (simp add: validateKey_def KV_DEFAULTS_def utf8_len_def)
  have "live ''n'' 20 demo_kv ''a'' = None" "live ''n'' 30 demo_kv ''b'' = Some (''y'', None, None)"
    by (simp_all add: live_def kv_lookup_def demo_kv_def sql_defs row_id_def entry_of_def expired_def)
  then show ?thesis
    using kv_get_reads_live[OF v, of "''n''" None 20 demo_kv 30 "''n''" "''b''"] by simp
qed

section \<open>Bulk reads\<close>

lemma sweep_rows_map:
  "distinct (map kv_key rows) \<Longrightarrow>
   fst (sweep_rows ns now rows m t) =
     m ++ map_of (map (\<lambda>r. (kv_key r, r)) (filter (\<lambda>r. \<not> expired now (kv_expiration r)) rows))"
proof (induction rows arbitrary: m t)
  case (Cons r rows)
  have "map_of (map (\<lambda>r. (kv_key r, r)) (filter (\<lambda>r. \<not> expired now (kv_expiration r)) rows)) (kv_key r) = None"
    using Cons.prems by (auto simp: map_of_eq_None_iff)
  with Cons show ?case by (auto simp: map_add_upd_left map_add_def fun_eq_iff split: option.split)
qed simp

lemma rows_of_keys:
  fixes ns :: string
  assumes "keyed_by row_id t" and "key \<in> set keys"
  defines "rows \<equiv> sql_select (\<lambda>r. kv_namespace r = ns \<and> kv_key r \<in> set keys) t"
  shows "distinct (map kv_key rows)"
    and "map_of (map (\<lambda>r. (kv_key r, r)) (filter (\<lambda>r. \<not> expired now (kv_expiration r)) rows)) key =
      (case sql_get (has_key ns key) t of None \<Rightarrow> None
       | Some r \<Rightarrow> if expired now (kv_expiration r) then None else Some r)"
proof -
  show dist: "distinct (map kv_key rows)"
    using assms(1) unfolding rows_def sql_defs
    by (auto simp: distinct_map inj_on_def row_id_def)
  let ?m = "map_of (map (\<lambda>r. (kv_key r, r)) (filter (\<lambda>r. \<not> expired now (kv_expiration r)) rows))"
  have iff: "?m key = Some r \<longleftrightarrow> r \<in> set t \<and> has_key ns key r \<and> \<not> expired now (kv_expiration r)" for r
  proof -
    have "distinct (map kv_key (filter (\<lambda>r. \<not> expired now (kv_expiration r)) rows))"
      using dist by (rule keyed_by_filter)
    then show ?thesis using assms(2)
      by (auto simp: map_of_eq_Some_iff comp_def rows_def has_key_def)
  qed
  show "?m key = (case sql_get (has_key ns key) t of None \<Rightarrow> None
       | Some r \<Rightarrow> if expired now (kv_expiration r) then None else Some r)"
  proof (cases "sql_get (has_key ns key) t")
    case None
    then have "?m key = None" using iff by (cases "?m key") (auto simp: sql_get_None_iff)
    with None show ?thesis by simp
  next
    case (Some r)
    note r = sql_get_SomeD[OF Some]
    have "x = r" if "x \<in> set t" "has_key ns key x" for x
      using keyed_by_unique[OF assms(1), of x r] r that by (simp add: has_key_row_id)
    with r iff Some show ?thesis by (cases "?m key") auto
  qed
qed

lemma collect_values_keys:
  "collect_values type m keys acc = Inr res \<Longrightarrow> fst ` set res = fst ` set acc \<union> set keys"
proof (induction keys arbitrary: acc)
  case (Cons key keys)
  from Cons.prems obtain e where "collect_values type m keys (obj_set acc key e) = Inr res"
    by (auto simp: bind_res_eq_Inr split: option.splits)
  from Cons.IH[OF this] show ?case by (auto simp: obj_set_keys)
qed simp

lemma collect_values_map:
  "collect_values type m keys acc = Inr res \<Longrightarrow>
   map_of res key =
     (if key \<in> set keys
      then Some (case m key of None \<Rightarrow> None | Some row \<Rightarrow>
             (case decodeValue (kv_value row) type of Inl _ \<Rightarrow> None | Inr v \<Rightarrow> Some v))
      else map_of acc key)"
  by (induction type m keys acc rule: collect_values.induct)
    (auto simp: obj_set_map_of bind_res_eq_Inr split: option.splits if_splits)

lemma collect_values_ok:
  "collect_values type m keys acc = Inr res \<Longrightarrow> key \<in> set keys \<Longrightarrow> m key = Some row \<Longrightarrow>
   is_ok (decodeValue (kv_value row) type)"
  by (induction type m keys acc rule: collect_values.induct)
    (auto simp: bind_res_eq_Inr split: option.splits)

lemma validateKeys_mem: "validateKeys lims keys = Inr () \<Longrightarrow> key \<in> set keys \<Longrightarrow> validateKey lims key = Inr ()"
  by (induction keys) (auto simp: bind_res_eq_Inr)

text \<open>
  C12. A bulk read that succeeds is the single reads of its keys: its result has an entry for
  exactly the keys asked for, and the entry of each is what \<open>get\<close> returns for it.
\<close>

theorem bulkGet_as_gets:
  assumes "keyed_by row_id t" and "bulkGet lims ns keys type now t = (Inr res, t')"
  shows "set (map fst res) = set keys
    \<and> (\<forall>key \<in> set keys. map_of res key = Some (case fst (kv_get lims ns key type now t) of
          Inl _ \<Rightarrow> None | Inr v \<Rightarrow> v) \<and> is_ok (fst (kv_get lims ns key type now t)))"
proof -
  let ?type = "nullish type ''text''"
  let ?rows = "sql_select (\<lambda>r. kv_namespace r = ns \<and> kv_key r \<in> set keys) t"
  let ?m = "fst (sweep_rows ns now ?rows Map.empty t)"
  from assms(2) have valid: "validateKeys lims keys = Inr ()"
    and res: "collect_values ?type ?m keys [] = Inr res"
    by (auto simp: bulkGet_def check_bulk_def Let_def bind_res_eq_Inr case_prod_unfold
        split: sum.splits if_splits)
  have m: "?m key = (case sql_get (has_key ns key) t of None \<Rightarrow> None
       | Some r \<Rightarrow> if expired now (kv_expiration r) then None else Some r)" if "key \<in> set keys" for key
    using sweep_rows_map rows_of_keys[OF assms(1) that] by simp
  have get: "map_of res key = Some (case fst (kv_get lims ns key type now t) of Inl _ \<Rightarrow> None | Inr v \<Rightarrow> v)
      \<and> is_ok (fst (kv_get lims ns key type now t))" if "key \<in> set keys" for key
    using that m[OF that] validateKeys_mem[OF valid that] collect_values_map[OF res, of key]
      collect_values_ok[OF res that]
    by (cases "sql_get (has_key ns key) t"; cases "?m key")
      (auto simp: kv_get_def is_ok_def bind_res_def split: sum.splits if_splits)
  have "set (map fst res) = set keys" using collect_values_keys[OF res] by simp
  then show ?thesis using get by blast
qed

theorem bulkGet_as_gets_witness:
  "map_of [(''c'', None), (''b'', Some (KvText ''y'')), (''a'', None)] ''b''
     = Some (case fst (kv_get KV_DEFAULTS ''n'' ''b'' None 20 demo_kv) of Inl _ \<Rightarrow> None | Inr v \<Rightarrow> v)"
proof -
  have "keyed_by row_id demo_kv" by (simp add: demo_kv_def row_id_def)
  moreover have "utf8_decode ''y'' = Some ''y''" by code_simp
  then have "bulkGet KV_DEFAULTS ''n'' [''c'', ''b'', ''a''] None 20 demo_kv =
      (Inr [(''c'', None), (''b'', Some (KvText ''y'')), (''a'', None)],
       snd (bulkGet KV_DEFAULTS ''n'' [''c'', ''b'', ''a''] None 20 demo_kv))"
    by (simp add: bulkGet_def check_bulk_def KV_DEFAULTS_def validateKey_def utf8_len_def demo_kv_def
        sql_defs expired_def obj_set_def decodeValue_def kv_text_def has_key_def)
  note b = bulkGet_as_gets[OF calculation this]
  from b[THEN conjunct2, rule_format, of "''b''"] show ?thesis by simp
qed

section \<open>Writes\<close>

text \<open>
  A write that is accepted makes its value, with its metadata and expiration, the entry of
  its key until it expires or is written or deleted, and changes no other key and no other
  namespace; a write that is refused changes nothing. A deletion removes exactly its key.
\<close>

theorem kv_put_delete_live:
  "(case kv_put lims ns key value opts now t of
      (Inl e, t') \<Rightarrow> t' = t
    | (Inr _, t') \<Rightarrow>
        (\<exists>metadata. check_put lims key (encodeValue value) opts now = Inr metadata
          \<and> live ns' now' t' key' =
            (if ns' = ns \<and> key' = key
             then (if expired now' (put_expiration opts now) then None
                   else Some (encodeValue value, metadata, put_expiration opts now))
             else live ns' now' t key')))
   \<and> live ns' now' (kv_delete ns key t) key' =
       (if ns' = ns \<and> key' = key then None else live ns' now' t key')"
proof -
  have del: "live ns' now' (kv_delete ns key t) key' =
       (if ns' = ns \<and> key' = key then None else live ns' now' t key')"
    by (auto simp: live_def kv_delete_def sql_delete_has_key kv.lookup_remove kv.lookup_remove_other)
  have store: "live ns' now' (kv_store (ns, key) (b, m, x) t) key' =
      (if ns' = ns \<and> key' = key then (if expired now' x then None else Some (b, m, x))
       else live ns' now' t key')" for b m x
    by (auto simp: live_def kv.lookup_store kv.lookup_store_other)
  show ?thesis
  proof (cases "check_put lims key (encodeValue value) opts now")
    case (Inl e)
    with del show ?thesis by (simp add: kv_put_def)
  next
    case (Inr m)
    with del store show ?thesis by (simp add: kv_put_def kv_store_def row_of_def)
  qed
qed

text \<open>The rows stay keyed by namespace and key under every operation.\<close>

datatype kv_op =
    OpGet string "string option"
  | OpBulkGet "string list" "string option"
  | OpPut string kv_input put_options
  | OpDelete string
  | OpList "string option" "nat option" "string option"

fun kv_step :: "kv_limits \<Rightarrow> kv_row list \<Rightarrow> string \<times> rat \<times> kv_op \<Rightarrow> kv_row list" where
  "kv_step lims t (ns, now, OpGet key type) = snd (kv_get lims ns key type now t)"
| "kv_step lims t (ns, now, OpBulkGet keys type) = snd (bulkGet lims ns keys type now t)"
| "kv_step lims t (ns, now, OpPut key v opts) = snd (kv_put lims ns key v opts now t)"
| "kv_step lims t (ns, now, OpDelete key) = kv_delete ns key t"
| "kv_step lims t (ns, now, OpList pfx limit cursor) = snd (kv_list ns pfx limit cursor now t)"

definition kv_inv :: "kv_row list \<Rightarrow> bool" where
  "kv_inv t = (keyed_by row_id t \<and> (\<forall>r \<in> set t. kv_key r \<noteq> ''''))"

lemma kv_inv_delete: "kv_inv t \<Longrightarrow> kv_inv (sql_delete P t)"
  by (auto simp: kv_inv_def) (simp add: sql_defs keyed_by_filter)

lemma kv_inv_sweep: "kv_inv t \<Longrightarrow> kv_inv (snd (sweep_rows ns now rows m t))"
  by (induction ns now rows m t rule: sweep_rows.induct) (simp_all add: kv_inv_delete)

lemma check_put_key: "check_put lims key b opts now = Inr m \<Longrightarrow> key \<noteq> ''''"
  by (auto simp: check_put_def bind_res_eq_Inr validateKey_def split: if_splits)

lemma kv_inv_put: "kv_inv t \<Longrightarrow> kv_inv (snd (kv_put lims ns key v opts now t))"
  unfolding kv_put_def Let_def
  by (auto split: sum.split simp: kv_inv_def keyed_by_replace dest: check_put_key)

lemma kv_inv_step: "kv_inv t \<Longrightarrow> kv_inv (kv_step lims t e)"
proof -
  assume t: "kv_inv t"
  obtain ns now op where e: "e = (ns, now, op)" by (cases e)
  show ?thesis
    by (cases op) (use t in \<open>auto simp: e kv_get_def bulkGet_def kv_delete_def kv_list_def Let_def
        case_prod_unfold intro: kv_inv_delete kv_inv_sweep kv_inv_put split: sum.split option.split\<close>)
qed

interpretation kv_run: machine "kv_step lims" kv_inv
  by unfold_locales (rule kv_inv_step)

section \<open>Listing\<close>

lemma prefix_range:
  "p @ [c] \<le> k \<and> k < p @ [c + 1] \<longleftrightarrow> Sublist.prefix (p @ [c]) (k :: nat list)"
proof (induction p arbitrary: k)
  case Nil
  then show ?case by (cases k) (auto simp: less_Suc_eq_le)
next
  case IH: (Cons x p)
  show ?case
  proof (cases k)
    case (Cons y ys)
    show ?thesis unfolding Cons using IH.IH[of ys]
      by (cases y x rule: linorder_cases) simp_all
  qed simp
qed

lemma code_units_prefix: "Sublist.prefix (code_units p) (code_units k) \<longleftrightarrow> Sublist.prefix p k"
proof
  assume "Sublist.prefix (code_units p) (code_units k)"
  then have "code_units p = code_units (take (length p) k)"
    by (auto simp: code_units_def prefix_def take_map) (metis append_eq_conv_conj length_map take_map)
  then show "Sublist.prefix p k" by (simp add: code_units_eq) (metis take_is_prefix)
qed (auto simp: code_units_def prefix_def)

lemma list_match_prefix:
  "list_match ns p cursor r \<longleftrightarrow>
   kv_namespace r = ns \<and> Sublist.prefix p (kv_key r)
   \<and> (cursor \<noteq> '''' \<longrightarrow> code_units cursor < code_units (kv_key r))"
proof (cases p rule: rev_cases)
  case (snoc q c)
  have "code_units p = code_units q @ [of_char c]" "prefixEnd p = code_units q @ [of_char c + 1]"
    by (simp_all add: snoc code_units_def prefixEnd_def)
  then have "(code_units p \<le> code_units (kv_key r) \<and> code_units (kv_key r) < prefixEnd p) \<longleftrightarrow>
      Sublist.prefix p (kv_key r)"
    using prefix_range[of "code_units q" "of_char c" "code_units (kv_key r)"] code_units_prefix[of p "kv_key r"]
    by simp
  then show ?thesis using snoc by (auto simp: list_match_def Let_def)
qed (simp add: list_match_def Let_def)


text \<open>
  A client that reads a listing page by page, passing each page's cursor on, until a page says
  that it is the last; \<open>fuel\<close> bounds the number of pages.
\<close>

fun list_pages ::
    "nat \<Rightarrow> string \<Rightarrow> string \<Rightarrow> nat \<Rightarrow> string \<Rightarrow> rat \<Rightarrow> kv_row list \<Rightarrow> list_key list option" where
  "list_pages 0 ns pfx limit cursor now t = None"
| "list_pages (Suc fuel) ns pfx limit cursor now t =
     (case kv_list ns (Some pfx) (Some limit) (Some cursor) now t of
        (Inl _, _) \<Rightarrow> None
      | (Inr page, t') \<Rightarrow>
          if lr_complete page then Some (lr_keys page)
          else map_option (\<lambda>ks. lr_keys page @ ks)
                 (list_pages fuel ns pfx limit (lr_cursor page) now t'))"

definition past :: "rat \<Rightarrow> kv_row \<Rightarrow> bool" where
  "past now r = (case kv_expiration r of None \<Rightarrow> False | Some e \<Rightarrow> e < now)"

definition kv_order :: "kv_row \<Rightarrow> nat list" where
  "kv_order r = code_units (kv_key r)"

definition matching :: "string \<Rightarrow> string \<Rightarrow> string \<Rightarrow> rat \<Rightarrow> kv_row list \<Rightarrow> kv_row list" where
  "matching ns pfx cursor now t =
     sort_key kv_order (filter (list_match ns pfx cursor) (filter (\<lambda>r. \<not> (kv_namespace r = ns \<and> past now r)) t))"

definition sweep :: "string \<Rightarrow> rat \<Rightarrow> kv_row list \<Rightarrow> kv_row list" where
  "sweep ns now t = filter (\<lambda>r. \<not> (kv_namespace r = ns \<and> past now r)) t"

definition readable :: "kv_row \<Rightarrow> bool" where
  "readable r = is_ok (decode_metadata (kv_metadata r))"

lemma list_keys_readable:
  "\<forall>r \<in> set rows. readable r \<Longrightarrow> \<exists>ks. list_keys rows = Inr ks \<and> map lk_name ks = map kv_key rows"
proof (induction rows)
  case (Cons r rows)
  then obtain m ks where "decode_metadata (kv_metadata r) = Inr m" "list_keys rows = Inr ks"
    "map lk_name ks = map kv_key rows"
    by (cases "decode_metadata (kv_metadata r)") (auto simp: readable_def)
  then show ?case by simp
qed simp

lemma matching_strict:
  assumes "kv_inv t"
  shows "sorted_wrt (\<lambda>r r'. kv_order r < kv_order r') (matching ns pfx cursor now t)"
proof -
  let ?m = "matching ns pfx cursor now t"
  have set: "r \<in> set t \<and> kv_namespace r = ns" if "r \<in> set ?m" for r
    using that by (auto simp: matching_def list_match_def Let_def)
  have "distinct ?m"
    using assms by (auto simp: matching_def kv_inv_def distinct_map)
  moreover have "inj_on kv_order (set ?m)"
    using assms set unfolding kv_inv_def distinct_map inj_on_def
    by (auto simp: kv_order_def code_units_eq row_id_def)
  ultimately have "distinct (map kv_order ?m)" by (simp add: distinct_map)
  moreover have "sorted (map kv_order ?m)" by (simp add: matching_def)
  ultimately have "sorted_wrt (<) (map kv_order ?m)" using strict_sorted_iff by blast
  then show ?thesis by (simp add: sorted_wrt_map)
qed

lemma matching_drop:
  assumes inv: "kv_inv t" and i: "i < length (matching ns pfx cursor now t)"
    and c: "c = kv_key (matching ns pfx cursor now t ! i)"
  shows "matching ns pfx c now (sweep ns now t) = drop (Suc i) (matching ns pfx cursor now t)"
proof -
  let ?m = "matching ns pfx cursor now t"
  have "?m ! i \<in> set ?m" using i by simp
  then have ci: "c \<noteq> ''''" "cursor \<noteq> '''' \<longrightarrow> code_units cursor < code_units c"
    using inv by (auto simp: c matching_def kv_inv_def list_match_prefix)
  have eq: "list_match ns pfx c r \<longleftrightarrow> list_match ns pfx cursor r \<and> code_units c < kv_order r" for r
    using ci unfolding list_match_prefix kv_order_def by auto
  have "matching ns pfx c now (sweep ns now t) = filter (\<lambda>r. code_units c < kv_order r) ?m"
    by (simp add: matching_def sweep_def eq filter_sort conj_commute conj_left_commute)
  also have "\<dots> = filter (\<lambda>r. code_units c < kv_order r) (take (Suc i) ?m) @
      filter (\<lambda>r. code_units c < kv_order r) (drop (Suc i) ?m)"
    by (metis append_take_drop_id filter_append)
  also have "filter (\<lambda>r. code_units c < kv_order r) (take (Suc i) ?m) = []"
  proof -
    have "\<not> kv_order (?m ! i) < kv_order r" if "r \<in> set (take (Suc i) ?m)" for r
    proof -
      from that obtain j where "j \<le> i" "j < length ?m" "r = ?m ! j"
        by (auto simp: in_set_conv_nth less_Suc_eq_le)
      then show ?thesis
        using sorted_wrt_nth_less[OF matching_strict[OF inv, of ns pfx cursor now], of j i] i
        by (cases "j = i") (auto simp: not_less intro: less_imp_le)
    qed
    then show ?thesis by (simp add: filter_empty_conv c kv_order_def)
  qed
  also have "filter (\<lambda>r. code_units c < kv_order r) (drop (Suc i) ?m) = drop (Suc i) ?m"
  proof -
    have "kv_order (?m ! i) < kv_order r" if "r \<in> set (drop (Suc i) ?m)" for r
    proof -
      from that obtain j where "Suc i + j < length ?m" "r = ?m ! (Suc i + j)"
        unfolding in_set_conv_nth by (metis add.commute length_drop less_diff_conv nth_drop i Suc_leI)
      then show ?thesis
        using sorted_wrt_nth_less[OF matching_strict[OF inv, of ns pfx cursor now], of i "Suc i + j"] by simp
    qed
    then show ?thesis by (simp add: filter_id_conv c kv_order_def)
  qed
  finally show ?thesis by simp
qed

lemma kv_list_page:
  assumes "\<forall>r \<in> set t. readable r" and "limit \<le> 1000"
  shows "\<exists>ks. kv_list ns (Some pfx) (Some limit) (Some cursor) now t =
     (Inr \<lparr>lr_keys = ks, lr_complete = length (matching ns pfx cursor now t) \<le> limit,
        lr_cursor = (if length (matching ns pfx cursor now t) \<le> limit \<or> limit = 0 then ''''
                     else kv_key (matching ns pfx cursor now t ! (limit - 1)))\<rparr>, sweep ns now t)
     \<and> map lk_name ks = map kv_key (take limit (matching ns pfx cursor now t))"
proof -
  let ?m = "matching ns pfx cursor now t"
  have rows: "sql_select_ordered (list_match ns pfx cursor) (\<lambda>r. code_units (kv_key r)) (Suc limit)
      (sweep ns now t) = take (Suc limit) ?m"
    by (simp add: sql_defs matching_def sweep_def kv_order_def[abs_def])
  have sw: "sql_delete (\<lambda>r. kv_namespace r = ns
                 \<and> (case kv_expiration r of None \<Rightarrow> False | Some e \<Rightarrow> e < now)) t = sweep ns now t"
    by (simp add: sql_defs sweep_def past_def[abs_def])
  have take: "take limit (take (Suc limit) ?m) = take limit ?m" by (simp add: min_def)
  have "set (take limit ?m) \<subseteq> set t"
    by (auto simp: matching_def dest!: in_set_takeD)
  with assms(1) obtain ks where ks: "list_keys (take limit ?m) = Inr ks"
    "map lk_name ks = map kv_key (take limit ?m)"
    using list_keys_readable[of "take limit ?m"] by blast
  have lst: "kv_key (last (take limit ?m)) = kv_key (?m ! (limit - 1))" if "limit < length ?m" "limit \<noteq> 0"
  proof -
    have "take limit ?m \<noteq> []" using that by auto
    then show ?thesis using that by (simp add: last_conv_nth min_def)
  qed
  show ?thesis
    using assms(2) ks lst
    by (intro exI[of _ ks])
      (simp add: kv_list_def Let_def sw rows take min_def not_le del: take_take split del: if_split cong: if_cong;
       auto)
qed

lemma sweep_inv: "kv_inv t \<Longrightarrow> kv_inv (sweep ns now t)"
  using kv_inv_delete[of t "\<lambda>r. kv_namespace r = ns \<and> past now r"] by (simp add: sweep_def sql_defs)

lemma list_pages_from:
  assumes "kv_inv t" and "\<forall>r \<in> set t. readable r" and "0 < limit" "limit \<le> 1000"
    and "length (matching ns pfx cursor now t) < fuel"
  shows "\<exists>ks. list_pages fuel ns pfx limit cursor now t = Some ks
    \<and> map lk_name ks = map kv_key (matching ns pfx cursor now t)"
  using assms
proof (induction fuel arbitrary: cursor t)
  case (Suc fuel)
  let ?m = "matching ns pfx cursor now t"
  from kv_list_page[OF Suc.prems(2,4), of ns pfx cursor now] obtain ks where
    page: "kv_list ns (Some pfx) (Some limit) (Some cursor) now t =
     (Inr \<lparr>lr_keys = ks, lr_complete = length ?m \<le> limit,
        lr_cursor = (if length ?m \<le> limit \<or> limit = 0 then '''' else kv_key (?m ! (limit - 1)))\<rparr>,
      sweep ns now t)"
    and ks: "map lk_name ks = map kv_key (take limit ?m)" by blast
  show ?case
  proof (cases "length ?m \<le> limit")
    case True
    then show ?thesis using page ks by simp
  next
    case False
    let ?c = "kv_key (?m ! (limit - 1))"
    have rest: "matching ns pfx ?c now (sweep ns now t) = drop limit ?m"
      using matching_drop[OF Suc.prems(1) _ refl, of "limit - 1" ns pfx cursor now] False Suc.prems(3) by simp
    have "\<exists>ks'. list_pages fuel ns pfx limit ?c now (sweep ns now t) = Some ks'
        \<and> map lk_name ks' = map kv_key (matching ns pfx ?c now (sweep ns now t))"
    proof (intro Suc.IH sweep_inv)
      show "length (matching ns pfx ?c now (sweep ns now t)) < fuel"
        unfolding rest using Suc.prems(3,5) False by simp
    qed (use Suc.prems in \<open>auto simp: sweep_def\<close>)
    then obtain ks' where "list_pages fuel ns pfx limit ?c now (sweep ns now t) = Some ks'"
      "map lk_name ks' = map kv_key (drop limit ?m)" unfolding rest by blast
    moreover from this(2) ks have "map lk_name (ks @ ks') = map kv_key (take limit ?m @ drop limit ?m)"
      by (simp only: map_append)
    ultimately show ?thesis using page False Suc.prems(3) by simp
  qed
qed simp

text \<open>
  C4. Reading a listing page by page, with any page size from 1 to 1000, ends after at most one
  page more than there are rows, and yields every key of the namespace that starts with the
  prefix and has not expired, each once, in code unit order: no key is skipped or repeated at a
  page boundary.
\<close>

theorem kv_list_complete:
  assumes "kv_inv t" and "\<forall>r \<in> set t. readable r" and "0 < limit" "limit \<le> 1000"
  shows "\<exists>ks. list_pages (Suc (length t)) ns pfx limit '''' now t = Some ks
    \<and> set (map lk_name ks) = {kv_key r |r. r \<in> set t \<and> kv_namespace r = ns \<and> Sublist.prefix pfx (kv_key r)
         \<and> \<not> past now r}
    \<and> sorted_wrt (\<lambda>a b. code_units a < code_units b) (map lk_name ks)"
proof -
  let ?m = "matching ns pfx '''' now t"
  have "length ?m < Suc (length t)"
    by (simp add: matching_def less_Suc_eq_le)
  from list_pages_from[OF assms this] obtain ks where
    "list_pages (Suc (length t)) ns pfx limit '''' now t = Some ks" and ks: "map lk_name ks = map kv_key ?m"
    by blast
  moreover have "set (map kv_key ?m) = {kv_key r |r. r \<in> set t \<and> kv_namespace r = ns
      \<and> Sublist.prefix pfx (kv_key r) \<and> \<not> past now r}"
    by (auto simp: matching_def list_match_prefix)
  moreover have "sorted_wrt (\<lambda>a b. code_units a < code_units b) (map kv_key ?m)"
    using matching_strict[OF assms(1)] by (simp add: sorted_wrt_map kv_order_def)
  ultimately show ?thesis unfolding ks[symmetric] by blast
qed

theorem kv_list_complete_witness:
  "\<exists>ks. list_pages (Suc (length demo_kv)) ''n'' '''' 1 '''' 5 demo_kv = Some ks
     \<and> set (map lk_name ks) = {''a'', ''b''}"
proof -
  have inv: "kv_inv demo_kv" "\<forall>r \<in> set demo_kv. readable r"
    by (simp_all add: kv_inv_def demo_kv_def row_id_def readable_def decode_metadata_def)
  have "{kv_key r |r. r \<in> set demo_kv \<and> kv_namespace r = ''n'' \<and> Sublist.prefix [] (kv_key r) \<and> \<not> past 5 r}
      = set (map kv_key (filter (\<lambda>r. kv_namespace r = ''n'' \<and> \<not> past 5 r) demo_kv))"
    by auto
  also have "\<dots> = {''a'', ''b''}"
    by (simp add: demo_kv_def past_def)
  finally have s: "{kv_key r |r. r \<in> set demo_kv \<and> kv_namespace r = ''n'' \<and> Sublist.prefix [] (kv_key r) \<and> \<not> past 5 r} = {''a'', ''b''}" .
  have "(0::nat) < 1" "(1::nat) \<le> 1000" by simp_all
  from kv_list_complete[OF inv this, of "''n''" "[]" 5] show ?thesis unfolding s by blast
qed

end
