(* ===== verification/Dates.thy ===== *)
theory Dates
  imports Json
begin

text \<open>
  The calendar behind \<open>Date\<close>: a time is a number of milliseconds since 1970-01-01 in UTC, its
  civil fields are those of the proleptic Gregorian calendar, and \<open>toISOString\<close> prints them.
\<close>

definition is_leap :: "int \<Rightarrow> bool" where
  "is_leap y = (y mod 4 = 0 \<and> (y mod 100 \<noteq> 0 \<or> y mod 400 = 0))"

definition month_lengths :: "int \<Rightarrow> int list" where
  "month_lengths y = [31, if is_leap y then 29 else 28, 31, 30, 31, 30, 31, 31, 30, 31, 30, 31]"

text \<open>The days from 1970-01-01 to the first day of a year.\<close>

definition days_before_year :: "int \<Rightarrow> int" where
  "days_before_year y =
     365 * (y - 1970) + (y - 1) div 4 - (y - 1) div 100 + (y - 1) div 400 - 477"

definition year_of_day :: "int \<Rightarrow> int" where
  "year_of_day d =
     (let y = 1970 + (400 * d) div 146097
      in if d < days_before_year y then y - 1
         else if days_before_year (y + 1) \<le> d then y + 1
         else y)"

fun month_day :: "int list \<Rightarrow> int \<Rightarrow> nat \<times> int" where
  "month_day [] d = (0, d)"
| "month_day (l # ls) d = (if d < l then (0, d) else (let (m, r) = month_day ls (d - l) in (Suc m, r)))"

text \<open>Year, month (0 for January) and day of the month (1 for the first).\<close>

definition civil_of_days :: "int \<Rightarrow> int \<times> nat \<times> int" where
  "civil_of_days d =
     (let y = year_of_day d; (m, r) = month_day (month_lengths y) (d - days_before_year y)
      in (y, m, r + 1))"

definition days_of_civil :: "int \<Rightarrow> nat \<Rightarrow> int \<Rightarrow> int" where
  "days_of_civil y m d = days_before_year y + sum_list (take m (month_lengths y)) + d - 1"

definition weekday :: "int \<Rightarrow> int" where
  "weekday d = (d + 4) mod 7"

record date_fields =
  df_year :: int
  df_month :: nat
  df_day :: int
  df_hour :: int
  df_minute :: int
  df_second :: int
  df_ms :: int
  df_weekday :: int

definition MS_PER_DAY :: int where "MS_PER_DAY = 86400000"

definition fields_of :: "int \<Rightarrow> date_fields" where
  "fields_of t =
     (let (y, m, d) = civil_of_days (t div MS_PER_DAY); r = t mod MS_PER_DAY
      in \<lparr>df_year = y, df_month = m, df_day = d, df_hour = r div 3600000,
          df_minute = r div 60000 mod 60, df_second = r div 1000 mod 60, df_ms = r mod 1000,
          df_weekday = weekday (t div MS_PER_DAY)\<rparr>)"

definition time_of :: "date_fields \<Rightarrow> int" where
  "time_of f = days_of_civil (df_year f) (df_month f) (df_day f) * MS_PER_DAY
     + df_hour f * 3600000 + df_minute f * 60000 + df_second f * 1000 + df_ms f"

text \<open>\<open>toISOString\<close>, for the years 0 to 9999.\<close>

definition pad :: "nat \<Rightarrow> int \<Rightarrow> string" where
  "pad n i = (let s = show_nat (nat i) in replicate (n - length s) CHR ''0'' @ s)"

definition toISOString :: "int \<Rightarrow> string" where
  "toISOString t =
     (let f = fields_of t
      in pad 4 (df_year f) @ ''-'' @ pad 2 (int (df_month f) + 1) @ ''-'' @ pad 2 (df_day f) @ ''T''
         @ pad 2 (df_hour f) @ '':'' @ pad 2 (df_minute f) @ '':'' @ pad 2 (df_second f) @ ''.''
         @ pad 3 (df_ms f) @ ''Z'')"

section \<open>The calendar is a bijection\<close>

lemma div_bounds: "0 < (n::int) \<Longrightarrow> n * (x div n) \<le> x \<and> x < n * (x div n) + n"
  using pos_mod_bound[of n x] pos_mod_sign[of n x] mult_div_mod_eq[of n x] by linarith

lemma div_pred:
  assumes "1 < (n::int)"
  shows "y div n - (y - 1) div n = (if y mod n = 0 then 1 else 0)"
proof (cases "y mod n = 0")
  case True
  then have "y - 1 = n * (y div n - 1) + (n - 1)"
    using mult_div_mod_eq[of n y] by (simp add: right_diff_distrib)
  then have "(y - 1) div n = y div n - 1" by (rule int_div_pos_eq) (use assms in auto)
  with True show ?thesis by simp
next
  case False
  have "0 \<le> y mod n" "y mod n < n" using assms by simp_all
  with False have r: "0 \<le> y mod n - 1" "y mod n - 1 < n" by linarith+
  have "y - 1 = n * (y div n) + (y mod n - 1)" using mult_div_mod_eq[of n y] by simp
  then have "(y - 1) div n = y div n" using r by (rule int_div_pos_eq)
  with False show ?thesis by simp
qed

lemma mod_100_4: "(y::int) mod 100 = 0 \<Longrightarrow> y mod 4 = 0" and mod_400_100: "y mod 400 = 0 \<Longrightarrow> y mod 100 = 0"
  by (auto simp: mod_eq_0_iff_dvd intro: dvd_trans[rotated])

lemma year_step: "days_before_year (y + 1) - days_before_year y = (if is_leap y then 366 else 365)"
proof -
  have "y + 1 - 1 = y" by simp
  then have "days_before_year (y + 1) - days_before_year y =
      365 + (y div 4 - (y - 1) div 4) - (y div 100 - (y - 1) div 100) + (y div 400 - (y - 1) div 400)"
    unfolding days_before_year_def by simp
  also have "\<dots> = 365 + (if y mod 4 = 0 then 1 else 0) - (if y mod 100 = 0 then 1 else 0)
      + (if y mod 400 = 0 then 1 else 0)"
    using div_pred[of 4 y] div_pred[of 100 y] div_pred[of 400 y] by (simp only:)
  finally show ?thesis
    unfolding is_leap_def using mod_100_4[of y] mod_400_100[of y]
    by (cases "y mod 4 = 0"; cases "y mod 100 = 0"; cases "y mod 400 = 0") (simp_all only:, simp_all)
qed

lemma days_before_year_bounds:
  "146097 * (y - 1970) - 1000 \<le> 400 * days_before_year y \<and> 400 * days_before_year y \<le> 146097 * (y - 1970) + 1000"
  using div_bounds[of 4 "y - 1"] div_bounds[of 100 "y - 1"] div_bounds[of 400 "y - 1"]
  unfolding days_before_year_def by simp

lemma year_of_day: "days_before_year (year_of_day d) \<le> d \<and> d < days_before_year (year_of_day d + 1)"
proof -
  define k where "k = (400 * d) div 146097"
  have k: "146097 * k \<le> 400 * d" "400 * d < 146097 * k + 146097"
    using div_bounds[of 146097 "400 * d"] unfolding k_def by simp_all
  have "days_before_year (1970 + k - 1) \<le> d" "d < days_before_year (1970 + k + 2)"
    using days_before_year_bounds[of "1970 + k - 1", THEN conjunct2]
      days_before_year_bounds[of "1970 + k + 2", THEN conjunct1] k by simp_all
  then show ?thesis
    unfolding year_of_day_def Let_def k_def[symmetric] by (auto simp: algebra_simps)
qed

lemma month_day:
  "0 \<le> d \<Longrightarrow> d < sum_list ls \<Longrightarrow> month_day ls d = (m, r) \<Longrightarrow>
   m < length ls \<and> 0 \<le> r \<and> r < ls ! m \<and> sum_list (take m ls) + r = d"
  by (induction ls d arbitrary: m r rule: month_day.induct) (auto split: if_splits prod.splits)

lemma civil_of_days:
  assumes "civil_of_days d = (y, m, r)"
  shows "m < 12 \<and> 1 \<le> r \<and> r \<le> month_lengths y ! m \<and> days_of_civil y m r = d"
proof -
  let ?y = "year_of_day d"
  have "sum_list (month_lengths ?y) = days_before_year (?y + 1) - days_before_year ?y"
    by (simp add: year_step month_lengths_def)
  with year_of_day[of d] have "0 \<le> d - days_before_year ?y"
    "d - days_before_year ?y < sum_list (month_lengths ?y)" by linarith+
  moreover have "length (month_lengths ?y) = 12" by (simp add: month_lengths_def)
  ultimately show ?thesis
    using assms month_day[of "d - days_before_year ?y" "month_lengths ?y" m "r - 1"]
    by (auto simp: civil_of_days_def days_of_civil_def Let_def split: prod.splits)
qed

lemma time_of_fields: "time_of (fields_of t) = t"
proof -
  obtain y m d where c: "civil_of_days (t div MS_PER_DAY) = (y, m, d)" by (metis prod_cases3)
  define r where "r = t mod MS_PER_DAY"
  have "r div 3600000 * 3600000 + r div 60000 mod 60 * 60000 + r div 1000 mod 60 * 1000 + r mod 1000 = r"
  proof -
    have "r div 60000 div 60 = r div 3600000" "r div 1000 div 60 = r div 60000"
      by (simp_all flip: zdiv_zmult2_eq)
    then show ?thesis
      using mult_div_mod_eq[of 60 "r div 60000"] mult_div_mod_eq[of 60 "r div 1000"] mult_div_mod_eq[of 1000 r]
      by linarith
  qed
  moreover have "t div MS_PER_DAY * MS_PER_DAY + r = t" by (simp add: r_def)
  moreover have "time_of (fields_of t) = t div MS_PER_DAY * MS_PER_DAY
      + r div 3600000 * 3600000 + r div 60000 mod 60 * 60000 + r div 1000 mod 60 * 1000 + r mod 1000"
    using civil_of_days[OF c] unfolding time_of_def fields_of_def Let_def c prod.case date_fields.simps
      r_def[symmetric] by (simp only:)
  ultimately show ?thesis by linarith
qed

end
