(* ===== verification/WorkflowSteps.thy ===== *)
theory WorkflowSteps
  imports Contracts Dates
begin

text \<open>
  The durable steps of \<^verbatim>\<open>src/bindings/workflow.ts\<close>: durations and backoff, and the operations
  \<open>do\<close>, \<open>sleep\<close>, \<open>sleepUntil\<close> and \<open>waitForEvent\<close> of \<open>WorkflowStepImpl\<close> over the tables of
  checkpoints, failed attempts and pending events.

  What happens while an operation awaits is an argument: \<open>step_world\<close> says, for every attempt of
  a step, what the user's callback did, the time, and whether the abort signal was raised before
  the attempt or during the delay after it; \<open>wait_world\<close> says how a wait for an event ended.
  The loop of \<open>checkPaused\<close> waits until the instance is no longer paused; its outcome is the
  state of the abort signal when it ends.
\<close>

section \<open>Types\<close>

datatype wf_status = Queued | Running | Waiting | Paused | Complete | Errored | Terminated

datatype backoff = Constant | Linear | Exponential

datatype duration = DurNumber int | DurString string

datatype wf_error =
    InvalidDuration string
  | WorkflowTerminated
  | StepNameTooLong nat nat
  | TooManySteps nat
  | DuplicateStepName string
  | StepTimeoutTooLong int int
  | StepTimedOut string
  | OutputTooLarge string
  | SleepTooLong int int
  | InvalidEventType string
  | WaitTimedOut
  | WaitTimeoutTooShort int int
  | WaitTimeoutTooLong int int
  | UserError string
  | NonRetryableError string
  | ThrownUndefined
  | CorruptCheckpoint

record wf_instance =
  wi_id :: string
  wi_workflow :: string
  wi_params :: "string option"
  wi_status :: wf_status
  wi_output :: "string option"
  wi_error :: "wf_error option"
  wi_created_at :: int
  wi_updated_at :: int

record wf_event =
  we_instance :: string
  we_type :: string
  we_payload :: "string option"
  we_created_at :: int

record wf_step =
  ws_instance :: string
  ws_name :: string
  ws_output :: "string option"
  ws_completed_at :: int

record wf_attempt =
  wa_instance :: string
  wa_name :: string
  wa_failed :: nat
  wa_last_error :: wf_error
  wa_updated_at :: int

record wf_db =
  workflow_instances :: "wf_instance list"
  workflow_events :: "wf_event list"
  workflow_steps :: "wf_step list"
  workflow_step_attempts :: "wf_attempt list"

record wf_limits =
  maxConcurrentInstances :: "nat option" \<comment> \<open>\<open>None\<close> is \<open>Infinity\<close>\<close>
  maxRetentionMs :: int
  maxStepsPerWorkflow :: nat
  maxStepOutputBytes :: nat
  maxInstanceIdLength :: nat
  maxStepNameLength :: nat
  maxSleepMs :: int
  maxWaitForEventTimeoutMs :: int
  minWaitForEventTimeoutMs :: int
  defaultWaitForEventTimeoutMs :: int
  maxStepDoTimeoutMs :: int
  maxBatchSize :: nat
  defaultRetryLimit :: nat
  defaultRetryDelayMs :: int
  defaultRetryBackoff :: backoff
  defaultStepTimeoutMs :: int

definition WORKFLOW_DEFAULTS :: wf_limits where
  "WORKFLOW_DEFAULTS = \<lparr>maxConcurrentInstances = None, maxRetentionMs = 0, maxStepsPerWorkflow = 1024,
     maxStepOutputBytes = 1024 * 1024, maxInstanceIdLength = 100, maxStepNameLength = 256,
     maxSleepMs = 365 * 86400000, maxWaitForEventTimeoutMs = 365 * 86400000,
     minWaitForEventTimeoutMs = 1000, defaultWaitForEventTimeoutMs = 24 * 3600000,
     maxStepDoTimeoutMs = 30 * 60000, maxBatchSize = 100, defaultRetryLimit = 5,
     defaultRetryDelayMs = 10000, defaultRetryBackoff = Exponential, defaultStepTimeoutMs = 600000\<rparr>"

section \<open>Durations\<close>

definition duration_units :: "string list" where
  "duration_units = [''ms'', ''millisecond'', ''milliseconds'', ''s'', ''second'', ''seconds'',
     ''m'', ''minute'', ''minutes'', ''h'', ''hour'', ''hours'', ''d'', ''day'', ''days'',
     ''w'', ''week'', ''weeks'', ''month'', ''months'', ''y'', ''year'', ''years'']"

text \<open>The factor of a unit, by the tests in their order.\<close>

definition unit_factor :: "string \<Rightarrow> int option" where
  "unit_factor u =
     (if starts_with u ''ms'' \<or> starts_with u ''millisecond'' then Some 1
      else if starts_with u ''s'' then Some 1000
      else if u = ''m'' \<or> starts_with u ''minute'' then Some 60000
      else if starts_with u ''h'' then Some 3600000
      else if starts_with u ''d'' then Some 86400000
      else if starts_with u ''w'' then Some (7 * 86400000)
      else if starts_with u ''month'' then Some (30 * 86400000)
      else if starts_with u ''y'' then Some (365 * 86400000)
      else None)"

fun parseDuration :: "duration \<Rightarrow> (wf_error, int) res" where
  "parseDuration (DurNumber n) = Inr n"
| "parseDuration (DurString s) =
     (let ds = takeWhile is_digit s;
          u = to_lower (dropWhile is_ws (dropWhile is_digit s))
      in if ds = [] \<or> u \<notin> set duration_units then Inl (InvalidDuration s)
         else (case unit_factor u of
                 None \<Rightarrow> Inl (InvalidDuration s)
               | Some f \<Rightarrow> Inr (int (digits_val ds) * f)))"

fun computeDelay :: "int \<Rightarrow> nat \<Rightarrow> backoff \<Rightarrow> int" where
  "computeDelay baseMs attempt Constant = baseMs"
| "computeDelay baseMs attempt Linear = baseMs * (int attempt + 1)"
| "computeDelay baseMs attempt Exponential = baseMs * 2 ^ attempt"

fun truthy_duration :: "duration option \<Rightarrow> bool" where
  "truthy_duration None = False"
| "truthy_duration (Some (DurNumber n)) = (n \<noteq> 0)"
| "truthy_duration (Some (DurString s)) = (s \<noteq> '''')"

definition duration_or :: "duration option \<Rightarrow> int \<Rightarrow> (wf_error, int) res" where
  "duration_or d dflt = (if truthy_duration d then parseDuration (the d) else Inr dflt)"

section \<open>Checkpoints\<close>

type_synonym js_value = "json option" \<comment> \<open>\<open>None\<close> is \<open>undefined\<close>\<close>

datatype step_mock_type = MockResult js_value | MockError wf_error | MockTimeout

record step_mock =
  sm_type :: step_mock_type
  sm_times :: "nat option"
  sm_used :: nat

record mock_registry =
  stepMocks :: "(string \<times> string) \<rightharpoonup> step_mock"
  sleepDisabledInstances :: "string list"
  eventMocks :: "(string \<times> string) \<rightharpoonup> js_value"
  eventTimeoutMocks :: "(string \<times> string) list"

definition registerStepMock :: "string \<Rightarrow> string \<Rightarrow> step_mock \<Rightarrow> mock_registry \<Rightarrow> mock_registry" where
  "registerStepMock inst name m reg =
     reg\<lparr>stepMocks := (stepMocks reg)((inst, name) \<mapsto> m\<lparr>sm_used := 0\<rparr>)\<rparr>"

definition registerSleepDisable :: "string \<Rightarrow> mock_registry \<Rightarrow> mock_registry" where
  "registerSleepDisable inst reg =
     reg\<lparr>sleepDisabledInstances := List.insert inst (sleepDisabledInstances reg)\<rparr>"

definition registerEventMock :: "string \<Rightarrow> string \<Rightarrow> js_value \<Rightarrow> mock_registry \<Rightarrow> mock_registry" where
  "registerEventMock inst ty payload reg =
     reg\<lparr>eventMocks := (eventMocks reg)((inst, ty) \<mapsto> payload)\<rparr>"

definition registerEventTimeoutMock :: "string \<Rightarrow> string \<Rightarrow> mock_registry \<Rightarrow> mock_registry" where
  "registerEventTimeoutMock inst ty reg =
     reg\<lparr>eventTimeoutMocks := List.insert (inst, ty) (eventTimeoutMocks reg)\<rparr>"

definition clearInstanceMocks :: "string \<Rightarrow> mock_registry \<Rightarrow> mock_registry" where
  "clearInstanceMocks inst reg =
     \<lparr>stepMocks = (\<lambda>k. if fst k = inst then None else stepMocks reg k),
      sleepDisabledInstances = filter (\<lambda>i. i \<noteq> inst) (sleepDisabledInstances reg),
      eventMocks = (\<lambda>k. if fst k = inst then None else eventMocks reg k),
      eventTimeoutMocks = filter (\<lambda>k. fst k \<noteq> inst) (eventTimeoutMocks reg)\<rparr>"

record step_state =
  ss_db :: wf_db
  ss_mocks :: mock_registry
  ss_stepCount :: nat
  ss_known :: "string list"

definition checkStepLimit :: "wf_limits \<Rightarrow> step_state \<Rightarrow> (wf_error, unit) res \<times> step_state" where
  "checkStepLimit lims s =
     (let s' = s\<lparr>ss_stepCount := ss_stepCount s + 1\<rparr>
      in if maxStepsPerWorkflow lims < ss_stepCount s'
         then (Inl (TooManySteps (maxStepsPerWorkflow lims)), s') else (Inr (), s'))"

definition checkDuplicateStepName :: "string \<Rightarrow> step_state \<Rightarrow> (wf_error, unit) res \<times> step_state" where
  "checkDuplicateStepName name s =
     (if name \<in> set (ss_known s) then (Inl (DuplicateStepName name), s)
      else (Inr (), s\<lparr>ss_known := name # ss_known s\<rparr>))"

definition is_step :: "string \<Rightarrow> string \<Rightarrow> wf_step \<Rightarrow> bool" where
  "is_step inst name r = (ws_instance r = inst \<and> ws_name r = name)"

definition getCachedStep :: "string \<Rightarrow> string \<Rightarrow> wf_db \<Rightarrow> string option option" where
  "getCachedStep inst name db = map_option ws_output (sql_get (is_step inst name) (workflow_steps db))"

definition step_key :: "wf_step \<Rightarrow> string \<times> string" where
  "step_key r = (ws_instance r, ws_name r)"

definition cacheStep ::
    "wf_limits \<Rightarrow> string \<Rightarrow> string \<Rightarrow> js_value \<Rightarrow> int \<Rightarrow> wf_db \<Rightarrow> (wf_error, wf_db) res" where
  "cacheStep lims inst name output now db =
     (let serialized = map_option stringify output
      in if (case serialized of None \<Rightarrow> False | Some s \<Rightarrow> maxStepOutputBytes lims < length s)
         then Inl (OutputTooLarge name)
         else Inr (db\<lparr>workflow_steps := sql_replace step_key
                    \<lparr>ws_instance = inst, ws_name = name, ws_output = serialized, ws_completed_at = now\<rparr>
                    (workflow_steps db)\<rparr>))"

text \<open>\<open>JSON.parse(cached.output)\<close>; of the column value \<open>NULL\<close> it is \<open>null\<close>.\<close>

definition parse_output :: "string option \<Rightarrow> (wf_error, json) res" where
  "parse_output out =
     (case out of None \<Rightarrow> Inr JNull
      | Some s \<Rightarrow> (case json_parse s of None \<Rightarrow> Inl CorruptCheckpoint | Some v \<Rightarrow> Inr v))"

section \<open>Steps with retries\<close>

datatype attempt =
    Returns js_value
  | Throws string
  | ThrowsNonRetryable string
  | NeverSettles

record step_world =
  sw_abort :: bool \<comment> \<open>the signal when \<open>checkPaused\<close> ends\<close>
  sw_abort_before :: "nat \<Rightarrow> bool"
  sw_attempt :: "nat \<Rightarrow> attempt"
  sw_abort_delay :: "nat \<Rightarrow> bool"
  sw_now :: "nat \<Rightarrow> int"

record step_config =
  sc_limit :: "nat option"
  sc_delay :: "duration option"
  sc_backoff :: "backoff option"
  sc_timeout :: "duration option"

definition no_config :: step_config where
  "no_config = \<lparr>sc_limit = None, sc_delay = None, sc_backoff = None, sc_timeout = None\<rparr>"

definition is_attempt :: "string \<Rightarrow> string \<Rightarrow> wf_attempt \<Rightarrow> bool" where
  "is_attempt inst name r = (wa_instance r = inst \<and> wa_name r = name)"

definition attempt_key :: "wf_attempt \<Rightarrow> string \<times> string" where
  "attempt_key r = (wa_instance r, wa_name r)"

definition clear_attempt :: "string \<Rightarrow> string \<Rightarrow> wf_db \<Rightarrow> wf_db" where
  "clear_attempt inst name db =
     db\<lparr>workflow_step_attempts := sql_delete (is_attempt inst name) (workflow_step_attempts db)\<rparr>"

definition record_attempt :: "string \<Rightarrow> string \<Rightarrow> nat \<Rightarrow> wf_error \<Rightarrow> int \<Rightarrow> wf_db \<Rightarrow> wf_db" where
  "record_attempt inst name failed err now db =
     db\<lparr>workflow_step_attempts := sql_replace attempt_key
          \<lparr>wa_instance = inst, wa_name = name, wa_failed = failed, wa_last_error = err, wa_updated_at = now\<rparr>
          (workflow_step_attempts db)\<rparr>"

text \<open>One run of the callback, raced against the timer, with the checkpoint of its result.\<close>

definition try_attempt ::
    "wf_limits \<Rightarrow> string \<Rightarrow> string \<Rightarrow> step_world \<Rightarrow> nat \<Rightarrow> wf_db \<Rightarrow> (wf_error, js_value \<times> wf_db) res" where
  "try_attempt lims inst name w n db =
     (case sw_attempt w n of
        Returns v \<Rightarrow> bind_res (cacheStep lims inst name v (sw_now w n) db)
                       (\<lambda>db'. Inr (v, clear_attempt inst name db'))
      | Throws m \<Rightarrow> Inl (UserError m)
      | ThrowsNonRetryable m \<Rightarrow> Inl (NonRetryableError m)
      | NeverSettles \<Rightarrow> Inl (StepTimedOut name))"

definition is_non_retryable :: "wf_error \<Rightarrow> bool" where
  "is_non_retryable e = (case e of NonRetryableError _ \<Rightarrow> True | _ \<Rightarrow> False)"

function retry_loop ::
    "wf_limits \<Rightarrow> string \<Rightarrow> string \<Rightarrow> step_world \<Rightarrow> nat \<Rightarrow> int \<Rightarrow> backoff \<Rightarrow> nat \<Rightarrow> wf_error \<Rightarrow> wf_db
     \<Rightarrow> (wf_error, js_value) res \<times> wf_db" where
  "retry_loop lims inst name w maxRetries delayMs boff n lastError db =
     (if maxRetries < n then (Inl lastError, db)
      else if sw_abort_before w n then (Inl WorkflowTerminated, db)
      else (case try_attempt lims inst name w n db of
              Inr (v, db') \<Rightarrow> (Inr v, db')
            | Inl e \<Rightarrow>
                if is_non_retryable e then (Inl e, db)
                else (let db' = record_attempt inst name (n + 1) e (sw_now w n) db
                      in if n < maxRetries \<and> 0 < computeDelay delayMs n boff \<and> sw_abort_delay w n
                         then (Inl WorkflowTerminated, db')
                         else retry_loop lims inst name w maxRetries delayMs boff (n + 1) e db')))"
  by pat_completeness auto
termination
  by (relation "measure (\<lambda>(_, _, _, _, maxRetries, _, _, n, _, _). Suc maxRetries - n)") auto

declare retry_loop.simps [simp del]

definition start_attempt :: "string \<Rightarrow> string \<Rightarrow> wf_db \<Rightarrow> nat" where
  "start_attempt inst name db =
     (case sql_get (is_attempt inst name) (workflow_step_attempts db) of None \<Rightarrow> 0 | Some r \<Rightarrow> wa_failed r)"

definition run_step ::
    "wf_limits \<Rightarrow> string \<Rightarrow> string \<Rightarrow> step_config \<Rightarrow> step_world \<Rightarrow> wf_db \<Rightarrow> (wf_error, js_value) res \<times> wf_db" where
  "run_step lims inst name config w db =
     (let maxRetries = nullish (sc_limit config) (defaultRetryLimit lims);
          boff = nullish (sc_backoff config) (defaultRetryBackoff lims)
      in case duration_or (sc_delay config) (defaultRetryDelayMs lims) of
           Inl e \<Rightarrow> (Inl e, db)
         | Inr delayMs \<Rightarrow>
             (case duration_or (sc_timeout config) (defaultStepTimeoutMs lims) of
                Inl e \<Rightarrow> (Inl e, db)
              | Inr timeoutMs \<Rightarrow>
                  if maxStepDoTimeoutMs lims < timeoutMs
                  then (Inl (StepTimeoutTooLong timeoutMs (maxStepDoTimeoutMs lims)), db)
                  else retry_loop lims inst name w maxRetries delayMs boff (start_attempt inst name db)
                         ThrownUndefined db))"

definition mock_applies :: "step_mock \<Rightarrow> bool" where
  "mock_applies m = (case sm_times m of None \<Rightarrow> True | Some k \<Rightarrow> sm_used m < k)"

definition do_step ::
    "wf_limits \<Rightarrow> string \<Rightarrow> step_world \<Rightarrow> string \<Rightarrow> step_config \<Rightarrow> step_state
     \<Rightarrow> (wf_error, js_value) res \<times> step_state" where
  "do_step lims inst w name config s =
     (if maxStepNameLength lims < length name
      then (Inl (StepNameTooLong (maxStepNameLength lims) (length name)), s)
      else if sw_abort w then (Inl WorkflowTerminated, s)
      else (case checkStepLimit lims s of
              (Inl e, s1) \<Rightarrow> (Inl e, s1)
            | (Inr _, s1) \<Rightarrow>
      (case checkDuplicateStepName name s1 of
         (Inl e, s2) \<Rightarrow> (Inl e, s2)
       | (Inr _, s2) \<Rightarrow>
      (case getCachedStep inst name (ss_db s2) of
         Some out \<Rightarrow> (bind_res (parse_output out) (\<lambda>v. Inr (Some v)), s2)
       | None \<Rightarrow>
           (let run = (case run_step lims inst name config w (ss_db s2) of
                         (r, db') \<Rightarrow> (r, s2\<lparr>ss_db := db'\<rparr>))
            in case stepMocks (ss_mocks s2) (inst, name) of
                 None \<Rightarrow> run
               | Some m \<Rightarrow>
                   if \<not> mock_applies m then run
                   else (let s3 = s2\<lparr>ss_mocks := (ss_mocks s2)\<lparr>stepMocks :=
                                  (stepMocks (ss_mocks s2))((inst, name) \<mapsto> m\<lparr>sm_used := sm_used m + 1\<rparr>)\<rparr>\<rparr>
                         in (case sm_type m of
                               MockResult v \<Rightarrow>
                                 (case cacheStep lims inst name v (sw_now w 0) (ss_db s3) of
                                    Inl e \<Rightarrow> (Inl e, s3)
                                  | Inr db' \<Rightarrow> (Inr v, s3\<lparr>ss_db := db'\<rparr>))
                             | MockError e \<Rightarrow> (Inl e, s3)
                             | MockTimeout \<Rightarrow> (Inl (StepTimedOut name), s3))))))))"

section \<open>Sleeping\<close>

text \<open>
  A sleep returns the time it still has to wait (the delay it starts), or an error; \<open>now\<close> is the
  clock when it runs.
\<close>

definition sleep_until_json :: "int \<Rightarrow> js_value" where
  "sleep_until_json until = Some (JObj [(''until'', JNum until)])"

definition until_of :: "json \<Rightarrow> int option" where
  "until_of v = (case v of JObj kvs \<Rightarrow> (case map_of kvs ''until'' of Some (JNum n) \<Rightarrow> Some n | _ \<Rightarrow> None)
                 | _ \<Rightarrow> None)"

definition sleep ::
    "wf_limits \<Rightarrow> string \<Rightarrow> bool \<Rightarrow> int \<Rightarrow> string \<Rightarrow> duration \<Rightarrow> step_state
     \<Rightarrow> (wf_error, int) res \<times> step_state" where
  "sleep lims inst aborted now name dur s =
     (let key = ''sleep:'' @ name in
      if aborted then (Inl WorkflowTerminated, s)
      else (case checkDuplicateStepName key s of
              (Inl e, s1) \<Rightarrow> (Inl e, s1)
            | (Inr _, s1) \<Rightarrow>
      if inst \<in> set (sleepDisabledInstances (ss_mocks s1))
      then (case cacheStep lims inst key (sleep_until_json now) now (ss_db s1) of
              Inl e \<Rightarrow> (Inl e, s1) | Inr db' \<Rightarrow> (Inr 0, s1\<lparr>ss_db := db'\<rparr>))
      else (case getCachedStep inst key (ss_db s1) of
              Some out \<Rightarrow>
                (case parse_output out of
                   Inl e \<Rightarrow> (Inl e, s1)
                 | Inr v \<Rightarrow> (case until_of v of
                              None \<Rightarrow> (Inl CorruptCheckpoint, s1)
                            | Some until \<Rightarrow> (Inr (max 0 (until - now)), s1)))
            | None \<Rightarrow>
                (case parseDuration dur of
                   Inl e \<Rightarrow> (Inl e, s1)
                 | Inr ms \<Rightarrow>
                     if maxSleepMs lims < ms then (Inl (SleepTooLong ms (maxSleepMs lims)), s1)
                     else (case cacheStep lims inst key (sleep_until_json (now + ms)) now (ss_db s1) of
                             Inl e \<Rightarrow> (Inl e, s1)
                           | Inr db' \<Rightarrow> (Inr (max 0 ms), s1\<lparr>ss_db := db'\<rparr>))))))"

definition sleepUntil ::
    "wf_limits \<Rightarrow> string \<Rightarrow> bool \<Rightarrow> int \<Rightarrow> string \<Rightarrow> int \<Rightarrow> step_state \<Rightarrow> (wf_error, int) res \<times> step_state" where
  "sleepUntil lims inst aborted now name ts s =
     (let key = ''sleepUntil:'' @ name;
          stamp = Some (JObj [(''until'', JStr (toISOString ts))]) in
      if aborted then (Inl WorkflowTerminated, s)
      else (case checkDuplicateStepName key s of
              (Inl e, s1) \<Rightarrow> (Inl e, s1)
            | (Inr _, s1) \<Rightarrow>
      if inst \<in> set (sleepDisabledInstances (ss_mocks s1))
      then (case cacheStep lims inst key stamp now (ss_db s1) of
              Inl e \<Rightarrow> (Inl e, s1) | Inr db' \<Rightarrow> (Inr 0, s1\<lparr>ss_db := db'\<rparr>))
      else (case getCachedStep inst key (ss_db s1) of
              Some out \<Rightarrow> (Inr (max 0 (ts - now)), s1)
            | None \<Rightarrow>
                (let delay = max 0 (ts - now)
                 in if maxSleepMs lims < delay then (Inl (SleepTooLong delay (maxSleepMs lims)), s1)
                    else (case cacheStep lims inst key stamp now (ss_db s1) of
                            Inl e \<Rightarrow> (Inl e, s1)
                          | Inr db' \<Rightarrow> (Inr delay, s1\<lparr>ss_db := db'\<rparr>))))))"

section \<open>Waiting for events\<close>

definition set_status :: "string \<Rightarrow> wf_status \<Rightarrow> int \<Rightarrow> wf_db \<Rightarrow> wf_db" where
  "set_status inst status now db =
     db\<lparr>workflow_instances := sql_update (\<lambda>r. wi_id r = inst)
          (\<lambda>r. r\<lparr>wi_status := status, wi_updated_at := now\<rparr>) (workflow_instances db)\<rparr>"

text \<open>\<open>/^[a-zA-Z0-9_][a-zA-Z0-9_-]{0,99}$/\<close>\<close>

definition valid_event_type :: "string \<Rightarrow> bool" where
  "valid_event_type t =
     (t \<noteq> [] \<and> is_word (hd t) \<and> list_all (\<lambda>c. is_word c \<or> c = CHR ''-'') (tl t) \<and> length (tl t) \<le> 99)"

record event_value =
  ev_payload :: js_value
  ev_timestamp :: int
  ev_type :: string

definition event_json :: "event_value \<Rightarrow> json" where
  "event_json e =
     JObj ((case ev_payload e of None \<Rightarrow> [] | Some p \<Rightarrow> [(''payload'', p)])
           @ [(''timestamp'', JStr (toISOString (ev_timestamp e))), (''type'', JStr (ev_type e))])"

text \<open>\<open>new Date(s)\<close> on the format \<open>toISOString\<close> prints.\<close>

definition num_at :: "nat \<Rightarrow> nat \<Rightarrow> string \<Rightarrow> int" where
  "num_at i n s = int (digits_val (take n (drop i s)))"

definition parse_date :: "string \<Rightarrow> int" where
  "parse_date s =
     time_of \<lparr>df_year = num_at 0 4 s, df_month = nat (num_at 5 2 s - 1), df_day = num_at 8 2 s,
              df_hour = num_at 11 2 s, df_minute = num_at 14 2 s, df_second = num_at 17 2 s,
              df_ms = num_at 20 3 s, df_weekday = 0\<rparr>"

definition event_of_json :: "json \<Rightarrow> (wf_error, event_value) res" where
  "event_of_json v =
     (case v of
        JObj kvs \<Rightarrow>
          (case (map_of kvs ''timestamp'', map_of kvs ''type'') of
             (Some (JStr ts), Some (JStr ty)) \<Rightarrow>
               Inr \<lparr>ev_payload = map_of kvs ''payload'', ev_timestamp = parse_date ts, ev_type = ty\<rparr>
           | _ \<Rightarrow> Inl CorruptCheckpoint)
      | _ \<Rightarrow> Inl CorruptCheckpoint)"

definition pending_event :: "string \<Rightarrow> string \<Rightarrow> wf_event \<Rightarrow> bool" where
  "pending_event inst ty e = (we_instance e = inst \<and> we_type e = ty)"

fun delete_first :: "('a \<Rightarrow> bool) \<Rightarrow> 'a list \<Rightarrow> 'a list" where
  "delete_first P [] = []"
| "delete_first P (x # xs) = (if P x then xs else x # delete_first P xs)"

definition parse_payload :: "string option \<Rightarrow> (wf_error, js_value) res" where
  "parse_payload p =
     (case p of None \<Rightarrow> Inr None
      | Some s \<Rightarrow> (case json_parse s of None \<Rightarrow> Inl CorruptCheckpoint | Some v \<Rightarrow> Inr (Some v)))"

datatype wait_result =
    WaitReturned "(wf_error, event_value) res"
  | WaitRegistered int \<comment> \<open>a waiter with this timeout in milliseconds\<close>

definition insert_mock_event :: "string \<Rightarrow> string \<Rightarrow> int \<Rightarrow> step_state \<Rightarrow> step_state" where
  "insert_mock_event inst ty now s =
     (case eventMocks (ss_mocks s) (inst, ty) of
        None \<Rightarrow> s
      | Some payload \<Rightarrow>
          s\<lparr>ss_mocks := (ss_mocks s)\<lparr>eventMocks := (eventMocks (ss_mocks s))((inst, ty) := None)\<rparr>,
            ss_db := (ss_db s)\<lparr>workflow_events := sql_insert
              \<lparr>we_instance = inst, we_type = ty, we_payload = map_option stringify payload, we_created_at = now\<rparr>
              (workflow_events (ss_db s))\<rparr>\<rparr>)"

text \<open>The part inside the span: the checkpoint, a stored event, or a waiter.\<close>

definition wait_inner ::
    "wf_limits \<Rightarrow> string \<Rightarrow> int \<Rightarrow> string \<Rightarrow> string \<Rightarrow> string option \<Rightarrow> step_state \<Rightarrow> wait_result \<times> step_state" where
  "wait_inner lims inst now key ty timeout s =
     (case getCachedStep inst key (ss_db s) of
        Some out \<Rightarrow> (WaitReturned (bind_res (parse_output out) event_of_json), s)
      | None \<Rightarrow>
          (let db1 = set_status inst Waiting now (ss_db s) in
           case sql_get (pending_event inst ty) (workflow_events db1) of
             Some e \<Rightarrow>
               (let db2 = set_status inst Running now
                      (db1\<lparr>workflow_events := delete_first (pending_event inst ty) (workflow_events db1)\<rparr>)
                in case parse_payload (we_payload e) of
                     Inl err \<Rightarrow> (WaitReturned (Inl err), s\<lparr>ss_db := db2\<rparr>)
                   | Inr payload \<Rightarrow>
                       (let event = \<lparr>ev_payload = payload, ev_timestamp = we_created_at e, ev_type = ty\<rparr>
                        in case cacheStep lims inst key (Some (event_json event)) now db2 of
                             Inl err \<Rightarrow> (WaitReturned (Inl err), s\<lparr>ss_db := db2\<rparr>)
                           | Inr db3 \<Rightarrow> (WaitReturned (Inr event), s\<lparr>ss_db := db3\<rparr>)))
           | None \<Rightarrow>
               (case duration_or (map_option DurString timeout) (defaultWaitForEventTimeoutMs lims) of
                  Inl err \<Rightarrow> (WaitReturned (Inl err), s\<lparr>ss_db := db1\<rparr>)
                | Inr ms \<Rightarrow>
                    if ms < minWaitForEventTimeoutMs lims
                    then (WaitReturned (Inl (WaitTimeoutTooShort ms (minWaitForEventTimeoutMs lims))), s\<lparr>ss_db := db1\<rparr>)
                    else if maxWaitForEventTimeoutMs lims < ms
                    then (WaitReturned (Inl (WaitTimeoutTooLong ms (maxWaitForEventTimeoutMs lims))), s\<lparr>ss_db := db1\<rparr>)
                    else (WaitRegistered ms, s\<lparr>ss_db := db1\<rparr>))))"

definition waitForEvent ::
    "wf_limits \<Rightarrow> string \<Rightarrow> bool \<Rightarrow> int \<Rightarrow> string \<Rightarrow> string \<Rightarrow> string option \<Rightarrow> step_state
     \<Rightarrow> wait_result \<times> step_state" where
  "waitForEvent lims inst aborted now name ty timeout s =
     (let key = ''waitForEvent:'' @ name in
      if aborted then (WaitReturned (Inl WorkflowTerminated), s)
      else (case checkStepLimit lims s of
              (Inl e, s1) \<Rightarrow> (WaitReturned (Inl e), s1)
            | (Inr _, s1) \<Rightarrow>
      (case checkDuplicateStepName key s1 of
         (Inl e, s2) \<Rightarrow> (WaitReturned (Inl e), s2)
       | (Inr _, s2) \<Rightarrow>
           if \<not> valid_event_type ty then (WaitReturned (Inl (InvalidEventType ty)), s2)
           else if (inst, ty) \<in> set (eventTimeoutMocks (ss_mocks s2))
           then (WaitReturned (Inl WaitTimedOut), s2)
           else wait_inner lims inst now key ty timeout (insert_mock_event inst ty now s2))))"

text \<open>How a registered wait ends.\<close>

datatype wait_outcome = EventArrived js_value int | WaitTimeout | WaitAborted

fun wait_end ::
    "wf_limits \<Rightarrow> string \<Rightarrow> string \<Rightarrow> string \<Rightarrow> wait_outcome \<Rightarrow> int \<Rightarrow> wf_db
     \<Rightarrow> (wf_error, event_value) res \<times> wf_db" where
  "wait_end lims inst name ty (EventArrived payload arrived) now db =
     (let event = \<lparr>ev_payload = payload, ev_timestamp = arrived, ev_type = ty\<rparr>;
          db1 = set_status inst Running now db
      in case cacheStep lims inst (''waitForEvent:'' @ name) (Some (event_json event)) now db1 of
           Inl e \<Rightarrow> (Inl e, db1)
         | Inr db2 \<Rightarrow> (Inr event, db2))"
| "wait_end lims inst name ty WaitTimeout now db = (Inl WaitTimedOut, db)"
| "wait_end lims inst name ty WaitAborted now db = (Inl WorkflowTerminated, db)"

end
