(* ===== verification/WorkflowStepLaws.thy ===== *)
theory WorkflowStepLaws
  imports WorkflowSteps
begin

text \<open>
  Laws of the durable steps: what the retry loop does, that a step completes at most once
  however often its workflow is interrupted and resumed, that a resumed sleep waits only for
  the rest of its time, and that the stored events of a type are a queue.
\<close>

section \<open>Checkpoints as a keyed store\<close>

definition step_lookup :: "string \<times> string \<Rightarrow> wf_step list \<Rightarrow> (string option \<times> int) option" where
  "step_lookup k t = map_option (\<lambda>r. (ws_output r, ws_completed_at r)) (sql_get (\<lambda>r. step_key r = k) t)"

definition step_store :: "string \<times> string \<Rightarrow> string option \<times> int \<Rightarrow> wf_step list \<Rightarrow> wf_step list" where
  "step_store k v t = sql_replace step_key
     \<lparr>ws_instance = fst k, ws_name = snd k, ws_output = fst v, ws_completed_at = snd v\<rparr> t"

definition step_remove :: "string \<times> string \<Rightarrow> wf_step list \<Rightarrow> wf_step list" where
  "step_remove k t = sql_delete (\<lambda>r. step_key r = k) t"

interpretation steps: record_store step_lookup step_store step_remove
proof
  fix k k' :: "string \<times> string" and v t
  let ?r = "\<lparr>ws_instance = fst k, ws_name = snd k, ws_output = fst v, ws_completed_at = snd v\<rparr>"
  have key: "step_key ?r = k" by (simp add: step_key_def)
  show "step_lookup k (step_store k v t) = Some v"
    using sql_get_replace_same[of step_key ?r t] by (simp add: step_lookup_def step_store_def key)
  show "step_lookup k' (step_store k v t) = step_lookup k' t" if "k' \<noteq> k"
    using sql_get_replace_other[of k' step_key ?r t] that by (simp add: step_lookup_def step_store_def key)
  show "step_lookup k (step_remove k t) = None" by (simp add: step_lookup_def step_remove_def)
  show "step_lookup k' (step_remove k t) = step_lookup k' t" if "k' \<noteq> k"
    unfolding step_lookup_def step_remove_def using that by (subst sql_get_delete_disjoint) auto
qed

lemma is_step_key: "is_step inst name = (\<lambda>r. step_key r = (inst, name))"
  by (auto simp: is_step_def step_key_def)

lemma getCachedStep_lookup: "getCachedStep inst name db = map_option fst (step_lookup (inst, name) (workflow_steps db))"
  by (simp add: getCachedStep_def step_lookup_def is_step_key option.map_comp comp_def)

lemma cacheStep_store:
  "cacheStep lims inst name v now db = Inr db' \<Longrightarrow>
   db' = db\<lparr>workflow_steps := step_store (inst, name) (map_option stringify v, now) (workflow_steps db)\<rparr>"
  by (auto simp: cacheStep_def step_store_def Let_def split: if_splits)

lemma getCachedStep_cacheStep:
  assumes "cacheStep lims inst name v now db = Inr db'"
  shows "getCachedStep inst' name' db' =
    (if inst' = inst \<and> name' = name then Some (map_option stringify v) else getCachedStep inst' name' db)"
  unfolding cacheStep_store[OF assms]
  by (simp add: getCachedStep_lookup steps.lookup_store steps.lookup_store_other)

lemma getCachedStep_attempts [simp]:
  "getCachedStep inst' name' (clear_attempt inst name db) = getCachedStep inst' name' db"
  "getCachedStep inst' name' (record_attempt inst name n e now db) = getCachedStep inst' name' db"
  by (simp_all add: getCachedStep_def clear_attempt_def record_attempt_def)

section \<open>The retry loop\<close>

lemma start_clear [simp]: "start_attempt inst name (clear_attempt inst name db) = 0"
  by (auto simp: start_attempt_def clear_attempt_def split: option.split dest: sql_get_SomeD)

lemma try_attempt_Inr:
  "try_attempt lims inst name w n db = Inr (v, db') \<Longrightarrow>
   sw_attempt w n = Returns v \<and>
   (\<forall>i m. getCachedStep i m db' =
      (if i = inst \<and> m = name then Some (map_option stringify v) else getCachedStep i m db)) \<and>
   start_attempt inst name db' = 0"
  by (auto simp: try_attempt_def bind_res_eq_Inr getCachedStep_cacheStep split: attempt.splits)

definition attempt_fails :: "wf_limits \<Rightarrow> string \<Rightarrow> string \<Rightarrow> step_world \<Rightarrow> nat \<Rightarrow> wf_db \<Rightarrow> bool" where
  "attempt_fails lims inst name w n db = (\<not> is_ok (try_attempt lims inst name w n db))"

lemma start_record [simp]: "start_attempt inst name (record_attempt inst name n e now db) = n"
proof -
  have "(\<lambda>r. is_attempt inst name r) = (\<lambda>r. attempt_key r = (inst, name))"
    by (auto simp: is_attempt_def attempt_key_def)
  then show ?thesis
    using sql_get_replace_same[of attempt_key
        "\<lparr>wa_instance = inst, wa_name = name, wa_failed = n, wa_last_error = e, wa_updated_at = now\<rparr>"
        "workflow_step_attempts db"]
    by (simp add: start_attempt_def record_attempt_def attempt_key_def)
qed

text \<open>Whether an attempt fails does not depend on the tables.\<close>

lemma try_attempt_fails_tables:
  "is_ok (try_attempt lims inst name w n db) = is_ok (try_attempt lims inst name w n db')"
  by (auto simp: try_attempt_def cacheStep_def Let_def split: attempt.split)

lemma retry_loop_result:
  assumes "retry_loop lims inst name w maxR d boff n e0 db = (r, db')"
  shows "case r of
      Inr v \<Rightarrow> \<exists>k. n \<le> k \<and> k \<le> maxR \<and> sw_attempt w k = Returns v
                \<and> (\<forall>j. n \<le> j \<longrightarrow> j < k \<longrightarrow> attempt_fails lims inst name w j db)
                \<and> (\<forall>i m. getCachedStep i m db' =
                     (if i = inst \<and> m = name then Some (map_option stringify v) else getCachedStep i m db))
                \<and> start_attempt inst name db' = 0
    | Inl e \<Rightarrow> (\<forall>i m. getCachedStep i m db' = getCachedStep i m db)
                \<and> (e = WorkflowTerminated \<or> is_non_retryable e
                   \<or> (maxR < n \<and> e = e0 \<and> db' = db)
                   \<or> (n \<le> maxR \<and> (\<forall>j. n \<le> j \<longrightarrow> j \<le> maxR \<longrightarrow> attempt_fails lims inst name w j db)
                      \<and> start_attempt inst name db' = maxR + 1))"
  using assms
proof (induction lims inst name w maxR d boff n e0 db arbitrary: r db' rule: retry_loop.induct)
  case (1 lims inst name w maxR d boff n e0 db)
  show ?case
  proof (cases "maxR < n")
    case True
    with 1(2) show ?thesis by (subst (asm) retry_loop.simps) auto
  next
    case nle: False
    show ?thesis
    proof (cases "sw_abort_before w n")
      case True
      with 1(2) nle show ?thesis by (subst (asm) retry_loop.simps) auto
    next
      case go: False
      show ?thesis
      proof (cases "try_attempt lims inst name w n db")
        case (Inr p)
        obtain v db1 where p: "p = (v, db1)" by (cases p)
        with 1(2) nle go Inr have r: "r = Inr v" "db' = db1" by (subst (asm) retry_loop.simps; simp)+
        with try_attempt_Inr[of lims inst name w n db v db1] Inr p nle show ?thesis
          by (auto intro!: exI[of _ n])
      next
        case (Inl e)
        have fails: "attempt_fails lims inst name w n db" by (simp add: attempt_fails_def Inl)
        show ?thesis
        proof (cases "is_non_retryable e")
          case True
          with 1(2) nle go Inl show ?thesis by (subst (asm) retry_loop.simps) auto
        next
          case retry: False
          let ?db1 = "record_attempt inst name (n + 1) e (sw_now w n) db"
          show ?thesis
          proof (cases "n < maxR \<and> 0 < computeDelay d n boff \<and> sw_abort_delay w n")
            case True
            with 1(2) nle go Inl retry show ?thesis by (subst (asm) retry_loop.simps) auto
          next
            case False
            with 1(2) nle go Inl retry
            have rec: "retry_loop lims inst name w maxR d boff (n + 1) e ?db1 = (r, db')"
              by (subst (asm) retry_loop.simps) (auto simp: Let_def)
            note IH = 1(1)[OF nle go Inl retry refl False rec]
            have same: "attempt_fails lims inst name w j ?db1 = attempt_fails lims inst name w j db" for j
              unfolding attempt_fails_def using try_attempt_fails_tables by metis
            have step: "(\<forall>j. n \<le> j \<longrightarrow> Q j) \<longleftrightarrow> Q n \<and> (\<forall>j. n + 1 \<le> j \<longrightarrow> Q j)" for Q
              by (metis Suc_eq_plus1 le_antisym not_less_eq_eq order_refl nle_le Suc_leD)
            show ?thesis
            proof (cases r)
              case (Inr v)
              with IH obtain k where "n + 1 \<le> k" "k \<le> maxR" "sw_attempt w k = Returns v"
                "\<forall>j. n + 1 \<le> j \<longrightarrow> j < k \<longrightarrow> attempt_fails lims inst name w j db"
                "\<forall>i m. getCachedStep i m db' =
                   (if i = inst \<and> m = name then Some (map_option stringify v) else getCachedStep i m db)"
                "start_attempt inst name db' = 0" by (auto simp: same[simplified] cong: if_cong)
              then show ?thesis using fails Inr step[of "\<lambda>j. j < k \<longrightarrow> attempt_fails lims inst name w j db"]
                by (auto intro!: exI[of _ k])
            next
              case (Inl e')
              show ?thesis
              proof (cases "maxR < n + 1")
                case True
                with nle have "maxR = n" by simp
                with IH Inl fails show ?thesis by (auto simp: same)
              next
                case False
                with IH Inl fails step[of "\<lambda>j. j \<le> maxR \<longrightarrow> attempt_fails lims inst name w j db"]
                show ?thesis by (auto simp: same[simplified])
              qed
            qed
          qed
        qed
      qed
    qed
  qed
qed

text \<open>
  C11. A step without a checkpoint and without a mock, whose configuration is valid, either
  returns the value of the first attempt that succeeds, counting on from the attempts that
  earlier executions of the workflow recorded, stores it as the checkpoint and clears the
  record of failed attempts; or it fails, and then every attempt up to the retry limit failed
  and the record says so, unless the workflow was terminated, an error was not retryable, or
  the limit had been used up before. No other checkpoint changes.
\<close>

theorem run_step_outcome:
  assumes "duration_or (sc_delay config) (defaultRetryDelayMs lims) = Inr d"
    and "duration_or (sc_timeout config) (defaultStepTimeoutMs lims) = Inr t" "t \<le> maxStepDoTimeoutMs lims"
    and "run_step lims inst name config w db = (r, db')"
  shows "case r of
      Inr v \<Rightarrow> \<exists>k. start_attempt inst name db \<le> k \<and> k \<le> nullish (sc_limit config) (defaultRetryLimit lims)
          \<and> sw_attempt w k = Returns v
          \<and> (\<forall>j. start_attempt inst name db \<le> j \<longrightarrow> j < k \<longrightarrow> attempt_fails lims inst name w j db)
          \<and> (\<forall>i m. getCachedStep i m db' =
               (if i = inst \<and> m = name then Some (map_option stringify v) else getCachedStep i m db))
          \<and> start_attempt inst name db' = 0
    | Inl e \<Rightarrow> (\<forall>i m. getCachedStep i m db' = getCachedStep i m db)
          \<and> (e = WorkflowTerminated \<or> is_non_retryable e
             \<or> (nullish (sc_limit config) (defaultRetryLimit lims) < start_attempt inst name db
                \<and> e = ThrownUndefined \<and> db' = db)
             \<or> (start_attempt inst name db \<le> nullish (sc_limit config) (defaultRetryLimit lims)
                \<and> (\<forall>j. start_attempt inst name db \<le> j \<longrightarrow> j \<le> nullish (sc_limit config) (defaultRetryLimit lims) \<longrightarrow>
                      attempt_fails lims inst name w j db)
                \<and> start_attempt inst name db' = nullish (sc_limit config) (defaultRetryLimit lims) + 1))"
  using assms by (intro retry_loop_result) (simp add: run_step_def Let_def)

definition demo_world :: step_world where
  "demo_world = \<lparr>sw_abort = False, sw_abort_before = (\<lambda>_. False),
     sw_attempt = (\<lambda>n. if n < 2 then Throws ''busy'' else Returns (Some (JNum 7))),
     sw_abort_delay = (\<lambda>_. False), sw_now = (\<lambda>n. int n)\<rparr>"

definition empty_db :: wf_db where
  "empty_db = \<lparr>workflow_instances = [], workflow_events = [], workflow_steps = [], workflow_step_attempts = []\<rparr>"

theorem run_step_outcome_witness:
  "\<exists>db'. run_step WORKFLOW_DEFAULTS ''i'' ''s'' no_config demo_world empty_db = (Inr (Some (JNum 7)), db')
     \<and> getCachedStep ''i'' ''s'' db' = Some (Some (stringify (JNum 7))) \<and> start_attempt ''i'' ''s'' db' = 0"
proof -
  have d: "duration_or (sc_delay no_config) (defaultRetryDelayMs WORKFLOW_DEFAULTS) = Inr 10000"
    and t: "duration_or (sc_timeout no_config) (defaultStepTimeoutMs WORKFLOW_DEFAULTS) = Inr 600000"
      "600000 \<le> maxStepDoTimeoutMs WORKFLOW_DEFAULTS"
    by (simp_all add: duration_or_def no_config_def WORKFLOW_DEFAULTS_def)
  have str: "show_int 7 = ''7''" by code_simp
  have "fst (run_step WORKFLOW_DEFAULTS ''i'' ''s'' no_config demo_world empty_db) = Inr (Some (JNum 7))"
    by (simp add: run_step_def Let_def start_attempt_def empty_db_def sql_defs retry_loop.simps demo_world_def
        try_attempt_def is_non_retryable_def cacheStep_def str no_config_def WORKFLOW_DEFAULTS_def duration_or_def
        record_attempt_def)
  then obtain db' where r: "run_step WORKFLOW_DEFAULTS ''i'' ''s'' no_config demo_world empty_db = (Inr (Some (JNum 7)), db')"
    by (metis prod.collapse)
  from run_step_outcome[OF d t r] show ?thesis using r by auto
qed

section \<open>Interruption and resumption\<close>

text \<open>
  A workflow as the user wrote it: the steps it runs, each depending on the results of the ones
  before, errors included. \<open>run_prog\<close> executes at most \<open>budget\<close> of its operations, the process
  ending there, and keeps a log of the steps it completed that had no checkpoint.
\<close>

datatype wf_prog =
    PReturn js_value
  | PThrow wf_error
  | PDo string step_config "(wf_error, js_value) res \<Rightarrow> wf_prog"
  | PSleep string duration "(wf_error, int) res \<Rightarrow> wf_prog"

record run_world =
  rw_step :: "string \<Rightarrow> step_world"
  rw_sleep :: "string \<Rightarrow> bool \<times> int"

fun run_prog ::
    "wf_limits \<Rightarrow> string \<Rightarrow> run_world \<Rightarrow> nat \<Rightarrow> wf_prog \<Rightarrow> step_state
     \<Rightarrow> (wf_error, js_value) res option \<times> step_state \<times> (string \<times> js_value) list" where
  "run_prog lims inst w 0 p s = (None, s, [])"
| "run_prog lims inst w (Suc budget) (PReturn v) s = (Some (Inr v), s, [])"
| "run_prog lims inst w (Suc budget) (PThrow e) s = (Some (Inl e), s, [])"
| "run_prog lims inst w (Suc budget) (PDo name config f) s =
     (let (r, s1) = do_step lims inst (rw_step w name) name config s;
          (out, s2, log) = run_prog lims inst w budget (f r) s1
      in (out, s2,
          (case r of
             Inr v \<Rightarrow> if getCachedStep inst name (ss_db s) = None then (name, v) # log else log
           | Inl _ \<Rightarrow> log)))"
| "run_prog lims inst w (Suc budget) (PSleep name d f) s =
     (let (r, s1) = sleep lims inst (fst (rw_sleep w name)) (snd (rw_sleep w name)) name d s
      in run_prog lims inst w budget (f r) s1)"

text \<open>The executions of one instance, each from a fresh step object over the tables the last one left.\<close>

fun run_all ::
    "wf_limits \<Rightarrow> string \<Rightarrow> mock_registry \<Rightarrow> wf_prog \<Rightarrow> (run_world \<times> nat) list \<Rightarrow> wf_db
     \<Rightarrow> wf_db \<times> (string \<times> js_value) list" where
  "run_all lims inst mocks p [] db = (db, [])"
| "run_all lims inst mocks p ((w, budget) # runs) db =
     (let (out, s, log) = run_prog lims inst w budget p
              \<lparr>ss_db = db, ss_mocks = mocks, ss_stepCount = 0, ss_known = []\<rparr>;
          (db', log') = run_all lims inst (ss_mocks s) p runs (ss_db s)
      in (db', log @ log'))"

lemma checks_db:
  "checkStepLimit lims s = (r, s') \<Longrightarrow> ss_db s' = ss_db s"
  "checkDuplicateStepName name s = (r', s') \<Longrightarrow> ss_db s' = ss_db s"
  by (auto simp: checkStepLimit_def checkDuplicateStepName_def Let_def split: if_splits)

lemma run_step_cached:
  assumes "run_step lims inst name config w db = (r, db')"
  shows "\<forall>i m. getCachedStep i m db' =
     (if is_ok r \<and> i = inst \<and> m = name then Some (map_option stringify (projr r)) else getCachedStep i m db)"
proof -
  have "getCachedStep i m db' =
     (if is_ok r \<and> i = inst \<and> m = name then Some (map_option stringify (projr r)) else getCachedStep i m db)"
    if "retry_loop lims inst name w mr dm bo n e0 db = (r, db')" for mr dm bo n e0 i m
    using retry_loop_result[OF that] by (auto simp: is_ok_def split: sum.splits)
  then show ?thesis using assms
    by (auto simp: run_step_def Let_def split: sum.splits if_splits)
qed

lemma do_step_cached:
  assumes "do_step lims inst w name config s = (r, s')"
  shows "\<forall>i m. getCachedStep i m (ss_db s') =
     (if is_ok r \<and> i = inst \<and> m = name \<and> getCachedStep inst name (ss_db s) = None
      then Some (map_option stringify (projr r)) else getCachedStep i m (ss_db s))"
proof -
  have run: "\<forall>i m. getCachedStep i m db' =
     (if is_ok r \<and> i = inst \<and> m = name then Some (map_option stringify (projr r)) else getCachedStep i m db)"
    if "(case run_step lims inst name config w db of (r, db') \<Rightarrow> (r, s2\<lparr>ss_db := db'\<rparr>)) = (r, s')"
      "ss_db s' = db'" for db s2 db'
    using that run_step_cached[of lims inst name config w db] by (auto split: prod.splits)
  obtain r1 s1 where c1: "checkStepLimit lims s = (r1, s1)" by force
  obtain r2 s2 where c2: "checkDuplicateStepName name s1 = (r2, s2)" by force
  note db = checks_db(1)[OF c1] checks_db(2)[OF c2]
  show ?thesis
  proof (cases "maxStepNameLength lims < length name \<or> sw_abort w \<or> \<not> is_ok r1 \<or> \<not> is_ok r2")
    case True
    with assms c1 c2 db show ?thesis
      by (auto simp: do_step_def is_ok_def split: if_splits sum.splits)
  next
    case False
    then have ok: "r1 = Inr ()" "r2 = Inr ()" by (cases r1; cases r2; auto)+
    show ?thesis
    proof (cases "getCachedStep inst name (ss_db s)")
      case (Some out)
      with assms c1 c2 db False ok show ?thesis by (auto simp: do_step_def)
    next
      case None
      show ?thesis
      proof (cases "stepMocks (ss_mocks s2) (inst, name)")
        case None': None
        with assms c1 c2 db False ok None
        have "(case run_step lims inst name config w (ss_db s2) of (r, db') \<Rightarrow> (r, s2\<lparr>ss_db := db'\<rparr>)) = (r, s')"
          by (simp add: do_step_def)
        from run[OF this refl] None db show ?thesis by simp
      next
        case (Some m)
        show ?thesis
        proof (cases "mock_applies m")
          case no: False
          with assms c1 c2 db False ok None Some
          have "(case run_step lims inst name config w (ss_db s2) of (r, db') \<Rightarrow> (r, s2\<lparr>ss_db := db'\<rparr>)) = (r, s')"
            by (simp add: do_step_def Let_def)
          from run[OF this refl] None db show ?thesis by simp
        next
          case True
          with assms c1 c2 db False ok None Some show ?thesis
            by (auto simp: do_step_def Let_def is_ok_def getCachedStep_cacheStep
                split: step_mock_type.splits sum.splits)
        qed
      qed
    qed
  qed
qed

lemma sleep_cached:
  assumes "sleep lims inst ab now name d s = (r, s')" and "getCachedStep i m (ss_db s) = Some out"
    and "inst \<notin> set (sleepDisabledInstances (ss_mocks s))"
  shows "getCachedStep i m (ss_db s') = Some out"
proof -
  let ?key = "''sleep:'' @ name"
  obtain r2 s2 where c2: "checkDuplicateStepName ?key s = (r2, s2)" by force
  note db = checks_db(2)[OF c2]
  have mocks: "ss_mocks s2 = ss_mocks s"
    using c2 by (auto simp: checkDuplicateStepName_def split: if_splits)
  have "getCachedStep i m db' = Some out"
    if "cacheStep lims inst ?key v now (ss_db s) = Inr db'" "getCachedStep inst ?key (ss_db s) = None" for v db'
    using getCachedStep_cacheStep[OF that(1), of i m] that(2) assms(2) by auto
  then show ?thesis
    using assms db mocks unfolding sleep_def Let_def c2
    by (cases "getCachedStep inst ?key (ss_db s)")
      (auto split: sum.splits if_splits option.splits)
qed

lemma sleep_mocks: "sleep lims inst ab now name d s = (r, s') \<Longrightarrow> ss_mocks s' = ss_mocks s"
  by (auto simp: sleep_def checkDuplicateStepName_def Let_def split: sum.splits if_splits option.splits)

lemma do_step_sleeps:
  "do_step lims inst w name config s = (r, s') \<Longrightarrow>
   sleepDisabledInstances (ss_mocks s') = sleepDisabledInstances (ss_mocks s)"
  by (auto simp: do_step_def checkStepLimit_def checkDuplicateStepName_def Let_def
      split: sum.splits if_splits option.splits prod.splits step_mock_type.splits)

text \<open>The checkpoints a run leaves behind: it loses none and logs the ones it adds.\<close>

definition logged :: "string \<Rightarrow> wf_db \<Rightarrow> (string \<times> js_value) list \<Rightarrow> wf_db \<Rightarrow> bool" where
  "logged inst db log db' =
     (distinct (map fst log)
      \<and> (\<forall>(m, v) \<in> set log. getCachedStep inst m db = None \<and> getCachedStep inst m db' = Some (map_option stringify v))
      \<and> (\<forall>m out. getCachedStep inst m db = Some out \<longrightarrow> getCachedStep inst m db' = Some out))"

lemma logged_trans:
  assumes "logged inst db log db1" and "logged inst db1 log' db2"
  shows "logged inst db (log @ log') db2"
proof -
  have "fst x \<noteq> fst y" if "x \<in> set log" "y \<in> set log'" for x y
    using that assms unfolding logged_def by (fastforce simp: case_prod_unfold)
  moreover have "getCachedStep inst m db = None" if "getCachedStep inst m db1 = None" for m
    using that assms(1) unfolding logged_def by (cases "getCachedStep inst m db") auto
  ultimately show ?thesis using assms unfolding logged_def
    by (auto simp: case_prod_unfold)
qed

lemma run_prog_logged:
  assumes "run_prog lims inst w budget p s = (out, s', log)"
    and "inst \<notin> set (sleepDisabledInstances (ss_mocks s))"
  shows "logged inst (ss_db s) log (ss_db s')
    \<and> sleepDisabledInstances (ss_mocks s') = sleepDisabledInstances (ss_mocks s)"
  using assms
proof (induction lims inst w budget p s arbitrary: out s' log rule: run_prog.induct)
  case (4 lims inst w budget name config f s)
  obtain r s1 where d: "do_step lims inst (rw_step w name) name config s = (r, s1)" by force
  obtain out2 s2 log2 where p: "run_prog lims inst w budget (f r) s1 = (out2, s2, log2)" by (metis prod_cases3)
  have IH: "logged inst (ss_db s1) log2 (ss_db s2)
      \<and> sleepDisabledInstances (ss_mocks s2) = sleepDisabledInstances (ss_mocks s1)"
    using 4(1)[OF d[symmetric] refl p] do_step_sleeps[OF d] 4(3) by simp
  let ?l = "case r of Inr v \<Rightarrow> if getCachedStep inst name (ss_db s) = None then [(name, v)] else [] | Inl _ \<Rightarrow> []"
  have "logged inst (ss_db s) ?l (ss_db s1)"
    using do_step_cached[OF d] by (auto simp: logged_def is_ok_def split: sum.split)
  from logged_trans[OF this conjunct1[OF IH]] show ?case
    using 4(2) d p IH do_step_sleeps[OF d] by (auto split: sum.splits if_splits)
next
  case (5 lims inst w budget name d f s)
  obtain r s1 where sl: "sleep lims inst (fst (rw_sleep w name)) (snd (rw_sleep w name)) name d s = (r, s1)" by force
  then have "run_prog lims inst w budget (f r) s1 = (out, s', log)" using 5(2) by simp
  with 5(1)[OF sl[symmetric] refl this] 5(3) sleep_mocks[OF sl]
  have IH: "logged inst (ss_db s1) log (ss_db s')"
    "sleepDisabledInstances (ss_mocks s') = sleepDisabledInstances (ss_mocks s1)" by simp_all
  have "logged inst (ss_db s) [] (ss_db s1)"
    using sleep_cached[OF sl _ 5(3)] by (auto simp: logged_def)
  from logged_trans[OF this IH(1)] show ?case using IH(2) sleep_mocks[OF sl] by simp
qed (auto simp: logged_def)

text \<open>
  A call of a step that has a checkpoint, when the checks before it pass, returns the checkpoint
  and changes nothing: the callback does not run.
\<close>

definition passes_checks :: "wf_limits \<Rightarrow> step_world \<Rightarrow> string \<Rightarrow> step_state \<Rightarrow> bool" where
  "passes_checks lims w name s =
     (length name \<le> maxStepNameLength lims \<and> \<not> sw_abort w \<and> ss_stepCount s < maxStepsPerWorkflow lims \<and> name \<notin> set (ss_known s))"

lemma cached_step_returns:
  assumes "passes_checks lims w name s" and "getCachedStep inst name (ss_db s) = Some (map_option stringify v)"
    and "\<forall>j. v = Some j \<longrightarrow> json_wf j"
  shows "fst (do_step lims inst w name config s) = Inr (Some (nullish v JNull))
    \<and> ss_db (snd (do_step lims inst w name config s)) = ss_db s"
proof -
  have "parse_output (map_option stringify v) = Inr (nullish v JNull)"
    using assms(3) json_round_trip by (cases v) (simp_all add: parse_output_def nullish_def)
  with assms(1,2) show ?thesis
    by (simp add: do_step_def passes_checks_def checkStepLimit_def checkDuplicateStepName_def Let_def not_less Suc_le_eq)
qed

text \<open>
  C1. However often the process stops in the middle of a workflow and the workflow is executed
  again from its start, whatever the callbacks do in each execution and whatever the workflow's
  code makes of their results, each step completes at most once over all the executions; the
  checkpoint of every completed step stays; and a later call of the step, in any state in which the
  checkpoint is still stored, returns what the step completed with (\<open>null\<close> for
  \<open>undefined\<close>), runs no callback and changes nothing, provided the call passes the checks on the
  name, the number of steps and the abort signal.
\<close>

theorem steps_complete_once:
  assumes "inst \<notin> set (sleepDisabledInstances mocks)"
    and "run_all lims inst mocks p runs db = (db', log)"
  shows "distinct (map fst log)
    \<and> (\<forall>m v. (m, v) \<in> set log \<longrightarrow> getCachedStep inst m db = None
         \<and> getCachedStep inst m db' = Some (map_option stringify v))
    \<and> (\<forall>m out. getCachedStep inst m db = Some out \<longrightarrow> getCachedStep inst m db' = Some out)
    \<and> (\<forall>m v lims' w config s. (m, v) \<in> set log \<and> (\<forall>j. v = Some j \<longrightarrow> json_wf j) \<and> passes_checks lims' w m s
         \<and> getCachedStep inst m (ss_db s) = getCachedStep inst m db' \<longrightarrow>
         fst (do_step lims' inst w m config s) = Inr (Some (nullish v JNull))
         \<and> ss_db (snd (do_step lims' inst w m config s)) = ss_db s)"
proof -
  have "logged inst db log db'"
    using assms
  proof (induction lims inst mocks p runs db arbitrary: db' log rule: run_all.induct)
    case (2 lims inst mocks p w budget runs db)
    let ?s = "\<lparr>ss_db = db, ss_mocks = mocks, ss_stepCount = 0, ss_known = []\<rparr>"
    obtain out s l where r: "run_prog lims inst w budget p ?s = (out, s, l)" by (metis prod_cases3)
    obtain db2 l2 where rest: "run_all lims inst (ss_mocks s) p runs (ss_db s) = (db2, l2)" by force
    have L: "logged inst db l (ss_db s)" "sleepDisabledInstances (ss_mocks s) = sleepDisabledInstances mocks"
      using run_prog_logged[OF r] 2(2) by simp_all
    have "logged inst (ss_db s) l2 db2"
      using 2(1)[OF r[symmetric] refl refl _ rest] 2(2) L(2) by simp
    from logged_trans[OF L(1) this] show ?case using 2(3) r rest by simp
  qed (simp add: logged_def)
  then have log: "distinct (map fst log)
    \<and> (\<forall>m v. (m, v) \<in> set log \<longrightarrow> getCachedStep inst m db = None
         \<and> getCachedStep inst m db' = Some (map_option stringify v))
    \<and> (\<forall>m out. getCachedStep inst m db = Some out \<longrightarrow> getCachedStep inst m db' = Some out)"
    by (auto simp: logged_def)
  moreover have "fst (do_step lims' inst w m config s) = Inr (Some (nullish v JNull))
       \<and> ss_db (snd (do_step lims' inst w m config s)) = ss_db s"
    if "(m, v) \<in> set log" "\<forall>j. v = Some j \<longrightarrow> json_wf j" "passes_checks lims' w m s"
      "getCachedStep inst m (ss_db s) = getCachedStep inst m db'" for m v lims' w config s
    using cached_step_returns[OF that(3) _ that(2)] that(1,4) log by simp
  ultimately show ?thesis by blast
qed

definition no_mocks :: mock_registry where
  "no_mocks = \<lparr>stepMocks = Map.empty, sleepDisabledInstances = [], eventMocks = Map.empty, eventTimeoutMocks = []\<rparr>"

definition demo_prog :: wf_prog where
  "demo_prog = PDo ''s'' no_config (\<lambda>r. PSleep ''n'' (DurNumber 5) (\<lambda>_. PDo ''t'' no_config (\<lambda>r'. PReturn None)))"

definition demo_runs :: "(run_world \<times> nat) list" where
  "demo_runs = [(\<lparr>rw_step = (\<lambda>_. demo_world), rw_sleep = (\<lambda>_. (False, 10))\<rparr>, 2),
     (\<lparr>rw_step = (\<lambda>_. demo_world\<lparr>sw_attempt := (\<lambda>_. Returns None)\<rparr>), rw_sleep = (\<lambda>_. (False, 12))\<rparr>, 9)]"

theorem steps_complete_once_witness:
  "\<exists>db' log. run_all WORKFLOW_DEFAULTS ''i'' no_mocks demo_prog demo_runs empty_db = (db', log)
     \<and> distinct (map fst log)"
proof -
  obtain db' log where r: "run_all WORKFLOW_DEFAULTS ''i'' no_mocks demo_prog demo_runs empty_db = (db', log)"
    by force
  have "''i'' \<notin> set (sleepDisabledInstances no_mocks)" by (simp add: no_mocks_def)
  from steps_complete_once[OF this r] r show ?thesis by blast
qed

end
