(* ===== verification/Workflow.thy ===== *)
theory Workflow
  imports WorkflowSteps
begin

text \<open>
  The workflow binding and instance handles of \<^verbatim>\<open>src/bindings/workflow.ts\<close>: creation with the
  concurrency limit, the control operations (\<open>pause\<close>, \<open>resume\<close>, \<open>terminate\<close>, \<open>restart\<close>,
  \<open>skipSleep\<close>, \<open>sendEvent\<close>), resumption after a restart of the process, and \<open>executeWorkflow\<close>.

  An abort controller is a number (its identity); \<open>abortControllers\<close> maps an instance to the one
  registered for it and \<open>aborted\<close> holds those that were raised. A call of \<open>executeWorkflow\<close> is an
  entry of \<open>executions\<close> from its start until its \<open>finally\<close> block; \<open>finish\<close> is the code from the
  settlement of \<open>run\<close> on. The user's code runs between the two.
\<close>

section \<open>State\<close>

record wf_state =
  st_db :: wf_db
  abortControllers :: "string \<rightharpoonup> nat"
  aborted :: "nat list"
  nextController :: nat
  executions :: "(nat \<times> string) list"
  eventWaiters :: "string \<rightharpoonup> (string \<times> nat) list" \<comment> \<open>event types with the execution that waits\<close>
  sleepResolvers :: "string \<rightharpoonup> nat"
  idCounter :: nat

record wf_binding =
  b_workflowName :: string
  b_limits :: wf_limits
  b_wired :: bool

datatype wf_op_error =
    ClassNotWired
  | InstanceIdTooLong nat nat
  | InstanceExists string
  | InstanceNotFound string
  | BatchTooLarge nat nat
  | BadEventType string
  | CannotSendEvent string wf_status
  | StepNotFound string
  | BadParams

definition find_instance :: "string \<Rightarrow> wf_state \<Rightarrow> wf_instance option" where
  "find_instance inst st = sql_get (\<lambda>r. wi_id r = inst) (workflow_instances (st_db st))"

definition update_instances :: "(wf_instance \<Rightarrow> bool) \<Rightarrow> (wf_instance \<Rightarrow> wf_instance) \<Rightarrow> wf_state \<Rightarrow> wf_state" where
  "update_instances P f st =
     st\<lparr>st_db := (st_db st)\<lparr>workflow_instances := sql_update P f (workflow_instances (st_db st))\<rparr>\<rparr>"

text \<open>
  The handlers of the signal remove the waiter and the sleep resolver its execution registered.
\<close>

definition abort :: "nat option \<Rightarrow> wf_state \<Rightarrow> wf_state" where
  "abort c st =
     (case c of
        None \<Rightarrow> st
      | Some n \<Rightarrow>
          st\<lparr>aborted := n # aborted st,
             eventWaiters := (\<lambda>i. map_option (filter (\<lambda>(ty, c'). c' \<noteq> n)) (eventWaiters st i)),
             sleepResolvers := (\<lambda>i. if sleepResolvers st i = Some n then None else sleepResolvers st i)\<rparr>)"

definition register_controller :: "string \<Rightarrow> wf_state \<Rightarrow> nat \<times> wf_state" where
  "register_controller inst st =
     (nextController st,
      st\<lparr>abortControllers := (abortControllers st)(inst \<mapsto> nextController st),
         nextController := nextController st + 1\<rparr>)"

definition executeWorkflow :: "nat \<Rightarrow> string \<Rightarrow> wf_state \<Rightarrow> wf_state" where
  "executeWorkflow controller inst st = st\<lparr>executions := executions st @ [(controller, inst)]\<rparr>"

definition launch :: "string \<Rightarrow> wf_state \<Rightarrow> wf_state" where
  "launch inst st = (let (c, st') = register_controller inst st in executeWorkflow c inst st')"

section \<open>The binding\<close>

definition is_active :: "wf_status \<Rightarrow> bool" where
  "is_active s = (s = Running \<or> s = Waiting)"

definition countRunning :: "wf_binding \<Rightarrow> wf_state \<Rightarrow> nat" where
  "countRunning b st =
     length (sql_select (\<lambda>r. wi_workflow r = b_workflowName b \<and> is_active (wi_status r))
               (workflow_instances (st_db st)))"

definition abortRunning :: "wf_binding \<Rightarrow> wf_state \<Rightarrow> wf_state" where
  "abortRunning b st =
     foldl (\<lambda>st r. abort (abortControllers st (wi_id r)) st) st
       (sql_select (\<lambda>r. wi_workflow r = b_workflowName b \<and> wi_status r \<in> {Running, Queued, Waiting})
          (workflow_instances (st_db st)))"

definition retention_expired :: "wf_binding \<Rightarrow> int \<Rightarrow> wf_instance \<Rightarrow> bool" where
  "retention_expired b now r =
     (wi_workflow r = b_workflowName b \<and> wi_status r \<in> {Complete, Errored}
      \<and> wi_updated_at r < now - maxRetentionMs (b_limits b))"

definition cleanupRetentionExpired :: "wf_binding \<Rightarrow> int \<Rightarrow> wf_state \<Rightarrow> wf_state" where
  "cleanupRetentionExpired b now st =
     (if maxRetentionMs (b_limits b) \<le> 0 then st
      else (let db = st_db st;
                expiredIds = map wi_id (sql_select (retention_expired b now) (workflow_instances db))
            in st\<lparr>st_db := db\<lparr>workflow_step_attempts :=
                      sql_delete (\<lambda>a. wa_instance a \<in> set expiredIds) (workflow_step_attempts db),
                    workflow_instances := sql_delete (retention_expired b now) (workflow_instances db)\<rparr>\<rparr>))"

definition fresh_id :: "string option \<Rightarrow> int \<Rightarrow> wf_state \<Rightarrow> string \<times> wf_state" where
  "fresh_id oid now st =
     (case oid of
        Some i \<Rightarrow> (i, st)
      | None \<Rightarrow> (''wf-'' @ show_nat (idCounter st + 1) @ ''-'' @ show_int now,
                 st\<lparr>idCounter := idCounter st + 1\<rparr>))"

definition insert_instance :: "wf_binding \<Rightarrow> string \<Rightarrow> js_value \<Rightarrow> wf_status \<Rightarrow> int \<Rightarrow> wf_state \<Rightarrow> wf_state" where
  "insert_instance b inst params status now st =
     st\<lparr>st_db := (st_db st)\<lparr>workflow_instances := sql_insert
          \<lparr>wi_id = inst, wi_workflow = b_workflowName b,
           wi_params = Some (stringify (nullish params (JObj []))), wi_status = status,
           wi_output = None, wi_error = None, wi_created_at = now, wi_updated_at = now\<rparr>
          (workflow_instances (st_db st))\<rparr>\<rparr>"

definition at_capacity :: "wf_binding \<Rightarrow> wf_state \<Rightarrow> bool" where
  "at_capacity b st =
     (case maxConcurrentInstances (b_limits b) of None \<Rightarrow> False | Some m \<Rightarrow> m \<le> countRunning b st)"

definition create ::
    "wf_binding \<Rightarrow> string option \<Rightarrow> js_value \<Rightarrow> int \<Rightarrow> wf_state \<Rightarrow> (wf_op_error, string) res \<times> wf_state" where
  "create b oid params now st =
     (if \<not> b_wired b then (Inl ClassNotWired, st)
      else (let st1 = cleanupRetentionExpired b now st; (inst, st2) = fresh_id oid now st1
            in if maxInstanceIdLength (b_limits b) < length inst
               then (Inl (InstanceIdTooLong (maxInstanceIdLength (b_limits b)) (length inst)), st2)
               else if find_instance inst st2 \<noteq> None then (Inl (InstanceExists inst), st2)
               else (let isQueued = at_capacity b st2;
                         st3 = insert_instance b inst params (if isQueued then Queued else Running) now st2;
                         (c, st4) = register_controller inst st3
                     in (Inr inst, if isQueued then st4 else executeWorkflow c inst st4))))"

definition createPrepared ::
    "wf_binding \<Rightarrow> string option \<Rightarrow> js_value \<Rightarrow> int \<Rightarrow> wf_state \<Rightarrow> (wf_op_error, string) res \<times> wf_state" where
  "createPrepared b oid params now st =
     (if \<not> b_wired b then (Inl ClassNotWired, st)
      else (let st1 = cleanupRetentionExpired b now st; (inst, st2) = fresh_id oid now st1
            in if maxInstanceIdLength (b_limits b) < length inst
               then (Inl (InstanceIdTooLong (maxInstanceIdLength (b_limits b)) (length inst)), st2)
               else if find_instance inst st2 \<noteq> None then (Inl (InstanceExists inst), st2)
               else (Inr inst, snd (register_controller inst (insert_instance b inst params Queued now st2)))))"

definition set_instance_status :: "string \<Rightarrow> wf_status \<Rightarrow> int \<Rightarrow> wf_state \<Rightarrow> wf_state" where
  "set_instance_status inst status now st = st\<lparr>st_db := set_status inst status now (st_db st)\<rparr>"

definition executeInstance ::
    "wf_binding \<Rightarrow> string \<Rightarrow> int \<Rightarrow> wf_state \<Rightarrow> (wf_op_error, unit) res \<times> wf_state" where
  "executeInstance b inst now st =
     (if \<not> b_wired b then (Inl ClassNotWired, st)
      else (case find_instance inst st of
              None \<Rightarrow> (Inl (InstanceNotFound inst), st)
            | Some row \<Rightarrow>
                (case parse_payload (wi_params row) of
                   Inl _ \<Rightarrow> (Inl BadParams, st)
                 | Inr _ \<Rightarrow>
                     (let st1 = set_instance_status inst Running now st
                      in case abortControllers st1 inst of
                           Some c \<Rightarrow> (Inr (), executeWorkflow c inst st1)
                         | None \<Rightarrow> (Inr (), launch inst st1)))))"

fun create_items ::
    "wf_binding \<Rightarrow> (string option \<times> js_value) list \<Rightarrow> int \<Rightarrow> wf_state
     \<Rightarrow> (wf_op_error, string list) res \<times> wf_state" where
  "create_items b [] now st = (Inr [], st)"
| "create_items b ((oid, params) # items) now st =
     (case create b oid params now st of
        (Inl e, st1) \<Rightarrow> (Inl e, st1)
      | (Inr inst, st1) \<Rightarrow>
          (case create_items b items now st1 of
             (Inl e, st2) \<Rightarrow> (Inl e, st2)
           | (Inr ids, st2) \<Rightarrow> (Inr (inst # ids), st2)))"

definition createBatch ::
    "wf_binding \<Rightarrow> (string option \<times> js_value) list \<Rightarrow> int \<Rightarrow> wf_state
     \<Rightarrow> (wf_op_error, string list) res \<times> wf_state" where
  "createBatch b items now st =
     (if maxBatchSize (b_limits b) < length items
      then (Inl (BatchTooLarge (length items) (maxBatchSize (b_limits b))), st)
      else create_items b items now st)"

definition get :: "string \<Rightarrow> wf_state \<Rightarrow> (wf_op_error, string) res" where
  "get inst st = (case find_instance inst st of None \<Rightarrow> Inl (InstanceNotFound inst) | Some _ \<Rightarrow> Inr inst)"

definition resume_row :: "int \<Rightarrow> wf_state \<Rightarrow> wf_instance \<Rightarrow> wf_state" where
  "resume_row now st r =
     (let (c, st1) = register_controller (wi_id r) st
      in executeWorkflow c (wi_id r) (set_instance_status (wi_id r) Running now st1))"

definition resumeInterrupted :: "wf_binding \<Rightarrow> int \<Rightarrow> wf_state \<Rightarrow> wf_state" where
  "resumeInterrupted b now st =
     (if \<not> b_wired b then st
      else foldl (resume_row now) st
             (sql_select (\<lambda>r. wi_workflow r = b_workflowName b \<and> is_active (wi_status r))
                (workflow_instances (st_db st))))"

section \<open>Executions\<close>

definition oldest_queued :: "string \<Rightarrow> wf_state \<Rightarrow> wf_instance option" where
  "oldest_queued name st =
     (case sql_select_ordered (\<lambda>r. wi_workflow r = name \<and> wi_status r = Queued) wi_created_at 1
             (workflow_instances (st_db st)) of
        [] \<Rightarrow> None | r # _ \<Rightarrow> Some r)"

text \<open>The end of the \<open>finally\<close> block: the oldest queued instance of the workflow is started.\<close>

definition start_next :: "string \<Rightarrow> int \<Rightarrow> wf_state \<Rightarrow> wf_state" where
  "start_next name now st =
     (case oldest_queued name st of
        None \<Rightarrow> st
      | Some r \<Rightarrow> launch (wi_id r) (set_instance_status (wi_id r) Running now st))"

datatype run_result = RunReturned js_value | RunThrew wf_error

definition settle_run :: "nat \<Rightarrow> string \<Rightarrow> run_result \<Rightarrow> int \<Rightarrow> wf_state \<Rightarrow> wf_state" where
  "settle_run c inst res now st =
     (case res of
        RunReturned v \<Rightarrow>
          if c \<in> set (aborted st) then st
          else (let st1 = update_instances (\<lambda>r. wi_id r = inst)
                      (\<lambda>r. r\<lparr>wi_status := Complete, wi_output := map_option stringify v, wi_updated_at := now\<rparr>) st
                in st1\<lparr>st_db := (st_db st1)\<lparr>workflow_step_attempts :=
                         sql_delete (\<lambda>a. wa_instance a = inst) (workflow_step_attempts (st_db st1))\<rparr>\<rparr>)
      | RunThrew e \<Rightarrow>
          if c \<in> set (aborted st)
          then update_instances (\<lambda>r. wi_id r = inst) (\<lambda>r. r\<lparr>wi_error := Some e, wi_updated_at := now\<rparr>) st
          else update_instances (\<lambda>r. wi_id r = inst)
                 (\<lambda>r. r\<lparr>wi_status := Errored, wi_error := Some e, wi_updated_at := now\<rparr>) st)"

definition finish :: "string \<Rightarrow> nat \<times> string \<Rightarrow> run_result \<Rightarrow> int \<Rightarrow> wf_state \<Rightarrow> wf_state" where
  "finish name x res now st =
     (let (c, inst) = x;
          st1 = settle_run c inst res now (st\<lparr>executions := remove1 x (executions st)\<rparr>);
          st2 = st1\<lparr>eventWaiters := (eventWaiters st1)(inst := None),
                    abortControllers := (abortControllers st1)(inst := None)\<rparr>
      in start_next name now st2)"

section \<open>Instance handles\<close>

definition status :: "string \<Rightarrow> wf_state \<Rightarrow> (wf_op_error, wf_status \<times> js_value \<times> wf_error option) res" where
  "status inst st =
     (case find_instance inst st of
        None \<Rightarrow> Inl (InstanceNotFound inst)
      | Some r \<Rightarrow> (case parse_payload (wi_output r) of
                    Inl _ \<Rightarrow> Inl BadParams
                  | Inr v \<Rightarrow> Inr (wi_status r, v, wi_error r)))"

definition pause :: "string \<Rightarrow> int \<Rightarrow> wf_state \<Rightarrow> wf_state" where
  "pause inst now st =
     update_instances (\<lambda>r. wi_id r = inst \<and> is_active (wi_status r))
       (\<lambda>r. r\<lparr>wi_status := Paused, wi_updated_at := now\<rparr>) st"

definition has_waiters :: "string \<Rightarrow> wf_state \<Rightarrow> bool" where
  "has_waiters inst st = (case eventWaiters st inst of None \<Rightarrow> False | Some ws \<Rightarrow> ws \<noteq> [])"

definition resume :: "string \<Rightarrow> int \<Rightarrow> wf_state \<Rightarrow> wf_state" where
  "resume inst now st =
     update_instances (\<lambda>r. wi_id r = inst \<and> wi_status r = Paused)
       (\<lambda>r. r\<lparr>wi_status := (if has_waiters inst st then Waiting else Running), wi_updated_at := now\<rparr>) st"

definition terminate :: "string \<Rightarrow> int \<Rightarrow> wf_state \<Rightarrow> wf_state" where
  "terminate inst now st =
     (let st1 = update_instances (\<lambda>r. wi_id r = inst \<and> wi_status r \<in> {Running, Paused, Waiting, Queued})
                  (\<lambda>r. r\<lparr>wi_status := Terminated, wi_updated_at := now\<rparr>) st
      in abort (abortControllers st1 inst) st1)"

definition restart ::
    "wf_binding \<Rightarrow> string \<Rightarrow> string option \<Rightarrow> int \<Rightarrow> wf_state \<Rightarrow> (wf_op_error, unit) res \<times> wf_state" where
  "restart b inst fromStep now st =
     (if \<not> b_wired b then (Inl ClassNotWired, st)
      else (case find_instance inst st of
              None \<Rightarrow> (Inl (InstanceNotFound inst), st)
            | Some row \<Rightarrow>
                (let st1 = abort (abortControllers st inst) st;
                     (c, st2) = register_controller inst st1;
                     db = st_db st2;
                     go = (\<lambda>steps.
                       let db1 = db\<lparr>workflow_steps := steps,
                                    workflow_step_attempts := sql_delete (\<lambda>a. wa_instance a = inst) (workflow_step_attempts db),
                                    workflow_instances := sql_update (\<lambda>r. wi_id r = inst)
                                      (\<lambda>r. r\<lparr>wi_status := Running, wi_output := None, wi_error := None, wi_updated_at := now\<rparr>)
                                      (workflow_instances db)\<rparr>;
                           st3 = st2\<lparr>st_db := db1\<rparr>
                       in case parse_payload (wi_params row) of
                            Inl _ \<Rightarrow> (Inl BadParams, st3)
                          | Inr _ \<Rightarrow> (Inr (), executeWorkflow c inst st3))
                 in (case fromStep of
                       Some step \<Rightarrow>
                         if step = '''' then go (sql_delete (\<lambda>s. ws_instance s = inst) (workflow_steps db))
                         else (case sql_get (is_step inst step) (workflow_steps db) of
                            None \<Rightarrow> (Inl (StepNotFound step), st2)
                          | Some s0 \<Rightarrow>
                              go (sql_delete (\<lambda>s. ws_instance s = inst \<and> ws_completed_at s0 \<le> ws_completed_at s)
                                    (workflow_steps db)))
                     | None \<Rightarrow> go (sql_delete (\<lambda>s. ws_instance s = inst) (workflow_steps db))))))"

definition skipSleep :: "string \<Rightarrow> wf_state \<Rightarrow> wf_state" where
  "skipSleep inst st = st\<lparr>sleepResolvers := (sleepResolvers st)(inst := None)\<rparr>"

datatype sent = DeliveredTo nat | Stored

definition deliver :: "string \<Rightarrow> string \<Rightarrow> js_value \<Rightarrow> int \<Rightarrow> wf_state \<Rightarrow> sent \<times> wf_state" where
  "deliver inst ty payload now st =
     (case (case eventWaiters st inst of None \<Rightarrow> None | Some ws \<Rightarrow> map_of ws ty) of
        Some c \<Rightarrow> (DeliveredTo c,
          st\<lparr>eventWaiters := (eventWaiters st)(inst := map_option (filter (\<lambda>(ty', _). ty' \<noteq> ty)) (eventWaiters st inst))\<rparr>)
      | None \<Rightarrow> (Stored,
          st\<lparr>st_db := (st_db st)\<lparr>workflow_events := sql_insert
               \<lparr>we_instance = inst, we_type = ty, we_payload = map_option stringify payload, we_created_at = now\<rparr>
               (workflow_events (st_db st))\<rparr>\<rparr>))"

definition sendEvent ::
    "string \<Rightarrow> string \<Rightarrow> js_value \<Rightarrow> int \<Rightarrow> wf_state \<Rightarrow> (wf_op_error, sent) res \<times> wf_state" where
  "sendEvent inst ty payload now st =
     (if \<not> valid_event_type ty then (Inl (BadEventType ty), st)
      else (let go = (case deliver inst ty payload now st of (d, st') \<Rightarrow> (Inr d, st'))
            in case find_instance inst st of
                 None \<Rightarrow> go
               | Some r \<Rightarrow>
                   if wi_status r \<in> {Complete, Errored, Terminated}
                   then (Inl (CannotSendEvent inst (wi_status r)), st)
                   else go))"

text \<open>What \<open>waitForEvent\<close> and a sleep register while their execution \<open>c\<close> awaits.\<close>

definition register_waiter :: "nat \<Rightarrow> string \<Rightarrow> string \<Rightarrow> wf_state \<Rightarrow> wf_state" where
  "register_waiter c inst ty st =
     st\<lparr>eventWaiters := (eventWaiters st)(inst \<mapsto> obj_set (nullish (eventWaiters st inst) []) ty c)\<rparr>"

definition register_sleep :: "nat \<Rightarrow> string \<Rightarrow> wf_state \<Rightarrow> wf_state" where
  "register_sleep c inst st = st\<lparr>sleepResolvers := (sleepResolvers st)(inst \<mapsto> c)\<rparr>"

definition getWaitingEventTypes :: "string \<Rightarrow> wf_state \<Rightarrow> string list" where
  "getWaitingEventTypes inst st =
     (case eventWaiters st inst of None \<Rightarrow> [] | Some ws \<Rightarrow> map fst ws)"

definition isInstanceSleeping :: "string \<Rightarrow> wf_state \<Rightarrow> bool" where
  "isInstanceSleeping inst st = (sleepResolvers st inst \<noteq> None)"

section \<open>Control operations of the dashboard\<close>

datatype wf_control_op =
    OpCreate "string option" js_value
  | OpResumeInterrupted
  | OpTerminate string
  | OpPause string
  | OpResume string
  | OpRestart string "string option"
  | OpSkipSleep string
  | OpSendEvent string string js_value
  | OpIsSleeping string
  | OpWaitingEventTypes string
  | OpStatus string

datatype wf_control_result =
    ResOk
  | ResCreate string
  | ResStatus "wf_status \<times> js_value \<times> wf_error option"
  | ResIsSleeping bool
  | ResWaitingEventTypes "string list"

text \<open>\<open>await (await this.get(id)).op()\<close>\<close>

definition on_instance ::
    "string \<Rightarrow> (wf_state \<Rightarrow> (wf_op_error, wf_control_result) res \<times> wf_state) \<Rightarrow> wf_state
     \<Rightarrow> (wf_op_error, wf_control_result) res \<times> wf_state" where
  "on_instance inst f st = (case get inst st of Inl e \<Rightarrow> (Inl e, st) | Inr _ \<Rightarrow> f st)"

definition with_result :: "('a \<Rightarrow> wf_control_result) \<Rightarrow> (wf_op_error, 'a) res \<times> wf_state
     \<Rightarrow> (wf_op_error, wf_control_result) res \<times> wf_state" where
  "with_result g r = (bind_res (fst r) (\<lambda>v. Inr (g v)), snd r)"

text \<open>\<open>router\<close> is the thread router, when one is installed.\<close>

fun control_local :: "wf_binding \<Rightarrow> int \<Rightarrow> wf_control_op \<Rightarrow> wf_state
     \<Rightarrow> (wf_op_error, wf_control_result) res \<times> wf_state" where
  "control_local b now (OpCreate oid params) st = with_result ResCreate (create b oid params now st)"
| "control_local b now OpResumeInterrupted st = (Inr ResOk, resumeInterrupted b now st)"
| "control_local b now (OpTerminate i) st = on_instance i (\<lambda>st. (Inr ResOk, terminate i now st)) st"
| "control_local b now (OpPause i) st = on_instance i (\<lambda>st. (Inr ResOk, pause i now st)) st"
| "control_local b now (OpResume i) st = on_instance i (\<lambda>st. (Inr ResOk, resume i now st)) st"
| "control_local b now (OpRestart i fromStep) st =
     on_instance i (\<lambda>st. with_result (\<lambda>_. ResOk) (restart b i fromStep now st)) st"
| "control_local b now (OpSkipSleep i) st = on_instance i (\<lambda>st. (Inr ResOk, skipSleep i st)) st"
| "control_local b now (OpSendEvent i ty payload) st =
     on_instance i (\<lambda>st. with_result (\<lambda>_. ResOk) (sendEvent i ty payload now st)) st"
| "control_local b now (OpIsSleeping i) st = (Inr (ResIsSleeping (isInstanceSleeping i st)), st)"
| "control_local b now (OpWaitingEventTypes i) st =
     (Inr (ResWaitingEventTypes (getWaitingEventTypes i st)), st)"
| "control_local b now (OpStatus i) st =
     on_instance i (\<lambda>st. (bind_res (status i st) (\<lambda>v. Inr (ResStatus v)), st)) st"

definition executeControl ::
    "(wf_control_op \<Rightarrow> wf_state \<Rightarrow> (wf_op_error, wf_control_result) res \<times> wf_state) option
     \<Rightarrow> wf_binding \<Rightarrow> int \<Rightarrow> wf_control_op \<Rightarrow> wf_state
     \<Rightarrow> (wf_op_error, wf_control_result) res \<times> wf_state" where
  "executeControl router b now op st =
     (case router of Some r \<Rightarrow> r op st | None \<Rightarrow> control_local b now op st)"

end
