(* ===== verification/WorkflowLaws.thy ===== *)
theory WorkflowLaws
  imports Workflow WorkflowStepLaws
begin

text \<open>
  Laws of the workflow binding: creations and completions keep the number of active instances
  within the limit and start queued instances oldest first, stored events of a type are a
  first-in-first-out queue per instance, and a terminated instance stays terminated. The last
  section shows, on concrete sequences of operations, where the guarantees end.
\<close>

section \<open>The concurrency limit\<close>

definition active_of :: "wf_binding \<Rightarrow> wf_instance \<Rightarrow> bool" where
  "active_of b r = (wi_workflow r = b_workflowName b \<and> is_active (wi_status r))"

lemma countRunning_filter: "countRunning b st = length (filter (active_of b) (workflow_instances (st_db st)))"
  by (simp add: countRunning_def sql_defs active_of_def[abs_def])

lemma count_update:
  assumes "keyed_by wi_id t" and "r \<in> set t"
  shows "length (filter P (sql_update (\<lambda>x. wi_id x = wi_id r) f t)) + (if P r then 1 else 0)
    = length (filter P t) + (if P (f r) then 1 else 0)"
  using assms
proof (induction t)
  case (Cons x t)
  have same: "sql_update (\<lambda>x. wi_id x = wi_id r) f t = t" if "wi_id r \<notin> wi_id ` set t"
    using that by (induction t) (auto simp: sql_defs)
  show ?case
  proof (cases "x = r")
    case True
    with Cons.prems same show ?thesis by (simp add: sql_defs)
  next
    case False
    with Cons.prems have "r \<in> set t" "wi_id x \<noteq> wi_id r" by auto
    with Cons show ?thesis by (simp add: sql_defs)
  qed
qed simp

lemma count_no_update:
  "r \<notin> wi_id ` set t \<Longrightarrow> sql_update (\<lambda>x. wi_id x = r) f t = t"
  by (induction t) (auto simp: sql_defs)

datatype capacity_event =
    EvCreate "string option" js_value int
  | EvFinish "nat \<times> string" run_result int
  | EvSend string string js_value int

fun capacity_step :: "wf_binding \<Rightarrow> wf_state \<Rightarrow> capacity_event \<Rightarrow> wf_state" where
  "capacity_step b st (EvCreate oid params now) = snd (create b oid params now st)"
| "capacity_step b st (EvFinish x res now) =
     (if x \<in> set (executions st) then finish (b_workflowName b) x res now st else st)"
| "capacity_step b st (EvSend inst ty payload now) = snd (sendEvent inst ty payload now st)"

definition runs_active :: "wf_binding \<Rightarrow> (nat \<times> string) list \<Rightarrow> wf_instance list \<Rightarrow> bool" where
  "runs_active b xs t = (\<forall>x \<in> set xs. \<exists>r \<in> set t. wi_id r = snd x \<and> active_of b r)"

definition capacity_inv :: "wf_binding \<Rightarrow> wf_state \<Rightarrow> bool" where
  "capacity_inv b st =
     (keyed_by wi_id (workflow_instances (st_db st))
      \<and> distinct (map snd (executions st))
      \<and> runs_active b (executions st) (workflow_instances (st_db st))
      \<and> (\<forall>x \<in> set (executions st). fst x \<notin> set (aborted st))
      \<and> (\<forall>a \<in> set (aborted st). a < nextController st)
      \<and> (case maxConcurrentInstances (b_limits b) of None \<Rightarrow> True | Some m \<Rightarrow> countRunning b st \<le> m))"

lemma capacity_inv_cong:
  assumes "capacity_inv b st"
    and "workflow_instances (st_db st') = workflow_instances (st_db st)"
    and "executions st' = executions st" "aborted st' = aborted st" "nextController st \<le> nextController st'"
  shows "capacity_inv b st'"
  using assms unfolding capacity_inv_def countRunning_def by (auto intro: order.strict_trans2 split: option.splits)

lemma capacity_inv_cleanup:
  assumes "capacity_inv b st"
  shows "capacity_inv b (cleanupRetentionExpired b now st)"
proof -
  let ?t = "workflow_instances (st_db st)"
  have act: "active_of b r \<Longrightarrow> \<not> retention_expired b now r" for r
    by (auto simp: active_of_def retention_expired_def is_active_def)
  have "filter (active_of b) (sql_delete (retention_expired b now) ?t) = filter (active_of b) ?t"
    using act by (auto simp: sql_defs intro!: filter_cong)
  moreover have "runs_active b (executions st) (sql_delete (retention_expired b now) ?t)"
    using assms act by (fastforce simp: capacity_inv_def runs_active_def)
  moreover have "keyed_by wi_id (sql_delete (retention_expired b now) ?t)"
    using assms by (simp add: capacity_inv_def sql_defs keyed_by_filter)
  ultimately show ?thesis
    using assms by (auto simp: capacity_inv_def cleanupRetentionExpired_def countRunning_filter Let_def
        split: option.splits)
qed

lemma find_instance_None: "find_instance i st = None \<longleftrightarrow> i \<notin> wi_id ` set (workflow_instances (st_db st))"
  by (auto simp: find_instance_def sql_get_None_iff)

lemma capacity_inv_insert:
  assumes inv: "capacity_inv b st" and new: "find_instance i st = None"
    and status: "s = (if at_capacity b st then Queued else Running)"
  shows "capacity_inv b
    (let (c, st') = register_controller i (insert_instance b i params s now st)
     in if at_capacity b st then st' else executeWorkflow c i st')"
proof -
  let ?t = "workflow_instances (st_db st)"
  have "keyed_by wi_id ?t" "i \<notin> wi_id ` set ?t"
    using inv new by (auto simp: capacity_inv_def find_instance_None)
  moreover have "i \<notin> snd ` set (executions st)"
    using inv calculation(2) by (force simp: capacity_inv_def runs_active_def)
  moreover have "nextController st \<notin> set (aborted st)" using inv by (auto simp: capacity_inv_def)
  ultimately show ?thesis
    using inv status
    by (auto simp: capacity_inv_def runs_active_def register_controller_def insert_instance_def Let_def
        executeWorkflow_def countRunning_filter active_of_def is_active_def sql_defs at_capacity_def
        less_Suc_eq split: option.splits)
qed

lemma capacity_inv_create:
  assumes "capacity_inv b st"
  shows "capacity_inv b (snd (create b oid params now st))"
proof (cases "b_wired b")
  case True
  let ?st1 = "cleanupRetentionExpired b now st"
  obtain i st2 where f: "fresh_id oid now ?st1 = (i, st2)" by force
  have inv2: "capacity_inv b st2"
    by (rule capacity_inv_cong[OF capacity_inv_cleanup[OF assms]])
      (use f in \<open>auto simp: fresh_id_def split: option.splits\<close>)
  have "capacity_inv b
      (let (c, st') = register_controller i
             (insert_instance b i params (if at_capacity b st2 then Queued else Running) now st2)
       in if at_capacity b st2 then st' else executeWorkflow c i st')" if "find_instance i st2 = None"
    by (rule capacity_inv_insert[OF inv2 that refl])
  then show ?thesis using True f inv2
    by (cases "at_capacity b st2") (simp_all add: create_def Let_def case_prod_unfold)
qed (simp add: create_def assms)

lemma oldest_queuedD:
  "oldest_queued name st = Some r \<Longrightarrow>
   r \<in> set (workflow_instances (st_db st)) \<and> wi_workflow r = name \<and> wi_status r = Queued"
proof -
  assume "oldest_queued name st = Some r"
  then have "r \<in> set (sql_select_ordered (\<lambda>r. wi_workflow r = name \<and> wi_status r = Queued) wi_created_at 1
             (workflow_instances (st_db st)))"
    by (auto simp: oldest_queued_def split: list.splits)
  then show ?thesis by (auto dest: sql_select_orderedD)
qed

text \<open>Starting a queued instance when one place is free.\<close>

lemma capacity_inv_start_next:
  assumes inv: "capacity_inv b st"
    and room: "case maxConcurrentInstances (b_limits b) of None \<Rightarrow> True | Some m \<Rightarrow> countRunning b st < m"
  shows "capacity_inv b (start_next (b_workflowName b) now st)"
proof (cases "oldest_queued (b_workflowName b) st")
  case None
  with inv show ?thesis by (simp add: start_next_def)
next
  case (Some r)
  note r = oldest_queuedD[OF Some]
  let ?t = "workflow_instances (st_db st)"
  let ?f = "\<lambda>r. r\<lparr>wi_status := Running, wi_updated_at := now\<rparr>"
  let ?t' = "sql_update (\<lambda>x. wi_id x = wi_id r) ?f ?t"
  have keyed: "keyed_by wi_id ?t" using inv by (simp add: capacity_inv_def)
  have "length (filter (active_of b) ?t') = Suc (length (filter (active_of b) ?t))"
    using count_update[OF keyed, of r "active_of b" ?f] r by (simp add: active_of_def is_active_def)
  moreover have "keyed_by wi_id ?t'" using keyed by (subst sql_update_keyed) auto
  moreover have "wi_id r \<notin> snd ` set (executions st)"
  proof
    assume "wi_id r \<in> snd ` set (executions st)"
    with inv obtain r' where "r' \<in> set ?t" "wi_id r' = wi_id r" "active_of b r'"
      by (auto simp: capacity_inv_def runs_active_def)
    with keyed_by_unique[OF keyed, of r' r] r show False by (auto simp: active_of_def is_active_def)
  qed
  moreover have "runs_active b (executions st @ [(nextController st, wi_id r)]) ?t'"
    unfolding runs_active_def
  proof
    fix x assume "x \<in> set (executions st @ [(nextController st, wi_id r)])"
    then consider "x \<in> set (executions st)" | "x = (nextController st, wi_id r)" by auto
    then show "\<exists>r' \<in> set ?t'. wi_id r' = snd x \<and> active_of b r'"
    proof cases
      case 1
      with inv obtain r' where r': "r' \<in> set ?t" "wi_id r' = snd x" "active_of b r'"
        by (auto simp: capacity_inv_def runs_active_def)
      with 1 calculation(3) have "wi_id r' \<noteq> wi_id r" by (metis imageI)
      with r' show ?thesis by force
    next
      case 2
      have "?f r \<in> set ?t'" using r by force
      then show ?thesis using 2 r
        by (intro bexI[of _ "?f r"]) (simp_all add: active_of_def is_active_def)
    qed
  qed
  moreover have "nextController st \<notin> set (aborted st)" using inv by (auto simp: capacity_inv_def)
  ultimately show ?thesis
    using inv room Some
    by (auto simp: capacity_inv_def start_next_def launch_def register_controller_def executeWorkflow_def
        set_instance_status_def set_status_def countRunning_filter less_Suc_eq split: option.splits)
qed

text \<open>The end of a run that was not aborted frees its place.\<close>

lemma settle_run_frees:
  fixes res now
  assumes inv: "capacity_inv b st" and x: "(c, i) \<in> set (executions st)"
  defines "st' \<equiv> settle_run c i res now (st\<lparr>executions := remove1 (c, i) (executions st)\<rparr>)"
  shows "capacity_inv b st' \<and> Suc (countRunning b st') = countRunning b st"
proof -
  let ?t = "workflow_instances (st_db st)"
  have keyed: "keyed_by wi_id ?t" using inv by (simp add: capacity_inv_def)
  have fresh: "c \<notin> set (aborted st)" using inv x by (auto simp: capacity_inv_def)
  from inv x obtain r where r: "r \<in> set ?t" "wi_id r = i" "active_of b r"
    by (force simp: capacity_inv_def runs_active_def)
  obtain f where f: "workflow_instances (st_db st') = sql_update (\<lambda>x. wi_id x = i) f ?t"
    "\<And>y. wi_id (f y) = wi_id y" "\<And>y. \<not> active_of b (f y)"
  proof (cases res)
    case (RunReturned v)
    then show ?thesis using fresh that[of "\<lambda>r. r\<lparr>wi_status := Complete, wi_output := map_option stringify v, wi_updated_at := now\<rparr>"]
      by (simp add: st'_def settle_run_def update_instances_def Let_def active_of_def is_active_def)
  next
    case (RunThrew e)
    then show ?thesis using fresh that[of "\<lambda>r. r\<lparr>wi_status := Errored, wi_error := Some e, wi_updated_at := now\<rparr>"]
      by (simp add: st'_def settle_run_def update_instances_def Let_def active_of_def is_active_def)
  qed
  have frame: "executions st' = remove1 (c, i) (executions st)" "aborted st' = aborted st"
    "nextController st' = nextController st"
    by (auto simp: st'_def settle_run_def update_instances_def Let_def split: run_result.splits)
  have count: "Suc (countRunning b st') = countRunning b st"
    using count_update[OF keyed r(1), of "active_of b" f] r f by (simp add: countRunning_filter f(1))
  have others: "snd x \<noteq> i" if "x \<in> set (remove1 (c, i) (executions st))" for x
  proof -
    have d: "distinct (map snd (executions st))" using inv by (simp add: capacity_inv_def)
    then have "x \<noteq> (c, i)" "x \<in> set (executions st)"
      using that by (auto simp: distinct_map)
    with d x show ?thesis by (auto simp: distinct_map inj_on_def)
  qed
  have "runs_active b (executions st') (workflow_instances (st_db st'))"
    unfolding runs_active_def frame f(1)
  proof
    fix x assume x: "x \<in> set (remove1 (c, i) (executions st))"
    then have "x \<in> set (executions st)" by (meson notin_set_remove1)
    with inv obtain r' where r': "r' \<in> set ?t" "wi_id r' = snd x" "active_of b r'"
      by (auto simp: capacity_inv_def runs_active_def)
    with others[OF x] show "\<exists>r' \<in> set (sql_update (\<lambda>x. wi_id x = i) f ?t). wi_id r' = snd x \<and> active_of b r'"
      by force
  qed
  moreover have "keyed_by wi_id (workflow_instances (st_db st'))"
    unfolding f(1) using keyed f(2) by (simp add: sql_update_keyed)
  moreover have "distinct (map snd (executions st'))"
    using inv by (auto simp: frame capacity_inv_def distinct_map intro: inj_on_subset set_remove1_subset)
  ultimately have "capacity_inv b st'"
    using inv count set_remove1_subset[of "(c, i)" "executions st"]
    by (auto simp: capacity_inv_def frame split: option.splits)
  with count show ?thesis by simp
qed

lemma capacity_inv_finish:
  assumes "capacity_inv b st" and "x \<in> set (executions st)"
  shows "capacity_inv b (finish (b_workflowName b) x res now st)"
proof -
  obtain c i where x: "x = (c, i)" by force
  let ?st1 = "settle_run c i res now (st\<lparr>executions := remove1 (c, i) (executions st)\<rparr>)"
  let ?st2 = "?st1\<lparr>eventWaiters := (eventWaiters ?st1)(i := None), abortControllers := (abortControllers ?st1)(i := None)\<rparr>"
  have s: "capacity_inv b ?st1" "Suc (countRunning b ?st1) = countRunning b st"
    using settle_run_frees[of b st c i res now] assms x by auto
  have "capacity_inv b ?st2" by (rule capacity_inv_cong[OF s(1)]) auto
  moreover have "countRunning b ?st2 = countRunning b ?st1" by (simp add: countRunning_def)
  ultimately have "capacity_inv b (start_next (b_workflowName b) now ?st2)"
    using s(2) assms(1)
    by (intro capacity_inv_start_next) (auto simp: capacity_inv_def split: option.splits)
  then show ?thesis unfolding finish_def x Let_def by simp
qed

lemma capacity_inv_send: "capacity_inv b st \<Longrightarrow> capacity_inv b (snd (sendEvent i ty p now st))"
  by (rule capacity_inv_cong[of b st])
    (auto simp: sendEvent_def deliver_def Let_def split: option.splits if_splits)

interpretation capacity: machine "capacity_step b" "capacity_inv b"
proof
  fix st e assume "capacity_inv b st"
  then show "capacity_inv b (capacity_step b st e)"
    by (cases e) (auto intro: capacity_inv_create capacity_inv_finish capacity_inv_send)
qed

text \<open>
  C9. Starting from a state within the limit, no sequence of creations, completions (successful
  or failed) and sent events ever makes more instances of the workflow running or waiting than
  \<open>maxConcurrentInstances\<close> allows, and no instance is ever executed twice at a time.
\<close>

theorem concurrency_limit_kept:
  assumes "capacity_inv b st" and "maxConcurrentInstances (b_limits b) = Some m"
  shows "countRunning b (foldl (capacity_step b) st es) \<le> m
    \<and> distinct (map snd (executions (foldl (capacity_step b) st es)))"
  using capacity.inv_run[OF assms(1), of es] assms(2) by (simp add: capacity_inv_def)

definition demo_limits :: wf_limits where
  "demo_limits = \<lparr>maxConcurrentInstances = Some 1, maxRetentionMs = 0, maxStepsPerWorkflow = 9,
     maxStepOutputBytes = 50, maxInstanceIdLength = 9, maxStepNameLength = 9, maxSleepMs = 1000,
     maxWaitForEventTimeoutMs = 1000, minWaitForEventTimeoutMs = 1, defaultWaitForEventTimeoutMs = 100,
     maxStepDoTimeoutMs = 1000, maxBatchSize = 9, defaultRetryLimit = 5, defaultRetryDelayMs = 10,
     defaultRetryBackoff = Exponential, defaultStepTimeoutMs = 600\<rparr>"

definition demo_binding :: wf_binding where
  "demo_binding = \<lparr>b_workflowName = ''w'', b_limits = demo_limits, b_wired = True\<rparr>"

definition start_state :: wf_state where
  "start_state = \<lparr>st_db = empty_db, abortControllers = Map.empty, aborted = [], nextController = 0,
     executions = [], eventWaiters = Map.empty, sleepResolvers = Map.empty, idCounter = 0\<rparr>"

lemma capacity_inv_start: "capacity_inv b start_state"
  by (auto simp: capacity_inv_def start_state_def empty_db_def runs_active_def countRunning_def sql_defs
      split: option.split)

theorem concurrency_limit_kept_witness:
  "countRunning demo_binding (foldl (capacity_step demo_binding) start_state
     [EvCreate (Some ''a'') None 1, EvCreate (Some ''b'') None 2, EvFinish (0, ''a'') (RunReturned None) 3]) \<le> 1"
proof -
  have "maxConcurrentInstances (b_limits demo_binding) = Some 1" by (simp add: demo_binding_def demo_limits_def)
  from concurrency_limit_kept[OF capacity_inv_start this] show ?thesis by blast
qed

section \<open>Events\<close>

definition mailbox :: "string \<Rightarrow> string \<Rightarrow> wf_db \<Rightarrow> (string option \<times> int) list" where
  "mailbox inst ty db =
     map (\<lambda>e. (we_payload e, we_created_at e)) (filter (pending_event inst ty) (workflow_events db))"

lemma filter_delete_first:
  "filter P (delete_first P xs) = tl (filter P xs)"
  "(\<And>x. \<not> (P x \<and> Q x)) \<Longrightarrow> filter Q (delete_first P xs) = filter Q xs"
  by (induction xs) auto

lemma find_filter_hd: "find P xs = (case filter P xs of [] \<Rightarrow> None | x # _ \<Rightarrow> Some x)"
  by (induction xs) auto

lemma mailbox_frame [simp]:
  "mailbox i t (set_status inst s now db) = mailbox i t db"
  by (simp add: mailbox_def set_status_def)

lemma mailbox_cacheStep: "cacheStep lims inst key v now db = Inr db' \<Longrightarrow> mailbox i t db' = mailbox i t db"
  by (auto simp: cacheStep_def mailbox_def Let_def split: if_splits)

lemma pending_disjoint: "(i, t) \<noteq> (i', t') \<Longrightarrow> \<not> (pending_event i t e \<and> pending_event i' t' e)"
  by (auto simp: pending_event_def)

lemma mailbox_delete_first:
  "mailbox i t (db\<lparr>workflow_events := delete_first (pending_event inst ty) (workflow_events db)\<rparr>) =
   (if (i, t) = (inst, ty) then tl (mailbox i t db) else mailbox i t db)"
proof (cases "(i, t) = (inst, ty)")
  case False
  then have "filter (pending_event i t) (delete_first (pending_event inst ty) (workflow_events db)) =
      filter (pending_event i t) (workflow_events db)"
    by (intro filter_delete_first(2)) (auto simp: pending_event_def)
  with False show ?thesis unfolding mailbox_def by auto
qed (simp add: mailbox_def filter_delete_first(1) map_tl)

text \<open>
  C19. The stored events of an instance and type are a first-in-first-out queue. An event that
  is accepted and not handed to a waiter goes to the end of its queue; a wait without checkpoint
  that finds the queue non-empty takes exactly its first event and returns no other, and a wait
  that finds it empty returns no event; the queues of other types and instances do not change.
\<close>

theorem events_first_in_first_out:
  "(sendEvent inst ty payload now st = (Inr Stored, st') \<longrightarrow>
      mailbox i t (st_db st') = mailbox i t (st_db st)
        @ (if (i, t) = (inst, ty) then [(map_option stringify payload, now)] else []))
   \<and> (getCachedStep inst key (ss_db s) = None \<longrightarrow> wait_inner lims inst now key ty timeout s = (res, s') \<longrightarrow>
      mailbox i t (ss_db s') = (if (i, t) = (inst, ty) then tl (mailbox i t (ss_db s)) else mailbox i t (ss_db s))
      \<and> (\<forall>e. res = WaitReturned (Inr e) \<longrightarrow> mailbox inst ty (ss_db s) \<noteq> []
            \<and> parse_payload (fst (hd (mailbox inst ty (ss_db s)))) = Inr (ev_payload e)
            \<and> ev_timestamp e = snd (hd (mailbox inst ty (ss_db s))) \<and> ev_type e = ty))"
proof (intro conjI impI)
  assume "sendEvent inst ty payload now st = (Inr Stored, st')"
  then have "st' = st\<lparr>st_db := (st_db st)\<lparr>workflow_events := sql_insert
               \<lparr>we_instance = inst, we_type = ty, we_payload = map_option stringify payload, we_created_at = now\<rparr>
               (workflow_events (st_db st))\<rparr>\<rparr>"
    by (auto simp: sendEvent_def deliver_def Let_def split: option.splits if_splits)
  then show "mailbox i t (st_db st') = mailbox i t (st_db st)
        @ (if (i, t) = (inst, ty) then [(map_option stringify payload, now)] else [])"
    by (auto simp: mailbox_def sql_defs pending_event_def)
next
  assume none: "getCachedStep inst key (ss_db s) = None"
    and w: "wait_inner lims inst now key ty timeout s = (res, s')"
  let ?db1 = "set_status inst Waiting now (ss_db s)"
  let ?evs = "filter (pending_event inst ty) (workflow_events (ss_db s))"
  have evs: "workflow_events ?db1 = workflow_events (ss_db s)" by (simp add: set_status_def)
  have box: "mailbox inst ty (ss_db s) = map (\<lambda>e. (we_payload e, we_created_at e)) ?evs"
    by (simp add: mailbox_def)
  have both: "mailbox i t (ss_db s') = (if (i, t) = (inst, ty) then tl (mailbox i t (ss_db s)) else mailbox i t (ss_db s))
    \<and> (\<forall>e. res = WaitReturned (Inr e) \<longrightarrow> mailbox inst ty (ss_db s) \<noteq> []
            \<and> parse_payload (fst (hd (mailbox inst ty (ss_db s)))) = Inr (ev_payload e)
            \<and> ev_timestamp e = snd (hd (mailbox inst ty (ss_db s))) \<and> ev_type e = ty)"
  proof (cases ?evs)
    case Nil
    then have "sql_get (pending_event inst ty) (workflow_events ?db1) = None"
      by (simp add: evs sql_defs find_filter_hd)
    moreover have "mailbox inst ty (ss_db s) = []" using Nil box by simp
    ultimately show ?thesis using w none
      by (auto simp: wait_inner_def Let_def split: sum.splits if_splits)
  next
    case (Cons e es)
    then have get: "sql_get (pending_event inst ty) (workflow_events ?db1) = Some e"
      by (simp add: evs sql_defs find_filter_hd)
    let ?db2 = "set_status inst Running now
         (?db1\<lparr>workflow_events := delete_first (pending_event inst ty) (workflow_events ?db1)\<rparr>)"
    have db2: "mailbox i t ?db2 = (if (i, t) = (inst, ty) then tl (mailbox i t (ss_db s)) else mailbox i t (ss_db s))"
      by (simp add: mailbox_delete_first)
    have hd: "mailbox inst ty (ss_db s) \<noteq> []" "hd (mailbox inst ty (ss_db s)) = (we_payload e, we_created_at e)"
      using Cons box by simp_all
    from w none get have "(mailbox i t (ss_db s') = mailbox i t ?db2) \<and>
      (\<forall>x. res = WaitReturned (Inr x) \<longrightarrow> parse_payload (we_payload e) = Inr (ev_payload x)
         \<and> ev_timestamp x = we_created_at e \<and> ev_type x = ty)"
      unfolding wait_inner_def Let_def
      by (auto split: sum.splits simp: mailbox_cacheStep simp del: mailbox_frame)
    with db2 hd show ?thesis by simp
  qed
  show "mailbox i t (ss_db s') = (if (i, t) = (inst, ty) then tl (mailbox i t (ss_db s)) else mailbox i t (ss_db s))"
    using both by blast
  show "\<forall>e. res = WaitReturned (Inr e) \<longrightarrow> mailbox inst ty (ss_db s) \<noteq> []
            \<and> parse_payload (fst (hd (mailbox inst ty (ss_db s)))) = Inr (ev_payload e)
            \<and> ev_timestamp e = snd (hd (mailbox inst ty (ss_db s))) \<and> ev_type e = ty"
    using both by blast
qed

theorem events_first_in_first_out_witness:
  "\<exists>st'. sendEvent ''i'' ''go'' (Some (JNum 1)) 5 start_state = (Inr Stored, st')
     \<and> mailbox ''i'' ''go'' (st_db st') = [(Some (stringify (JNum 1)), 5)]"
proof -
  have v: "valid_event_type ''go''" by code_simp
  obtain st' where s: "sendEvent ''i'' ''go'' (Some (JNum 1)) 5 start_state = (Inr Stored, st')"
    by (simp add: sendEvent_def v find_instance_def start_state_def empty_db_def sql_defs deliver_def)
  have "mailbox ''i'' ''go'' (st_db start_state) = []"
    by (simp add: mailbox_def start_state_def empty_db_def)
  with events_first_in_first_out[THEN conjunct1, rule_format, OF s, of "''i''" "''go''"] s
  show ?thesis by auto
qed

section \<open>Termination\<close>

text \<open>
  Terminating an instance whose execution is registered sets the status \<open>terminated\<close> and raises
  the abort signal, and when the execution's promise settles next, the status stays as it is:
  the execution at most records its error. An execution that is not aborted at once can still
  write the status in between; see \<open>late_event_revives\<close> below.
\<close>

lemma terminate_then_settle:
  assumes "abortControllers st inst = Some c"
    and "find_instance inst st = Some r" "wi_status r \<in> {Running, Waiting, Paused, Queued}"
  shows "c \<in> set (aborted (terminate inst now st))
    \<and> map_option wi_status (find_instance inst (terminate inst now st)) = Some Terminated
    \<and> map_option wi_status (find_instance inst (settle_run c inst res now' (terminate inst now st))) = Some Terminated"
proof -
  have find_upd: "sql_get (\<lambda>r. wi_id r = inst) (sql_update P f t) =
      map_option (\<lambda>r. if P r then f r else r) (sql_get (\<lambda>r. wi_id r = inst) t)"
    if "\<And>r. wi_id (f r) = wi_id r" for P f t
    using that by (induction t) (auto simp: sql_defs)
  let ?st1 = "terminate inst now st"
  have "wi_id r = inst" using assms(2) by (auto simp: find_instance_def dest: sql_get_SomeD)
  then have f: "find_instance inst ?st1 = Some (r\<lparr>wi_status := Terminated, wi_updated_at := now\<rparr>)"
    using assms by (auto simp: terminate_def Let_def abort_def find_instance_def update_instances_def find_upd)
  moreover have c: "c \<in> set (aborted ?st1)"
    using assms(1) by (simp add: terminate_def Let_def abort_def update_instances_def)
  moreover have "map_option wi_status (find_instance inst (settle_run c inst res now' ?st1)) = Some Terminated"
  proof (cases res)
    case (RunReturned v)
    with c f show ?thesis by (simp add: settle_run_def)
  next
    case (RunThrew e)
    with c f show ?thesis
      by (simp add: settle_run_def update_instances_def find_instance_def find_upd \<open>wi_id r = inst\<close>)
  qed
  ultimately show ?thesis by simp
qed

section \<open>Where the guarantees end\<close>

text \<open>
  With a limit of one: \<open>a\<close> runs, \<open>b\<close> is queued; \<open>a\<close> is terminated while its callback still runs,
  which frees its place for \<open>c\<close>; when the callback of \<open>a\<close> ends, the \<open>finally\<close> block starts \<open>b\<close>
  without counting, and two instances run.
\<close>

definition over_limit :: wf_state where
  "over_limit =
     (let s1 = snd (create demo_binding (Some ''a'') None 1 start_state);
          s2 = snd (create demo_binding (Some ''b'') None 2 s1);
          s3 = terminate ''a'' 3 s2;
          s4 = snd (create demo_binding (Some ''c'') None 4 s3)
      in finish ''w'' (0, ''a'') (RunThrew WorkflowTerminated) 5 s4)"

lemma limit_exceeded_after_terminate: "countRunning demo_binding over_limit = 2"
  by code_simp

text \<open>
  \<open>a\<close> is restarted while it runs; when the old execution ends, its \<open>finally\<close> block removes the
  controller of the new one, and terminating \<open>a\<close> then aborts nothing: the new execution goes on
  and overwrites the status \<open>terminated\<close> when it ends.
\<close>

definition restarted :: wf_state where
  "restarted =
     (let s1 = snd (create demo_binding (Some ''a'') None 1 start_state);
          s2 = snd (restart demo_binding ''a'' None 2 s1);
          s3 = finish ''w'' (0, ''a'') (RunThrew WorkflowTerminated) 3 s2
      in terminate ''a'' 4 s3)"

lemma terminate_after_restart_ineffective:
  "(1, ''a'') \<in> set (executions restarted)"
  "1 \<notin> set (aborted restarted)"
  "map wi_status (workflow_instances (st_db restarted)) = [Terminated]"
  "map wi_status (workflow_instances (st_db (finish ''w'' (1, ''a'') (RunReturned None) 5 restarted))) = [Complete]"
  by code_simp+

text \<open>
  An event arrives for the waiting \<open>a\<close>, and \<open>a\<close> is terminated before the waiting step resumes: the
  event has removed the listener of the abort signal, the step resumes and sets the status back
  to \<open>running\<close>. The next step throws because of the signal, only the error is recorded, and the
  instance counts as running for ever although nothing executes it.
\<close>

definition revived :: wf_state where
  "revived =
     (let s1 = terminate ''a'' 2 (snd (create demo_binding (Some ''a'') None 1 start_state));
          (res, db) = wait_end demo_limits ''a'' ''e'' ''go'' (EventArrived None 2) 3 (st_db s1)
      in finish ''w'' (0, ''a'') (RunThrew WorkflowTerminated) 4 (s1\<lparr>st_db := db\<rparr>))"

lemma late_event_revives:
  "map wi_status (workflow_instances (st_db revived)) = [Running]"
  "executions revived = []"
  "countRunning demo_binding revived = 1"
  by code_simp+

text \<open>
  The retention cleanup deletes an instance but not its checkpoints: a new instance with the same
  identifier returns the old one's results instead of running its steps.
\<close>

lemma retention_keeps_checkpoints:
  "getCachedStep i name (st_db (cleanupRetentionExpired b now st)) = getCachedStep i name (st_db st)"
  by (simp add: cleanupRetentionExpired_def getCachedStep_def Let_def)

end
