(* ===== verification/Cron.thy ===== *)
theory Cron
  imports Dates
begin

text \<open>
  Cron triggers, \<^verbatim>\<open>src/bindings/scheduled.ts\<close>: parsing of an expression to the five field
  matchers, the calendar rules (\<open>L\<close>, \<open>LW\<close>, \<open>15W\<close>, \<open>FRI#2\<close>, \<open>FRIL\<close>), and the timer that fires
  each cron at most once per minute.

  A matcher is, as in the code, a function of the field's value and the date; a date is given by
  its fields in local time. \<open>NaN\<close>, the result of \<open>parseInt\<close> on a token that is no number, is
  \<open>None\<close>. A loop that never ends is \<open>None\<close> too, at the type \<open>'a option\<close> of what it computes.
\<close>

type_synonym matcher = "int \<Rightarrow> date_fields \<Rightarrow> bool"

datatype field_type = FMinute | FHour | FDayOfMonth | FMonth | FDayOfWeek

record parsed_cron =
  pc_expression :: string
  pc_minute :: matcher
  pc_hour :: matcher
  pc_dayOfMonth :: matcher
  pc_month :: matcher
  pc_dayOfWeek :: matcher

definition DAY_NAMES :: "(string \<times> int) list" where
  "DAY_NAMES = [(''SUN'', 0), (''MON'', 1), (''TUE'', 2), (''WED'', 3), (''THU'', 4), (''FRI'', 5), (''SAT'', 6)]"

definition MONTH_NAMES :: "(string \<times> int) list" where
  "MONTH_NAMES = [(''JAN'', 1), (''FEB'', 2), (''MAR'', 3), (''APR'', 4), (''MAY'', 5), (''JUN'', 6),
     (''JUL'', 7), (''AUG'', 8), (''SEP'', 9), (''OCT'', 10), (''NOV'', 11), (''DEC'', 12)]"

definition SPECIAL_CRONS :: "(string \<times> string) list" where
  "SPECIAL_CRONS = [(''@daily'', ''0 0 * * *''), (''@midnight'', ''0 0 * * *''), (''@hourly'', ''0 * * * *''),
     (''@weekly'', ''0 0 * * 0''), (''@monthly'', ''0 0 1 * *''), (''@yearly'', ''0 0 1 1 *''),
     (''@annually'', ''0 0 1 1 *'')]"

definition resolveToken :: "string \<Rightarrow> (string \<times> int) list option \<Rightarrow> int option" where
  "resolveToken token names =
     (case names of
        None \<Rightarrow> parse_int token
      | Some ns \<Rightarrow> (case map_of ns (to_upper token) of Some v \<Rightarrow> Some v | None \<Rightarrow> parse_int token))"

section \<open>Calendar rules\<close>

text \<open>Months are counted from 1 in this part of the code.\<close>

definition lastDayOfMonth :: "int \<Rightarrow> nat \<Rightarrow> int" where
  "lastDayOfMonth year month = month_lengths year ! (month - 1)"

definition dayOfWeekFor :: "int \<Rightarrow> nat \<Rightarrow> int \<Rightarrow> int" where
  "dayOfWeekFor year month day = weekday (days_of_civil year (month - 1) day)"

definition nearestWeekday :: "int \<Rightarrow> nat \<Rightarrow> int \<Rightarrow> int" where
  "nearestWeekday year month day0 =
     (let lastDay = lastDayOfMonth year month;
          day = min day0 lastDay;
          dow = dayOfWeekFor year month day
      in if 1 \<le> dow \<and> dow \<le> 5 then day
         else if dow = 6 then (if 1 < day then day - 1 else day + 2)
         else (if day < lastDay then day + 1 else day - 2))"

text \<open>The loops over the days of a month, from \<open>d\<close> upwards and from \<open>d\<close> downwards.\<close>

fun nth_loop :: "int \<Rightarrow> nat \<Rightarrow> int option \<Rightarrow> int \<Rightarrow> int \<Rightarrow> nat \<Rightarrow> int \<Rightarrow> int option" where
  "nth_loop year month w n d 0 cnt = None"
| "nth_loop year month w n d (Suc left) cnt =
     (if Some (dayOfWeekFor year month d) = w
      then (if cnt + 1 = n then Some d else nth_loop year month w n (d + 1) left (cnt + 1))
      else nth_loop year month w n (d + 1) left cnt)"

definition nthWeekdayOfMonth :: "int \<Rightarrow> nat \<Rightarrow> int option \<Rightarrow> int \<Rightarrow> int option" where
  "nthWeekdayOfMonth year month w n = nth_loop year month w n 1 (nat (lastDayOfMonth year month)) 0"

fun last_loop :: "int \<Rightarrow> nat \<Rightarrow> int option \<Rightarrow> nat \<Rightarrow> int option" where
  "last_loop year month w 0 = None"
| "last_loop year month w (Suc d) =
     (if Some (dayOfWeekFor year month (int (Suc d))) = w then Some (int (Suc d)) else last_loop year month w d)"

definition lastWeekdayOfMonth :: "int \<Rightarrow> nat \<Rightarrow> int option \<Rightarrow> int" where
  "lastWeekdayOfMonth year month w =
     (let lastDay = lastDayOfMonth year month
      in case last_loop year month w (nat lastDay) of Some d \<Rightarrow> d | None \<Rightarrow> lastDay)"

definition match_lw :: matcher where
  "match_lw value date =
     (let month = df_month date + 1;
          last = lastDayOfMonth (df_year date) month;
          dow = dayOfWeekFor (df_year date) month last;
          lw = (if dow = 0 then last - 2 else if dow = 6 then last - 1 else last)
      in df_day date = lw)"

definition match_l :: matcher where
  "match_l value date = (df_day date = lastDayOfMonth (df_year date) (df_month date + 1))"

definition match_w :: "int \<Rightarrow> matcher" where
  "match_w targetDay value date =
     (df_day date = nearestWeekday (df_year date) (df_month date + 1) targetDay)"

definition match_nth :: "int option \<Rightarrow> int \<Rightarrow> matcher" where
  "match_nth w n value date =
     (nthWeekdayOfMonth (df_year date) (df_month date + 1) w n = Some (df_day date))"

definition match_last :: "int option \<Rightarrow> matcher" where
  "match_last w value date = (df_day date = lastWeekdayOfMonth (df_year date) (df_month date + 1) w)"

section \<open>Fields\<close>

text \<open>\<open>for (let i = start; i \<le> end; i += step) values.push(i)\<close>\<close>

partial_function (option) step_loop :: "int \<Rightarrow> int \<Rightarrow> int \<Rightarrow> int list \<Rightarrow> int list option" where
  "step_loop i stop step values =
     (if i \<le> stop then step_loop (i + step) stop step (values @ [i]) else Some values)"

text \<open>The loop with bounds that may be \<open>NaN\<close>, when it does not run at all.\<close>

definition range_values :: "int option \<Rightarrow> int option \<Rightarrow> int \<Rightarrow> int list option" where
  "range_values start stop step =
     (case (start, stop) of (Some a, Some b) \<Rightarrow> step_loop a b step [] | _ \<Rightarrow> Some [])"

definition all_alnum :: "string \<Rightarrow> bool" where "all_alnum s = (s \<noteq> [] \<and> list_all is_alnum s)"
definition all_digits :: "string \<Rightarrow> bool" where "all_digits s = (s \<noteq> [] \<and> list_all is_digit s)"

text \<open>\<open>/^([a-zA-Z0-9]+)-([a-zA-Z0-9]+)$/\<close>, and with another separator.\<close>

definition split_pair :: "char \<Rightarrow> string \<Rightarrow> (string \<times> string) option" where
  "split_pair c s =
     (case split_char c s of [a, b] \<Rightarrow> if all_alnum a \<and> all_alnum b then Some (a, b) else None | _ \<Rightarrow> None)"

definition match_w_part :: "string \<Rightarrow> string option" where
  "match_w_part p =
     (if p \<noteq> [] \<and> last p \<in> {CHR ''W'', CHR ''w''} \<and> all_digits (butlast p) then Some (butlast p) else None)"

definition match_hash_part :: "string \<Rightarrow> (string \<times> string) option" where
  "match_hash_part p =
     (case split_pair CHR ''#'' p of Some (a, n) \<Rightarrow> if all_digits n then Some (a, n) else None | None \<Rightarrow> None)"

definition match_last_part :: "string \<Rightarrow> string option" where
  "match_last_part p =
     (if p \<noteq> [] \<and> last p \<in> {CHR ''L'', CHR ''l''} \<and> all_alnum (butlast p) then Some (butlast p) else None)"

text \<open>\<open>/^(\*|([a-zA-Z0-9]+)-([a-zA-Z0-9]+))\/(\d+)$/\<close>: the bounds, \<open>None\<close> for the star, and the step.\<close>

definition match_step_part :: "string \<Rightarrow> ((string \<times> string) option \<times> string) option" where
  "match_step_part p =
     (case split_char CHR ''/'' p of
        [r, n] \<Rightarrow>
          if \<not> all_digits n then None
          else if r = ''*'' then Some (None, n)
          else (case split_pair CHR ''-'' r of None \<Rightarrow> None | Some ab \<Rightarrow> Some (Some ab, n))
      | _ \<Rightarrow> None)"

definition int_of_digits :: "string \<Rightarrow> int" where "int_of_digits s = int (digits_val s)"

definition parse_part ::
    "int \<Rightarrow> int \<Rightarrow> field_type \<Rightarrow> (string \<times> int) list option \<Rightarrow> string \<Rightarrow> matcher option" where
  "parse_part mn mx ft names part =
     (if ft = FDayOfMonth \<and> to_upper part = ''LW'' then Some match_lw
      else if ft = FDayOfMonth \<and> to_upper part = ''L'' then Some match_l
      else (case (if ft = FDayOfMonth then match_w_part part else None) of
              Some ds \<Rightarrow> Some (match_w (int_of_digits ds))
            | None \<Rightarrow>
      (case (if ft = FDayOfWeek then match_hash_part part else None) of
         Some (a, n) \<Rightarrow> Some (match_nth (resolveToken a names) (int_of_digits n))
       | None \<Rightarrow>
      (case (if ft = FDayOfWeek then match_last_part part else None) of
         Some a \<Rightarrow> Some (match_last (resolveToken a names))
       | None \<Rightarrow>
      (case match_step_part part of
         Some (bounds, n) \<Rightarrow>
           (let (start, stop) =
                  (case bounds of
                     None \<Rightarrow> (Some mn, Some mx)
                   | Some (a, b) \<Rightarrow> (resolveToken a names, resolveToken b names))
            in map_option (\<lambda>values value date. value \<in> set values)
                 (range_values start stop (int_of_digits n)))
       | None \<Rightarrow>
      (case split_pair CHR ''-'' part of
         Some (a, b) \<Rightarrow>
           map_option (\<lambda>values value date. value \<in> set values)
             (range_values (resolveToken a names) (resolveToken b names) 1)
       | None \<Rightarrow> Some (\<lambda>value date. Some value = resolveToken part names)))))))"

fun parse_parts ::
    "int \<Rightarrow> int \<Rightarrow> field_type \<Rightarrow> (string \<times> int) list option \<Rightarrow> string list \<Rightarrow> matcher list option" where
  "parse_parts mn mx ft names [] = Some []"
| "parse_parts mn mx ft names (p # ps) =
     (case parse_part mn mx ft names p of
        None \<Rightarrow> None
      | Some m \<Rightarrow> map_option ((#) m) (parse_parts mn mx ft names ps))"

definition parseField ::
    "string \<Rightarrow> int \<Rightarrow> int \<Rightarrow> field_type \<Rightarrow> (string \<times> int) list option \<Rightarrow> matcher option" where
  "parseField field mn mx ft names =
     (if field = ''*'' then Some (\<lambda>_ _. True)
      else map_option (\<lambda>ms value date. list_ex (\<lambda>m. m value date) ms)
             (parse_parts mn mx ft names (split_char CHR '','' field)))"

section \<open>Expressions\<close>

definition parse_fields :: "string \<Rightarrow> string list \<Rightarrow> parsed_cron option" where
  "parse_fields expr parts =
     (case (parseField (parts ! 0) 0 59 FMinute None, parseField (parts ! 1) 0 23 FHour None,
            parseField (parts ! 2) 1 31 FDayOfMonth None, parseField (parts ! 3) 1 12 FMonth (Some MONTH_NAMES),
            parseField (parts ! 4) 0 6 FDayOfWeek (Some DAY_NAMES)) of
        (Some mi, Some h, Some dm, Some mo, Some dow) \<Rightarrow>
          Some \<lparr>pc_expression = expr, pc_minute = mi, pc_hour = h, pc_dayOfMonth = dm, pc_month = mo,
                pc_dayOfWeek = dow\<rparr>
      | _ \<Rightarrow> None)"

text \<open>
  The outer option is termination, \<open>Inl\<close> the error of a wrong number of fields. The recursive
  call on a special expression parses five plain fields.
\<close>

definition parse_plain :: "string \<Rightarrow> string \<Rightarrow> (string, parsed_cron) res option" where
  "parse_plain expression shown =
     (let parts = split_ws (trim expression)
      in if length parts \<noteq> 5 then Some (Inl expression)
         else map_option Inr (parse_fields shown parts))"

definition parseCron :: "string \<Rightarrow> (string, parsed_cron) res option" where
  "parseCron expression =
     (let trimmed = trim expression
      in case map_of SPECIAL_CRONS (to_lower trimmed) of
           Some special \<Rightarrow> parse_plain special trimmed
         | None \<Rightarrow> parse_plain expression trimmed)"

definition cronMatchesDate :: "parsed_cron \<Rightarrow> date_fields \<Rightarrow> bool" where
  "cronMatchesDate cron date =
     (pc_minute cron (df_minute date) date \<and> pc_hour cron (df_hour date) date
      \<and> pc_dayOfMonth cron (df_day date) date \<and> pc_month cron (int (df_month date) + 1) date
      \<and> pc_dayOfWeek cron (df_weekday date) date)"

section \<open>The timer\<close>

text \<open>
  One tick of the interval at the time \<open>now\<close> in milliseconds, for the local time zone given by
  \<open>tz\<close>: the map of the minutes last fired and the list of what was fired, in order.
\<close>

definition fire_cron ::
    "(int \<Rightarrow> date_fields) \<Rightarrow> int \<Rightarrow> (string \<rightharpoonup> int) \<times> (string \<times> int) list \<Rightarrow> parsed_cron
     \<Rightarrow> (string \<rightharpoonup> int) \<times> (string \<times> int) list" where
  "fire_cron tz now st cron =
     (let (lastFiredMinute, fired) = st; minuteKey = now div 60000
      in if \<not> cronMatchesDate cron (tz now) then st
         else if lastFiredMinute (pc_expression cron) = Some minuteKey then st
         else (lastFiredMinute(pc_expression cron \<mapsto> minuteKey), fired @ [(pc_expression cron, now)]))"

definition cron_tick ::
    "(int \<Rightarrow> date_fields) \<Rightarrow> parsed_cron list \<Rightarrow> (string \<rightharpoonup> int) \<times> (string \<times> int) list \<Rightarrow> int
     \<Rightarrow> (string \<rightharpoonup> int) \<times> (string \<times> int) list" where
  "cron_tick tz crons st now = foldl (fire_cron tz now) st crons"

end
