(* ===== verification/CronLaws.thy ===== *)
theory CronLaws
  imports Cron
begin

text \<open>
  Laws of the cron triggers: what a step or a range matches (and that a step of zero never
  ends), what the calendar rules select, and that the timer fires each expression exactly once
  in every minute in which some tick matches.
\<close>

section \<open>Steps and ranges\<close>

lemma step_loop_values:
  assumes "0 < s"
  shows "step_loop i b s vs = Some (vs @ map (\<lambda>k. i + int k * s) [0..<nat ((b - i) div s + 1)])"
proof (induction "nat (b + 1 - i)" arbitrary: i vs rule: less_induct)
  case less
  show ?case
  proof (cases "i \<le> b")
    case True
    have "step_loop i b s vs = step_loop (i + s) b s (vs @ [i])"
      by (subst step_loop.simps) (simp add: True)
    also have "\<dots> = Some ((vs @ [i]) @ map (\<lambda>k. i + s + int k * s) [0..<nat ((b - (i + s)) div s + 1)])"
      using True assms by (intro less) simp
    also have "(b - (i + s)) div s + 1 = (b - i) div s"
    proof -
      have "b - (i + s) = (b - i) + (-1) * s" by simp
      then have "(b - (i + s)) div s = (b - i) div s - 1"
        using assms by (metis add.commute add_uminus_conv_diff div_mult_self1 less_irrefl mult.commute)
      then show ?thesis by simp
    qed
    finally have "step_loop i b s vs =
        Some (vs @ ([i] @ map (\<lambda>k. i + s + int k * s) [0..<nat ((b - i) div s)]))" by simp
    also have "[i] @ map (\<lambda>k. i + s + int k * s) [0..<nat ((b - i) div s)] =
        map (\<lambda>k. i + int k * s) [0..<Suc (nat ((b - i) div s))]"
      by (simp add: upt_conv_Cons map_Suc_upt[symmetric] algebra_simps del: upt_Suc map_Suc_upt)
    also have "Suc (nat ((b - i) div s)) = nat ((b - i) div s + 1)"
      using True assms by (simp add: Suc_nat_eq_nat_zadd1 pos_imp_zdiv_nonneg_iff add.commute)
    finally show ?thesis .
  next
    case False
    then have "(b - i) div s < 0" using assms by (simp add: pos_imp_zdiv_neg_iff)
    then have "(b - i) div s + 1 \<le> 0" by simp
    with False show ?thesis by (subst step_loop.simps) simp
  qed
qed

lemma step_loop_ends:
  assumes "step_loop i b s vs = Some ws"
  shows "s = 0 \<longrightarrow> b < i"
proof (rule step_loop.raw_induct[where P = "\<lambda>i b s vs ws. s = 0 \<longrightarrow> b < i", OF _ assms])
  fix f :: "int \<Rightarrow> int \<Rightarrow> int \<Rightarrow> int list \<Rightarrow> int list option" and i b s vs ws
  assume "\<And>i b s vs ws. f i b s vs = Some ws \<Longrightarrow> s = 0 \<longrightarrow> b < i"
    and "(if i \<le> b then f (i + s) b s (vs @ [i]) else Some vs) = Some ws"
  then show "s = 0 \<longrightarrow> b < i" by (cases "i \<le> b") fastforce+
qed

lemma step_loop_zero: "i \<le> b \<Longrightarrow> step_loop i b 0 vs = None"
  using step_loop_ends[of i b 0 vs] by (cases "step_loop i b 0 vs") auto

lemma range_values_mem:
  assumes "0 < s"
  shows "\<exists>vs. range_values (Some a) (Some b) s = Some vs \<and> (\<forall>v. v \<in> set vs \<longleftrightarrow> a \<le> v \<and> v \<le> b \<and> s dvd v - a)"
proof -
  let ?vs = "map (\<lambda>k. a + int k * s) [0..<nat ((b - a) div s + 1)]"
  have "v \<in> set ?vs \<longleftrightarrow> a \<le> v \<and> v \<le> b \<and> s dvd v - a" for v
  proof
    assume "v \<in> set ?vs"
    then obtain k where "k < nat ((b - a) div s + 1)" and v: "v = a + int k * s" by auto
    then have k: "v = a + int k * s" "int k \<le> (b - a) div s" by linarith+
    from k(2) assms have "int k * s \<le> b - a"
    proof -
      have "s * int k \<le> s * ((b - a) div s)" using k(2) assms by (intro mult_left_mono) auto
      then show ?thesis using div_bounds[OF assms, of "b - a", THEN conjunct1]
        by (metis mult.commute order_trans)
    qed
    with k assms show "a \<le> v \<and> v \<le> b \<and> s dvd v - a" by simp
  next
    assume v: "a \<le> v \<and> v \<le> b \<and> s dvd v - a"
    then obtain k where k: "v - a = s * k" by (elim conjE dvdE)
    with v assms have "0 \<le> k" by (metis diff_ge_0_iff_ge zero_le_mult_iff not_le)
    moreover have "k \<le> (b - a) div s"
      using k v assms by (metis zdiv_mono1 diff_right_mono nonzero_mult_div_cancel_left less_irrefl)
    ultimately show "v \<in> set ?vs" using k
      by (auto intro!: image_eqI[of _ _ "nat k"] simp: algebra_simps)
  qed
  then show ?thesis using step_loop_values[OF assms, of a b "[]"] by (auto simp: range_values_def)
qed

lemma split_char_single: "c \<notin> set s \<Longrightarrow> split_char c s = [s]"
  by (induction s) auto

lemma split_char_at: "c \<notin> set a \<Longrightarrow> split_char c (a @ c # b) = a # split_char c b"
  by (induction a) (auto split: list.split)

lemma digits_not_in:
  assumes "list_all is_digit s" and "\<not> is_digit c"
  shows "c \<notin> set s"
  using assms by (auto simp: list_all_iff)

lemma not_digit_seps: "\<not> is_digit CHR '',''" "\<not> is_digit CHR ''/''" "\<not> is_digit CHR ''#''"
    "\<not> is_digit CHR ''W''" "\<not> is_digit CHR ''w''" "\<not> is_digit CHR ''L''" "\<not> is_digit CHR ''l''" "\<not> is_digit CHR ''*''"
  by (simp_all add: is_digit_def)

lemma parse_star_step:
  assumes "ds \<noteq> []" and "list_all is_digit ds"
  shows "parseField (''*/'' @ ds) mn mx ft names =
    map_option (\<lambda>vs value date. value \<in> set vs) (range_values (Some mn) (Some mx) (int_of_digits ds))"
proof -
  let ?p = "''*/'' @ ds"
  note notin = digits_not_in[OF assms(2)]
  have lst: "last ?p = last ds" "last ds \<in> set ds" using assms(1) by simp_all
  have single: "split_char CHR '','' ?p = [?p]"
    using notin[OF not_digit_seps(1)] by (intro split_char_single) auto
  have hash: "split_char CHR ''#'' ?p = [?p]"
    using notin[OF not_digit_seps(3)] by (intro split_char_single) auto
  have slash: "split_char CHR ''/'' ?p = [''*'', ds]"
    using notin[OF not_digit_seps(2)] split_char_at[of "CHR ''/''" "''*''" ds]
    by (simp add: split_char_single)
  have up: "to_upper ?p \<noteq> ''LW''" "to_upper ?p \<noteq> ''L''"
    by (auto simp: to_upper_def upper_char_def)
  have w: "match_w_part ?p = None" "match_last_part ?p = None" "match_hash_part ?p = None"
    using lst notin not_digit_seps unfolding match_w_part_def match_last_part_def match_hash_part_def
      split_pair_def hash by auto
  have st: "match_step_part ?p = Some (None, ds)"
    using assms unfolding match_step_part_def slash by (simp add: all_digits_def)
  have "parse_part mn mx ft names ?p =
      map_option (\<lambda>vs value date. value \<in> set vs) (range_values (Some mn) (Some mx) (int_of_digits ds))"
    unfolding parse_part_def w st using up by simp
  moreover have "?p \<noteq> ''*''" by simp
  ultimately show ?thesis
    unfolding parseField_def single by (cases "range_values (Some mn) (Some mx) (int_of_digits ds)") auto
qed

text \<open>
  C21. The field \<open>*/n\<close> matches, within the field's bounds, exactly the values whose distance from
  the lower bound is a multiple of \<open>n\<close>, for every field and whatever the date. For \<open>n\<close> zero the
  parser does not return.
\<close>

theorem star_step_field:
  assumes "mn \<le> mx"
  shows "case parseField (''*/'' @ show_nat n) mn mx ft names of
      None \<Rightarrow> n = 0
    | Some m \<Rightarrow> 0 < n \<and> (\<forall>v d. m v d \<longleftrightarrow> mn \<le> v \<and> v \<le> mx \<and> int n dvd v - mn)"
proof -
  have ds: "show_nat n \<noteq> []" "list_all is_digit (show_nat n)" "int_of_digits (show_nat n) = int n"
    by (auto simp: list_all_iff int_of_digits_def dest: show_nat_digits)
  show ?thesis
  proof (cases "n = 0")
    case True
    then have "range_values (Some mn) (Some mx) (int n) = None"
      using step_loop_zero[OF assms] by (simp add: range_values_def)
    then show ?thesis using True unfolding parse_star_step[OF ds(1,2)] ds(3) by simp
  next
    case False
    then obtain vs where "range_values (Some mn) (Some mx) (int n) = Some vs"
      "\<forall>v. v \<in> set vs \<longleftrightarrow> mn \<le> v \<and> v \<le> mx \<and> int n dvd v - mn"
      using range_values_mem[of "int n" mn mx] by auto
    then show ?thesis using False unfolding parse_star_step[OF ds(1,2)] ds(3) by simp
  qed
qed

theorem star_step_field_witness:
  "parseField (''*/'' @ show_nat 0) 0 59 FMinute None = None
   \<and> (\<exists>m. parseField (''*/'' @ show_nat 15) 0 59 FMinute None = Some m \<and> (\<forall>d. m 45 d \<and> \<not> m 50 d))"
proof
  have le: "(0::int) \<le> 59" by simp
  show "parseField (''*/'' @ show_nat 0) 0 59 FMinute None = None"
    using star_step_field[OF le, of 0 FMinute None] by (auto split: option.splits)
  show "\<exists>m. parseField (''*/'' @ show_nat 15) 0 59 FMinute None = Some m \<and> (\<forall>d. m 45 d \<and> \<not> m 50 d)"
    using star_step_field[OF le, of 15 FMinute None] by (auto split: option.splits)
qed

section \<open>Calendar rules\<close>

lemma dayOfWeekFor_add: "dayOfWeekFor y m (d + k) = (dayOfWeekFor y m d + k) mod 7"
proof -
  have "days_of_civil y (m - 1) (d + k) + 4 = (days_of_civil y (m - 1) d + 4) + k"
    by (simp add: days_of_civil_def)
  then show ?thesis unfolding dayOfWeekFor_def weekday_def by (metis mod_add_left_eq)
qed

lemma dayOfWeekFor_range: "0 \<le> dayOfWeekFor y m d" "dayOfWeekFor y m d < 7"
  by (simp_all add: dayOfWeekFor_def weekday_def)

lemma lastDay_range:
  assumes "1 \<le> m" "m \<le> 12"
  shows "28 \<le> lastDayOfMonth y m" "lastDayOfMonth y m \<le> 31"
proof -
  have "\<forall>i < 12. 28 \<le> month_lengths y ! i \<and> month_lengths y ! i \<le> 31"
    by (simp add: month_lengths_def nth_Cons' All_less_Suc numeral_eq_Suc)
  then show "28 \<le> lastDayOfMonth y m" "lastDayOfMonth y m \<le> 31"
    using assms unfolding lastDayOfMonth_def by auto
qed

definition working_day :: "int \<Rightarrow> nat \<Rightarrow> int \<Rightarrow> bool" where
  "working_day y m d = (1 \<le> dayOfWeekFor y m d \<and> dayOfWeekFor y m d \<le> 5)"

lemma nearest_cases:
  assumes "1 \<le> d" "d \<le> L" "28 \<le> L" "\<forall>k. w k = ((w 0 :: int) + k) mod 7" "0 \<le> w 0" "w 0 < 7"
    and "r = (if 1 \<le> w 0 \<and> w 0 \<le> 5 then 0 else if w 0 = 6 then (if 1 < d then -1 else 2)
              else (if d < L then 1 else (-2::int)))"
  shows "1 \<le> d + r \<and> d + r \<le> L \<and> 1 \<le> w r \<and> w r \<le> 5
    \<and> (\<forall>k. 1 \<le> d + k \<longrightarrow> d + k \<le> L \<longrightarrow> 1 \<le> w k \<longrightarrow> w k \<le> 5 \<longrightarrow> \<bar>r\<bar> \<le> \<bar>k\<bar>)"
proof -
  have w: "w 1 = (w 0 + 1) mod 7" "w 2 = (w 0 + 2) mod 7" "w (-1) = (w 0 + -1) mod 7" "w (-2) = (w 0 + -2) mod 7"
    using assms(4) by blast+
  consider "1 \<le> w 0 \<and> w 0 \<le> 5" | "w 0 = 6" | "w 0 = 0" using assms(5,6) by linarith
  then show ?thesis
  proof cases
    case 1
    with assms(1-3,7) show ?thesis by auto
  next
    case 2
    show ?thesis
    proof (cases "1 < d")
      case True
      have "\<bar>r\<bar> \<le> \<bar>k\<bar>" if "w k \<le> 5" for k
        using that 2 True assms(7) by (cases "k = 0") auto
      with 2 True assms(1-3,7) w show ?thesis by auto
    next
      case False
      have "\<bar>r\<bar> \<le> \<bar>k\<bar>" if "1 \<le> d + k" "1 \<le> w k" "w k \<le> 5" for k
      proof -
        have "0 \<le> k" using that(1) False by simp
        moreover have "k \<noteq> 0" "k \<noteq> 1" using that 2 w by auto
        ultimately show ?thesis using assms(7) 2 False by simp
      qed
      with 2 False assms(1-3,7) w show ?thesis by auto
    qed
  next
    case 3
    show ?thesis
    proof (cases "d < L")
      case True
      have "\<bar>r\<bar> \<le> \<bar>k\<bar>" if "1 \<le> w k" for k
        using that 3 True assms(7) by (cases "k = 0") auto
      with 3 True assms(1-3,7) w show ?thesis by auto
    next
      case False
      have "\<bar>r\<bar> \<le> \<bar>k\<bar>" if "d + k \<le> L" "1 \<le> w k" "w k \<le> 5" for k
      proof -
        have "k \<le> 0" using that(1) False by simp
        moreover have "k \<noteq> 0" "k \<noteq> -1" using that 3 w by auto
        ultimately show ?thesis using assms(7) 3 False by simp
      qed
      with 3 False assms(1-3,7) w show ?thesis by auto
    qed
  qed
qed

lemma nearestWeekday_nearest:
  fixes y :: int
  assumes "1 \<le> m" "m \<le> 12" "1 \<le> day"
  defines "L \<equiv> lastDayOfMonth y m" and "r \<equiv> nearestWeekday y m day"
  shows "1 \<le> r \<and> r \<le> L \<and> working_day y m r
    \<and> (\<forall>x. 1 \<le> x \<longrightarrow> x \<le> L \<longrightarrow> working_day y m x \<longrightarrow> \<bar>r - min day L\<bar> \<le> \<bar>x - min day L\<bar>)"
proof -
  define d where "d = min day L"
  define w where "w k = dayOfWeekFor y m (d + k)" for k
  define q where "q = (if 1 \<le> w 0 \<and> w 0 \<le> 5 then 0 else if w 0 = 6 then (if 1 < d then -1 else 2)
              else (if d < L then 1 else (-2::int)))"
  have L: "28 \<le> L" unfolding L_def using assms(1,2) by (rule lastDay_range)
  have d: "1 \<le> d" "d \<le> L" using assms(3) L by (auto simp: d_def)
  have w: "\<forall>k. w k = (w 0 + k) mod 7" "0 \<le> w 0" "w 0 < 7"
    using dayOfWeekFor_add[of y m d] dayOfWeekFor_range[of y m d] by (simp_all add: w_def)
  note N = nearest_cases[OF d L w q_def]
  have r: "r = d + q"
    unfolding r_def nearestWeekday_def L_def[symmetric] Let_def d_def[symmetric] q_def w_def by simp
  have "\<bar>r - d\<bar> \<le> \<bar>x - d\<bar>" if "1 \<le> x" "x \<le> L" "working_day y m x" for x
    using N[THEN conjunct2, THEN conjunct2, THEN conjunct2, THEN conjunct2, rule_format, of "x - d"] that
    unfolding r working_day_def w_def by simp
  moreover have "1 \<le> r" "r \<le> L" "working_day y m r"
    using N unfolding r working_day_def w_def by simp_all
  ultimately show ?thesis unfolding d_def by blast
qed

lemma nth_loop_spec:
  "nth_loop y m w n d left c = Some r \<longleftrightarrow>
   d \<le> r \<and> r < d + int left \<and> Some (dayOfWeekFor y m r) = w
   \<and> c + int (length (filter (\<lambda>x. Some (dayOfWeekFor y m x) = w) [d..r])) = n"
proof (induction y m w n d left c rule: nth_loop.induct)
  case (2 y m w n d left c)
  show ?case
  proof (cases "r = d")
    case True
    with 2 show ?thesis by auto
  next
    case False
    have up: "[d..r] = d # [d + 1..r]" if "d \<le> r" using that by (rule upto_rec1)
    have pos: "0 < length (filter (\<lambda>x. Some (dayOfWeekFor y m x) = w) [d + 1..r])"
      if "d + 1 \<le> r" "Some (dayOfWeekFor y m r) = w"
      using that by (auto simp: filter_empty_conv)
    show ?thesis
    proof (cases "Some (dayOfWeekFor y m d) = w")
      case eq: True
      show ?thesis
      proof (cases "c + 1 = n")
        case True
        then have "nth_loop y m w n d (Suc left) c = Some d" using eq by simp
        moreover have "c + int (length (filter (\<lambda>x. Some (dayOfWeekFor y m x) = w) [d..r])) \<noteq> n"
          if "d \<le> r" "Some (dayOfWeekFor y m r) = w"
        proof -
          have "d + 1 \<le> r" using that False by simp
          have "length (filter (\<lambda>x. Some (dayOfWeekFor y m x) = w) [d..r]) =
              Suc (length (filter (\<lambda>x. Some (dayOfWeekFor y m x) = w) [d + 1..r]))"
            using up[OF that(1)] eq by (simp del: upto.simps)
          with pos[OF \<open>d + 1 \<le> r\<close> that(2)] True show ?thesis by linarith
        qed
        ultimately show ?thesis using False by (metis option.inject)
      next
        case no: False
        have rw: "nth_loop y m w n d (Suc left) c = nth_loop y m w n (d + 1) left (c + 1)"
          using eq no by simp
        show ?thesis unfolding rw 2(1)[OF eq no]
          using False up eq by (cases "d \<le> r") (auto simp: algebra_simps simp del: upto.simps)
      qed
    next
      case ne: False
      have rw: "nth_loop y m w n d (Suc left) c = nth_loop y m w n (d + 1) left c" using ne by simp
      show ?thesis unfolding rw 2(2)[OF ne]
        using False up ne by (cases "d \<le> r") (auto simp: algebra_simps simp del: upto.simps)
    qed
  qed
qed auto

lemma last_loop_spec:
  "case last_loop y m w d of
     Some r \<Rightarrow> 1 \<le> r \<and> r \<le> int d \<and> Some (dayOfWeekFor y m r) = w
               \<and> (\<forall>x. r < x \<longrightarrow> x \<le> int d \<longrightarrow> Some (dayOfWeekFor y m x) \<noteq> w)
   | None \<Rightarrow> \<forall>x. 1 \<le> x \<longrightarrow> x \<le> int d \<longrightarrow> Some (dayOfWeekFor y m x) \<noteq> w"
proof (induction d)
  case (Suc d)
  have "x \<le> int (Suc d) \<longleftrightarrow> x \<le> int d \<or> x = int (Suc d)" for x by auto
  with Suc show ?case by (auto split: option.splits)
qed auto

text \<open>
  The calendar rules. \<open>nW\<close> selects a working day of the month, and none of the month is
  nearer to the day asked for (the last one, when the month is shorter). \<open>w#n\<close> selects the day
  that is the \<open>n\<close>-th with that weekday, and none when the month has fewer. \<open>wL\<close> selects the last
  day of the month with that weekday; for a number that is no weekday it selects the last day
  of the month.
\<close>

theorem calendar_rules:
  assumes "1 \<le> m" "m \<le> 12" "1 \<le> day"
  shows "1 \<le> nearestWeekday y m day \<and> nearestWeekday y m day \<le> lastDayOfMonth y m
    \<and> working_day y m (nearestWeekday y m day)
    \<and> (\<forall>x. 1 \<le> x \<longrightarrow> x \<le> lastDayOfMonth y m \<longrightarrow> working_day y m x \<longrightarrow>
          \<bar>nearestWeekday y m day - min day (lastDayOfMonth y m)\<bar> \<le> \<bar>x - min day (lastDayOfMonth y m)\<bar>)
    \<and> (\<forall>d. nthWeekdayOfMonth y m (Some w) n = Some d \<longleftrightarrow>
          1 \<le> d \<and> d \<le> lastDayOfMonth y m \<and> dayOfWeekFor y m d = w
          \<and> int (length (filter (\<lambda>x. dayOfWeekFor y m x = w) [1..d])) = n)
    \<and> (if 0 \<le> w \<and> w < 7
       then dayOfWeekFor y m (lastWeekdayOfMonth y m (Some w)) = w
            \<and> lastWeekdayOfMonth y m (Some w) \<le> lastDayOfMonth y m
            \<and> lastDayOfMonth y m < lastWeekdayOfMonth y m (Some w) + 7
       else lastWeekdayOfMonth y m (Some w) = lastDayOfMonth y m)"
proof -
  let ?L = "lastDayOfMonth y m"
  note L = lastDay_range[OF assms(1,2), of y]
  have nth: "nthWeekdayOfMonth y m (Some w) n = Some d \<longleftrightarrow> 1 \<le> d \<and> d \<le> ?L \<and> dayOfWeekFor y m d = w
          \<and> int (length (filter (\<lambda>x. dayOfWeekFor y m x = w) [1..d])) = n" for d
    using L unfolding nthWeekdayOfMonth_def nth_loop_spec by auto
  have lst: "if 0 \<le> w \<and> w < 7
       then dayOfWeekFor y m (lastWeekdayOfMonth y m (Some w)) = w
            \<and> lastWeekdayOfMonth y m (Some w) \<le> ?L \<and> ?L < lastWeekdayOfMonth y m (Some w) + 7
       else lastWeekdayOfMonth y m (Some w) = ?L"
  proof (cases "0 \<le> w \<and> w < 7")
    case True
    define x where "x = ?L - (dayOfWeekFor y m ?L - w) mod 7"
    have x: "?L - 7 < x" "x \<le> ?L" unfolding x_def by simp_all
    have "dayOfWeekFor y m x = (dayOfWeekFor y m ?L - (dayOfWeekFor y m ?L - w) mod 7) mod 7"
      using dayOfWeekFor_add[of y m ?L "- ((dayOfWeekFor y m ?L - w) mod 7)"] by (simp add: x_def)
    also have "\<dots> = w" using True by (simp add: mod_diff_right_eq)
    finally have wx: "dayOfWeekFor y m x = w" .
    from last_loop_spec[where y = y and m = m and w = "Some w" and d = "nat ?L"] x wx L obtain r where
      r: "last_loop y m (Some w) (nat ?L) = Some r" "r \<le> ?L" "dayOfWeekFor y m r = w" "x \<le> r"
      by (cases "last_loop y m (Some w) (nat ?L)") (auto simp: not_less[symmetric])
    then show ?thesis using True x by (simp add: lastWeekdayOfMonth_def)
  next
    case False
    then have no: "dayOfWeekFor y m x \<noteq> w" for x using dayOfWeekFor_range[of y m x] by auto
    from last_loop_spec[where y = y and m = m and w = "Some w" and d = "nat ?L"] no
    have "last_loop y m (Some w) (nat ?L) = None" by (auto split: option.splits)
    with False show ?thesis by (auto simp: lastWeekdayOfMonth_def)
  qed
  show ?thesis using nearestWeekday_nearest[OF assms, of y] nth lst by blast
qed

theorem calendar_rules_witness:
  "working_day 2024 6 (nearestWeekday 2024 6 15) \<and> lastDayOfMonth 2024 6 < lastWeekdayOfMonth 2024 6 (Some 5) + 7
   \<and> lastWeekdayOfMonth 2024 6 (Some 7) = 30"
proof -
  have a: "(1::nat) \<le> 6" "(6::nat) \<le> 12" "(1::int) \<le> 15" by simp_all
  have "lastDayOfMonth 2024 6 = 30" by (simp add: lastDayOfMonth_def month_lengths_def)
  then show ?thesis using calendar_rules[OF a, where y = 2024 and w = 5 and n = 1]
      calendar_rules[OF a, where y = 2024 and w = 7 and n = 1] by simp
qed

section \<open>The timer\<close>

type_synonym cron_state = "(string \<rightharpoonup> int) \<times> (string \<times> int) list"

text \<open>The firing of an expression as the map records it: by the minute.\<close>

definition minute_of :: "string \<times> int \<Rightarrow> string \<times> int" where
  "minute_of f = (fst f, snd f div 60000)"

definition timer_inv :: "int \<Rightarrow> cron_state \<Rightarrow> bool" where
  "timer_inv T st =
     (distinct (map minute_of (snd st))
      \<and> (\<forall>f \<in> set (snd st). \<exists>k. fst st (fst f) = Some k \<and> snd f div 60000 \<le> k)
      \<and> (\<forall>e k. fst st e = Some k \<longrightarrow> k \<le> T div 60000 \<and> (e, k) \<in> minute_of ` set (snd st)))"

lemma timer_inv_later: "timer_inv T st \<Longrightarrow> T \<le> T' \<Longrightarrow> timer_inv T' st"
  using zdiv_mono1[of T T' 60000] by (fastforce simp: timer_inv_def)

lemma timer_inv_fire:
  assumes "timer_inv now st"
  shows "timer_inv now (fire_cron tz now st cron)"
    and "set (snd st) \<subseteq> set (snd (fire_cron tz now st cron))"
    and "cronMatchesDate cron (tz now) \<Longrightarrow>
      (pc_expression cron, now div 60000) \<in> minute_of ` set (snd (fire_cron tz now st cron))"
proof -
  obtain m fired where st: "st = (m, fired)" by force
  let ?e = "pc_expression cron" and ?k = "now div 60000"
  consider (no) "\<not> cronMatchesDate cron (tz now)"
    | (was) "cronMatchesDate cron (tz now)" "m ?e = Some ?k"
    | (fire) "cronMatchesDate cron (tz now)" "m ?e \<noteq> Some ?k" by blast
  then have "timer_inv now (fire_cron tz now st cron) \<and> set (snd st) \<subseteq> set (snd (fire_cron tz now st cron))
      \<and> (cronMatchesDate cron (tz now) \<longrightarrow> (?e, ?k) \<in> minute_of ` set (snd (fire_cron tz now st cron)))"
  proof cases
    case no
    then show ?thesis using assms by (simp add: fire_cron_def st)
  next
    case was
    then show ?thesis using assms by (auto simp: fire_cron_def st timer_inv_def)
  next
    case fire
    have new: "(?e, ?k) \<notin> minute_of ` set fired"
    proof
      assume "(?e, ?k) \<in> minute_of ` set fired"
      then obtain f where f: "f \<in> set fired" "fst f = ?e" "snd f div 60000 = ?k" by (auto simp: minute_of_def)
      with assms obtain k where "m ?e = Some k" "?k \<le> k" by (force simp: timer_inv_def st)
      moreover from this assms have "k \<le> ?k" by (auto simp: timer_inv_def st)
      ultimately show False using fire by simp
    qed
    have res: "fire_cron tz now st cron = (m(?e \<mapsto> ?k), fired @ [(?e, now)])"
      using fire by (simp add: fire_cron_def st)
    have "\<exists>k. (m(?e \<mapsto> ?k)) (fst f) = Some k \<and> snd f div 60000 \<le> k" if "f \<in> set fired" for f
    proof -
      from that assms obtain k where "m (fst f) = Some k" "snd f div 60000 \<le> k" by (force simp: timer_inv_def st)
      moreover from this assms have "k \<le> ?k" by (auto simp: timer_inv_def st)
      ultimately show ?thesis by auto
    qed
    then show ?thesis
      using assms new unfolding res by (auto simp: timer_inv_def st minute_of_def)
  qed
  then show "timer_inv now (fire_cron tz now st cron)" "set (snd st) \<subseteq> set (snd (fire_cron tz now st cron))"
    "cronMatchesDate cron (tz now) \<Longrightarrow> (?e, ?k) \<in> minute_of ` set (snd (fire_cron tz now st cron))"
    by blast+
qed

lemma timer_inv_tick:
  assumes "timer_inv now st"
  shows "timer_inv now (cron_tick tz crons st now)
    \<and> set (snd st) \<subseteq> set (snd (cron_tick tz crons st now))
    \<and> (\<forall>c \<in> set crons. cronMatchesDate c (tz now) \<longrightarrow>
         (pc_expression c, now div 60000) \<in> minute_of ` set (snd (cron_tick tz crons st now)))
    \<and> (\<forall>f \<in> set (snd (cron_tick tz crons st now)). f \<in> set (snd st)
         \<or> (snd f = now \<and> (\<exists>c \<in> set crons. pc_expression c = fst f \<and> cronMatchesDate c (tz now))))"
  using assms unfolding cron_tick_def
proof (induction crons arbitrary: st)
  case (Cons c crons)
  let ?st1 = "fire_cron tz now st c"
  note F = timer_inv_fire[OF Cons.prems, where tz = tz and cron = c]
  note IH = Cons.IH[OF F(1)]
  have new: "\<forall>f \<in> set (snd ?st1). f \<in> set (snd st)
      \<or> (snd f = now \<and> pc_expression c = fst f \<and> cronMatchesDate c (tz now))"
    by (auto simp: fire_cron_def Let_def split: prod.splits if_splits)
  have "minute_of ` set (snd ?st1) \<subseteq> minute_of ` set (snd (foldl (fire_cron tz now) ?st1 crons))"
    using IH by blast
  moreover have "f \<in> set (snd st) \<or> (snd f = now \<and> (\<exists>c' \<in> set (c # crons). pc_expression c' = fst f \<and> cronMatchesDate c' (tz now)))"
    if "f \<in> set (snd (foldl (fire_cron tz now) ?st1 crons))" for f
  proof -
    from that IH have "f \<in> set (snd ?st1) \<or> (snd f = now \<and> (\<exists>c \<in> set crons. pc_expression c = fst f \<and> cronMatchesDate c (tz now)))"
      by blast
    with new show ?thesis by (metis list.set_intros)
  qed
  ultimately show ?case using IH F unfolding foldl.simps list.set by (intro conjI ballI) blast+
qed simp

text \<open>A run of the timer over several generations: each tick has the crons of its generation.\<close>

definition cron_run :: "(int \<Rightarrow> date_fields) \<Rightarrow> (int \<times> parsed_cron list) list \<Rightarrow> cron_state \<Rightarrow> cron_state" where
  "cron_run tz ticks st = foldl (\<lambda>st (now, crons). cron_tick tz crons st now) st ticks"

text \<open>
  C10. Whenever the ticks come and however often the program is reloaded with other crons in
  between, as long as the clock does not run backwards: no expression is fired twice in one
  minute; an expression is fired in every minute in which it matches at some tick; and it is
  fired only at a tick at which a cron with that expression matches.
\<close>

theorem cron_fires_once_per_minute:
  assumes "sorted (map fst ticks)"
  shows "distinct (map minute_of (snd (cron_run tz ticks (Map.empty, []))))
    \<and> (\<forall>now crons c. (now, crons) \<in> set ticks \<longrightarrow> c \<in> set crons \<longrightarrow> cronMatchesDate c (tz now) \<longrightarrow>
         (pc_expression c, now div 60000) \<in> minute_of ` set (snd (cron_run tz ticks (Map.empty, []))))
    \<and> (\<forall>e now. (e, now) \<in> set (snd (cron_run tz ticks (Map.empty, []))) \<longrightarrow>
         (\<exists>crons c. (now, crons) \<in> set ticks \<and> c \<in> set crons \<and> pc_expression c = e \<and> cronMatchesDate c (tz now)))"
proof -
  have run: "distinct (map minute_of (snd (cron_run tz ticks st)))
    \<and> set (snd st) \<subseteq> set (snd (cron_run tz ticks st))
    \<and> (\<forall>now crons c. (now, crons) \<in> set ticks \<longrightarrow> c \<in> set crons \<longrightarrow> cronMatchesDate c (tz now) \<longrightarrow>
         (pc_expression c, now div 60000) \<in> minute_of ` set (snd (cron_run tz ticks st)))
    \<and> (\<forall>f \<in> set (snd (cron_run tz ticks st)). f \<in> set (snd st) \<or>
         (\<exists>crons c. (snd f, crons) \<in> set ticks \<and> c \<in> set crons \<and> pc_expression c = fst f \<and> cronMatchesDate c (tz (snd f))))"
    if "timer_inv T st" "\<forall>t \<in> fst ` set ticks. T \<le> t" for T st
    using assms that
  proof (induction ticks arbitrary: T st)
    case Nil
    then show ?case by (simp add: cron_run_def timer_inv_def)
  next
    case (Cons tick ticks)
    obtain now crons where tick: "tick = (now, crons)" by force
    let ?st1 = "cron_tick tz crons st now"
    have "timer_inv now st" using Cons.prems tick by (auto intro: timer_inv_later)
    note T = timer_inv_tick[OF this, where tz = tz and crons = crons]
    have "\<forall>t \<in> fst ` set ticks. now \<le> t" "sorted (map fst ticks)" using Cons.prems(1) tick by auto
    from Cons.IH[OF this(2) T[THEN conjunct1] this(1)]
    have IH: "distinct (map minute_of (snd (cron_run tz ticks ?st1)))"
      "set (snd ?st1) \<subseteq> set (snd (cron_run tz ticks ?st1))"
      "\<forall>now crons c. (now, crons) \<in> set ticks \<longrightarrow> c \<in> set crons \<longrightarrow> cronMatchesDate c (tz now) \<longrightarrow>
         (pc_expression c, now div 60000) \<in> minute_of ` set (snd (cron_run tz ticks ?st1))"
      "\<forall>f \<in> set (snd (cron_run tz ticks ?st1)). f \<in> set (snd ?st1) \<or>
         (\<exists>crons c. (snd f, crons) \<in> set ticks \<and> c \<in> set crons \<and> pc_expression c = fst f \<and> cronMatchesDate c (tz (snd f)))"
      by blast+
    have eq: "cron_run tz (tick # ticks) st = cron_run tz ticks ?st1" by (simp add: cron_run_def tick)
    have "minute_of ` set (snd ?st1) \<subseteq> minute_of ` set (snd (cron_run tz ticks ?st1))" using IH(2) by blast
    with IH(3) T have fired: "(pc_expression c, now' div 60000) \<in> minute_of ` set (snd (cron_run tz ticks ?st1))"
      if "(now', crons') \<in> set (tick # ticks)" "c \<in> set crons'" "cronMatchesDate c (tz now')" for now' crons' c
      using that unfolding tick by auto
    have only: "f \<in> set (snd st) \<or> (\<exists>crons c. (snd f, crons) \<in> set (tick # ticks) \<and> c \<in> set crons
        \<and> pc_expression c = fst f \<and> cronMatchesDate c (tz (snd f)))"
      if "f \<in> set (snd (cron_run tz ticks ?st1))" for f
      using IH(4) T that unfolding tick by fastforce
    show ?case unfolding eq using IH(1,2) T fired only by blast
  qed
  have "timer_inv (Min (insert 0 (fst ` set ticks))) (Map.empty, [])" by (simp add: timer_inv_def)
  moreover have "\<forall>t \<in> fst ` set ticks. Min (insert 0 (fst ` set ticks)) \<le> t" by auto
  ultimately show ?thesis using run[of "Min (insert 0 (fst ` set ticks))" "(Map.empty, [])"] by fastforce
qed

definition every_minute :: parsed_cron where
  "every_minute = \<lparr>pc_expression = ''* * * * *'', pc_minute = (\<lambda>_ _. True), pc_hour = (\<lambda>_ _. True),
     pc_dayOfMonth = (\<lambda>_ _. True), pc_month = (\<lambda>_ _. True), pc_dayOfWeek = (\<lambda>_ _. True)\<rparr>"

theorem cron_fires_once_per_minute_witness:
  "(''* * * * *'', 1) \<in> minute_of ` set (snd (cron_run fields_of
     [(60000, [every_minute]), (75000, [every_minute, every_minute]), (120000, [every_minute])] (Map.empty, [])))"
proof -
  let ?ticks = "[(60000, [every_minute]), (75000, [every_minute, every_minute]), (120000::int, [every_minute])]"
  have "sorted (map fst ?ticks)" by simp
  note C = cron_fires_once_per_minute[OF this, where tz = fields_of, THEN conjunct2, THEN conjunct1, rule_format,
      of 75000 "[every_minute, every_minute]" every_minute]
  have "cronMatchesDate every_minute (fields_of 75000)" by (simp add: cronMatchesDate_def every_minute_def)
  with C show ?thesis by (simp add: every_minute_def)
qed

end
