(* ===== verification/StaticAssets.thy ===== *)
theory StaticAssets
  imports Json
begin

text \<open>
  Static assets, \<^verbatim>\<open>src/bindings/static-assets.ts\<close>: the parsers of \<open>_headers\<close> and \<open>_redirects\<close>,
  their patterns, the resolution of a path to a file, and \<open>fetch\<close>.

  The file system is an argument: which paths exist, which are directories, and for a rules file
  its stat stamp and content. So are the entity tag of a file, its content type, and the
  resolution of a target against an origin (\<open>new URL(target, origin).toString()\<close>). A regular
  expression the code builds from a pattern is the list of its elements, matched by backtracking
  with the longest match of each first, as the language does.
\<close>

section \<open>Types\<close>

datatype html_handling = HtmlNone | AutoTrailingSlash | ForceTrailingSlash | DropTrailingSlash
datatype not_found_handling = NotFoundNone | NotFound404Page | SinglePageApplication

record assets_limits =
  maxHeaderRules :: nat
  maxHeaderLineLength :: nat
  maxStaticRedirects :: nat
  maxDynamicRedirects :: nat

definition STATIC_ASSETS_LIMITS_DEFAULTS :: assets_limits where
  "STATIC_ASSETS_LIMITS_DEFAULTS = \<lparr>maxHeaderRules = 100, maxHeaderLineLength = 2000,
     maxStaticRedirects = 2000, maxDynamicRedirects = 100\<rparr>"

record header_rule =
  hr_pattern :: string
  hr_headers :: "(string \<times> string) list"
  hr_removals :: "string list"

record redirect_rule =
  rr_from :: string
  rr_to :: string
  rr_status :: int
  rr_isDynamic :: bool

definition VALID_REDIRECT_STATUSES :: "int list" where
  "VALID_REDIRECT_STATUSES = [301, 302, 303, 307, 308, 200]"

record assets_request =
  rq_method :: string
  rq_headers :: "(string \<times> string) list" \<comment> \<open>names in lower case\<close>

record assets_response =
  rs_status :: nat
  rs_headers :: "(string \<times> string) list"
  rs_file :: "string option"

section \<open>Requests the asset layer may answer\<close>

definition isWebSocketUpgrade :: "assets_request \<Rightarrow> bool" where
  "isWebSocketUpgrade r = (map_option to_lower (map_of (rq_headers r) ''upgrade'') = Some ''websocket'')"

definition canServeAssets :: "assets_request \<Rightarrow> bool" where
  "canServeAssets r = ((rq_method r = ''GET'' \<or> rq_method r = ''HEAD'') \<and> \<not> isWebSocketUpgrade r)"

definition assetsOnlyRejection :: "assets_request \<Rightarrow> assets_response option" where
  "assetsOnlyRejection r =
     (if canServeAssets r then None
      else if isWebSocketUpgrade r
      then Some \<lparr>rs_status = 400, rs_headers = [], rs_file = None\<rparr>
      else Some \<lparr>rs_status = 405, rs_headers = [(''allow'', ''GET, HEAD'')], rs_file = None\<rparr>)"

section \<open>The rules files\<close>

definition is_indented :: "string \<Rightarrow> bool" where
  "is_indented line = (line \<noteq> [] \<and> (hd line = CHR '' '' \<or> hd line = CHR 0x09))"

text \<open>A line inside a rule: a removal, a header, or nothing.\<close>

definition apply_header_line :: "string \<Rightarrow> header_rule \<Rightarrow> header_rule" where
  "apply_header_line line rule =
     (let trimmed = trim line
      in if starts_with trimmed ''!''
         then (let name = trim (tl trimmed)
               in if name = '''' then rule else rule\<lparr>hr_removals := hr_removals rule @ [name]\<rparr>)
         else (case char_index CHR '':'' trimmed of
                 None \<Rightarrow> rule
               | Some i \<Rightarrow>
                   (let key = trim (take i trimmed); value = trim (drop (i + 1) trimmed)
                    in if key = '''' then rule
                       else rule\<lparr>hr_headers := obj_set (hr_headers rule) key value\<rparr>)))"

text \<open>
  The loop over the lines. The current rule is the last one pushed, so the rules are kept in
  reverse with the current one first.
\<close>

fun headers_loop :: "assets_limits \<Rightarrow> string list \<Rightarrow> header_rule list \<Rightarrow> header_rule list" where
  "headers_loop lims [] rules = rev rules"
| "headers_loop lims (rawLine # lines) rules =
     (let line = trim_end rawLine
      in if maxHeaderLineLength lims < length line then headers_loop lims lines rules
         else if line = '''' \<or> starts_with line ''#'' then headers_loop lims lines rules
         else if is_indented line
         then (case rules of
                 [] \<Rightarrow> headers_loop lims lines []
               | r # rs \<Rightarrow> headers_loop lims lines (apply_header_line line r # rs))
         else if maxHeaderRules lims \<le> length rules then rev rules
         else headers_loop lims lines (\<lparr>hr_pattern = trim line, hr_headers = [], hr_removals = []\<rparr> # rules))"

definition parseHeadersFile :: "string \<Rightarrow> assets_limits \<Rightarrow> header_rule list" where
  "parseHeadersFile content lims = headers_loop lims (split_char CHR 0x0A content) []"

definition redirect_status :: "string list \<Rightarrow> int option" where
  "redirect_status parts =
     (if 2 < length parts \<and> parts ! 2 \<noteq> '''' then parse_int (parts ! 2) else Some 302)"

fun redirects_loop :: "assets_limits \<Rightarrow> string list \<Rightarrow> nat \<Rightarrow> nat \<Rightarrow> redirect_rule list" where
  "redirects_loop lims [] staticCount dynamicCount = []"
| "redirects_loop lims (rawLine # lines) staticCount dynamicCount =
     (let line = trim rawLine; skip = redirects_loop lims lines staticCount dynamicCount
      in if line = '''' \<or> starts_with line ''#'' then skip
         else (let parts = split_ws line
               in if length parts < 2 then skip
                  else (case redirect_status parts of
                          None \<Rightarrow> skip
                        | Some status \<Rightarrow>
                            if status \<notin> set VALID_REDIRECT_STATUSES then skip
                            else (let from = parts ! 0;
                                      dynamic = (includes_char from CHR ''*'' \<or> includes_char from CHR '':'');
                                      rule = \<lparr>rr_from = from, rr_to = parts ! 1, rr_status = status, rr_isDynamic = dynamic\<rparr>
                                  in if dynamic
                                     then (if maxDynamicRedirects lims \<le> dynamicCount then skip
                                           else rule # redirects_loop lims lines staticCount (dynamicCount + 1))
                                     else (if maxStaticRedirects lims \<le> staticCount then skip
                                           else rule # redirects_loop lims lines (staticCount + 1) dynamicCount)))))"

definition parseRedirects :: "string \<Rightarrow> assets_limits \<Rightarrow> redirect_rule list" where
  "parseRedirects content lims = redirects_loop lims (split_char CHR 0x0A content) 0 0"

section \<open>Patterns\<close>

datatype pat = PLit char | PAny | PSeg \<comment> \<open>a character, \<open>.*\<close>, \<open>[^/]+\<close>\<close>

definition name_char :: "char \<Rightarrow> bool" where "name_char c = is_word c"

lemma length_dropWhile_less [termination_simp]: "length (dropWhile P xs) < Suc (length xs)"
  using length_dropWhile_le[of P xs] by simp

text \<open>The elements of a \<open>_headers\<close> pattern; a colon is a placeholder whatever follows it.\<close>

fun headers_pattern :: "string \<Rightarrow> pat list" where
  "headers_pattern [] = []"
| "headers_pattern (c # cs) =
     (if c = CHR ''*'' then PAny # headers_pattern cs
      else if c = CHR '':'' then PSeg # headers_pattern (dropWhile name_char cs)
      else PLit c # headers_pattern cs)"

text \<open>The elements of a redirect pattern and the names of its groups.\<close>

fun redirect_pattern :: "string \<Rightarrow> pat list \<times> string list" where
  "redirect_pattern [] = ([], [])"
| "redirect_pattern (c # cs) =
     (if c = CHR ''*'' then (let (ps, ns) = redirect_pattern cs in (PAny # ps, ''splat'' # ns))
      else if c = CHR '':'' \<and> takeWhile name_char cs \<noteq> []
      then (let (ps, ns) = redirect_pattern (dropWhile name_char cs)
            in (PSeg # ps, takeWhile name_char cs # ns))
      else (let (ps, ns) = redirect_pattern cs in (PLit c # ps, ns)))"

text \<open>What \<open>.\<close> does not match.\<close>

definition line_end :: "char \<Rightarrow> bool" where "line_end c = (c = CHR 0x0A \<or> c = CHR 0x0D)"

fun first_some :: "('a \<Rightarrow> 'b option) \<Rightarrow> 'a list \<Rightarrow> 'b option" where
  "first_some f [] = None"
| "first_some f (x # xs) = (case f x of Some y \<Rightarrow> Some y | None \<Rightarrow> first_some f xs)"

text \<open>The lengths a group can take, longest first.\<close>

definition lengths :: "(char \<Rightarrow> bool) \<Rightarrow> nat \<Rightarrow> string \<Rightarrow> nat list" where
  "lengths ok least s = rev [least..<Suc (length (takeWhile ok s))]"

definition try_group ::
    "(char \<Rightarrow> bool) \<Rightarrow> nat \<Rightarrow> (string \<Rightarrow> string list option) \<Rightarrow> string \<Rightarrow> string list option" where
  "try_group ok least k s =
     first_some (\<lambda>n. map_option ((#) (take n s)) (k (drop n s))) (lengths ok least s)"

primrec rmatch :: "pat list \<Rightarrow> string \<Rightarrow> string list option" where
  "rmatch [] = (\<lambda>s. if s = [] then Some [] else None)"
| "rmatch (p # ps) =
     (\<lambda>s. case p of
            PLit c \<Rightarrow> (case s of [] \<Rightarrow> None | x # xs \<Rightarrow> if x = c then rmatch ps xs else None)
          | PAny \<Rightarrow> try_group (\<lambda>c. \<not> line_end c) 0 (rmatch ps) s
          | PSeg \<Rightarrow> try_group (\<lambda>c. c \<noteq> CHR ''/'') 1 (rmatch ps) s)"

definition matchPattern :: "string \<Rightarrow> string \<Rightarrow> bool" where
  "matchPattern pattern pathname = (rmatch (headers_pattern pattern) pathname \<noteq> None)"

definition matchRedirectPattern :: "string \<Rightarrow> string \<Rightarrow> (string \<times> string) list option" where
  "matchRedirectPattern pattern pathname =
     (let (ps, names) = redirect_pattern pattern
      in map_option (\<lambda>caps. obj_of (zip names caps)) (rmatch ps pathname))"

section \<open>Paths\<close>

text \<open>The functions of \<open>node:path\<close>, on absolute POSIX paths.\<close>

fun norm_segs :: "string list \<Rightarrow> string list \<Rightarrow> string list" where
  "norm_segs [] acc = rev acc"
| "norm_segs (p # ps) acc =
     (if p = '''' \<or> p = ''.'' then norm_segs ps acc
      else if p = ''..'' then norm_segs ps (tl acc)
      else norm_segs ps (p # acc))"

definition segs :: "string \<Rightarrow> string list" where
  "segs p = norm_segs (split_char CHR ''/'' p) []"

definition path_of :: "string list \<Rightarrow> string" where
  "path_of ss = (if ss = [] then ''/'' else concat (map (\<lambda>s. CHR ''/'' # s) ss))"

definition path_join :: "string list \<Rightarrow> string" where
  "path_join parts =
     (let s = join ''/'' (filter (\<lambda>p. p \<noteq> '''') parts); n = path_of (segs s)
      in if ends_with s ''/'' \<and> n \<noteq> ''/'' then n @ ''/'' else n)"

definition path_resolve :: "string \<Rightarrow> string \<Rightarrow> string" where
  "path_resolve dir p = path_of (segs (dir @ ''/'' @ p))"

definition last_slash_prefix :: "string \<Rightarrow> string" where
  "last_slash_prefix p = rev (tl (dropWhile (\<lambda>c. c \<noteq> CHR ''/'') (rev p)))"

text \<open>\<open>path.posix.dirname\<close> of a path that does not end in a slash, or of the root.\<close>

definition dirname :: "string \<Rightarrow> string" where
  "dirname p =
     (let q = rev (dropWhile (\<lambda>c. c = CHR ''/'') (rev p))
      in if q = [] then (if p = [] then ''.'' else ''/'')
         else if CHR ''/'' \<notin> set q then ''.''
         else (let d = rev (dropWhile (\<lambda>c. c = CHR ''/'') (rev (last_slash_prefix q)))
               in if d = [] then ''/'' else d))"

definition basename :: "string \<Rightarrow> string" where
  "basename p = rev (takeWhile (\<lambda>c. c \<noteq> CHR ''/'') (rev p))"

text \<open>Whether \<open>path.extname\<close> is not empty: a dot after the first character of the last segment.\<close>

definition has_extname :: "string \<Rightarrow> bool" where
  "has_extname p =
     (let b = basename p
      in b \<noteq> ''..'' \<and> CHR ''.'' \<in> set (tl b))"

section \<open>Files\<close>

record file_system =
  fs_exists :: "string \<Rightarrow> bool"
  fs_isDirectory :: "string \<Rightarrow> bool"
  fs_etag :: "string \<Rightarrow> string"
  fs_type :: "string \<Rightarrow> string"
  fs_stamp :: "string \<Rightarrow> string option"
  fs_read :: "string \<Rightarrow> string"

record assets =
  as_directory :: string
  as_htmlHandling :: html_handling
  as_notFoundHandling :: not_found_handling
  as_limits :: assets_limits

record rule_caches =
  ca_headers :: "(string option \<times> header_rule list) option"
  ca_redirects :: "(string option \<times> redirect_rule list) option"

definition getRedirectRules :: "assets \<Rightarrow> file_system \<Rightarrow> rule_caches \<Rightarrow> redirect_rule list \<times> rule_caches" where
  "getRedirectRules a fs ca =
     (let path = path_join [as_directory a, ''_redirects'']; stamp = fs_stamp fs path;
          fresh = (let rules = (if stamp = None then [] else parseRedirects (fs_read fs path) (as_limits a))
                   in (rules, ca\<lparr>ca_redirects := Some (stamp, rules)\<rparr>))
      in case ca_redirects ca of
           None \<Rightarrow> fresh
         | Some (s, rules) \<Rightarrow> if s = stamp then (rules, ca) else fresh)"

definition getHeaderRules :: "assets \<Rightarrow> file_system \<Rightarrow> rule_caches \<Rightarrow> header_rule list \<times> rule_caches" where
  "getHeaderRules a fs ca =
     (let path = path_join [as_directory a, ''_headers'']; stamp = fs_stamp fs path;
          fresh = (let rules = (if stamp = None then [] else parseHeadersFile (fs_read fs path) (as_limits a))
                   in (rules, ca\<lparr>ca_headers := Some (stamp, rules)\<rparr>))
      in case ca_headers ca of
           None \<Rightarrow> fresh
         | Some (s, rules) \<Rightarrow> if s = stamp then (rules, ca) else fresh)"

definition regular_file :: "file_system \<Rightarrow> string \<Rightarrow> bool" where
  "regular_file fs p = (fs_exists fs p \<and> \<not> fs_isDirectory fs p)"

definition resolveFile :: "assets \<Rightarrow> file_system \<Rightarrow> string \<Rightarrow> string option" where
  "resolveFile a fs pathname0 =
     (let pathname = (if pathname0 \<noteq> ''/'' \<and> ends_with pathname0 ''/'' then butlast pathname0 else pathname0);
          directPath = path_join [as_directory a, pathname]
      in if regular_file fs directPath then Some directPath
         else if pathname = ''/'' \<or> pathname = ''''
         then (let indexPath = path_join [as_directory a, ''index.html'']
               in if fs_exists fs indexPath then Some indexPath else None)
         else if as_htmlHandling a = HtmlNone then None
         else (let indexPath = path_join [as_directory a, pathname, ''index.html'']; htmlPath = directPath @ ''.html''
               in if fs_exists fs indexPath then Some indexPath
                  else if fs_exists fs htmlPath then Some htmlPath
                  else None))"

section \<open>Redirects\<close>

text \<open>The patterns \<open>$$\<close>, \<open>$&\<close>, \<open>$`\<close> and \<open>$'\<close> in the replacement of \<open>String.prototype.replaceAll\<close>.\<close>

fun expand_replacement :: "string \<Rightarrow> string \<Rightarrow> string \<Rightarrow> string \<Rightarrow> string" where
  "expand_replacement matched before after [] = []"
| "expand_replacement matched before after [c] = [c]"
| "expand_replacement matched before after (c # d # cs) =
     (if c \<noteq> CHR ''$'' then c # expand_replacement matched before after (d # cs)
      else if d = CHR ''$'' then CHR ''$'' # expand_replacement matched before after cs
      else if d = CHR ''&'' then matched @ expand_replacement matched before after cs
      else if d = CHR 0x60 then before @ expand_replacement matched before after cs
      else if d = CHR 0x27 then after @ expand_replacement matched before after cs
      else CHR ''$'' # expand_replacement matched before after (d # cs))"

text \<open>\<open>s.replaceAll(':' + key, value)\<close>; \<open>before\<close> is what precedes the rest of the string.\<close>

function replace_key :: "string \<Rightarrow> string \<Rightarrow> string \<Rightarrow> string \<Rightarrow> string" where
  "replace_key key value before [] = []"
| "replace_key key value before (c # cs) =
     (if c = CHR '':'' \<and> prefix key cs
      then expand_replacement (CHR '':'' # key) before (drop (length key) cs) value
           @ replace_key key value (before @ CHR '':'' # key) (drop (length key) cs)
      else c # replace_key key value (before @ [c]) cs)"
  by pat_completeness auto
termination by (relation "measure (\<lambda>(_, _, _, s). length s)") auto

text \<open>\<open>Object.entries\<close>: the keys that are array indices come first, in ascending order.\<close>

definition index_key :: "string \<Rightarrow> bool" where
  "index_key k = (k = ''0'' \<or> (k \<noteq> [] \<and> list_all is_digit k \<and> hd k \<noteq> CHR ''0'' \<and> digits_val k < 2 ^ 32 - 1))"

definition js_entries :: "(string \<times> 'a) list \<Rightarrow> (string \<times> 'a) list" where
  "js_entries kvs =
     sort_key (\<lambda>(k, v). digits_val k) (filter (\<lambda>(k, v). index_key k) kvs) @ filter (\<lambda>(k, v). \<not> index_key k) kvs"

definition substitute :: "string \<Rightarrow> (string \<times> string) list \<Rightarrow> string" where
  "substitute to m = foldl (\<lambda>t (key, value). replace_key key value [] t) to (js_entries m)"

datatype redirect_result = Redirected assets_response | Rewritten string | NoRedirect

definition location_response :: "nat \<Rightarrow> string \<Rightarrow> assets_response" where
  "location_response status loc = \<lparr>rs_status = status, rs_headers = [(''location'', loc)], rs_file = None\<rparr>"

definition is_external :: "string \<Rightarrow> bool" where
  "is_external t = (starts_with t ''http://'' \<or> starts_with t ''https://'')"

fun apply_rules ::
    "(string \<Rightarrow> string) \<Rightarrow> string \<Rightarrow> string \<Rightarrow> redirect_rule list \<Rightarrow> redirect_result" where
  "apply_rules resolve_url search pathname [] = NoRedirect"
| "apply_rules resolve_url search pathname (rule # rules) =
     (case matchRedirectPattern (rr_from rule) pathname of
        None \<Rightarrow> apply_rules resolve_url search pathname rules
      | Some m \<Rightarrow>
          (let target = substitute (rr_to rule) m
           in if rr_status rule = 200
              then (if is_external target then Redirected (location_response 302 target) else Rewritten target)
              else Redirected (location_response (nat (rr_status rule))
                     (if is_external target then target else resolve_url (target @ search)))))"

definition applyRedirects ::
    "assets \<Rightarrow> (string \<Rightarrow> string) \<Rightarrow> file_system \<Rightarrow> string \<Rightarrow> string \<Rightarrow> rule_caches
     \<Rightarrow> redirect_result \<times> rule_caches" where
  "applyRedirects a resolve_url fs pathname search ca =
     (let (rules, ca') = getRedirectRules a fs ca
      in (apply_rules resolve_url search pathname rules, ca'))"

section \<open>Answering a request\<close>

definition is_stop_dir :: "string \<Rightarrow> bool" where
  "is_stop_dir d = (d = ''/'' \<or> d = '''' \<or> d = ''.'')"

lemma length_rev_dropWhile: "length (rev (dropWhile P (rev p))) \<le> length p"
  using length_dropWhile_le[of P "rev p"] by simp

lemma dirname_shorter: "is_stop_dir (dirname p) \<or> length (dirname p) < length p"
proof -
  define q where "q = rev (dropWhile (\<lambda>c. c = CHR ''/'') (rev p))"
  define d where "d = rev (dropWhile (\<lambda>c. c = CHR ''/'') (rev (last_slash_prefix q)))"
  have "length d \<le> length (last_slash_prefix q)" unfolding d_def by (rule length_rev_dropWhile)
  moreover have "length (last_slash_prefix q) < length q" if "q \<noteq> []"
  proof -
    have "length (last_slash_prefix q) = length (dropWhile (\<lambda>c. c \<noteq> CHR ''/'') (rev q)) - 1"
      by (simp add: last_slash_prefix_def)
    moreover have "length (dropWhile (\<lambda>c. c \<noteq> CHR ''/'') (rev q)) \<le> length q"
      using length_dropWhile_le[of _ "rev q"] by simp
    moreover have "0 < length q" using that by simp
    ultimately show ?thesis by linarith
  qed
  moreover have "length q \<le> length p" unfolding q_def by (rule length_rev_dropWhile)
  ultimately show ?thesis
    unfolding dirname_def Let_def q_def[symmetric] d_def[symmetric] is_stop_dir_def by auto
qed

function nearest_404 :: "assets \<Rightarrow> file_system \<Rightarrow> string \<Rightarrow> string option" where
  "nearest_404 a fs dir =
     (let candidate = path_join [as_directory a, dir, ''404.html'']
      in if fs_exists fs candidate then Some candidate
         else if is_stop_dir dir then None
         else nearest_404 a fs (dirname dir))"
  by auto
termination
proof (relation "measure (\<lambda>(_, _, d). if is_stop_dir d then 0 else Suc (length d))")
  fix a :: assets and fs :: file_system and dir x
  assume "\<not> is_stop_dir dir"
  with dirname_shorter[of dir] show "((a, fs, dirname dir), a, fs, dir) \<in>
      measure (\<lambda>(_, _, d). if is_stop_dir d then 0 else Suc (length d))"
    by (simp only: in_measure prod.case if_False split: if_split) linarith
qed simp

declare nearest_404.simps [simp del]

definition findNearest404 :: "assets \<Rightarrow> file_system \<Rightarrow> string \<Rightarrow> string option" where
  "findNearest404 a fs pathname =
     nearest_404 a fs (if ends_with pathname ''/'' then pathname else dirname pathname)"

definition header_delete :: "string \<Rightarrow> (string \<times> string) list \<Rightarrow> (string \<times> string) list" where
  "header_delete name hs = filter (\<lambda>(k, v). k \<noteq> to_lower name) hs"

definition apply_header_rule :: "string \<Rightarrow> (string \<times> string) list \<Rightarrow> header_rule \<Rightarrow> (string \<times> string) list" where
  "apply_header_rule pathname hs rule =
     (if matchPattern (hr_pattern rule) pathname
      then foldl (\<lambda>hs n. header_delete n hs)
             (foldl (\<lambda>hs (k, v). obj_set hs (to_lower k) v) hs (js_entries (hr_headers rule)))
             (hr_removals rule)
      else hs)"

definition cache_control :: "string \<times> string" where
  "cache_control = (''cache-control'', ''public, max-age=0, must-revalidate'')"

definition serveFile ::
    "assets \<Rightarrow> file_system \<Rightarrow> string \<Rightarrow> nat \<Rightarrow> assets_request option \<Rightarrow> string \<Rightarrow> rule_caches
     \<Rightarrow> assets_response \<times> rule_caches" where
  "serveFile a fs path status request pathname ca =
     (let etag = fs_etag fs path;
          ifNoneMatch = (case request of None \<Rightarrow> None | Some r \<Rightarrow> map_of (rq_headers r) ''if-none-match'')
      in if ifNoneMatch = Some etag \<and> etag \<noteq> ''''
         then (\<lparr>rs_status = 304, rs_headers = [(''etag'', etag), cache_control], rs_file = None\<rparr>, ca)
         else (let hs = [(''content-type'', fs_type fs path), (''etag'', etag), cache_control];
                   (hs', ca') = (if pathname = '''' then (hs, ca)
                     else (let (rules, ca1) = getHeaderRules a fs ca
                           in (foldl (apply_header_rule pathname) hs rules, ca1)))
               in (\<lparr>rs_status = status, rs_headers = hs', rs_file = Some path\<rparr>, ca')))"

definition plain_response :: "nat \<Rightarrow> assets_response" where
  "plain_response status = \<lparr>rs_status = status, rs_headers = [], rs_file = None\<rparr>"

text \<open>What follows the redirect rules, for the path they leave.\<close>

definition fetch_path ::
    "assets \<Rightarrow> (string \<Rightarrow> string) \<Rightarrow> file_system \<Rightarrow> assets_request option \<Rightarrow> string \<Rightarrow> string \<Rightarrow> rule_caches
     \<Rightarrow> assets_response \<times> rule_caches" where
  "fetch_path a resolve_url fs request pathname search ca =
     (if includes_str pathname ''..'' then (plain_response 400, ca)
      else if \<not> starts_with (path_resolve (as_directory a) (CHR ''.'' # pathname)) (as_directory a)
      then (plain_response 400, ca)
      else if as_htmlHandling a = ForceTrailingSlash \<and> \<not> ends_with pathname ''/'' \<and> pathname \<noteq> ''/''
              \<and> \<not> has_extname pathname
      then (location_response 307 (resolve_url (pathname @ ''/'' @ search)), ca)
      else if as_htmlHandling a = DropTrailingSlash \<and> ends_with pathname ''/'' \<and> pathname \<noteq> ''/''
      then (location_response 307 (resolve_url (butlast pathname @ search)), ca)
      else (case resolveFile a fs pathname of
              Some path \<Rightarrow> serveFile a fs path 200 request pathname ca
            | None \<Rightarrow>
                (let indexPath = path_join [as_directory a, ''index.html'']
                 in if as_notFoundHandling a = SinglePageApplication \<and> fs_exists fs indexPath
                    then serveFile a fs indexPath 200 request pathname ca
                    else (case (if as_notFoundHandling a = NotFound404Page then findNearest404 a fs pathname else None) of
                            Some path \<Rightarrow> serveFile a fs path 404 request pathname ca
                          | None \<Rightarrow> (plain_response 404, ca)))))"

definition fetch ::
    "assets \<Rightarrow> (string \<Rightarrow> string) \<Rightarrow> file_system \<Rightarrow> assets_request option \<Rightarrow> string \<Rightarrow> string \<Rightarrow> rule_caches
     \<Rightarrow> assets_response \<times> rule_caches" where
  "fetch a resolve_url fs request pathname search ca =
     (case applyRedirects a resolve_url fs pathname search ca of
        (Redirected r, ca') \<Rightarrow> (r, ca')
      | (Rewritten p, ca') \<Rightarrow> fetch_path a resolve_url fs request p search ca'
      | (NoRedirect, ca') \<Rightarrow> fetch_path a resolve_url fs request pathname search ca')"

end
