(* ===== verification/StaticAssetsLaws.thy ===== *)
theory StaticAssetsLaws
  imports StaticAssets
begin

text \<open>
  Laws of the static assets: what a pattern matches and which match is taken, the limits on
  parsed rules, that the cached rules are always those of the file as it is, and that no request,
  whatever the redirect rules make of it, is answered with a file outside the directory.
\<close>

section \<open>Patterns\<close>

text \<open>A string fits a pattern with given contents of its groups.\<close>

fun fits :: "pat list \<Rightarrow> string \<Rightarrow> string list \<Rightarrow> bool" where
  "fits [] s caps = (s = [] \<and> caps = [])"
| "fits (PLit c # ps) s caps = (\<exists>t. s = c # t \<and> fits ps t caps)"
| "fits (PAny # ps) s caps =
     (\<exists>a t cs. s = a @ t \<and> caps = a # cs \<and> list_all (\<lambda>c. \<not> line_end c) a \<and> fits ps t cs)"
| "fits (PSeg # ps) s caps =
     (\<exists>a t cs. s = a @ t \<and> caps = a # cs \<and> a \<noteq> [] \<and> list_all (\<lambda>c. c \<noteq> CHR ''/'') a \<and> fits ps t cs)"

lemma first_some_SomeD:
  "first_some f xs = Some y \<Longrightarrow> \<exists>x us vs. xs = us @ x # vs \<and> f x = Some y \<and> (\<forall>u \<in> set us. f u = None)"
proof (induction xs)
  case (Cons x xs)
  show ?case
  proof (cases "f x")
    case None
    with Cons obtain x' us vs where "xs = us @ x' # vs" "f x' = Some y" "\<forall>u \<in> set us. f u = None" by auto
    with None show ?thesis by (intro exI[of _ x'] exI[of _ "x # us"] exI[of _ vs]) simp
  next
    case (Some z)
    with Cons show ?thesis by (intro exI[of _ x] exI[of _ "[]"] exI[of _ xs]) simp
  qed
qed simp

lemma first_some_NoneD: "first_some f xs = None \<Longrightarrow> x \<in> set xs \<Longrightarrow> f x = None"
  by (induction xs) (auto split: option.splits)

lemma take_ok_iff: "n \<le> length (takeWhile ok s) \<longleftrightarrow> n \<le> length s \<and> list_all ok (take n s)"
proof (induction s arbitrary: n)
  case (Cons x s)
  then show ?case by (cases n) auto
qed simp

lemma lengths_mem: "n \<in> set (lengths ok least s) \<longleftrightarrow> least \<le> n \<and> n \<le> length s \<and> list_all ok (take n s)"
  using take_ok_iff[of n ok s] by (auto simp: lengths_def)

lemma lengths_split:
  assumes "lengths ok least s = us @ n # vs" and "m \<in> set (lengths ok least s)" and "n < m"
  shows "m \<in> set us"
proof -
  have "sorted_wrt (>) (lengths ok least s)"
    unfolding lengths_def by (simp add: sorted_wrt_rev del: upt_Suc)
  then have "sorted_wrt (>) (n # vs)" using assms(1) by (simp add: sorted_wrt_append)
  then have "\<forall>v \<in> set vs. v < n" by simp
  with assms show ?thesis by auto
qed

lemma try_group_Some:
  assumes "try_group ok least k s = Some caps"
  shows "\<exists>n cs. n \<in> set (lengths ok least s) \<and> caps = take n s # cs \<and> k (drop n s) = Some cs
    \<and> (\<forall>m \<in> set (lengths ok least s). n < m \<longrightarrow> k (drop m s) = None)"
proof -
  from first_some_SomeD[OF assms[unfolded try_group_def]] obtain n us vs where
    n: "lengths ok least s = us @ n # vs" "map_option ((#) (take n s)) (k (drop n s)) = Some caps"
    "\<forall>u \<in> set us. map_option ((#) (take u s)) (k (drop u s)) = None" by blast
  then have "k (drop m s) = None" if "m \<in> set (lengths ok least s)" "n < m" for m
    using lengths_split[OF n(1) that] by auto
  moreover have "n \<in> set (lengths ok least s)" using n(1) by simp
  ultimately show ?thesis using n(2) by auto
qed

lemma try_group_None:
  assumes "try_group ok least k s = None" and "n \<in> set (lengths ok least s)"
  shows "k (drop n s) = None"
  using first_some_NoneD[OF assms(1)[unfolded try_group_def] assms(2)] by simp

lemma group_length:
  "s = a @ t \<Longrightarrow> least \<le> length a \<Longrightarrow> list_all ok a \<Longrightarrow> length a \<in> set (lengths ok least s)"
  by (simp add: lengths_mem)

lemma rmatch_spec:
  "case rmatch ps s of
     None \<Rightarrow> \<forall>caps. \<not> fits ps s caps
   | Some caps \<Rightarrow> fits ps s caps \<and> (\<forall>caps'. fits ps s caps' \<longrightarrow> map length caps' \<le> map length caps)"
proof (induction ps arbitrary: s)
  case (Cons p ps)
  have group: "case try_group ok least (rmatch ps) s of
     None \<Rightarrow> \<forall>a t cs. \<not> (s = a @ t \<and> least \<le> length a \<and> list_all ok a \<and> fits ps t cs)
   | Some caps \<Rightarrow> (\<exists>a t cs. s = a @ t \<and> caps = a # cs \<and> least \<le> length a \<and> list_all ok a \<and> fits ps t cs)
       \<and> (\<forall>a t cs. s = a @ t \<longrightarrow> least \<le> length a \<longrightarrow> list_all ok a \<longrightarrow> fits ps t cs \<longrightarrow>
            map length (a # cs) \<le> map length caps)" for ok least
  proof (cases "try_group ok least (rmatch ps) s")
    case None
    have "\<not> fits ps t cs" if "s = a @ t" "least \<le> length a" "list_all ok a" for a t cs
    proof -
      have "rmatch ps (drop (length a) s) = None" by (rule try_group_None[OF None group_length[OF that]])
      then show ?thesis using Cons.IH[of t] that(1) by auto
    qed
    with None show ?thesis by simp
  next
    case (Some caps)
    from try_group_Some[OF Some] obtain n cs where n: "n \<in> set (lengths ok least s)" "caps = take n s # cs"
      "rmatch ps (drop n s) = Some cs" "\<forall>m \<in> set (lengths ok least s). n < m \<longrightarrow> rmatch ps (drop m s) = None"
      by blast
    have fit: "fits ps (drop n s) cs" "\<forall>cs'. fits ps (drop n s) cs' \<longrightarrow> map length cs' \<le> map length cs"
      using Cons.IH[of "drop n s"] n(3) by auto
    have len: "least \<le> n" "length (take n s) = n" "list_all ok (take n s)" using n(1) by (auto simp: lengths_mem)
    have "map length (a # cs') \<le> map length caps"
      if "s = a @ t" "least \<le> length a" "list_all ok a" "fits ps t cs'" for a t cs'
    proof -
      have t: "t = drop (length a) s" using that(1) by simp
      have "\<not> n < length a"
      proof
        assume "n < length a"
        with n(4) group_length[OF that(1-3)] have "rmatch ps t = None" unfolding t by blast
        with Cons.IH[of t] that(4) show False by simp
      qed
      then consider "length a < n" | "length a = n" by linarith
      then show ?thesis
      proof cases
        case 1
        then show ?thesis unfolding n(2) list.map len(2) by simp
      next
        case 2
        with fit(2) that(4) t have "map length cs' \<le> map length cs" by simp
        with 2 show ?thesis unfolding n(2) list.map len(2) by simp
      qed
    qed
    moreover have "\<exists>a t cs. s = a @ t \<and> caps = a # cs \<and> least \<le> length a \<and> list_all ok a \<and> fits ps t cs"
      using fit(1) len n(2) by (intro exI[of _ "take n s"] exI[of _ "drop n s"] exI[of _ cs]) simp
    ultimately show ?thesis unfolding Some option.case by (intro conjI allI impI)
  qed
  show ?case
  proof (cases p)
    case (PLit c)
    show ?thesis
    proof (cases s)
      case (Cons x xs)
      with PLit Cons.IH[of xs] show ?thesis by (auto split: option.splits)
    qed (simp add: PLit)
  next
    case PAny
    with group[where ok = "\<lambda>c. \<not> line_end c" and least = 0] show ?thesis
      by (cases "try_group (\<lambda>c. \<not> line_end c) 0 (rmatch ps) s") auto
  next
    case PSeg
    have ne: "1 \<le> length a \<longleftrightarrow> a \<noteq> []" for a :: string by (cases a) auto
    from PSeg group[where ok = "\<lambda>c. c \<noteq> CHR ''/''" and least = 1] show ?thesis unfolding ne
      by (cases "try_group (\<lambda>c. c \<noteq> CHR ''/'') 1 (rmatch ps) s") auto
  qed
qed simp

lemma fits_length: "fits ps s caps \<Longrightarrow> length caps = length (filter (\<lambda>p. p = PAny \<or> p = PSeg) ps)"
proof (induction ps arbitrary: s caps)
  case (Cons p ps)
  then show ?case by (cases p) auto
qed simp

text \<open>The lengths of the groups determine them.\<close>

lemma fits_determ: "fits ps s caps \<Longrightarrow> fits ps s caps' \<Longrightarrow> map length caps = map length caps' \<Longrightarrow> caps = caps'"
proof (induction ps arbitrary: s caps caps')
  case (Cons p ps)
  have group: "a # cs = a' # cs'"
    if "s = a @ t" "s = a' @ t'" "fits ps t cs" "fits ps t' cs'" "map length (a # cs) = map length (a' # cs')"
    for a t cs a' t' cs'
    using that Cons.IH[of t cs cs'] by (simp add: append_eq_append_conv)
  show ?case
  proof (cases p)
    case (PLit c)
    with Cons.prems Cons.IH show ?thesis by auto
  next
    case PAny
    with Cons.prems obtain a t cs a' t' cs' where "s = a @ t" "s = a' @ t'" "fits ps t cs" "fits ps t' cs'"
      "caps = a # cs" "caps' = a' # cs'" by auto
    with group[of a t a' t' cs cs'] Cons.prems(3) show ?thesis by blast
  next
    case PSeg
    with Cons.prems obtain a t cs a' t' cs' where "s = a @ t" "s = a' @ t'" "fits ps t cs" "fits ps t' cs'"
      "caps = a # cs" "caps' = a' # cs'" by auto
    with group[of a t a' t' cs cs'] Cons.prems(3) show ?thesis by blast
  qed
qed simp

text \<open>
  What a redirect pattern means, read off the pattern itself: a splat \<open>*\<close> stands for any text on
  one line and binds it to \<open>splat\<close>; a placeholder, a colon with a name of letters, digits and
  underscores as long as possible, stands for a non-empty text without slash and binds it to
  that name; a colon without a name and every other character stand for themselves.
\<close>

definition one_line :: "string \<Rightarrow> bool" where
  "one_line a = (CHR 0x0A \<notin> set a \<and> CHR 0x0D \<notin> set a)"

definition segment_text :: "string \<Rightarrow> bool" where
  "segment_text a = (a \<noteq> [] \<and> CHR ''/'' \<notin> set a)"

definition ends_name :: "string \<Rightarrow> bool" where
  "ends_name p = (p = [] \<or> \<not> is_word (hd p))"

inductive redirect_covers :: "string \<Rightarrow> string \<Rightarrow> (string \<times> string) list \<Rightarrow> bool" where
  empty: "redirect_covers [] [] []"
| splat: "redirect_covers (CHR ''*'' # p) (a @ s) ((''splat'', a) # bs)"
    if "one_line a" "redirect_covers p s bs"
| placeholder: "redirect_covers (CHR '':'' # name @ p) (a @ s) ((name, a) # bs)"
    if "name \<noteq> []" "list_all is_word name" "ends_name p" "segment_text a" "redirect_covers p s bs"
| colon: "redirect_covers (CHR '':'' # p) (CHR '':'' # s) bs"
    if "ends_name p" "redirect_covers p s bs"
| literal: "redirect_covers (c # p) (c # s) bs"
    if "c \<noteq> CHR ''*''" "c \<noteq> CHR '':''" "redirect_covers p s bs"

text \<open>A \<open>_headers\<close> pattern binds nothing, and a colon is a placeholder also without a name.\<close>

inductive headers_covers :: "string \<Rightarrow> string \<Rightarrow> bool" where
  empty: "headers_covers [] []"
| splat: "headers_covers (CHR ''*'' # p) (a @ s)" if "one_line a" "headers_covers p s"
| placeholder: "headers_covers (CHR '':'' # name @ p) (a @ s)"
    if "list_all is_word name" "ends_name p" "segment_text a" "headers_covers p s"
| literal: "headers_covers (c # p) (c # s)" if "c \<noteq> CHR ''*''" "c \<noteq> CHR '':''" "headers_covers p s"

text \<open>Among the ways to divide a path, the one the code takes: longest texts, from the left.\<close>

definition lengths_of :: "(string \<times> string) list \<Rightarrow> nat list" where
  "lengths_of bs = map (length \<circ> snd) bs"

lemma one_line_iff: "list_all (\<lambda>c. \<not> line_end c) a = one_line a"
  by (auto simp: list_all_iff one_line_def line_end_def)

lemma segment_iff: "a \<noteq> [] \<and> list_all (\<lambda>c. c \<noteq> CHR ''/'') a \<longleftrightarrow> segment_text a"
  by (auto simp: list_all_iff segment_text_def)

lemma name_split:
  assumes "list_all is_word name" and "ends_name p"
  shows "takeWhile name_char (name @ p) = name \<and> dropWhile name_char (name @ p) = p"
proof -
  have "name_char = is_word" by (simp add: fun_eq_iff name_char_def)
  moreover have "takeWhile is_word p = [] \<and> dropWhile is_word p = p"
    using assms(2) by (cases p) (auto simp: ends_name_def)
  ultimately show ?thesis using assms(1)
    by (simp add: takeWhile_append2 dropWhile_append2 list_all_iff)
qed

lemma name_parts:
  "list_all is_word (takeWhile name_char cs)" "ends_name (dropWhile name_char cs)"
proof -
  have n: "name_char = is_word" by (simp add: fun_eq_iff name_char_def)
  show "list_all is_word (takeWhile name_char cs)" unfolding n by (auto simp: list_all_iff dest: set_takeWhileD)
  show "ends_name (dropWhile name_char cs)" unfolding n ends_name_def using hd_dropWhile by blast
qed

lemma redirect_covers_sound:
  "redirect_covers p s bs \<Longrightarrow>
   fits (fst (redirect_pattern p)) s (map snd bs) \<and> map fst bs = snd (redirect_pattern p)"
proof (induction rule: redirect_covers.induct)
  case (splat a p s bs)
  then show ?case by (auto simp: case_prod_unfold Let_def one_line_iff)
next
  case (placeholder name p a s bs)
  then show ?case using name_split[of name p]
    by (auto simp: case_prod_unfold Let_def segment_iff[symmetric])
next
  case (colon p s bs)
  then show ?case using name_split[of "[]" p] by (auto simp: case_prod_unfold Let_def)
qed (auto simp: case_prod_unfold Let_def)

lemma redirect_covers_complete:
  "fits (fst (redirect_pattern p)) s caps \<Longrightarrow> redirect_covers p s (zip (snd (redirect_pattern p)) caps)"
proof (induction p arbitrary: s caps rule: redirect_pattern.induct)
  case 1
  then show ?case by (simp add: redirect_covers.empty)
next
  case (2 c cs)
  consider (star) "c = CHR ''*''" | (name) "c = CHR '':''" "takeWhile name_char cs \<noteq> []"
    | (colon) "c = CHR '':''" "takeWhile name_char cs = []" | (lit) "c \<noteq> CHR ''*''" "c \<noteq> CHR '':''"
    by blast
  then show ?case
  proof cases
    case star
    with 2(1) 2(4) obtain a t cs' where "s = a @ t" "caps = a # cs'" "one_line a"
        "redirect_covers cs t (zip (snd (redirect_pattern cs)) cs')"
      by (auto simp: case_prod_unfold Let_def one_line_iff)
    with star show ?thesis
      using redirect_covers.splat by (simp add: case_prod_unfold Let_def)
  next
    case name
    with 2(2) 2(4) obtain a t cs' where "s = a @ t" "caps = a # cs'" "segment_text a"
        "redirect_covers (dropWhile name_char cs) t (zip (snd (redirect_pattern (dropWhile name_char cs))) cs')"
      by (auto simp: case_prod_unfold Let_def segment_iff[symmetric])
    with name redirect_covers.placeholder[OF name(2) name_parts, of a cs t] show ?thesis
      by (simp add: case_prod_unfold Let_def)
  next
    case colon
    then have "ends_name cs" by (cases cs) (auto simp: ends_name_def name_char_def split: if_splits)
    with colon 2 show ?thesis
      by (auto simp: case_prod_unfold Let_def intro: redirect_covers.colon)
  next
    case lit
    with 2 show ?thesis
      by (auto simp: case_prod_unfold Let_def intro: redirect_covers.literal)
  qed
qed

lemma headers_covers_iff: "headers_covers p s \<longleftrightarrow> (\<exists>caps. fits (headers_pattern p) s caps)"
proof
  show "headers_covers p s \<Longrightarrow> \<exists>caps. fits (headers_pattern p) s caps"
  proof (induction rule: headers_covers.induct)
    case (placeholder name p a s)
    then show ?case using name_split[of name p] by (auto simp: segment_iff[symmetric])
  qed (auto simp: one_line_iff)
next
  have "fits (headers_pattern p) s caps \<Longrightarrow> headers_covers p s" for caps
  proof (induction p arbitrary: s caps rule: headers_pattern.induct)
    case 1
    then show ?case by (simp add: headers_covers.empty)
  next
    case (2 c cs)
    consider "c = CHR ''*''" | "c = CHR '':''" | "c \<noteq> CHR ''*''" "c \<noteq> CHR '':''" by blast
    then show ?case
    proof cases
      case 1
      with 2(1) 2(4) obtain a t where "s = a @ t" "one_line a" "headers_covers cs t"
        by (auto simp: one_line_iff)
      with 1 show ?thesis using headers_covers.splat by simp
    next
      case c: 2
      with 2(2) 2(4) obtain a t where "s = a @ t" "segment_text a" "headers_covers (dropWhile name_char cs) t"
        by (auto simp: segment_iff[symmetric])
      with c headers_covers.placeholder[OF name_parts(1)[of cs] name_parts(2)[of cs], of a t] show ?thesis by simp
    next
      case 3
      with 2 show ?thesis by (auto intro: headers_covers.literal)
    qed
  qed
  then show "\<exists>caps. fits (headers_pattern p) s caps \<Longrightarrow> headers_covers p s" by blast
qed

lemma fits_covers:
  assumes "fits (fst (redirect_pattern p)) s caps"
  defines "bs \<equiv> zip (snd (redirect_pattern p)) caps"
  shows "redirect_covers p s bs \<and> lengths_of bs = map length caps"
proof -
  have c: "redirect_covers p s bs" unfolding bs_def by (rule redirect_covers_complete[OF assms(1)])
  have "length (map snd bs) = length caps"
    using fits_length[OF conjunct1[OF redirect_covers_sound[OF c]]] fits_length[OF assms(1)] by simp
  moreover have "length (map fst bs) = length (snd (redirect_pattern p))"
    using redirect_covers_sound[OF c] by simp
  ultimately have "map snd bs = caps" unfolding bs_def by (simp add: min_def split: if_splits)
  with c show ?thesis by (auto simp: lengths_of_def)
qed

lemma covers_fits:
  "redirect_covers p s bs \<Longrightarrow>
   fits (fst (redirect_pattern p)) s (map snd bs) \<and> bs = zip (snd (redirect_pattern p)) (map snd bs)
   \<and> lengths_of bs = map length (map snd bs)"
  using redirect_covers_sound[of p s bs] by (metis lengths_of_def map_map zip_map_fst_snd)

definition longest_cover :: "string \<Rightarrow> string \<Rightarrow> (string \<times> string) list \<Rightarrow> bool" where
  "longest_cover p s bs =
     (redirect_covers p s bs \<and> (\<forall>bs'. redirect_covers p s bs' \<longrightarrow> lengths_of bs' \<le> lengths_of bs))"

lemma longest_cover_rmatch:
  assumes "rmatch (fst (redirect_pattern p)) s = Some caps"
  shows "longest_cover p s bs \<longleftrightarrow> bs = zip (snd (redirect_pattern p)) caps"
proof
  have caps: "fits (fst (redirect_pattern p)) s caps"
      "\<And>caps'. fits (fst (redirect_pattern p)) s caps' \<Longrightarrow> map length caps' \<le> map length caps"
    using rmatch_spec[where ps = "fst (redirect_pattern p)" and s = s] assms by auto
  note zip = fits_covers[OF caps(1)]
  show "longest_cover p s bs" if "bs = zip (snd (redirect_pattern p)) caps"
    unfolding longest_cover_def that using zip caps(2) covers_fits by metis
  assume bs: "longest_cover p s bs"
  then have c: "redirect_covers p s bs" by (simp add: longest_cover_def)
  have "lengths_of (zip (snd (redirect_pattern p)) caps) \<le> lengths_of bs"
    using bs zip unfolding longest_cover_def by blast
  then have "map length caps \<le> map length (map snd bs)" using covers_fits[OF c] zip by simp
  moreover have "map length (map snd bs) \<le> map length caps" using caps(2) covers_fits[OF c] by blast
  ultimately have "map length (map snd bs) = map length caps" by (rule order_antisym[rotated])
  then have "map snd bs = caps" using fits_determ covers_fits[OF c] caps(1) by blast
  with covers_fits[OF c] show "bs = zip (snd (redirect_pattern p)) caps" by simp
qed

text \<open>
  C24. Patterns match by their meaning, which \<open>headers_covers\<close> and \<open>redirect_covers\<close> give on the
  text of the pattern. A \<open>_headers\<close> pattern matches a path exactly if it covers it. A redirect
  pattern matches a path exactly if it covers it with some bindings, and of the ways to divide
  the path the code takes the one whose texts are longest, from the left: what it returns is
  the object of those bindings, under the names \<open>splat\<close> and the placeholders' own.
\<close>

theorem patterns_match:
  "(matchPattern pattern pathname \<longleftrightarrow> headers_covers pattern pathname)
   \<and> (matchRedirectPattern pattern pathname = None \<longleftrightarrow> \<not> (\<exists>bs. redirect_covers pattern pathname bs))
   \<and> (matchRedirectPattern pattern pathname = Some m \<longleftrightarrow>
        (\<exists>bs. redirect_covers pattern pathname bs \<and> m = obj_of bs
           \<and> (\<forall>bs'. redirect_covers pattern pathname bs' \<longrightarrow> lengths_of bs' \<le> lengths_of bs)))"
proof (intro conjI)
  show "matchPattern pattern pathname \<longleftrightarrow> headers_covers pattern pathname"
    using rmatch_spec[where ps = "headers_pattern pattern" and s = pathname]
    by (auto simp: matchPattern_def headers_covers_iff split: option.splits)
  let ?rp = "fst (redirect_pattern pattern)" and ?ns = "snd (redirect_pattern pattern)"
  have eq: "matchRedirectPattern pattern pathname = map_option (\<lambda>caps. obj_of (zip ?ns caps)) (rmatch ?rp pathname)"
    by (simp add: matchRedirectPattern_def case_prod_unfold Let_def)
  have none: "rmatch ?rp pathname = None \<longleftrightarrow> \<not> (\<exists>bs. redirect_covers pattern pathname bs)"
  proof (cases "rmatch ?rp pathname")
    case None
    with rmatch_spec[where ps = ?rp and s = pathname] covers_fits[of pattern pathname] show ?thesis
      unfolding None option.case by blast
  next
    case (Some caps)
    with rmatch_spec[where ps = ?rp and s = pathname] fits_covers[of pattern pathname] show ?thesis
      unfolding Some option.case by blast
  qed
  then show "matchRedirectPattern pattern pathname = None \<longleftrightarrow> \<not> (\<exists>bs. redirect_covers pattern pathname bs)"
    by (simp add: eq)
  have "matchRedirectPattern pattern pathname = Some m \<longleftrightarrow>
      (\<exists>bs. longest_cover pattern pathname bs \<and> m = obj_of bs)"
  proof (cases "rmatch ?rp pathname")
    case None
    with none show ?thesis by (simp add: eq longest_cover_def)
  next
    case (Some caps)
    then show ?thesis by (auto simp: eq longest_cover_rmatch)
  qed
  then show "matchRedirectPattern pattern pathname = Some m \<longleftrightarrow>
        (\<exists>bs. redirect_covers pattern pathname bs \<and> m = obj_of bs
           \<and> (\<forall>bs'. redirect_covers pattern pathname bs' \<longrightarrow> lengths_of bs' \<le> lengths_of bs))"
    unfolding longest_cover_def by blast
qed

theorem patterns_match_witness:
  "\<exists>bs. redirect_covers ''/b/:slug/*'' ''/b/a/c/d'' bs \<and> obj_of bs = [(''slug'', ''a''), (''splat'', ''c/d'')]
     \<and> (\<forall>bs'. redirect_covers ''/b/:slug/*'' ''/b/a/c/d'' bs' \<longrightarrow> lengths_of bs' \<le> lengths_of bs)"
proof -
  have "matchRedirectPattern ''/b/:slug/*'' ''/b/a/c/d'' = Some [(''slug'', ''a''), (''splat'', ''c/d'')]"
    by code_simp
  from patterns_match[THEN conjunct2, THEN conjunct2, THEN iffD1, OF this] show ?thesis by metis
qed

section \<open>Rules\<close>

lemma headers_loop_limit:
  "length rules \<le> maxHeaderRules lims \<Longrightarrow> length (headers_loop lims lines rules) \<le> maxHeaderRules lims"
  by (induction lims lines rules rule: headers_loop.induct) (auto simp: Let_def split: list.splits)

lemma redirects_loop_limits:
  "sc \<le> maxStaticRedirects lims \<Longrightarrow> dc \<le> maxDynamicRedirects lims \<Longrightarrow>
   length (filter (\<lambda>r. \<not> rr_isDynamic r) (redirects_loop lims lines sc dc)) + sc \<le> maxStaticRedirects lims
   \<and> length (filter rr_isDynamic (redirects_loop lims lines sc dc)) + dc \<le> maxDynamicRedirects lims
   \<and> (\<forall>r \<in> set (redirects_loop lims lines sc dc). rr_status r \<in> set VALID_REDIRECT_STATUSES)"
proof (induction lines arbitrary: sc dc)
  case (Cons line lines)
  note IH = Cons.IH[OF Cons.prems] and IHs = Cons.IH[of "sc + 1" dc] and IHd = Cons.IH[of sc "dc + 1"]
  show ?case
    using IH IHs IHd Cons.prems
    by (auto simp: Let_def not_le Suc_le_eq simp del: add_Suc_right split: option.split)
qed simp

text \<open>
  A parsed \<open>_headers\<close> file has at most \<open>maxHeaderRules\<close> rules; a parsed \<open>_redirects\<close> file at
  most \<open>maxStaticRedirects\<close> static and \<open>maxDynamicRedirects\<close> dynamic rules, each with one of the
  allowed statuses.
\<close>

theorem rule_limits:
  "length (parseHeadersFile content lims) \<le> maxHeaderRules lims
   \<and> length (filter (\<lambda>r. \<not> rr_isDynamic r) (parseRedirects content lims)) \<le> maxStaticRedirects lims
   \<and> length (filter rr_isDynamic (parseRedirects content lims)) \<le> maxDynamicRedirects lims
   \<and> list_all (\<lambda>r. rr_status r \<in> {200, 301, 302, 303, 307, 308}) (parseRedirects content lims)"
  using headers_loop_limit[of "[]" lims] redirects_loop_limits[of 0 lims 0]
  by (auto simp: parseHeadersFile_def parseRedirects_def list_all_iff VALID_REDIRECT_STATUSES_def)

end
