(* ===== verification/SqlTokens.thy ===== *)
theory SqlTokens
  imports Json
begin

text \<open>
  The tokenizer of the Analytics Engine SQL API, \<^verbatim>\<open>tokenize\<close> of
  \<^verbatim>\<open>src/bindings/analytics-engine-sql.ts\<close>, the numbers of the query language, and the errors of
  the whole translation.

  The loop over the index \<open>i\<close> is a recursion on the rest of the text; \<open>i\<close> stays an argument,
  because tokens carry their positions. Numbers are exact decimals: a literal of at most fifteen
  digits, not below a millionth, is printed by \<open>String(Number(s))\<close> as the model prints it.
\<close>

section \<open>Errors\<close>

datatype sql_error =
    UnexpectedChar char nat
  | EndOfQuery
  | ExpectedKeyword string "string option"
  | ExpectedLimitNumber string
  | UnsupportedKeyword string
  | UnexpectedToken string
  | ExpectedDataset string
  | ExpectedInParen
  | ExpectedInClose
  | ExpectedParen
  | BadIntervalAmount string
  | BadIntervalUnit string
  | ExpectedArgsClose string
  | BadDateTime string
  | UnknownColumn string
  | WrongArity string nat nat "nat option" \<comment> \<open>the function, what it got, what it expects\<close>
  | TimezoneExpected string nat
  | OnlyUtc string string
  | ModeLiteralRequired string nat
  | QuantileOnlyInSelect string
  | NestedAggregate string
  | IntervalRequired
  | BadWeekMode
  | BadDayMode
  | UnknownFunction string
  | LevelRequired string
  | LevelOutOfRange string
  | ValueRequired string
  | StarWithQuantiles
  | AggregateInWhere
  | AggregateInGroupBy
  | OrderByNotSelected
  | OutOfFuel

section \<open>Numbers\<close>

datatype dec = Dec int nat \<comment> \<open>\<open>Dec n k\<close> is \<open>n / 10 ^ k\<close>\<close>

fun norm_dec :: "int \<Rightarrow> nat \<Rightarrow> dec" where
  "norm_dec n 0 = Dec n 0"
| "norm_dec n (Suc k) = (if n mod 10 = 0 then norm_dec (n div 10) k else Dec n (Suc k))"

fun dec_wf :: "dec \<Rightarrow> bool" where
  "dec_wf (Dec n k) = (k = 0 \<or> n mod 10 \<noteq> 0)"

fun dec_times :: "dec \<Rightarrow> int \<Rightarrow> dec" where
  "dec_times (Dec n k) m = norm_dec (n * m) k"

text \<open>\<open>String(n)\<close>\<close>

fun show_dec :: "dec \<Rightarrow> string" where
  "show_dec (Dec n k) =
     (if k = 0 then show_int n
      else (let s = show_nat (nat \<bar>n\<bar>); p = replicate (Suc k - length s) CHR ''0'' @ s;
                body = take (length p - k) p @ ''.'' @ drop (length p - k) p
            in if n < 0 then CHR ''-'' # body else body))"

text \<open>
  \<open>Number(s)\<close> on decimal literals, \<open>None\<close> for \<open>NaN\<close>: white space around, a sign, digits with at
  most one point, an exponent. The literals in another base and \<open>Infinity\<close> are not modelled.
\<close>

definition parse_exponent :: "string \<Rightarrow> int option" where
  "parse_exponent s =
     (let neg = (s \<noteq> [] \<and> hd s = CHR ''-'');
          ds = (if s \<noteq> [] \<and> (hd s = CHR ''-'' \<or> hd s = CHR ''+'') then tl s else s)
      in if ds \<noteq> [] \<and> list_all is_digit ds
         then Some (if neg then - int (digits_val ds) else int (digits_val ds)) else None)"

definition parse_unsigned :: "string \<Rightarrow> dec option" where
  "parse_unsigned s =
     (let ip = takeWhile is_digit s; r = dropWhile is_digit s;
          dot = (r \<noteq> [] \<and> hd r = CHR ''.'');
          fp = (if dot then takeWhile is_digit (tl r) else []);
          r' = (if dot then dropWhile is_digit (tl r) else r);
          n = int (digits_val (ip @ fp)); k = length fp
      in if ip = [] \<and> fp = [] then None
         else if r' = [] then Some (norm_dec n k)
         else if hd r' = CHR ''e'' \<or> hd r' = CHR ''E''
         then map_option (\<lambda>x. if int k \<le> x then Dec (n * 10 ^ nat (x - int k)) 0
                              else norm_dec n (nat (int k - x))) (parse_exponent (tl r'))
         else None)"

fun neg_dec :: "dec \<Rightarrow> dec" where
  "neg_dec (Dec n k) = Dec (- n) k"

definition js_number :: "string \<Rightarrow> dec option" where
  "js_number s =
     (let t = trim s
      in if t = [] then Some (Dec 0 0)
         else if hd t = CHR ''-'' then map_option neg_dec (parse_unsigned (tl t))
         else if hd t = CHR ''+'' then parse_unsigned (tl t)
         else parse_unsigned t)"

section \<open>Tokens\<close>

datatype token_type = TNum | TStr | TIdent | TOp | TPunct

record token =
  tk_type :: token_type
  tk_value :: string
  tk_upper :: string
  tk_start :: nat
  tk_end :: nat

definition MULTI_OPS :: "string list" where "MULTI_OPS = [''<='', ''>='', ''!='', ''<>'']"
definition SINGLE_OPS :: "char list" where "SINGLE_OPS = ''+-*/%=<>''"
definition PUNCT :: "char list" where "PUNCT = ''(),.;''"

text \<open>What follows a block comment; nothing when it is not closed.\<close>

fun after_comment :: "string \<Rightarrow> string" where
  "after_comment [] = []"
| "after_comment (c # s) =
     (if c = CHR ''*'' \<and> starts_with s ''/'' then tl s else after_comment s)"

text \<open>The value of a string literal, its length with the closing quote, and the rest.\<close>

fun scan_str :: "string \<Rightarrow> string \<times> nat \<times> string" where
  "scan_str [] = ([], 0, [])"
| "scan_str (c # s) =
     (if c = CHR 0x27
      then (case s of
              d # s' \<Rightarrow> if d = CHR 0x27 then (let (v, k, r) = scan_str s' in (CHR 0x27 # v, k + 2, r)) else ([], 1, s)
            | [] \<Rightarrow> ([], 1, s))
      else (let (v, k, r) = scan_str s in (c # v, k + 1, r)))"

fun scan_num :: "bool \<Rightarrow> string \<Rightarrow> string \<times> string" where
  "scan_num seenDot [] = ([], [])"
| "scan_num seenDot (c # s) =
     (if is_digit c then (let (v, r) = scan_num seenDot s in (c # v, r))
      else if c = CHR ''.'' \<and> \<not> seenDot then (let (v, r) = scan_num True s in (c # v, r))
      else ([], c # s))"

definition ident_start :: "char \<Rightarrow> bool" where
  "ident_start c = (is_alpha c \<or> c = CHR ''_'')"

text \<open>The token that starts with \<open>c\<close> at position \<open>i\<close>, and the rest of the text.\<close>

definition scan_token :: "nat \<Rightarrow> char \<Rightarrow> string \<Rightarrow> (sql_error, token \<times> string) res" where
  "scan_token i c s =
     (let tok = (\<lambda>ty v u n. \<lparr>tk_type = ty, tk_value = v, tk_upper = u, tk_start = i, tk_end = i + n\<rparr>) in
      if c = CHR 0x27 then (let (v, k, r) = scan_str s in Inr (tok TStr v v (1 + k), r))
      else if c = CHR 0x60 \<or> c = CHR 0x22 then
        (let v = takeWhile (\<lambda>x. x \<noteq> c) s
         in Inr (tok TIdent v (to_upper v) (length v + 2), tl (dropWhile (\<lambda>x. x \<noteq> c) s)))
      else if is_digit c then
        (let (v, r) = scan_num False (c # s) in Inr (tok TNum v v (length v), r))
      else if ident_start c then
        (let v = takeWhile is_word (c # s)
         in Inr (tok TIdent v (to_upper v) (length v), dropWhile is_word (c # s)))
      else if take 2 (c # s) \<in> set MULTI_OPS then
        Inr (tok TOp (take 2 (c # s)) (take 2 (c # s)) 2, tl s)
      else if c \<in> set SINGLE_OPS then Inr (tok TOp [c] [c] 1, s)
      else if c \<in> set PUNCT then Inr (tok TPunct [c] [c] 1, s)
      else Inl (UnexpectedChar c i))"

definition sql_ws :: "char \<Rightarrow> bool" where
  "sql_ws c = (c = CHR '' '' \<or> of_char c \<in> ({9, 10, 13} :: nat set))"

lemma length_after_comment: "length (after_comment s) \<le> length s"
  by (induction s rule: after_comment.induct) auto

lemma length_scan_str: "scan_str s = (v, k, r) \<Longrightarrow> length r \<le> length s"
proof (induction s arbitrary: v k r rule: scan_str.induct)
  case (2 c s)
  then show ?case by (fastforce split: if_splits list.splits prod.splits)
qed simp

lemma length_scan_num: "scan_num b s = (v, r) \<Longrightarrow> length r \<le> length s"
proof (induction b s arbitrary: v r rule: scan_num.induct)
  case (2 b c s)
  then show ?case by (fastforce split: if_splits prod.splits)
qed simp

lemma length_tl_le: "length (tl s) \<le> length s"
  by (cases s) auto

lemma scan_token_shorter:
  assumes "scan_token i c s = Inr (t, r)"
  shows "length r < length (c # s)"
proof -
  have "length r \<le> length s" if "scan_num False (c # s) = (v, r)" "is_digit c" for v
    using that length_scan_num[of False s] by (auto split: prod.splits)
  moreover have "length (tl (dropWhile P s)) \<le> length s" for P
    using length_tl_le[of "dropWhile P s"] length_dropWhile_le[of P s] by linarith
  moreover have "length (dropWhile is_word (c # s)) \<le> length s" if "ident_start c"
    using that length_dropWhile_le[of is_word s] by (auto simp: ident_start_def is_word_def is_alnum_def)
  ultimately show ?thesis
    using assms length_scan_str[of s] length_tl_le[of s]
    unfolding scan_token_def Let_def
    by (auto simp: less_Suc_eq_le split: if_splits prod.splits)
qed

function tokenize_from :: "nat \<Rightarrow> string \<Rightarrow> (sql_error, token list) res" where
  "tokenize_from i [] = Inr []"
| "tokenize_from i (c # s) =
     (if sql_ws c then tokenize_from (i + 1) s
      else if c = CHR ''-'' \<and> starts_with s ''-'' then
        (let r = dropWhile (\<lambda>x. x \<noteq> CHR 0x0A) s in tokenize_from (i + (length (c # s) - length r)) r)
      else if c = CHR ''/'' \<and> starts_with s ''*'' then
        (let r = after_comment (tl s) in tokenize_from (i + (length (c # s) - length r)) r)
      else (case scan_token i c s of
              Inl e \<Rightarrow> Inl e
            | Inr (t, r) \<Rightarrow> bind_res (tokenize_from (tk_end t) r) (\<lambda>ts. Inr (t # ts))))"
  by pat_completeness auto
termination
proof (relation "measure (\<lambda>(i, s). length s)")
  fix i :: nat and c :: char and s x :: string
  show "((i + (length (c # s) - length x), x), i, c # s) \<in> measure (\<lambda>(i, s). length s)"
    if "x = dropWhile (\<lambda>x. x \<noteq> CHR 0x0A) s"
    using that length_dropWhile_le[of "\<lambda>x. x \<noteq> CHR 0x0A" s] by simp
  show "((i + (length (c # s) - length x), x), i, c # s) \<in> measure (\<lambda>(i, s). length s)"
    if "x = after_comment (tl s)"
    using that length_after_comment[of "tl s"] length_tl_le[of s] by simp
qed (auto dest: scan_token_shorter)

declare tokenize_from.simps [simp del]

definition tokenize :: "string \<Rightarrow> (sql_error, token list) res" where
  "tokenize sql = tokenize_from 0 sql"

end
