(* ===== verification/SqlParser.thy ===== *)
theory SqlParser
  imports SqlTokens
begin

text \<open>
  The parser of \<^verbatim>\<open>src/bindings/analytics-engine-sql.ts\<close>: the class \<open>Parser\<close>, a Pratt parser
  over the tokens. The position of the parser is the list of the tokens that remain. The nesting of
  expressions is bounded by \<open>n\<close> in \<open>parseExpr n\<close>; one more than the number of tokens is always
  enough (\<open>parser_returns\<close> in \<open>SqlParserLaws\<close>).
\<close>

section \<open>Syntax trees\<close>

datatype node =
    NNum dec
  | NStr string
  | NCol string
  | NStar
  | NFunc string "node list" "node list option" bool
  | NInterval dec
  | NBinary string node node
  | NUnary string node
  | NIn node "node list" bool
  | NLike node node bool
  | NBetween node node node bool
  | NIsnull node bool

record select_item =
  si_expr :: node
  si_name :: string

record order_item =
  oi_expr :: node
  oi_desc :: bool

record parsed_query =
  pq_select :: "select_item list"
  pq_dataset :: string
  pq_where :: "node option"
  pq_groupBy :: "node list"
  pq_orderBy :: "order_item list"
  pq_limit :: "nat option"
  pq_format :: string

definition CLAUSE_KEYWORDS :: "string list" where
  "CLAUSE_KEYWORDS = [''FROM'', ''WHERE'', ''GROUP'', ''ORDER'', ''LIMIT'', ''FORMAT'', ''BY'', ''ASC'',
     ''DESC'', ''AS'']"

definition UNSUPPORTED_KEYWORDS :: "string list" where
  "UNSUPPORTED_KEYWORDS = [''HAVING'', ''OFFSET'', ''JOIN'', ''INNER'', ''LEFT'', ''RIGHT'', ''FULL'',
     ''UNION'', ''WITH'']"

definition INTERVAL_UNITS :: "(string \<times> int) list" where
  "INTERVAL_UNITS = [(''SECOND'', 1), (''SECONDS'', 1), (''MINUTE'', 60), (''MINUTES'', 60),
     (''HOUR'', 3600), (''HOURS'', 3600), (''DAY'', 86400), (''DAYS'', 86400),
     (''WEEK'', 604800), (''WEEKS'', 604800), (''MONTH'', 2592000), (''MONTHS'', 2592000),
     (''YEAR'', 31536000), (''YEARS'', 31536000)]"

definition PRECEDENCE :: "(string \<times> nat) list" where
  "PRECEDENCE = [(''OR'', 1), (''AND'', 2), (''='', 3), (''!='', 3), (''<>'', 3), (''<'', 3), (''<='', 3),
     (''>'', 3), (''>='', 3), (''+'', 4), (''-'', 4), (''*'', 5), (''/'', 5), (''%'', 5)]"

section \<open>Tokens ahead\<close>

type_synonym 'a parsed = "(sql_error, 'a \<times> token list) res"

definition next_token :: "token list \<Rightarrow> token parsed" where
  "next_token ts = (case ts of [] \<Rightarrow> Inl EndOfQuery | t # r \<Rightarrow> Inr (t, r))"

text \<open>\<open>this.peek()?.value === v\<close>: the type of the token is not looked at.\<close>

definition peek_value :: "string \<Rightarrow> token list \<Rightarrow> bool" where
  "peek_value v ts = (case ts of [] \<Rightarrow> False | t # _ \<Rightarrow> tk_value t = v)"

definition keyword :: "string \<Rightarrow> token \<Rightarrow> bool" where
  "keyword kw t = (tk_type t = TIdent \<and> tk_upper t = kw)"

definition isKeyword :: "string \<Rightarrow> token list \<Rightarrow> bool" where
  "isKeyword kw ts = (case ts of [] \<Rightarrow> False | t # _ \<Rightarrow> keyword kw t)"

definition expectKeyword :: "string \<Rightarrow> token list \<Rightarrow> (sql_error, token list) res" where
  "expectKeyword kw ts =
     (case ts of
        [] \<Rightarrow> Inl (ExpectedKeyword kw None)
      | t # r \<Rightarrow> if keyword kw t then Inr r else Inl (ExpectedKeyword kw (Some (tk_value t))))"

text \<open>\<open>if (this.next().value !== v) throw e\<close>\<close>

definition expect_value :: "string \<Rightarrow> sql_error \<Rightarrow> token list \<Rightarrow> (sql_error, token list) res" where
  "expect_value v e ts =
     bind_res (next_token ts) (\<lambda>(t, r). if tk_value t = v then Inr r else Inl e)"

definition is_predicate :: "token \<Rightarrow> bool" where
  "is_predicate t = (tk_type t = TIdent \<and> tk_upper t \<in> {''IN'', ''LIKE'', ''BETWEEN'', ''IS''})"

definition is_negatable :: "token list \<Rightarrow> bool" where
  "is_negatable ts =
     (case ts of [] \<Rightarrow> False | t # _ \<Rightarrow> tk_type t = TIdent \<and> tk_upper t \<in> {''IN'', ''LIKE'', ''BETWEEN''})"

definition operator_of :: "token \<Rightarrow> string option" where
  "operator_of t =
     (if tk_type t = TOp then Some (tk_value t)
      else if tk_type t = TIdent \<and> (tk_upper t = ''AND'' \<or> tk_upper t = ''OR'') then Some (tk_upper t)
      else None)"

section \<open>Expressions\<close>

definition parseInterval :: "token list \<Rightarrow> node parsed" where
  "parseInterval ts =
     bind_res (next_token ts) (\<lambda>(amountTok, r).
       case js_number (tk_value amountTok) of
         None \<Rightarrow> Inl (BadIntervalAmount (tk_value amountTok))
       | Some amount \<Rightarrow>
           bind_res (next_token r) (\<lambda>(unitTok, r').
             case map_of INTERVAL_UNITS (tk_upper unitTok) of
               None \<Rightarrow> Inl (BadIntervalUnit (tk_value unitTok))
             | Some secs \<Rightarrow> Inr (NInterval (dec_times amount secs), r')))"

text \<open>
  The methods below take \<open>pe\<close>, the parser of the expressions nested in theirs. The two loops take
  a bound on their rounds; every round consumes a token.

  \<open>parse_commas\<close> is the loop \<open>push(parseExpr(0)); while (peek is ',') ...\<close> that the methods share.
\<close>

fun parse_commas :: "nat \<Rightarrow> (nat \<Rightarrow> token list \<Rightarrow> node parsed) \<Rightarrow> token list \<Rightarrow> node list parsed" where
  "parse_commas 0 pe ts = Inl OutOfFuel"
| "parse_commas (Suc k) pe ts =
     bind_res (pe 0 ts) (\<lambda>(e, r).
       if peek_value '','' r
       then bind_res (parse_commas k pe (tl r)) (\<lambda>(es, r1). Inr (e # es, r1))
       else Inr ([e], r))"

text \<open>An argument list up to the closing parenthesis, possibly empty.\<close>

definition parse_args :: "(nat \<Rightarrow> token list \<Rightarrow> node parsed) \<Rightarrow> sql_error \<Rightarrow> token list \<Rightarrow> node list parsed" where
  "parse_args pe e ts =
     bind_res (if peek_value '')'' ts then Inr ([], ts) else parse_commas (Suc (length ts)) pe ts) (\<lambda>(args, r).
     bind_res (expect_value '')'' e r) (\<lambda>r1. Inr (args, r1)))"

definition parseArgList ::
    "(nat \<Rightarrow> token list \<Rightarrow> node parsed) \<Rightarrow> string \<Rightarrow> token list \<Rightarrow> (node list \<times> bool) parsed" where
  "parseArgList pe name ts =
     bind_res (next_token ts) (\<lambda>(t, r).
       let distinct = isKeyword ''DISTINCT'' r
       in bind_res (parse_args pe (ExpectedArgsClose name) (if distinct then tl r else r))
            (\<lambda>(args, r1). Inr ((args, distinct), r1)))"

definition parseFunc :: "(nat \<Rightarrow> token list \<Rightarrow> node parsed) \<Rightarrow> string \<Rightarrow> token list \<Rightarrow> node parsed" where
  "parseFunc pe name ts =
     bind_res (parseArgList pe name ts) (\<lambda>((first, distinct), r).
       if peek_value ''('' r
       then bind_res (parseArgList pe name r) (\<lambda>((args, d), r1). Inr (NFunc name args (Some first) False, r1))
       else Inr (NFunc name first None distinct, r))"

definition parsePrimary :: "(nat \<Rightarrow> token list \<Rightarrow> node parsed) \<Rightarrow> token list \<Rightarrow> node parsed" where
  "parsePrimary pe ts =
     bind_res (next_token ts) (\<lambda>(t, r).
       if tk_type t = TNum then
         (case js_number (tk_value t) of
            None \<Rightarrow> Inl (UnexpectedToken (tk_value t)) | Some v \<Rightarrow> Inr (NNum v, r))
       else if tk_type t = TStr then Inr (NStr (tk_value t), r)
       else if tk_type t = TOp \<and> tk_value t = ''*'' then Inr (NStar, r)
       else if tk_value t = ''('' then
         bind_res (pe 0 r) (\<lambda>(inner, r1).
         bind_res (expect_value '')'' ExpectedParen r1) (\<lambda>r2. Inr (inner, r2)))
       else if tk_type t = TIdent then
         (if tk_upper t = ''INTERVAL'' then parseInterval r
          else if peek_value ''('' r then parseFunc pe (tk_value t) r
          else Inr (NCol (tk_value t), r))
       else Inl (UnexpectedToken (tk_value t)))"

fun parseUnary :: "(nat \<Rightarrow> token list \<Rightarrow> node parsed) \<Rightarrow> token list \<Rightarrow> node parsed" where
  "parseUnary pe [] = parsePrimary pe []"
| "parseUnary pe (t # r) =
     (if tk_type t = TOp \<and> tk_value t = ''-''
      then bind_res (parseUnary pe r) (\<lambda>(e, r1). Inr (NUnary ''-'' e, r1))
      else parsePrimary pe (t # r))"

definition parsePrefix :: "(nat \<Rightarrow> token list \<Rightarrow> node parsed) \<Rightarrow> token list \<Rightarrow> node parsed" where
  "parsePrefix pe ts =
     (if isKeyword ''NOT'' ts
      then bind_res (pe 3 (tl ts)) (\<lambda>(e, r). Inr (NUnary ''NOT'' e, r))
      else parseUnary pe ts)"

definition parsePredicate ::
    "(nat \<Rightarrow> token list \<Rightarrow> node parsed) \<Rightarrow> node \<Rightarrow> bool \<Rightarrow> token list \<Rightarrow> node parsed" where
  "parsePredicate pe left negate ts =
     bind_res (next_token ts) (\<lambda>(t, r).
       if tk_upper t = ''IN'' then
         bind_res (expect_value ''('' ExpectedInParen r) (\<lambda>r1.
         bind_res (parse_args pe ExpectedInClose r1) (\<lambda>(list, r2). Inr (NIn left list negate, r2)))
       else if tk_upper t = ''LIKE'' then
         bind_res (pe 4 r) (\<lambda>(pat, r1). Inr (NLike left pat negate, r1))
       else if tk_upper t = ''BETWEEN'' then
         bind_res (pe 4 r) (\<lambda>(low, r1).
         bind_res (expectKeyword ''AND'' r1) (\<lambda>r2.
         bind_res (pe 4 r2) (\<lambda>(high, r3). Inr (NBetween left low high negate, r3))))
       else (let neg = isKeyword ''NOT'' r
             in bind_res (expectKeyword ''NULL'' (if neg then tl r else r))
                  (\<lambda>r1. Inr (NIsnull left neg, r1))))"

text \<open>The loop of \<open>parseExpr\<close>, with the tree \<open>left\<close> built so far.\<close>

fun parse_loop ::
    "nat \<Rightarrow> (nat \<Rightarrow> token list \<Rightarrow> node parsed) \<Rightarrow> nat \<Rightarrow> node \<Rightarrow> token list \<Rightarrow> node parsed" where
  "parse_loop 0 pe minPrec left ts = Inl OutOfFuel"
| "parse_loop (Suc k) pe minPrec left [] = Inr (left, [])"
| "parse_loop (Suc k) pe minPrec left (t # r) =
     (if is_predicate t \<and> minPrec \<le> 3 then
        bind_res (parsePredicate pe left False (t # r)) (\<lambda>(left', r'). parse_loop k pe minPrec left' r')
      else if keyword ''NOT'' t \<and> minPrec \<le> 3 \<and> is_negatable r then
        bind_res (parsePredicate pe left True r) (\<lambda>(left', r'). parse_loop k pe minPrec left' r')
      else (case operator_of t of
              None \<Rightarrow> Inr (left, t # r)
            | Some op \<Rightarrow>
                (case map_of PRECEDENCE op of
                   None \<Rightarrow> Inr (left, t # r)
                 | Some prec \<Rightarrow>
                     if prec < minPrec then Inr (left, t # r)
                     else bind_res (pe (prec + 1) r)
                            (\<lambda>(right, r'). parse_loop k pe minPrec (NBinary op left right) r'))))"

text \<open>\<open>n\<close> bounds the nesting of the expressions.\<close>

fun parseExpr :: "nat \<Rightarrow> nat \<Rightarrow> token list \<Rightarrow> node parsed" where
  "parseExpr 0 minPrec ts = Inl OutOfFuel"
| "parseExpr (Suc n) minPrec ts =
     bind_res (parsePrefix (parseExpr n) ts)
       (\<lambda>(left, r). parse_loop (Suc (length r)) (parseExpr n) minPrec left r)"

definition expr_at :: "nat \<Rightarrow> token list \<Rightarrow> node parsed" where
  "expr_at minPrec ts = parseExpr (Suc (length ts)) minPrec ts"

section \<open>Queries\<close>

definition slice :: "string \<Rightarrow> nat \<Rightarrow> nat \<Rightarrow> string" where
  "slice s a b = take (b - a) (drop a s)"

text \<open>
  One item of the select list with its name: an alias after \<open>AS\<close>, an implicit alias, or the text
  from the first token of the expression to the last one consumed.
\<close>

definition parse_select_item :: "string \<Rightarrow> token list \<Rightarrow> select_item parsed" where
  "parse_select_item sql ts =
     bind_res (expr_at 0 ts) (\<lambda>(expr, r).
       if isKeyword ''AS'' r then
         bind_res (next_token (tl r)) (\<lambda>(t, r1). Inr (\<lparr>si_expr = expr, si_name = tk_value t\<rparr>, r1))
       else if r \<noteq> [] \<and> tk_type (hd r) = TIdent \<and> tk_upper (hd r) \<notin> set CLAUSE_KEYWORDS then
         Inr (\<lparr>si_expr = expr, si_name = tk_value (hd r)\<rparr>, tl r)
       else (let consumed = take (length ts - length r) ts
             in Inr (\<lparr>si_expr = expr,
                      si_name = trim (slice sql (tk_start (hd consumed)) (tk_end (last consumed)))\<rparr>, r)))"

text \<open>\<open>push(item()); while (peek is ',') { next(); push(item()) }\<close>\<close>

fun comma_list :: "nat \<Rightarrow> (token list \<Rightarrow> 'a parsed) \<Rightarrow> token list \<Rightarrow> 'a list parsed" where
  "comma_list 0 item ts = Inl OutOfFuel"
| "comma_list (Suc k) item ts =
     bind_res (item ts) (\<lambda>(x, r).
       if peek_value '','' r
       then bind_res (comma_list k item (tl r)) (\<lambda>(xs, r1). Inr (x # xs, r1))
       else Inr ([x], r))"

definition parseSelectList :: "string \<Rightarrow> token list \<Rightarrow> select_item list parsed" where
  "parseSelectList sql ts = comma_list (Suc (length ts)) (parse_select_item sql) ts"

definition parseDataset :: "token list \<Rightarrow> string parsed" where
  "parseDataset ts =
     bind_res (next_token ts) (\<lambda>(t, r).
       if tk_type t = TIdent \<or> tk_type t = TStr then Inr (tk_value t, r)
       else Inl (ExpectedDataset (tk_value t)))"

definition parseOrderItem :: "token list \<Rightarrow> order_item parsed" where
  "parseOrderItem ts =
     bind_res (expr_at 0 ts) (\<lambda>(e, r).
       if isKeyword ''ASC'' r then Inr (\<lparr>oi_expr = e, oi_desc = False\<rparr>, tl r)
       else if isKeyword ''DESC'' r then Inr (\<lparr>oi_expr = e, oi_desc = True\<rparr>, tl r)
       else Inr (\<lparr>oi_expr = e, oi_desc = False\<rparr>, r))"

text \<open>The optional clauses.\<close>

definition parse_where :: "token list \<Rightarrow> node option parsed" where
  "parse_where ts =
     (if isKeyword ''WHERE'' ts then bind_res (expr_at 0 (tl ts)) (\<lambda>(e, r). Inr (Some e, r))
      else Inr (None, ts))"

definition parse_by :: "string \<Rightarrow> (token list \<Rightarrow> 'a parsed) \<Rightarrow> token list \<Rightarrow> 'a list parsed" where
  "parse_by kw item ts =
     (if isKeyword kw ts
      then bind_res (expectKeyword ''BY'' (tl ts)) (\<lambda>r. comma_list (Suc (length r)) item r)
      else Inr ([], ts))"

definition parse_limit :: "token list \<Rightarrow> nat option parsed" where
  "parse_limit ts =
     (if isKeyword ''LIMIT'' ts
      then bind_res (next_token (tl ts)) (\<lambda>(t, r).
             if tk_type t = TNum then Inr (Some (digits_val (takeWhile is_digit (tk_value t))), r)
             else Inl (ExpectedLimitNumber (tk_value t)))
      else Inr (None, ts))"

definition parse_format :: "token list \<Rightarrow> string parsed" where
  "parse_format ts =
     (if isKeyword ''FORMAT'' ts
      then bind_res (next_token (tl ts)) (\<lambda>(t, r). Inr (to_upper (tk_value t), r))
      else Inr (''JSON'', ts))"

definition parse_end :: "token list \<Rightarrow> (sql_error, unit) res" where
  "parse_end ts =
     (case (if peek_value '';'' ts then tl ts else ts) of
        [] \<Rightarrow> Inr ()
      | t # _ \<Rightarrow> if tk_upper t \<in> set UNSUPPORTED_KEYWORDS then Inl (UnsupportedKeyword (tk_value t))
                 else Inl (UnexpectedToken (tk_value t)))"

definition parse :: "string \<Rightarrow> token list \<Rightarrow> (sql_error, parsed_query) res" where
  "parse sql ts =
     bind_res (expectKeyword ''SELECT'' ts) (\<lambda>r.
     bind_res (parseSelectList sql r) (\<lambda>(select, r1).
     bind_res (expectKeyword ''FROM'' r1) (\<lambda>r2.
     bind_res (parseDataset r2) (\<lambda>(dataset, r3).
     bind_res (parse_where r3) (\<lambda>(whr, r4).
     bind_res (parse_by ''GROUP'' (expr_at 0) r4) (\<lambda>(groupBy, r5).
     bind_res (parse_by ''ORDER'' parseOrderItem r5) (\<lambda>(orderBy, r6).
     bind_res (parse_limit r6) (\<lambda>(limit, r7).
     bind_res (parse_format r7) (\<lambda>(format, r8).
     bind_res (parse_end r8) (\<lambda>_.
       Inr \<lparr>pq_select = select, pq_dataset = dataset, pq_where = whr, pq_groupBy = groupBy,
            pq_orderBy = orderBy, pq_limit = limit, pq_format = format\<rparr>))))))))))"

end
