(* ===== verification/SqlEmit.thy ===== *)
theory SqlEmit
  imports SqlParser Dates
begin

text \<open>
  The emitter of \<^verbatim>\<open>src/bindings/analytics-engine-sql.ts\<close>: from syntax trees to the text of a
  SQLite query, with the types of the output columns. \<open>ctx.usesLike\<close>, which the emitter only ever
  sets, is the second component of what it returns. Names that every object inherits
  (\<open>constructor\<close>) are treated like other unknown names.
\<close>

section \<open>Types and literals\<close>

record emit_ctx =
  ec_nowSeconds :: int
  ec_aliases :: "string list"

text \<open>\<open>/^(blob([1-9]|1[0-9]|20)|double([1-9]|1[0-9]|20)|index1|_sample_interval|timestamp|dataset)$/\<close>\<close>

definition column_names :: "string list" where
  "column_names = map (\<lambda>i. ''blob'' @ show_nat i) [1..<21] @ map (\<lambda>i. ''double'' @ show_nat i) [1..<21]
     @ [''index1'', ''_sample_interval'', ''timestamp'', ''dataset'']"

definition colType :: "string \<Rightarrow> string" where
  "colType name =
     (if name = ''timestamp'' then ''DateTime''
      else if starts_with name ''double'' then ''Float64''
      else if name = ''_sample_interval'' then ''UInt32''
      else ''String'')"

definition quoteStr :: "string \<Rightarrow> string" where
  "quoteStr s = CHR 0x27 # concat (map (\<lambda>c. if c = CHR 0x27 then [c, c] else [c]) s) @ [CHR 0x27]"

definition COMPARE_OPS :: "string list" where
  "COMPARE_OPS = [''='', ''!='', ''<'', ''<='', ''>'', ''>='']"

definition DATE_FN_TYPES :: "(string \<times> string) list" where
  "DATE_FN_TYPES = [(''todate'', ''Date''), (''tomonday'', ''Date''), (''tostartofweek'', ''Date''),
     (''tostartofmonth'', ''Date''), (''tostartofquarter'', ''Date''), (''tostartofyear'', ''Date''),
     (''toyear'', ''UInt16''), (''todayofyear'', ''UInt16''), (''toquarter'', ''UInt8''),
     (''tomonth'', ''UInt8''), (''todayofmonth'', ''UInt8''), (''todayofweek'', ''UInt8''),
     (''tohour'', ''UInt8''), (''tominute'', ''UInt8''), (''tosecond'', ''UInt8''),
     (''tounixtimestamp'', ''UInt32'')]"

fun inferType :: "node \<Rightarrow> string" where
  "inferType (NNum (Dec n k)) = (if k = 0 then ''UInt64'' else ''Float64'')"
| "inferType (NStr s) = ''String''"
| "inferType (NCol name) = colType name"
| "inferType (NBinary op l r) =
     (if op \<in> {''='', ''!='', ''<>'', ''<'', ''<='', ''>'', ''>='', ''AND'', ''OR''} then ''UInt8'' else ''Float64'')"
| "inferType (NUnary op e) = (if op = ''NOT'' then ''UInt8'' else inferType e)"
| "inferType (NIn e es neg) = ''UInt8''"
| "inferType (NLike e p neg) = ''UInt8''"
| "inferType (NBetween e lo hi neg) = ''UInt8''"
| "inferType (NIsnull e neg) = ''UInt8''"
| "inferType (NFunc name args params d) =
     (let fn = to_lower name in
      if fn = ''count'' then ''UInt64''
      else if fn \<in> {''sum'', ''avg'', ''tofloat64'', ''tofloat32'', ''abs'', ''round''} then ''Float64''
      else if fn = ''if'' then (case args of c # e # _ \<Rightarrow> inferType e | _ \<Rightarrow> ''String'')
      else if fn \<in> {''min'', ''max'', ''coalesce''} then (case args of e # _ \<Rightarrow> inferType e | _ \<Rightarrow> ''String'')
      else if fn \<in> {''touint32'', ''touint64'', ''toint32'', ''toint64'', ''intdiv'', ''floor'', ''length''}
      then ''UInt64''
      else (case map_of DATE_FN_TYPES fn of
              Some t \<Rightarrow> t
            | None \<Rightarrow>
                if starts_with fn ''tostartof'' \<or> fn = ''todatetime'' \<or> fn = ''now'' then ''DateTime''
                else if fn \<in> {''lower'', ''upper'', ''tostring''} then ''String''
                else ''Float64''))"
| "inferType NStar = ''String''"
| "inferType (NInterval d) = ''String''"

text \<open>
  The literal's format is \<open>/^(\d{4}-\d{2}-\d{2})(?:[ T](\d{2}:\d{2}:\d{2})(?:\.\d+)?)?Z?$/\<close>; the
  instant it names is \<open>NaN\<close> unless its fields are in range (24:00:00 is the end of the day).
\<close>

definition two_digits :: "nat \<Rightarrow> string \<Rightarrow> bool" where
  "two_digits i s = (i + 2 \<le> length s \<and> is_digit (s ! i) \<and> is_digit (s ! (i + 1)))"

definition num_in :: "nat \<Rightarrow> nat \<Rightarrow> string \<Rightarrow> int" where
  "num_in i n s = int (digits_val (take n (drop i s)))"

definition char_at :: "nat \<Rightarrow> string \<Rightarrow> char \<Rightarrow> bool" where
  "char_at i s c = (i < length s \<and> s ! i = c)"

definition date_format :: "string \<Rightarrow> bool" where
  "date_format s = (two_digits 0 s \<and> two_digits 2 s \<and> char_at 4 s (CHR ''-'') \<and> two_digits 5 s
     \<and> char_at 7 s (CHR ''-'') \<and> two_digits 8 s)"

definition time_format :: "string \<Rightarrow> bool" where
  "time_format s = (two_digits 0 s \<and> char_at 2 s (CHR '':'') \<and> two_digits 3 s \<and> char_at 5 s (CHR '':'')
     \<and> two_digits 6 s)"

text \<open>What may follow the date or the time: a fraction after a time, then \<open>Z\<close>.\<close>

definition strip_fraction :: "string \<Rightarrow> string" where
  "strip_fraction s =
     (if s \<noteq> [] \<and> hd s = CHR ''.'' \<and> tl s \<noteq> [] \<and> is_digit (hd (tl s)) then dropWhile is_digit (tl s) else s)"

definition literal_parts :: "string \<Rightarrow> (string \<times> string) option" where
  "literal_parts s =
     (if \<not> date_format s then None
      else (let d = take 10 s; r = drop 10 s in
            if r = [] \<or> r = ''Z'' then Some (d, ''00:00:00'')
            else if (hd r = CHR '' '' \<or> hd r = CHR ''T'') \<and> time_format (tl r)
                    \<and> (strip_fraction (drop 9 r) = [] \<or> strip_fraction (drop 9 r) = ''Z'')
            then Some (d, take 8 (tl r))
            else None))"

definition Date_parse :: "string \<Rightarrow> string \<Rightarrow> int option" where
  "Date_parse d t =
     (let y = num_in 0 4 d; m = num_in 5 2 d; day = num_in 8 2 d;
          h = num_in 0 2 t; mi = num_in 3 2 t; sec = num_in 6 2 t
      in if 1 \<le> m \<and> m \<le> 12 \<and> 1 \<le> day \<and> day \<le> month_lengths y ! nat (m - 1)
            \<and> (h < 24 \<or> h = 24 \<and> mi = 0 \<and> sec = 0) \<and> mi < 60 \<and> sec < 60
         then Some (days_of_civil y (nat (m - 1)) day * 86400000 + h * 3600000 + mi * 60000 + sec * 1000)
         else None)"

definition parseDateTimeLiteral :: "string \<Rightarrow> (sql_error, int) res" where
  "parseDateTimeLiteral text =
     (case literal_parts (trim text) of
        None \<Rightarrow> Inl (BadDateTime text)
      | Some (d, t) \<Rightarrow> (case Date_parse d t of
                         None \<Rightarrow> Inl (BadDateTime text) | Some ms \<Rightarrow> Inr (ms div 1000)))"

section \<open>Functions\<close>

definition QUANTILE_FNS :: "string list" where
  "QUANTILE_FNS = [''quantile'', ''quantileexact'', ''quantileweighted'', ''quantileexactweighted'']"

definition PLAIN_AGGREGATE_FNS :: "string list" where
  "PLAIN_AGGREGATE_FNS = [''count'', ''sum'', ''avg'', ''min'', ''max'']"

fun containsPlainAggregate :: "node \<Rightarrow> bool" where
  "containsPlainAggregate (NFunc name args params d) =
     (to_lower name \<in> set PLAIN_AGGREGATE_FNS \<or> list_ex containsPlainAggregate args
      \<or> (case params of None \<Rightarrow> False | Some ps \<Rightarrow> list_ex containsPlainAggregate ps))"
| "containsPlainAggregate (NBinary op l r) = (containsPlainAggregate l \<or> containsPlainAggregate r)"
| "containsPlainAggregate (NUnary op e) = containsPlainAggregate e"
| "containsPlainAggregate (NIn e es neg) = (containsPlainAggregate e \<or> list_ex containsPlainAggregate es)"
| "containsPlainAggregate (NLike e p neg) = (containsPlainAggregate e \<or> containsPlainAggregate p)"
| "containsPlainAggregate (NBetween e lo hi neg) =
     (containsPlainAggregate e \<or> containsPlainAggregate lo \<or> containsPlainAggregate hi)"
| "containsPlainAggregate (NIsnull e neg) = containsPlainAggregate e"
| "containsPlainAggregate (NNum v) = False"
| "containsPlainAggregate (NStr s) = False"
| "containsPlainAggregate (NCol c) = False"
| "containsPlainAggregate NStar = False"
| "containsPlainAggregate (NInterval d) = False"

text \<open>The least and the greatest number of arguments; \<open>None\<close> is infinity.\<close>

definition FN_ARITY :: "(string \<times> nat \<times> nat option) list" where
  "FN_ARITY =
     [(''count'', 0, Some 1), (''sum'', 1, Some 1), (''avg'', 1, Some 1), (''min'', 1, Some 1),
      (''max'', 1, Some 1), (''touint32'', 1, Some 1), (''touint64'', 1, Some 1), (''toint32'', 1, Some 1),
      (''toint64'', 1, Some 1), (''tofloat64'', 1, Some 1), (''tofloat32'', 1, Some 1),
      (''tostring'', 1, Some 1), (''todatetime'', 1, Some 2), (''intdiv'', 2, Some 2),
      (''tostartofinterval'', 2, Some 3), (''tostartofminute'', 1, Some 2), (''tostartofhour'', 1, Some 2),
      (''tostartofday'', 1, Some 2), (''tostartofweek'', 1, Some 3), (''tostartofmonth'', 1, Some 2),
      (''tostartofquarter'', 1, Some 2), (''tostartofyear'', 1, Some 2), (''tomonday'', 1, Some 2),
      (''todate'', 1, Some 2), (''toyear'', 1, Some 2), (''toquarter'', 1, Some 2), (''tomonth'', 1, Some 2),
      (''todayofmonth'', 1, Some 2), (''todayofweek'', 1, Some 3), (''todayofyear'', 1, Some 2),
      (''tohour'', 1, Some 2), (''tominute'', 1, Some 2), (''tosecond'', 1, Some 2),
      (''tounixtimestamp'', 1, Some 2), (''abs'', 1, Some 1), (''round'', 1, Some 2), (''min2'', 2, Some 2),
      (''max2'', 2, Some 2), (''coalesce'', 1, None), (''length'', 1, Some 1), (''lower'', 1, Some 1),
      (''upper'', 1, Some 1), (''floor'', 1, Some 1), (''if'', 3, Some 3), (''now'', 0, Some 0)]"

definition checkArity :: "string \<Rightarrow> node list \<Rightarrow> (sql_error, unit) res" where
  "checkArity name args =
     (case map_of FN_ARITY (to_lower name) of
        None \<Rightarrow> Inr ()
      | Some (lo, hi) \<Rightarrow>
          if lo \<le> length args \<and> (case hi of None \<Rightarrow> True | Some h \<Rightarrow> length args \<le> h) then Inr ()
          else Inl (WrongArity name (length args) lo hi))"

definition DATETIME_ARG_FNS :: "string list" where
  "DATETIME_ARG_FNS = [''todatetime'', ''todate'', ''tostartofinterval'', ''tostartofminute'', ''tostartofhour'',
     ''tostartofday'', ''tostartofweek'', ''tostartofmonth'', ''tostartofquarter'', ''tostartofyear'',
     ''tomonday'', ''toyear'', ''toquarter'', ''tomonth'', ''todayofmonth'', ''todayofweek'', ''todayofyear'',
     ''tohour'', ''tominute'', ''tosecond'', ''tounixtimestamp'']"

definition UTC_ZONES :: "string list" where
  "UTC_ZONES = [''utc'', ''etc/utc'', ''etc/gmt'', ''gmt'', ''z'']"

definition SECOND_ARG_FNS :: "string list" where
  "SECOND_ARG_FNS = [''tostartofinterval'', ''tostartofweek'', ''todayofweek'']"

fun check_zones :: "string \<Rightarrow> (nat \<times> node) list \<Rightarrow> (sql_error, unit) res" where
  "check_zones name [] = Inr ()"
| "check_zones name ((i, arg) # rest) =
     (if i = 0 \<or> (i = 1 \<and> to_lower name \<in> set SECOND_ARG_FNS) then check_zones name rest
      else (case arg of
              NStr z \<Rightarrow> if to_lower (trim z) \<in> set UTC_ZONES then check_zones name rest else Inl (OnlyUtc name z)
            | _ \<Rightarrow> Inl (TimezoneExpected name (i + 1))))"

definition checkTimezoneArgs :: "string \<Rightarrow> node list \<Rightarrow> (sql_error, unit) res" where
  "checkTimezoneArgs name args = check_zones name (enumerate 0 args)"

definition modeArg :: "string \<Rightarrow> node list \<Rightarrow> nat \<Rightarrow> (sql_error, dec option) res" where
  "modeArg name args i =
     (if length args \<le> i then Inr None
      else (case args ! i of
              NStr _ \<Rightarrow> Inr None
            | NNum v \<Rightarrow> Inr (Some v)
            | _ \<Rightarrow> Inl (ModeLiteralRequired name (i + 1))))"

definition datePart :: "string \<Rightarrow> string \<Rightarrow> string" where
  "datePart fmt expr = ''CAST(strftime('' @ quoteStr fmt @ '', CAST('' @ expr @ '' AS INTEGER), ''
     @ quoteStr ''unixepoch'' @ '') AS INTEGER)''"

definition truncateTo :: "string \<Rightarrow> string list \<Rightarrow> string" where
  "truncateTo expr modifiers = ''CAST(strftime('' @ quoteStr ''%s'' @ '', CAST('' @ expr @ '' AS INTEGER), ''
     @ quoteStr ''unixepoch'' @ '', '' @ join '', '' modifiers @ '') AS INTEGER)''"

definition cast_as :: "string \<Rightarrow> string \<Rightarrow> string" where
  "cast_as expr type = ''CAST('' @ expr @ '' AS '' @ type @ '')''"

definition floor_to :: "string \<Rightarrow> string \<Rightarrow> string" where
  "floor_to expr secs = ''(('' @ cast_as expr ''INTEGER'' @ '' / '' @ secs @ '') * '' @ secs @ '')''"

text \<open>\<open>toStartOfWeek\<close> and \<open>toDayOfWeek\<close>, whose second argument is a mode.\<close>

definition emit_week :: "string \<Rightarrow> node list \<Rightarrow> string \<Rightarrow> (sql_error, string) res" where
  "emit_week name args a0 =
     bind_res (modeArg name args 1) (\<lambda>m.
       case nullish m (Dec 0 0) of Dec mode k \<Rightarrow>
         if k \<noteq> 0 \<or> mode < 0 \<or> 9 < mode then Inl BadWeekMode
         else Inr (truncateTo a0 [quoteStr ''start of day'', quoteStr ''-6 days'',
                     quoteStr (if mode mod 2 = 1 then ''weekday 1'' else ''weekday 0'')]))"

definition emit_weekday :: "string \<Rightarrow> node list \<Rightarrow> string \<Rightarrow> (sql_error, string) res" where
  "emit_weekday name args a0 =
     bind_res (modeArg name args 1) (\<lambda>m.
       let w = datePart ''%w'' a0; mode = nullish m (Dec 0 0) in
       if mode = Dec 0 0 then Inr (''(('' @ w @ '' + 6) % 7 + 1)'')
       else if mode = Dec 1 0 then Inr (''(('' @ w @ '' + 6) % 7)'')
       else if mode = Dec 2 0 then Inr (''('' @ w @ '')'')
       else if mode = Dec 3 0 then Inr (''('' @ w @ '' + 1)'')
       else Inl BadDayMode)"

text \<open>The texts of the functions of the date and time, from their first argument.\<close>

definition date_functions :: "(string \<times> (string \<Rightarrow> string)) list" where
  "date_functions =
     [(''todatetime'', \<lambda>a. ''('' @ a @ '')''),
      (''tostartofminute'', \<lambda>a. floor_to a ''60''),
      (''tostartofhour'', \<lambda>a. floor_to a ''3600''),
      (''tostartofday'', \<lambda>a. floor_to a ''86400''),
      (''todate'', \<lambda>a. floor_to a ''86400''),
      (''tomonday'', \<lambda>a. truncateTo a [quoteStr ''start of day'', quoteStr ''-6 days'', quoteStr ''weekday 1'']),
      (''tostartofmonth'', \<lambda>a. truncateTo a [quoteStr ''start of month'']),
      (''tostartofquarter'', \<lambda>a. truncateTo a [quoteStr ''start of year'',
         quoteStr ''+'' @ '' || ((('' @ datePart ''%m'' a @ '' - 1) / 3) * 3) || '' @ quoteStr '' months'']),
      (''tostartofyear'', \<lambda>a. truncateTo a [quoteStr ''start of year'']),
      (''toyear'', datePart ''%Y''),
      (''toquarter'', \<lambda>a. ''(('' @ datePart ''%m'' a @ '' - 1) / 3 + 1)''),
      (''tomonth'', datePart ''%m''),
      (''todayofmonth'', datePart ''%d''),
      (''todayofyear'', datePart ''%j''),
      (''tohour'', datePart ''%H''),
      (''tominute'', datePart ''%M''),
      (''tosecond'', datePart ''%S''),
      (''tounixtimestamp'', \<lambda>a. cast_as a ''INTEGER'')]"

text \<open>
  The \<open>switch\<close> of \<open>emitFunc\<close>, with the emitted arguments \<open>a\<close>. The arity has been checked for the
  functions that occur in it.
\<close>

definition emit_call ::
    "emit_ctx \<Rightarrow> string \<Rightarrow> node list \<Rightarrow> bool \<Rightarrow> string list \<Rightarrow> (sql_error, string) res" where
  "emit_call ctx name args dist a =
     (let fn = to_lower name; a0 = (if a = [] then ''undefined'' else hd a) in
      if fn = ''count'' then
        (if dist \<and> length a = 1 then Inr (''COUNT(DISTINCT '' @ a0 @ '')'') else Inr ''COUNT(*)'')
      else if fn = ''sum'' then Inr (''COALESCE(SUM('' @ a0 @ ''), 0)'')
      else if fn \<in> {''avg'', ''min'', ''max''} then Inr (to_upper fn @ ''('' @ a0 @ '')'')
      else if fn \<in> {''touint32'', ''touint64'', ''toint32'', ''toint64''} then Inr (cast_as a0 ''INTEGER'')
      else if fn \<in> {''tofloat64'', ''tofloat32''} then Inr (cast_as a0 ''REAL'')
      else if fn = ''tostring'' then Inr (cast_as a0 ''TEXT'')
      else if fn = ''intdiv'' then
        Inr (''('' @ cast_as a0 ''INTEGER'' @ '' / '' @ cast_as (a ! 1) ''INTEGER'' @ '')'')
      else if fn = ''tostartofinterval'' then
        (case args of
           _ # NInterval secs # _ \<Rightarrow> Inr (floor_to a0 (show_dec secs))
         | _ \<Rightarrow> Inl IntervalRequired)
      else if fn = ''tostartofweek'' then emit_week name args a0
      else if fn = ''todayofweek'' then emit_weekday name args a0
      else if fn \<in> {''abs'', ''round'', ''min2'', ''max2'', ''coalesce'', ''length'', ''lower'', ''upper''} then
        Inr (to_upper fn @ ''('' @ join '', '' a @ '')'')
      else if fn = ''floor'' then Inr (cast_as a0 ''INTEGER'')
      else if fn = ''if'' then
        Inr (''(CASE WHEN '' @ a0 @ '' THEN '' @ a ! 1 @ '' ELSE '' @ a ! 2 @ '' END)'')
      else if fn = ''now'' then Inr (show_int (ec_nowSeconds ctx))
      else (case map_of date_functions fn of
              Some f \<Rightarrow> Inr (f a0)
            | None \<Rightarrow> Inl (UnknownFunction name)))"

section \<open>Expressions\<close>

type_synonym emitted = "(sql_error, string \<times> bool) res"

definition emit1 :: "(string \<Rightarrow> string) \<Rightarrow> emitted \<Rightarrow> emitted" where
  "emit1 f x = bind_res x (\<lambda>(a, u). Inr (f a, u))"

definition emit2 :: "(string \<Rightarrow> string \<Rightarrow> string) \<Rightarrow> emitted \<Rightarrow> emitted \<Rightarrow> emitted" where
  "emit2 f x y = bind_res x (\<lambda>(a, u). bind_res y (\<lambda>(b, v). Inr (f a b, u \<or> v)))"

fun emit_all :: "emitted list \<Rightarrow> (sql_error, string list \<times> bool) res" where
  "emit_all [] = Inr ([], False)"
| "emit_all (x # xs) =
     bind_res x (\<lambda>(a, u). bind_res (emit_all xs) (\<lambda>(as, v). Inr (a # as, u \<or> v)))"

text \<open>One side of a comparison: \<open>e\<close> is the text of \<open>node\<close> where it is not a date literal.\<close>

definition operand :: "node \<Rightarrow> node \<Rightarrow> emitted \<Rightarrow> emitted" where
  "operand n against e =
     (case n of
        NStr s \<Rightarrow> if inferType against = ''DateTime'' \<or> inferType against = ''Date''
                  then bind_res (parseDateTimeLiteral s) (\<lambda>t. Inr (show_int t, False)) else e
      | _ \<Rightarrow> e)"

definition emit_func ::
    "emit_ctx \<Rightarrow> string \<Rightarrow> node list \<Rightarrow> bool \<Rightarrow> emitted list \<Rightarrow> emitted" where
  "emit_func ctx name args dist es =
     (let fn = to_lower name in
      if fn \<in> set QUANTILE_FNS then Inl (QuantileOnlyInSelect name)
      else if fn \<in> set PLAIN_AGGREGATE_FNS \<and> list_ex containsPlainAggregate args then Inl (NestedAggregate name)
      else bind_res (checkArity name args) (\<lambda>_.
           bind_res (emit_all es) (\<lambda>(a, u).
           bind_res (if fn \<in> set DATETIME_ARG_FNS
                     then bind_res (case args of
                                      NStr s # _ \<Rightarrow> bind_res (parseDateTimeLiteral s) (\<lambda>t. Inr (show_int t # tl a))
                                    | _ \<Rightarrow> Inr a)
                            (\<lambda>a'. bind_res (checkTimezoneArgs name args) (\<lambda>_. Inr a'))
                     else Inr a) (\<lambda>a'.
           bind_res (emit_call ctx name args dist a') (\<lambda>s. Inr (s, u))))))"

definition binary_text :: "string \<Rightarrow> string \<Rightarrow> string \<Rightarrow> string" where
  "binary_text op l r = ''('' @ l @ '' '' @ op @ '' '' @ r @ '')''"

definition not_word :: "bool \<Rightarrow> string" where
  "not_word negate = (if negate then ''NOT '' else '''')"

fun emit :: "emit_ctx \<Rightarrow> node \<Rightarrow> emitted" where
  "emit ctx (NNum v) = Inr (show_dec v, False)"
| "emit ctx (NStr s) = Inr (quoteStr s, False)"
| "emit ctx NStar = Inr (''*'', False)"
| "emit ctx (NInterval secs) = Inr (show_dec secs, False)"
| "emit ctx (NCol name) =
     (if name = ''timestamp'' then Inr (''(timestamp / 1000.0)'', False)
      else if name \<in> set column_names then Inr (name, False)
      else if name \<in> set (ec_aliases ctx) then Inr (quote_json name, False)
      else Inl (UnknownColumn name))"
| "emit ctx (NUnary op e) =
     emit1 (\<lambda>a. if op = ''NOT'' then ''(NOT '' @ a @ '')'' else ''(-'' @ a @ '')'') (emit ctx e)"
| "emit ctx (NBinary op l r) =
     (if op = ''/'' then emit2 (\<lambda>a b. ''('' @ a @ '' * 1.0 / '' @ b @ '')'') (emit ctx l) (emit ctx r)
      else (let op' = (if op = ''<>'' then ''!='' else op) in
            if op' \<notin> set COMPARE_OPS then emit2 (binary_text op') (emit ctx l) (emit ctx r)
            else emit2 (binary_text op') (operand l r (emit ctx l)) (operand r l (emit ctx r))))"
| "emit ctx (NIn e es negate) =
     bind_res (emit_all (map (\<lambda>x. operand x e (emit ctx x)) es)) (\<lambda>(as, u).
     bind_res (emit ctx e) (\<lambda>(a, v).
       Inr (''('' @ a @ '' '' @ not_word negate @ ''IN ('' @ join '', '' as @ ''))'', u \<or> v)))"
| "emit ctx (NLike e p negate) =
     bind_res (emit2 (binary_text (not_word negate @ ''LIKE'')) (emit ctx e) (emit ctx p)) (\<lambda>(a, u). Inr (a, True))"
| "emit ctx (NBetween e lo hi negate) =
     emit2 (\<lambda>a r. ''('' @ a @ '' '' @ not_word negate @ ''BETWEEN '' @ r @ '')'') (emit ctx e)
       (emit2 (\<lambda>b c. b @ '' AND '' @ c) (operand lo e (emit ctx lo)) (operand hi e (emit ctx hi)))"
| "emit ctx (NIsnull e negate) =
     emit1 (\<lambda>a. ''('' @ a @ '' IS '' @ not_word negate @ ''NULL)'') (emit ctx e)"
| "emit ctx (NFunc name args params dist) =
     emit_func ctx name args dist (map (emit ctx) args)"

end
