(* ===== verification/SqlLexLaws.thy ===== *)
theory SqlLexLaws
  imports SqlEmit
begin

text \<open>
  How the tokenizer reads the pieces of text the emitter puts together: numbers, quoted strings,
  names and operators, each followed by something that ends it.
\<close>

section \<open>Numbers read back\<close>

lemma is_digit_props: "is_digit c \<Longrightarrow> \<not> is_ws c \<and> \<not> sql_ws c \<and> c \<notin> {CHR ''-'', CHR ''+'', CHR ''.'', CHR ''/'', CHR 0x27, CHR 0x60, CHR 0x22}"
  by (auto simp: is_digit_def is_ws_def sql_ws_def)

lemma trim_digits:
  assumes "s \<noteq> []" and "\<not> is_ws (hd s)" and "\<not> is_ws (last s)"
  shows "trim s = s"
proof -
  have "dropWhile is_ws s = s" using assms by (cases s) auto
  moreover have "dropWhile is_ws (rev s) = rev s" using assms by (cases s rule: rev_cases) auto
  ultimately show ?thesis by (simp add: trim_def trim_start_def trim_end_def)
qed

lemma digits_val_zeros [simp]: "digits_val (replicate n CHR ''0'' @ s) = digits_val s"
  by (induction n) (simp_all add: digits_val_def digit_val_def)

text \<open>The digits of a decimal, at least one before the point.\<close>

definition padded :: "int \<Rightarrow> nat \<Rightarrow> string" where
  "padded n k = (let s = show_nat (nat \<bar>n\<bar>) in replicate (Suc k - length s) CHR ''0'' @ s)"

lemma padded:
  "list_all is_digit (padded n k)" "k < length (padded n k)" "digits_val (padded n k) = nat \<bar>n\<bar>"
  using show_nat_digits[of _ "nat \<bar>n\<bar>"]
  by (auto simp: padded_def Let_def list_all_iff is_digit_def)

definition num_text :: "string \<Rightarrow> bool" where
  "num_text s = (\<exists>ip fp. ip \<noteq> [] \<and> list_all is_digit ip \<and> list_all is_digit fp \<and> (s = ip \<or> s = ip @ ''.'' @ fp))"

lemma show_dec_text:
  assumes "0 \<le> n"
  shows "num_text (show_dec (Dec n k))"
    and "dec_wf (Dec n k) \<Longrightarrow> js_number (show_dec (Dec n k)) = Some (Dec n k)"
proof -
  have dig: "takeWhile is_digit s = s" "dropWhile is_digit s = []" if "list_all is_digit s" for s
    using that by (auto simp: list_all_iff)
  have num: "js_number s = parse_unsigned s" if "s \<noteq> []" "is_digit (hd s)" "is_digit (last s)" for s
    using that is_digit_props[of "hd s"] is_digit_props[of "last s"] by (auto simp: js_number_def trim_digits)
  have "num_text (show_dec (Dec n k)) \<and> (dec_wf (Dec n k) \<longrightarrow> js_number (show_dec (Dec n k)) = Some (Dec n k))"
  proof (cases "k = 0")
    case True
    let ?s = "show_nat (nat n)"
    have d: "list_all is_digit ?s" "?s \<noteq> []" using show_nat_digits by (auto simp: list_all_iff)
    then have "is_digit (hd ?s)" "is_digit (last ?s)" by (auto simp: list_all_iff)
    with d True assms show ?thesis
      by (auto simp: show_int_def num_text_def num parse_unsigned_def dig intro!: exI[of _ ?s])
  next
    case False
    define p ip fp where "p = padded n k" and "ip = take (length p - k) p" and "fp = drop (length p - k) p"
    have p: "list_all is_digit p" "k < length p" "digits_val p = nat n" "length fp = k" "ip @ fp = p"
      using padded[where n = n and k = k] assms by (auto simp: p_def ip_def fp_def)
    then have d: "list_all is_digit ip" "list_all is_digit fp" by (metis list_all_append)+
    have ne: "ip \<noteq> []" "fp \<noteq> []" using p(2,4) False by (auto simp: ip_def)
    have s: "show_dec (Dec n k) = ip @ ''.'' @ fp"
      using False assms by (simp add: p_def ip_def fp_def padded_def Let_def)
    have dot: "\<not> is_digit (CHR ''.'')" by (simp add: is_digit_def)
    have "takeWhile is_digit (ip @ ''.'' @ fp) = ip" "dropWhile is_digit (ip @ ''.'' @ fp) = ''.'' @ fp"
      using d(1) dot by (auto simp: takeWhile_append dropWhile_append list_all_iff)
    then have "parse_unsigned (ip @ ''.'' @ fp) = Some (norm_dec n k)"
      using d ne p(3,4,5) assms by (simp add: parse_unsigned_def dig)
    moreover have "is_digit (hd ip)" "is_digit (last fp)" using d ne by (auto simp: list_all_iff)
    moreover have "norm_dec n k = Dec n k" if "dec_wf (Dec n k)" using that False by (cases k) auto
    ultimately show ?thesis
      unfolding s using d ne num[of "ip @ ''.'' @ fp"] by (auto simp: num_text_def)
  qed
  then show "num_text (show_dec (Dec n k))" "dec_wf (Dec n k) \<Longrightarrow> js_number (show_dec (Dec n k)) = Some (Dec n k)"
    by blast+
qed

section \<open>Tokens of a text\<close>

type_synonym kind = "token_type \<times> string \<times> string"

definition kind_of :: "token \<Rightarrow> kind" where
  "kind_of t = (tk_type t, tk_value t, tk_upper t)"

definition stops :: "string \<Rightarrow> bool" where
  "stops s = (s = [] \<or> hd s \<in> {CHR '' '', CHR '')'', CHR '',''})"

text \<open>A text is read as tokens of the given kinds, whatever follows it, as long as that ends it.\<close>

definition lexes :: "string \<Rightarrow> kind list \<Rightarrow> bool" where
  "lexes s ks = (\<forall>i rest. stops rest \<longrightarrow> (\<exists>ts j. map kind_of ts = ks
     \<and> tokenize_from i (s @ rest) = bind_res (tokenize_from j rest) (\<lambda>r. Inr (ts @ r))))"

lemma lexes_Nil: "lexes [] []"
proof -
  have "bind_res p (\<lambda>r. Inr r) = p" for p :: "(sql_error, token list) res" by (cases p) auto
  then show ?thesis by (auto simp: lexes_def)
qed

lemma lexes_append:
  assumes "lexes a ka" and "lexes b kb" and "b \<noteq> [] \<and> stops b"
  shows "lexes (a @ b) (ka @ kb)"
  unfolding lexes_def
proof (intro allI impI)
  fix i rest assume rest: "stops rest"
  have "stops (b @ rest)" using assms(3) by (auto simp: stops_def)
  with assms(1) obtain ts j where 1: "map kind_of ts = ka"
    "tokenize_from i (a @ b @ rest) = bind_res (tokenize_from j (b @ rest)) (\<lambda>r. Inr (ts @ r))"
    unfolding lexes_def by blast
  from assms(2) rest obtain ts' j' where 2: "map kind_of ts' = kb"
    "tokenize_from j (b @ rest) = bind_res (tokenize_from j' rest) (\<lambda>r. Inr (ts' @ r))"
    unfolding lexes_def by blast
  have "tokenize_from i ((a @ b) @ rest) = bind_res (tokenize_from j' rest) (\<lambda>r. Inr ((ts @ ts') @ r))"
    using 1(2) 2(2) by (cases "tokenize_from j' rest") auto
  moreover have "map kind_of (ts @ ts') = ka @ kb" using 1 2 by simp
  ultimately show "\<exists>ts j. map kind_of ts = ka @ kb
    \<and> tokenize_from i ((a @ b) @ rest) = bind_res (tokenize_from j rest) (\<lambda>r. Inr (ts @ r))" by blast
qed

lemma lexes_space: "lexes b kb \<Longrightarrow> lexes (CHR '' '' # b) kb"
  by (auto simp: lexes_def tokenize_from.simps(2) sql_ws_def)

text \<open>A first token that is complete whatever follows, then a text.\<close>

lemma lexes_first:
  assumes "lexes b kb"
    and "\<And>i rest. stops rest \<Longrightarrow> \<not> sql_ws (hd a) \<and> \<not> (hd a = CHR ''-'' \<and> starts_with (tl a @ b @ rest) ''-'')
         \<and> \<not> (hd a = CHR ''/'' \<and> starts_with (tl a @ b @ rest) ''*'')
         \<and> (\<exists>t. scan_token i (hd a) (tl a @ b @ rest) = Inr (t, b @ rest) \<and> kind_of t = k)"
    and "a \<noteq> []"
  shows "lexes (a @ b) (k # kb)"
  unfolding lexes_def
proof (intro allI impI)
  fix i rest assume rest: "stops rest"
  from assms(2)[OF rest, of i] obtain t where t: "scan_token i (hd a) (tl a @ b @ rest) = Inr (t, b @ rest)" "kind_of t = k"
    by blast
  from assms(1) rest obtain ts j where 1: "map kind_of ts = kb"
    "tokenize_from (tk_end t) (b @ rest) = bind_res (tokenize_from j rest) (\<lambda>r. Inr (ts @ r))"
    unfolding lexes_def by blast
  have "a @ b @ rest = hd a # tl a @ b @ rest" using assms(3) by simp
  then have "tokenize_from i ((a @ b) @ rest) = bind_res (tokenize_from (tk_end t) (b @ rest)) (\<lambda>ts. Inr (t # ts))"
    using assms(2)[OF rest, of i] t(1) by (simp only: append_assoc) (auto simp: tokenize_from.simps(2))
  also have "\<dots> = bind_res (tokenize_from j rest) (\<lambda>r. Inr ((t # ts) @ r))"
    using 1(2) by (cases "tokenize_from j rest") auto
  finally show "\<exists>ts j. map kind_of ts = k # kb
      \<and> tokenize_from i ((a @ b) @ rest) = bind_res (tokenize_from j rest) (\<lambda>r. Inr (ts @ r))"
    using 1(1) t(2) by (metis list.simps(9))
qed


lemma stops_not: "stops rest \<Longrightarrow> rest \<noteq> [] \<Longrightarrow> \<not> is_word (hd rest) \<and> \<not> is_digit (hd rest)
    \<and> hd rest \<notin> {CHR ''.'', CHR 0x27, CHR ''-'', CHR ''*'', CHR ''='', CHR ''>''}"
  by (auto simp: stops_def is_word_def is_alnum_def is_alpha_def is_digit_def)

lemma word_props: "is_word c \<Longrightarrow> \<not> sql_ws c \<and> c \<notin> {CHR ''-'', CHR ''/'', CHR 0x27, CHR 0x60, CHR 0x22}"
  by (auto simp: is_word_def is_alnum_def is_alpha_def is_digit_def sql_ws_def)

lemma ident_start_props: "ident_start c \<Longrightarrow> is_word c \<and> \<not> is_digit c"
  by (auto simp: ident_start_def is_word_def is_alnum_def is_alpha_def is_digit_def Let_def)

lemma scan_op:
  "c \<in> set ''=!<>+-*/%'' \<Longrightarrow> scan_token i c s =
     (if take 2 (c # s) \<in> set MULTI_OPS
      then Inr (\<lparr>tk_type = TOp, tk_value = take 2 (c # s), tk_upper = take 2 (c # s), tk_start = i, tk_end = i + 2\<rparr>, tl s)
      else if c \<in> set SINGLE_OPS
      then Inr (\<lparr>tk_type = TOp, tk_value = [c], tk_upper = [c], tk_start = i, tk_end = i + 1\<rparr>, s)
      else Inl (UnexpectedChar c i))"
proof -
  assume c: "c \<in> set ''=!<>+-*/%''"
  then have "\<not> is_digit c" "\<not> ident_start c" "c \<noteq> CHR 0x27" "c \<noteq> CHR 0x60" "c \<noteq> CHR 0x22" "c \<notin> set PUNCT"
    by (auto simp: is_digit_def ident_start_def is_alpha_def PUNCT_def)
  then show ?thesis unfolding scan_token_def by (simp add: Let_def)
qed

lemma scan_punct:
  "c \<in> {CHR ''('', CHR '')'', CHR '',''} \<Longrightarrow>
   scan_token i c s = Inr (\<lparr>tk_type = TPunct, tk_value = [c], tk_upper = [c], tk_start = i, tk_end = i + 1\<rparr>, s)"
proof -
  assume c: "c \<in> {CHR ''('', CHR '')'', CHR '',''}"
  then have "\<not> is_digit c" "\<not> ident_start c" "c \<noteq> CHR 0x27" "c \<noteq> CHR 0x60" "c \<noteq> CHR 0x22" "c \<in> set PUNCT"
    "c \<notin> set SINGLE_OPS" by (auto simp: is_digit_def ident_start_def is_alpha_def PUNCT_def SINGLE_OPS_def)
  moreover have "take 2 (c # s) \<notin> set MULTI_OPS" using c by (auto simp: MULTI_OPS_def)
  ultimately show ?thesis unfolding scan_token_def by (simp add: Let_def)
qed

lemma lexes_punct:
  assumes "c \<in> {CHR ''('', CHR '')'', CHR '',''}" and "lexes b kb"
  shows "lexes (c # b) ((TPunct, [c], [c]) # kb)"
proof -
  have "\<not> sql_ws c" "c \<noteq> CHR ''-''" "c \<noteq> CHR ''/''" using assms(1) by (auto simp: sql_ws_def)
  then show ?thesis
    using lexes_first[OF assms(2), of "[c]" "(TPunct, [c], [c])"] by (simp add: scan_punct[OF assms(1)] kind_of_def)
qed

lemma lexes_minus:
  assumes "lexes b kb" and "b \<noteq> []" and "hd b \<noteq> CHR ''-''"
  shows "lexes (CHR ''-'' # b) ((TOp, ''-'', ''-'') # kb)"
proof -
  have "\<not> starts_with (b @ rest) ''-''" "take 2 (CHR ''-'' # b @ rest) \<notin> set MULTI_OPS" for rest
    using assms(2,3) by (cases b; auto simp: js_defs MULTI_OPS_def)+
  then show ?thesis
    using lexes_first[OF assms(1), of "''-''" "(TOp, ''-'', ''-'')"]
    by (simp add: scan_op kind_of_def SINGLE_OPS_def sql_ws_def)
qed

definition operators :: "string list" where
  "operators = [''='', ''!='', ''<'', ''<='', ''>'', ''>='', ''+'', ''-'', ''*'', ''/'', ''%'']"

lemma operators_cases:
  assumes "op \<in> set operators"
  shows "(\<exists>c. op = [c] \<and> c \<in> set SINGLE_OPS) \<or> op \<in> set MULTI_OPS"
proof -
  have "list_all (\<lambda>op. op = [hd op] \<and> hd op \<in> set SINGLE_OPS \<or> op \<in> set MULTI_OPS) operators" by code_simp
  with assms show ?thesis by (auto simp: list_all_iff)
qed

lemma lexes_op:
  assumes "op \<in> set operators"
  shows "lexes op [(TOp, op, op)]"
proof -
  have c: "hd op \<in> set ''=!<>+-*/%''" "op \<noteq> []" "\<not> sql_ws (hd op)"
    using assms by (auto simp: operators_def sql_ws_def)
  have "lexes (op @ []) [(TOp, op, op)]"
  proof (rule lexes_first[OF lexes_Nil _ c(2)])
    fix i and rest :: string assume "stops rest"
    note r = stops_not[OF this]
    from operators_cases[OF assms] have "\<exists>t. scan_token i (hd op) (tl op @ rest) = Inr (t, rest) \<and> kind_of t = (TOp, op, op)"
    proof (elim disjE exE conjE)
      fix x assume x: "op = [x]" "x \<in> set SINGLE_OPS"
      then have "take 2 (x # rest) \<notin> set MULTI_OPS" using r by (cases rest) (auto simp: MULTI_OPS_def)
      with x c show ?thesis by (simp add: scan_op kind_of_def)
    next
      assume m: "op \<in> set MULTI_OPS"
      then obtain x y where xy: "op = [x, y]" by (auto simp: MULTI_OPS_def)
      with m c show ?thesis by (simp add: scan_op kind_of_def numeral_2_eq_2)
    qed
    moreover have "\<not> (hd op = CHR ''-'' \<and> starts_with (tl op @ rest) ''-'')"
      "\<not> (hd op = CHR ''/'' \<and> starts_with (tl op @ rest) ''*'')"
      using operators_cases[OF assms] r by (cases rest; auto simp: MULTI_OPS_def starts_with_def)+
    ultimately show "\<not> sql_ws (hd op) \<and> \<not> (hd op = CHR ''-'' \<and> starts_with (tl op @ [] @ rest) ''-'')
         \<and> \<not> (hd op = CHR ''/'' \<and> starts_with (tl op @ [] @ rest) ''*'')
         \<and> (\<exists>t. scan_token i (hd op) (tl op @ [] @ rest) = Inr (t, [] @ rest) \<and> kind_of t = (TOp, op, op))"
      using c(3) by simp
  qed
  then show ?thesis by simp
qed

lemma lexes_word:
  assumes "lexes b kb" and "v \<noteq> []" and "ident_start (hd v)" and "list_all is_word v" and "b \<noteq> [] \<Longrightarrow> \<not> is_word (hd b)"
  shows "lexes (v @ b) ((TIdent, v, to_upper v) # kb)"
proof (rule lexes_first[OF assms(1) _ assms(2)])
  fix i and rest :: string assume "stops rest"
  then have "b @ rest = [] \<or> \<not> is_word (hd (b @ rest))" using assms(5) stops_not[of rest] by (cases b) auto
  then have "takeWhile is_word (v @ b @ rest) = v" "dropWhile is_word (v @ b @ rest) = b @ rest"
    using assms(4) by (cases "b @ rest"; force simp: list_all_iff)+
  moreover obtain c w where "v = c # w" using assms(2) by (cases v) auto
  ultimately show "\<not> sql_ws (hd v) \<and> \<not> (hd v = CHR ''-'' \<and> starts_with (tl v @ b @ rest) ''-'')
         \<and> \<not> (hd v = CHR ''/'' \<and> starts_with (tl v @ b @ rest) ''*'')
         \<and> (\<exists>t. scan_token i (hd v) (tl v @ b @ rest) = Inr (t, b @ rest) \<and> kind_of t = (TIdent, v, to_upper v))"
    using assms(3) ident_start_props[of c] word_props[of c] by (auto simp: scan_token_def kind_of_def Let_def)
qed

lemma scan_num_stop: "(rest \<noteq> [] \<Longrightarrow> \<not> is_digit (hd rest) \<and> (b \<or> hd rest \<noteq> CHR ''.'')) \<Longrightarrow> scan_num b rest = ([], rest)"
  by (cases rest) auto

lemma scan_num_digits: "list_all is_digit ds \<Longrightarrow> scan_num b (ds @ s) = (ds @ fst (scan_num b s), snd (scan_num b s))"
  by (induction ds) (auto simp: case_prod_unfold)

lemma lexes_num:
  assumes "num_text s"
  shows "lexes s [(TNum, s, s)]"
proof -
  from assms obtain ip fp where ip: "ip \<noteq> []" "list_all is_digit ip" "list_all is_digit fp" "s = ip \<or> s = ip @ ''.'' @ fp"
    unfolding num_text_def by blast
  have scan: "scan_num False (s @ rest) = (s, rest)" if "stops rest" for rest
  proof -
    have "scan_num b rest = ([], rest)" for b using stops_not[OF that] by (intro scan_num_stop) auto
    then show ?thesis using ip(2-4) is_digit_props[of "CHR ''.''"] by (auto simp: scan_num_digits)
  qed
  have d: "is_digit (hd s)" "s \<noteq> []" using ip by (auto simp: list_all_iff)
  have "lexes (s @ []) [(TNum, s, s)]"
  proof (rule lexes_first[OF lexes_Nil _ d(2)])
    fix i and rest :: string assume "stops rest"
    with scan have "scan_num False (hd s # tl s @ rest) = (s, rest)" using d(2) by (cases s) auto
    then show "\<not> sql_ws (hd s) \<and> \<not> (hd s = CHR ''-'' \<and> starts_with (tl s @ [] @ rest) ''-'')
         \<and> \<not> (hd s = CHR ''/'' \<and> starts_with (tl s @ [] @ rest) ''*'')
         \<and> (\<exists>t. scan_token i (hd s) (tl s @ [] @ rest) = Inr (t, [] @ rest) \<and> kind_of t = (TNum, s, s))"
      using is_digit_props[OF d(1)] d(1) by (auto simp: scan_token_def kind_of_def)
  qed
  then show ?thesis by simp
qed

lemma scan_str_quoted:
  "(rest \<noteq> [] \<Longrightarrow> hd rest \<noteq> CHR 0x27) \<Longrightarrow>
   \<exists>k. scan_str (concat (map (\<lambda>c. if c = CHR 0x27 then [c, c] else [c]) s) @ CHR 0x27 # rest) = (s, k, rest)"
proof (induction s)
  case Nil
  then show ?case by (cases rest) auto
next
  case (Cons c s)
  then obtain k where "scan_str (concat (map (\<lambda>c. if c = CHR 0x27 then [c, c] else [c]) s) @ CHR 0x27 # rest) = (s, k, rest)"
    by blast
  then show ?case by auto
qed

lemma lexes_str: "lexes (quoteStr s) [(TStr, s, s)]"
proof -
  let ?q = "concat (map (\<lambda>c. if c = CHR 0x27 then [c, c] else [c]) s) @ [CHR 0x27]"
  have "lexes ((CHR 0x27 # ?q) @ []) [(TStr, s, s)]"
  proof (rule lexes_first[OF lexes_Nil])
    fix i and rest :: string assume "stops rest"
    then obtain k where "scan_str (?q @ rest) = (s, k, rest)"
      using scan_str_quoted[of rest s] stops_not[of rest] by auto
    then show "\<not> sql_ws (hd (CHR 0x27 # ?q)) \<and> \<not> (hd (CHR 0x27 # ?q) = CHR ''-'' \<and> starts_with (tl (CHR 0x27 # ?q) @ [] @ rest) ''-'')
         \<and> \<not> (hd (CHR 0x27 # ?q) = CHR ''/'' \<and> starts_with (tl (CHR 0x27 # ?q) @ [] @ rest) ''*'')
         \<and> (\<exists>t. scan_token i (hd (CHR 0x27 # ?q)) (tl (CHR 0x27 # ?q) @ [] @ rest) = Inr (t, [] @ rest) \<and> kind_of t = (TStr, s, s))"
      by (simp add: scan_token_def kind_of_def sql_ws_def)
  qed simp
  then show ?thesis by (simp add: quoteStr_def)
qed

end
