(* ===== verification/SqlParserLaws.thy ===== *)
theory SqlParserLaws
  imports SqlParser
begin

text \<open>
  The parser of queries always returns: it never runs out of the bound on the nesting of
  expressions, because every parser of the grammar consumes a token and calls the others on what
  remains. \<open>fine b p\<close> says that \<open>p\<close> is not the error of an exhausted bound and, when it is a
  result, leaves fewer than \<open>b\<close> tokens.
\<close>

definition fine :: "nat \<Rightarrow> 'a parsed \<Rightarrow> bool" where
  "fine b p = (case p of Inl e \<Rightarrow> e \<noteq> OutOfFuel | Inr (x, r) \<Rightarrow> length r < b)"

definition fine_rest :: "nat \<Rightarrow> (sql_error, token list) res \<Rightarrow> bool" where
  "fine_rest b p = (case p of Inl e \<Rightarrow> e \<noteq> OutOfFuel | Inr r \<Rightarrow> length r < b)"

lemma fine_simps [simp]:
  "fine b (Inr (x, r)) \<longleftrightarrow> length r < b" "fine b (Inl e) \<longleftrightarrow> e \<noteq> OutOfFuel"
  "fine_rest b (Inr r) \<longleftrightarrow> length r < b" "fine_rest b (Inl e) \<longleftrightarrow> e \<noteq> OutOfFuel"
  by (auto simp: fine_def fine_rest_def)

lemma fine_mono: "fine b p \<Longrightarrow> b \<le> c \<Longrightarrow> fine c p"
  by (auto simp: fine_def split: sum.splits)

lemma fine_bind:
  "fine b p \<Longrightarrow> (\<And>x r. length r < b \<Longrightarrow> fine c (f x r)) \<Longrightarrow> fine c (bind_res p (\<lambda>(x, r). f x r))"
  by (cases p) auto

lemma fine_bind_rest:
  "fine_rest b p \<Longrightarrow> (\<And>r. length r < b \<Longrightarrow> fine c (f r)) \<Longrightarrow> fine c (bind_res p f)"
  by (cases p) auto

lemma fine_next: "fine (length ts) (next_token ts)"
  by (cases ts) (auto simp: next_token_def)

lemma fine_expectKeyword: "fine_rest (length ts) (expectKeyword kw ts)"
  by (cases ts) (auto simp: expectKeyword_def)

lemma fine_expect_value: "e \<noteq> OutOfFuel \<Longrightarrow> fine_rest (length ts) (expect_value v e ts)"
  by (cases ts) (auto simp: expect_value_def next_token_def)

lemma length_tl_if: "length (if c then tl r else r) \<le> length r"
  using length_tl_le[of r] by simp

definition fine_below :: "nat \<Rightarrow> (nat \<Rightarrow> token list \<Rightarrow> node parsed) \<Rightarrow> bool" where
  "fine_below n pe = (\<forall>m ts. length ts < n \<longrightarrow> fine (length ts) (pe m ts))"

lemma fine_belowD: "fine_below n pe \<Longrightarrow> length ts < n \<Longrightarrow> fine (length ts) (pe m ts)"
  by (simp add: fine_below_def)

lemma fine_commas:
  "fine_below n pe \<Longrightarrow> length ts < n \<Longrightarrow> length ts < k \<Longrightarrow> fine (length ts) (parse_commas k pe ts)"
proof (induction k pe ts rule: parse_commas.induct)
  case (2 k pe ts)
  show ?case unfolding parse_commas.simps
  proof (rule fine_bind[OF fine_belowD[OF 2(2,3)]], goal_cases)
    case r: (1 e r)
    with length_tl_le[of r] "2.prems" have "fine (length (tl r)) (parse_commas k pe (tl r))"
      if "peek_value '','' r" using that by (intro "2.IH") auto
    then have "fine (length ts) (parse_commas k pe (tl r))" if "peek_value '','' r"
      by (rule fine_mono[OF _]) (use that r length_tl_le[of r] in auto)
    then show ?case using r by (auto intro: fine_bind)
  qed
qed simp

lemma fine_args:
  assumes "fine_below n pe" and "length ts < n" and "e \<noteq> OutOfFuel"
  shows "fine (length ts) (parse_args pe e ts)"
proof -
  have "fine (Suc (length ts)) (if peek_value '')'' ts then Inr ([], ts) else parse_commas (Suc (length ts)) pe ts)"
    using fine_mono[OF fine_commas[OF assms(1,2), of "Suc (length ts)"], of "Suc (length ts)"] by simp
  then show ?thesis unfolding parse_args_def
  proof (rule fine_bind, goal_cases)
    case (1 args r)
    then show ?case using fine_expect_value[OF assms(3), of r] by (auto intro!: fine_bind_rest)
  qed
qed

lemma fine_argList:
  assumes "fine_below n pe" and "length ts \<le> n"
  shows "fine (length ts) (parseArgList pe name ts)"
  unfolding parseArgList_def Let_def
proof (rule fine_bind[OF fine_next], goal_cases)
  case r: (1 t r)
  let ?r = "if isKeyword ''DISTINCT'' r then tl r else r"
  have "length ?r < length ts" using r length_tl_if[of "isKeyword ''DISTINCT'' r" r] by linarith
  with assms have "fine (length ts) (parse_args pe (ExpectedArgsClose name) ?r)"
    by (intro fine_mono[OF fine_args[of n]]) auto
  then show ?case by (auto intro: fine_bind)
qed

lemma fine_func:
  assumes "fine_below n pe" and "length ts \<le> n"
  shows "fine (length ts) (parseFunc pe name ts)"
  unfolding parseFunc_def
proof (rule fine_bind[OF fine_argList[OF assms]], goal_cases)
  case r: (1 x r)
  have "fine (length ts) (parseArgList pe name r)"
    using assms r by (intro fine_mono[OF fine_argList[of n]]) auto
  then show ?case using r by (cases x) (auto intro: fine_bind)
qed

lemma fine_interval: "fine (length ts) (parseInterval ts)"
  by (cases ts; cases "tl ts") (auto simp: parseInterval_def next_token_def split: option.splits)

lemma fine_primary:
  assumes "fine_below n pe" and "length ts \<le> n"
  shows "fine (length ts) (parsePrimary pe ts)"
  unfolding parsePrimary_def
proof (rule fine_bind[OF fine_next], goal_cases)
  case r: (1 t r)
  have "fine (length ts) (bind_res (pe 0 r) (\<lambda>(inner, r1). bind_res (expect_value '')'' ExpectedParen r1) (\<lambda>r2. Inr (inner, r2))))"
  proof (rule fine_bind[OF fine_belowD[OF assms(1)]], goal_cases)
    case 1
    show ?case using assms(2) r by simp
  next
    case (2 e r1)
    then show ?case using r fine_expect_value[of ExpectedParen r1 "'')''"] by (auto intro!: fine_bind_rest)
  qed
  moreover have "fine (length ts) (parseInterval r)" by (rule fine_mono[OF fine_interval]) (use r in simp)
  moreover have "fine (length ts) (parseFunc pe (tk_value t) r)"
    using assms r by (intro fine_mono[OF fine_func[of n]]) auto
  ultimately show ?case using r by (auto split: option.splits)
qed

lemma fine_unary: "fine_below n pe \<Longrightarrow> length ts \<le> n \<Longrightarrow> fine (length ts) (parseUnary pe ts)"
proof (induction pe ts rule: parseUnary.induct)
  case (1 pe)
  then show ?case using fine_primary[of n pe "[]"] by simp
next
  case (2 pe t r)
  then show ?case using fine_primary[of n pe "t # r"]
    by (auto intro!: fine_bind[of "length r"])
qed

lemma fine_prefix:
  assumes "fine_below n pe" and "length ts \<le> n"
  shows "fine (length ts) (parsePrefix pe ts)"
proof (cases "isKeyword ''NOT'' ts")
  case True
  then have "length (tl ts) < length ts" by (cases ts) (auto simp: isKeyword_def)
  with assms have "fine (length ts) (pe 3 (tl ts))"
    by (intro fine_mono[OF fine_belowD[of n]]) auto
  then show ?thesis using True unfolding parsePrefix_def by (auto intro: fine_bind)
qed (simp add: parsePrefix_def fine_unary[OF assms])

lemma fine_predicate:
  assumes "fine_below n pe" and "length ts \<le> n"
  shows "fine (length ts) (parsePredicate pe left negate ts)"
  unfolding parsePredicate_def
proof (rule fine_bind[OF fine_next], goal_cases)
  case r: (1 t r)
  have pe: "fine (length r') (pe m r')" if "length r' \<le> length r" for m r'
    using assms r that by (intro fine_belowD[of n]) auto
  have "fine (length ts) (bind_res (expect_value ''('' ExpectedInParen r) (\<lambda>r1.
         bind_res (parse_args pe ExpectedInClose r1) (\<lambda>(list, r2). Inr (NIn left list negate, r2))))"
  proof (rule fine_bind_rest[OF fine_expect_value], goal_cases)
    case (2 r1)
    then have "fine (length ts) (parse_args pe ExpectedInClose r1)"
      using assms r by (intro fine_mono[OF fine_args[of n]]) auto
    then show ?case by (auto intro: fine_bind)
  qed simp
  moreover have "fine (length ts) (bind_res (pe 4 r) (\<lambda>(pat, r1). Inr (NLike left pat negate, r1)))"
    by (rule fine_bind[OF pe]) (use r in auto)
  moreover have "fine (length ts) (bind_res (pe 4 r) (\<lambda>(low, r1).
         bind_res (expectKeyword ''AND'' r1) (\<lambda>r2.
         bind_res (pe 4 r2) (\<lambda>(high, r3). Inr (NBetween left low high negate, r3)))))"
  proof (rule fine_bind[OF pe], goal_cases)
    case r1: (2 low r1)
    show ?case
    proof (rule fine_bind_rest[OF fine_expectKeyword], goal_cases)
      case (1 r2)
      then show ?case by (intro fine_bind[OF pe]) (use r r1 in auto)
    qed
  qed simp
  moreover have "fine (length ts) (bind_res (expectKeyword ''NULL'' (if neg then tl r else r)) (\<lambda>r1. Inr (NIsnull left neg, r1)))" for neg
    by (rule fine_bind_rest[OF fine_expectKeyword]) (use r length_tl_if[of neg r] in auto)
  ultimately show ?case by (simp add: Let_def)
qed


lemma fine_loop:
  "fine_below n pe \<Longrightarrow> length ts \<le> n \<Longrightarrow> length ts < k \<Longrightarrow> fine (Suc (length ts)) (parse_loop k pe m left ts)"
proof (induction k pe m left ts rule: parse_loop.induct)
  case (3 k pe m left t r)
  have go: "fine (Suc (length (t # r))) (bind_res p (\<lambda>(x, r'). parse_loop k pe m (g x) r'))"
    if "fine (length (t # r)) p"
      "\<And>x r'. length r' < length (t # r) \<Longrightarrow> fine (Suc (length r')) (parse_loop k pe m (g x) r')" for p :: "node parsed" and g
    by (rule fine_bind[OF that(1)]) (rule fine_mono[OF that(2)], auto)
  have pred: "fine (length (t # r)) (parsePredicate pe left False (t # r))"
    "fine (length (t # r)) (parsePredicate pe left True r)"
    using "3.prems" fine_mono[OF fine_predicate[OF "3.prems"(1), of r left True], of "length (t # r)"]
      fine_predicate[OF "3.prems"(1), of "t # r" left False] by auto
  have expr: "fine (length (t # r)) (pe p r)" for p
    using "3.prems" by (intro fine_mono[OF fine_belowD[of n]]) auto
  consider "is_predicate t \<and> m \<le> 3" | "\<not> (is_predicate t \<and> m \<le> 3)" "keyword ''NOT'' t \<and> m \<le> 3 \<and> is_negatable r"
    | "\<not> (is_predicate t \<and> m \<le> 3)" "\<not> (keyword ''NOT'' t \<and> m \<le> 3 \<and> is_negatable r)" by blast
  then show ?case
  proof cases
    case 1
    have "fine (Suc (length (t # r))) (bind_res (parsePredicate pe left False (t # r)) (\<lambda>(x, r'). parse_loop k pe m x r'))"
      by (rule go[where g = "\<lambda>x. x", OF pred(1)]) (use 3 1 in auto)
    with 1 show ?thesis by simp
  next
    case 2
    have "fine (Suc (length (t # r))) (bind_res (parsePredicate pe left True r) (\<lambda>(x, r'). parse_loop k pe m x r'))"
      by (rule go[where g = "\<lambda>x. x", OF pred(2)]) (use 3 2 in auto)
    with 2 show ?thesis by simp
  next
    case none: 3
    have "fine (Suc (length (t # r))) (bind_res (pe (p + 1) r) (\<lambda>(right, r'). parse_loop k pe m (NBinary op left right) r'))"
      if "operator_of t = Some op" "map_of PRECEDENCE op = Some p" "\<not> p < m" for op p
      by (rule go[where g = "NBinary op left", OF expr]) (use 3 none that in auto)
    then show ?thesis using none by (auto split: option.split)
  qed
qed simp_all

lemma fine_parseExpr: "fine_below n (parseExpr n)"
proof (induction n)
  case (Suc n)
  show ?case unfolding fine_below_def
  proof (intro allI impI)
    fix m and ts :: "token list" assume ts: "length ts < Suc n"
    show "fine (length ts) (parseExpr (Suc n) m ts)" unfolding parseExpr.simps
    proof (rule fine_bind[OF fine_prefix[OF Suc]], goal_cases)
      case (2 left r)
      with ts have "fine (Suc (length r)) (parse_loop (Suc (length r)) (parseExpr n) m left r)"
        by (intro fine_loop[OF Suc]) auto
      then show ?case by (rule fine_mono) (use 2 in simp)
    qed (use ts in simp)
  qed
qed (simp add: fine_below_def)

lemma fine_expr_at: "fine (length ts) (expr_at m ts)"
  unfolding expr_at_def by (rule fine_belowD[OF fine_parseExpr]) simp

section \<open>Queries\<close>

lemma fine_select_item: "fine (length ts) (parse_select_item sql ts)"
  unfolding parse_select_item_def Let_def
proof (rule fine_bind[OF fine_expr_at], goal_cases)
  case r: (1 e r)
  have "fine (length ts) (bind_res (next_token (tl r)) (\<lambda>(t, r1). Inr (\<lparr>si_expr = e, si_name = tk_value t\<rparr>, r1)))"
    by (rule fine_bind[OF fine_next]) (use r length_tl_le[of r] in auto)
  then show ?case using r length_tl_le[of r] by auto
qed

lemma fine_order_item: "fine (length ts) (parseOrderItem ts)"
  unfolding parseOrderItem_def
proof (rule fine_bind[OF fine_expr_at], goal_cases)
  case (1 e r)
  then show ?case using length_tl_le[of r] by auto
qed

lemma fine_comma_list:
  assumes item: "\<And>ts. fine (length ts) (item ts)"
  shows "length ts < k \<Longrightarrow> fine (length ts) (comma_list k item ts)"
proof (induction k arbitrary: ts)
  case (Suc k)
  show ?case unfolding comma_list.simps
  proof (rule fine_bind[OF item], goal_cases)
    case r: (1 x r)
    then have "fine (length (tl r)) (comma_list k item (tl r))"
      using Suc length_tl_le[of r] by (intro Suc.IH) auto
    then have "fine (length ts) (comma_list k item (tl r))"
      by (rule fine_mono) (use r length_tl_le[of r] in auto)
    then show ?case using r by (auto intro: fine_bind)
  qed
qed simp

text \<open>An optional clause leaves at most the tokens it was given.\<close>

lemma fine_clauses:
  "fine (Suc (length ts)) (parse_where ts)"
  "fine (Suc (length ts)) (parse_by kw (expr_at 0) ts)"
  "fine (Suc (length ts)) (parse_by kw parseOrderItem ts)"
  "fine (Suc (length ts)) (parse_limit ts)"
  "fine (Suc (length ts)) (parse_format ts)"
proof -
  have tl: "length (tl ts) \<le> length ts" by (rule length_tl_le)
  show "fine (Suc (length ts)) (parse_where ts)"
    unfolding parse_where_def using tl by (auto intro!: fine_bind[OF fine_expr_at])
  have clause: "fine (Suc (length ts)) (parse_by kw item ts)"
    if "\<And>ts. fine (length ts) (item ts)" for item :: "token list \<Rightarrow> 'b parsed"
  proof -
    have "fine (Suc (length ts)) (bind_res (expectKeyword ''BY'' (tl ts)) (\<lambda>r. comma_list (Suc (length r)) item r))"
    proof (rule fine_bind_rest[OF fine_expectKeyword], goal_cases)
      case (1 r)
      have "fine (length r) (comma_list (Suc (length r)) item r)" by (rule fine_comma_list[OF that]) simp
      then show ?case by (rule fine_mono) (use 1 tl in simp)
    qed
    then show ?thesis by (simp add: parse_by_def)
  qed
  show "fine (Suc (length ts)) (parse_by kw (expr_at 0) ts)" by (rule clause) (rule fine_expr_at)
  show "fine (Suc (length ts)) (parse_by kw parseOrderItem ts)" by (rule clause) (rule fine_order_item)
  show "fine (Suc (length ts)) (parse_limit ts)" "fine (Suc (length ts)) (parse_format ts)"
    unfolding parse_limit_def parse_format_def using tl by (auto intro!: fine_bind[OF fine_next])
qed

lemma not_fuel_bind:
  "fine b p \<Longrightarrow> (\<And>x r. f x r \<noteq> Inl OutOfFuel) \<Longrightarrow> bind_res p (\<lambda>(x, r). f x r) \<noteq> Inl OutOfFuel"
  by (cases p) auto

lemma not_fuel_bind_rest:
  "fine_rest b p \<Longrightarrow> (\<And>r. f r \<noteq> Inl OutOfFuel) \<Longrightarrow> bind_res p f \<noteq> Inl OutOfFuel"
  by (cases p) auto

lemma parse_returns: "parse sql ts \<noteq> Inl OutOfFuel"
proof -
  have select: "fine (length r) (parseSelectList sql r)" for r
    unfolding parseSelectList_def by (rule fine_comma_list[OF fine_select_item]) simp
  have data: "fine (length r) (parseDataset r)" for r
    unfolding parseDataset_def by (rule fine_bind[OF fine_next]) auto
  have "parse_end r \<noteq> Inl OutOfFuel" for r by (auto simp: parse_end_def split: list.splits)
  then have last: "bind_res (parse_end r) f \<noteq> Inl OutOfFuel" if "\<And>x. f x \<noteq> Inl OutOfFuel" for r and f :: "unit \<Rightarrow> (sql_error, 'b) res"
    using that by (cases "parse_end r") auto
  show ?thesis unfolding parse_def
    by (intro not_fuel_bind_rest[OF fine_expectKeyword] not_fuel_bind[OF select] not_fuel_bind[OF data]
        not_fuel_bind[OF fine_clauses(1)] not_fuel_bind[OF fine_clauses(2)] not_fuel_bind[OF fine_clauses(3)]
        not_fuel_bind[OF fine_clauses(4)] not_fuel_bind[OF fine_clauses(5)] last) simp
qed

lemma tokenize_not_fuel: "tokenize_from i s \<noteq> Inl OutOfFuel"
proof (induction i s rule: tokenize_from.induct)
  case (2 i c s)
  have "scan_token i c s \<noteq> Inl OutOfFuel"
    by (auto simp: scan_token_def Let_def split: prod.splits)
  then show ?case using 2
    by (subst tokenize_from.simps) (auto simp: bind_res_eq_Inl Let_def split: sum.splits)
qed (simp add: tokenize_from.simps)

text \<open>
  C38. The translation always returns: whatever text the query is, tokenizing and parsing it ends
  with a query or with one of the errors of the language, however deep expressions are nested.
\<close>

theorem parser_returns:
  "bind_res (tokenize sql) (\<lambda>ts. parse sql ts) \<noteq> Inl OutOfFuel"
  using tokenize_not_fuel[of 0 sql] parse_returns[of sql] unfolding tokenize_def
  by (cases "tokenize_from 0 sql") auto

end
