(* ===== verification/SqlRoundTrip.thy ===== *)
theory SqlRoundTrip
  imports SqlLexLaws SqlParserLaws
begin

text \<open>
  The text the emitter produces for an expression, read again, is the expression: the grouping of
  the operators, the quoting of strings and the rewritings of the emitter (milliseconds to
  seconds, real division, date literals to seconds) are as intended. \<open>meaning\<close> is the expression
  with these rewritings; \<open>core\<close> are the expressions without the functions that turn into SQL
  outside the grammar of the parser (\<open>CAST\<close>, \<open>CASE\<close>).
\<close>

section \<open>Expressions and their meaning\<close>

definition date_typed :: "node \<Rightarrow> bool" where
  "date_typed e = (inferType e = ''DateTime'' \<or> inferType e = ''Date'')"

definition seconds_node :: "int \<Rightarrow> node" where
  "seconds_node t = (if t < 0 then NUnary ''-'' (NNum (Dec (- t) 0)) else NNum (Dec t 0))"

definition literal_or :: "node \<Rightarrow> node \<Rightarrow> node \<Rightarrow> node" where
  "literal_or n against m =
     (case n of
        NStr s \<Rightarrow> if date_typed against
                  then (case parseDateTimeLiteral s of Inl _ \<Rightarrow> m | Inr t \<Rightarrow> seconds_node t) else m
      | _ \<Rightarrow> m)"

definition plain_calls :: "string list" where
  "plain_calls = [''avg'', ''min'', ''max'', ''abs'', ''round'', ''min2'', ''max2'', ''coalesce'', ''length'',
     ''lower'', ''upper'']"

fun meaning :: "node \<Rightarrow> node" where
  "meaning (NNum v) = NNum v"
| "meaning (NStr s) = NStr s"
| "meaning (NCol c) = (if c = ''timestamp'' then NBinary ''/'' (NCol ''timestamp'') (NNum (Dec 1000 0)) else NCol c)"
| "meaning NStar = NStar"
| "meaning (NInterval v) = NNum v"
| "meaning (NUnary op e) = NUnary op (meaning e)"
| "meaning (NBinary op l r) =
     (if op = ''/'' then NBinary ''/'' (NBinary ''*'' (meaning l) (NNum (Dec 1 0))) (meaning r)
      else (let op' = (if op = ''<>'' then ''!='' else op) in
            if op' \<in> set COMPARE_OPS
            then NBinary op' (literal_or l r (meaning l)) (literal_or r l (meaning r))
            else NBinary op' (meaning l) (meaning r)))"
| "meaning (NIn e es neg) = NIn (meaning e) (map (\<lambda>x. literal_or x e (meaning x)) es) neg"
| "meaning (NLike e p neg) = NLike (meaning e) (meaning p) neg"
| "meaning (NBetween e lo hi neg) =
     NBetween (meaning e) (literal_or lo e (meaning lo)) (literal_or hi e (meaning hi)) neg"
| "meaning (NIsnull e neg) = NIsnull (meaning e) neg"
| "meaning (NFunc name args params d) = NFunc (to_upper (to_lower name)) (map meaning args) None False"

text \<open>
  A list whose first element is the string \<open>)\<close> is read as empty, because the parser does not look
  at the type of the token (\<open>closing_string_read_as_parenthesis\<close>); it is excluded.
\<close>

definition list_ok :: "node list \<Rightarrow> bool" where
  "list_ok es = (es = [] \<or> hd es \<noteq> NStr '')'')"

fun num_ok :: "dec \<Rightarrow> bool" where
  "num_ok (Dec n k) = (0 \<le> n \<and> dec_wf (Dec n k))"

fun core :: "node \<Rightarrow> bool" where
  "core (NNum v) = num_ok v"
| "core (NStr s) = True"
| "core (NCol c) = (c \<in> set column_names)"
| "core NStar = False"
| "core (NInterval v) = num_ok v"
| "core (NUnary op e) = (op \<in> {''NOT'', ''-''} \<and> core e)"
| "core (NBinary op l r) = (op \<in> fst ` set PRECEDENCE \<and> core l \<and> core r)"
| "core (NIn e es neg) = (core e \<and> list_all core es \<and> list_ok es)"
| "core (NLike e p neg) = (core e \<and> core p)"
| "core (NBetween e lo hi neg) = (core e \<and> core lo \<and> core hi)"
| "core (NIsnull e neg) = core e"
| "core (NFunc name args params d) =
     (to_lower name \<in> set plain_calls \<and> list_all core args \<and> list_ok args \<and> params = None \<and> \<not> d)"

section \<open>Tokens read as expressions\<close>

text \<open>What may follow an operand at a precedence: nothing that the loop of \<open>parseExpr\<close> goes on with.\<close>

definition closes :: "nat \<Rightarrow> token list \<Rightarrow> bool" where
  "closes m rest =
     (case rest of [] \<Rightarrow> True
      | t # r \<Rightarrow> tk_value t \<noteq> ''('' \<and> \<not> (is_predicate t \<and> m \<le> 3) \<and> \<not> keyword ''NOT'' t
          \<and> (case operator_of t of None \<Rightarrow> True
             | Some op \<Rightarrow> (case map_of PRECEDENCE op of None \<Rightarrow> True | Some p \<Rightarrow> p < m)))"

lemma parse_loop_closes: "closes m rest \<Longrightarrow> parse_loop (Suc k) pe m left rest = Inr (left, rest)"
  by (cases rest) (auto simp: closes_def split: option.splits)

lemma closes_not_call: "closes m rest \<Longrightarrow> \<not> peek_value ''('' rest"
  by (auto simp: closes_def peek_value_def split: list.splits)

definition reads :: "kind list \<Rightarrow> node \<Rightarrow> bool" where
  "reads ks e =
     (ks \<noteq> [] \<and> (\<forall>kw \<in> {''NOT'', ''DISTINCT''}. \<forall>v. hd ks \<noteq> (TIdent, v, kw))
      \<and> (fst (snd (hd ks)) = '')'' \<longrightarrow> e = NStr '')'')
      \<and> (\<forall>n ts rest. map kind_of ts = ks \<longrightarrow> length ks \<le> n \<longrightarrow> \<not> peek_value ''('' rest \<longrightarrow>
           parseUnary (parseExpr n) (ts @ rest) = Inr (e, rest)))"

lemma readsD:
  assumes "reads ks e" and "map kind_of ts = ks" and "length ks \<le> n" and "\<not> peek_value ''('' rest"
  shows "parseUnary (parseExpr n) (ts @ rest) = Inr (e, rest)"
    and "\<not> isKeyword ''NOT'' (ts @ rest)" and "\<not> isKeyword ''DISTINCT'' (ts @ rest)" and "ts \<noteq> []"
proof -
  from assms(1,2) obtain t r where ts: "ts = t # r" by (cases ts) (auto simp: reads_def)
  have "hd ks = kind_of t" using assms(2) ts by auto
  then have "\<not> keyword ''NOT'' t" "\<not> keyword ''DISTINCT'' t"
    using assms(1) by (auto simp: reads_def keyword_def kind_of_def)
  then show "\<not> isKeyword ''NOT'' (ts @ rest)" "\<not> isKeyword ''DISTINCT'' (ts @ rest)" "ts \<noteq> []"
    by (auto simp: ts isKeyword_def)
  show "parseUnary (parseExpr n) (ts @ rest) = Inr (e, rest)" using assms unfolding reads_def by blast
qed

lemma reads_prefix:
  assumes "reads ks e" and "map kind_of ts = ks" and "length ks < n" and "\<not> peek_value ''('' rest"
  shows "parseExpr n m (ts @ rest) = parse_loop (Suc (length rest)) (parseExpr (n - 1)) m e rest"
proof -
  from assms(3) obtain n' where n: "n = Suc n'" by (cases n) auto
  have "length ks \<le> n'" using assms(3) n by simp
  note r = readsD[OF assms(1,2) this assms(4)]
  show ?thesis using r by (simp add: n parsePrefix_def)
qed

lemma reads_expr:
  assumes "reads ks e" and "map kind_of ts = ks" and "length ks < n" and "closes m rest"
  shows "parseExpr n m (ts @ rest) = Inr (e, rest)"
  using reads_prefix[OF assms(1-3) closes_not_call[OF assms(4)]] parse_loop_closes[OF assms(4)] by simp

abbreviation KP :: "char \<Rightarrow> kind" where "KP c \<equiv> (TPunct, [c], [c])"
abbreviation KO :: "string \<Rightarrow> kind" where "KO op \<equiv> (TOp, op, op)"
abbreviation KI :: "string \<Rightarrow> kind" where "KI v \<equiv> (TIdent, v, to_upper v)"

lemma closes_paren [simp]: "kind_of t = KP (CHR '')'') \<Longrightarrow> closes m (t # r)"
  and closes_comma [simp]: "kind_of t = KP (CHR '','') \<Longrightarrow> closes m (t # r)"
  by (auto simp: closes_def kind_of_def is_predicate_def keyword_def operator_of_def)

lemma map_kind_split:
  "map kind_of ts = k # ks \<longleftrightarrow> (\<exists>t r. ts = t # r \<and> kind_of t = k \<and> map kind_of r = ks)"
  "map kind_of ts = ka @ kb \<longleftrightarrow> (\<exists>ta tb. ts = ta @ tb \<and> map kind_of ta = ka \<and> map kind_of tb = kb)"
  by (auto simp: map_eq_Cons_conv map_eq_append_conv)

lemma readsI:
  assumes "ks \<noteq> []" and "\<And>v. hd ks \<noteq> (TIdent, v, ''NOT'')" and "\<And>v. hd ks \<noteq> (TIdent, v, ''DISTINCT'')"
    and "fst (snd (hd ks)) = '')'' \<Longrightarrow> e = NStr '')''"
    and "\<And>n ts rest. map kind_of ts = ks \<Longrightarrow> length ks \<le> n \<Longrightarrow> \<not> peek_value ''('' rest \<Longrightarrow>
           parseUnary (parseExpr n) (ts @ rest) = Inr (e, rest)"
  shows "reads ks e"
  using assms unfolding reads_def by blast

text \<open>Atoms.\<close>

lemma reads_num: "js_number s = Some v \<Longrightarrow> s \<noteq> '')'' \<Longrightarrow> reads [(TNum, s, s)] (NNum v)"
  by (rule readsI) (auto simp: map_kind_split kind_of_def parsePrimary_def next_token_def)

lemma reads_neg_num: "js_number s = Some v \<Longrightarrow> reads [KO ''-'', (TNum, s, s)] (NUnary ''-'' (NNum v))"
  by (rule readsI) (auto simp: map_kind_split kind_of_def parsePrimary_def next_token_def)

lemma reads_str: "reads [(TStr, s, s)] (NStr s)"
  by (rule readsI) (auto simp: map_kind_split kind_of_def parsePrimary_def next_token_def)

lemma reads_col:
  "to_upper c \<notin> {''NOT'', ''DISTINCT'', ''INTERVAL''} \<Longrightarrow> c \<notin> {''('', '')''} \<Longrightarrow> reads [KI c] (NCol c)"
  by (rule readsI) (auto simp: map_kind_split kind_of_def parsePrimary_def next_token_def)

lemma loop_end: "kind_of t = KP (CHR '')'') \<Longrightarrow> parse_loop (Suc k) pe m a (t # r) = Inr (a, t # r)"
  by (rule parse_loop_closes) simp

declare parse_loop.simps [simp del]

lemma keywords_upper:
  "to_upper ''NOT'' = ''NOT''" "to_upper ''AND'' = ''AND''" "to_upper ''OR'' = ''OR''" "to_upper ''IN'' = ''IN''"
  "to_upper ''LIKE'' = ''LIKE''" "to_upper ''BETWEEN'' = ''BETWEEN''" "to_upper ''IS'' = ''IS''"
  "to_upper ''NULL'' = ''NULL''"
  by code_simp+

text \<open>A parenthesised text is an operand when what is inside is an expression.\<close>

lemma reads_paren:
  assumes "\<And>n ts t rest. map kind_of ts = ks \<Longrightarrow> length ks < n \<Longrightarrow> kind_of t = KP (CHR '')'') \<Longrightarrow>
      parseExpr n 0 (ts @ t # rest) = Inr (e, t # rest)"
  shows "reads (KP (CHR ''('') # ks @ [KP (CHR '')'')]) e"
  unfolding reads_def
proof (intro conjI allI impI)
  fix n ts and rest :: "token list"
  assume k: "map kind_of ts = KP (CHR ''('') # ks @ [KP (CHR '')'')]" and n: "length (KP (CHR ''('') # ks @ [KP (CHR '')'')]) \<le> n"
  then obtain t0 ti t1 where ts: "ts = t0 # ti @ [t1]" "kind_of t0 = KP (CHR ''('')" "map kind_of ti = ks" "kind_of t1 = KP (CHR '')'')"
    by (auto simp: map_kind_split)
  have "parseExpr n 0 (ti @ t1 # rest) = Inr (e, t1 # rest)" by (rule assms[OF ts(3) _ ts(4)]) (use n in simp)
  then show "parseUnary (parseExpr n) (ts @ rest) = Inr (e, rest)"
    using ts(2,4) by (simp add: ts(1) parsePrimary_def next_token_def expect_value_def kind_of_def)
qed auto

lemma reads_minus: "reads ks e \<Longrightarrow> reads (KP (CHR ''('') # (KO ''-'' # ks) @ [KP (CHR '')'')]) (NUnary ''-'' e)"
proof (rule reads_paren, goal_cases)
  case (1 n ts t rest)
  then obtain t0 ti n' where ts: "ts = t0 # ti" "kind_of t0 = KO ''-''" "map kind_of ti = ks" and n: "n = Suc n'"
    by (cases n) (auto simp: map_kind_split)
  have "parseUnary (parseExpr n') (ti @ t # rest) = Inr (e, t # rest)"
    by (rule readsD(1)[OF 1(1) ts(3)]) (use 1 n in \<open>auto simp: peek_value_def kind_of_def\<close>)
  then show ?case
    using ts(2) 1(4) by (simp add: n ts(1) parsePrefix_def isKeyword_def keyword_def kind_of_def loop_end)
qed

lemma reads_not: "reads ks e \<Longrightarrow> reads (KP (CHR ''('') # (KI ''NOT'' # ks) @ [KP (CHR '')'')]) (NUnary ''NOT'' e)"
proof (rule reads_paren, goal_cases)
  case (1 n ts t rest)
  then obtain t0 ti n' where ts: "ts = t0 # ti" "kind_of t0 = KI ''NOT''" "map kind_of ti = ks" and n: "n = Suc n'"
    by (cases n) (auto simp: map_kind_split)
  have "parseExpr n' 3 (ti @ t # rest) = Inr (e, t # rest)"
    by (rule reads_expr[OF 1(1) ts(3)]) (use 1 n in auto)
  then show ?case
    using ts(2) 1(4)
    by (simp add: n ts(1) parsePrefix_def isKeyword_def keyword_def kind_of_def keywords_upper loop_end)
qed

text \<open>What the loop reads after an operand \<open>a\<close>, up to a closing parenthesis.\<close>

definition continues :: "kind list \<Rightarrow> node \<Rightarrow> node \<Rightarrow> bool" where
  "continues ks a e =
     (ks \<noteq> [] \<and> fst (snd (hd ks)) \<noteq> ''(''
      \<and> (\<forall>n k ts t rest. map kind_of ts = ks \<longrightarrow> length ks < n \<longrightarrow> length ks \<le> k \<longrightarrow> kind_of t = KP (CHR '')'') \<longrightarrow>
           parse_loop (Suc k) (parseExpr n) 0 a (ts @ t # rest) = Inr (e, t # rest)))"

lemma reads_infix:
  assumes "reads ka a" and "continues ko a e"
  shows "reads (KP (CHR ''('') # (ka @ ko) @ [KP (CHR '')'')]) e"
proof (rule reads_paren, goal_cases)
  case (1 n ts t rest)
  then obtain ta to where ts: "ts = ta @ to" "map kind_of ta = ka" "map kind_of to = ko"
    by (auto simp: map_kind_split)
  have l: "length to = length ko" "length ta = length ka" using ts by auto
  have ne: "\<not> peek_value ''('' (to @ t # rest)" "ta \<noteq> []"
    using assms ts(2,3) by (cases to; auto simp: continues_def reads_def peek_value_def kind_of_def)+
  have "parseExpr n 0 (ta @ to @ t # rest)
      = parse_loop (Suc (length (to @ t # rest))) (parseExpr (n - 1)) 0 a (to @ t # rest)"
    by (rule reads_prefix[OF assms(1) ts(2) _ ne(1)]) (use 1 in auto)
  also have "\<dots> = Inr (e, t # rest)"
    using assms(2) ts(3) 1(2,3) ne(2) l unfolding continues_def by (cases ta) auto
  finally show ?case by (simp add: ts(1))
qed

definition opk :: "string \<Rightarrow> kind" where
  "opk op = (if op \<in> {''AND'', ''OR''} then KI op else KO op)"

lemma precedence_operators: "map_of PRECEDENCE op = Some p \<Longrightarrow> op \<noteq> ''(''"
  by (auto simp: PRECEDENCE_def split: if_splits)

lemma opk_token:
  assumes "kind_of t = opk op"
  shows "operator_of t = Some op" and "\<not> is_predicate t" and "\<not> keyword ''NOT'' t" and "tk_value t = op"
  using assms by (auto simp: opk_def kind_of_def operator_of_def is_predicate_def keyword_def keywords_upper split: if_splits)

lemma loop_op:
  assumes "map_of PRECEDENCE op = Some p" and "reads kb b" and "kind_of t0 = opk op"
    and "map kind_of tb = kb" and "length kb < n" and "closes (p + 1) rest"
  shows "parse_loop (Suc k) (parseExpr n) 0 a (t0 # tb @ rest) = parse_loop k (parseExpr n) 0 (NBinary op a b) rest"
  using reads_expr[OF assms(2,4,5,6)] opk_token[OF assms(3)] assms(1) by (simp add: parse_loop.simps)

lemma continues_op:
  assumes "map_of PRECEDENCE op = Some p" and "reads kb b"
  shows "continues (opk op # kb) a (NBinary op a b)"
proof -
  have "parse_loop (Suc k) (parseExpr n) 0 a (ts @ t # rest) = Inr (NBinary op a b, t # rest)"
    if h: "map kind_of ts = opk op # kb" "length (opk op # kb) < n" "length (opk op # kb) \<le> k" "kind_of t = KP (CHR '')'')"
    for n k ts t rest
  proof -
    from h(1) obtain t0 tb where ts: "ts = t0 # tb" "kind_of t0 = opk op" "map kind_of tb = kb"
      by (auto simp: map_kind_split)
    from h(3) obtain k' where k: "k = Suc k'" by (cases k) auto
    show ?thesis
      using loop_op[OF assms ts(2,3) _ closes_paren[OF h(4)]] h(2,4) by (simp add: ts(1) k loop_end)
  qed
  then show ?thesis
    using precedence_operators[OF assms(1)] unfolding continues_def by (auto simp: opk_def)
qed

lemma closes_op: "kind_of t = opk op \<Longrightarrow> map_of PRECEDENCE op = Some p \<Longrightarrow> p < m \<Longrightarrow> closes m (t # r)"
  using opk_token[of t op] precedence_operators[of op p] by (simp add: closes_def)

lemma continues_div:
  assumes "reads kb b"
  shows "continues ([KO ''*'', (TNum, ''1.0'', ''1.0''), KO ''/''] @ kb) a (NBinary ''/'' (NBinary ''*'' a (NNum (Dec 1 0))) b)"
proof -
  have one: "reads [(TNum, ''1.0'', ''1.0'')] (NNum (Dec 1 0))" by (rule reads_num) code_simp+
  have k: "opk ''*'' = KO ''*''" "opk ''/'' = KO ''/''" "map_of PRECEDENCE ''*'' = Some 5" "map_of PRECEDENCE ''/'' = Some 5"
    by (simp_all add: opk_def PRECEDENCE_def)
  have "parse_loop (Suc j) (parseExpr n) 0 a (ts @ t # rest) = Inr (NBinary ''/'' (NBinary ''*'' a (NNum (Dec 1 0))) b, t # rest)"
    if h: "map kind_of ts = [KO ''*'', (TNum, ''1.0'', ''1.0''), KO ''/''] @ kb" "length kb + 3 < n" "length kb + 3 \<le> j"
      "kind_of t = KP (CHR '')'')" for n j ts t rest
  proof -
    from h(1) obtain t0 t1 t2 tb where ts: "ts = t0 # [t1] @ t2 # tb" "kind_of t0 = opk ''*''"
      "map kind_of [t1] = [(TNum, ''1.0'', ''1.0'')]" "kind_of t2 = opk ''/''" "map kind_of tb = kb"
      by (auto simp: map_kind_split k)
    define j' where "j' = j - 2"
    with h(3) have j: "j = Suc (Suc j')" by simp
    have "parse_loop (Suc j) (parseExpr n) 0 a (ts @ t # rest)
        = parse_loop j (parseExpr n) 0 (NBinary ''*'' a (NNum (Dec 1 0))) (t2 # tb @ t # rest)"
      using loop_op[OF k(3) one ts(2,3) _ closes_op[OF ts(4) k(4)]] h(2) by (simp add: ts(1))
    also have "\<dots> = parse_loop (Suc j') (parseExpr n) 0 (NBinary ''/'' (NBinary ''*'' a (NNum (Dec 1 0))) b) (t # rest)"
      using loop_op[OF k(4) assms ts(4,5) _ closes_paren[OF h(4)]] h(2) by (simp add: j)
    finally show ?thesis using h(4) by (simp add: loop_end)
  qed
  then show ?thesis unfolding continues_def by auto
qed

section \<open>Predicates and calls\<close>

definition nk :: "bool \<Rightarrow> kind list" where
  "nk neg = (if neg then [KI ''NOT''] else [])"

lemma keyword_token: "kind_of t = KI kw \<Longrightarrow> to_upper kw = kw \<Longrightarrow> tk_type t = TIdent \<and> tk_upper t = kw \<and> tk_value t = kw"
  by (simp add: kind_of_def)

lemma loop_predicate:
  assumes "map kind_of tn = nk neg" and "kind_of t = KI kw" and "kw \<in> {''IN'', ''LIKE'', ''BETWEEN''}"
  shows "parse_loop (Suc k) pe 0 a (tn @ t # r)
       = bind_res (parsePredicate pe a neg (t # r)) (\<lambda>(x, y). parse_loop k pe 0 x y)"
proof -
  have t: "is_predicate t" "is_negatable (t # r)"
    using keyword_token[OF assms(2)] assms(3) by (auto simp: is_predicate_def is_negatable_def keywords_upper)
  show ?thesis
  proof (cases neg)
    case True
    with assms(1) obtain t0 where t0: "tn = [t0]" "kind_of t0 = KI ''NOT''" by (auto simp: nk_def)
    then have "keyword ''NOT'' t0" "\<not> is_predicate t0"
      using keyword_token[OF t0(2) keywords_upper(1)] by (auto simp: keyword_def is_predicate_def)
    with t0 t True show ?thesis by (simp add: parse_loop.simps)
  next
    case False
    with assms(1) t show ?thesis by (simp add: nk_def parse_loop.simps)
  qed
qed

lemma continues_predicate:
  assumes "kw \<in> {''IN'', ''LIKE'', ''BETWEEN''}"
    and "\<And>n t0 tt t rest. map kind_of tt = kt \<Longrightarrow> length kt < n \<Longrightarrow> kind_of t0 = KI kw \<Longrightarrow> kind_of t = KP (CHR '')'') \<Longrightarrow>
           parsePredicate (parseExpr n) a neg (t0 # tt @ t # rest) = Inr (e, t # rest)"
  shows "continues (nk neg @ KI kw # kt) a e"
proof -
  have "parse_loop (Suc k) (parseExpr n) 0 a (ts @ t # rest) = Inr (e, t # rest)"
    if h: "map kind_of ts = nk neg @ KI kw # kt" "length (nk neg @ KI kw # kt) < n" "length (nk neg @ KI kw # kt) \<le> k"
      "kind_of t = KP (CHR '')'')" for n k ts t rest
  proof -
    from h(1) obtain tn t0 tt where ts: "ts = tn @ t0 # tt" "map kind_of tn = nk neg" "kind_of t0 = KI kw" "map kind_of tt = kt"
      by (auto simp: map_kind_split)
    from h(3) obtain k' where k: "k = Suc k'" by (cases k) auto
    show ?thesis
      using loop_predicate[OF ts(2,3) assms(1)] assms(2)[OF ts(4) _ ts(3) h(4)] h(2,4) by (simp add: ts(1) k loop_end)
  qed
  then show ?thesis using assms(1) unfolding continues_def by (auto simp: nk_def)
qed

lemma continues_like: "reads kp p \<Longrightarrow> continues (nk neg @ KI ''LIKE'' # kp) a (NLike a p neg)"
proof (rule continues_predicate, goal_cases)
  case (2 n t0 tt t rest)
  then show ?case
    using reads_expr[OF 2(1,2,3) closes_paren[OF 2(5)]]
    by (simp add: parsePredicate_def next_token_def keyword_token[OF 2(4)] keywords_upper)
qed simp

lemma continues_between:
  assumes "reads kl l" and "reads kh h"
  shows "continues (nk neg @ KI ''BETWEEN'' # (kl @ KI ''AND'' # kh)) a (NBetween a l h neg)"
proof (rule continues_predicate, goal_cases)
  case (2 n t0 tt t rest)
  then obtain tl0 t1 th where tt: "tt = tl0 @ t1 # th" "map kind_of tl0 = kl" "kind_of t1 = KI ''AND''" "map kind_of th = kh"
    by (auto simp: map_kind_split)
  have "closes 4 (t1 # th @ t # rest)"
    by (rule closes_op[of _ "''AND''"]) (use tt(3) in \<open>auto simp: opk_def PRECEDENCE_def\<close>)
  then show ?case
    using reads_expr[OF assms(1) tt(2)] reads_expr[OF assms(2) tt(4) _ closes_paren[OF 2(4)]] 2
    by (simp add: tt(1) parsePredicate_def next_token_def keyword_token[OF 2(3)] keyword_token[OF tt(3)]
        expectKeyword_def keyword_def keywords_upper)
qed simp

lemma continues_isnull: "continues (KI ''IS'' # nk neg @ [KI ''NULL'']) a (NIsnull a neg)"
proof -
  have "parse_loop (Suc k) (parseExpr n) 0 a (ts @ t # rest) = Inr (NIsnull a neg, t # rest)"
    if h: "map kind_of ts = KI ''IS'' # nk neg @ [KI ''NULL'']" "length (nk neg) + 2 \<le> k" "kind_of t = KP (CHR '')'')"
    for n k ts t rest
  proof -
    from h(1) obtain t0 tn t1 where ts: "ts = t0 # tn @ [t1]" "kind_of t0 = KI ''IS''" "map kind_of tn = nk neg" "kind_of t1 = KI ''NULL''"
      by (auto simp: map_kind_split)
    from h(2) obtain k' where k: "k = Suc k'" by (cases k) auto
    have step: "parse_loop (Suc k) (parseExpr n) 0 a (t0 # r)
        = bind_res (parsePredicate (parseExpr n) a False (t0 # r)) (\<lambda>(x, y). parse_loop k (parseExpr n) 0 x y)" for r
      using keyword_token[OF ts(2)] by (simp add: parse_loop.simps is_predicate_def keywords_upper)
    have t0: "is_predicate t0" "tk_upper t0 = ''IS''" using keyword_token[OF ts(2)] by (auto simp: is_predicate_def keywords_upper)
    have t1: "keyword ''NULL'' t1" "\<not> keyword ''NOT'' t1" using keyword_token[OF ts(4)] by (auto simp: keyword_def keywords_upper)
    have "isKeyword ''NOT'' (tn @ t1 # t # rest) = neg" "(if neg then tl (tn @ t1 # t # rest) else tn @ t1 # t # rest) = t1 # t # rest"
      using ts(3) t1 by (auto simp: nk_def isKeyword_def keyword_def kind_of_def keywords_upper split: if_splits)
    then show ?thesis
      using t0 t1 h(3) by (simp add: ts(1) step parsePredicate_def next_token_def expectKeyword_def) (simp add: k loop_end)
  qed
  then show ?thesis unfolding continues_def by auto
qed

text \<open>Lists between commas.\<close>

fun sep :: "kind list list \<Rightarrow> kind list" where
  "sep [] = []"
| "sep [k] = k"
| "sep (k # ks) = k @ KP (CHR '','') # sep ks"

lemma parse_commas_reads:
  "list_all2 reads kss es \<Longrightarrow> kss \<noteq> [] \<Longrightarrow> map kind_of ts = sep kss \<Longrightarrow> length (sep kss) < n \<Longrightarrow> length (sep kss) \<le> k \<Longrightarrow>
   kind_of t = KP (CHR '')'') \<Longrightarrow> parse_commas (Suc k) (parseExpr n) (ts @ t # rest) = Inr (es, t # rest)"
proof (induction kss arbitrary: es ts k rule: sep.induct)
  case (2 ka)
  then obtain e where e: "es = [e]" "reads ka e" by (auto simp: list_all2_Cons1)
  have "parseExpr n 0 (ts @ t # rest) = Inr (e, t # rest)"
    by (rule reads_expr[OF e(2)]) (use 2 in auto)
  with e 2 show ?case by (simp add: peek_value_def kind_of_def)
next
  case (3 ka kb ks)
  then obtain e es' where e: "es = e # es'" "reads ka e" "list_all2 reads (kb # ks) es'" by (auto simp: list_all2_Cons1)
  from 3(4) obtain ta t1 tb where ts: "ts = ta @ t1 # tb" "map kind_of ta = ka" "kind_of t1 = KP (CHR '','')"
    "map kind_of tb = sep (kb # ks)" by (auto simp: map_kind_split)
  have 1: "parseExpr n 0 (ta @ t1 # tb @ t # rest) = Inr (e, t1 # tb @ t # rest)"
    by (rule reads_expr[OF e(2) ts(2)]) (use 3 ts in auto)
  from 3(6) obtain k' where k: "k = Suc k'" by (cases k) auto
  have "parse_commas (Suc k') (parseExpr n) (tb @ t # rest) = Inr (es', t # rest)"
    by (rule 3(1)[OF e(3) _ ts(4) _ _ 3(7)]) (use 3 k in auto)
  with 1 ts(3) show ?case by (simp add: e(1) ts(1) k peek_value_def kind_of_def)
qed simp

lemma hd_sep:
  assumes "reads ka e" and "map kind_of ts = sep (ka # ks)"
  shows "ts \<noteq> [] \<and> hd ka = kind_of (hd ts)"
proof -
  have "sep (ka # ks) \<noteq> [] \<and> hd (sep (ka # ks)) = hd ka" using assms(1) by (cases ks) (auto simp: reads_def)
  moreover from calculation assms(2) have "ts \<noteq> []" by auto
  ultimately show ?thesis using assms(2) by (metis hd_map)
qed

lemma parse_args_reads:
  assumes "list_all2 reads kss es" and "list_ok es" and "map kind_of ts = sep kss" and "length (sep kss) < n"
    and "kind_of t = KP (CHR '')'')"
  shows "parse_args (parseExpr n) err (ts @ t # rest) = Inr (es, rest)"
proof (cases kss)
  case Nil
  then show ?thesis using assms by (simp add: parse_args_def peek_value_def kind_of_def expect_value_def next_token_def)
next
  case (Cons ka ks)
  with assms(1) obtain e es' where e: "es = e # es'" "reads ka e" by (auto simp: list_all2_Cons1)
  have "ts \<noteq> [] \<and> hd ka = kind_of (hd ts)" by (rule hd_sep[OF e(2)]) (use assms(3) Cons in simp)
  then have "\<not> peek_value '')'' (ts @ t # rest)"
    using e(2) assms(2) e(1) by (cases ts) (auto simp: reads_def peek_value_def kind_of_def list_ok_def)
  moreover have "parse_commas (Suc (length (ts @ t # rest))) (parseExpr n) (ts @ t # rest) = Inr (es, t # rest)"
    by (rule parse_commas_reads[OF assms(1) _ assms(3,4) _ assms(5)]) (use arg_cong[OF assms(3), of length] Cons in auto)
  ultimately show ?thesis
    using assms(5) by (simp add: parse_args_def expect_value_def next_token_def kind_of_def)
qed

lemma continues_in:
  assumes "list_all2 reads kss es" and "list_ok es"
  shows "continues (nk neg @ KI ''IN'' # (KP (CHR ''('') # sep kss @ [KP (CHR '')'')])) a (NIn a es neg)"
proof (rule continues_predicate, goal_cases)
  case (2 n t0 tt t rest)
  then obtain t1 tl0 t2 where tt: "tt = t1 # tl0 @ [t2]" "kind_of t1 = KP (CHR ''('')" "map kind_of tl0 = sep kss"
    "kind_of t2 = KP (CHR '')'')" by (auto simp: map_kind_split)
  then show ?case
    using parse_args_reads[OF assms tt(3) _ tt(4)] 2
    by (simp add: tt(1) parsePredicate_def next_token_def keyword_token[OF 2(3)] expect_value_def kind_of_def keywords_upper)
qed simp

lemma reads_call:
  assumes "list_all2 reads kss es" and "list_ok es" and "to_upper c \<notin> {''NOT'', ''DISTINCT'', ''INTERVAL''}" and "c \<notin> {''('', '')''}"
  shows "reads (KI c # KP (CHR ''('') # sep kss @ [KP (CHR '')'')]) (NFunc c es None False)"
proof (rule readsI, goal_cases)
  case (5 n ts rest)
  then obtain t0 t1 tl0 t2 where ts: "ts = t0 # t1 # tl0 @ [t2]" "kind_of t0 = KI c" "kind_of t1 = KP (CHR ''('')"
    "map kind_of tl0 = sep kss" "kind_of t2 = KP (CHR '')'')" by (auto simp: map_kind_split)
  have "\<not> isKeyword ''DISTINCT'' (tl0 @ t2 # rest)"
  proof (cases kss)
    case Nil
    then show ?thesis using ts(4,5) by (simp add: isKeyword_def keyword_def kind_of_def)
  next
    case (Cons ka ks)
    with assms(1) obtain e where e: "reads ka e" by (auto simp: list_all2_Cons1)
    then have "tl0 \<noteq> [] \<and> hd ka = kind_of (hd tl0)" by (rule hd_sep) (use ts(4) Cons in simp)
    with e show ?thesis by (cases tl0) (auto simp: isKeyword_def keyword_def reads_def kind_of_def)
  qed
  moreover have "length (sep kss) < n" using 5(2) by simp
  note parse_args_reads[OF assms(1,2) ts(4) this ts(5)]
  ultimately show ?case
    using ts(2,3) 5(3) assms(3,4)
    by (simp add: ts(1) parsePrimary_def parseFunc_def parseArgList_def next_token_def kind_of_def peek_value_def)
qed (use assms in auto)

section \<open>Texts read as expressions\<close>

definition sound :: "string \<Rightarrow> node \<Rightarrow> bool" where
  "sound s e = (\<exists>ks. lexes s ks \<and> reads ks e)"

lemma lexes_wrap:
  assumes "lexes s ks"
  shows "lexes (''('' @ s @ '')'') (KP (CHR ''('') # ks @ [KP (CHR '')'')])"
proof -
  have "lexes '')'' [KP (CHR '')'')]" using lexes_punct[OF _ lexes_Nil, of "CHR '')''"] by simp
  from lexes_append[OF assms this] have "lexes (s @ '')'') (ks @ [KP (CHR '')'')])" by (simp add: stops_def)
  from lexes_punct[OF _ this, of "CHR ''(''"] show ?thesis by simp
qed

lemma lexes_gap: "lexes a ka \<Longrightarrow> lexes b kb \<Longrightarrow> lexes (a @ '' '' @ b) (ka @ kb)"
  using lexes_append[OF _ lexes_space[of b kb], of a ka] by (simp add: stops_def)

lemma lexes_keyword: "list_all is_alpha v \<Longrightarrow> v \<noteq> [] \<Longrightarrow> lexes v [KI v]"
proof -
  assume v: "list_all is_alpha v" "v \<noteq> []"
  then have "ident_start (hd v)" "list_all is_word v"
    by (cases v; auto simp: ident_start_def is_word_def is_alnum_def list_all_iff Let_def)+
  then show ?thesis using lexes_word[OF lexes_Nil v(2)] by simp
qed

lemma lexes_words:
  "lexes ''NOT'' [KI ''NOT'']" "lexes ''IN'' [KI ''IN'']" "lexes ''LIKE'' [KI ''LIKE'']" "lexes ''BETWEEN'' [KI ''BETWEEN'']"
  "lexes ''AND'' [KI ''AND'']" "lexes ''OR'' [KI ''OR'']" "lexes ''IS'' [KI ''IS'']" "lexes ''NULL'' [KI ''NULL'']"
  by (rule lexes_keyword; code_simp)+

lemma lexes_not_word: "lexes b kb \<Longrightarrow> lexes (not_word neg @ b) (nk neg @ kb)"
  using lexes_gap[OF lexes_words(1), of b kb] by (simp add: not_word_def nk_def)

lemma lexes_join: "list_all2 lexes as kss \<Longrightarrow> lexes (join '', '' as) (sep kss)"
proof (induction kss arbitrary: as rule: sep.induct)
  case 1
  then show ?case by (simp add: lexes_Nil)
next
  case (2 k)
  then show ?case by (auto simp: list_all2_Cons2)
next
  case (3 k k' ks)
  then obtain a a' as' where as: "as = a # a' # as'" "lexes a k" "list_all2 lexes (a' # as') (k' # ks)"
    by (auto simp: list_all2_Cons2)
  have "lexes ('', '' @ join '', '' (a' # as')) (KP (CHR '','') # sep (k' # ks))"
    using lexes_punct[OF _ lexes_space[OF 3(1)[OF as(3)]], of "CHR '',''"] by simp
  from lexes_append[OF as(2) this] show ?case by (simp add: as(1) stops_def)
qed

lemma sound_infix:
  assumes "sound a x" and "lexes b ko" and "continues ko x e"
  shows "sound (''('' @ (a @ '' '' @ b) @ '')'') e"
proof -
  from assms(1) obtain ka where "lexes a ka" "reads ka x" unfolding sound_def by blast
  with lexes_wrap[OF lexes_gap[OF _ assms(2)]] reads_infix[OF _ assms(3)] show ?thesis
    unfolding sound_def by blast
qed

lemma sound_list:
  "list_all2 sound as es \<Longrightarrow> \<exists>kss. list_all2 lexes as kss \<and> list_all2 reads kss es"
proof (induction rule: list_all2_induct)
  case (Cons a as e es)
  then obtain k kss where "lexes a k" "reads k e" "list_all2 lexes as kss" "list_all2 reads kss es"
    unfolding sound_def by blast
  then show ?case by (intro exI[of _ "k # kss"]) simp
qed simp

lemma lexes_opk:
  assumes "map_of PRECEDENCE op = Some p" and "op \<noteq> ''<>''"
  shows "lexes op [opk op]"
proof (cases "op \<in> {''AND'', ''OR''}")
  case True
  then show ?thesis using lexes_words by (auto simp: opk_def)
next
  case False
  with assms have "op \<in> set operators" by (auto simp: PRECEDENCE_def operators_def split: if_splits)
  with False show ?thesis using lexes_op by (simp add: opk_def)
qed

text \<open>The forms of the emitted text.\<close>

lemma sound_binary:
  assumes "sound a x" and "sound b y" and "map_of PRECEDENCE op = Some p" and "op \<noteq> ''<>''"
  shows "sound (binary_text op a b) (NBinary op x y)"
proof -
  from assms(2) obtain kb where b: "lexes b kb" "reads kb y" unfolding sound_def by blast
  from lexes_gap[OF lexes_opk[OF assms(3,4)] b(1)] have "lexes (op @ '' '' @ b) (opk op # kb)" by simp
  from sound_infix[OF assms(1) this continues_op[OF assms(3) b(2)]] show ?thesis by (simp add: binary_text_def)
qed

lemma sound_div:
  assumes "sound a x" and "sound b y"
  shows "sound (''('' @ a @ '' * 1.0 / '' @ b @ '')'') (NBinary ''/'' (NBinary ''*'' x (NNum (Dec 1 0))) y)"
proof -
  from assms(2) obtain kb where b: "lexes b kb" "reads kb y" unfolding sound_def by blast
  have num: "num_text ''1.0''" unfolding num_text_def by (intro exI[of _ "''1''"] exI[of _ "''0''"]) (simp add: is_digit_def)
  have op: "lexes ''*'' [KO ''*'']" "lexes ''/'' [KO ''/'']" by (rule lexes_op; simp add: operators_def)+
  from lexes_gap[OF op(1) lexes_gap[OF lexes_num[OF num] lexes_gap[OF op(2) b(1)]]]
  have "lexes (''* 1.0 / '' @ b) ([KO ''*'', (TNum, ''1.0'', ''1.0''), KO ''/''] @ kb)" by simp
  from sound_infix[OF assms(1) this continues_div[OF b(2)]] show ?thesis by simp
qed

lemma sound_like:
  assumes "sound a x" and "sound b y"
  shows "sound (binary_text (not_word neg @ ''LIKE'') a b) (NLike x y neg)"
proof -
  from assms(2) obtain kb where b: "lexes b kb" "reads kb y" unfolding sound_def by blast
  from sound_infix[OF assms(1) lexes_not_word[OF lexes_gap[OF lexes_words(3) b(1)], simplified] continues_like[OF b(2)]]
  show ?thesis by (simp add: binary_text_def)
qed

lemma sound_between:
  assumes "sound a x" and "sound b y" and "sound c z"
  shows "sound (''('' @ a @ '' '' @ not_word neg @ ''BETWEEN '' @ (b @ '' AND '' @ c) @ '')'') (NBetween x y z neg)"
proof -
  from assms(2,3) obtain kb kc where b: "lexes b kb" "reads kb y" and c: "lexes c kc" "reads kc z" unfolding sound_def by blast
  from sound_infix[OF assms(1) lexes_not_word[OF lexes_gap[OF lexes_words(4) lexes_gap[OF b(1) lexes_gap[OF lexes_words(5) c(1)]]], simplified]
      continues_between[OF b(2) c(2)]]
  show ?thesis by simp
qed

lemma sound_isnull:
  assumes "sound a x"
  shows "sound (''('' @ a @ '' IS '' @ not_word neg @ ''NULL)'') (NIsnull x neg)"
  using sound_infix[OF assms lexes_gap[OF lexes_words(7) lexes_not_word[OF lexes_words(8)], simplified] continues_isnull] by simp

lemma sound_in:
  assumes "sound a x" and "list_all2 sound as es" and "list_ok es"
  shows "sound (''('' @ a @ '' '' @ not_word neg @ ''IN ('' @ join '', '' as @ ''))'') (NIn x es neg)"
proof -
  from sound_list[OF assms(2)] obtain kss where k: "list_all2 lexes as kss" "list_all2 reads kss es" by blast
  from sound_infix[OF assms(1) lexes_not_word[OF lexes_gap[OF lexes_words(2) lexes_wrap[OF lexes_join[OF k(1)]]], simplified]
      continues_in[OF k(2) assms(3)]]
  show ?thesis by simp
qed

lemma sound_unary:
  assumes "sound a x" and "op \<in> {''NOT'', ''-''}" and "a \<noteq> []" and "hd a \<noteq> CHR ''-''"
  shows "sound (if op = ''NOT'' then ''(NOT '' @ a @ '')'' else ''(-'' @ a @ '')'') (NUnary op x)"
proof -
  from assms(1) obtain ka where a: "lexes a ka" "reads ka x" unfolding sound_def by blast
  show ?thesis
    using assms(2) lexes_wrap[OF lexes_gap[OF lexes_words(1) a(1)]] reads_not[OF a(2)]
      lexes_wrap[OF lexes_minus[OF a(1) assms(3,4)]] reads_minus[OF a(2)]
    unfolding sound_def by auto
qed

section \<open>What the emitter writes\<close>

lemma sound_num: "num_ok v \<Longrightarrow> sound (show_dec v) (NNum v) \<and> show_dec v \<noteq> [] \<and> hd (show_dec v) \<noteq> CHR ''-''"
proof (cases v)
  case (Dec n k)
  assume "num_ok v"
  then have nk: "0 \<le> n" "dec_wf (Dec n k)" using Dec by auto
  note t = show_dec_text(1)[OF nk(1), of k] show_dec_text(2)[OF nk]
  from t(1) have hd: "show_dec v \<noteq> []" "is_digit (hd (show_dec v))"
    unfolding num_text_def Dec by (auto simp: list_all_iff)
  then have "show_dec v \<noteq> '')''" by (auto simp: is_digit_def)
  then have "sound (show_dec v) (NNum v)"
    using lexes_num[OF t(1)] reads_num[OF t(2)] unfolding sound_def Dec by blast
  with hd show ?thesis using is_digit_props[OF hd(2)] by blast
qed

lemma sound_seconds: "sound (show_int t) (seconds_node t)"
proof (cases "t < 0")
  case False
  then have "seconds_node t = NNum (Dec t 0)" "show_int t = show_dec (Dec t 0)" by (simp_all add: seconds_node_def)
  with False sound_num[of "Dec t 0"] show ?thesis by (simp del: show_dec.simps)
next
  case True
  let ?s = "show_nat (nat (- t))"
  have s: "show_int t = CHR ''-'' # ?s" "show_dec (Dec (- t) 0) = ?s" using True by (simp_all add: show_int_def)
  note d = show_dec_text[of "- t" 0, unfolded s(2)]
  have "is_digit (hd ?s)" using show_nat_digits[of "hd ?s" "nat (- t)"] by simp
  then have "lexes (show_int t) [KO ''-'', (TNum, ?s, ?s)]"
    unfolding s(1) using lexes_minus[OF lexes_num[OF d(1)]] True is_digit_props by simp
  moreover have "reads [KO ''-'', (TNum, ?s, ?s)] (seconds_node t)"
    using reads_neg_num[OF d(2)] True by (simp add: seconds_node_def)
  ultimately show ?thesis unfolding sound_def by blast
qed

definition name_ok :: "string \<Rightarrow> bool" where
  "name_ok c = (c \<noteq> [] \<and> ident_start (hd c) \<and> list_all is_word c
     \<and> to_upper c \<notin> {''NOT'', ''DISTINCT'', ''INTERVAL''})"

lemma names_ok: "list_all name_ok column_names" "list_all (\<lambda>f. name_ok (to_upper f)) plain_calls"
  by (simp_all add: column_names_def plain_calls_def name_ok_def ident_start_def is_word_def is_alnum_def is_alpha_def
      is_digit_def to_upper_def upper_char_def char_of_def upt_rec show_nat.simps bit_0)

lemma name_okD:
  assumes "name_ok c"
  shows "c \<noteq> [] \<and> hd c \<noteq> CHR ''-''" and "c \<notin> {''('', '')''}" and "to_upper c \<notin> {''NOT'', ''DISTINCT'', ''INTERVAL''}"
    and "\<And>b kb. lexes b kb \<Longrightarrow> (b \<noteq> [] \<Longrightarrow> \<not> is_word (hd b)) \<Longrightarrow> lexes (c @ b) (KI c # kb)"
  using assms lexes_word[of _ _ c] by (auto simp: name_ok_def ident_start_def is_alpha_def)

lemma sound_col:
  assumes "c \<in> set column_names"
  shows "sound c (NCol c) \<and> c \<noteq> [] \<and> hd c \<noteq> CHR ''-''"
proof -
  have c: "name_ok c" using assms names_ok(1) by (simp add: list_all_iff)
  from name_okD(4)[OF c lexes_Nil] have "lexes c [KI c]" by simp
  with reads_col[OF name_okD(3,2)[OF c]] name_okD(1)[OF c] show ?thesis unfolding sound_def by blast
qed

lemma sound_timestamp: "sound ''(timestamp / 1000.0)'' (NBinary ''/'' (NCol ''timestamp'') (NNum (Dec 1000 0)))"
proof -
  have "js_number ''1000.0'' = Some (Dec 1000 0)" by code_simp
  moreover have "lexes ''1000.0'' [(TNum, ''1000.0'', ''1000.0'')]"
    by (rule lexes_num, unfold num_text_def, intro exI[of _ "''1000''"] exI[of _ "''0''"]) (simp add: is_digit_def)
  ultimately have "sound ''1000.0'' (NNum (Dec 1000 0))" using reads_num unfolding sound_def by blast
  moreover have "sound ''timestamp'' (NCol ''timestamp'')" using sound_col[of "''timestamp''"] by (simp add: column_names_def)
  ultimately show ?thesis using sound_binary[of "''timestamp''" _ "''1000.0''" _ "''/''"]
    by (simp add: binary_text_def PRECEDENCE_def)
qed

lemma sound_call:
  assumes "list_all2 sound as es" and "list_ok es" and "name_ok c"
  shows "sound (c @ ''('' @ join '', '' as @ '')'') (NFunc c es None False)"
proof -
  from sound_list[OF assms(1)] obtain kss where k: "list_all2 lexes as kss" "list_all2 reads kss es" by blast
  have "\<not> is_word (CHR ''('')" by code_simp
  with name_okD(4)[OF assms(3) lexes_wrap[OF lexes_join[OF k(1)]]]
  have "lexes (c @ ''('' @ join '', '' as @ '')'') (KI c # KP (CHR ''('') # sep kss @ [KP (CHR '')'')])" by simp
  with reads_call[OF k(2) assms(2) name_okD(3,2)[OF assms(3)]] show ?thesis unfolding sound_def by blast
qed

text \<open>An operand, and a list of operands.\<close>

definition faithful :: "emit_ctx \<Rightarrow> node \<Rightarrow> bool" where
  "faithful ctx e = (\<forall>s u. emit ctx e = Inr (s, u) \<longrightarrow> sound s (meaning e) \<and> s \<noteq> [] \<and> hd s \<noteq> CHR ''-'')"

lemma faithfulD: "faithful ctx e \<Longrightarrow> emit ctx e = Inr (s, u) \<Longrightarrow> sound s (meaning e)"
  by (simp add: faithful_def)

lemma sound_operand:
  assumes "faithful ctx n" and "operand n against (emit ctx n) = Inr (s, u)"
  shows "sound s (literal_or n against (meaning n))"
proof (cases "\<exists>z. n = NStr z \<and> date_typed against")
  case True
  then obtain z where z: "n = NStr z" "date_typed against" by blast
  with assms(2) obtain t where "parseDateTimeLiteral z = Inr t" "s = show_int t"
    by (auto simp: operand_def date_typed_def[symmetric] bind_res_eq_Inr)
  with z sound_seconds show ?thesis by (simp add: literal_or_def)
next
  case False
  then have "operand n against (emit ctx n) = emit ctx n" "literal_or n against (meaning n) = meaning n"
    by (auto simp: operand_def literal_or_def date_typed_def split: node.split)
  with faithfulD[OF assms(1)] assms(2) show ?thesis by simp
qed

lemma emit_all_Inr: "emit_all es = Inr (as, u) \<Longrightarrow> list_all2 (\<lambda>a e. \<exists>v. e = Inr (a, v)) as es"
proof (induction es arbitrary: as u)
  case (Cons e es)
  then show ?case by (cases e; cases "emit_all es") auto
qed simp

lemma meaning_str: "meaning e = NStr s \<Longrightarrow> e = NStr s"
  by (cases e) (auto simp: Let_def split: if_splits)

lemma literal_or_str: "literal_or n against (meaning n) = NStr s \<Longrightarrow> n = NStr s"
  using meaning_str[of n] by (auto simp: literal_or_def seconds_node_def split: node.splits if_splits sum.splits)

lemma list_ok_operands: "list_ok es \<Longrightarrow> list_ok (map (\<lambda>x. literal_or x e (meaning x)) es)"
  and list_ok_meaning: "list_ok es \<Longrightarrow> list_ok (map meaning es)"
  by (cases es; auto simp: list_ok_def dest: literal_or_str meaning_str)+

lemma sound_list_operands:
  assumes "\<And>x. x \<in> set es \<Longrightarrow> faithful ctx x"
    and "emit_all (map (\<lambda>x. operand x e (emit ctx x)) es) = Inr (as, u)"
  shows "list_all2 sound as (map (\<lambda>x. literal_or x e (meaning x)) es)"
  using emit_all_Inr[OF assms(2)] unfolding list_all2_map2
  by (rule list.rel_mono_strong) (use assms(1) sound_operand in blast)

lemma sound_list_meaning:
  assumes "\<And>x. x \<in> set es \<Longrightarrow> faithful ctx x" and "emit_all (map (emit ctx) es) = Inr (as, u)"
  shows "list_all2 sound as (map meaning es)"
  using emit_all_Inr[OF assms(2)] unfolding list_all2_map2
  by (rule list.rel_mono_strong) (use assms(1) faithfulD in blast)

lemma emit_plain_call:
  assumes "to_lower name \<in> set plain_calls" and "emit_func ctx name args d es = Inr (s, u)"
    and "length es = length args"
  shows "\<exists>as. emit_all es = Inr (as, u) \<and> s = to_upper (to_lower name) @ ''('' @ join '', '' as @ '')''"
proof -
  let ?fn = "to_lower name"
  have fn: "?fn \<notin> set QUANTILE_FNS" "?fn \<notin> set DATETIME_ARG_FNS"
    using assms(1) by (auto simp: plain_calls_def QUANTILE_FNS_def DATETIME_ARG_FNS_def)
  from assms(2) fn obtain as where as: "checkArity name args = Inr ()" "emit_all es = Inr (as, u)"
      "emit_call ctx name args d as = Inr s"
    by (auto simp: emit_func_def Let_def bind_res_eq_Inr split: if_splits)
  have l: "length as = length args" using emit_all_Inr[OF as(2)] assms(3) by (simp add: list_all2_lengthD)
  show ?thesis
  proof (cases "?fn \<in> {''avg'', ''min'', ''max''}")
    case True
    then have "map_of FN_ARITY ?fn = Some (1, Some 1)" by (auto simp: FN_ARITY_def)
    with as(1) l have "length as = 1" by (auto simp: checkArity_def split: if_splits)
    then obtain a where a: "as = [a]" by (cases as) auto
    with True as(3) have "s = to_upper ?fn @ ''('' @ join '', '' as @ '')''" by (auto simp: emit_call_def Let_def)
    with as(2) show ?thesis by blast
  next
    case False
    with assms(1) have "?fn \<in> {''abs'', ''round'', ''min2'', ''max2'', ''coalesce'', ''length'', ''lower'', ''upper''}"
      by (auto simp: plain_calls_def)
    with as(3) have "s = to_upper ?fn @ ''('' @ join '', '' as @ '')''" by (auto simp: emit_call_def Let_def)
    with as(2) show ?thesis by blast
  qed
qed

lemma precedence_cases:
  assumes "op \<in> fst ` set PRECEDENCE"
  shows "\<exists>p. map_of PRECEDENCE (if op = ''<>'' then ''!='' else op) = Some p"
proof -
  have "list_all (\<lambda>op. map_of PRECEDENCE (if op = ''<>'' then ''!='' else op) \<noteq> None) (map fst PRECEDENCE)" by code_simp
  with assms show ?thesis by (auto simp: list_all_iff)
qed

lemma faithful_binary:
  assumes "faithful ctx l" and "faithful ctx r" and "op \<in> fst ` set PRECEDENCE"
  shows "faithful ctx (NBinary op l r)"
  unfolding faithful_def
proof (intro allI impI)
  fix s u assume e: "emit ctx (NBinary op l r) = Inr (s, u)"
  show "sound s (meaning (NBinary op l r)) \<and> s \<noteq> [] \<and> hd s \<noteq> CHR ''-''"
  proof (cases "op = ''/''")
    case True
    with e obtain a b v w where "emit ctx l = Inr (a, v)" "emit ctx r = Inr (b, w)" "s = ''('' @ a @ '' * 1.0 / '' @ b @ '')''"
      by (auto simp: emit2_def bind_res_eq_Inr)
    with sound_div[OF faithfulD[OF assms(1)] faithfulD[OF assms(2)]] True show ?thesis by simp
  next
    case False
    define op' where "op' = (if op = ''<>'' then ''!='' else op)"
    obtain p where p: "map_of PRECEDENCE op' = Some p" "op' \<noteq> ''<>''"
      using precedence_cases[OF assms(3)] by (auto simp: op'_def)
    show ?thesis
    proof (cases "op' \<in> set COMPARE_OPS")
      case True
      with e False obtain a b v w where "operand l r (emit ctx l) = Inr (a, v)" "operand r l (emit ctx r) = Inr (b, w)"
        "s = binary_text op' a b"
        by (auto simp: emit2_def bind_res_eq_Inr op'_def[symmetric] Let_def simp del: set_simps)
      with sound_binary[OF sound_operand[OF assms(1)] sound_operand[OF assms(2)] p] True False show ?thesis
        by (auto simp: op'_def[symmetric] Let_def binary_text_def)
    next
      case f: False
      with e False obtain a b v w where "emit ctx l = Inr (a, v)" "emit ctx r = Inr (b, w)" "s = binary_text op' a b"
        by (auto simp: emit2_def bind_res_eq_Inr op'_def[symmetric] Let_def)
      with sound_binary[OF faithfulD[OF assms(1)] faithfulD[OF assms(2)] p] f False show ?thesis
        by (auto simp: op'_def[symmetric] Let_def binary_text_def)
    qed
  qed
qed

lemma emit_faithful: "core e \<Longrightarrow> faithful ctx e"
proof (induction e)
  case (NCol c)
  then show ?case using sound_col[of c] sound_timestamp by (auto simp: faithful_def)
next
  case (NFunc name args params d)
  then have name: "to_lower name \<in> set plain_calls" and args: "\<And>x. x \<in> set args \<Longrightarrow> faithful ctx x" "list_ok args"
    by (auto simp: list_all_iff)
  have ok: "name_ok (to_upper (to_lower name))" using names_ok(2) name by (simp add: list_all_iff)
  {
    fix s u assume "emit ctx (NFunc name args params d) = Inr (s, u)"
    with emit_plain_call[OF name, of ctx args d "map (emit ctx) args" s u] obtain as where
      as: "emit_all (map (emit ctx) args) = Inr (as, u)" "s = to_upper (to_lower name) @ ''('' @ join '', '' as @ '')''"
      by auto
    from sound_call[OF sound_list_meaning[OF args(1) as(1)] list_ok_meaning[OF args(2)] ok]
    have "sound s (meaning (NFunc name args params d)) \<and> s \<noteq> [] \<and> hd s \<noteq> CHR ''-''"
      using name_okD(1)[OF ok] by (simp add: as(2))
  }
  then show ?case by (simp add: faithful_def)
next
  case (NBinary op l r)
  then show ?case by (intro faithful_binary) auto
next
  case (NUnary op e)
  then show ?case using sound_unary[OF faithfulD, of ctx e _ _ op]
    by (auto simp: faithful_def emit1_def bind_res_eq_Inr split: if_splits)
next
  case (NIn e es neg)
  then have es: "\<And>x. x \<in> set es \<Longrightarrow> faithful ctx x" and e: "faithful ctx e" and ok: "list_ok es"
    by (auto simp: list_all_iff)
  show ?case
    using sound_in[OF faithfulD[OF e] sound_list_operands[OF es] list_ok_operands[OF ok]]
    by (auto simp: faithful_def bind_res_eq_Inr)
next
  case (NLike e p neg)
  then show ?case using sound_like[OF faithfulD faithfulD, of ctx e _ _ ctx p]
    by (auto simp: faithful_def emit2_def bind_res_eq_Inr binary_text_def)
next
  case (NBetween e lo hi neg)
  then have f: "faithful ctx e" "faithful ctx lo" "faithful ctx hi" by auto
  show ?case
    using sound_between[OF faithfulD[OF f(1)] sound_operand[OF f(2)] sound_operand[OF f(3)]]
    by (auto simp: faithful_def emit2_def bind_res_eq_Inr)
next
  case (NIsnull e neg)
  then show ?case using sound_isnull[OF faithfulD, of ctx e]
    by (auto simp: faithful_def emit1_def bind_res_eq_Inr)
qed (use sound_num lexes_str reads_str in \<open>auto simp: faithful_def sound_def quoteStr_def\<close>)

text \<open>
  What the emitter does not rewrite: no timestamp column (and so no date literal), no interval,
  neither \<open>/\<close> nor \<open><>\<close>, and function names in upper case.
\<close>

fun untouched :: "node \<Rightarrow> bool" where
  "untouched (NCol c) = (c \<noteq> ''timestamp'')"
| "untouched (NInterval v) = False"
| "untouched (NUnary op e) = untouched e"
| "untouched (NBinary op l r) = (op \<noteq> ''/'' \<and> op \<noteq> ''<>'' \<and> untouched l \<and> untouched r)"
| "untouched (NIn e es neg) = (untouched e \<and> list_all untouched es)"
| "untouched (NLike e p neg) = (untouched e \<and> untouched p)"
| "untouched (NBetween e lo hi neg) = (untouched e \<and> untouched lo \<and> untouched hi)"
| "untouched (NIsnull e neg) = untouched e"
| "untouched (NFunc name args params d) = (to_upper (to_lower name) = name \<and> list_all untouched args)"
| "untouched _ = True"

lemma colType_no_date: "c \<in> set column_names \<Longrightarrow> c \<noteq> ''timestamp'' \<Longrightarrow> colType c \<noteq> ''DateTime'' \<and> colType c \<noteq> ''Date''"
proof -
  have "list_all (\<lambda>c. c = ''timestamp'' \<or> colType c \<noteq> ''DateTime'' \<and> colType c \<noteq> ''Date'') column_names"
    by code_simp
  then show "c \<in> set column_names \<Longrightarrow> c \<noteq> ''timestamp'' \<Longrightarrow> colType c \<noteq> ''DateTime'' \<and> colType c \<noteq> ''Date''"
    by (auto simp: list_all_iff)
qed

lemma call_type:
  assumes "to_lower name \<in> set plain_calls"
  shows "inferType (NFunc name args params d) \<in> {''Float64'', ''UInt64'', ''String''}
    \<or> inferType (NFunc name args params d) = (case args of e # _ \<Rightarrow> inferType e | _ \<Rightarrow> ''String'')"
proof -
  have "map_of DATE_FN_TYPES (to_lower name) = None \<and> \<not> starts_with (to_lower name) ''tostartof''
      \<and> to_lower name \<notin> {''todatetime'', ''now'', ''if'', ''count''}"
    if "list_all (\<lambda>f. map_of DATE_FN_TYPES f = None \<and> \<not> starts_with f ''tostartof''
      \<and> f \<notin> {''todatetime'', ''now'', ''if'', ''count''}) plain_calls"
    using assms that by (simp only: list_all_iff) blast
  moreover have "list_all (\<lambda>f. map_of DATE_FN_TYPES f = None \<and> \<not> starts_with f ''tostartof''
      \<and> f \<notin> {''todatetime'', ''now'', ''if'', ''count''}) plain_calls" by code_simp
  ultimately show ?thesis by (simp add: Let_def)
qed

lemma untouched_no_date: "core e \<Longrightarrow> untouched e \<Longrightarrow> \<not> date_typed e"
proof (induction e)
  case (NNum v)
  then show ?case by (cases v) (simp add: date_typed_def)
next
  case (NFunc name args params d)
  have arg: "inferType a \<noteq> ''DateTime'' \<and> inferType a \<noteq> ''Date''" if "args = a # as" for a as
    using NFunc that by (simp add: date_typed_def)
  have "inferType (NFunc name args params d) \<in> {''Float64'', ''UInt64'', ''String''}
      \<or> inferType (NFunc name args params d) = (case args of e # _ \<Rightarrow> inferType e | _ \<Rightarrow> ''String'')"
    using call_type[of name args params d] NFunc.prems(1) by simp
  then show ?case using arg by (auto simp: date_typed_def split: list.splits)
qed (auto simp: date_typed_def colType_no_date)

lemma literal_or_plain: "\<not> date_typed a \<Longrightarrow> literal_or n a m = m"
  by (simp add: literal_or_def split: node.split)

lemma meaning_untouched: "core e \<Longrightarrow> untouched e \<Longrightarrow> meaning e = e"
  by (induction e) (auto simp: literal_or_plain untouched_no_date Let_def list_all_iff intro: map_idI)



text \<open>The string \<open>)\<close> as the first element of a list is read as the end of the list.\<close>

lemma closing_string_read_as_parenthesis:
  "emit \<lparr>ec_nowSeconds = 0, ec_aliases = []\<rparr> (NIn (NCol ''blob1'') [NStr '')''] False)
     = Inr (''(blob1 IN ('' @ quoteStr '')'' @ ''))'', False)"
  "(case bind_res (tokenize (''blob1 IN ('' @ quoteStr '')'' @ '')'')) (\<lambda>ts. expr_at 0 ts) of
      Inl _ \<Rightarrow> False | Inr (e, r) \<Rightarrow> e = NIn (NCol ''blob1'') [] False \<and> map tk_value r = ['')''])"
  by code_simp+

end
