(* ===== verification/SqlTranslate.thy ===== *)
theory SqlTranslate
  imports Complex_Main SqlEmit Comparators
begin

text \<open>
  \<open>translateAnalyticsEngineSql\<close> of \<^verbatim>\<open>src/bindings/analytics-engine-sql.ts\<close>, the computation of
  quantiles, and the final projection of the date columns. Values of result rows are null,
  exact rational numbers or texts. The execution of the query by the database, the ordering of
  rows in \<open>applyPostProcess\<close> (by locale) and the HTTP responses are not modelled.
\<close>

section \<open>Quantiles\<close>

definition rat_of_dec :: "dec \<Rightarrow> rat" where
  "rat_of_dec d = (case d of Dec n k \<Rightarrow> of_int n / 10 ^ k)"

definition number_cmp :: "rat \<Rightarrow> rat \<Rightarrow> int" where
  "number_cmp a b = (if a < b then -1 else if b < a then 1 else 0)"

definition computeQuantile :: "rat list \<Rightarrow> rat \<Rightarrow> bool \<Rightarrow> rat option" where
  "computeQuantile values level interpolate =
     (if values = [] then None
      else (let sorted = sort_cmp number_cmp values; n = int (length sorted);
                pos = level * of_int (n - 1)
            in if \<not> interpolate
               then (let idx = \<lfloor>pos + 1 / 2\<rfloor> in Some (sorted ! nat (min (max idx 0) (n - 1))))
               else (let lo = \<lfloor>pos\<rfloor>; hi = \<lceil>pos\<rceil>
                     in if lo = hi then Some (sorted ! nat lo)
                        else Some (sorted ! nat lo
                               + (pos - of_int lo) * (sorted ! nat hi - sorted ! nat lo)))))"

definition isQuantile :: "node \<Rightarrow> bool" where
  "isQuantile e = (case e of NFunc name args params d \<Rightarrow> to_lower name \<in> set QUANTILE_FNS | _ \<Rightarrow> False)"

definition quantileLevel :: "string \<Rightarrow> node list \<Rightarrow> node list option \<Rightarrow> (sql_error, dec) res" where
  "quantileLevel name args params =
     (case params of
        Some [NNum level] \<Rightarrow>
          if rat_of_dec level < 0 \<or> 1 < rat_of_dec level then Inl (LevelOutOfRange name)
          else if args = [] then Inl (ValueRequired name)
          else Inr level
      | _ \<Rightarrow> Inl (LevelRequired name))"

record quantile_spec =
  qs_tempCol :: string
  qs_outputName :: string
  qs_level :: dec
  qs_interpolate :: bool

record post_process =
  pp_quantiles :: "quantile_spec list"
  pp_orderBy :: "(string \<times> bool) list"
  pp_limit :: "nat option"

record translated_query =
  tq_sqlite :: string
  tq_columns :: "(string \<times> string) list"
  tq_format :: string
  tq_hasStar :: bool
  tq_postProcess :: "post_process option"
  tq_caseSensitiveLike :: bool

section \<open>Translation\<close>

text \<open>The text of the \<open>i\<close>-th select item and the quantile it asks for.\<close>

definition select_part ::
    "emit_ctx \<Rightarrow> nat \<Rightarrow> select_item \<Rightarrow> (sql_error, (string \<times> bool) \<times> quantile_spec list) res" where
  "select_part ctx i item =
     (case si_expr item of
        NStar \<Rightarrow> Inr ((''*'', False), [])
      | NFunc name args params d \<Rightarrow>
          if isQuantile (si_expr item) then
            bind_res (quantileLevel name args params) (\<lambda>level.
            bind_res (emit ctx (hd args)) (\<lambda>(a, u).
              let tempCol = ''__q'' @ show_nat i in
              Inr ((''group_concat('' @ a @ '') AS '' @ quote_json tempCol, u),
                   [\<lparr>qs_tempCol = tempCol, qs_outputName = si_name item, qs_level = level,
                     qs_interpolate = (\<not> includes_str (to_lower name) ''exact'')\<rparr>])))
          else bind_res (emit ctx (si_expr item)) (\<lambda>(a, u). Inr ((a @ '' AS '' @ quote_json (si_name item), u), []))
      | e \<Rightarrow> bind_res (emit ctx e) (\<lambda>(a, u). Inr ((a @ '' AS '' @ quote_json (si_name item), u), [])))"

fun select_parts ::
    "emit_ctx \<Rightarrow> nat \<Rightarrow> select_item list \<Rightarrow> (sql_error, (string list \<times> bool) \<times> quantile_spec list) res" where
  "select_parts ctx i [] = Inr (([], False), [])"
| "select_parts ctx i (item # items) =
     bind_res (select_part ctx i item) (\<lambda>((a, u), q).
     bind_res (select_parts ctx (i + 1) items) (\<lambda>((as, v), qs). Inr ((a # as, u \<or> v), q @ qs)))"

definition columns_of :: "select_item list \<Rightarrow> (string \<times> string) list" where
  "columns_of items =
     map (\<lambda>item. (si_name item, if isQuantile (si_expr item) then ''Float64'' else inferType (si_expr item)))
       (filter (\<lambda>item. si_expr item \<noteq> NStar) items)"

definition emit_order :: "emit_ctx \<Rightarrow> order_item \<Rightarrow> emitted" where
  "emit_order ctx o' = emit1 (\<lambda>a. a @ (if oi_desc o' then '' DESC'' else '' ASC'')) (emit ctx (oi_expr o'))"

text \<open>\<open> GROUP BY \<close> or \<open> ORDER BY \<close> with its expressions, nothing for none.\<close>

definition emit_by :: "string \<Rightarrow> emitted list \<Rightarrow> emitted" where
  "emit_by kw es =
     (if es = [] then Inr ('''', False)
      else bind_res (emit_all es) (\<lambda>(as, u). Inr (kw @ join '', '' as, u)))"

fun quantile_order :: "string list \<Rightarrow> order_item list \<Rightarrow> (sql_error, (string \<times> bool) list) res" where
  "quantile_order names [] = Inr []"
| "quantile_order names (o' # os) =
     (case oi_expr o' of
        NCol c \<Rightarrow> if c \<in> set names
                  then bind_res (quantile_order names os) (\<lambda>r. Inr ((c, oi_desc o') # r))
                  else Inl OrderByNotSelected
      | _ \<Rightarrow> Inl OrderByNotSelected)"

definition check_aggregates :: "parsed_query \<Rightarrow> (sql_error, unit) res" where
  "check_aggregates q =
     (if list_ex (\<lambda>i. si_expr i = NStar) (pq_select q) \<and> list_ex (\<lambda>i. isQuantile (si_expr i)) (pq_select q)
      then Inl StarWithQuantiles
      else if (case pq_where q of None \<Rightarrow> False | Some w \<Rightarrow> containsPlainAggregate w) then Inl AggregateInWhere
      else if list_ex containsPlainAggregate (pq_groupBy q) then Inl AggregateInGroupBy
      else Inr ())"

definition emit_query :: "parsed_query \<Rightarrow> int \<Rightarrow> (sql_error, translated_query) res" where
  "emit_query q nowSeconds =
     (let ctx = \<lparr>ec_nowSeconds = nowSeconds, ec_aliases = []\<rparr>;
          ctx' = ctx\<lparr>ec_aliases := map si_name (pq_select q)\<rparr>;
          columns = columns_of (pq_select q);
          hasStar = list_ex (\<lambda>i. si_expr i = NStar) (pq_select q);
          hasQuantiles = list_ex (\<lambda>i. isQuantile (si_expr i)) (pq_select q)
      in bind_res (check_aggregates q) (\<lambda>_.
         bind_res (select_parts ctx 0 (pq_select q)) (\<lambda>((parts, u1), quantiles).
         bind_res (case pq_where q of None \<Rightarrow> Inr ('''', False)
                   | Some w \<Rightarrow> emit1 (\<lambda>a. '' AND '' @ a) (emit ctx w)) (\<lambda>(whr, u2).
         bind_res (emit_by '' GROUP BY '' (map (emit ctx') (pq_groupBy q))) (\<lambda>(grp, u3).
           let sqlite = ''SELECT '' @ join '', '' parts @ '' FROM analytics_engine WHERE dataset = ''
                 @ quoteStr (pq_dataset q) @ whr @ grp
           in if \<not> hasQuantiles then
                bind_res (emit_by '' ORDER BY '' (map (emit_order ctx') (pq_orderBy q))) (\<lambda>(ord, u4).
                  Inr \<lparr>tq_sqlite = sqlite @ ord
                         @ (case pq_limit q of None \<Rightarrow> '''' | Some n \<Rightarrow> '' LIMIT '' @ show_nat n),
                       tq_columns = columns, tq_format = pq_format q, tq_hasStar = hasStar,
                       tq_postProcess = None, tq_caseSensitiveLike = (u1 \<or> u2 \<or> u3 \<or> u4)\<rparr>)
              else
                bind_res (quantile_order (map fst columns) (pq_orderBy q)) (\<lambda>ord.
                  Inr \<lparr>tq_sqlite = sqlite, tq_columns = columns, tq_format = pq_format q, tq_hasStar = False,
                       tq_postProcess = Some \<lparr>pp_quantiles = quantiles, pp_orderBy = ord, pp_limit = pq_limit q\<rparr>,
                       tq_caseSensitiveLike = (u1 \<or> u2 \<or> u3)\<rparr>))))))"

definition translateAnalyticsEngineSql :: "string \<Rightarrow> int \<Rightarrow> (sql_error, translated_query) res" where
  "translateAnalyticsEngineSql sql nowSeconds =
     bind_res (tokenize sql) (\<lambda>ts. bind_res (parse sql ts) (\<lambda>q. emit_query q nowSeconds))"

section \<open>Dates of the output\<close>

datatype sql_value = VNull | VNum rat | VText string

type_synonym sql_row = "(string \<times> sql_value) list"

definition formatDateTime :: "rat \<Rightarrow> string" where
  "formatDateTime epochSeconds =
     (let f = fields_of (\<lfloor>epochSeconds\<rfloor> * 1000)
      in show_int (df_year f) @ ''-'' @ pad 2 (int (df_month f) + 1) @ ''-'' @ pad 2 (df_day f) @ '' ''
         @ pad 2 (df_hour f) @ '':'' @ pad 2 (df_minute f) @ '':'' @ pad 2 (df_second f))"

definition formatDate :: "rat \<Rightarrow> string" where
  "formatDate epochSeconds = take 10 (formatDateTime epochSeconds)"

definition format_column :: "string \<Rightarrow> (rat \<Rightarrow> string) \<Rightarrow> sql_row \<Rightarrow> sql_row" where
  "format_column name f row =
     (case map_of row name of Some (VNum v) \<Rightarrow> obj_set row name (VText (f v)) | _ \<Rightarrow> row)"

definition formatDateTimeColumns :: "translated_query \<Rightarrow> sql_row list \<Rightarrow> sql_row list" where
  "formatDateTimeColumns t rows =
     (let rawTimestamp = (tq_hasStar t \<and> ''timestamp'' \<notin> set (map fst (tq_columns t)));
          dtCols = filter (\<lambda>c. snd c \<in> {''DateTime'', ''Date''}) (tq_columns t)
      in map (\<lambda>row.
           foldl (\<lambda>row c. format_column (fst c) (if snd c = ''Date'' then formatDate else formatDateTime) row)
             (if rawTimestamp then format_column ''timestamp'' (\<lambda>ms. formatDateTime (ms / 1000)) row else row)
             dtCols) rows)"

definition deriveMetaFromRows :: "sql_row list \<Rightarrow> (string \<times> string) list \<Rightarrow> (string \<times> string) list" where
  "deriveMetaFromRows rows declared =
     (case rows of
        [] \<Rightarrow> []
      | row # _ \<Rightarrow> map (\<lambda>(k, v). (k, nullish (map_of (rev declared) k) (colType k))) row)"

end
