(* ===== verification/SqlTranslateLaws.thy ===== *)
theory SqlTranslateLaws
  imports SqlTranslate SqlLexLaws
begin

text \<open>
  The quantiles lie between the least and the greatest value, grow with the level and do not
  depend on the order of the values; the dates of the output are read back as the instants they
  stand for.
\<close>

section \<open>Quantiles\<close>

lemma sort_number: "sort_cmp number_cmp xs = sort xs"
proof (rule properties_for_sort[symmetric])
  have "sorted_wrt (\<lambda>a b. number_cmp a b \<le> 0) (sort_cmp number_cmp xs)"
    by (rule comparator.ordered_sort) (unfold_locales, auto simp: number_cmp_def split: if_splits)
  then show "sorted (sort_cmp number_cmp xs)"
    by (rule sorted_wrt_mono_rel[rotated]) (auto simp: number_cmp_def split: if_splits)
qed simp

text \<open>The value at a fractional position of a sorted list, between its neighbours.\<close>

definition at_pos :: "rat list \<Rightarrow> rat \<Rightarrow> rat" where
  "at_pos s pos = (let lo = \<lfloor>pos\<rfloor>; hi = \<lceil>pos\<rceil> in
     if lo = hi then s ! nat lo else s ! nat lo + (pos - of_int lo) * (s ! nat hi - s ! nat lo))"

lemma at_pos_between:
  assumes "sorted s" and "0 \<le> pos" and "pos \<le> of_int (int (length s) - 1)"
  shows "s ! nat \<lfloor>pos\<rfloor> \<le> at_pos s pos \<and> at_pos s pos \<le> s ! nat \<lceil>pos\<rceil>"
proof (cases "\<lfloor>pos\<rfloor> = \<lceil>pos\<rceil>")
  case False
  have c: "0 \<le> \<lfloor>pos\<rfloor>" "\<lceil>pos\<rceil> < int (length s)" "\<lfloor>pos\<rfloor> \<le> \<lceil>pos\<rceil>"
    using assms(2,3) floor_le_ceiling[of pos] by linarith+
  then have "nat \<lfloor>pos\<rfloor> \<le> nat \<lceil>pos\<rceil>" "nat \<lceil>pos\<rceil> < length s" by linarith+
  then have le: "s ! nat \<lfloor>pos\<rfloor> \<le> s ! nat \<lceil>pos\<rceil>" by (rule sorted_nth_mono[OF assms(1)])
  define f where "f = pos - of_int \<lfloor>pos\<rfloor>"
  have f: "0 \<le> f" "f \<le> 1" unfolding f_def by linarith+
  have "0 \<le> f * (s ! nat \<lceil>pos\<rceil> - s ! nat \<lfloor>pos\<rfloor>)" using f le by simp
  moreover have "f * (s ! nat \<lceil>pos\<rceil> - s ! nat \<lfloor>pos\<rfloor>) \<le> 1 * (s ! nat \<lceil>pos\<rceil> - s ! nat \<lfloor>pos\<rfloor>)"
    using f le by (intro mult_right_mono) auto
  ultimately show ?thesis using False unfolding at_pos_def Let_def f_def by simp
qed (simp add: at_pos_def)

lemma at_pos_mono:
  assumes "sorted s" and "0 \<le> p" and "p \<le> q" and "q \<le> of_int (int (length s) - 1)"
  shows "at_pos s p \<le> at_pos s q"
proof (cases "\<lceil>p\<rceil> \<le> \<lfloor>q\<rfloor>")
  case True
  have "\<lfloor>q\<rfloor> < int (length s)" using assms(4) by linarith
  with True have "s ! nat \<lceil>p\<rceil> \<le> s ! nat \<lfloor>q\<rfloor>"
    using assms(2) by (intro sorted_nth_mono[OF assms(1)]) linarith+
  with at_pos_between[OF assms(1,2)] at_pos_between[OF assms(1) _ assms(4)] assms(2,3,4) show ?thesis
    by linarith
next
  case False
  then have e: "\<lfloor>p\<rfloor> = \<lfloor>q\<rfloor>" "\<lceil>p\<rceil> = \<lceil>q\<rceil>" "\<lfloor>q\<rfloor> \<noteq> \<lceil>q\<rceil>" using assms(3) by linarith+
  have "s ! nat \<lfloor>q\<rfloor> \<le> s ! nat \<lceil>q\<rceil>"
  proof (rule sorted_nth_mono[OF assms(1)])
    show "nat \<lfloor>q\<rfloor> \<le> nat \<lceil>q\<rceil>" using floor_le_ceiling[of q] by linarith
    show "nat \<lceil>q\<rceil> < length s" using assms by linarith
  qed
  then have "(p - of_int \<lfloor>q\<rfloor>) * (s ! nat \<lceil>q\<rceil> - s ! nat \<lfloor>q\<rfloor>) \<le> (q - of_int \<lfloor>q\<rfloor>) * (s ! nat \<lceil>q\<rceil> - s ! nat \<lfloor>q\<rfloor>)"
    using assms(3) by (intro mult_right_mono) auto
  with e show ?thesis by (simp add: at_pos_def Let_def)
qed

lemma computeQuantile_sorted:
  assumes "values \<noteq> []" and "0 \<le> level" and "level \<le> 1"
  shows "computeQuantile values level interpolate =
     Some (if interpolate then at_pos (sort values) (level * of_int (int (length values) - 1))
           else sort values ! nat \<lfloor>level * of_int (int (length values) - 1) + 1 / 2\<rfloor>)"
proof -
  define m :: rat where "m = of_int (int (length values) - 1)"
  have l: "length values \<noteq> 0" using assms(1) by simp
  have m: "0 \<le> m" "m = of_nat (length values) - 1" using l by (simp_all add: m_def Suc_le_eq)
  have "0 \<le> level * m" "level * m \<le> m" using assms(2,3) m mult_right_mono[of level 1 m] by simp_all
  then have "min (max \<lfloor>level * m + 1 / 2\<rfloor> 0) (int (length values) - 1) = \<lfloor>level * m + 1 / 2\<rfloor>"
    unfolding m_def by linarith
  then show ?thesis
    unfolding computeQuantile_def sort_number Let_def at_pos_def m_def using assms(1) by simp
qed

text \<open>
  C39. Quantiles. For values and a level between 0 and 1 there is a quantile. It lies between the
  least and the greatest value, is one of the values when it is not interpolated, grows with the
  level, and does not depend on the order of the values.
\<close>
theorem quantile_correct:
  assumes "values \<noteq> []" and "0 \<le> level" and "level \<le> level'" and "level' \<le> 1" and "mset values' = mset values"
  shows "\<exists>q q'. computeQuantile values level interpolate = Some q
     \<and> computeQuantile values' level' interpolate = Some q'
     \<and> Min (set values) \<le> q \<and> q \<le> q' \<and> q' \<le> Max (set values)
     \<and> (interpolate \<or> {q, q'} \<subseteq> set values)"
proof -
  define s m where "s = sort values" and "m = (of_int (int (length values) - 1) :: rat)"
  have s: "sort values' = s" "length values' = length values" "values' \<noteq> []" "set s = set values" "sorted s" "length s = length values"
    using assms(1,5) mset_eq_length[OF assms(5)] properties_for_sort[of s values'] by (auto simp: s_def)
  have n: "length values \<noteq> 0" using assms(1) by simp
  then have m: "0 \<le> m" by (simp add: m_def Suc_le_eq)
  have p: "0 \<le> level * m" "level * m \<le> level' * m" "level' * m \<le> m"
    using assms(2,3,4) m mult_right_mono[of level' 1 m] by (simp_all add: mult_right_mono)
  have 1: "computeQuantile values level interpolate =
      Some (if interpolate then at_pos s (level * m) else s ! nat \<lfloor>level * m + 1 / 2\<rfloor>)"
    unfolding s_def m_def by (rule computeQuantile_sorted) (use assms in auto)
  have 2: "computeQuantile values' level' interpolate =
      Some (if interpolate then at_pos s (level' * m) else s ! nat \<lfloor>level' * m + 1 / 2\<rfloor>)"
    using computeQuantile_sorted[of values' level' interpolate] assms s by (simp add: m_def)
  have bound: "Min (set values) \<le> s ! i \<and> s ! i \<le> Max (set values) \<and> s ! i \<in> set values" if "i < length values" for i
    using nth_mem[of i s] that s by auto
  show ?thesis
  proof (cases interpolate)
    case True
    have "at_pos s (level * m) \<le> at_pos s (level' * m)" by (rule at_pos_mono) (use p s in \<open>auto simp: m_def\<close>)
    moreover have "s ! nat \<lfloor>level * m\<rfloor> \<le> at_pos s (level * m)" "at_pos s (level' * m) \<le> s ! nat \<lceil>level' * m\<rceil>"
      using at_pos_between[of s "level * m"] at_pos_between[of s "level' * m"] p s by (auto simp: m_def)
    moreover have "nat \<lfloor>level * m\<rfloor> < length values" "nat \<lceil>level' * m\<rceil> < length values"
      using p n unfolding m_def by linarith+
    moreover from calculation bound have "Min (set values) \<le> s ! nat \<lfloor>level * m\<rfloor>" "s ! nat \<lceil>level' * m\<rceil> \<le> Max (set values)"
      by blast+
    ultimately show ?thesis using 1 2 True by auto
  next
    case False
    have i: "nat \<lfloor>level * m + 1 / 2\<rfloor> \<le> nat \<lfloor>level' * m + 1 / 2\<rfloor>" "nat \<lfloor>level' * m + 1 / 2\<rfloor> < length values"
      using p n unfolding m_def by linarith+
    then show ?thesis using 1 2 False bound sorted_nth_mono[OF s(5) i(1)] s(6) by simp
  qed
qed

lemma quantile_correct_witness:
  "\<exists>q q'. computeQuantile [3, 1, 2] (1 / 4) True = Some q \<and> computeQuantile [1, 2, 3] (1 / 2) True = Some q'
     \<and> Min (set [3, 1, 2]) \<le> q \<and> q \<le> q' \<and> q' \<le> Max (set [3, 1, 2]) \<and> (True \<or> {q, q'} \<subseteq> set [3, 1, 2])"
  by (rule quantile_correct) auto

section \<open>Dates\<close>

lemma pad_two:
  assumes "0 \<le> i" and "i < 100"
  obtains a b where "pad 2 i = [a, b]" "is_digit a" "is_digit b" "digits_val [a, b] = nat i"
proof -
  have l: "length (show_nat n) \<le> 2" if "n < 100" for n
    using that by (subst show_nat.simps, subst show_nat.simps) auto
  have "length (pad 2 i) = 2" using l[of "nat i"] assms by (simp add: pad_def Let_def)
  then obtain a b where ab: "pad 2 i = [a, b]" by (auto simp: length_Suc_conv numeral_2_eq_2)
  have "is_digit c" if "c \<in> set (pad 2 i)" for c
    using that show_nat_digits by (auto simp: pad_def Let_def is_digit_def)
  moreover have "digits_val (pad 2 i) = nat i" by (simp add: pad_def Let_def)
  ultimately show thesis using that ab by auto
qed

lemma year_four:
  assumes "1000 \<le> y" and "y \<le> 9999"
  obtains a b c d where "show_int y = [a, b, c, d]" "is_digit a" "is_digit b" "is_digit c" "is_digit d"
    "digits_val [a, b, c, d] = nat y"
proof -
  have "length (show_nat n) = 4" if "1000 \<le> n" "n \<le> 9999" for n
    using that by (subst show_nat.simps, subst show_nat.simps, subst show_nat.simps, subst show_nat.simps) auto
  then have "length (show_int y) = 4" using assms by (auto simp: show_int_def)
  then obtain a b c d where ab: "show_int y = [a, b, c, d]" by (auto simp: length_Suc_conv eval_nat_numeral)
  have "is_digit x" if "x \<in> set (show_int y)" for x
    using that show_nat_digits assms by (auto simp: show_int_def)
  moreover have "digits_val (show_int y) = nat y" using assms by (simp add: show_int_def)
  ultimately show thesis using that ab by auto
qed

lemma two_digit_texts:
  assumes "is_digit a" and "is_digit b"
  shows "a \<noteq> CHR ''-'' \<and> a \<noteq> CHR '':'' \<and> a \<noteq> CHR '' ''"
  using assms by (auto simp: is_digit_def)

lemma fields_range:
  "df_month (fields_of t) < 12" "1 \<le> df_day (fields_of t)"
  "df_day (fields_of t) \<le> month_lengths (df_year (fields_of t)) ! df_month (fields_of t)"
  "0 \<le> df_hour (fields_of t)" "df_hour (fields_of t) < 24" "0 \<le> df_minute (fields_of t)" "df_minute (fields_of t) < 60"
  "0 \<le> df_second (fields_of t)" "df_second (fields_of t) < 60"
proof -
  obtain y m d where c: "civil_of_days (t div MS_PER_DAY) = (y, m, d)" by (metis prod_cases3)
  show "df_month (fields_of t) < 12" "1 \<le> df_day (fields_of t)"
    "df_day (fields_of t) \<le> month_lengths (df_year (fields_of t)) ! df_month (fields_of t)"
    using civil_of_days[OF c] by (simp_all add: fields_of_def c Let_def)
  have "0 \<le> t mod MS_PER_DAY" "t mod MS_PER_DAY < 86400000" by (simp_all add: MS_PER_DAY_def)
  then show "0 \<le> df_hour (fields_of t)" "df_hour (fields_of t) < 24" "0 \<le> df_minute (fields_of t)" "df_minute (fields_of t) < 60"
    "0 \<le> df_second (fields_of t)" "df_second (fields_of t) < 60"
    by (simp_all add: fields_of_def case_prod_unfold Let_def pos_imp_zdiv_nonneg_iff)
qed

lemma month_lengths_max: "m < 12 \<Longrightarrow> month_lengths y ! m \<le> 31"
  unfolding month_lengths_def by (auto simp: less_Suc_eq eval_nat_numeral)

lemma Date_parse_texts:
  assumes "digits_val [a, b, c, d] = nat (df_year f)" "digits_val [e, g] = df_month f + 1" "digits_val [h, i] = nat (df_day f)"
    and "digits_val [j, k] = nat (df_hour f)" "digits_val [l, m] = nat (df_minute f)" "digits_val [n, p] = nat (df_second f)"
    and "0 \<le> df_year f" "df_month f < 12" "1 \<le> df_day f" "df_day f \<le> month_lengths (df_year f) ! df_month f"
    and "0 \<le> df_hour f" "df_hour f < 24" "0 \<le> df_minute f" "df_minute f < 60" "0 \<le> df_second f" "df_second f < 60"
  shows "Date_parse [a, b, c, d, CHR ''-'', e, g, CHR ''-'', h, i] [j, k, CHR '':'', l, m, CHR '':'', n, p]
     = Some (time_of (f\<lparr>df_ms := 0\<rparr>))"
  using assms by (simp add: Date_parse_def num_in_def Let_def time_of_def MS_PER_DAY_def)

text \<open>
  C40. Round trip of dates. An instant printed in the output, in the years 1000 to 9999, is read
  back by the date literals as the instant, to the second; printed as a date it is read back as
  the start of its day.
\<close>
theorem date_round_trip:
  assumes "1000 \<le> df_year (fields_of (\<lfloor>t\<rfloor> * 1000))" and "df_year (fields_of (\<lfloor>t\<rfloor> * 1000)) \<le> 9999"
  shows "parseDateTimeLiteral (formatDateTime t) = Inr \<lfloor>t\<rfloor>
       \<and> parseDateTimeLiteral (formatDate t) = Inr (\<lfloor>t\<rfloor> div 86400 * 86400)"
proof -
  define f where "f = fields_of (\<lfloor>t\<rfloor> * 1000)"
  note r = fields_range[of "\<lfloor>t\<rfloor> * 1000", folded f_def]
  have day: "0 \<le> df_day f" "df_day f < 100" "0 \<le> int (df_month f) + 1" "int (df_month f) + 1 < 100"
    using r(1,2,3) month_lengths_max[OF r(1), of "df_year f"] by linarith+
  obtain a b c d where Y: "show_int (df_year f) = [a, b, c, d]" "is_digit a" "is_digit b" "is_digit c" "is_digit d"
    "digits_val [a, b, c, d] = nat (df_year f)" using year_four assms unfolding f_def by blast
  obtain e g where M: "pad 2 (int (df_month f) + 1) = [e, g]" "is_digit e" "is_digit g" "digits_val [e, g] = nat (int (df_month f) + 1)"
    using pad_two[OF day(3,4)] by blast
  obtain h i where D: "pad 2 (df_day f) = [h, i]" "is_digit h" "is_digit i" "digits_val [h, i] = nat (df_day f)"
    using pad_two[OF day(1,2)] by blast
  obtain j k where H: "pad 2 (df_hour f) = [j, k]" "is_digit j" "is_digit k" "digits_val [j, k] = nat (df_hour f)"
    by (rule pad_two[of "df_hour f"]) (use r(4,5) in auto)
  obtain l m where N: "pad 2 (df_minute f) = [l, m]" "is_digit l" "is_digit m" "digits_val [l, m] = nat (df_minute f)"
    by (rule pad_two[of "df_minute f"]) (use r(6,7) in auto)
  obtain n p where S: "pad 2 (df_second f) = [n, p]" "is_digit n" "is_digit p" "digits_val [n, p] = nat (df_second f)"
    by (rule pad_two[of "df_second f"]) (use r(8,9) in auto)
  let ?d = "[a, b, c, d, CHR ''-'', e, g, CHR ''-'', h, i]" and ?t = "[j, k, CHR '':'', l, m, CHR '':'', n, p]"
  have printed: "formatDateTime t = ?d @ CHR '' '' # ?t" "formatDate t = ?d"
    unfolding formatDate_def formatDateTime_def Let_def f_def[symmetric] Y(1) M(1) D(1) H(1) N(1) S(1) by simp_all
  have ws: "\<not> is_ws a" "\<not> is_ws p" "\<not> is_ws i" using is_digit_props Y S D by blast+
  have df: "date_format (?d @ r)" for r
    using Y(2-5) M(2,3) D(2,3) by (simp add: date_format_def two_digits_def char_at_def)
  have tf: "time_format ?t" using H(2,3) N(2,3) S(2,3) by (simp add: time_format_def two_digits_def char_at_def)
  have parts: "literal_parts (?d @ CHR '' '' # ?t) = Some (?d, ?t)" "literal_parts ?d = Some (?d, ''00:00:00'')"
    using df[of "CHR '' '' # ?t"] df[of "[]"] tf by (simp_all add: literal_parts_def Let_def strip_fraction_def)
  have "\<lfloor>t\<rfloor> * 1000 mod 1000 = 0" "df_ms f = (\<lfloor>t\<rfloor> * 1000) mod MS_PER_DAY mod 1000"
    by (simp_all add: f_def fields_of_def case_prod_unfold Let_def)
  then have ms: "f\<lparr>df_ms := 0\<rparr> = f" by (simp add: MS_PER_DAY_def mod_mod_cancel)
  have "Date_parse ?d ?t = Some (time_of f)"
    using Date_parse_texts[of a b c d f e g h i j k l m n p] Y(6) M(4) D(4) H(4) N(4) S(4) r assms(1)
    unfolding ms by (simp add: f_def[symmetric])
  also have "time_of f = \<lfloor>t\<rfloor> * 1000" unfolding f_def by (rule time_of_fields)
  finally have 1: "Date_parse ?d ?t = Some (\<lfloor>t\<rfloor> * 1000)" .
  have "Date_parse ?d ''00:00:00'' = Some (time_of (f\<lparr>df_hour := 0, df_minute := 0, df_second := 0, df_ms := 0\<rparr>))"
    using Date_parse_texts[of a b c d "f\<lparr>df_hour := 0, df_minute := 0, df_second := 0\<rparr>" e g h i "CHR ''0''" "CHR ''0''" "CHR ''0''" "CHR ''0''" "CHR ''0''" "CHR ''0''"]
      Y(6) M(4) D(4) r(1-3) assms(1) by (simp add: f_def[symmetric] digits_val_def digit_val_def nat_add_distrib)
  also have "time_of (f\<lparr>df_hour := 0, df_minute := 0, df_second := 0, df_ms := 0\<rparr>) = \<lfloor>t\<rfloor> * 1000 div MS_PER_DAY * MS_PER_DAY"
    using civil_of_days[of "\<lfloor>t\<rfloor> * 1000 div MS_PER_DAY"]
    by (simp add: time_of_def f_def fields_of_def case_prod_unfold Let_def)
  also have "\<lfloor>t\<rfloor> * 1000 div MS_PER_DAY * MS_PER_DAY = \<lfloor>t\<rfloor> div 86400 * 86400 * 1000"
  proof -
    have "\<lfloor>t\<rfloor> * 1000 div (86400 * 1000) = \<lfloor>t\<rfloor> div 86400" by (rule div_mult_mult2) simp
    then show ?thesis by (simp add: MS_PER_DAY_def)
  qed
  finally have 2: "Date_parse ?d ''00:00:00'' = Some (\<lfloor>t\<rfloor> div 86400 * 86400 * 1000)" .
  have "trim (?d @ CHR '' '' # ?t) = ?d @ CHR '' '' # ?t" "trim ?d = ?d" using ws by (simp_all add: trim_digits)
  with parts 1 2 show ?thesis unfolding printed parseDateTimeLiteral_def by simp
qed

lemma date_round_trip_witness:
  "parseDateTimeLiteral (formatDateTime (86461 / 2)) = Inr \<lfloor>86461 / 2 :: rat\<rfloor>
   \<and> parseDateTimeLiteral (formatDate (86461 / 2)) = Inr (\<lfloor>86461 / 2 :: rat\<rfloor> div 86400 * 86400)"
proof -
  have "\<lfloor>86461 / 2 :: rat\<rfloor> = 43230" by code_simp
  moreover have "df_year (fields_of (43230 * 1000)) = 1970" by code_simp
  ultimately show ?thesis by (intro date_round_trip) simp_all
qed

end
