(* ===== verification/Streams.thy ===== *)
theory Streams
  imports Prelude "HOL-Library.AList" "HOL-Library.Extended_Nat" "HOL-Library.Sublist"
begin

text \<open>
  The streams between threads of \<^verbatim>\<open>src/worker-thread/stream-shared.ts\<close>: the registry of the
  sender's pumps with their credits (\<open>OutboundStreamRegistry\<close>), the receiver that rebuilds a
  \<open>ReadableStream\<close> (\<open>StreamReceiver\<close>) and the pump (\<open>pumpStream\<close>), for one direction of one channel.
  Its messages arrive in the order they were posted, in each direction. What the code uses of
  \<open>ReadableStream\<close> is modelled after its standard: the queue, the requests of the reader, and when
  \<open>pull\<close> is called. An \<open>await\<close> divides an operation into two steps, between which any others may come.
\<close>

section \<open>The registry of the sender\<close>

definition STREAM_BACKPRESSURE_WINDOW :: nat where "STREAM_BACKPRESSURE_WINDOW = 8"

record outbound =
  os_credits :: enat
  os_waiter :: bool

record registry =
  rg_nextStreamId :: nat
  rg_streams :: "(nat \<times> outbound) list"

definition allocateId :: "registry \<Rightarrow> nat \<times> registry" where
  "allocateId r = (rg_nextStreamId r, r\<lparr>rg_nextStreamId := rg_nextStreamId r + 1\<rparr>)"

definition activeCount :: "registry \<Rightarrow> nat" where
  "activeCount r = length (rg_streams r)"

definition set_stream :: "nat \<Rightarrow> outbound \<Rightarrow> registry \<Rightarrow> registry" where
  "set_stream i s r = r\<lparr>rg_streams := AList.update i s (rg_streams r)\<rparr>"

definition register :: "nat \<Rightarrow> enat \<Rightarrow> registry \<Rightarrow> registry" where
  "register i initialCredits r = set_stream i \<lparr>os_credits = initialCredits, os_waiter = False\<rparr> r"

text \<open>\<open>acquireCredit\<close> up to its \<open>await\<close>, and from the resolution of the promise on.\<close>

datatype acquisition = Refused | Granted registry | Parked registry

definition acquire_begin :: "nat \<Rightarrow> registry \<Rightarrow> acquisition" where
  "acquire_begin i r =
     (case map_of (rg_streams r) i of
        None \<Rightarrow> Refused
      | Some s \<Rightarrow> if 0 < os_credits s then Granted (set_stream i (s\<lparr>os_credits := os_credits s - 1\<rparr>) r)
                  else Parked (set_stream i (s\<lparr>os_waiter := True\<rparr>) r))"

definition acquire_resume :: "nat \<Rightarrow> registry \<Rightarrow> bool \<times> registry" where
  "acquire_resume i r =
     (case map_of (rg_streams r) i of
        None \<Rightarrow> (False, r)
      | Some s \<Rightarrow> (True, if 0 < os_credits s then set_stream i (s\<lparr>os_credits := os_credits s - 1\<rparr>) r else r))"

text \<open>The flag says whether a waiter was woken.\<close>

definition grantCredit :: "nat \<Rightarrow> nat \<Rightarrow> registry \<Rightarrow> registry \<times> bool" where
  "grantCredit i n r =
     (case map_of (rg_streams r) i of
        None \<Rightarrow> (r, False)
      | Some s \<Rightarrow> (set_stream i \<lparr>os_credits = os_credits s + enat n, os_waiter = False\<rparr> r, os_waiter s))"

definition complete_stream :: "nat \<Rightarrow> registry \<Rightarrow> registry" where
  "complete_stream i r = r\<lparr>rg_streams := AList.delete i (rg_streams r)\<rparr>"

text \<open>The flags say whether a waiter was woken and whether the reader of the source was cancelled.\<close>

definition cancel_stream :: "nat \<Rightarrow> registry \<Rightarrow> registry \<times> bool \<times> bool" where
  "cancel_stream i r =
     (case map_of (rg_streams r) i of
        None \<Rightarrow> (r, False, False)
      | Some s \<Rightarrow> (r\<lparr>rg_streams := AList.delete i (rg_streams r)\<rparr>, os_waiter s, True))"

text \<open>The lists are the streams whose waiters were woken and whose readers were cancelled.\<close>

definition dispose_streams :: "registry \<Rightarrow> registry \<times> nat list \<times> nat list" where
  "dispose_streams r =
     (r\<lparr>rg_streams := []\<rparr>, map fst (filter (\<lambda>(i, s). os_waiter s) (rg_streams r)), map fst (rg_streams r))"

section \<open>The reconstructed stream\<close>

datatype ('c, 'e) event = EChunk 'c | EEnd | EError 'e

datatype 'e stream_state = Readable | Closed | Errored 'e

text \<open>
  A \<open>ReadableStream\<close> of the runtime with its default controller. \<open>rs_requests\<close> counts the pending
  reads; \<open>rs_delivered\<close> records the chunks the consumer has been given.
\<close>

record ('c, 'e) rstream =
  rs_queue :: "'c list"
  rs_state :: "'e stream_state"
  rs_closeRequested :: bool
  rs_startCalled :: bool
  rs_started :: bool
  rs_pulling :: bool
  rs_pullAgain :: bool
  rs_requests :: nat
  rs_delivered :: "'c list"

definition new_stream :: "('c, 'e) rstream" where
  "new_stream = \<lparr>rs_queue = [], rs_state = Readable, rs_closeRequested = False, rs_startCalled = False,
     rs_started = False, rs_pulling = False, rs_pullAgain = False, rs_requests = 0, rs_delivered = []\<rparr>"

definition can_enqueue :: "('c, 'e) rstream \<Rightarrow> bool" where
  "can_enqueue st = (\<not> rs_closeRequested st \<and> rs_state st = Readable)"

definition has_room :: "nat \<Rightarrow> ('c, 'e) rstream \<Rightarrow> bool" where
  "has_room hwm st = (0 < rs_requests st \<or> length (rs_queue st) < hwm)"

text \<open>\<open>CallPullIfNeeded\<close>; the flag says whether \<open>pull\<close> was called.\<close>

definition call_pull :: "nat \<Rightarrow> ('c, 'e) rstream \<Rightarrow> ('c, 'e) rstream \<times> bool" where
  "call_pull hwm st =
     (if \<not> (can_enqueue st \<and> rs_started st \<and> has_room hwm st) then (st, False)
      else if rs_pulling st then (st\<lparr>rs_pullAgain := True\<rparr>, False)
      else (st\<lparr>rs_pulling := True\<rparr>, True))"

text \<open>\<open>controller.enqueue\<close>, \<open>None\<close> when it throws.\<close>

definition stream_enqueue :: "nat \<Rightarrow> 'c \<Rightarrow> ('c, 'e) rstream \<Rightarrow> (('c, 'e) rstream \<times> bool) option" where
  "stream_enqueue hwm c st =
     (if \<not> can_enqueue st then None
      else Some (call_pull hwm
        (if 0 < rs_requests st
         then st\<lparr>rs_requests := rs_requests st - 1, rs_delivered := rs_delivered st @ [c]\<rparr>
         else st\<lparr>rs_queue := rs_queue st @ [c]\<rparr>)))"

definition stream_close :: "('c, 'e) rstream \<Rightarrow> ('c, 'e) rstream option" where
  "stream_close st =
     (if \<not> can_enqueue st then None
      else Some (if rs_queue st = [] then st\<lparr>rs_closeRequested := True, rs_state := Closed, rs_requests := 0\<rparr>
                 else st\<lparr>rs_closeRequested := True\<rparr>))"

definition stream_error :: "'e \<Rightarrow> ('c, 'e) rstream \<Rightarrow> ('c, 'e) rstream" where
  "stream_error e st =
     (if rs_state st = Readable then st\<lparr>rs_queue := [], rs_state := Errored e, rs_requests := 0\<rparr> else st)"

definition stream_read :: "nat \<Rightarrow> ('c, 'e) rstream \<Rightarrow> ('c, 'e) rstream \<times> bool" where
  "stream_read hwm st =
     (if rs_state st \<noteq> Readable then (st, False)
      else (case rs_queue st of
              c # cs \<Rightarrow>
                (let st' = st\<lparr>rs_queue := cs, rs_delivered := rs_delivered st @ [c]\<rparr>
                 in if rs_closeRequested st \<and> cs = [] then (st'\<lparr>rs_state := Closed\<rparr>, False) else call_pull hwm st')
            | [] \<Rightarrow> call_pull hwm (st\<lparr>rs_requests := rs_requests st + 1\<rparr>)))"

text \<open>\<open>stream.cancel()\<close>; the flag says whether the \<open>cancel\<close> of the source is called.\<close>

definition stream_cancel :: "('c, 'e) rstream \<Rightarrow> ('c, 'e) rstream \<times> bool" where
  "stream_cancel st =
     (if rs_state st = Readable then (st\<lparr>rs_queue := [], rs_state := Closed, rs_requests := 0\<rparr>, True)
      else (st, False))"

text \<open>The promises of \<open>start\<close> and \<open>pull\<close> are fulfilled.\<close>

definition stream_started :: "nat \<Rightarrow> ('c, 'e) rstream \<Rightarrow> ('c, 'e) rstream \<times> bool" where
  "stream_started hwm st = call_pull hwm (st\<lparr>rs_started := True\<rparr>)"

definition stream_pulled :: "nat \<Rightarrow> ('c, 'e) rstream \<Rightarrow> ('c, 'e) rstream \<times> bool" where
  "stream_pulled hwm st =
     (if rs_pullAgain st then call_pull hwm (st\<lparr>rs_pulling := False, rs_pullAgain := False\<rparr>)
      else (st\<lparr>rs_pulling := False\<rparr>, False))"

section \<open>The receiver\<close>

record ('c, 'e) receiver =
  rc_controllers :: "nat list"
  rc_pending :: "(nat \<times> ('c, 'e) event list) list"
  rc_cancelled :: "nat list"
  rc_open :: "nat list"

type_synonym ('c, 'e) streams = "nat \<Rightarrow> ('c, 'e) rstream option"

definition open_count :: "('c, 'e) receiver \<Rightarrow> nat" where
  "open_count rc = length (rc_open rc)"

text \<open>\<open>_apply\<close>; the flag says whether \<open>pull\<close> was called.\<close>

definition apply_event ::
    "nat \<Rightarrow> nat \<Rightarrow> ('c, 'e) event \<Rightarrow> ('c, 'e) receiver \<times> ('c, 'e) streams
     \<Rightarrow> (('c, 'e) receiver \<times> ('c, 'e) streams) \<times> bool" where
  "apply_event hwm i ev x =
     (let (rc, streams) = x;
          done' = rc\<lparr>rc_controllers := removeAll i (rc_controllers rc), rc_open := removeAll i (rc_open rc)\<rparr>
      in case streams i of
           None \<Rightarrow> (x, False)
         | Some st \<Rightarrow>
             (case ev of
                EChunk c \<Rightarrow>
                  (case stream_enqueue hwm c st of
                     None \<Rightarrow> (x, False) | Some (st', pulled) \<Rightarrow> ((rc, streams(i \<mapsto> st')), pulled))
              | EEnd \<Rightarrow>
                  ((done', case stream_close st of None \<Rightarrow> streams | Some st' \<Rightarrow> streams(i \<mapsto> st')), False)
              | EError e \<Rightarrow> ((done', streams(i \<mapsto> stream_error e st)), False)))"

fun apply_events ::
    "nat \<Rightarrow> nat \<Rightarrow> ('c, 'e) event list \<Rightarrow> ('c, 'e) receiver \<times> ('c, 'e) streams
     \<Rightarrow> ('c, 'e) receiver \<times> ('c, 'e) streams" where
  "apply_events hwm i [] x = x"
| "apply_events hwm i (ev # evs) x = apply_events hwm i evs (fst (apply_event hwm i ev x))"

definition is_chunk :: "('c, 'e) event \<Rightarrow> bool" where
  "is_chunk ev = (case ev of EChunk _ \<Rightarrow> True | _ \<Rightarrow> False)"

definition pending_of :: "nat \<Rightarrow> ('c, 'e) receiver \<Rightarrow> ('c, 'e) event list" where
  "pending_of i rc = nullish (map_of (rc_pending rc) i) []"

text \<open>\<open>push\<close>, \<open>end\<close> and \<open>error\<close>, by \<open>_onEvent\<close>.\<close>

definition onEvent ::
    "nat \<Rightarrow> nat \<Rightarrow> ('c, 'e) event \<Rightarrow> ('c, 'e) receiver \<times> ('c, 'e) streams
     \<Rightarrow> (('c, 'e) receiver \<times> ('c, 'e) streams) \<times> bool" where
  "onEvent hwm i ev x =
     (let (rc, streams) = x
      in if i \<in> set (rc_cancelled rc) then
           ((if is_chunk ev then rc else rc\<lparr>rc_cancelled := removeAll i (rc_cancelled rc)\<rparr>, streams), False)
         else if i \<notin> set (rc_controllers rc) then
           ((rc\<lparr>rc_pending := AList.update i (pending_of i rc @ [ev]) (rc_pending rc)\<rparr>, streams), False)
         else apply_event hwm i ev x)"

definition open_stream :: "nat \<Rightarrow> ('c, 'e) receiver \<times> ('c, 'e) streams \<Rightarrow> ('c, 'e) receiver \<times> ('c, 'e) streams" where
  "open_stream i x = ((fst x)\<lparr>rc_open := List.insert i (rc_open (fst x))\<rparr>, (snd x)(i \<mapsto> new_stream))"

text \<open>The \<open>start\<close> of the source, when the stream calls it.\<close>

definition start_source ::
    "nat \<Rightarrow> nat \<Rightarrow> ('c, 'e) receiver \<times> ('c, 'e) streams \<Rightarrow> ('c, 'e) receiver \<times> ('c, 'e) streams" where
  "start_source hwm i x =
     (let (rc, streams) = x
      in apply_events hwm i (pending_of i rc)
           (rc\<lparr>rc_controllers := List.insert i (rc_controllers rc), rc_pending := AList.delete i (rc_pending rc)\<rparr>,
            streams(i := map_option (\<lambda>st. st\<lparr>rs_startCalled := True\<rparr>) (streams i))))"

text \<open>\<open>cancel\<close> of the receiver and of the source; the message to the sender is posted by the step.\<close>

definition receiver_cancel :: "nat \<Rightarrow> ('c, 'e) receiver \<Rightarrow> ('c, 'e) receiver" where
  "receiver_cancel i rc =
     rc\<lparr>rc_controllers := removeAll i (rc_controllers rc), rc_pending := AList.delete i (rc_pending rc),
        rc_open := removeAll i (rc_open rc), rc_cancelled := List.insert i (rc_cancelled rc)\<rparr>"

definition dispose_receiver ::
    "'e \<Rightarrow> ('c, 'e) receiver \<times> ('c, 'e) streams \<Rightarrow> ('c, 'e) receiver \<times> ('c, 'e) streams" where
  "dispose_receiver e x =
     (let (rc, streams) = x
      in (\<lparr>rc_controllers = [], rc_pending = [], rc_cancelled = [], rc_open = []\<rparr>,
          \<lambda>i. if i \<in> set (rc_controllers rc) then map_option (stream_error e) (streams i) else streams i))"

section \<open>The pump and the channel\<close>

text \<open>
  Where a pump stands: at \<open>reader.read()\<close>; parked in \<open>acquireCredit\<close> with a chunk; woken there;
  after \<open>acquireCredit\<close> has returned; finished.
\<close>

datatype 'c phase = PReading | PParked 'c | PWoken 'c | PAnswered 'c bool | PDone

text \<open>
  \<open>pm_rest\<close> is what the body still yields and \<open>pm_fails\<close> the error it ends with, if any;
  \<open>pm_source\<close> and \<open>pm_posted\<close> record all it yields and the messages posted for it.
\<close>

record ('c, 'e) pump =
  pm_phase :: "'c phase"
  pm_rest :: "'c list"
  pm_fails :: "'e option"
  pm_cancelled :: bool
  pm_source :: "'c list"
  pm_posted :: "('c, 'e) event list"

datatype control = Credit | Cancel

text \<open>\<open>sys_cut\<close> records the streams the receiving side has cancelled, \<open>sys_seen\<close> the messages it got.\<close>

record ('c, 'e) sys =
  sys_alive :: bool
  sys_window :: "nat option"
  sys_registry :: registry
  sys_pumps :: "nat \<Rightarrow> ('c, 'e) pump option"
  sys_toReceiver :: "(nat \<times> ('c, 'e) event) list"
  sys_toSender :: "(nat \<times> control) list"
  sys_receiver :: "('c, 'e) receiver"
  sys_streams :: "('c, 'e) streams"
  sys_cut :: "nat list"
  sys_seen :: "nat \<Rightarrow> ('c, 'e) event list"

definition new_channel :: "nat option \<Rightarrow> ('c, 'e) sys" where
  "new_channel window =
     \<lparr>sys_alive = True, sys_window = window, sys_registry = \<lparr>rg_nextStreamId = 1, rg_streams = []\<rparr>,
      sys_pumps = Map.empty, sys_toReceiver = [], sys_toSender = [],
      sys_receiver = \<lparr>rc_controllers = [], rc_pending = [], rc_cancelled = [], rc_open = []\<rparr>,
      sys_streams = Map.empty, sys_cut = [], sys_seen = (\<lambda>_. [])\<rparr>"

definition hwm_of :: "nat option \<Rightarrow> nat" where
  "hwm_of window = (case window of None \<Rightarrow> 1 | Some w \<Rightarrow> w)"

definition initial_credits :: "nat option \<Rightarrow> enat" where
  "initial_credits window = (case window of None \<Rightarrow> \<infinity> | Some w \<Rightarrow> enat w)"

definition set_pump :: "nat \<Rightarrow> ('c, 'e) pump \<Rightarrow> ('c, 'e) sys \<Rightarrow> ('c, 'e) sys" where
  "set_pump i p s = s\<lparr>sys_pumps := (sys_pumps s)(i \<mapsto> p)\<rparr>"

definition post :: "nat \<Rightarrow> ('c, 'e) event \<Rightarrow> ('c, 'e) pump \<Rightarrow> ('c, 'e) sys \<Rightarrow> ('c, 'e) sys" where
  "post i ev p s =
     set_pump i (p\<lparr>pm_posted := pm_posted p @ [ev]\<rparr>) (s\<lparr>sys_toReceiver := sys_toReceiver s @ [(i, ev)]\<rparr>)"

text \<open>The \<open>finally\<close> of the pump, after the terminator \<open>t\<close> when one is posted.\<close>

definition finish_pump ::
    "nat \<Rightarrow> ('c, 'e) event option \<Rightarrow> bool \<Rightarrow> ('c, 'e) pump \<Rightarrow> ('c, 'e) sys \<Rightarrow> ('c, 'e) sys" where
  "finish_pump i t cancels p s =
     (let s' = s\<lparr>sys_registry := complete_stream i (sys_registry s)\<rparr>;
          p' = p\<lparr>pm_phase := PDone, pm_cancelled := pm_cancelled p \<or> cancels\<rparr>
      in case t of None \<Rightarrow> set_pump i p' s' | Some ev \<Rightarrow> post i ev p' s')"

text \<open>\<open>pumpStream\<close> up to its first \<open>await\<close>; a locked body makes \<open>getReader\<close> throw \<open>e\<close>.\<close>

definition start_pump :: "'c list \<Rightarrow> 'e option \<Rightarrow> 'e option \<Rightarrow> ('c, 'e) sys \<Rightarrow> ('c, 'e) sys" where
  "start_pump chunks fails locked s =
     (let (i, r) = allocateId (sys_registry s);
          p = \<lparr>pm_phase = PReading, pm_rest = chunks, pm_fails = fails, pm_cancelled = False, pm_source = chunks,
               pm_posted = []\<rparr>
      in case locked of
           Some e \<Rightarrow> finish_pump i (if sys_alive s then Some (EError e) else None) False p (s\<lparr>sys_registry := r\<rparr>)
         | None \<Rightarrow> set_pump i p (s\<lparr>sys_registry := register i (initial_credits (sys_window s)) r\<rparr>))"

text \<open>\<open>reader.read()\<close> is settled; a cancelled source is at its end.\<close>

definition pump_read :: "nat \<Rightarrow> ('c, 'e) pump \<Rightarrow> ('c, 'e) sys \<Rightarrow> ('c, 'e) sys" where
  "pump_read i p s =
     (let ended = (pm_cancelled p \<or> pm_rest p = [] \<and> pm_fails p = None)
      in if \<not> ended \<and> pm_rest p = [] then
           finish_pump i (if sys_alive s then Some (EError (the (pm_fails p))) else None) False p s
         else if \<not> sys_alive s then finish_pump i None True p s
         else if ended then finish_pump i (Some EEnd) False p s
         else (let c = hd (pm_rest p); p' = p\<lparr>pm_rest := tl (pm_rest p)\<rparr>
               in case acquire_begin i (sys_registry s) of
                    Refused \<Rightarrow> set_pump i (p'\<lparr>pm_phase := PAnswered c False\<rparr>) s
                  | Granted r \<Rightarrow> set_pump i (p'\<lparr>pm_phase := PAnswered c True\<rparr>) (s\<lparr>sys_registry := r\<rparr>)
                  | Parked r \<Rightarrow> set_pump i (p'\<lparr>pm_phase := PParked c\<rparr>) (s\<lparr>sys_registry := r\<rparr>)))"

definition pump_resume :: "nat \<Rightarrow> 'c \<Rightarrow> ('c, 'e) pump \<Rightarrow> ('c, 'e) sys \<Rightarrow> ('c, 'e) sys" where
  "pump_resume i c p s =
     (let (ok, r) = acquire_resume i (sys_registry s)
      in set_pump i (p\<lparr>pm_phase := PAnswered c ok\<rparr>) (s\<lparr>sys_registry := r\<rparr>))"

definition pump_answer :: "nat \<Rightarrow> 'c \<Rightarrow> bool \<Rightarrow> ('c, 'e) pump \<Rightarrow> ('c, 'e) sys \<Rightarrow> ('c, 'e) sys" where
  "pump_answer i c ok p s =
     (if \<not> ok then finish_pump i (if sys_alive s then Some EEnd else None) True p s
      else if \<not> sys_alive s then finish_pump i None True p s
      else post i (EChunk c) (p\<lparr>pm_phase := PReading\<rparr>) s)"

definition wake :: "bool \<Rightarrow> ('c, 'e) pump \<Rightarrow> ('c, 'e) pump" where
  "wake woken p =
     (case pm_phase p of PParked c \<Rightarrow> if woken then p\<lparr>pm_phase := PWoken c\<rparr> else p | _ \<Rightarrow> p)"

text \<open>The first message of each direction arrives.\<close>

definition to_receiver :: "nat \<Rightarrow> ('c, 'e) event \<Rightarrow> ('c, 'e) sys \<Rightarrow> ('c, 'e) sys" where
  "to_receiver i ev s =
     (let ((rc, streams), pulled) = onEvent (hwm_of (sys_window s)) i ev (sys_receiver s, sys_streams s)
      in s\<lparr>sys_toReceiver := tl (sys_toReceiver s), sys_receiver := rc, sys_streams := streams,
           sys_seen := (sys_seen s)(i := sys_seen s i @ [ev]),
           sys_toSender := sys_toSender s @ (if pulled \<and> sys_window s \<noteq> None then [(i, Credit)] else [])\<rparr>)"

definition to_sender :: "nat \<Rightarrow> control \<Rightarrow> ('c, 'e) sys \<Rightarrow> ('c, 'e) sys" where
  "to_sender i m s =
     (let s' = s\<lparr>sys_toSender := tl (sys_toSender s)\<rparr>
      in case m of
           Credit \<Rightarrow>
             (let (r, woken) = grantCredit i 1 (sys_registry s)
              in s'\<lparr>sys_registry := r, sys_pumps := (sys_pumps s)(i := map_option (wake woken) (sys_pumps s i))\<rparr>)
         | Cancel \<Rightarrow>
             (let (r, woken, cancels) = cancel_stream i (sys_registry s)
              in s'\<lparr>sys_registry := r,
                    sys_pumps := (sys_pumps s)(i := map_option
                      (\<lambda>p. (wake woken p)\<lparr>pm_cancelled := pm_cancelled p \<or> cancels\<rparr>) (sys_pumps s i))\<rparr>))"

text \<open>A step of the runtime's stream, with a credit when \<open>pull\<close> is called and there is a window.\<close>

definition on_stream ::
    "nat \<Rightarrow> (nat \<Rightarrow> ('c, 'e) rstream \<Rightarrow> ('c, 'e) rstream \<times> bool) \<Rightarrow> ('c, 'e) rstream \<Rightarrow> ('c, 'e) sys \<Rightarrow> ('c, 'e) sys" where
  "on_stream i f st s =
     (let (st', pulled) = f (hwm_of (sys_window s)) st
      in s\<lparr>sys_streams := (sys_streams s)(i \<mapsto> st'),
           sys_toSender := sys_toSender s @ (if pulled \<and> sys_window s \<noteq> None then [(i, Credit)] else [])\<rparr>)"

text \<open>Cancellation on the receiving side: the state of the receiver and the message to the sender.\<close>

definition cancel_received :: "nat \<Rightarrow> ('c, 'e) sys \<Rightarrow> ('c, 'e) sys" where
  "cancel_received i s =
     s\<lparr>sys_receiver := receiver_cancel i (sys_receiver s), sys_toSender := sys_toSender s @ [(i, Cancel)],
       sys_cut := i # sys_cut s\<rparr>"

definition teardown :: "'e \<Rightarrow> ('c, 'e) sys \<Rightarrow> ('c, 'e) sys" where
  "teardown e s =
     (let (r, woken, cancelled) = dispose_streams (sys_registry s);
          (rc, streams) = dispose_receiver e (sys_receiver s, sys_streams s)
      in s\<lparr>sys_alive := False, sys_registry := r, sys_receiver := rc, sys_streams := streams,
           sys_pumps := (\<lambda>i. map_option (\<lambda>p. (wake (i \<in> set woken) p)
                             \<lparr>pm_cancelled := pm_cancelled p \<or> i \<in> set cancelled\<rparr>) (sys_pumps s i))\<rparr>)"

datatype ('c, 'e) label =
    LPump "'c list" "'e option" "'e option"
  | LRead nat
  | LResume nat
  | LAnswer nat
  | LToReceiver
  | LToSender
  | LOpen nat
  | LStart nat
  | LStarted nat
  | LPulled nat
  | LConsumerRead nat
  | LConsumerCancel nat
  | LReceiverCancel nat
  | LTeardown 'e

text \<open>
  One step of the channel, \<open>None\<close> where it cannot be taken. Nothing is received after the teardown
  of the channel. The garbage collector's cancellation is one of \<open>LReceiverCancel\<close>.
\<close>

definition at_pump :: "nat \<Rightarrow> (('c, 'e) pump \<Rightarrow> ('c, 'e) sys option) \<Rightarrow> ('c, 'e) sys \<Rightarrow> ('c, 'e) sys option" where
  "at_pump i f s = (case sys_pumps s i of None \<Rightarrow> None | Some p \<Rightarrow> f p)"

definition at_stream :: "nat \<Rightarrow> (('c, 'e) rstream \<Rightarrow> ('c, 'e) sys option) \<Rightarrow> ('c, 'e) sys \<Rightarrow> ('c, 'e) sys option" where
  "at_stream i f s = (case sys_streams s i of None \<Rightarrow> None | Some st \<Rightarrow> f st)"

fun step :: "('c, 'e) label \<Rightarrow> ('c, 'e) sys \<Rightarrow> ('c, 'e) sys option" where
  "step (LPump chunks fails locked) s = Some (start_pump chunks fails locked s)"
| "step (LRead i) s = at_pump i (\<lambda>p. if pm_phase p = PReading then Some (pump_read i p s) else None) s"
| "step (LResume i) s =
     at_pump i (\<lambda>p. case pm_phase p of PWoken c \<Rightarrow> Some (pump_resume i c p s) | _ \<Rightarrow> None) s"
| "step (LAnswer i) s =
     at_pump i (\<lambda>p. case pm_phase p of PAnswered c ok \<Rightarrow> Some (pump_answer i c ok p s) | _ \<Rightarrow> None) s"
| "step LToReceiver s =
     (if \<not> sys_alive s then None
      else case sys_toReceiver s of [] \<Rightarrow> None | (i, ev) # _ \<Rightarrow> Some (to_receiver i ev s))"
| "step LToSender s =
     (if \<not> sys_alive s then None
      else case sys_toSender s of [] \<Rightarrow> None | (i, m) # _ \<Rightarrow> Some (to_sender i m s))"
| "step (LOpen i) s =
     (if sys_alive s \<and> sys_pumps s i \<noteq> None \<and> sys_streams s i = None
      then (let x = open_stream i (sys_receiver s, sys_streams s)
            in Some (s\<lparr>sys_receiver := fst x, sys_streams := snd x\<rparr>)) else None)"
| "step (LStart i) s =
     at_stream i (\<lambda>st. if sys_alive s \<and> \<not> rs_startCalled st
       then (let x = start_source (hwm_of (sys_window s)) i (sys_receiver s, sys_streams s)
             in Some (s\<lparr>sys_receiver := fst x, sys_streams := snd x\<rparr>)) else None) s"
| "step (LStarted i) s =
     at_stream i (\<lambda>st. if rs_startCalled st \<and> \<not> rs_started st
       then Some (on_stream i stream_started st s) else None) s"
| "step (LPulled i) s =
     at_stream i (\<lambda>st. if rs_pulling st then Some (on_stream i stream_pulled st s) else None) s"
| "step (LConsumerRead i) s = at_stream i (\<lambda>st. Some (on_stream i stream_read st s)) s"
| "step (LConsumerCancel i) s =
     at_stream i (\<lambda>st. if sys_alive s then
         (let (st', calls) = stream_cancel st; s' = s\<lparr>sys_streams := (sys_streams s)(i \<mapsto> st')\<rparr>
          in Some (if calls then cancel_received i s' else s')) else None) s"
| "step (LReceiverCancel i) s =
     (if sys_alive s \<and> sys_pumps s i \<noteq> None then Some (cancel_received i s) else None)"
| "step (LTeardown e) s = (if sys_alive s then Some (teardown e s) else None)"

fun run :: "('c, 'e) label list \<Rightarrow> ('c, 'e) sys \<Rightarrow> ('c, 'e) sys option" where
  "run [] s = Some s"
| "run (l # ls) s = (case step l s of None \<Rightarrow> None | Some s' \<Rightarrow> run ls s')"

inductive reachable :: "nat option \<Rightarrow> ('c, 'e) sys \<Rightarrow> bool" for w :: "nat option" where
  init: "reachable w (new_channel w)"
| step: "reachable w s \<Longrightarrow> step l s = Some s' \<Longrightarrow> reachable w s'"

lemma reachable_run: "reachable w s \<Longrightarrow> run ls s = Some s' \<Longrightarrow> reachable w s'"
  by (induction ls s rule: run.induct) (auto split: option.splits intro: reachable.step)

end
