(* ===== verification/StreamLaws.thy ===== *)
theory StreamLaws
  imports Streams
begin

text \<open>
  Streams between threads: what a consumer reads is a prefix of the body, and all of it when the
  stream closes without having been cancelled. The invariant is stated on the part of
  the channel that concerns one stream, its \<open>view\<close>: the other streams do not touch it.
\<close>

section \<open>The part of the channel that concerns a stream\<close>

record ('c, 'e) view =
  v_alive :: bool
  v_pump :: "('c, 'e) pump option"
  v_out :: "outbound option"
  v_events :: "('c, 'e) event list"
  v_controls :: "control list"
  v_cancelled :: bool
  v_controller :: bool
  v_pending :: "('c, 'e) event list"
  v_stream :: "('c, 'e) rstream option"
  v_cut :: bool
  v_seen :: "('c, 'e) event list"

definition for_id :: "nat \<Rightarrow> (nat \<times> 'm) list \<Rightarrow> 'm list" where
  "for_id i ms = map snd (filter (\<lambda>m. fst m = i) ms)"

lemma for_id_simps [simp]:
  "for_id i [] = []" "for_id i (ms @ ms') = for_id i ms @ for_id i ms'"
  "for_id i (m # ms) = (if fst m = i then snd m # for_id i ms else for_id i ms)"
  by (simp_all add: for_id_def)

definition view :: "nat \<Rightarrow> ('c, 'e) sys \<Rightarrow> ('c, 'e) view" where
  "view i s =
     \<lparr>v_alive = sys_alive s, v_pump = sys_pumps s i, v_out = map_of (rg_streams (sys_registry s)) i,
      v_events = for_id i (sys_toReceiver s), v_controls = for_id i (sys_toSender s),
      v_cancelled = (i \<in> set (rc_cancelled (sys_receiver s))),
      v_controller = (i \<in> set (rc_controllers (sys_receiver s))), v_pending = pending_of i (sys_receiver s),
      v_stream = sys_streams s i, v_cut = (i \<in> set (sys_cut s)), v_seen = sys_seen s i\<rparr>"

lemma map_of_set_stream [simp]:
  "map_of (rg_streams (set_stream i s r)) = (map_of (rg_streams r))(i \<mapsto> s)"
  "rg_nextStreamId (set_stream i s r) = rg_nextStreamId r"
  by (simp_all add: set_stream_def update_conv')

lemma map_of_complete [simp]:
  "map_of (rg_streams (complete_stream i r)) = (map_of (rg_streams r))(i := None)"
  "rg_nextStreamId (complete_stream i r) = rg_nextStreamId r"
  by (simp_all add: complete_stream_def delete_conv')

lemma pending_update [simp]:
  "pending_of j (rc\<lparr>rc_pending := AList.update i evs p\<rparr>) = (if j = i then evs else nullish (map_of p j) [])"
  "pending_of j (rc\<lparr>rc_pending := AList.delete i p\<rparr>) = (if j = i then [] else nullish (map_of p j) [])"
  "pending_of j (rc\<lparr>rc_controllers := cs, rc_pending := AList.delete i p\<rparr>) = (if j = i then [] else nullish (map_of p j) [])"
  by (simp_all add: pending_of_def update_conv' delete_conv')

lemma acquire_begin_cases:
  "acquire_begin i r = Refused \<Longrightarrow> map_of (rg_streams r) i = None"
  "acquire_begin i r = Granted r' \<Longrightarrow> (\<exists>s. map_of (rg_streams r) i = Some s \<and> 0 < os_credits s
     \<and> r' = set_stream i (s\<lparr>os_credits := os_credits s - 1\<rparr>) r)"
  "acquire_begin i r = Parked r' \<Longrightarrow> (\<exists>s. map_of (rg_streams r) i = Some s \<and> os_credits s = 0
     \<and> r' = set_stream i (s\<lparr>os_waiter := True\<rparr>) r)"
  by (auto simp: acquire_begin_def split: option.splits if_splits)

lemma apply_event_other: "j \<noteq> i \<Longrightarrow> apply_event hwm i ev (rc, streams) = ((rc', streams'), b) \<Longrightarrow>
   streams' j = streams j \<and> (j \<in> set (rc_controllers rc') \<longleftrightarrow> j \<in> set (rc_controllers rc))
   \<and> rc_cancelled rc' = rc_cancelled rc \<and> rc_pending rc' = rc_pending rc"
  by (auto simp: apply_event_def Let_def split: option.splits event.splits prod.splits)

lemma apply_events_other: "j \<noteq> i \<Longrightarrow> apply_events hwm i evs (rc, streams) = (rc', streams') \<Longrightarrow>
   streams' j = streams j \<and> (j \<in> set (rc_controllers rc') \<longleftrightarrow> j \<in> set (rc_controllers rc))
   \<and> rc_cancelled rc' = rc_cancelled rc \<and> rc_pending rc' = rc_pending rc"
proof (induction evs arbitrary: rc streams)
  case (Cons ev evs)
  obtain rc1 streams1 b where 1: "apply_event hwm i ev (rc, streams) = ((rc1, streams1), b)" by (metis surj_pair)
  with Cons.prems have "apply_events hwm i evs (rc1, streams1) = (rc', streams')" by simp
  with Cons.IH[OF Cons.prems(1) this] apply_event_other[OF Cons.prems(1) 1] show ?case by simp
qed simp

lemma onEvent_other: "j \<noteq> i \<Longrightarrow> onEvent hwm i ev (rc, streams) = ((rc', streams'), b) \<Longrightarrow>
   streams' j = streams j \<and> (j \<in> set (rc_controllers rc') \<longleftrightarrow> j \<in> set (rc_controllers rc))
   \<and> (j \<in> set (rc_cancelled rc') \<longleftrightarrow> j \<in> set (rc_cancelled rc)) \<and> pending_of j rc' = pending_of j rc"
  using apply_event_other[of j i hwm ev rc streams rc' streams' b]
  by (auto simp: onEvent_def Let_def pending_of_def update_conv' split: if_splits)

text \<open>The stream a step is about; a teardown is about all of them.\<close>

fun target :: "('c, 'e) label \<Rightarrow> ('c, 'e) sys \<Rightarrow> nat" where
  "target (LPump _ _ _) s = rg_nextStreamId (sys_registry s)"
| "target (LRead i) s = i" | "target (LResume i) s = i" | "target (LAnswer i) s = i"
| "target LToReceiver s = fst (hd (sys_toReceiver s))" | "target LToSender s = fst (hd (sys_toSender s))"
| "target (LOpen i) s = i" | "target (LStart i) s = i" | "target (LStarted i) s = i" | "target (LPulled i) s = i"
| "target (LConsumerRead i) s = i" | "target (LConsumerCancel i) s = i" | "target (LReceiverCancel i) s = i"
| "target (LTeardown _) s = 0"

lemmas pump_defs = finish_pump_def post_def set_pump_def

lemma view_finish: "j \<noteq> i \<Longrightarrow> view j (finish_pump i t b p s) = view j s"
  by (auto simp: view_def finish_pump_def post_def set_pump_def Let_def split: option.split)

lemma view_other:
  assumes "step l s = Some s'" and "j \<noteq> target l s" and "\<And>e. l \<noteq> LTeardown e"
  shows "view j s' = view j s"
proof (cases l)
  case (LPump cs f k)
  with assms show ?thesis
    by (auto simp: start_pump_def allocateId_def register_def Let_def view_finish[of j] split: option.splits)
      (auto simp: view_def set_pump_def)
next
  case (LRead i)
  with assms show ?thesis
    by (auto simp: at_pump_def pump_read_def Let_def view_finish[of j] split: option.splits if_splits acquisition.splits
          dest!: acquire_begin_cases)
      (auto simp: view_def set_pump_def)
next
  case (LResume i)
  with assms show ?thesis
    by (auto simp: at_pump_def pump_resume_def acquire_resume_def Let_def view_def set_pump_def
        split: option.splits if_splits phase.splits)
next
  case (LAnswer i)
  with assms show ?thesis
    by (auto simp: at_pump_def pump_answer_def view_finish[of j] split: option.splits if_splits phase.splits)
      (auto simp: view_def set_pump_def post_def)
next
  case LToReceiver
  with assms obtain i ev ms where m: "sys_toReceiver s = (i, ev) # ms" "s' = to_receiver i ev s" "j \<noteq> i"
    by (auto split: if_splits list.splits)
  obtain rc streams b where o: "onEvent (hwm_of (sys_window s)) i ev (sys_receiver s, sys_streams s) = ((rc, streams), b)"
    by (metis surj_pair)
  from onEvent_other[OF m(3) o] m(1,3) show ?thesis unfolding m(2) by (simp add: to_receiver_def o view_def)
next
  case LToSender
  with assms show ?thesis
    by (auto simp: to_sender_def grantCredit_def cancel_stream_def view_def Let_def delete_conv'
        split: if_splits list.splits control.splits option.splits)
next
  case (LOpen i)
  with assms show ?thesis by (auto simp: open_stream_def view_def pending_of_def Let_def split: if_splits)
next
  case (LStart i)
  with assms have i: "j \<noteq> i" by simp
  obtain rc streams where x: "start_source (hwm_of (sys_window s)) i (sys_receiver s, sys_streams s) = (rc, streams)" by force
  with apply_events_other[OF i x[unfolded start_source_def Let_def prod.case]] i
  have "view j (s\<lparr>sys_receiver := rc, sys_streams := streams\<rparr>) = view j s"
    by (simp add: view_def pending_of_def delete_conv')
  with LStart assms(1) x show ?thesis by (auto simp: at_stream_def split: option.splits if_splits)
next
  case (LConsumerCancel i)
  with assms show ?thesis
    by (auto simp: at_stream_def view_def cancel_received_def receiver_cancel_def pending_of_def delete_conv' Let_def
        split: option.splits if_splits prod.splits)
next
  case (LReceiverCancel i)
  with assms show ?thesis
    by (auto simp: view_def cancel_received_def receiver_cancel_def pending_of_def delete_conv' split: if_splits)
qed (use assms in \<open>auto simp: at_stream_def on_stream_def view_def Let_def split: option.splits if_splits prod.splits\<close>)

section \<open>The invariant of a stream\<close>

fun chunks :: "('c, 'e) event list \<Rightarrow> 'c list" where
  "chunks [] = []"
| "chunks (EChunk c # evs) = c # chunks evs"
| "chunks (_ # evs) = chunks evs"

definition ended :: "('c, 'e) event list \<Rightarrow> bool" where
  "ended evs = (\<exists>ev \<in> set evs. \<not> is_chunk ev)"

definition proper :: "('c, 'e) event list \<Rightarrow> bool" where
  "proper evs = (\<not> ended (butlast evs))"

lemma chunks_append [simp]: "chunks (a @ b) = chunks a @ chunks b"
  by (induction a rule: chunks.induct) auto

lemma ended_simps [simp]:
  "\<not> ended []" "ended (a @ b) \<longleftrightarrow> ended a \<or> ended b" "ended (ev # evs) \<longleftrightarrow> \<not> is_chunk ev \<or> ended evs"
  by (auto simp: ended_def)

lemma is_chunk_simps [simp]: "is_chunk (EChunk c)" "\<not> is_chunk EEnd" "\<not> is_chunk (EError e)"
  by (auto simp: is_chunk_def)

lemma proper_post: "\<not> ended evs \<Longrightarrow> proper (evs @ [ev])"
  by (simp add: proper_def)

lemma proper_next: "proper (seen @ ev # evs) \<Longrightarrow> \<not> ended seen"
  by (auto simp: proper_def butlast_append)

lemma proper_append: "proper (a @ b) \<Longrightarrow> proper a"
  by (cases b rule: rev_cases) (auto simp: proper_def ended_def butlast_append dest: in_set_butlastD simp flip: append_assoc)

fun held :: "'c phase \<Rightarrow> 'c list" where
  "held (PParked c) = [c]" | "held (PWoken c) = [c]" | "held (PAnswered c ok) = [c]" | "held _ = []"

definition pump_ok :: "('c, 'e) view \<Rightarrow> ('c, 'e) pump \<Rightarrow> bool" where
  "pump_ok v p =
     ((pm_phase p \<noteq> PDone \<longrightarrow> pm_source p = chunks (pm_posted p) @ held (pm_phase p) @ pm_rest p \<and> \<not> ended (pm_posted p))
      \<and> prefix (chunks (pm_posted p)) (pm_source p)
      \<and> proper (pm_posted p)
      \<and> pm_posted p = v_seen v @ v_events v
      \<and> (EEnd \<in> set (pm_posted p) \<and> \<not> v_cut v \<longrightarrow> chunks (pm_posted p) = pm_source p \<and> pm_fails p = None)
      \<and> (v_alive v \<and> \<not> v_cut v \<longrightarrow> \<not> pm_cancelled p \<and> (pm_phase p \<noteq> PDone \<longrightarrow> v_out v \<noteq> None)
           \<and> (\<forall>c. pm_phase p \<noteq> PAnswered c False)))"

definition wake_ok :: "('c, 'e) view \<Rightarrow> ('c, 'e) pump \<Rightarrow> bool" where
  "wake_ok v p =
     ((pm_phase p = PDone \<longrightarrow> v_out v = None)
      \<and> (\<forall>c. pm_phase p = PParked c \<longrightarrow> (\<exists>st. v_out v = Some st \<and> os_waiter st \<and> os_credits st = 0))
      \<and> (\<forall>st. v_out v = Some st \<and> os_waiter st \<longrightarrow> (\<exists>c. pm_phase p = PParked c))
      \<and> (\<forall>st c. v_out v = Some st \<and> pm_phase p = PWoken c \<longrightarrow> 0 < os_credits st))"

definition stream_ok :: "bool \<Rightarrow> ('c, 'e) event list \<Rightarrow> ('c, 'e) rstream \<Rightarrow> bool" where
  "stream_ok gone seen st =
     (prefix (rs_delivered st @ rs_queue st) (chunks seen)
      \<and> (0 < rs_requests st \<longrightarrow> rs_queue st = []) \<and> (rs_state st = Closed \<longrightarrow> rs_queue st = [])
      \<and> (\<not> gone \<and> (rs_state st = Closed \<or> rs_closeRequested st \<and> rs_state st = Readable) \<longrightarrow>
           EEnd \<in> set seen \<and> rs_delivered st @ rs_queue st = chunks seen)
      \<and> (\<not> rs_startCalled st \<longrightarrow> rs_queue st = [] \<and> rs_delivered st = [] \<and> \<not> rs_closeRequested st \<and> \<not> rs_started st
           \<and> (\<not> gone \<longrightarrow> rs_state st = Readable)))"

text \<open>A stream whose source has been started and that nobody has cancelled.\<close>

definition connected :: "bool \<Rightarrow> ('c, 'e) event list \<Rightarrow> ('c, 'e) rstream \<Rightarrow> bool" where
  "connected controller seen st =
     (rs_startCalled st \<and> (controller \<longleftrightarrow> \<not> ended seen)
      \<and> (rs_state st = Readable \<longrightarrow> rs_delivered st @ rs_queue st = chunks seen)
      \<and> (\<forall>e. rs_state st = Errored e \<longrightarrow> ended seen))"

definition receiver_ok :: "('c, 'e) view \<Rightarrow> bool" where
  "receiver_ok v =
     ((\<forall>st. v_stream v = Some st \<longrightarrow> stream_ok (v_cut v) (v_seen v) st)
      \<and> (v_alive v \<and> \<not> v_cut v \<longrightarrow> \<not> v_cancelled v \<and>
           (case v_stream v of
              None \<Rightarrow> \<not> v_controller v \<and> v_pending v = v_seen v
            | Some st \<Rightarrow> if rs_startCalled st then v_pending v = [] \<and> connected (v_controller v) (v_seen v) st
                         else \<not> v_controller v \<and> v_pending v = v_seen v))
      \<and> (v_alive v \<and> v_cut v \<longrightarrow> v_pending v = [] \<and> (v_cancelled v \<or> ended (v_seen v))))"

definition vinv :: "('c, 'e) view \<Rightarrow> bool" where
  "vinv v =
     (receiver_ok v \<and> (Cancel \<in> set (v_controls v) \<longrightarrow> v_cut v)
      \<and> (case v_pump v of
           Some p \<Rightarrow> pump_ok v p \<and> wake_ok v p
         | None \<Rightarrow> v_out v = None \<and> v_events v = [] \<and> v_seen v = [] \<and> v_stream v = None \<and> \<not> v_cut v
             \<and> v_pending v = [] \<and> \<not> v_cancelled v \<and> \<not> v_controller v))"

definition channel_inv :: "('c, 'e) sys \<Rightarrow> bool" where
  "channel_inv s = ((\<forall>i. vinv (view i s)) \<and> (\<forall>i \<ge> rg_nextStreamId (sys_registry s). sys_pumps s i = None))"

section \<open>The steps of the pump keep the invariant\<close>

lemma view_simps [simp]:
  "v_alive (view i s) = sys_alive s" "v_pump (view i s) = sys_pumps s i"
  "v_out (view i s) = map_of (rg_streams (sys_registry s)) i" "v_events (view i s) = for_id i (sys_toReceiver s)"
  "v_controls (view i s) = for_id i (sys_toSender s)" "v_cancelled (view i s) = (i \<in> set (rc_cancelled (sys_receiver s)))"
  "v_controller (view i s) = (i \<in> set (rc_controllers (sys_receiver s)))"
  "v_pending (view i s) = pending_of i (sys_receiver s)" "v_stream (view i s) = sys_streams s i"
  "v_cut (view i s) = (i \<in> set (sys_cut s))" "v_seen (view i s) = sys_seen s i"
  by (simp_all add: view_def)

text \<open>The receiving side of a view.\<close>

lemma receiver_ok_cong:
  "v_alive v = v_alive u \<Longrightarrow> v_stream v = v_stream u \<Longrightarrow> v_cut v = v_cut u \<Longrightarrow> v_seen v = v_seen u \<Longrightarrow>
   v_cancelled v = v_cancelled u \<Longrightarrow> v_controller v = v_controller u \<Longrightarrow> v_pending v = v_pending u \<Longrightarrow>
   receiver_ok v = receiver_ok u"
  by (simp add: receiver_ok_def split: option.split)

definition same_receiver :: "('c, 'e) sys \<Rightarrow> ('c, 'e) sys \<Rightarrow> bool" where
  "same_receiver s s' =
     (sys_alive s' = sys_alive s \<and> sys_receiver s' = sys_receiver s \<and> sys_streams s' = sys_streams s
      \<and> sys_cut s' = sys_cut s \<and> sys_seen s' = sys_seen s)"

lemma vinv_sender:
  assumes "vinv (view i s)" and "sys_pumps s i = Some p" and "same_receiver s s'"
    and "set (for_id i (sys_toSender s')) \<subseteq> set (for_id i (sys_toSender s))"
    and "sys_pumps s' i = Some p'" and "pump_ok (view i s') p'" and "wake_ok (view i s') p'"
  shows "vinv (view i s')"
proof -
  have "receiver_ok (view i s') = receiver_ok (view i s)"
    using assms(3) by (intro receiver_ok_cong) (simp_all add: same_receiver_def)
  with assms show ?thesis by (auto simp: vinv_def same_receiver_def)
qed

lemma finish_fields:
  "same_receiver s (finish_pump i t b p s)" "sys_toSender (finish_pump i t b p s) = sys_toSender s"
  "sys_pumps (finish_pump i t b p s) i = Some (p\<lparr>pm_phase := PDone, pm_cancelled := pm_cancelled p \<or> b,
     pm_posted := pm_posted p @ (case t of None \<Rightarrow> [] | Some ev \<Rightarrow> [ev])\<rparr>)"
  "sys_toReceiver (finish_pump i t b p s) = sys_toReceiver s @ (case t of None \<Rightarrow> [] | Some ev \<Rightarrow> [(i, ev)])"
  "map_of (rg_streams (sys_registry (finish_pump i t b p s))) = (map_of (rg_streams (sys_registry s)))(i := None)"
  "rg_nextStreamId (sys_registry (finish_pump i t b p s)) = rg_nextStreamId (sys_registry s)"
  "sys_cut (finish_pump i t b p s) = sys_cut s" "sys_alive (finish_pump i t b p s) = sys_alive s"
  "sys_seen (finish_pump i t b p s) = sys_seen s" "sys_receiver (finish_pump i t b p s) = sys_receiver s"
  "sys_streams (finish_pump i t b p s) = sys_streams s"
  by (auto simp: finish_pump_def post_def set_pump_def same_receiver_def Let_def split: option.split)

lemma vinv_finish:
  assumes "vinv (view i s)" and "sys_pumps s i = Some p" and "pm_phase p \<noteq> PDone"
    and "t = Some EEnd \<Longrightarrow> i \<notin> set (sys_cut s) \<Longrightarrow> pm_rest p = [] \<and> held (pm_phase p) = [] \<and> pm_fails p = None"
    and "b \<Longrightarrow> \<not> sys_alive s \<or> i \<in> set (sys_cut s)"
    and "\<And>ev. t = Some ev \<Longrightarrow> \<not> is_chunk ev"
  shows "vinv (view i (finish_pump i t b p s))"
proof (rule vinv_sender[OF assms(1,2) finish_fields(1) _ finish_fields(3)])
  have p: "pump_ok (view i s) p" using assms(1,2) by (simp add: vinv_def)
  let ?s' = "finish_pump i t b p s"
  let ?p' = "p\<lparr>pm_phase := PDone, pm_cancelled := pm_cancelled p \<or> b, pm_posted := pm_posted p @ (case t of None \<Rightarrow> [] | Some ev \<Rightarrow> [ev])\<rparr>"
  have "\<not> ended (pm_posted p)" using p assms(3) unfolding pump_ok_def by blast
  then have noend: "EEnd \<notin> set (pm_posted p)" unfolding ended_def by (metis is_chunk_simps(2))
  show "pump_ok (view i ?s') ?p'"
    using p assms(3-6) noend proper_post[of "pm_posted p"]
    by (cases t; cases "the t") (auto simp: pump_ok_def finish_fields)
  show "wake_ok (view i ?s') ?p'" by (auto simp: wake_ok_def finish_fields)
qed (simp add: finish_fields)

lemma vinv_read:
  assumes v: "vinv (view i s)" and s: "sys_pumps s i = Some p" and r: "pm_phase p = PReading"
  shows "vinv (view i (pump_read i p s))"
proof -
  have p: "pump_ok (view i s) p" "wake_ok (view i s) p" using v s by (simp_all add: vinv_def)
  let ?ended = "pm_cancelled p \<or> pm_rest p = [] \<and> pm_fails p = None"
  consider (fails) "\<not> ?ended" "pm_rest p = []" | (dead) "?ended \<or> pm_rest p \<noteq> []" "\<not> sys_alive s"
    | (ended) "?ended" "sys_alive s" | (more) c cs where "\<not> ?ended" "sys_alive s" "pm_rest p = c # cs"
    by (cases "pm_rest p") auto
  then show ?thesis
  proof cases
    case fails
    then have "pump_read i p s = finish_pump i (if sys_alive s then Some (EError (the (pm_fails p))) else None) False p s"
      by (simp add: pump_read_def Let_def)
    then show ?thesis using v s r by (auto intro!: vinv_finish)
  next
    case dead
    then have "pump_read i p s = finish_pump i None True p s" by (auto simp: pump_read_def Let_def)
    then show ?thesis using v s r dead(2) by (auto intro!: vinv_finish)
  next
    case ended
    then have e: "pump_read i p s = finish_pump i (Some EEnd) False p s" by (simp add: pump_read_def Let_def)
    have "i \<notin> set (sys_cut s) \<Longrightarrow> pm_rest p = [] \<and> held (pm_phase p) = [] \<and> pm_fails p = None"
      using ended p(1) r by (auto simp: pump_ok_def)
    then show ?thesis unfolding e using v s r by (intro vinv_finish) auto
  next
    case more
    let ?p = "p\<lparr>pm_rest := cs\<rparr>"
    consider (refused) "acquire_begin i (sys_registry s) = Refused" | (granted) r where "acquire_begin i (sys_registry s) = Granted r"
      | (parked) r where "acquire_begin i (sys_registry s) = Parked r" by (cases "acquire_begin i (sys_registry s)") auto
    then show ?thesis
    proof cases
      case refused
      then have e: "pump_read i p s = set_pump i (?p\<lparr>pm_phase := PAnswered c False\<rparr>) s"
        using more by (simp add: pump_read_def Let_def)
      show ?thesis unfolding e
        by (rule vinv_sender[OF v s, where p' = "?p\<lparr>pm_phase := PAnswered c False\<rparr>"])
          (use p r more acquire_begin_cases(1)[OF refused] in \<open>auto simp: same_receiver_def set_pump_def pump_ok_def wake_ok_def\<close>)
    next
      case (granted g)
      then have e: "pump_read i p s = set_pump i (?p\<lparr>pm_phase := PAnswered c True\<rparr>) (s\<lparr>sys_registry := g\<rparr>)"
        using more by (simp add: pump_read_def Let_def)
      show ?thesis unfolding e
        by (rule vinv_sender[OF v s, where p' = "?p\<lparr>pm_phase := PAnswered c True\<rparr>"])
          (use p r more acquire_begin_cases(2)[OF granted] in \<open>auto simp: same_receiver_def set_pump_def pump_ok_def wake_ok_def\<close>)
    next
      case (parked g)
      then have e: "pump_read i p s = set_pump i (?p\<lparr>pm_phase := PParked c\<rparr>) (s\<lparr>sys_registry := g\<rparr>)"
        using more by (simp add: pump_read_def Let_def)
      show ?thesis unfolding e
        by (rule vinv_sender[OF v s, where p' = "?p\<lparr>pm_phase := PParked c\<rparr>"])
          (use p r more acquire_begin_cases(3)[OF parked] in \<open>auto simp: same_receiver_def set_pump_def pump_ok_def wake_ok_def\<close>)
    qed
  qed
qed

lemma vinv_resume:
  assumes v: "vinv (view i s)" and s: "sys_pumps s i = Some p" and r: "pm_phase p = PWoken c"
  shows "vinv (view i (pump_resume i c p s))"
proof -
  have p: "pump_ok (view i s) p" "wake_ok (view i s) p" using v s by (simp_all add: vinv_def)
  obtain ok g where a: "acquire_resume i (sys_registry s) = (ok, g)" by force
  then have e: "pump_resume i c p s = set_pump i (p\<lparr>pm_phase := PAnswered c ok\<rparr>) (s\<lparr>sys_registry := g\<rparr>)"
    by (simp add: pump_resume_def)
  show ?thesis unfolding e
    by (rule vinv_sender[OF v s, where p' = "p\<lparr>pm_phase := PAnswered c ok\<rparr>"])
      (use p r a in \<open>auto simp: same_receiver_def set_pump_def pump_ok_def wake_ok_def acquire_resume_def
        split: option.splits if_splits\<close>)
qed

lemma vinv_answer:
  assumes v: "vinv (view i s)" and s: "sys_pumps s i = Some p" and r: "pm_phase p = PAnswered c ok"
  shows "vinv (view i (pump_answer i c ok p s))"
proof -
  have p: "pump_ok (view i s) p" "wake_ok (view i s) p" using v s by (simp_all add: vinv_def)
  consider (no) "\<not> ok" | (dead) "ok" "\<not> sys_alive s" | (yes) "ok" "sys_alive s" by blast
  then show ?thesis
  proof cases
    case no
    then have "\<not> sys_alive s \<or> i \<in> set (sys_cut s)" using p r by (auto simp: pump_ok_def)
    with no v s r show ?thesis by (auto simp: pump_answer_def intro!: vinv_finish split: if_splits)
  next
    case dead
    with v s r show ?thesis by (auto simp: pump_answer_def intro!: vinv_finish)
  next
    case yes
    have ne: "\<not> ended (pm_posted p)" using p(1) r unfolding pump_ok_def by (metis phase.simps)
    with proper_post[of "pm_posted p" "EChunk c"] show ?thesis unfolding pump_answer_def
      by (intro vinv_sender[OF v s, where p' = "p\<lparr>pm_phase := PReading, pm_posted := pm_posted p @ [EChunk c]\<rparr>"])
        (use p r yes in \<open>auto simp: same_receiver_def set_pump_def post_def pump_ok_def wake_ok_def\<close>)
  qed
qed

lemma vinv_start_pump:
  fixes s :: "('c, 'e) sys"
  assumes "channel_inv s"
  shows "vinv (view (rg_nextStreamId (sys_registry s)) (start_pump cs f k s))"
proof -
  let ?i = "rg_nextStreamId (sys_registry s)"
  have n: "sys_pumps s ?i = None" and v: "vinv (view ?i s)" using assms by (auto simp: channel_inv_def)
  have r: "receiver_ok (view ?i s)" using v by (simp add: vinv_def)
  define p where "p = \<lparr>pm_phase = PReading, pm_rest = cs, pm_fails = f, pm_cancelled = False, pm_source = cs,
     pm_posted = ([] :: ('c, 'e) event list)\<rparr>"
  define s1 where "s1 = set_pump ?i p (s\<lparr>sys_registry := register ?i (initial_credits (sys_window s))
     ((sys_registry s)\<lparr>rg_nextStreamId := ?i + 1\<rparr>)\<rparr>)"
  have "receiver_ok (view ?i s1) = receiver_ok (view ?i s)"
    by (rule receiver_ok_cong) (simp_all add: s1_def set_pump_def)
  then have 1: "vinv (view ?i s1)"
    using v n r by (auto simp: vinv_def s1_def set_pump_def register_def p_def pump_ok_def wake_ok_def proper_def)
  show ?thesis
  proof (cases k)
    case None
    then have "start_pump cs f k s = s1"
      by (simp add: start_pump_def allocateId_def s1_def p_def Let_def)
    with 1 show ?thesis by simp
  next
    case (Some e)
    let ?t = "if sys_alive s then Some (EError e) else None"
    have "vinv (view ?i (finish_pump ?i ?t False p s1))"
      by (rule vinv_finish[OF 1]) (auto simp: s1_def set_pump_def p_def split: if_splits)
    moreover have "view ?i (start_pump cs f k s) = view ?i (finish_pump ?i ?t False p s1)"
      by (simp add: start_pump_def allocateId_def Some finish_pump_def post_def set_pump_def s1_def p_def register_def view_def
          Let_def split: option.split)
    ultimately show ?thesis by simp
  qed
qed

lemma wake_fields [simp]:
  "pm_rest (wake b p) = pm_rest p" "pm_posted (wake b p) = pm_posted p" "pm_source (wake b p) = pm_source p"
  "pm_fails (wake b p) = pm_fails p" "pm_cancelled (wake b p) = pm_cancelled p" "held (pm_phase (wake b p)) = held (pm_phase p)"
  "pm_phase (wake b p) = PDone \<longleftrightarrow> pm_phase p = PDone" "pm_phase (wake b p) = PAnswered c ok \<longleftrightarrow> pm_phase p = PAnswered c ok"
  "pm_phase (wake b p) = PParked c \<longleftrightarrow> pm_phase p = PParked c \<and> \<not> b"
  "pm_phase (wake b p) = PWoken c \<longleftrightarrow> pm_phase p = PWoken c \<or> pm_phase p = PParked c \<and> b"
  by (auto simp: wake_def split: phase.split)

lemma vinv_to_sender:
  assumes v: "vinv (view i s)" and m: "sys_toSender s = (i, m) # ms"
  shows "vinv (view i (to_sender i m s))"
proof (cases "sys_pumps s i")
  case None
  then have n: "map_of (rg_streams (sys_registry s)) i = None" and nc: "m = Credit"
    using v m by (cases m; auto simp: vinv_def)+
  then have e: "view i (to_sender i m s) = (view i s)\<lparr>v_controls := for_id i ms\<rparr>"
    using None m by (simp add: view_def to_sender_def Let_def grantCredit_def)
  have "receiver_ok ((view i s)\<lparr>v_controls := for_id i ms\<rparr>) = receiver_ok (view i s)" by (rule receiver_ok_cong) simp_all
  with v m None show ?thesis unfolding e by (auto simp: vinv_def)
next
  case (Some p)
  have p: "pump_ok (view i s) p" "wake_ok (view i s) p" using v Some by (simp_all add: vinv_def)
  show ?thesis
  proof (cases m)
    case Credit
    obtain g woken where g: "grantCredit i 1 (sys_registry s) = (g, woken)" by force
    then have e: "to_sender i m s = s\<lparr>sys_toSender := ms, sys_registry := g,
        sys_pumps := (sys_pumps s)(i \<mapsto> wake woken p)\<rparr>" using Credit m Some by (simp add: to_sender_def Let_def)
    have w: "wake_ok (view i (to_sender i m s)) (wake woken p)"
    proof (cases "map_of (rg_streams (sys_registry s)) i")
      case None
      then show ?thesis using p(2) g unfolding e by (auto simp: wake_ok_def grantCredit_def)
    next
      case (Some out)
      then have "g = set_stream i \<lparr>os_credits = os_credits out + 1, os_waiter = False\<rparr> (sys_registry s)" "woken = os_waiter out"
        using g by (simp_all add: grantCredit_def one_enat_def)
      then show ?thesis using p(2) Some unfolding e by (auto simp: wake_ok_def)
    qed
    show ?thesis
      by (rule vinv_sender[OF v Some _ _ _ _ w])
        (use p(1) m g in \<open>auto simp: e same_receiver_def pump_ok_def grantCredit_def split: option.splits\<close>)
  next
    case Cancel
    then have gone: "i \<in> set (sys_cut s)" using v m by (simp add: vinv_def)
    obtain g woken c where g: "cancel_stream i (sys_registry s) = (g, woken, c)" by (metis surj_pair)
    show ?thesis
      by (rule vinv_sender[OF v Some, where p' = "(wake woken p)\<lparr>pm_cancelled := pm_cancelled p \<or> c\<rparr>"])
        (use p m Some g Cancel gone in \<open>auto simp: same_receiver_def to_sender_def pump_ok_def wake_ok_def cancel_stream_def
           Let_def delete_conv' split: option.splits\<close>)
  qed
qed

section \<open>The steps of the receiving side keep it\<close>

lemma call_pull_fields [simp]:
  "rs_queue (fst (call_pull h st)) = rs_queue st" "rs_state (fst (call_pull h st)) = rs_state st"
  "rs_closeRequested (fst (call_pull h st)) = rs_closeRequested st" "rs_startCalled (fst (call_pull h st)) = rs_startCalled st"
  "rs_started (fst (call_pull h st)) = rs_started st" "rs_requests (fst (call_pull h st)) = rs_requests st"
  "rs_delivered (fst (call_pull h st)) = rs_delivered st"
  by (simp_all add: call_pull_def)

lemma stream_read_ok:
  "stream_ok gone seen st \<Longrightarrow> stream_ok gone seen (fst (stream_read h st))"
  "connected ctl seen st \<Longrightarrow> connected ctl seen (fst (stream_read h st))"
  by (auto simp: stream_read_def stream_ok_def connected_def Let_def split: list.split)

lemma stream_started_ok:
  "rs_startCalled st \<Longrightarrow> stream_ok gone seen st \<Longrightarrow> stream_ok gone seen (fst (stream_started h st))"
  "connected ctl seen st \<Longrightarrow> connected ctl seen (fst (stream_started h st))"
  by (auto simp: stream_started_def stream_ok_def connected_def)

lemma stream_pulled_ok:
  "stream_ok gone seen st \<Longrightarrow> stream_ok gone seen (fst (stream_pulled h st))"
  "connected ctl seen st \<Longrightarrow> connected ctl seen (fst (stream_pulled h st))"
  by (auto simp: stream_pulled_def stream_ok_def connected_def)

lemma startCalled_kept [simp]:
  "rs_startCalled (fst (stream_read h st)) = rs_startCalled st" "rs_startCalled (fst (stream_started h st)) = rs_startCalled st"
  "rs_startCalled (fst (stream_pulled h st)) = rs_startCalled st"
  by (auto simp: stream_read_def stream_started_def stream_pulled_def Let_def split: list.split)

definition same_sender :: "('c, 'e) sys \<Rightarrow> ('c, 'e) sys \<Rightarrow> bool" where
  "same_sender s s' =
     (sys_alive s' = sys_alive s \<and> sys_pumps s' = sys_pumps s \<and> sys_registry s' = sys_registry s
      \<and> sys_toReceiver s' = sys_toReceiver s \<and> sys_seen s' = sys_seen s)"

lemma vinv_receiver:
  assumes "vinv (view i s)" and "sys_pumps s i \<noteq> None" and "same_sender s s'"
    and "Cancel \<in> set (for_id i (sys_toSender s')) \<Longrightarrow> i \<in> set (sys_cut s')"
    and "i \<in> set (sys_cut s) \<Longrightarrow> i \<in> set (sys_cut s')"
    and "receiver_ok (view i s')"
  shows "vinv (view i s')"
proof -
  from assms(1,2) obtain p where p: "sys_pumps s i = Some p" "pump_ok (view i s) p" "wake_ok (view i s) p"
    by (auto simp: vinv_def)
  have "pump_ok (view i s') p" using p(2) assms(3,5) by (auto simp: pump_ok_def same_sender_def)
  moreover have "wake_ok (view i s') p" using p(3) assms(3) by (simp add: wake_ok_def same_sender_def)
  ultimately show ?thesis using p(1) assms(3,4,6) by (simp add: vinv_def same_sender_def)
qed

lemma stream_has_pump: "vinv (view i s) \<Longrightarrow> sys_streams s i = Some st \<Longrightarrow> sys_pumps s i \<noteq> None"
  by (cases "sys_pumps s i") (auto simp: vinv_def)

lemma vinv_on_stream:
  assumes v: "vinv (view i s)" and st: "sys_streams s i = Some st"
    and ok: "\<And>gone seen h. stream_ok gone seen st \<Longrightarrow> stream_ok gone seen (fst (f h st))"
      "\<And>ctl seen h. connected ctl seen st \<Longrightarrow> connected ctl seen (fst (f h st))"
      "\<And>h. rs_startCalled (fst (f h st)) = rs_startCalled st"
  shows "vinv (view i (on_stream i f st s))"
proof (rule vinv_receiver[OF v stream_has_pump[OF v st]])
  obtain st' b where f: "f (hwm_of (sys_window s)) st = (st', b)" by force
  have r: "receiver_ok (view i s)" using v by (simp add: vinv_def)
  show "same_sender s (on_stream i f st s)" by (simp add: same_sender_def on_stream_def f)
  show "Cancel \<in> set (for_id i (sys_toSender (on_stream i f st s))) \<Longrightarrow> i \<in> set (sys_cut (on_stream i f st s))"
    using v by (auto simp: vinv_def on_stream_def f split: if_splits)
  show "i \<in> set (sys_cut s) \<Longrightarrow> i \<in> set (sys_cut (on_stream i f st s))" by (simp add: on_stream_def f)
  show "receiver_ok (view i (on_stream i f st s))"
    using r ok(1)[of _ _ "hwm_of (sys_window s)"] ok(2)[of _ _ "hwm_of (sys_window s)"] ok(3)[of "hwm_of (sys_window s)"] st
    by (auto simp: receiver_ok_def on_stream_def f split: if_splits)
qed

text \<open>Messages applied to a connected stream.\<close>

definition attached :: "nat \<Rightarrow> ('c, 'e) event list \<Rightarrow> ('c, 'e) receiver \<times> ('c, 'e) streams \<Rightarrow> bool" where
  "attached i seen x =
     (\<exists>st. snd x i = Some st \<and> stream_ok False seen st \<and> connected (i \<in> set (rc_controllers (fst x))) seen st)"

lemma apply_event_attached:
  assumes "attached i seen x" and "\<not> ended seen"
  shows "attached i (seen @ [ev]) (fst (apply_event h i ev x))
     \<and> rc_cancelled (fst (fst (apply_event h i ev x))) = rc_cancelled (fst x)
     \<and> rc_pending (fst (fst (apply_event h i ev x))) = rc_pending (fst x)"
proof -
  obtain rc streams where x: "x = (rc, streams)" by force
  from assms x obtain st where st: "streams i = Some st" "stream_ok False seen st" "connected True seen st" "i \<in> set (rc_controllers rc)"
    by (auto simp: attached_def connected_def)
  have noend: "EEnd \<notin> set seen" using assms(2) unfolding ended_def by (metis is_chunk_simps(2))
  then have free: "rs_state st = Readable" "\<not> rs_closeRequested st" "rs_startCalled st" "rs_delivered st @ rs_queue st = chunks seen"
    using st(2,3) assms(2) by (cases "rs_state st"; auto simp: stream_ok_def connected_def)+
  show ?thesis
  proof (cases ev)
    case (EChunk c)
    let ?st = "if 0 < rs_requests st then st\<lparr>rs_requests := rs_requests st - 1, rs_delivered := rs_delivered st @ [c]\<rparr>
      else st\<lparr>rs_queue := rs_queue st @ [c]\<rparr>"
    have e: "stream_enqueue h c st = Some (call_pull h ?st)" using free by (simp add: stream_enqueue_def can_enqueue_def)
    have "stream_ok False (seen @ [ev]) (fst (call_pull h ?st)) \<and> connected True (seen @ [ev]) (fst (call_pull h ?st))"
      using st(2,3) free EChunk assms(2) by (auto simp: stream_ok_def connected_def)
    then show ?thesis using st(1,4) e EChunk by (simp add: x apply_event_def attached_def case_prod_unfold)
  next
    case EEnd
    then show ?thesis
      using st free by (auto simp: x apply_event_def attached_def stream_close_def can_enqueue_def stream_ok_def connected_def)
  next
    case (EError e)
    have "prefix (rs_delivered st) (chunks seen)" using free(4) by (metis prefixI)
    then show ?thesis
      using EError st free by (auto simp: x apply_event_def attached_def stream_error_def stream_ok_def connected_def)
  qed
qed

lemma apply_events_attached:
  "attached i seen x \<Longrightarrow> proper (seen @ evs) \<Longrightarrow> attached i (seen @ evs) (apply_events h i evs x)
     \<and> rc_cancelled (fst (apply_events h i evs x)) = rc_cancelled (fst x)
     \<and> rc_pending (fst (apply_events h i evs x)) = rc_pending (fst x)"
proof (induction evs arbitrary: seen x)
  case (Cons ev evs)
  have "\<not> ended seen" by (rule proper_next[OF Cons.prems(2)])
  note 1 = apply_event_attached[OF Cons.prems(1) this, of ev h]
  have "attached i ((seen @ [ev]) @ evs) (apply_events h i evs (fst (apply_event h i ev x)))
     \<and> rc_cancelled (fst (apply_events h i evs (fst (apply_event h i ev x)))) = rc_cancelled (fst (fst (apply_event h i ev x)))
     \<and> rc_pending (fst (apply_events h i evs (fst (apply_event h i ev x)))) = rc_pending (fst (fst (apply_event h i ev x)))"
    by (rule Cons.IH) (use 1 Cons.prems(2) in auto)
  with 1 show ?case by simp
qed simp

lemma pump_shape: "pump_ok v p \<Longrightarrow> proper (v_seen v @ v_events v)"
  by (auto simp: pump_ok_def)

lemma stream_ok_grow: "stream_ok True seen st \<Longrightarrow> stream_ok True (seen @ evs) st"
  by (auto simp: stream_ok_def)

lemma stream_ok_gone: "stream_ok gone seen st \<Longrightarrow> stream_ok True seen st"
  by (auto simp: stream_ok_def)

lemma vinv_to_receiver:
  assumes v: "vinv (view i s)" and m: "sys_toReceiver s = (i, ev) # ms" and alive: "sys_alive s"
  shows "vinv (view i (to_receiver i ev s))"
proof -
  obtain p where p: "sys_pumps s i = Some p" "pump_ok (view i s) p" "wake_ok (view i s) p"
    using v m by (cases "sys_pumps s i") (auto simp: vinv_def)
  let ?h = "hwm_of (sys_window s)" and ?s' = "to_receiver i ev s"
  obtain rc streams b where o: "onEvent ?h i ev (sys_receiver s, sys_streams s) = ((rc, streams), b)" by (metis surj_pair)
  have s': "?s' = s\<lparr>sys_toReceiver := ms, sys_receiver := rc, sys_streams := streams,
      sys_seen := (sys_seen s)(i := sys_seen s i @ [ev]),
      sys_toSender := sys_toSender s @ (if b \<and> sys_window s \<noteq> None then [(i, Credit)] else [])\<rparr>"
    using o m by (simp add: to_receiver_def)
  have "proper (sys_seen s i @ ev # for_id i ms)" using p(2) m by (auto simp: pump_ok_def)
  then have fresh: "\<not> ended (sys_seen s i)" by (rule proper_next)
  have r: "receiver_ok (view i s)" using v by (simp add: vinv_def)
  have "receiver_ok (view i ?s')"
  proof (cases "i \<in> set (sys_cut s)")
    case True
    then have gone: "i \<in> set (rc_cancelled (sys_receiver s))" "pending_of i (sys_receiver s) = []"
      using r alive fresh by (auto simp: receiver_ok_def)
    then have "rc = (if is_chunk ev then sys_receiver s else (sys_receiver s)\<lparr>rc_cancelled := removeAll i (rc_cancelled (sys_receiver s))\<rparr>)"
      "streams = sys_streams s" using o by (auto simp: onEvent_def)
    then show ?thesis using r gone True alive stream_ok_grow[of "sys_seen s i" _ "[ev]"]
      by (auto simp: receiver_ok_def s' pending_of_def)
  next
    case keep: False
    then have nc: "i \<notin> set (rc_cancelled (sys_receiver s))" using r alive by (auto simp: receiver_ok_def)
    show ?thesis
    proof (cases "i \<in> set (rc_controllers (sys_receiver s))")
      case True
      then have a: "attached i (sys_seen s i) (sys_receiver s, sys_streams s)" and pend: "pending_of i (sys_receiver s) = []"
        using r alive keep by (auto simp: receiver_ok_def attached_def split: option.splits if_splits)
      have "apply_event ?h i ev (sys_receiver s, sys_streams s) = ((rc, streams), b)"
        using o nc True by (simp add: onEvent_def)
      with apply_event_attached[OF a fresh, of ev ?h] nc pend keep alive show ?thesis
        by (auto simp: receiver_ok_def s' attached_def pending_of_def connected_def)
    next
      case False
      then have e: "rc = (sys_receiver s)\<lparr>rc_pending := AList.update i (pending_of i (sys_receiver s) @ [ev]) (rc_pending (sys_receiver s))\<rparr>"
        "streams = sys_streams s" using o nc by (auto simp: onEvent_def)
      have pend: "pending_of i (sys_receiver s) = sys_seen s i" "\<And>st. sys_streams s i = Some st \<Longrightarrow> \<not> rs_startCalled st"
        using r alive keep False fresh by (auto simp: receiver_ok_def connected_def split: option.splits if_splits)
      have "stream_ok False (sys_seen s i @ [ev]) st" if "sys_streams s i = Some st" for st
      proof -
        have "stream_ok False (sys_seen s i) st" using r keep that by (simp add: receiver_ok_def)
        with pend(2)[OF that] show ?thesis by (simp add: stream_ok_def)
      qed
      then show ?thesis using pend keep alive nc False
        by (cases "sys_streams s i") (simp_all add: receiver_ok_def s' e)
    qed
  qed
  moreover have "pump_ok (view i ?s') p" using p(2) m by (auto simp: pump_ok_def s')
  moreover have "wake_ok (view i ?s') p" using p(3) by (simp add: wake_ok_def s')
  moreover have "Cancel \<in> set (for_id i (sys_toSender ?s')) \<longrightarrow> i \<in> set (sys_cut ?s')"
    using v by (auto simp: vinv_def s' split: if_splits)
  ultimately show ?thesis using p(1) by (simp add: vinv_def s')
qed

lemma vinv_open:
  assumes v: "vinv (view i s)" and s: "sys_alive s" "sys_pumps s i \<noteq> None" "sys_streams s i = None"
  shows "vinv (view i (s\<lparr>sys_receiver := fst (open_stream i (sys_receiver s, sys_streams s)),
    sys_streams := snd (open_stream i (sys_receiver s, sys_streams s))\<rparr>))"
  using v s by (intro vinv_receiver[OF v])
    (auto simp: vinv_def same_sender_def open_stream_def receiver_ok_def stream_ok_def new_stream_def pending_of_def)

lemma vinv_start:
  assumes v: "vinv (view i s)" and st: "sys_streams s i = Some st" "sys_alive s" "\<not> rs_startCalled st"
  shows "vinv (view i (s\<lparr>sys_receiver := fst (start_source h i (sys_receiver s, sys_streams s)),
    sys_streams := snd (start_source h i (sys_receiver s, sys_streams s))\<rparr>))"
proof (rule vinv_receiver[OF v stream_has_pump[OF v st(1)]])
  let ?rc = "(sys_receiver s)\<lparr>rc_controllers := List.insert i (rc_controllers (sys_receiver s)),
    rc_pending := AList.delete i (rc_pending (sys_receiver s))\<rparr>"
  let ?streams = "(sys_streams s)(i \<mapsto> st\<lparr>rs_startCalled := True\<rparr>)"
  let ?x = "start_source h i (sys_receiver s, sys_streams s)"
  have x: "?x = apply_events h i (pending_of i (sys_receiver s)) (?rc, ?streams)" using st(1) by (simp add: start_source_def)
  have r: "receiver_ok (view i s)" and ok: "stream_ok (i \<in> set (sys_cut s)) (sys_seen s i) st"
    using v st(1) by (auto simp: vinv_def receiver_ok_def)
  obtain p where "pump_ok (view i s) p"
    using stream_has_pump[OF v st(1)] v by (auto simp: vinv_def)
  from pump_shape[OF this] have "proper (sys_seen s i @ for_id i (sys_toReceiver s))" by simp
  then have shape: "proper (sys_seen s i)" by (rule proper_append)
  show "receiver_ok (view i (s\<lparr>sys_receiver := fst ?x, sys_streams := snd ?x\<rparr>))"
  proof (cases "i \<in> set (sys_cut s)")
    case True
    then have "pending_of i (sys_receiver s) = []" using r st(2) by (simp add: receiver_ok_def)
    with True r ok st show ?thesis by (auto simp: x receiver_ok_def stream_ok_def pending_of_def delete_conv')
  next
    case False
    then have pend: "pending_of i (sys_receiver s) = sys_seen s i" "i \<notin> set (rc_cancelled (sys_receiver s))"
      using r st by (auto simp: receiver_ok_def)
    have "attached i [] (?rc, ?streams)" using ok st False by (simp add: attached_def stream_ok_def connected_def)
    from apply_events_attached[OF this, of "sys_seen s i" h] shape pend False st(2) show ?thesis
      by (auto simp: x receiver_ok_def attached_def connected_def pending_of_def delete_conv')
  qed
qed (use v in \<open>auto simp: same_sender_def vinv_def\<close>)

lemma receiver_cancel_fields:
  "pending_of i (receiver_cancel i rc) = []" "i \<in> set (rc_cancelled (receiver_cancel i rc))"
  "i \<notin> set (rc_controllers (receiver_cancel i rc))"
  by (simp_all add: receiver_cancel_def pending_of_def delete_conv')

lemma vinv_cancel:
  assumes v: "vinv (view i s)" and s: "sys_pumps s i \<noteq> None"
    and "streams = sys_streams s \<or> (\<exists>st. sys_streams s i = Some st \<and> rs_state st = Readable \<and> streams = (sys_streams s)(i \<mapsto> fst (stream_cancel st)))"
  shows "vinv (view i (cancel_received i (s\<lparr>sys_streams := streams\<rparr>)))"
proof (rule vinv_receiver[OF v s])
  have "receiver_ok (view i s)" using v by (simp add: vinv_def)
  then have "\<forall>st. streams i = Some st \<longrightarrow> stream_ok True (sys_seen s i) st"
    using assms(3) by (auto simp: receiver_ok_def stream_cancel_def stream_ok_def prefix_def)
  then show "receiver_ok (view i (cancel_received i (s\<lparr>sys_streams := streams\<rparr>)))"
    by (simp add: receiver_ok_def cancel_received_def receiver_cancel_fields)
qed (simp_all add: same_sender_def cancel_received_def)

lemma vinv_teardown:
  assumes "vinv (view i s)" and "sys_alive s"
  shows "vinv (view i (teardown e s))"
proof -
  obtain r woken cs where d: "dispose_streams (sys_registry s) = (r, woken, cs)" by (metis surj_pair)
  have woken: "i \<in> set woken" if "map_of (rg_streams (sys_registry s)) i = Some out" "os_waiter out" for out
    using d map_of_SomeD[OF that(1)] that(2) by (force simp: dispose_streams_def)
  have r: "rg_streams r = []" using d by (auto simp: dispose_streams_def)
  have err: "stream_ok gone seen st \<Longrightarrow> stream_ok gone seen (stream_error e st)" if "gone \<or> rs_startCalled st" for gone seen st
    using that by (auto simp: stream_ok_def stream_error_def prefix_def)
  obtain rc streams where x: "dispose_receiver e (sys_receiver s, sys_streams s) = (rc, streams)" by force
  have ok: "receiver_ok (view i s)" using assms by (simp add: vinv_def)
  have "stream_ok (i \<in> set (sys_cut s)) (sys_seen s i) st'" if "streams i = Some st'" for st'
  proof -
    from that x obtain st where st: "sys_streams s i = Some st"
      "st' = (if i \<in> set (rc_controllers (sys_receiver s)) then stream_error e st else st)"
      by (auto simp: dispose_receiver_def split: if_splits)
    then have "stream_ok (i \<in> set (sys_cut s)) (sys_seen s i) st" using ok by (simp add: receiver_ok_def)
    moreover have "i \<in> set (sys_cut s) \<or> rs_startCalled st" if "i \<in> set (rc_controllers (sys_receiver s))"
      using that ok assms(2) st(1) by (auto simp: receiver_ok_def split: if_splits)
    ultimately show ?thesis using err st(2) by auto
  qed
  then have rcv: "receiver_ok (view i (teardown e s))"
    by (auto simp: receiver_ok_def teardown_def d x)
  show ?thesis
  proof (cases "sys_pumps s i")
    case None
    then show ?thesis using assms rcv r
      by (auto simp: vinv_def teardown_def d dispose_receiver_def pending_of_def)
  next
    case (Some p)
    then have p: "pump_ok (view i s) p" "wake_ok (view i s) p" using assms by (simp_all add: vinv_def)
    let ?p = "(wake (i \<in> set woken) p)\<lparr>pm_cancelled := pm_cancelled p \<or> i \<in> set cs\<rparr>"
    have "pump_ok (view i (teardown e s)) ?p"
      using p(1) by (auto simp: pump_ok_def teardown_def d dispose_receiver_def)
    moreover have "wake_ok (view i (teardown e s)) ?p"
      using p(2) woken by (auto simp: wake_ok_def teardown_def d dispose_receiver_def r)
    ultimately show ?thesis using assms rcv Some by (simp add: vinv_def teardown_def d dispose_receiver_def)
  qed
qed

section \<open>Every reachable state has it\<close>

lemma step_pumps:
  assumes "step l s = Some s'" and "\<And>cs f k. l \<noteq> LPump cs f k"
  shows "rg_nextStreamId (sys_registry s') = rg_nextStreamId (sys_registry s)"
    and "\<And>j. sys_pumps s' j = None \<longleftrightarrow> sys_pumps s j = None"
proof -
  have "rg_nextStreamId (sys_registry s') = rg_nextStreamId (sys_registry s)
    \<and> (\<forall>j. sys_pumps s' j = None \<longleftrightarrow> sys_pumps s j = None)"
  proof (cases l)
    case (LRead i)
    with assms show ?thesis
      by (auto simp: at_pump_def pump_read_def Let_def pump_defs split: option.splits if_splits acquisition.splits
          dest!: acquire_begin_cases)
  next
    case (LResume i)
    with assms show ?thesis
      by (auto simp: at_pump_def pump_resume_def acquire_resume_def Let_def set_pump_def split: option.splits if_splits phase.splits)
  next
    case (LAnswer i)
    with assms show ?thesis
      by (auto simp: at_pump_def pump_answer_def pump_defs Let_def split: option.splits if_splits phase.splits)
  next
    case LToSender
    with assms show ?thesis
      by (auto simp: to_sender_def grantCredit_def cancel_stream_def Let_def
          split: if_splits list.splits control.splits option.splits)
  next
    case (LTeardown e)
    with assms show ?thesis
      by (auto simp: teardown_def dispose_streams_def dispose_receiver_def split: if_splits)
  qed (use assms in \<open>auto simp: to_receiver_def at_stream_def on_stream_def cancel_received_def Let_def
        split: option.splits if_splits prod.splits list.splits\<close>)
  then show "rg_nextStreamId (sys_registry s') = rg_nextStreamId (sys_registry s)"
    "\<And>j. sys_pumps s' j = None \<longleftrightarrow> sys_pumps s j = None" by blast+
qed

lemma channel_inv_step:
  assumes "channel_inv s" and "step l s = Some s'"
  shows "channel_inv s'"
proof -
  have v: "vinv (view i s)" for i using assms(1) by (simp add: channel_inv_def)
  have own: "vinv (view (target l s) s') \<or> (\<exists>e. l = LTeardown e)"
  proof (cases l)
    case (LPump cs f k)
    then show ?thesis using assms vinv_start_pump by auto
  next
    case (LRead i)
    then show ?thesis using assms(2) vinv_read[OF v] by (auto simp: at_pump_def split: option.splits if_splits)
  next
    case (LResume i)
    then show ?thesis using assms(2) vinv_resume[OF v] by (auto simp: at_pump_def split: option.splits phase.splits)
  next
    case (LAnswer i)
    then show ?thesis using assms(2) vinv_answer[OF v] by (auto simp: at_pump_def split: option.splits phase.splits)
  next
    case LToReceiver
    then show ?thesis using assms(2) vinv_to_receiver[OF v] by (auto split: if_splits list.splits)
  next
    case LToSender
    then show ?thesis using assms(2) vinv_to_sender[OF v] by (auto split: if_splits list.splits)
  next
    case (LOpen i)
    then show ?thesis using assms(2) vinv_open[OF v, of i] by (auto simp: Let_def split: if_splits)
  next
    case (LStart i)
    then show ?thesis using assms(2) vinv_start[OF v] by (auto simp: at_stream_def Let_def split: option.splits if_splits)
  next
    case (LStarted i)
    with assms(2) obtain st where st: "sys_streams s i = Some st" "rs_startCalled st" "s' = on_stream i stream_started st s"
      by (auto simp: at_stream_def split: option.splits if_splits)
    have "vinv (view i (on_stream i stream_started st s))"
      by (rule vinv_on_stream[OF v st(1)]) (use stream_started_ok st(2) in auto)
    then show ?thesis using LStarted st(3) by simp
  next
    case (LPulled i)
    with assms(2) obtain st where st: "sys_streams s i = Some st" "s' = on_stream i stream_pulled st s"
      by (auto simp: at_stream_def split: option.splits if_splits)
    have "vinv (view i (on_stream i stream_pulled st s))"
      by (rule vinv_on_stream[OF v st(1)]) (use stream_pulled_ok in auto)
    then show ?thesis using LPulled st(2) by simp
  next
    case (LConsumerRead i)
    with assms(2) obtain st where st: "sys_streams s i = Some st" "s' = on_stream i stream_read st s"
      by (auto simp: at_stream_def split: option.splits if_splits)
    have "vinv (view i (on_stream i stream_read st s))"
      by (rule vinv_on_stream[OF v st(1)]) (use stream_read_ok in auto)
    then show ?thesis using LConsumerRead st(2) by simp
  next
    case (LConsumerCancel i)
    with assms(2) obtain st where st: "sys_streams s i = Some st" by (auto simp: at_stream_def split: option.splits)
    have "(sys_streams s)(i \<mapsto> st) = sys_streams s" using st by auto
    then show ?thesis
      using LConsumerCancel assms(2) st vinv_cancel[OF v stream_has_pump[OF v st], of "(sys_streams s)(i \<mapsto> fst (stream_cancel st))"] v
      by (auto simp: at_stream_def stream_cancel_def split: if_splits)
  next
    case (LReceiverCancel i)
    then show ?thesis using assms(2) vinv_cancel[OF v, of i "sys_streams s"] by (auto split: if_splits)
  qed simp
  have "vinv (view j s')" for j
  proof (cases "\<exists>e. l = LTeardown e")
    case True
    then show ?thesis using assms(2) vinv_teardown[OF v] by (auto split: if_splits)
  next
    case False
    then show ?thesis using own view_other[OF assms(2), of j] v by (cases "j = target l s") auto
  qed
  moreover have "\<forall>i \<ge> rg_nextStreamId (sys_registry s'). sys_pumps s' i = None"
  proof (cases "\<exists>cs f k. l = LPump cs f k")
    case True
    then obtain cs f k where l: "l = LPump cs f k" by blast
    with assms(2) have "s' = start_pump cs f k s" by simp
    then have "rg_nextStreamId (sys_registry s') = rg_nextStreamId (sys_registry s) + 1"
      "\<And>j. j \<noteq> rg_nextStreamId (sys_registry s) \<Longrightarrow> sys_pumps s' j = sys_pumps s j"
      by (auto simp: start_pump_def allocateId_def register_def pump_defs Let_def split: option.split)
    with assms(1) show ?thesis by (auto simp: channel_inv_def)
  next
    case False
    with step_pumps[OF assms(2)] assms(1) show ?thesis by (auto simp: channel_inv_def)
  qed
  ultimately show ?thesis by (simp add: channel_inv_def)
qed

lemma channel_inv_reachable: "reachable w s \<Longrightarrow> channel_inv s"
proof (induction rule: reachable.induct)
  case init
  show ?case
    by (simp add: channel_inv_def new_channel_def vinv_def receiver_ok_def view_def for_id_def pending_of_def)
qed (rule channel_inv_step)

text \<open>
  C3. Streams arrive whole. In every state a channel can reach, what the consumer of a stream has
  been given and what waits in its queue is a prefix of what the body yields, in order, without
  loss or repetition, however the steps of both sides and of the other streams interleave; and a
  stream that closes without having been cancelled has delivered all of a body that ended without
  an error: a truncated body never looks complete.
\<close>
theorem stream_delivers_in_order:
  assumes "reachable w s" and "sys_pumps s i = Some p" and "sys_streams s i = Some st"
  shows "prefix (rs_delivered st @ rs_queue st) (pm_source p)
    \<and> (rs_state st = Closed \<and> i \<notin> set (sys_cut s) \<longrightarrow> rs_delivered st = pm_source p \<and> pm_fails p = None)"
proof -
  have "vinv (view i s)" using channel_inv_reachable[OF assms(1)] by (simp add: channel_inv_def)
  with assms(2,3) have p: "pump_ok (view i s) p" and st: "stream_ok (i \<in> set (sys_cut s)) (sys_seen s i) st"
    by (auto simp: vinv_def receiver_ok_def)
  have posted: "chunks (pm_posted p) = chunks (sys_seen s i) @ chunks (for_id i (sys_toReceiver s))"
    "prefix (chunks (pm_posted p)) (pm_source p)"
    using p by (auto simp: pump_ok_def)
  have 1: "prefix (rs_delivered st @ rs_queue st) (pm_source p)"
    using st posted unfolding stream_ok_def by (metis append_prefixD prefix_order.order_trans)
  have "rs_delivered st = pm_source p \<and> pm_fails p = None" if c: "rs_state st = Closed" "i \<notin> set (sys_cut s)"
  proof -
    have s: "EEnd \<in> set (sys_seen s i)" "rs_delivered st = chunks (sys_seen s i)" using st c by (auto simp: stream_ok_def)
    then have e: "EEnd \<in> set (pm_posted p)" using p by (simp add: pump_ok_def)
    with p c(2) have f: "chunks (pm_posted p) = pm_source p" "pm_fails p = None" by (auto simp: pump_ok_def)
    have "proper (pm_posted p)" "pm_posted p = sys_seen s i @ for_id i (sys_toReceiver s)" using p by (auto simp: pump_ok_def)
    moreover have "ended (sys_seen s i)" using s(1) unfolding ended_def by (metis is_chunk_simps(2))
    ultimately have "for_id i (sys_toReceiver s) = []"
      by (cases "for_id i (sys_toReceiver s)") (auto dest: proper_next)
    with posted(1) f s(2) show ?thesis by simp
  qed
  with 1 show ?thesis by blast
qed

definition demo_stream :: "(nat, string) label list" where
  "demo_stream = [LPump [10, 20, 30] None None, LOpen 1, LRead 1, LAnswer 1, LToReceiver, LStart 1, LStarted 1, LRead 1,
     LAnswer 1, LToReceiver, LConsumerRead 1, LPulled 1, LToSender]"

lemma stream_delivers_in_order_witness:
  "\<exists>(s :: (nat, string) sys) p st. reachable (Some 2) s \<and> sys_pumps s 1 = Some p \<and> sys_streams s 1 = Some st
     \<and> rs_delivered st = [10] \<and> pm_source p = [10, 20, 30::nat] \<and> prefix (rs_delivered st @ rs_queue st) (pm_source p)"
proof -
  have "case run demo_stream (new_channel (Some 2)) of None \<Rightarrow> False | Some s \<Rightarrow>
      (case (sys_pumps s 1, sys_streams s 1) of (Some p, Some st) \<Rightarrow> rs_delivered st = [10] \<and> pm_source p = [10, 20, 30]
       | _ \<Rightarrow> False)" by code_simp
  then obtain s p st where s: "run demo_stream (new_channel (Some 2)) = Some s" "sys_pumps s 1 = Some p"
    "sys_streams s 1 = Some st" "rs_delivered st = [10]" "pm_source p = [10, 20, 30]"
    by (auto split: option.splits)
  have "reachable (Some 2) s" using reachable_run[OF reachable.init s(1)] .
  with stream_delivers_in_order[OF this s(2,3)] s(2-5) show ?thesis by blast
qed

end
