(* ===== verification/StreamFlow.thy ===== *)
theory StreamFlow
  imports StreamLaws
begin

text \<open>
  The flow control of the streams between threads: a parked pump is always waiting for its
  consumer; but the credits are not a bound on the chunks in flight.
\<close>

section \<open>A parked pump waits for its consumer\<close>

text \<open>
  While the consumer's stream has room, a chunk or a permission for one is on its way: a credit
  that is left, a credit or a chunk in the channel, a chunk about to be posted, or another call of
  \<open>pull\<close> that is due.
\<close>

definition flow_ok :: "nat \<Rightarrow> ('c, 'e) view \<Rightarrow> bool" where
  "flow_ok w v =
     (\<forall>p st. v_alive v \<and> \<not> v_cut v \<and> v_pump v = Some p \<and> pm_phase p \<noteq> PDone \<and> v_stream v = Some st
        \<and> rs_started st \<and> can_enqueue st \<and> has_room w st \<longrightarrow>
          (\<exists>out. v_out v = Some out \<and> 0 < os_credits out) \<or> Credit \<in> set (v_controls v) \<or> v_events v \<noteq> []
          \<or> (\<exists>c. pm_phase p = PAnswered c True) \<or> rs_pulling st \<and> rs_pullAgain st)"

lemma call_pull_due:
  assumes "can_enqueue (fst (call_pull w st))" and "rs_started st" and "has_room w (fst (call_pull w st))"
  shows "snd (call_pull w st) \<or> rs_pulling (fst (call_pull w st)) \<and> rs_pullAgain (fst (call_pull w st))"
  using assms by (auto simp: call_pull_def split: if_splits)

lemma sys_window_step: "step l s = Some s' \<Longrightarrow> sys_window s' = sys_window s"
  by (cases l) (auto simp: start_pump_def at_pump_def at_stream_def pump_read_def pump_resume_def pump_answer_def pump_defs
      to_receiver_def to_sender_def on_stream_def cancel_received_def teardown_def Let_def
      split: option.splits if_splits prod.splits phase.splits acquisition.splits list.splits control.splits)

lemma flow_on_stream:
  assumes "\<And>h. can_enqueue (fst (f h st)) \<Longrightarrow> rs_started (fst (f h st)) \<Longrightarrow> has_room h (fst (f h st)) \<Longrightarrow>
      snd (f h st) \<or> rs_pulling (fst (f h st)) \<and> rs_pullAgain (fst (f h st))"
    and "sys_window s = Some w"
  shows "flow_ok w (view i (on_stream i f st s))"
  using assms(1)[of w] assms(2) by (auto simp: flow_ok_def on_stream_def hwm_of_def case_prod_unfold Let_def)

lemma stream_read_due:
  assumes "can_enqueue (fst (stream_read h st))" and "rs_started (fst (stream_read h st))" and "has_room h (fst (stream_read h st))"
  shows "snd (stream_read h st) \<or> rs_pulling (fst (stream_read h st)) \<and> rs_pullAgain (fst (stream_read h st))"
proof -
  have "rs_state st = Readable" using assms(1) by (auto simp: stream_read_def can_enqueue_def split: if_splits)
  then have "\<exists>y. stream_read h st = call_pull h y \<or> stream_read h st = (y, False) \<and> rs_state y = Closed"
    by (auto simp: stream_read_def Let_def split: list.split)
  then obtain y where "stream_read h st = call_pull h y" using assms(1) by (auto simp: can_enqueue_def)
  with call_pull_due[of h y] assms show ?thesis by simp
qed

lemma stream_started_due:
  assumes "can_enqueue (fst (stream_started h st))" and "has_room h (fst (stream_started h st))"
  shows "snd (stream_started h st) \<or> rs_pulling (fst (stream_started h st)) \<and> rs_pullAgain (fst (stream_started h st))"
  using assms call_pull_due[of h "st\<lparr>rs_started := True\<rparr>"] by (simp add: stream_started_def)

lemma apply_event_started:
  "apply_event h i ev (rc, streams) = ((rc', streams'), b) \<Longrightarrow> streams i = Some st \<Longrightarrow>
   \<exists>st'. streams' i = Some st' \<and> rs_started st' = rs_started st"
  by (auto simp: apply_event_def Let_def stream_enqueue_def stream_close_def stream_error_def
      split: event.splits option.splits if_splits dest!: arg_cong[of "call_pull _ _" "(_, _)" fst])

lemma apply_events_started:
  "streams i = Some st \<Longrightarrow> \<exists>st'. snd (apply_events h i evs (rc, streams)) i = Some st' \<and> rs_started st' = rs_started st"
proof (induction evs arbitrary: rc streams st)
  case (Cons ev evs)
  obtain rc1 streams1 b where 1: "apply_event h i ev (rc, streams) = ((rc1, streams1), b)" by (metis surj_pair)
  from apply_event_started[OF 1 Cons.prems] obtain st1 where "streams1 i = Some st1" "rs_started st1 = rs_started st" by blast
  with Cons.IH[where rc = rc1 and streams = streams1 and st = st1] 1 show ?case by simp
qed simp

lemma flow_to_receiver:
  assumes v: "vinv (view i s)" and m: "sys_toReceiver s = (i, ev) # ms" and w: "sys_alive s" "sys_window s = Some w"
    and f: "flow_ok w (view i s)"
  shows "flow_ok w (view i (to_receiver i ev s))"
  unfolding flow_ok_def
proof (intro allI impI, elim conjE)
  fix p st
  assume a: "v_alive (view i (to_receiver i ev s))" "\<not> v_cut (view i (to_receiver i ev s))"
    "v_pump (view i (to_receiver i ev s)) = Some p" "pm_phase p \<noteq> PDone" "v_stream (view i (to_receiver i ev s)) = Some st"
    "rs_started st" "can_enqueue st" "has_room w st"
  obtain rc streams b where o: "onEvent w i ev (sys_receiver s, sys_streams s) = ((rc, streams), b)" by (metis surj_pair)
  have s': "sys_pumps s i = Some p" "i \<notin> set (sys_cut s)" "streams i = Some st"
    using a(2,3,5) o w by (auto simp: to_receiver_def hwm_of_def)
  then have p: "pump_ok (view i s) p" and r: "receiver_ok (view i s)" using v by (simp_all add: vinv_def)
  have "\<not> ended (pm_posted p)" "pm_posted p = sys_seen s i @ ev # for_id i ms"
    using p a(4) m by (auto simp: pump_ok_def)
  then have n: "\<not> ended (sys_seen s i)" "is_chunk ev" by simp_all
  then obtain c where ev: "ev = EChunk c" by (cases ev) auto
  have nc: "i \<notin> set (rc_cancelled (sys_receiver s))" using r w s'(2) by (simp add: receiver_ok_def)
  have "b \<or> rs_pulling st \<and> rs_pullAgain st"
  proof (cases "i \<in> set (rc_controllers (sys_receiver s))")
    case True
    then have ap: "apply_event w i ev (sys_receiver s, sys_streams s) = ((rc, streams), b)" using o nc by (simp add: onEvent_def)
    from True r w(1) s'(2) obtain st0 where st0: "sys_streams s i = Some st0" by (auto simp: receiver_ok_def split: option.splits)
    with ap s'(3) ev show ?thesis
    proof (cases "stream_enqueue w c st0")
      case None
      then have "st = st0" using ap st0 ev s'(3) by (simp add: apply_event_def)
      with None a(7) show ?thesis by (simp add: stream_enqueue_def split: if_splits)
    next
      case (Some x)
      then obtain y where y: "call_pull w y = (st, b)" using ap st0 ev s'(3)
        by (auto simp: apply_event_def stream_enqueue_def split: if_splits prod.splits)
      from y have "rs_started y" using a(6) call_pull_fields(5)[of w y] by simp
      with call_pull_due[of w y] y a(7,8) show ?thesis by simp
    qed
  next
    case False
    then have "streams = sys_streams s" using o nc by (auto simp: onEvent_def)
    then have "sys_streams s i = Some st" using s'(3) by simp
    moreover have "rs_startCalled st"
    proof -
      have "stream_ok (i \<in> set (sys_cut s)) (sys_seen s i) st" using r calculation by (simp add: receiver_ok_def)
      then show ?thesis using a(6) by (auto simp: stream_ok_def)
    qed
    ultimately have False using r w(1) s'(2) False n(1) by (auto simp: receiver_ok_def connected_def)
    then show ?thesis ..
  qed
  then show "(\<exists>out. v_out (view i (to_receiver i ev s)) = Some out \<and> 0 < os_credits out)
      \<or> Credit \<in> set (v_controls (view i (to_receiver i ev s))) \<or> v_events (view i (to_receiver i ev s)) \<noteq> []
      \<or> (\<exists>c. pm_phase p = PAnswered c True) \<or> rs_pulling st \<and> rs_pullAgain st"
    using o w by (auto simp: to_receiver_def hwm_of_def)
qed

lemma flow_idle:
  assumes "flow_ok w (view i s)" and "sys_pumps s' i = sys_pumps s i" and "sys_alive s' = sys_alive s" and "sys_cut s' = sys_cut s"
    and "sys_registry s' = sys_registry s" and "sys_toReceiver s' = sys_toReceiver s" and "sys_toSender s' = sys_toSender s"
    and "\<And>st. sys_streams s' i = Some st \<Longrightarrow> rs_started st \<Longrightarrow> sys_streams s i = Some st"
  shows "flow_ok w (view i s')"
  using assms by (auto simp: flow_ok_def)

lemma flow_pump:
  assumes "flow_ok w (view i s)" and "same_receiver s s'" and "sys_pumps s i = Some p" and "pm_phase p \<noteq> PDone"
    and "\<And>p'. sys_pumps s' i = Some p' \<Longrightarrow> sys_alive s \<Longrightarrow> i \<notin> set (sys_cut s) \<Longrightarrow> pm_phase p' = PDone
      \<or> (\<exists>c. pm_phase p' = PAnswered c True) \<or> for_id i (sys_toReceiver s') \<noteq> []
      \<or> (\<exists>out. map_of (rg_streams (sys_registry s')) i = Some out \<and> 0 < os_credits out)
      \<or> (\<forall>out. map_of (rg_streams (sys_registry s)) i = Some out \<longrightarrow> os_credits out = 0)
          \<and> (\<forall>c. pm_phase p \<noteq> PAnswered c True)
          \<and> set (for_id i (sys_toSender s)) \<subseteq> set (for_id i (sys_toSender s'))
          \<and> (for_id i (sys_toReceiver s) = [] \<or> for_id i (sys_toReceiver s') \<noteq> [])"
  shows "flow_ok w (view i s')"
  unfolding flow_ok_def
proof (intro allI impI, elim conjE)
  fix p' st
  assume a: "v_alive (view i s')" "\<not> v_cut (view i s')" "v_pump (view i s') = Some p'" "pm_phase p' \<noteq> PDone"
    "v_stream (view i s') = Some st" "rs_started st" "can_enqueue st" "has_room w st"
  have old: "(\<exists>out. map_of (rg_streams (sys_registry s)) i = Some out \<and> 0 < os_credits out) \<or> Credit \<in> set (for_id i (sys_toSender s))
      \<or> for_id i (sys_toReceiver s) \<noteq> [] \<or> (\<exists>c. pm_phase p = PAnswered c True) \<or> rs_pulling st \<and> rs_pullAgain st"
    using assms(1)[unfolded flow_ok_def, rule_format, of p st] assms(2,3,4) a by (simp add: same_receiver_def)
  have "sys_alive s" "i \<notin> set (sys_cut s)" "sys_pumps s' i = Some p'" using a(1,2,3) assms(2) by (simp_all add: same_receiver_def)
  from assms(5)[OF this(3,1,2)] a(4) old
  show "(\<exists>out. v_out (view i s') = Some out \<and> 0 < os_credits out) \<or> Credit \<in> set (v_controls (view i s')) \<or> v_events (view i s') \<noteq> []
      \<or> (\<exists>c. pm_phase p' = PAnswered c True) \<or> rs_pulling st \<and> rs_pullAgain st"
    unfolding view_simps by (elim disjE conjE exE) (simp, blast, blast, blast, fastforce+)
qed

lemma flow_read:
  assumes f: "flow_ok w (view i s)" and v: "vinv (view i s)" and s: "sys_pumps s i = Some p" "pm_phase p = PReading"
  shows "flow_ok w (view i (pump_read i p s))"
proof (rule flow_pump[OF f _ s(1)])
  show "same_receiver s (pump_read i p s)"
    by (auto simp: pump_read_def Let_def same_receiver_def set_pump_def finish_fields split: acquisition.split)
  show "pm_phase p \<noteq> PDone" using s(2) by simp
  fix p' assume p': "sys_pumps (pump_read i p s) i = Some p'" and a: "sys_alive s" "i \<notin> set (sys_cut s)"
  have "map_of (rg_streams (sys_registry s)) i \<noteq> None" using v s a by (auto simp: vinv_def pump_ok_def)
  with p' s(2) show "pm_phase p' = PDone
      \<or> (\<exists>c. pm_phase p' = PAnswered c True) \<or> for_id i (sys_toReceiver (pump_read i p s)) \<noteq> []
      \<or> (\<exists>out. map_of (rg_streams (sys_registry (pump_read i p s))) i = Some out \<and> 0 < os_credits out)
      \<or> (\<forall>out. map_of (rg_streams (sys_registry s)) i = Some out \<longrightarrow> os_credits out = 0)
          \<and> (\<forall>c. pm_phase p \<noteq> PAnswered c True)
          \<and> set (for_id i (sys_toSender s)) \<subseteq> set (for_id i (sys_toSender (pump_read i p s)))
          \<and> (for_id i (sys_toReceiver s) = [] \<or> for_id i (sys_toReceiver (pump_read i p s)) \<noteq> [])"
    by (auto simp: pump_read_def Let_def finish_fields set_pump_def acquire_begin_def split: if_splits option.splits)
qed

lemma flow_step:
  assumes f: "flow_ok w (view i s)" and v: "vinv (view i s)" and l: "step l s = Some s'" and i: "i = target l s"
    and nt: "\<And>e. l \<noteq> LTeardown e" and w: "sys_window s = Some w" and c: "channel_inv s"
  shows "flow_ok w (view i s')"
proof (cases l)
  case (LPump cs g k)
  have "sys_pumps s i = None" using c i LPump by (simp add: channel_inv_def)
  then have "sys_streams s i = None" using v by (simp add: vinv_def)
  moreover have "sys_streams s' = sys_streams s"
    using l LPump by (auto simp: start_pump_def Let_def finish_fields set_pump_def allocateId_def split: option.splits)
  ultimately show ?thesis by (simp add: flow_ok_def)
next
  case (LRead j)
  then show ?thesis using l i flow_read[OF f v] by (auto simp: at_pump_def split: option.splits if_splits)
next
  case (LResume j)
  with l i obtain p x where p: "sys_pumps s i = Some p" "pm_phase p = PWoken x" "s' = pump_resume i x p s"
    by (auto simp: at_pump_def split: option.splits phase.splits)
  have "wake_ok (view i s) p" "pump_ok (view i s) p" using v p(1) by (simp_all add: vinv_def)
  then show ?thesis unfolding p(3)
    by (intro flow_pump[OF f _ p(1)])
      (use p(2) in \<open>auto simp: pump_resume_def acquire_resume_def same_receiver_def set_pump_def wake_ok_def pump_ok_def Let_def
        split: option.splits if_splits\<close>)
next
  case (LAnswer j)
  with l i obtain p x ok where p: "sys_pumps s i = Some p" "pm_phase p = PAnswered x ok" "s' = pump_answer i x ok p s"
    by (auto simp: at_pump_def split: option.splits phase.splits)
  show ?thesis unfolding p(3)
    by (intro flow_pump[OF f _ p(1)])
      (use p(2) in \<open>auto simp: pump_answer_def finish_fields same_receiver_def set_pump_def post_def split: if_splits\<close>)
next
  case LToReceiver
  then show ?thesis using l i flow_to_receiver[OF v _ _ w f] by (auto split: if_splits list.splits)
next
  case LToSender
  with l i obtain m ms where m: "sys_toSender s = (i, m) # ms" "s' = to_sender i m s" by (auto split: if_splits list.splits)
  show ?thesis
  proof (cases m)
    case Cancel
    then have "i \<in> set (sys_cut s')" using v m by (auto simp: vinv_def to_sender_def Let_def split: prod.splits)
    then show ?thesis by (simp add: flow_ok_def)
  next
    case Credit
    have "\<exists>out. map_of (rg_streams (sys_registry s')) i = Some out \<and> 0 < os_credits out"
      if "sys_pumps s i = Some p" "pm_phase p \<noteq> PDone" "sys_alive s" "i \<notin> set (sys_cut s)" for p
    proof -
      have "map_of (rg_streams (sys_registry s)) i \<noteq> None" using v that by (auto simp: vinv_def pump_ok_def)
      moreover have "0 < x + enat (Suc 0)" for x by (cases x) (simp_all add: zero_enat_def)
      ultimately show ?thesis using m Credit by (auto simp: to_sender_def grantCredit_def)
    qed
    moreover obtain b where "sys_alive s' = sys_alive s" "sys_cut s' = sys_cut s"
      "sys_pumps s' i = map_option (wake b) (sys_pumps s i)"
      using m Credit by (auto simp: to_sender_def Let_def split: prod.splits)
    ultimately show ?thesis by (cases "sys_pumps s i") (auto simp: flow_ok_def)
  qed
next
  case (LOpen j)
  then have "s' = s\<lparr>sys_receiver := fst (open_stream i (sys_receiver s, sys_streams s)),
      sys_streams := snd (open_stream i (sys_receiver s, sys_streams s))\<rparr>"
    using l i by (auto simp: Let_def split: if_splits)
  then show ?thesis by (intro flow_idle[OF f]) (auto simp: open_stream_def new_stream_def)
next
  case (LStart j)
  with l i obtain st where st: "sys_streams s i = Some st" "\<not> rs_startCalled st" "sys_alive s"
    "s' = s\<lparr>sys_receiver := fst (start_source (hwm_of (sys_window s)) i (sys_receiver s, sys_streams s)),
            sys_streams := snd (start_source (hwm_of (sys_window s)) i (sys_receiver s, sys_streams s))\<rparr>"
    by (auto simp: at_stream_def Let_def split: option.splits if_splits)
  have "\<not> rs_started st" using v st(1,2) by (auto simp: vinv_def receiver_ok_def stream_ok_def)
  with apply_events_started[of "(sys_streams s)(i \<mapsto> st\<lparr>rs_startCalled := True\<rparr>)" i "st\<lparr>rs_startCalled := True\<rparr>"]
  obtain st' where "sys_streams s' i = Some st'" "\<not> rs_started st'"
    unfolding st(4) start_source_def Let_def prod.case using st(1) by (simp, metis)
  then show ?thesis by (simp add: flow_ok_def)
next
  case (LStarted j)
  then show ?thesis using l i stream_started_due
    by (auto simp: at_stream_def split: option.splits if_splits intro!: flow_on_stream[OF _ w])
next
  case (LPulled j)
  with l i obtain st where st: "sys_streams s i = Some st" "s' = on_stream i stream_pulled st s"
    by (auto simp: at_stream_def split: option.splits if_splits)
  show ?thesis
  proof (cases "rs_pullAgain st")
    case True
    have "snd (stream_pulled h st) \<or> rs_pulling (fst (stream_pulled h st)) \<and> rs_pullAgain (fst (stream_pulled h st))"
      if "can_enqueue (fst (stream_pulled h st))" "rs_started (fst (stream_pulled h st))" "has_room h (fst (stream_pulled h st))" for h
      using that True call_pull_due[of h "st\<lparr>rs_pulling := False, rs_pullAgain := False\<rparr>"] by (simp add: stream_pulled_def)
    then show ?thesis unfolding st(2) by (rule flow_on_stream[OF _ w])
  next
    case False
    then show ?thesis using f st by (auto simp: flow_ok_def on_stream_def stream_pulled_def can_enqueue_def has_room_def)
  qed
next
  case (LConsumerRead j)
  then show ?thesis using l i stream_read_due
    by (auto simp: at_stream_def split: option.splits if_splits intro!: flow_on_stream[OF _ w])
next
  case (LConsumerCancel j)
  then show ?thesis using l i f
    by (auto simp: at_stream_def Let_def stream_cancel_def cancel_received_def flow_ok_def split: option.splits if_splits)
next
  case (LReceiverCancel j)
  then show ?thesis using l i by (auto simp: cancel_received_def flow_ok_def split: if_splits)
qed (use nt in simp)

lemma flow_reachable: "reachable (Some w) s \<Longrightarrow> sys_window s = Some w \<and> flow_ok w (view i s)"
proof (induction rule: reachable.induct)
  case init
  show ?case by (simp add: new_channel_def flow_ok_def)
next
  case (step s l s')
  have c: "channel_inv s" by (rule channel_inv_reachable[OF step.hyps(1)])
  then have v: "vinv (view i s)" by (simp add: channel_inv_def)
  have win: "sys_window s' = Some w" using sys_window_step[OF step.hyps(2)] step.IH by simp
  have "flow_ok w (view i s')"
  proof (cases "\<exists>e. l = LTeardown e")
    case True
    then show ?thesis using step.hyps(2) by (auto simp: teardown_def flow_ok_def Let_def split: if_splits prod.splits)
  next
    case False
    then show ?thesis
      using view_other[OF step.hyps(2), of i] flow_step[OF _ v step.hyps(2)] step.IH c
      by (cases "i = target l s") auto
  qed
  with win show ?case by simp
qed

text \<open>
  C37. No lost wake-up. When a pump with a window is parked, its stream has not been cancelled,
  nothing of the stream is under way in either direction and no call of \<open>pull\<close> is running, then
  the pump waits for its consumer: the stream is open, at least a whole window of chunks waits to
  be read, and no read is pending.
\<close>
theorem parked_pump_waits_for_consumer:
  assumes "reachable (Some w) s" and "sys_alive s" and "i \<notin> set (sys_cut s)"
    and "sys_pumps s i = Some p" and "pm_phase p = PParked c"
    and "sys_streams s i = Some st" and "rs_started st" and "\<not> rs_pulling st"
    and "for_id i (sys_toReceiver s) = []" and "for_id i (sys_toSender s) = []"
  shows "rs_state st = Readable \<and> w \<le> length (rs_queue st) \<and> rs_requests st = 0"
proof -
  have v: "vinv (view i s)" using channel_inv_reachable[OF assms(1)] by (simp add: channel_inv_def)
  with assms(4) have p: "pump_ok (view i s) p" "wake_ok (view i s) p" "receiver_ok (view i s)" by (simp_all add: vinv_def)
  have ne: "\<not> ended (sys_seen s i)" using p(1) assms(5,9) by (auto simp: pump_ok_def)
  then have noend: "EEnd \<notin> set (sys_seen s i)" unfolding ended_def by (metis is_chunk_simps(2))
  have ok: "stream_ok False (sys_seen s i) st" using p(3) assms(3,6) by (simp add: receiver_ok_def)
  then have "rs_startCalled st" using assms(7) by (auto simp: stream_ok_def)
  then have con: "connected (i \<in> set (rc_controllers (sys_receiver s))) (sys_seen s i) st"
    using p(3) assms(2,3,6) by (simp add: receiver_ok_def)
  have r: "rs_state st = Readable"
    using con ok ne noend by (cases "rs_state st") (auto simp: connected_def stream_ok_def)
  then have "can_enqueue st" using ok noend by (auto simp: can_enqueue_def stream_ok_def)
  moreover have "\<exists>out. map_of (rg_streams (sys_registry s)) i = Some out \<and> os_credits out = 0"
    using p(2) assms(5) by (auto simp: wake_ok_def)
  moreover have "flow_ok w (view i s)" using flow_reachable[OF assms(1)] by blast
  ultimately have "\<not> has_room w st" using assms by (auto simp: flow_ok_def)
  with r show ?thesis by (simp add: has_room_def)
qed

definition demo_parked :: "(nat, string) label list" where
  "demo_parked = [LPump [10, 20, 30] None None, LOpen 1, LStart 1, LStarted 1, LPulled 1, LToSender, LRead 1, LAnswer 1,
     LToReceiver, LRead 1, LAnswer 1, LToReceiver, LRead 1]"

lemma parked_pump_waits_for_consumer_witness:
  "\<exists>(s :: (nat, string) sys) p st. reachable (Some 1) s \<and> sys_pumps s 1 = Some p \<and> pm_phase p = PParked 30
     \<and> sys_streams s 1 = Some st \<and> rs_state st = Readable \<and> 1 \<le> length (rs_queue st) \<and> rs_requests st = 0"
proof -
  have "case run demo_parked (new_channel (Some 1)) of None \<Rightarrow> False | Some s \<Rightarrow>
      sys_alive s \<and> 1 \<notin> set (sys_cut s) \<and> for_id 1 (sys_toReceiver s) = [] \<and> for_id 1 (sys_toSender s) = [] \<and>
      (case (sys_pumps s 1, sys_streams s 1) of (Some p, Some st) \<Rightarrow> pm_phase p = PParked 30 \<and> rs_started st \<and> \<not> rs_pulling st
       | _ \<Rightarrow> False)" by code_simp
  then obtain s p st where s: "run demo_parked (new_channel (Some 1)) = Some s" "sys_alive s" "1 \<notin> set (sys_cut s)"
    "sys_pumps s 1 = Some p" "pm_phase p = PParked 30" "sys_streams s 1 = Some st" "rs_started st" "\<not> rs_pulling st"
    "for_id 1 (sys_toReceiver s) = []" "for_id 1 (sys_toSender s) = []"
    by (auto split: option.splits)
  have r: "reachable (Some 1) s" using reachable_run[OF reachable.init s(1)] .
  from parked_pump_waits_for_consumer[OF r s(2-10)] r s(4-6) show ?thesis by blast
qed

section \<open>The credits are no bound\<close>

text \<open>
  A channel at rest with \<open>k\<close> credits, all chunks consumed and \<open>m\<close> to come; and one in which the
  pump has credits and the consumer does not read.
\<close>

definition bursting :: "nat \<Rightarrow> nat \<Rightarrow> nat \<Rightarrow> nat \<Rightarrow> (nat, 'e) sys \<Rightarrow> bool" where
  "bursting w k m j s =
     (sys_alive s \<and> sys_window s = Some w \<and> sys_toReceiver s = []
      \<and> map_of (rg_streams (sys_registry s)) 1 = Some \<lparr>os_credits = enat k, os_waiter = False\<rparr>
      \<and> 1 \<notin> set (rc_cancelled (sys_receiver s)) \<and> 1 \<in> set (rc_controllers (sys_receiver s))
      \<and> (\<exists>p. sys_pumps s 1 = Some p \<and> pm_phase p = PReading \<and> pm_rest p = replicate m 0 \<and> \<not> pm_cancelled p)
      \<and> (\<exists>st. sys_streams s 1 = Some st \<and> length (rs_queue st) = j \<and> can_enqueue st \<and> rs_started st \<and> rs_requests st = 0))"

definition resting :: "nat \<Rightarrow> nat \<Rightarrow> nat \<Rightarrow> (nat, 'e) sys \<Rightarrow> bool" where
  "resting w k m s =
     (bursting w k m 0 s \<and> sys_toSender s = []
      \<and> (\<exists>st. sys_streams s 1 = Some st \<and> \<not> rs_pulling st \<and> \<not> rs_pullAgain st))"

definition post_one :: "(nat, 'e) label list" where
  "post_one = [LRead 1, LAnswer 1, LToReceiver]"

lemma run_append: "run (as @ bs) s = (case run as s of None \<Rightarrow> None | Some s' \<Rightarrow> run bs s')"
  by (induction as arbitrary: s) (auto split: option.split)

lemma enat_pred: "enat (Suc k) - 1 = enat k" "0 < enat (Suc k)" "enat (Suc k) \<noteq> 0"
  by (simp_all add: one_enat_def zero_enat_def)

text \<open>One chunk is posted and arrives in the queue; the stream then calls \<open>pull\<close> as it does.\<close>

lemma post_one:
  assumes "bursting w (Suc k) (Suc m) j s"
  shows "\<exists>s' st. run post_one s = Some s' \<and> bursting w k m (Suc j) s' \<and> sys_streams s 1 = Some st
    \<and> sys_streams s' 1 = Some (fst (call_pull w (st\<lparr>rs_queue := rs_queue st @ [0]\<rparr>)))
    \<and> sys_toSender s' = sys_toSender s @ (if snd (call_pull w (st\<lparr>rs_queue := rs_queue st @ [0]\<rparr>)) then [(1, Credit)] else [])"
proof -
  from assms obtain p st where p: "sys_pumps s 1 = Some p" "pm_phase p = PReading" "pm_rest p = replicate (Suc m) 0"
    "\<not> pm_cancelled p" and st: "sys_streams s 1 = Some st" "length (rs_queue st) = j" "can_enqueue st" "rs_started st" "rs_requests st = 0"
    and s: "sys_alive s" "sys_window s = Some w" "sys_toReceiver s = []"
      "map_of (rg_streams (sys_registry s)) 1 = Some \<lparr>os_credits = enat (Suc k), os_waiter = False\<rparr>"
      "1 \<notin> set (rc_cancelled (sys_receiver s))" "1 \<in> set (rc_controllers (sys_receiver s))"
    unfolding bursting_def by blast
  let ?g = "set_stream 1 \<lparr>os_credits = enat k, os_waiter = False\<rparr> (sys_registry s)"
  let ?p1 = "p\<lparr>pm_rest := replicate m 0, pm_phase := PAnswered 0 True\<rparr>"
  let ?s1 = "set_pump 1 ?p1 (s\<lparr>sys_registry := ?g\<rparr>)"
  have 1: "step (LRead 1) s = Some ?s1"
    using p s by (simp add: at_pump_def pump_read_def acquire_begin_def enat_pred Let_def)
  let ?p2 = "p\<lparr>pm_rest := replicate m 0, pm_phase := PReading, pm_posted := pm_posted p @ [EChunk 0]\<rparr>"
  let ?s2 = "set_pump 1 ?p2 (?s1\<lparr>sys_toReceiver := [(1, EChunk 0)]\<rparr>)"
  have 2: "step (LAnswer 1) ?s1 = Some ?s2"
    using s by (simp add: at_pump_def set_pump_def pump_answer_def post_def)
  let ?c = "call_pull w (st\<lparr>rs_queue := rs_queue st @ [0]\<rparr>)"
  let ?s3 = "?s2\<lparr>sys_toReceiver := [], sys_streams := (sys_streams s)(1 \<mapsto> fst ?c),
    sys_seen := (sys_seen s)(1 := sys_seen s 1 @ [EChunk 0]),
    sys_toSender := sys_toSender s @ (if snd ?c then [(1, Credit)] else [])\<rparr>"
  have 3: "step LToReceiver ?s2 = Some ?s3"
    using s st by (simp add: set_pump_def to_receiver_def onEvent_def apply_event_def stream_enqueue_def hwm_of_def case_prod_unfold Let_def)
  have "bursting w k m (Suc j) ?s3"
    using s st p by (simp add: bursting_def set_pump_def can_enqueue_def)
  with 1 2 3 st(1) show ?thesis by (simp add: post_one_def set_pump_def)
qed

lemma burst: "bursting w (k + n) (m + n) j s \<Longrightarrow> \<exists>ls s'. run ls s = Some s' \<and> bursting w k m (j + n) s'"
proof (induction n arbitrary: j s)
  case 0
  then show ?case by (intro exI[of _ "[]"]) simp
next
  case (Suc n)
  from post_one[of w "k + n" "m + n" j s] Suc.prems obtain s1 where 1: "run post_one s = Some s1" "bursting w (k + n) (m + n) (Suc j) s1"
    by auto
  from Suc.IH[OF 1(2)] obtain ls s' where "run ls s1 = Some s'" "bursting w k m (Suc j + n) s'" by blast
  with 1(1) show ?case by (intro exI[of _ "post_one @ ls"]) (simp add: run_append)
qed

definition consume_one :: "(nat, 'e) label list" where
  "consume_one = [LPulled 1, LConsumerRead 1, LPulled 1, LToSender, LToSender]"

text \<open>A chunk that is read as it arrives is paid for twice.\<close>

lemma round_trip:
  assumes "resting (Suc w) (Suc k) (Suc m) s" and "0 < w"
  shows "\<exists>s'. run (post_one @ consume_one) s = Some s' \<and> resting (Suc w) (Suc (Suc k)) m s'"
proof -
  have b: "bursting (Suc w) (Suc k) (Suc m) 0 s" using assms(1) by (simp add: resting_def)
  from post_one[OF b] obtain s1 st where 1: "run post_one s = Some s1" "bursting (Suc w) k m 1 s1" "sys_streams s 1 = Some st"
    "sys_streams s1 1 = Some (fst (call_pull (Suc w) (st\<lparr>rs_queue := rs_queue st @ [0]\<rparr>)))"
    "sys_toSender s1 = sys_toSender s @ (if snd (call_pull (Suc w) (st\<lparr>rs_queue := rs_queue st @ [0]\<rparr>)) then [(1, Credit)] else [])"
    by auto
  have st: "rs_queue st = []" "can_enqueue st" "rs_started st" "rs_requests st = 0" "\<not> rs_pulling st" "\<not> rs_pullAgain st" "sys_toSender s = []"
    using assms(1) 1(3) by (auto simp: resting_def bursting_def)
  have call: "call_pull (Suc w) (st\<lparr>rs_queue := rs_queue st @ [0]\<rparr>) = (st\<lparr>rs_queue := [0], rs_pulling := True\<rparr>, True)"
    using st assms(2) by (simp add: call_pull_def can_enqueue_def has_room_def)
  let ?st1 = "st\<lparr>rs_queue := [0], rs_pulling := True\<rparr>"
  have s1: "sys_streams s1 1 = Some ?st1" "sys_toSender s1 = [(1, Credit)]" using 1(4,5) call st(7) by simp_all
  from 1(2) obtain p where p: "sys_pumps s1 1 = Some p" "pm_phase p = PReading" "pm_rest p = replicate m 0" "\<not> pm_cancelled p"
    unfolding bursting_def by blast
  have a: "sys_alive s1" "sys_window s1 = Some (Suc w)" "sys_toReceiver s1 = []"
      "map_of (rg_streams (sys_registry s1)) 1 = Some \<lparr>os_credits = enat k, os_waiter = False\<rparr>"
      "1 \<notin> set (rc_cancelled (sys_receiver s1))" "1 \<in> set (rc_controllers (sys_receiver s1))"
    using 1(2) unfolding bursting_def by blast+
  let ?st2 = "st\<lparr>rs_queue := [0], rs_pulling := False\<rparr>"
  let ?s2 = "s1\<lparr>sys_streams := (sys_streams s1)(1 \<mapsto> ?st2)\<rparr>"
  have 2: "step (LPulled 1) s1 = Some ?s2"
    using s1 st by (simp add: at_stream_def on_stream_def stream_pulled_def)
  let ?st3 = "st\<lparr>rs_queue := [], rs_delivered := rs_delivered st @ [0], rs_pulling := True\<rparr>"
  let ?s3 = "s1\<lparr>sys_streams := (sys_streams s1)(1 \<mapsto> ?st3), sys_toSender := [(1, Credit), (1, Credit)]\<rparr>"
  have 3: "step (LConsumerRead 1) ?s2 = Some ?s3"
    using s1 st a by (simp add: at_stream_def on_stream_def stream_read_def call_pull_def can_enqueue_def has_room_def hwm_of_def Let_def)
  let ?st4 = "st\<lparr>rs_queue := [], rs_delivered := rs_delivered st @ [0], rs_pulling := False\<rparr>"
  let ?s4 = "s1\<lparr>sys_streams := (sys_streams s1)(1 \<mapsto> ?st4), sys_toSender := [(1, Credit), (1, Credit)]\<rparr>"
  have 4: "step (LPulled 1) ?s3 = Some ?s4"
    using st by (simp add: at_stream_def on_stream_def stream_pulled_def)
  have wk: "wake b p = p" for b using p(2) by (simp add: wake_def)
  let ?g = "\<lambda>n. set_stream 1 \<lparr>os_credits = enat n, os_waiter = False\<rparr>"
  have pump: "(sys_pumps s1)(1 \<mapsto> p) = sys_pumps s1" using p(1) by auto
  let ?s5 = "s1\<lparr>sys_streams := (sys_streams s1)(1 \<mapsto> ?st4), sys_toSender := [(1, Credit)],
    sys_registry := ?g (Suc k) (sys_registry s1)\<rparr>"
  have 5: "step LToSender ?s4 = Some ?s5"
    using a p wk pump by (simp add: to_sender_def grantCredit_def Let_def)
  let ?s6 = "s1\<lparr>sys_streams := (sys_streams s1)(1 \<mapsto> ?st4), sys_toSender := [],
    sys_registry := ?g (Suc (Suc k)) (?g (Suc k) (sys_registry s1))\<rparr>"
  have 6: "step LToSender ?s5 = Some ?s6"
    using a p wk pump by (simp add: to_sender_def grantCredit_def Let_def)
  have "resting (Suc w) (Suc (Suc k)) m ?s6"
    using a p st by (simp add: resting_def bursting_def can_enqueue_def)
  with 1(1) 2 3 4 5 6 show ?thesis by (simp add: run_append consume_one_def del: step.simps)
qed

lemma rounds: "resting (Suc w) (Suc k) (m + n) s \<Longrightarrow> 0 < w \<Longrightarrow> \<exists>ls s'. run ls s = Some s' \<and> resting (Suc w) (Suc k + n) m s'"
proof (induction n arbitrary: k s)
  case 0
  then show ?case by (intro exI[of _ "[]"]) simp
next
  case (Suc n)
  from round_trip[of w k "m + n" s] Suc.prems obtain s1 where
    1: "run (post_one @ consume_one) s = Some s1" "resting (Suc w) (Suc (Suc k)) (m + n) s1" by auto
  from Suc.IH[OF 1(2) Suc.prems(2)] obtain ls s' where "run ls s1 = Some s'" "resting (Suc w) (Suc k + Suc n) m s'" by auto
  moreover have "run ((post_one @ consume_one) @ ls) s = run ls s1" using 1(1) by (subst run_append) simp
  ultimately show ?case by metis
qed

definition open_one :: "nat \<Rightarrow> (nat, 'e) label list" where
  "open_one m = [LPump (replicate m 0) None None, LOpen 1, LStart 1, LStarted 1, LPulled 1, LToSender]"

lemma open_one:
  "\<exists>s. run (open_one m) (new_channel (Some STREAM_BACKPRESSURE_WINDOW)) = Some s
     \<and> resting STREAM_BACKPRESSURE_WINDOW (Suc STREAM_BACKPRESSURE_WINDOW) m s"
  by (simp add: open_one_def new_channel_def start_pump_def allocateId_def register_def set_stream_def set_pump_def
      initial_credits_def open_stream_def at_stream_def start_source_def pending_of_def new_stream_def on_stream_def
      stream_started_def call_pull_def can_enqueue_def has_room_def hwm_of_def stream_pulled_def to_sender_def grantCredit_def
      wake_def resting_def bursting_def STREAM_BACKPRESSURE_WINDOW_def Let_def)

text \<open>
  The window is no bound. With the window of the code, for every number there is an execution
  of a channel in which more chunks than that wait in the receiving thread, although no read was
  missed before: \<open>pull\<close> is called when a chunk arrives and again when it is read, so that a chunk
  that is read at once is paid back twice and the credits grow with every chunk.
\<close>
theorem in_flight_chunks_unbounded:
  "\<exists>(s :: (nat, 'e) sys) st. reachable (Some STREAM_BACKPRESSURE_WINDOW) s \<and> sys_streams s 1 = Some st
     \<and> n < length (rs_queue st)"
proof -
  let ?w = STREAM_BACKPRESSURE_WINDOW
  have w: "?w = Suc 7" by (simp add: STREAM_BACKPRESSURE_WINDOW_def)
  let ?k = "?w + 1 + n"
  obtain s1 :: "(nat, 'e) sys" where 1: "run (open_one (?k + n)) (new_channel (Some ?w)) = Some s1" "resting ?w (Suc ?w) (?k + n) s1"
    using open_one by blast
  from rounds[of 7 "?w" ?k n s1] 1(2) obtain ls2 s2 where 2: "run ls2 s1 = Some s2" "resting ?w ?k ?k s2"
    unfolding w by auto
  then have "bursting ?w (0 + ?k) (0 + ?k) 0 s2" by (simp add: resting_def)
  from burst[OF this] obtain ls3 s3 where 3: "run ls3 s2 = Some s3" "bursting ?w 0 0 ?k s3" by auto
  have "reachable (Some ?w) s3"
    by (rule reachable_run[OF reachable_run[OF reachable_run[OF reachable.init 1(1)] 2(1)] 3(1)])
  with 3(2) show ?thesis by (auto simp: bursting_def)
qed

text \<open>
  A consumer that cancels after the terminator has arrived, while chunks still wait, leaves its
  stream among the cancelled ones: no message will remove it.
\<close>

definition demo_late_cancel :: "(nat, string) label list" where
  "demo_late_cancel = [LPump [10] None None, LOpen 1, LStart 1, LRead 1, LAnswer 1, LToReceiver, LRead 1, LToReceiver,
     LConsumerCancel 1, LToSender]"

lemma late_cancel_is_kept:
  "case run demo_late_cancel (new_channel None) of None \<Rightarrow> False
   | Some s \<Rightarrow> sys_toReceiver s = [] \<and> sys_toSender s = [] \<and> rc_cancelled (sys_receiver s) = [1]
       \<and> map_option pm_phase (sys_pumps s 1) = Some PDone"
  by code_simp

end
