(* ===== verification/DurableStorage.thy ===== *)
theory DurableStorage
  imports Contracts Json
begin

text \<open>
  The storage of a Durable Object, \<^verbatim>\<open>src/bindings/durable-object.ts\<close>: the synchronous and the
  asynchronous key-value interface over the table \<open>do_storage\<close>, its alarm in \<open>do_alarms\<close>, and
  the transactions on the connection that all objects share. A connection holds the tables, the
  tables at the \<open>BEGIN\<close> of the open transaction and those at each savepoint. Keys hold no NUL;
  the options of the methods are ignored by the code.
\<close>

section \<open>Tables and connection\<close>

record st_row =
  st_namespace :: string
  st_id :: string
  st_key :: string
  st_value :: string

record alarm_row =
  al_namespace :: string
  al_id :: string
  al_time :: int

record do_tables =
  do_storage :: "st_row list"
  do_alarms :: "alarm_row list"

record conn =
  tables :: do_tables
  begun :: "do_tables option"
  saved :: "(string \<times> do_tables) list" \<comment> \<open>the newest first\<close>

datatype do_error =
    NotSerializable
  | NotNullConstraint
  | JsonSyntax
  | NestedTransaction
  | NoTransaction
  | NoSuchSavepoint string
  | ClosureThrew string

text \<open>The values a method can be given: \<open>JSON.stringify\<close> throws for a BigInt or a cycle.\<close>

datatype put_value = PutJson json | PutUndefined | PutUnserializable

abbreviation in_transaction :: "conn \<Rightarrow> bool" where
  "in_transaction c \<equiv> begun c \<noteq> None \<or> saved c \<noteq> []"

abbreviation "on_storage f c \<equiv> c\<lparr>tables := (tables c)\<lparr>do_storage := f (do_storage (tables c))\<rparr>\<rparr>"
abbreviation "on_alarms f c \<equiv> c\<lparr>tables := (tables c)\<lparr>do_alarms := f (do_alarms (tables c))\<rparr>\<rparr>"

definition run_begin :: "conn \<Rightarrow> (do_error, conn) res" where
  "run_begin c = (if in_transaction c then Inl NestedTransaction else Inr (c\<lparr>begun := Some (tables c)\<rparr>))"

definition run_commit :: "conn \<Rightarrow> (do_error, conn) res" where
  "run_commit c = (if in_transaction c then Inr (c\<lparr>begun := None, saved := []\<rparr>) else Inl NoTransaction)"

definition oldest_tables :: "conn \<Rightarrow> do_tables" where
  "oldest_tables c =
     (case begun c of
        Some t \<Rightarrow> t
      | None \<Rightarrow> if saved c = [] then tables c else snd (last (saved c)))"

definition run_rollback :: "conn \<Rightarrow> (do_error, conn) res" where
  "run_rollback c =
     (if in_transaction c then Inr (c\<lparr>tables := oldest_tables c, begun := None, saved := []\<rparr>)
      else Inl NoTransaction)"

definition run_savepoint :: "string \<Rightarrow> conn \<Rightarrow> conn" where
  "run_savepoint n c = c\<lparr>saved := (n, tables c) # saved c\<rparr>"

definition newest_savepoint :: "string \<Rightarrow> conn \<Rightarrow> (string \<times> do_tables) list" where
  "newest_savepoint n c = dropWhile (\<lambda>s. fst s \<noteq> n) (saved c)"

definition run_release :: "string \<Rightarrow> conn \<Rightarrow> (do_error, conn) res" where
  "run_release n c =
     (case newest_savepoint n c of
        [] \<Rightarrow> Inl (NoSuchSavepoint n)
      | _ # older \<Rightarrow> Inr (c\<lparr>saved := older\<rparr>))"

definition run_rollback_to :: "string \<Rightarrow> conn \<Rightarrow> (do_error, conn) res" where
  "run_rollback_to n c =
     (case newest_savepoint n c of
        [] \<Rightarrow> Inl (NoSuchSavepoint n)
      | (m, t) # older \<Rightarrow> Inr (c\<lparr>tables := t, saved := (m, t) # older\<rparr>))"

section \<open>The key-value interface\<close>

record do_store =
  ds_namespace :: string
  ds_id :: string

definition of_object :: "do_store \<Rightarrow> st_row \<Rightarrow> bool" where
  "of_object s r = (st_namespace r = ds_namespace s \<and> st_id r = ds_id s)"

definition at_key :: "do_store \<Rightarrow> string \<Rightarrow> st_row \<Rightarrow> bool" where
  "at_key s key r = (of_object s r \<and> st_key r = key)"

definition row_key :: "st_row \<Rightarrow> string \<times> string \<times> string" where
  "row_key r = (st_namespace r, st_id r, st_key r)"

definition JSON_parse :: "string \<Rightarrow> (do_error, json) res" where
  "JSON_parse v = (case json_parse v of None \<Rightarrow> Inl JsonSyntax | Some j \<Rightarrow> Inr j)"

definition store_get :: "do_store \<Rightarrow> string \<Rightarrow> conn \<Rightarrow> (do_error, json option) res" where
  "store_get s key c =
     (case sql_get (at_key s key) (do_storage (tables c)) of
        None \<Rightarrow> Inr None
      | Some row \<Rightarrow> bind_res (JSON_parse (st_value row)) (\<lambda>v. Inr (Some v)))"

text \<open>The entries of the resulting \<open>Map\<close>; SQL leaves their order open.\<close>

fun decode_rows :: "st_row list \<Rightarrow> (do_error, (string \<times> json) list) res" where
  "decode_rows [] = Inr []"
| "decode_rows (row # rows) =
     bind_res (JSON_parse (st_value row)) (\<lambda>v.
       bind_res (decode_rows rows) (\<lambda>rest. Inr ((st_key row, v) # rest)))"

definition store_get_many :: "do_store \<Rightarrow> string list \<Rightarrow> conn \<Rightarrow> (do_error, (string \<times> json) list) res" where
  "store_get_many s keys c =
     (if keys = [] then Inr []
      else decode_rows (sql_select (\<lambda>r. of_object s r \<and> st_key r \<in> set keys) (do_storage (tables c))))"

fun JSON_stringify :: "put_value \<Rightarrow> (do_error, string option) res" where
  "JSON_stringify (PutJson v) = Inr (Some (stringify v))"
| "JSON_stringify PutUndefined = Inr None"
| "JSON_stringify PutUnserializable = Inl NotSerializable"

text \<open>\<open>INSERT OR REPLACE\<close>; \<open>undefined\<close> is bound as NULL, which the column refuses.\<close>

definition insert_value :: "do_store \<Rightarrow> string \<Rightarrow> string option \<Rightarrow> conn \<Rightarrow> (do_error, conn) res" where
  "insert_value s key v c =
     (case v of
        None \<Rightarrow> Inl NotNullConstraint
      | Some text \<Rightarrow>
          Inr (on_storage (sql_replace row_key
            \<lparr>st_namespace = ds_namespace s, st_id = ds_id s, st_key = key, st_value = text\<rparr>) c))"

definition store_put :: "do_store \<Rightarrow> string \<Rightarrow> put_value \<Rightarrow> conn \<Rightarrow> (do_error, unit) res \<times> conn" where
  "store_put s key v c =
     (case bind_res (JSON_stringify v) (\<lambda>text. insert_value s key text c) of
        Inl e \<Rightarrow> (Inl e, c)
      | Inr c' \<Rightarrow> (Inr (), c'))"

fun put_loop :: "do_store \<Rightarrow> (string \<times> put_value) list \<Rightarrow> conn \<Rightarrow> (do_error, unit) res \<times> conn" where
  "put_loop s [] c = (Inr (), c)"
| "put_loop s ((k, v) # entries) c =
     (case store_put s k v c of
        (Inl e, c') \<Rightarrow> (Inl e, c')
      | (Inr _, c') \<Rightarrow> put_loop s entries c')"

definition or_throw :: "(do_error, conn) res \<Rightarrow> conn \<Rightarrow> (do_error, unit) res \<times> conn" where
  "or_throw r c = (case r of Inl e \<Rightarrow> (Inl e, c) | Inr c' \<Rightarrow> (Inr (), c'))"

definition undo_batch :: "do_error \<Rightarrow> conn \<Rightarrow> (do_error, unit) res \<times> conn" where
  "undo_batch e c =
     (case bind_res (run_rollback_to ''put_batch'' c) (run_release ''put_batch'') of
        Inl e' \<Rightarrow> (Inl e', c)
      | Inr c' \<Rightarrow> (Inl e, c'))"

definition store_put_entries ::
    "do_store \<Rightarrow> (string \<times> put_value) list \<Rightarrow> conn \<Rightarrow> (do_error, unit) res \<times> conn" where
  "store_put_entries s entries c =
     (case put_loop s entries (run_savepoint ''put_batch'' c) of
        (Inl e, c') \<Rightarrow> undo_batch e c'
      | (Inr _, c') \<Rightarrow>
          (case run_release ''put_batch'' c' of
             Inl e \<Rightarrow> undo_batch e c'
           | Inr c'' \<Rightarrow> (Inr (), c'')))"

definition store_delete :: "do_store \<Rightarrow> string \<Rightarrow> conn \<Rightarrow> bool \<times> conn" where
  "store_delete s key c =
     (let existing = sql_get (at_key s key) (do_storage (tables c))
      in (existing \<noteq> None, on_storage (sql_delete (at_key s key)) c))"

definition store_delete_many :: "do_store \<Rightarrow> string list \<Rightarrow> conn \<Rightarrow> nat \<times> conn" where
  "store_delete_many s keys c =
     (if keys = [] then (0, c)
      else (let P = (\<lambda>r. of_object s r \<and> st_key r \<in> set keys);
                n = length (sql_select P (do_storage (tables c)))
            in (n, on_storage (sql_delete P) c)))"

definition store_deleteAll :: "do_store \<Rightarrow> conn \<Rightarrow> conn" where
  "store_deleteAll s c = on_storage (sql_delete (of_object s)) c"

section \<open>Listing\<close>

text \<open>\<open>prefix.replace(/%/g, '\\%').replace(/_/g, '\\_')\<close>\<close>

definition replace_char :: "char \<Rightarrow> string \<Rightarrow> string \<Rightarrow> string" where
  "replace_char c by_str s = concat (map (\<lambda>x. if x = c then by_str else [x]) s)"

definition escape_like :: "string \<Rightarrow> string" where
  "escape_like pfx = replace_char CHR ''_'' [CHR 0x5C, CHR ''_''] (replace_char CHR ''%'' [CHR 0x5C, CHR ''%''] pfx)"

record list_options =
  lo_prefix :: "string option"
  lo_start :: "string option"
  lo_startAfter :: "string option"
  lo_end :: "string option"
  lo_limit :: "int option"
  lo_reverse :: "bool option"

definition truthy :: "string option \<Rightarrow> string option" where
  "truthy x = (if x = Some '''' then None else x)"

definition list_prefix_cond :: "list_options \<Rightarrow> string \<Rightarrow> bool" where
  "list_prefix_cond opts k =
     (let pfx = nullish (lo_prefix opts) ''''
      in pfx = '''' \<or> sql_like (Some (CHR 0x5C)) (escape_like pfx @ ''%'') k)"

definition list_start_cond :: "list_options \<Rightarrow> string \<Rightarrow> bool" where
  "list_start_cond opts k =
     (case truthy (lo_startAfter opts) of
        Some a \<Rightarrow> code_units a < code_units k
      | None \<Rightarrow> (case truthy (lo_start opts) of
                   Some a \<Rightarrow> code_units a \<le> code_units k
                 | None \<Rightarrow> True))"

definition list_end_cond :: "list_options \<Rightarrow> string \<Rightarrow> bool" where
  "list_end_cond opts k =
     (case truthy (lo_end opts) of Some z \<Rightarrow> code_units k < code_units z | None \<Rightarrow> True)"

definition list_rows :: "do_store \<Rightarrow> list_options \<Rightarrow> conn \<Rightarrow> st_row list" where
  "list_rows s opts c =
     (let rows = sort_key (\<lambda>r. code_units (st_key r))
                   (sql_select (\<lambda>r. of_object s r \<and> list_prefix_cond opts (st_key r)
                      \<and> list_start_cond opts (st_key r) \<and> list_end_cond opts (st_key r))
                      (do_storage (tables c)))
      in sql_limit (nullish (lo_limit opts) 1000)
           (if nullish (lo_reverse opts) False then rev rows else rows))"

definition store_list :: "do_store \<Rightarrow> list_options \<Rightarrow> conn \<Rightarrow> (do_error, (string \<times> json) list) res" where
  "store_list s opts c = decode_rows (list_rows s opts c)"

section \<open>Alarms\<close>

definition alarm_key :: "alarm_row \<Rightarrow> string \<times> string" where
  "alarm_key r = (al_namespace r, al_id r)"

definition of_alarm :: "do_store \<Rightarrow> alarm_row \<Rightarrow> bool" where
  "of_alarm s r = (al_namespace r = ds_namespace s \<and> al_id r = ds_id s)"

definition getAlarm :: "do_store \<Rightarrow> conn \<Rightarrow> int option" where
  "getAlarm s c = map_option al_time (sql_get (of_alarm s) (do_alarms (tables c)))"

text \<open>The second component is the argument of the callback \<open>_onAlarmSet\<close>.\<close>

definition setAlarm :: "do_store \<Rightarrow> int \<Rightarrow> conn \<Rightarrow> conn \<times> int option" where
  "setAlarm s time c =
     (on_alarms (sql_replace alarm_key
        \<lparr>al_namespace = ds_namespace s, al_id = ds_id s, al_time = time\<rparr>) c, Some time)"

definition deleteAlarm :: "do_store \<Rightarrow> conn \<Rightarrow> conn \<times> int option" where
  "deleteAlarm s c = (on_alarms (sql_delete (of_alarm s)) c, None)"

section \<open>Transactions\<close>

text \<open>The calls a closure, or a request beside it, can make on a storage.\<close>

datatype store_op =
    OpPut do_store string put_value
  | OpPutEntries do_store "(string \<times> put_value) list"
  | OpDelete do_store string
  | OpDeleteMany do_store "string list"
  | OpDeleteAll do_store
  | OpSetAlarm do_store int
  | OpDeleteAlarm do_store

fun apply_op :: "store_op \<Rightarrow> conn \<Rightarrow> conn" where
  "apply_op (OpPut s k v) c = snd (store_put s k v c)"
| "apply_op (OpPutEntries s es) c = snd (store_put_entries s es c)"
| "apply_op (OpDelete s k) c = snd (store_delete s k c)"
| "apply_op (OpDeleteMany s ks) c = snd (store_delete_many s ks c)"
| "apply_op (OpDeleteAll s) c = store_deleteAll s c"
| "apply_op (OpSetAlarm s t) c = fst (setAlarm s t c)"
| "apply_op (OpDeleteAlarm s) c = fst (deleteAlarm s c)"

text \<open>
  \<open>transactionSync\<close>: the callback is the list of the calls it makes and how it ends.
\<close>

definition transactionSync ::
    "store_op list \<Rightarrow> (do_error, 'a) res \<Rightarrow> conn \<Rightarrow> (do_error, 'a) res \<times> conn" where
  "transactionSync ops outcome c =
     (case run_begin c of
        Inl e \<Rightarrow> (Inl e, c)
      | Inr c1 \<Rightarrow>
          (let c2 = foldl (\<lambda>c o'. apply_op o' c) c1 ops;
               undo = (\<lambda>e. case run_rollback c2 of Inl e' \<Rightarrow> (Inl e', c2) | Inr c3 \<Rightarrow> (Inl e, c3))
           in case outcome of
                Inl e \<Rightarrow> undo e
              | Inr a \<Rightarrow> (case run_commit c2 of Inl e \<Rightarrow> undo e | Inr c3 \<Rightarrow> (Inr a, c3))))"

text \<open>
  \<open>transaction\<close> in its steps. \<open>acquireDbTxnLock\<close> chains each caller behind the previous one:
  \<open>txn_waiting\<close> holds the callers whose lock is not yet released, the oldest first;
  \<open>txn_running\<close> is the oldest once it has passed the lock and run \<open>BEGIN\<close>. A call that ends,
  or whose \<open>BEGIN\<close> throws, unlocks. \<open>txn_results\<close> collects how the calls end.
\<close>

record txn_state =
  txn_conn :: conn
  txn_waiting :: "nat list"
  txn_running :: bool
  txn_results :: "(nat \<times> (do_error, unit) res) list"

datatype txn_event =
    TxnCall nat
  | TxnResume
  | TxnOp store_op \<comment> \<open>the closure of the running transaction\<close>
  | TxnReturn
  | TxnThrow string
  | PlainOp store_op \<comment> \<open>a request outside the transaction\<close>

definition unlock :: "(do_error, unit) res \<Rightarrow> txn_state \<Rightarrow> txn_state" where
  "unlock r s =
     s\<lparr>txn_results := txn_results s @ [(hd (txn_waiting s), r)],
       txn_waiting := tl (txn_waiting s), txn_running := False\<rparr>"

definition txn_abort :: "do_error \<Rightarrow> txn_state \<Rightarrow> txn_state" where
  "txn_abort e s =
     (case run_rollback (txn_conn s) of
        Inl e' \<Rightarrow> unlock (Inl e') s
      | Inr c \<Rightarrow> unlock (Inl e) (s\<lparr>txn_conn := c\<rparr>))"

fun txn_step :: "txn_state \<Rightarrow> txn_event \<Rightarrow> txn_state" where
  "txn_step s (TxnCall t) = s\<lparr>txn_waiting := txn_waiting s @ [t]\<rparr>"
| "txn_step s TxnResume =
     (if txn_running s \<or> txn_waiting s = [] then s
      else (case run_begin (txn_conn s) of
              Inl e \<Rightarrow> unlock (Inl e) s
            | Inr c \<Rightarrow> s\<lparr>txn_conn := c, txn_running := True\<rparr>))"
| "txn_step s (TxnOp o') =
     (if txn_running s then s\<lparr>txn_conn := apply_op o' (txn_conn s)\<rparr> else s)"
| "txn_step s TxnReturn =
     (if txn_running s
      then (case run_commit (txn_conn s) of
              Inl e \<Rightarrow> txn_abort e s
            | Inr c \<Rightarrow> unlock (Inr ()) (s\<lparr>txn_conn := c\<rparr>))
      else s)"
| "txn_step s (TxnThrow e) = (if txn_running s then txn_abort (ClosureThrew e) s else s)"
| "txn_step s (PlainOp o') = s\<lparr>txn_conn := apply_op o' (txn_conn s)\<rparr>"

section \<open>The SQL interface\<close>

text \<open>
  \<open>SqlStorage.exec\<close> over a database engine that is a parameter: \<open>query_all\<close> runs a statement
  and returns its rows and column names, \<open>run_stmt\<close> runs one without rows, \<open>changes\<close> is SQLite's
  \<open>changes()\<close>. A row is the list of its columns.
\<close>

type_synonym 'v sql_row = "(string \<times> 'v) list"

record 'v cursor =
  cu_rows :: "'v sql_row list"
  cu_rawRows :: "'v option list list"
  cu_columnNames :: "string list"
  cu_rowsRead :: nat
  cu_rowsWritten :: nat
  cu_index :: nat

definition new_cursor ::
    "'v sql_row list \<Rightarrow> 'v option list list \<Rightarrow> string list \<Rightarrow> nat \<Rightarrow> nat \<Rightarrow> 'v cursor" where
  "new_cursor rows raw cols r w =
     \<lparr>cu_rows = rows, cu_rawRows = raw, cu_columnNames = cols, cu_rowsRead = r, cu_rowsWritten = w, cu_index = 0\<rparr>"

definition cursor_next :: "'v cursor \<Rightarrow> 'v sql_row option \<times> 'v cursor" where
  "cursor_next cu =
     (if cu_index cu < length (cu_rows cu)
      then (Some (cu_rows cu ! cu_index cu), cu\<lparr>cu_index := cu_index cu + 1\<rparr>)
      else (None, cu))"

text \<open>\<open>Inl n\<close>: the error \<open>Expected exactly one row, got n\<close>.\<close>

definition cursor_one :: "'v cursor \<Rightarrow> (nat, 'v sql_row) res" where
  "cursor_one cu = (if length (cu_rows cu) \<noteq> 1 then Inl (length (cu_rows cu)) else Inr (cu_rows cu ! 0))"

text \<open>The test \<open>/\bRETURNING\b/\<close>, with the character before the rest of the text.\<close>

fun word_in :: "string \<Rightarrow> char option \<Rightarrow> string \<Rightarrow> bool" where
  "word_in w before [] = False"
| "word_in w before (c # s) =
     ((prefix w (c # s) \<and> (case before of None \<Rightarrow> True | Some b \<Rightarrow> \<not> is_word b)
         \<and> (case drop (length w) (c # s) of [] \<Rightarrow> True | d # _ \<Rightarrow> \<not> is_word d))
      \<or> word_in w (Some c) s)"

definition sql_exec ::
    "(string \<Rightarrow> 'p list \<Rightarrow> 'db \<Rightarrow> ('v sql_row list \<times> string list) \<times> 'db)
     \<Rightarrow> (string \<Rightarrow> 'p list \<Rightarrow> 'db \<Rightarrow> 'db) \<Rightarrow> ('db \<Rightarrow> nat)
     \<Rightarrow> string \<Rightarrow> 'p list \<Rightarrow> 'db \<Rightarrow> 'v cursor \<times> 'db" where
  "sql_exec query_all run_stmt changes query bindings db =
     (let trimmed = to_upper (trim query);
          yieldsRows = (starts_with trimmed ''SELECT'' \<or> starts_with trimmed ''WITH'' \<or> starts_with trimmed ''PRAGMA'');
          hasReturning = word_in ''RETURNING'' None trimmed
      in if yieldsRows \<or> hasReturning then
           (let ((rows, columnNames), db') = query_all query bindings db;
                rawRows = map (\<lambda>row. map (map_of row) columnNames) rows;
                isPlainRead = (starts_with trimmed ''SELECT'' \<or> starts_with trimmed ''PRAGMA'');
                rowsWritten = (if hasReturning \<and> \<not> isPlainRead then changes db' else 0)
            in (new_cursor rows rawRows columnNames (length rows) rowsWritten, db'))
         else
           (let db' = run_stmt query bindings db
            in (new_cursor [] [] [] 0 (changes db'), db')))"

text \<open>Reading a cursor with \<open>next\<close> yields its rows in order, then nothing.\<close>

fun drain :: "nat \<Rightarrow> 'v cursor \<Rightarrow> 'v sql_row list" where
  "drain 0 cu = []"
| "drain (Suc m) cu = (case cursor_next cu of (None, cu') \<Rightarrow> [] | (Some r, cu') \<Rightarrow> r # drain m cu')"

lemma drain_rows:
  "length (cu_rows cu) - cu_index cu \<le> m \<Longrightarrow> drain m cu = drop (cu_index cu) (cu_rows cu)"
proof (induction m arbitrary: cu)
  case (Suc m)
  show ?case
  proof (cases "cu_index cu < length (cu_rows cu)")
    case True
    with Suc.prems Suc.IH[of "cu\<lparr>cu_index := cu_index cu + 1\<rparr>"] show ?thesis
      by (simp add: cursor_next_def Cons_nth_drop_Suc)
  qed (simp add: cursor_next_def)
qed simp

section \<open>The synchronous key-value interface\<close>

text \<open>\<open>SyncKV\<close> issues the same statements on the same table as the asynchronous methods.\<close>

definition SyncKV_get :: "do_store \<Rightarrow> string \<Rightarrow> conn \<Rightarrow> (do_error, json option) res" where
  "SyncKV_get s key c = store_get s key c"

definition SyncKV_put :: "do_store \<Rightarrow> string \<Rightarrow> put_value \<Rightarrow> conn \<Rightarrow> (do_error, unit) res \<times> conn" where
  "SyncKV_put s key v c = store_put s key v c"

definition SyncKV_delete :: "do_store \<Rightarrow> string \<Rightarrow> conn \<Rightarrow> bool \<times> conn" where
  "SyncKV_delete s key c = store_delete s key c"

text \<open>A generator: the pairs it yields, and whether it ends with an error.\<close>

fun yield_rows :: "st_row list \<Rightarrow> (string \<times> json) list \<times> (do_error, unit) res" where
  "yield_rows [] = ([], Inr ())"
| "yield_rows (row # rows) =
     (case JSON_parse (st_value row) of
        Inl e \<Rightarrow> ([], Inl e)
      | Inr v \<Rightarrow> (let (ys, r) = yield_rows rows in ((st_key row, v) # ys, r)))"

definition SyncKV_list :: "do_store \<Rightarrow> list_options \<Rightarrow> conn \<Rightarrow> (string \<times> json) list \<times> (do_error, unit) res" where
  "SyncKV_list s opts c = yield_rows (list_rows s opts c)"

lemma SyncKV_list_agrees:
  "store_list s opts c = Inr entries \<longleftrightarrow> SyncKV_list s opts c = (entries, Inr ())"
proof -
  have "decode_rows rows = Inr es \<longleftrightarrow> yield_rows rows = (es, Inr ())" for rows es
  proof (induction rows arbitrary: es)
    case (Cons row rows)
    show ?case
      using Cons by (cases "JSON_parse (st_value row)"; cases "yield_rows rows") (auto simp: bind_res_eq_Inr)
  qed auto
  then show ?thesis by (simp add: store_list_def SyncKV_list_def)
qed

end
