(* ===== verification/DurableStorageLaws.thy ===== *)
theory DurableStorageLaws
  imports DurableStorage
begin

text \<open>
  The laws of the storage of a Durable Object: the key-value laws of its operations, the
  all-or-nothing batch, what a listing returns, and the transactions of any number of callers
  as a serial execution of the committed ones.
\<close>

section \<open>The store as a keyed store\<close>

definition text_at :: "do_store \<Rightarrow> string \<Rightarrow> conn \<Rightarrow> string option" where
  "text_at s key c = map_option st_value (sql_get (at_key s key) (do_storage (tables c)))"

definition put_text :: "do_store \<Rightarrow> string \<Rightarrow> string \<Rightarrow> conn \<Rightarrow> conn" where
  "put_text s key text c =
     on_storage (sql_replace row_key
       \<lparr>st_namespace = ds_namespace s, st_id = ds_id s, st_key = key, st_value = text\<rparr>) c"

lemma at_key_row_key: "at_key s key = (\<lambda>r. row_key r = (ds_namespace s, ds_id s, key))"
  by (auto simp: at_key_def of_object_def row_key_def fun_eq_iff)

lemma insert_value_Some [simp]: "insert_value s key (Some text) c = Inr (put_text s key text c)"
  by (simp add: insert_value_def put_text_def)

lemma insert_value_None [simp]: "insert_value s key None c = Inl NotNullConstraint"
  by (simp add: insert_value_def)

lemma put_text_simps [simp]:
  "begun (put_text s key text c) = begun c"
  "saved (put_text s key text c) = saved c"
  "do_alarms (tables (put_text s key text c)) = do_alarms (tables c)"
  by (simp_all add: put_text_def)

lemma text_at_put_text:
  "text_at s key (put_text s' key' text c) =
   (if s' = s \<and> key' = key then Some text else text_at s key c)"
proof (cases "s' = s \<and> key' = key")
  case True
  let ?r = "\<lparr>st_namespace = ds_namespace s, st_id = ds_id s, st_key = key, st_value = text\<rparr>"
  have "row_key ?r = (ds_namespace s, ds_id s, key)" by (simp add: row_key_def)
  then have "sql_get (at_key s key) (sql_replace row_key ?r (do_storage (tables c))) = Some ?r"
    using sql_get_replace_same[of row_key ?r "do_storage (tables c)"] by (simp add: at_key_row_key)
  with True show ?thesis by (simp add: text_at_def put_text_def)
next
  case False
  let ?r = "\<lparr>st_namespace = ds_namespace s', st_id = ds_id s', st_key = key', st_value = text\<rparr>"
  from False have "(ds_namespace s, ds_id s, key) \<noteq> row_key ?r"
    by (cases s; cases s') (auto simp: row_key_def)
  then have "sql_get (at_key s key) (sql_replace row_key ?r (do_storage (tables c))) =
      sql_get (at_key s key) (do_storage (tables c))"
    unfolding at_key_row_key by (rule sql_get_replace_other)
  with False show ?thesis by (auto simp: text_at_def put_text_def)
qed

lemma text_at_delete_key:
  "text_at s key (on_storage (sql_delete (at_key s' key')) c) =
   (if s' = s \<and> key' = key then None else text_at s key c)"
proof (cases "s' = s \<and> key' = key")
  case True
  then show ?thesis by (simp add: text_at_def at_key_row_key)
next
  case False
  then have "\<not> at_key s' key' r" if "at_key s key r" for r
    using that by (cases s; cases s') (auto simp: at_key_def of_object_def)
  then have "sql_get (at_key s key) (sql_delete (at_key s' key') (do_storage (tables c))) =
      sql_get (at_key s key) (do_storage (tables c))"
    by (rule sql_get_delete_disjoint)
  with False show ?thesis by (auto simp: text_at_def)
qed

interpretation durable: record_store "\<lambda>k c. text_at s k c" "put_text s"
    "\<lambda>k c. on_storage (sql_delete (at_key s k)) c" for s
  by unfold_locales (auto simp: text_at_put_text text_at_delete_key)

lemma store_get_text_at:
  "store_get s key c =
   (case text_at s key c of None \<Rightarrow> Inr None | Some text \<Rightarrow> map_sum id Some (JSON_parse text))"
  by (auto simp: store_get_def text_at_def bind_res_def JSON_parse_def split: option.split sum.split)

lemma store_get_put_text:
  assumes "json_wf v"
  shows "store_get s key (put_text s' key' (stringify v) c) =
    (if s' = s \<and> key' = key then Inr (Some v) else store_get s key c)"
  by (simp add: store_get_text_at text_at_put_text JSON_parse_def json_round_trip[OF assms])

section \<open>Single and batched writes\<close>

fun serializable :: "put_value \<Rightarrow> bool" where
  "serializable (PutJson v) = True"
| "serializable _ = False"

fun put_wf :: "put_value \<Rightarrow> bool" where
  "put_wf (PutJson v) = json_wf v"
| "put_wf _ = True"

fun put_error :: "put_value \<Rightarrow> do_error" where
  "put_error PutUndefined = NotNullConstraint"
| "put_error _ = NotSerializable"

lemma store_put_cases:
  "store_put s key v c =
   (case v of PutJson j \<Rightarrow> (Inr (), put_text s key (stringify j) c) | _ \<Rightarrow> (Inl (put_error v), c))"
  by (cases v) (simp_all add: store_put_def)

lemma put_loop_ok:
  assumes "\<forall>(k, v) \<in> set entries. serializable v"
  shows "put_loop s entries c =
    (Inr (), foldl (\<lambda>c (k, v). case v of PutJson j \<Rightarrow> put_text s k (stringify j) c | _ \<Rightarrow> c) c entries)"
  using assms
proof (induction entries arbitrary: c)
  case (Cons e entries)
  obtain k v where "e = (k, v)" by force
  with Cons show ?case by (cases v) (simp_all add: store_put_cases)
qed simp

lemma put_loop_error:
  assumes "\<not> (\<forall>(k, v) \<in> set entries. serializable v)"
  shows "\<exists>c'. put_loop s entries c =
    (Inl (put_error (snd (the (find (\<lambda>e. \<not> serializable (snd e)) entries)))), c')
    \<and> begun c' = begun c \<and> saved c' = saved c \<and> do_alarms (tables c') = do_alarms (tables c)"
  using assms
proof (induction entries arbitrary: c)
  case (Cons e entries)
  obtain k v where e: "e = (k, v)" by force
  show ?case
  proof (cases v)
    case (PutJson j)
    with Cons.prems e have "\<not> (\<forall>(k, v) \<in> set entries. serializable v)" by simp
    from Cons.IH[OF this, of "put_text s k (stringify j) c"] PutJson e show ?thesis
      by (simp add: store_put_cases)
  qed (auto simp: e store_put_cases)
qed simp

lemma conn_restored: "saved c' = (n, tables c) # saved c \<Longrightarrow> begun c' = begun c \<Longrightarrow>
    bind_res (run_rollback_to n c') (run_release n) = Inr c"
  by (simp add: run_rollback_to_def run_release_def newest_savepoint_def)

lemma foldl_put_text_simps:
  defines "f \<equiv> \<lambda>s c (k, v). case v of PutJson j \<Rightarrow> put_text s k (stringify j) c | _ \<Rightarrow> c"
  shows "begun (foldl (f s) c entries) = begun c \<and> saved (foldl (f s) c entries) = saved c"
proof (induction entries arbitrary: c)
  case (Cons e entries)
  then show ?case by (simp add: f_def split: prod.split put_value.split)
qed simp

lemma store_put_entries_ok:
  assumes "\<forall>(k, v) \<in> set entries. serializable v"
  shows "store_put_entries s entries c =
    (Inr (), foldl (\<lambda>c (k, v). case v of PutJson j \<Rightarrow> put_text s k (stringify j) c | _ \<Rightarrow> c) c entries)"
proof -
  let ?f = "\<lambda>c (k, v). case v of PutJson j \<Rightarrow> put_text s k (stringify j) c | _ \<Rightarrow> c"
  have push: "foldl ?f (c\<lparr>saved := sv\<rparr>) entries = (foldl ?f c entries)\<lparr>saved := sv\<rparr>" for sv c
  proof (induction entries arbitrary: c)
    case (Cons e entries)
    obtain k v where e: "e = (k, v)" by force
    have "?f (c\<lparr>saved := sv\<rparr>) e = (?f c e)\<lparr>saved := sv\<rparr>"
      by (cases v) (simp_all add: e put_text_def)
    with Cons.IH[of "?f c e"] show ?case by simp
  qed simp
  have "saved (foldl ?f c entries) = saved c" using foldl_put_text_simps[of s c entries] by simp
  then have same: "(foldl ?f c entries)\<lparr>saved := saved c\<rparr> = foldl ?f c entries"
    by (cases "foldl ?f c entries") simp
  show ?thesis
    using assms
    by (simp add: store_put_entries_def put_loop_ok run_savepoint_def push run_release_def
        newest_savepoint_def same)
qed

lemma store_put_entries_error:
  assumes "\<not> (\<forall>(k, v) \<in> set entries. serializable v)"
  shows "store_put_entries s entries c =
    (Inl (put_error (snd (the (find (\<lambda>e. \<not> serializable (snd e)) entries)))), c)"
proof -
  obtain c' where "put_loop s entries (run_savepoint ''put_batch'' c) =
      (Inl (put_error (snd (the (find (\<lambda>e. \<not> serializable (snd e)) entries)))), c')"
      "begun c' = begun c" "saved c' = (''put_batch'', tables c) # saved c"
    using put_loop_error[OF assms, of s "run_savepoint ''put_batch'' c"] by (auto simp: run_savepoint_def)
  then show ?thesis by (simp add: store_put_entries_def undo_batch_def conn_restored)
qed

lemma store_get_put_fold:
  defines "f \<equiv> \<lambda>s c (k, v). case v of PutJson j \<Rightarrow> put_text s k (stringify j) c | _ \<Rightarrow> c"
  assumes "\<forall>(k, v) \<in> set entries. serializable v \<and> put_wf v"
  shows "store_get s' key (foldl (f s) c entries) =
    (if s' = s \<and> key \<in> fst ` set entries
     then (case map_of (rev entries) key of Some (PutJson j) \<Rightarrow> Inr (Some j) | _ \<Rightarrow> Inr None)
     else store_get s' key c)"
  using assms(2)
proof (induction entries rule: rev_induct)
  case (snoc e entries)
  obtain k j where "e = (k, PutJson j)" "json_wf j"
    using snoc.prems by (cases e; cases "snd e") auto
  then have "store_get s' key (foldl (f s) c (entries @ [e])) =
      (if s' = s \<and> key = k then Inr (Some j) else store_get s' key (foldl (f s) c entries))"
    by (auto simp: f_def store_get_put_text)
  moreover have "store_get s' key (foldl (f s) c entries) =
    (if s' = s \<and> key \<in> fst ` set entries
     then (case map_of (rev entries) key of Some (PutJson j) \<Rightarrow> Inr (Some j) | _ \<Rightarrow> Inr None)
     else store_get s' key c)"
    using snoc by simp
  ultimately show ?case using \<open>e = (k, PutJson j)\<close> by (cases "key = k") simp_all
qed simp

text \<open>
  C13. A write of several entries stores all of them or nothing. When every value is
  serialisable the call succeeds, the object then reads each entry's value under its key, and
  every other key of this and of every other object is as before. When a value is
  \<open>undefined\<close> or makes \<open>JSON.stringify\<close> throw, the call throws the error of the first such
  value, and the connection with its tables, its transaction and its savepoints is exactly
  what it was, inside a transaction and outside.
\<close>

theorem put_entries_all_or_nothing:
  assumes "distinct (map fst entries)" and "\<forall>(k, v) \<in> set entries. put_wf v"
  shows "((\<forall>(k, v) \<in> set entries. serializable v) \<longrightarrow>
      (\<exists>c'. store_put_entries s entries c = (Inr (), c')
        \<and> (\<forall>k j. (k, PutJson j) \<in> set entries \<longrightarrow> store_get s k c' = Inr (Some j))
        \<and> (\<forall>s' k. s' \<noteq> s \<or> k \<notin> fst ` set entries \<longrightarrow> store_get s' k c' = store_get s' k c)))
    \<and> (\<not> (\<forall>(k, v) \<in> set entries. serializable v) \<longrightarrow>
      (\<exists>pre k v post. entries = pre @ (k, v) # post \<and> (\<forall>(k', v') \<in> set pre. serializable v')
        \<and> \<not> serializable v \<and> store_put_entries s entries c = (Inl (put_error v), c)))"
proof (intro conjI impI)
  let ?f = "\<lambda>c (k, v). case v of PutJson j \<Rightarrow> put_text s k (stringify j) c | _ \<Rightarrow> c"
  assume ok: "\<forall>(k, v) \<in> set entries. serializable v"
  with assms(2) have both: "\<forall>(k, v) \<in> set entries. serializable v \<and> put_wf v" by auto
  have map: "map_of (rev entries) k = Some v" if "(k, v) \<in> set entries" for k v
    using that assms(1) by (simp add: rev_map[symmetric])
  show "\<exists>c'. store_put_entries s entries c = (Inr (), c')
    \<and> (\<forall>k j. (k, PutJson j) \<in> set entries \<longrightarrow> store_get s k c' = Inr (Some j))
    \<and> (\<forall>s' k. s' \<noteq> s \<or> k \<notin> fst ` set entries \<longrightarrow> store_get s' k c' = store_get s' k c)"
    by (rule exI[of _ "foldl ?f c entries"])
      (force simp: store_put_entries_ok[OF ok] store_get_put_fold[OF both] dest: map)
next
  assume bad: "\<not> (\<forall>(k, v) \<in> set entries. serializable v)"
  then obtain e where "find (\<lambda>e. \<not> serializable (snd e)) entries = Some e"
    by (cases "find (\<lambda>e. \<not> serializable (snd e)) entries") (auto simp: find_None_iff)
  moreover obtain k v where "e = (k, v)" by force
  ultimately have found: "find (\<lambda>e. \<not> serializable (snd e)) entries = Some (k, v)" by simp
  then obtain i where i: "i < length entries" "entries ! i = (k, v)" "\<not> serializable v"
      "\<forall>j < i. serializable (snd (entries ! j))"
    unfolding find_Some_iff by (metis snd_conv)
  then have "entries = take i entries @ (k, v) # drop (Suc i) entries"
    by (metis id_take_nth_drop)
  moreover have "\<forall>(k', v') \<in> set (take i entries). serializable v'"
    using i by (force simp: in_set_conv_nth)
  ultimately show "\<exists>pre k v post. entries = pre @ (k, v) # post \<and> (\<forall>(k', v') \<in> set pre. serializable v')
    \<and> \<not> serializable v \<and> store_put_entries s entries c = (Inl (put_error v), c)"
    using i(3) store_put_entries_error[OF bad, of s c] found by fastforce
qed

theorem put_entries_all_or_nothing_witness:
  "let c = \<lparr>tables = \<lparr>do_storage = [], do_alarms = []\<rparr>, begun = None, saved = []\<rparr>;
       s = \<lparr>ds_namespace = ''Counter'', ds_id = ''1''\<rparr>;
       entries = [(''a'', PutJson (JNum 1)), (''b'', PutUndefined)]
   in \<exists>pre k v post. entries = pre @ (k, v) # post \<and> store_put_entries s entries c = (Inl (put_error v), c)"
  using put_entries_all_or_nothing[of "[(''a'', PutJson (JNum 1)), (''b'', PutUndefined)]"
      "\<lparr>ds_namespace = ''Counter'', ds_id = ''1''\<rparr>"
      "\<lparr>tables = \<lparr>do_storage = [], do_alarms = []\<rparr>, begun = None, saved = []\<rparr>"]
  unfolding Let_def by (simp, blast)

section \<open>The invariant of the tables\<close>

definition tables_ok :: "do_tables \<Rightarrow> bool" where
  "tables_ok t =
     (keyed_by row_key (do_storage t) \<and> keyed_by alarm_key (do_alarms t)
      \<and> (\<forall>r \<in> set (do_storage t). json_parse (st_value r) \<noteq> None))"

definition conn_ok :: "conn \<Rightarrow> bool" where
  "conn_ok c =
     (tables_ok (tables c) \<and> (\<forall>t \<in> set_option (begun c). tables_ok t)
      \<and> (\<forall>(n, t) \<in> set (saved c). tables_ok t))"

fun op_wf :: "store_op \<Rightarrow> bool" where
  "op_wf (OpPut s k v) = put_wf v"
| "op_wf (OpPutEntries s es) = (\<forall>(k, v) \<in> set es. put_wf v)"
| "op_wf _ = True"

lemma conn_ok_on_storage_delete: "conn_ok c \<Longrightarrow> conn_ok (on_storage (sql_delete P) c)"
  by (auto simp: conn_ok_def tables_ok_def) (simp add: sql_defs keyed_by_filter)

lemma conn_ok_put_text: "conn_ok c \<Longrightarrow> json_wf v \<Longrightarrow> conn_ok (put_text s k (stringify v) c)"
  by (auto simp: conn_ok_def tables_ok_def put_text_def keyed_by_replace json_round_trip)

lemma conn_ok_put_fold:
  defines "f \<equiv> \<lambda>s c (k, v). case v of PutJson j \<Rightarrow> put_text s k (stringify j) c | _ \<Rightarrow> c"
  shows "conn_ok c \<Longrightarrow> \<forall>(k, v) \<in> set entries. put_wf v \<Longrightarrow> conn_ok (foldl (f s) c entries)"
proof (induction entries arbitrary: c)
  case (Cons e entries)
  obtain k v where e: "e = (k, v)" by force
  with Cons.prems have "conn_ok (f s c e)" by (cases v) (auto simp: f_def conn_ok_put_text)
  with Cons e show ?case by simp
qed simp

lemma conn_ok_put_entries:
  assumes "conn_ok c" and "\<forall>(k, v) \<in> set entries. put_wf v"
  shows "conn_ok (snd (store_put_entries s entries c))"
  using store_put_entries_ok[of entries s c] store_put_entries_error[of entries s c]
    conn_ok_put_fold[OF assms, of s] assms(1)
  by (cases "\<forall>(k, v) \<in> set entries. serializable v") simp_all

lemma conn_ok_apply_op: "conn_ok c \<Longrightarrow> op_wf o' \<Longrightarrow> conn_ok (apply_op o' c)"
proof (cases o')
  case (OpPut s k v)
  assume "conn_ok c" "op_wf o'"
  with OpPut show ?thesis by (cases v) (auto simp: store_put_cases conn_ok_put_text)
next
  case (OpSetAlarm s t)
  assume "conn_ok c"
  with OpSetAlarm show ?thesis
    by (auto simp: conn_ok_def tables_ok_def setAlarm_def keyed_by_replace)
next
  case (OpDeleteAlarm s)
  assume "conn_ok c"
  with OpDeleteAlarm show ?thesis
    by (auto simp: conn_ok_def tables_ok_def deleteAlarm_def) (simp add: sql_defs keyed_by_filter)
qed (auto simp: conn_ok_put_entries conn_ok_on_storage_delete store_delete_def store_delete_many_def
    store_deleteAll_def Let_def)

lemma conn_ok_oldest: "conn_ok c \<Longrightarrow> tables_ok (oldest_tables c)"
  by (auto simp: conn_ok_def oldest_tables_def split: option.split dest!: last_in_set)

lemma conn_ok_commands:
  "conn_ok c \<Longrightarrow> run_begin c = Inr c' \<Longrightarrow> conn_ok c'"
  "conn_ok c \<Longrightarrow> run_commit c = Inr c' \<Longrightarrow> conn_ok c'"
  "conn_ok c \<Longrightarrow> run_rollback c = Inr c' \<Longrightarrow> conn_ok c'"
  using conn_ok_oldest[of c]
  by (auto simp: run_begin_def run_commit_def run_rollback_def conn_ok_def split: if_splits)

fun event_wf :: "txn_event \<Rightarrow> bool" where
  "event_wf (TxnOp o') = op_wf o'"
| "event_wf (PlainOp o') = op_wf o'"
| "event_wf _ = True"

lemma txn_conn_unlock [simp]: "txn_conn (unlock r s) = txn_conn s"
  by (simp add: unlock_def)

lemma conn_ok_txn_abort: "conn_ok (txn_conn s) \<Longrightarrow> conn_ok (txn_conn (txn_abort e s))"
  by (auto simp: txn_abort_def intro: conn_ok_commands split: sum.split)

lemma conn_ok_txn_step:
  "conn_ok (txn_conn s) \<Longrightarrow> event_wf ev \<Longrightarrow> conn_ok (txn_conn (txn_step s ev))"
  by (cases ev) (auto simp: conn_ok_txn_abort conn_ok_apply_op intro: conn_ok_commands split: sum.split)

interpretation txns: machine "\<lambda>s ev. if event_wf ev then txn_step s ev else s" "\<lambda>s. conn_ok (txn_conn s)"
  by unfold_locales (simp add: conn_ok_txn_step)

definition idle_txn :: "do_tables \<Rightarrow> txn_state" where
  "idle_txn t =
     \<lparr>txn_conn = \<lparr>tables = t, begun = None, saved = []\<rparr>, txn_waiting = [], txn_running = False,
      txn_results = []\<rparr>"

abbreviation fresh_txn :: txn_state where
  "fresh_txn \<equiv> idle_txn \<lparr>do_storage = [], do_alarms = []\<rparr>"

lemma conn_ok_fresh [simp]: "conn_ok (txn_conn fresh_txn)"
  by (simp add: idle_txn_def conn_ok_def tables_ok_def)

lemma conn_ok_run:
  assumes "\<forall>e \<in> set es. event_wf e"
  shows "conn_ok (txn_conn (foldl txn_step fresh_txn es))"
  using txns.inv_run[OF conn_ok_fresh, of es] by (simp add: foldl_guard[OF assms])

section \<open>Listing\<close>

lemma escape_like_simps [simp]:
  "escape_like [] = []"
  "escape_like (x # xs) = (if x = CHR ''%'' \<or> x = CHR ''_'' then [CHR 0x5C, x] else [x]) @ escape_like xs"
  by (auto simp: escape_like_def replace_char_def)

lemma sql_like_escaped:
  assumes "CHR 0x5C \<notin> set p"
  shows "sql_like (Some (CHR 0x5C)) (escape_like p @ ''%'') k \<longleftrightarrow> prefix (to_lower p) (to_lower k)"
  using assms
proof (induction p arbitrary: k)
  case (Cons x p)
  then show ?case by (cases k) (auto simp: to_lower_def)
qed (simp add: to_lower_def del: sql_like.simps)

lemma decode_rows_ok:
  assumes "\<forall>r \<in> set rows. json_parse (st_value r) \<noteq> None"
  shows "decode_rows rows = Inr (map (\<lambda>r. (st_key r, the (json_parse (st_value r)))) rows)"
  using assms by (induction rows) (auto simp: JSON_parse_def)

lemma store_get_row:
  assumes "tables_ok (tables c)" and "r \<in> set (do_storage (tables c))" and "of_object s r"
  shows "store_get s (st_key r) c = Inr (Some (the (json_parse (st_value r))))"
proof -
  have "at_key s (st_key r) r" using assms(3) by (simp add: at_key_def)
  moreover obtain r' where r': "sql_get (at_key s (st_key r)) (do_storage (tables c)) = Some r'"
    using assms(2) calculation by (cases "sql_get (at_key s (st_key r)) (do_storage (tables c))")
      (auto simp: sql_get_None_iff)
  moreover have "r' = r"
    using sql_get_SomeD[OF r'] calculation(1) assms
    by (auto simp: tables_ok_def at_key_row_key dest: keyed_by_unique)
  ultimately show ?thesis
    using assms by (auto simp: store_get_def JSON_parse_def tables_ok_def)
qed

lemma store_get_None_iff:
  assumes "tables_ok (tables c)"
  shows "store_get s k c = Inr None \<longleftrightarrow> (\<forall>r \<in> set (do_storage (tables c)). \<not> at_key s k r)"
proof (cases "sql_get (at_key s k) (do_storage (tables c))")
  case None
  then have "\<forall>r \<in> set (do_storage (tables c)). \<not> at_key s k r" by (simp add: sql_get_None_iff)
  with None show ?thesis by (simp add: store_get_def)
next
  case (Some r)
  from sql_get_SomeD[OF this] store_get_row[OF assms, of r s] show ?thesis
    by (auto simp: at_key_def)
qed

lemma strict_sorted_keys:
  assumes "distinct ks" and "sorted (map code_units ks)"
  shows "sorted_wrt (<) (map code_units ks)"
proof -
  have "distinct (map code_units ks)"
    using assms(1) by (simp add: distinct_map inj_on_def code_units_eq)
  with assms(2) show ?thesis by (simp add: strict_sorted_iff)
qed

text \<open>
  C14. A listing returns what reading key by key would find. After any interleaving of requests
  and transactions, let \<open>ks\<close> be the keys of the object, in the order of their code units, that
  lie between \<open>start\<close> (or after \<open>startAfter\<close>) and \<open>end\<close> and begin with the prefix up to the
  case of ASCII letters. The listing succeeds, its keys are the first \<open>limit\<close> (1000 when
  absent) of \<open>ks\<close>, or of \<open>ks\<close> reversed, and each comes with the value a read of it returns.
  The prefix contains no backslash: the code does not escape it.
\<close>

theorem durable_list_spec:
  assumes "\<forall>e \<in> set es. event_wf e" and "CHR 0x5C \<notin> set (nullish (lo_prefix opts) '''')"
  defines "c \<equiv> txn_conn (foldl txn_step fresh_txn es)"
  shows "\<exists>ks entries. sorted_wrt (<) (map code_units ks)
    \<and> set ks = {k. store_get s k c \<noteq> Inr None
        \<and> prefix (to_lower (nullish (lo_prefix opts) '''')) (to_lower k)
        \<and> (\<forall>a. lo_startAfter opts = Some a \<and> a \<noteq> '''' \<longrightarrow> code_units a < code_units k)
        \<and> (\<forall>a. lo_startAfter opts \<in> {None, Some ''''} \<and> lo_start opts = Some a \<longrightarrow> code_units a \<le> code_units k)
        \<and> (\<forall>z. lo_end opts = Some z \<and> z \<noteq> '''' \<longrightarrow> code_units k < code_units z)}
    \<and> store_list s opts c = Inr entries
    \<and> map fst entries = sql_limit (nullish (lo_limit opts) 1000)
        (if nullish (lo_reverse opts) False then rev ks else ks)
    \<and> (\<forall>(k, v) \<in> set entries. store_get s k c = Inr (Some v))"
proof -
  have range: "(\<forall>a. lo_startAfter opts = Some a \<and> a \<noteq> '''' \<longrightarrow> code_units a < code_units k)
        \<and> (\<forall>a. lo_startAfter opts \<in> {None, Some ''''} \<and> lo_start opts = Some a \<longrightarrow> code_units a \<le> code_units k)
        \<and> (\<forall>z. lo_end opts = Some z \<and> z \<noteq> '''' \<longrightarrow> code_units k < code_units z)
      \<longleftrightarrow> list_start_cond opts k \<and> list_end_cond opts k" for k
    by (cases "lo_startAfter opts"; cases "lo_start opts"; cases "lo_end opts")
      (auto simp: list_start_cond_def list_end_cond_def truthy_def code_units_def)
  have ok: "tables_ok (tables c)" using conn_ok_run[OF assms(1)] by (simp add: c_def conn_ok_def)
  let ?T = "do_storage (tables c)"
  let ?P = "\<lambda>r. of_object s r \<and> list_prefix_cond opts (st_key r)
    \<and> list_start_cond opts (st_key r) \<and> list_end_cond opts (st_key r)"
  define rows where "rows = sort_key (\<lambda>r. code_units (st_key r)) (sql_select ?P ?T)"
  define ks where "ks = map st_key rows"
  define out where "out = list_rows s opts c"
  have pfx: "list_prefix_cond opts k \<longleftrightarrow> prefix (to_lower (nullish (lo_prefix opts) '''')) (to_lower k)" for k
    unfolding list_prefix_cond_def Let_def sql_like_escaped[OF assms(2)] by (auto simp: to_lower_def)
  have out: "map st_key out = sql_limit (nullish (lo_limit opts) 1000)
      (if nullish (lo_reverse opts) False then rev ks else ks)"
    by (simp add: out_def list_rows_def rows_def ks_def Let_def sql_limit_def take_map rev_map)
  have sub: "set out \<subseteq> {r \<in> set ?T. ?P r}"
    by (auto simp: out_def list_rows_def Let_def sql_limit_def dest!: in_set_takeD)
  have "distinct (map st_key (filter ?P ?T))"
    using ok by (auto simp: tables_ok_def distinct_map inj_on_def row_key_def of_object_def)
  then have "distinct ks"
    by (simp add: ks_def rows_def sql_defs distinct_map)
  moreover have "sorted (map code_units ks)"
    by (simp add: ks_def rows_def comp_def)
  ultimately have "sorted_wrt (<) (map code_units ks)" by (rule strict_sorted_keys)
  moreover have "set ks = {k. store_get s k c \<noteq> Inr None
        \<and> prefix (to_lower (nullish (lo_prefix opts) '''')) (to_lower k)
        \<and> list_start_cond opts k \<and> list_end_cond opts k}"
    by (auto simp: ks_def rows_def store_get_None_iff[OF ok] at_key_def pfx)
  moreover have "store_list s opts c = Inr (map (\<lambda>r. (st_key r, the (json_parse (st_value r)))) out)"
    unfolding store_list_def out_def[symmetric]
    by (rule decode_rows_ok) (use sub ok in \<open>auto simp: tables_ok_def\<close>)
  moreover have "\<forall>(k, v) \<in> set (map (\<lambda>r. (st_key r, the (json_parse (st_value r)))) out).
      store_get s k c = Inr (Some v)"
    using sub store_get_row[OF ok] by auto
  ultimately have "sorted_wrt (<) (map code_units ks)
    \<and> set ks = {k. store_get s k c \<noteq> Inr None
        \<and> prefix (to_lower (nullish (lo_prefix opts) '''')) (to_lower k)
        \<and> list_start_cond opts k \<and> list_end_cond opts k}
    \<and> store_list s opts c = Inr (map (\<lambda>r. (st_key r, the (json_parse (st_value r)))) out)
    \<and> map fst (map (\<lambda>r. (st_key r, the (json_parse (st_value r)))) out) =
        sql_limit (nullish (lo_limit opts) 1000)
        (if nullish (lo_reverse opts) False then rev ks else ks)
    \<and> (\<forall>(k, v) \<in> set (map (\<lambda>r. (st_key r, the (json_parse (st_value r)))) out).
          store_get s k c = Inr (Some v))"
    by (intro conjI) (simp_all only: map_map comp_def fst_conv out)
  then show ?thesis unfolding range by (intro exI)
qed

theorem durable_list_spec_witness:
  "let s = \<lparr>ds_namespace = ''N'', ds_id = ''1''\<rparr>;
       es = [TxnCall 1, TxnResume, TxnOp (OpPut s ''b'' (PutJson (JNum 2))),
             TxnOp (OpPut s ''a'' (PutJson (JNum 1))), TxnReturn];
       opts = \<lparr>lo_prefix = None, lo_start = None, lo_startAfter = None, lo_end = None,
               lo_limit = Some 1, lo_reverse = None\<rparr>;
       c = txn_conn (foldl txn_step fresh_txn es)
   in \<exists>entries. store_list s opts c = Inr entries \<and> length entries \<le> 1
        \<and> (\<forall>(k, v) \<in> set entries. store_get s k c = Inr (Some v))"
proof -
  define s where "s = \<lparr>ds_namespace = ''N'', ds_id = ''1''\<rparr>"
  define es where "es = [TxnCall 1, TxnResume, TxnOp (OpPut s ''b'' (PutJson (JNum 2))),
             TxnOp (OpPut s ''a'' (PutJson (JNum 1))), TxnReturn]"
  define opts where "opts = \<lparr>lo_prefix = None, lo_start = None, lo_startAfter = None, lo_end = None,
               lo_limit = Some 1, lo_reverse = None\<rparr>"
  have "\<forall>e \<in> set es. event_wf e" by (simp add: es_def)
  moreover have "CHR 0x5C \<notin> set (nullish (lo_prefix opts) '''')" by (simp add: opts_def)
  ultimately obtain ks entries where "store_list s opts (txn_conn (foldl txn_step fresh_txn es)) = Inr entries"
      and len: "map fst entries = sql_limit (nullish (lo_limit opts) 1000)
        (if nullish (lo_reverse opts) False then rev ks else ks)"
      and "\<forall>(k, v) \<in> set entries. store_get s k (txn_conn (foldl txn_step fresh_txn es)) = Inr (Some v)"
    using durable_list_spec[of es opts s] by blast
  moreover have "length entries \<le> 1"
    using arg_cong[OF len, of length] by (simp add: opts_def sql_limit_def)
  ultimately show ?thesis by (auto simp: s_def es_def opts_def)
qed

text \<open>The two ways in which a prefix selects other keys than the ones it begins.\<close>

lemma prefix_ignores_case:
  "list_prefix_cond
     \<lparr>lo_prefix = Some ''user:'', lo_start = None, lo_startAfter = None, lo_end = None,
      lo_limit = None, lo_reverse = None\<rparr> ''User:1''"
  by code_simp

lemma prefix_with_backslash_selects_nothing:
  "\<not> list_prefix_cond
     \<lparr>lo_prefix = Some [CHR ''a'', CHR 0x5C], lo_start = None, lo_startAfter = None, lo_end = None,
      lo_limit = None, lo_reverse = None\<rparr> [CHR ''a'', CHR 0x5C, CHR ''b'']"
  by code_simp

section \<open>Transactions as serial blocks\<close>

text \<open>
  The specification: the calls of a transaction are collected and executed as one block when
  it returns; a closure that throws leaves no trace.
\<close>

record serial =
  ser_conn :: conn
  ser_waiting :: "nat list"
  ser_ops :: "store_op list option"
  ser_results :: "(nat \<times> (do_error, unit) res) list"

definition ser_end :: "conn \<Rightarrow> (do_error, unit) res \<Rightarrow> serial \<Rightarrow> serial" where
  "ser_end c r a =
     a\<lparr>ser_conn := c, ser_results := ser_results a @ [(hd (ser_waiting a), r)],
       ser_waiting := tl (ser_waiting a), ser_ops := None\<rparr>"

fun serial_step :: "serial \<Rightarrow> txn_event \<Rightarrow> serial" where
  "serial_step a (TxnCall t) = a\<lparr>ser_waiting := ser_waiting a @ [t]\<rparr>"
| "serial_step a TxnResume =
     (if ser_ops a = None \<and> ser_waiting a \<noteq> [] then a\<lparr>ser_ops := Some []\<rparr> else a)"
| "serial_step a (TxnOp o') = a\<lparr>ser_ops := map_option (\<lambda>ops. ops @ [o']) (ser_ops a)\<rparr>"
| "serial_step a TxnReturn =
     (case ser_ops a of
        None \<Rightarrow> a
      | Some ops \<Rightarrow> ser_end (foldl (\<lambda>c o'. apply_op o' c) (ser_conn a) ops) (Inr ()) a)"
| "serial_step a (TxnThrow e) =
     (case ser_ops a of None \<Rightarrow> a | Some ops \<Rightarrow> ser_end (ser_conn a) (Inl (ClosureThrew e)) a)"
| "serial_step a (PlainOp o') = a\<lparr>ser_conn := apply_op o' (ser_conn a)\<rparr>"

definition serial_start :: "do_tables \<Rightarrow> serial" where
  "serial_start t =
     \<lparr>ser_conn = \<lparr>tables = t, begun = None, saved = []\<rparr>, ser_waiting = [], ser_ops = None, ser_results = []\<rparr>"

text \<open>No request writes outside a transaction while one is open.\<close>

fun no_write_beside :: "txn_state \<Rightarrow> txn_event list \<Rightarrow> bool" where
  "no_write_beside s [] = True"
| "no_write_beside s (e # es) =
     ((case e of PlainOp _ \<Rightarrow> \<not> txn_running s | _ \<Rightarrow> True) \<and> no_write_beside (txn_step s e) es)"

lemma apply_op_frame:
  "apply_op o' (c\<lparr>begun := b\<rparr>) = (apply_op o' c)\<lparr>begun := b\<rparr>"
  "begun (apply_op o' c) = begun c" "saved (apply_op o' c) = saved c"
proof -
  have texts: "put_text s k str (c\<lparr>begun := b\<rparr>) = (put_text s k str c)\<lparr>begun := b\<rparr>" for s k str c
    by (cases c) (simp add: put_text_def)
  have fold: "foldl (\<lambda>c (k, v). case v of PutJson j \<Rightarrow> put_text s k (stringify j) c | _ \<Rightarrow> c) (c\<lparr>begun := b\<rparr>) es =
      (foldl (\<lambda>c (k, v). case v of PutJson j \<Rightarrow> put_text s k (stringify j) c | _ \<Rightarrow> c) c es)\<lparr>begun := b\<rparr>" for s es c
  proof (induction es arbitrary: c)
    case (Cons e es)
    obtain k v where "e = (k, v)" by force
    with Cons show ?case by (cases v) (simp_all add: texts)
  qed simp
  have entries: "snd (store_put_entries s es (c\<lparr>begun := b\<rparr>)) = (snd (store_put_entries s es c))\<lparr>begun := b\<rparr>"
    "begun (snd (store_put_entries s es c)) = begun c" "saved (snd (store_put_entries s es c)) = saved c" for s es
    using foldl_put_text_simps[of s c es]
    by (cases "\<forall>(k, v) \<in> set es. serializable v";
        simp add: store_put_entries_ok store_put_entries_error fold)+
  have put: "snd (store_put s k v (c\<lparr>begun := b\<rparr>)) = (snd (store_put s k v c))\<lparr>begun := b\<rparr>"
    "begun (snd (store_put s k v c)) = begun c" "saved (snd (store_put s k v c)) = saved c" for s k v
    by (cases v; simp add: store_put_cases texts)+
  show "apply_op o' (c\<lparr>begun := b\<rparr>) = (apply_op o' c)\<lparr>begun := b\<rparr>"
    "begun (apply_op o' c) = begun c" "saved (apply_op o' c) = saved c"
    by (cases o'; simp add: entries put store_delete_def store_delete_many_def store_deleteAll_def
        setAlarm_def deleteAlarm_def Let_def)+
qed

lemma apply_ops_frame:
  "foldl (\<lambda>c o'. apply_op o' c) (c\<lparr>begun := b\<rparr>) ops = (foldl (\<lambda>c o'. apply_op o' c) c ops)\<lparr>begun := b\<rparr>"
  "begun (foldl (\<lambda>c o'. apply_op o' c) c ops) = begun c"
  "saved (foldl (\<lambda>c o'. apply_op o' c) c ops) = saved c"
  by (induction ops arbitrary: c) (simp_all add: apply_op_frame)

definition refines :: "txn_state \<Rightarrow> serial \<Rightarrow> bool" where
  "refines s a =
     (txn_waiting s = ser_waiting a \<and> txn_results s = ser_results a
      \<and> begun (ser_conn a) = None \<and> saved (ser_conn a) = []
      \<and> (case ser_ops a of
           None \<Rightarrow> \<not> txn_running s \<and> txn_conn s = ser_conn a
         | Some ops \<Rightarrow> txn_running s
             \<and> txn_conn s = (foldl (\<lambda>c o'. apply_op o' c) (ser_conn a) ops)\<lparr>begun := Some (tables (ser_conn a))\<rparr>))"

lemma refines_step:
  assumes "refines s a" and "case e of PlainOp _ \<Rightarrow> \<not> txn_running s | _ \<Rightarrow> True"
  shows "refines (txn_step s e) (serial_step a e)"
proof (cases "ser_ops a")
  case None
  with assms show ?thesis
    by (cases e) (auto simp: refines_def run_begin_def apply_op_frame)
next
  case (Some ops)
  let ?c = "foldl (\<lambda>c o'. apply_op o' c) (ser_conn a) ops"
  have eq: "?c\<lparr>begun := None, saved := []\<rparr> = ?c"
    "(ser_conn a)\<lparr>begun := None, saved := []\<rparr> = ser_conn a"
    "?c\<lparr>tables := tables (ser_conn a), begun := None, saved := []\<rparr> = ser_conn a"
    using assms(1) apply_ops_frame(2,3)[of "ser_conn a" ops] unfolding refines_def
    by (cases ?c; cases "ser_conn a"; simp)+
  from Some assms show ?thesis
    by (cases e) (simp_all add: refines_def apply_op_frame apply_ops_frame run_commit_def run_rollback_def
        txn_abort_def unlock_def ser_end_def oldest_tables_def eq)
qed

lemma refines_run:
  "refines s a \<Longrightarrow> no_write_beside s es \<Longrightarrow> refines (foldl txn_step s es) (foldl serial_step a es)"
  by (induction es arbitrary: s a) (auto simp: refines_step)

text \<open>
  C8. Transactions are serial. For every interleaving of any number of callers in which nobody
  writes outside a transaction while one is open, the calls end in the order they were made,
  each with the result the serial specification gives it (the closure's own error, or
  success: \<open>BEGIN\<close>, \<open>COMMIT\<close> and \<open>ROLLBACK\<close> never fail); between transactions the tables are
  those of the serial execution of the committed closures, and during one the tables at its
  \<open>BEGIN\<close> are.
\<close>

theorem transactions_serial:
  assumes "no_write_beside (idle_txn t) es"
  defines "s \<equiv> foldl txn_step (idle_txn t) es" and "a \<equiv> foldl serial_step (serial_start t) es"
  shows "txn_results s = ser_results a \<and> txn_waiting s = ser_waiting a
    \<and> (if txn_running s then begun (txn_conn s) = Some (tables (ser_conn a))
       else txn_conn s = ser_conn a)"
proof -
  have "refines (idle_txn t) (serial_start t)"
    by (simp add: refines_def idle_txn_def serial_start_def)
  from refines_run[OF this assms(1)] show ?thesis
    by (auto simp: refines_def s_def a_def split: option.splits)
qed

theorem transactions_serial_witness:
  "let s = \<lparr>ds_namespace = ''N'', ds_id = ''1''\<rparr>; t = \<lparr>do_storage = [], do_alarms = []\<rparr>;
       es = [TxnCall 1, TxnCall 2, TxnResume, TxnOp (OpPut s ''a'' (PutJson JNull)), TxnThrow ''e'',
             TxnResume, TxnOp (OpPut s ''b'' (PutJson JNull)), TxnReturn]
   in txn_results (foldl txn_step (idle_txn t) es) = [(1, Inl (ClosureThrew ''e'')), (2, Inr ())]"
proof -
  have "no_write_beside (idle_txn \<lparr>do_storage = [], do_alarms = []\<rparr>)
      [TxnCall 1, TxnCall 2, TxnResume,
       TxnOp (OpPut \<lparr>ds_namespace = ''N'', ds_id = ''1''\<rparr> ''a'' (PutJson JNull)), TxnThrow ''e'',
       TxnResume, TxnOp (OpPut \<lparr>ds_namespace = ''N'', ds_id = ''1''\<rparr> ''b'' (PutJson JNull)), TxnReturn]"
    by simp
  from transactions_serial[OF this] show ?thesis
    by (simp add: serial_start_def ser_end_def)
qed

text \<open>
  Without that condition a write is lost: all objects share the connection, so what a request
  writes while the transaction of another one is open is rolled back with it.
\<close>

lemma write_beside_transaction_lost:
  "txn_conn (foldl txn_step (idle_txn t) [TxnCall n, TxnResume, PlainOp o', TxnThrow e]) = txn_conn (idle_txn t)"
  by (simp add: idle_txn_def run_begin_def txn_abort_def run_rollback_def oldest_tables_def apply_op_frame)

text \<open>\<open>transactionSync\<close>: all of the callback's calls or none, and an error inside another transaction.\<close>

lemma transactionSync_result:
  "transactionSync ops outcome c =
   (if in_transaction c then (Inl NestedTransaction, c)
    else (case outcome of
            Inl e \<Rightarrow> (Inl e, c)
          | Inr a \<Rightarrow> (Inr a, foldl (\<lambda>c o'. apply_op o' c) c ops)))"
proof -
  have "(foldl (\<lambda>c o'. apply_op o' c) c ops)\<lparr>begun := None, saved := []\<rparr> = foldl (\<lambda>c o'. apply_op o' c) c ops"
    "(foldl (\<lambda>c o'. apply_op o' c) c ops)\<lparr>tables := tables c, begun := None, saved := []\<rparr> = c"
    if "begun c = None" "saved c = []"
    using that apply_ops_frame(2,3)[of c ops]
    by (cases "foldl (\<lambda>c o'. apply_op o' c) c ops"; cases c; simp)+
  then show ?thesis
    by (auto simp: transactionSync_def run_begin_def run_commit_def run_rollback_def apply_ops_frame
        oldest_tables_def Let_def split: sum.split)
qed

end
