(* ===== verification/DurableState.thy ===== *)
theory DurableState
  imports Contracts
begin

text \<open>
  The state object of a Durable Object, \<open>DurableObjectStateImpl\<close> of
  \<^verbatim>\<open>src/bindings/durable-object.ts\<close>: the gate of \<open>blockConcurrencyWhile\<close>, the counter of
  active requests, \<open>abort\<close>, and the WebSockets an object has accepted. The asynchronous
  methods are split at their \<open>await\<close>s; the events of a run say whose continuation is executed.
\<close>

section \<open>State\<close>

record do_limits =
  maxTagsPerWebSocket :: nat
  maxTagLength :: nat
  maxConcurrentWebSockets :: nat
  maxAutoResponseLength :: nat
  evictionTimeoutMs :: int

definition DO_DEFAULTS :: do_limits where
  "DO_DEFAULTS =
     \<lparr>maxTagsPerWebSocket = 10, maxTagLength = 256, maxConcurrentWebSockets = 32768,
      maxAutoResponseLength = 2048, evictionTimeoutMs = 120000\<rparr>"

record ws_pair =
  wp_request :: string
  wp_response :: string

text \<open>An accepted WebSocket; \<open>aw_entry\<close> is the identity of the entry object in the set.\<close>

record accepted_ws =
  aw_entry :: nat
  aw_ws :: nat
  aw_tags :: "string list"
  aw_time :: "int option"

text \<open>How far a call of \<open>_enter\<close> is: it awaits a gate's promise, it has passed
  \<open>_waitForReady\<close>, it runs, it was rejected with a message, it has left.\<close>

datatype phase = Waiting nat | Passed | Entered | Rejected string | Left

record do_state =
  gate :: "nat option" \<comment> \<open>\<open>_concurrencyGate\<close>, a promise or null\<close>
  promises :: nat \<comment> \<open>the promises created so far are those below\<close>
  resolved :: "nat list"
  open_blocks :: "nat list" \<comment> \<open>callbacks that have not settled\<close>
  requests :: "phase list"
  activeRequests :: int
  aborted :: bool
  abortReason :: "string option"
  acceptedWebSockets :: "accepted_ws list"
  next_entry :: nat
  autoResponsePair :: "ws_pair option"
  hibernatableTimeout :: "int option"
  state_limits :: do_limits

definition new_state :: "do_limits \<Rightarrow> do_state" where
  "new_state lims =
     \<lparr>gate = None, promises = 0, resolved = [], open_blocks = [], requests = [], activeRequests = 0,
      aborted = False, abortReason = None, acceptedWebSockets = [], next_entry = 0,
      autoResponsePair = None, hibernatableTimeout = None, state_limits = lims\<rparr>"

section \<open>Gate and requests\<close>

text \<open>
  \<open>blockConcurrencyWhile\<close>: the promise and the call of the callback, then its \<open>finally\<close>. A
  callback that throws before it returns a promise skips the \<open>finally\<close>.
\<close>

definition block_begin :: "do_state \<Rightarrow> do_state" where
  "block_begin st =
     st\<lparr>gate := Some (promises st), promises := Suc (promises st),
        open_blocks := promises st # open_blocks st\<rparr>"

definition block_end :: "nat \<Rightarrow> do_state \<Rightarrow> do_state" where
  "block_end p st =
     st\<lparr>gate := None, resolved := p # resolved st, open_blocks := remove1 p (open_blocks st)\<rparr>"

definition block_throw :: "do_state \<Rightarrow> do_state" where
  "block_throw st = st\<lparr>gate := Some (promises st), promises := Suc (promises st)\<rparr>"

definition isBlocked :: "do_state \<Rightarrow> bool" where "isBlocked st = (gate st \<noteq> None)"

definition hasActiveRequests :: "do_state \<Rightarrow> bool" where
  "hasActiveRequests st = (0 < activeRequests st)"

text \<open>The loop of \<open>_waitForReady\<close> from its condition to the next \<open>await\<close>.\<close>

definition wait_for_ready :: "do_state \<Rightarrow> phase" where
  "wait_for_ready st = (case gate st of Some p \<Rightarrow> Waiting p | None \<Rightarrow> Passed)"

definition abort_error :: "do_state \<Rightarrow> string" where
  "abort_error st = nullish (abortReason st) ''Durable Object has been aborted''"

text \<open>\<open>_enter\<close>: up to the first \<open>await\<close>, when a gate's promise resolves, and after \<open>_waitForReady\<close>.\<close>

definition enter_begin :: "do_state \<Rightarrow> do_state" where
  "enter_begin st =
     st\<lparr>requests := requests st @
          [if aborted st then Rejected (abort_error st) else wait_for_ready st]\<rparr>"

definition enter_wake :: "nat \<Rightarrow> do_state \<Rightarrow> do_state" where
  "enter_wake i st =
     (if i < length (requests st) then
        (case requests st ! i of
           Waiting p \<Rightarrow>
             if p \<in> set (resolved st) then st\<lparr>requests := (requests st)[i := wait_for_ready st]\<rparr> else st
         | _ \<Rightarrow> st)
      else st)"

definition enter_finish :: "nat \<Rightarrow> do_state \<Rightarrow> do_state" where
  "enter_finish i st =
     (if i < length (requests st) \<and> requests st ! i = Passed then
        (if aborted st then st\<lparr>requests := (requests st)[i := Rejected (abort_error st)]\<rparr>
         else st\<lparr>requests := (requests st)[i := Entered], activeRequests := activeRequests st + 1\<rparr>)
      else st)"

text \<open>The executor calls \<open>_exit\<close> once for each request that has entered, in a \<open>finally\<close>.\<close>

definition exit_request :: "nat \<Rightarrow> do_state \<Rightarrow> do_state" where
  "exit_request i st =
     (if i < length (requests st) \<and> requests st ! i = Entered then
        st\<lparr>requests := (requests st)[i := Left], activeRequests := activeRequests st - 1\<rparr>
      else st)"

definition abort_object :: "string option \<Rightarrow> do_state \<Rightarrow> do_state" where
  "abort_object reason st =
     st\<lparr>aborted := True, abortReason := Some (nullish reason ''Durable Object reset by abort()'')\<rparr>"

datatype gate_event =
    EnterBegin
  | EnterWake nat
  | EnterFinish nat
  | Exit nat
  | BlockBegin
  | BlockEnd nat
  | BlockThrow
  | Abort "string option"

fun gate_step :: "do_state \<Rightarrow> gate_event \<Rightarrow> do_state" where
  "gate_step st EnterBegin = enter_begin st"
| "gate_step st (EnterWake i) = enter_wake i st"
| "gate_step st (EnterFinish i) = enter_finish i st"
| "gate_step st (Exit i) = exit_request i st"
| "gate_step st BlockBegin = block_begin st"
| "gate_step st (BlockEnd p) = (if p \<in> set (open_blocks st) then block_end p st else st)"
| "gate_step st BlockThrow = block_throw st"
| "gate_step st (Abort r) = abort_object r st"

section \<open>WebSockets\<close>

datatype ws_error =
    TooManyTags nat
  | TagTooLong nat
  | TooManyWebSockets nat
  | AutoRequestTooLong nat
  | AutoResponseTooLong nat

definition acceptWebSocket ::
    "nat \<Rightarrow> string list option \<Rightarrow> do_state \<Rightarrow> (ws_error, do_state) res" where
  "acceptWebSocket ws tags st =
     (let tagList = nullish tags [];
          lims = state_limits st
      in if maxTagsPerWebSocket lims < length tagList then Inl (TooManyTags (maxTagsPerWebSocket lims))
         else if \<exists>tag \<in> set tagList. maxTagLength lims < length tag then Inl (TagTooLong (maxTagLength lims))
         else if maxConcurrentWebSockets lims \<le> length (acceptedWebSockets st)
         then Inl (TooManyWebSockets (maxConcurrentWebSockets lims))
         else Inr (st\<lparr>acceptedWebSockets := acceptedWebSockets st @
                        [\<lparr>aw_entry = next_entry st, aw_ws = ws, aw_tags = tagList, aw_time = None\<rparr>],
                      next_entry := Suc (next_entry st)\<rparr>))"

datatype ws_data = WsText string | WsBytes string

datatype ws_action =
    SendText nat string \<comment> \<open>\<open>ws.send(...)\<close>\<close>
  | CallMessage nat ws_data \<comment> \<open>\<open>webSocketMessage\<close> of the instance\<close>
  | CallClose nat
  | CallError nat

text \<open>The listeners of an entry; \<open>handler\<close>: the instance exists and has the method.\<close>

definition on_message ::
    "bool \<Rightarrow> int \<Rightarrow> nat \<Rightarrow> nat \<Rightarrow> ws_data \<Rightarrow> do_state \<Rightarrow> ws_action list \<times> do_state" where
  "on_message handler now ws entry message st =
     (let pass_on = (if handler then [CallMessage ws message] else [], st)
      in case autoResponsePair st of
           None \<Rightarrow> pass_on
         | Some pair \<Rightarrow>
             if message = WsText (wp_request pair)
             then ([SendText ws (wp_response pair)],
                   st\<lparr>acceptedWebSockets :=
                        map (\<lambda>e. if aw_entry e = entry then e\<lparr>aw_time := Some now\<rparr> else e)
                          (acceptedWebSockets st)\<rparr>)
             else pass_on)"

definition on_close :: "bool \<Rightarrow> nat \<Rightarrow> nat \<Rightarrow> do_state \<Rightarrow> ws_action list \<times> do_state" where
  "on_close handler ws entry st =
     (if handler then [CallClose ws] else [],
      st\<lparr>acceptedWebSockets := filter (\<lambda>e. aw_entry e \<noteq> entry) (acceptedWebSockets st)\<rparr>)"

definition on_error :: "bool \<Rightarrow> nat \<Rightarrow> ws_action list" where
  "on_error handler ws = (if handler then [CallError ws] else [])"

definition getWebSockets :: "string option \<Rightarrow> do_state \<Rightarrow> nat list" where
  "getWebSockets tag st =
     map aw_ws (filter (\<lambda>e. case tag of None \<Rightarrow> True | Some t \<Rightarrow> t \<in> set (aw_tags e)) (acceptedWebSockets st))"

definition getTags :: "nat \<Rightarrow> do_state \<Rightarrow> string list" where
  "getTags ws st =
     (case find (\<lambda>e. aw_ws e = ws) (acceptedWebSockets st) of None \<Rightarrow> [] | Some e \<Rightarrow> aw_tags e)"

definition setWebSocketAutoResponse :: "ws_pair option \<Rightarrow> do_state \<Rightarrow> (ws_error, do_state) res" where
  "setWebSocketAutoResponse pair st =
     (let m = maxAutoResponseLength (state_limits st)
      in case pair of
           None \<Rightarrow> Inr (st\<lparr>autoResponsePair := None\<rparr>)
         | Some p \<Rightarrow>
             if m < length (wp_request p) then Inl (AutoRequestTooLong m)
             else if m < length (wp_response p) then Inl (AutoResponseTooLong m)
             else Inr (st\<lparr>autoResponsePair := Some p\<rparr>))"

definition getWebSocketAutoResponse :: "do_state \<Rightarrow> ws_pair option" where
  "getWebSocketAutoResponse st = autoResponsePair st"

definition getWebSocketAutoResponseTimestamp :: "nat \<Rightarrow> do_state \<Rightarrow> int option" where
  "getWebSocketAutoResponseTimestamp ws st =
     (case find (\<lambda>e. aw_ws e = ws) (acceptedWebSockets st) of None \<Rightarrow> None | Some e \<Rightarrow> aw_time e)"

definition setHibernatableWebSocketEventTimeout :: "int option \<Rightarrow> do_state \<Rightarrow> do_state" where
  "setHibernatableWebSocketEventTimeout ms st = st\<lparr>hibernatableTimeout := ms\<rparr>"

section \<open>Laws of the gate\<close>

lemma count_list_update:
  assumes "i < length xs"
  shows "int (length (filter P (xs[i := x]))) =
    int (length (filter P xs)) - (if P (xs ! i) then 1 else 0) + (if P x then 1 else 0)"
proof -
  have "filter P xs = filter P (take i xs) @ filter P [xs ! i] @ filter P (drop (Suc i) xs)"
    by (subst id_take_nth_drop[OF assms]) simp
  moreover have "filter P (xs[i := x]) = filter P (take i xs) @ filter P [x] @ filter P (drop (Suc i) xs)"
    using assms by (simp add: upd_conv_take_nth_drop)
  ultimately show ?thesis by simp
qed

definition gate_inv :: "do_state \<Rightarrow> bool" where
  "gate_inv st =
     (activeRequests st = int (length (filter (\<lambda>r. r = Entered) (requests st)))
      \<and> set (resolved st) \<union> set (open_blocks st) = {p. p < promises st}
      \<and> set (resolved st) \<inter> set (open_blocks st) = {}
      \<and> (\<forall>p. gate st = Some p \<longrightarrow> p \<in> set (open_blocks st))
      \<and> (\<forall>p. Waiting p \<in> set (requests st) \<longrightarrow> p < promises st)
      \<and> distinct (open_blocks st))"

lemma wait_for_ready_cases:
  "wait_for_ready st = Entered \<longleftrightarrow> False"
  "wait_for_ready st = Waiting p \<longleftrightarrow> gate st = Some p"
  "Waiting p = wait_for_ready st \<longleftrightarrow> gate st = Some p"
  "Entered = wait_for_ready st \<longleftrightarrow> False"
  by (auto simp: wait_for_ready_def split: option.split)

lemma gate_inv_step: "gate_inv st \<Longrightarrow> e \<noteq> BlockThrow \<Longrightarrow> gate_inv (gate_step st e)"
proof (cases e)
  case EnterBegin
  assume "gate_inv st"
  with EnterBegin show ?thesis
    by (auto simp: gate_inv_def enter_begin_def wait_for_ready_cases)
next
  case (EnterWake i)
  assume "gate_inv st"
  with EnterWake show ?thesis
    by (auto simp: gate_inv_def enter_wake_def wait_for_ready_cases count_list_update
        dest!: set_update_subset_insert[THEN subsetD] split: phase.split)
next
  case (EnterFinish i)
  assume "gate_inv st"
  with EnterFinish show ?thesis
    by (auto simp: gate_inv_def enter_finish_def count_list_update
        dest!: set_update_subset_insert[THEN subsetD])
next
  case (Exit i)
  assume "gate_inv st"
  with Exit show ?thesis
    by (auto simp: gate_inv_def exit_request_def count_list_update
        dest!: set_update_subset_insert[THEN subsetD])
next
  case BlockBegin
  assume "gate_inv st"
  with BlockBegin show ?thesis
    by (auto simp: gate_inv_def block_begin_def less_Suc_eq)
next
  case (BlockEnd p)
  assume "gate_inv st"
  with BlockEnd show ?thesis
    by (auto simp: gate_inv_def block_end_def)
qed (auto simp: gate_inv_def abort_object_def)

interpretation gates: machine "\<lambda>st e. if e \<noteq> BlockThrow then gate_step st e else st" gate_inv
  by unfold_locales (simp add: gate_inv_step)

lemma gate_inv_run:
  assumes "BlockThrow \<notin> set es"
  shows "gate_inv (foldl gate_step (new_state lims) es)"
proof -
  have "gate_inv (new_state lims)" by (simp add: gate_inv_def new_state_def)
  have "\<forall>e \<in> set es. e \<noteq> BlockThrow" using assms by auto
  from foldl_guard[OF this, of gate_step "new_state lims"] show ?thesis
    using gates.inv_run[OF \<open>gate_inv (new_state lims)\<close>, of es] by simp
qed

text \<open>The requests a block holds back: those that wait at its start and those that come later.\<close>

definition held :: "phase \<Rightarrow> bool" where
  "held r = (case r of Waiting _ \<Rightarrow> True | Rejected _ \<Rightarrow> True | _ \<Rightarrow> False)"

definition held_since :: "do_state \<Rightarrow> do_state \<Rightarrow> bool" where
  "held_since s s' =
     (length (requests s) \<le> length (requests s')
      \<and> (\<forall>i < length (requests s'). (i < length (requests s) \<longrightarrow> held (requests s ! i)) \<longrightarrow> held (requests s' ! i)))"

lemma held_since_step:
  assumes "held_since s s'" and "open_blocks s' = [p]" and "gate s' = Some p"
    and "e \<notin> {BlockBegin, BlockThrow, BlockEnd p}"
  shows "held_since s (gate_step s' e) \<and> open_blocks (gate_step s' e) = [p] \<and> gate (gate_step s' e) = Some p"
proof (cases e)
  case EnterBegin
  with assms show ?thesis
    by (auto simp: enter_begin_def held_since_def nth_append wait_for_ready_def held_def)
next
  case (EnterWake i)
  with assms show ?thesis
    by (auto simp: enter_wake_def held_since_def nth_list_update wait_for_ready_def held_def split: phase.split)
next
  case (EnterFinish i)
  with assms show ?thesis
    by (auto simp: enter_finish_def held_since_def nth_list_update held_def)
next
  case (Exit i)
  with assms show ?thesis
    by (auto simp: exit_request_def held_since_def nth_list_update held_def)
next
  case (BlockEnd p')
  with assms show ?thesis by auto
next
  case (Abort r)
  with assms show ?thesis by (simp add: abort_object_def held_since_def)
qed (use assms in auto)

lemma held_since_run:
  assumes "held_since s s'" and "open_blocks s' = [p]" and "gate s' = Some p"
    and "\<forall>e \<in> set es. e \<notin> {BlockBegin, BlockThrow, BlockEnd p}"
  shows "held_since s (foldl gate_step s' es)"
  using assms
proof (induction es arbitrary: s')
  case (Cons e es)
  then have "held_since s (gate_step s' e) \<and> open_blocks (gate_step s' e) = [p] \<and> gate (gate_step s' e) = Some p"
    by (intro held_since_step) simp_all
  with Cons show ?case by simp
qed simp

text \<open>
  C15. The gate of \<open>blockConcurrencyWhile\<close>, for every interleaving of requests, blocks and
  aborts with callbacks that return a promise. While a single block runs, with no other block
  begun before it ends, no request that was waiting at its start or arrives during it enters
  the object: it keeps waiting or is rejected. (A second block opens the gate when the first
  ends, \<open>overlapping_blocks_open_gate\<close>; a callback that throws at once closes it for ever,
  \<open>throwing_callback_closes_gate\<close>.) When no block runs, every waiting request enters as soon as its continuations are
  run, or is rejected when the object was aborted, so no request waits forever. The counter of
  active requests is the number of requests inside.
\<close>

theorem blocked_requests:
  fixes lims :: do_limits and es :: "gate_event list"
  assumes "BlockThrow \<notin> set es"
  defines "s \<equiv> foldl gate_step (new_state lims) es"
  shows "(\<forall>p es' i. open_blocks s = [p] \<and> gate s = Some p
        \<and> (\<forall>e \<in> set es'. e \<notin> {BlockBegin, BlockThrow, BlockEnd p})
        \<and> i < length (requests (foldl gate_step s es'))
        \<and> (i < length (requests s) \<longrightarrow> held (requests s ! i)) \<longrightarrow>
        held (requests (foldl gate_step s es') ! i))
    \<and> (\<forall>i p. open_blocks s = [] \<and> i < length (requests s) \<and> requests s ! i = Waiting p \<longrightarrow>
        requests (foldl gate_step s [EnterWake i, EnterFinish i]) ! i =
          (if aborted s then Rejected (abort_error s) else Entered))
    \<and> activeRequests s = int (length (filter (\<lambda>r. r = Entered) (requests s)))"
proof (intro conjI allI impI)
  have inv: "gate_inv s" using gate_inv_run[OF assms(1)] by (simp add: s_def)
  then show "activeRequests s = int (length (filter (\<lambda>r. r = Entered) (requests s)))"
    by (simp add: gate_inv_def)
  fix i p
  assume w: "open_blocks s = [] \<and> i < length (requests s) \<and> requests s ! i = Waiting p"
  then have "Waiting p \<in> set (requests s)" by (metis nth_mem)
  with inv w have "gate s = None" "p \<in> set (resolved s)"
    by (auto simp: gate_inv_def)
  with w show "requests (foldl gate_step s [EnterWake i, EnterFinish i]) ! i =
      (if aborted s then Rejected (abort_error s) else Entered)"
    by (simp add: enter_wake_def enter_finish_def wait_for_ready_def abort_error_def)
next
  fix p es' i
  assume a: "open_blocks s = [p] \<and> gate s = Some p
    \<and> (\<forall>e \<in> set es'. e \<notin> {BlockBegin, BlockThrow, BlockEnd p})
    \<and> i < length (requests (foldl gate_step s es')) \<and> (i < length (requests s) \<longrightarrow> held (requests s ! i))"
  then have "held_since s (foldl gate_step s es')"
    by (intro held_since_run[of s s p]) (simp_all add: held_since_def)
  with a show "held (requests (foldl gate_step s es') ! i)" by (simp add: held_since_def)
qed

theorem blocked_requests_witness:
  "let s = foldl gate_step (new_state DO_DEFAULTS) [BlockBegin, EnterBegin];
       s' = foldl gate_step s [EnterBegin, EnterWake 0, EnterFinish 0]
   in held (requests s' ! 0) \<and> held (requests s' ! 1)"
proof -
  define s where "s = foldl gate_step (new_state DO_DEFAULTS) [BlockBegin, EnterBegin]"
  define es' where "es' = [EnterBegin, EnterWake 0, EnterFinish 0]"
  note gate = blocked_requests[of "[BlockBegin, EnterBegin]" DO_DEFAULTS, folded s_def, simplified,
      THEN conjunct1, rule_format, of 0 es']
  have "open_blocks s = [0]" "gate s = Some 0" "requests s = [Waiting 0]"
    by (simp_all add: s_def new_state_def block_begin_def enter_begin_def wait_for_ready_def)
  moreover have "length (requests (foldl gate_step s es')) = 2"
    by (simp add: es'_def s_def new_state_def block_begin_def enter_begin_def wait_for_ready_def
        enter_wake_def enter_finish_def)
  ultimately show ?thesis
    using gate[of 0] gate[of 1] by (simp add: es'_def s_def held_def)
qed

text \<open>
  Two situations the gate does not cover. The end of one block opens the gate although another
  block is running; and a callback that throws before it returns a promise closes it forever.
\<close>

lemma overlapping_blocks_open_gate:
  "let s = foldl gate_step (new_state DO_DEFAULTS) [BlockBegin, BlockBegin, BlockEnd 0, EnterBegin, EnterFinish 0]
   in open_blocks s = [1] \<and> requests s = [Entered]"
  by (simp add: new_state_def block_begin_def block_end_def enter_begin_def wait_for_ready_def enter_finish_def)

lemma throwing_callback_closes_gate:
  "resolved s = [] \<Longrightarrow> open_blocks s = [] \<Longrightarrow> gate s = Some p \<Longrightarrow>
   \<forall>e \<in> set es. e \<notin> {BlockBegin, BlockThrow} \<Longrightarrow>
   gate (foldl gate_step s es) = Some p"
proof (induction es arbitrary: s)
  case (Cons e es)
  then have "resolved (gate_step s e) = []" "open_blocks (gate_step s e) = []" "gate (gate_step s e) = Some p"
    by (cases e; auto simp: enter_begin_def enter_wake_def enter_finish_def exit_request_def
        abort_object_def split: phase.split)+
  with Cons show ?case by simp
qed simp

section \<open>Laws of the WebSockets\<close>

datatype ws_event =
    WsAccept nat "string list option"
  | WsMessage bool int nat nat ws_data
  | WsClose bool nat nat
  | WsAutoResponse "ws_pair option"

fun ws_step :: "do_state \<Rightarrow> ws_event \<Rightarrow> do_state" where
  "ws_step st (WsAccept ws tags) = (case acceptWebSocket ws tags st of Inl _ \<Rightarrow> st | Inr st' \<Rightarrow> st')"
| "ws_step st (WsMessage h now ws entry m) = snd (on_message h now ws entry m st)"
| "ws_step st (WsClose h ws entry) = snd (on_close h ws entry st)"
| "ws_step st (WsAutoResponse pair) = (case setWebSocketAutoResponse pair st of Inl _ \<Rightarrow> st | Inr st' \<Rightarrow> st')"

definition ws_inv :: "do_limits \<Rightarrow> do_state \<Rightarrow> bool" where
  "ws_inv lims st =
     (state_limits st = lims
      \<and> length (acceptedWebSockets st) \<le> maxConcurrentWebSockets lims
      \<and> distinct (map aw_entry (acceptedWebSockets st))
      \<and> (\<forall>e \<in> set (acceptedWebSockets st). aw_entry e < next_entry st
           \<and> length (aw_tags e) \<le> maxTagsPerWebSocket lims
           \<and> (\<forall>t \<in> set (aw_tags e). length t \<le> maxTagLength lims))
      \<and> (\<forall>p. autoResponsePair st = Some p \<longrightarrow>
           length (wp_request p) \<le> maxAutoResponseLength lims \<and> length (wp_response p) \<le> maxAutoResponseLength lims))"

lemma ws_inv_step: "ws_inv lims st \<Longrightarrow> ws_inv lims (ws_step st e)"
proof (cases e)
  case (WsAccept ws tags)
  assume "ws_inv lims st"
  with WsAccept show ?thesis
    by (auto simp: ws_inv_def acceptWebSocket_def Let_def less_Suc_eq not_less)
next
  case (WsMessage h now ws entry m)
  assume inv: "ws_inv lims st"
  have "aw_entry \<circ> (\<lambda>e :: accepted_ws. if aw_entry e = entry then e\<lparr>aw_time := Some now\<rparr> else e) = aw_entry"
    by auto
  with inv WsMessage show ?thesis
    by (auto simp: ws_inv_def on_message_def Let_def split: option.split)
next
  case (WsClose h ws entry)
  assume "ws_inv lims st"
  with WsClose show ?thesis
    by (auto simp: ws_inv_def on_close_def distinct_map_filter intro: order.trans[OF length_filter_le])
next
  case (WsAutoResponse pair)
  assume "ws_inv lims st"
  with WsAutoResponse show ?thesis
    by (auto simp: ws_inv_def setWebSocketAutoResponse_def Let_def split: option.split)
qed

interpretation sockets: machine ws_step "ws_inv lims" for lims
  by unfold_locales (rule ws_inv_step)

lemma ws_inv_run: "ws_inv lims (foldl ws_step (new_state lims) es)"
  by (rule sockets.inv_run) (simp add: ws_inv_def new_state_def)

text \<open>
  The WebSockets an object holds stay within its limits, whatever is accepted, closed,
  received and configured: never more than \<open>maxConcurrentWebSockets\<close>, none with more than
  \<open>maxTagsPerWebSocket\<close> tags or a tag longer than \<open>maxTagLength\<close>, and an automatic response
  of at most \<open>maxAutoResponseLength\<close>. The sockets of a tag are those that carry it. A text
  equal to the configured request is answered with the response and does not reach the
  handler; any other message reaches it unchanged.
\<close>

theorem websocket_limits:
  fixes lims :: do_limits and es :: "ws_event list"
  defines "s \<equiv> foldl ws_step (new_state lims) es"
  shows "length (getWebSockets None s) \<le> maxConcurrentWebSockets lims
    \<and> (\<forall>ws. length (getTags ws s) \<le> maxTagsPerWebSocket lims
        \<and> (\<forall>t \<in> set (getTags ws s). length t \<le> maxTagLength lims))
    \<and> (\<forall>p. getWebSocketAutoResponse s = Some p \<longrightarrow>
        length (wp_request p) \<le> maxAutoResponseLength lims \<and> length (wp_response p) \<le> maxAutoResponseLength lims)
    \<and> (\<forall>t ws. ws \<in> set (getWebSockets (Some t) s) \<longleftrightarrow>
        (\<exists>e \<in> set (acceptedWebSockets s). aw_ws e = ws \<and> t \<in> set (aw_tags e)))
    \<and> (\<forall>now ws entry m. fst (on_message True now ws entry m s) =
        (case getWebSocketAutoResponse s of
           Some p \<Rightarrow> if m = WsText (wp_request p) then [SendText ws (wp_response p)] else [CallMessage ws m]
         | None \<Rightarrow> [CallMessage ws m]))"
proof -
  have inv: "ws_inv lims s" using ws_inv_run by (simp add: s_def)
  have tags: "length (getTags ws s) \<le> maxTagsPerWebSocket lims
      \<and> (\<forall>t \<in> set (getTags ws s). length t \<le> maxTagLength lims)" for ws
    using inv by (auto simp: getTags_def ws_inv_def split: option.split dest!: find_SomeD)
  show ?thesis
    using inv tags by (auto simp: ws_inv_def getWebSockets_def getWebSocketAutoResponse_def on_message_def
        Let_def split: option.split)
qed

theorem websocket_limits_witness:
  "length (getWebSockets None (foldl ws_step (new_state DO_DEFAULTS) [WsAccept 1 None])) \<le> 32768"
  using websocket_limits[of DO_DEFAULTS "[WsAccept 1 None]"] by (simp add: DO_DEFAULTS_def)

end
