(* ===== verification/DurableNamespace.thy ===== *)
theory DurableNamespace
  imports DurableStorage
begin

text \<open>
  The namespace of a Durable Object class, \<open>DurableObjectNamespaceImpl\<close> of
  \<^verbatim>\<open>src/bindings/durable-object.ts\<close>: its executors, their alarms and the timers of the runtime
  behind them, eviction, reload and deletion. An executor is what the namespace asks of it; a
  timer of the runtime is an identity with the time it is due and the call it makes. The
  asynchronous \<open>_fireAlarm\<close> is split at the \<open>await\<close> of the handler. Not modelled: containers
  and their disposal, the polling of \<open>_disposeExecutorWhenIdle\<close>, files, tracing.
\<close>

section \<open>State\<close>

record executor =
  ex_serial :: nat
  ex_active :: bool
  ex_blocked :: bool
  ex_sockets :: nat
  ex_aborted :: bool
  ex_disposed :: bool
  ex_reloads :: bool \<comment> \<open>it has \<open>reloadClass\<close>\<close>

record timer =
  tm_due :: int
  tm_id :: string
  tm_retry :: nat

record instance_row =
  in_namespace :: string
  in_id :: string
  in_name :: "string option"

datatype wiring = NotWired | InProcess nat bool | External string

record namespace =
  n_name :: string
  n_tables :: do_tables
  n_instances :: "instance_row list"
  executors :: "(string \<times> executor) list"
  stubs :: "string list"
  knownIds :: "(string \<times> string option) list"
  n_class :: wiring
  alarmHint :: "bool option"
  alarmTimers :: "(string \<times> nat) list"
  lastActivity :: "(string \<times> int) list"
  evictionTimer :: bool
  n_evictionTimeoutMs :: int
  n_now :: int \<comment> \<open>the clock\<close>
  pending_timers :: "(nat \<times> timer) list"
  next_timer :: nat
  next_serial :: nat
  running_alarms :: "(string \<times> nat) list" \<comment> \<open>alarm handlers that have not settled\<close>
  alarm_calls :: "(int \<times> string \<times> nat) list" \<comment> \<open>the calls of \<open>executeAlarm\<close> so far\<close>
  disposals :: "nat list" \<comment> \<open>the executors disposed so far\<close>

definition MAX_ALARM_RETRIES :: nat where "MAX_ALARM_RETRIES = 6"

abbreviation store_of :: "string \<Rightarrow> namespace \<Rightarrow> do_store" where
  "store_of i n \<equiv> \<lparr>ds_namespace = n_name n, ds_id = i\<rparr>"

definition new_namespace :: "string \<Rightarrow> do_tables \<Rightarrow> instance_row list \<Rightarrow> int \<Rightarrow> int \<Rightarrow> namespace" where
  "new_namespace nm t ins timeout now =
     \<lparr>n_name = nm, n_tables = t, n_instances = ins, executors = [], stubs = [], knownIds = [],
      n_class = NotWired, alarmHint = None, alarmTimers = [], lastActivity = [],
      evictionTimer = (0 < timeout), n_evictionTimeoutMs = timeout, n_now = now, pending_timers = [],
      next_timer = 0, next_serial = 0, running_alarms = [], alarm_calls = [], disposals = []\<rparr>"

section \<open>Timers and alarms\<close>

definition clear_timeout :: "nat \<Rightarrow> namespace \<Rightarrow> namespace" where
  "clear_timeout k n = n\<lparr>pending_timers := obj_delete k (pending_timers n)\<rparr>"

text \<open>\<open>this.alarmTimers.set(idStr, setTimeout(...))\<close>\<close>

definition set_alarm_timer :: "string \<Rightarrow> int \<Rightarrow> nat \<Rightarrow> namespace \<Rightarrow> namespace" where
  "set_alarm_timer i due retry n =
     n\<lparr>pending_timers := pending_timers n @ [(next_timer n, \<lparr>tm_due = due, tm_id = i, tm_retry = retry\<rparr>)],
       next_timer := Suc (next_timer n),
       alarmTimers := obj_set (alarmTimers n) i (next_timer n)\<rparr>"

definition clear_existing :: "string \<Rightarrow> namespace \<Rightarrow> namespace" where
  "clear_existing i n = (case map_of (alarmTimers n) i of None \<Rightarrow> n | Some k \<Rightarrow> clear_timeout k n)"

definition forget_timer :: "string \<Rightarrow> namespace \<Rightarrow> namespace" where
  "forget_timer i n = n\<lparr>alarmTimers := obj_delete i (alarmTimers n)\<rparr>"

text \<open>
  \<open>setTimeout\<close> takes a delay up to \<open>2^31 - 1\<close> milliseconds; the runtime makes a longer one a
  delay of one millisecond.
\<close>

definition MAX_TIMEOUT :: int where "MAX_TIMEOUT = 2147483647"

definition timeout_delay :: "int \<Rightarrow> int" where
  "timeout_delay ms = (if MAX_TIMEOUT < ms then 1 else ms)"

definition scheduleAlarmTimer :: "string \<Rightarrow> int \<Rightarrow> namespace \<Rightarrow> namespace" where
  "scheduleAlarmTimer i time n =
     (let delay = max 0 (time - n_now n)
      in set_alarm_timer i (n_now n + timeout_delay delay) 0 (clear_existing i n))"

definition alarm_rows :: "namespace \<Rightarrow> alarm_row list" where
  "alarm_rows n = sql_select (\<lambda>r. al_namespace r = n_name n) (do_alarms (n_tables n))"

definition restoreAlarms :: "namespace \<Rightarrow> namespace" where
  "restoreAlarms n = foldl (\<lambda>n r. scheduleAlarmTimer (al_id r) (al_time r) n) n (alarm_rows n)"

definition delete_alarm_row :: "string \<Rightarrow> namespace \<Rightarrow> namespace" where
  "delete_alarm_row i n =
     n\<lparr>n_tables := (n_tables n)\<lparr>do_alarms := sql_delete (of_alarm (store_of i n)) (do_alarms (n_tables n))\<rparr>\<rparr>"

definition put_alarm_row :: "string \<Rightarrow> int \<Rightarrow> namespace \<Rightarrow> namespace" where
  "put_alarm_row i time n =
     n\<lparr>n_tables := (n_tables n)\<lparr>do_alarms := sql_replace alarm_key
          \<lparr>al_namespace = n_name n, al_id = i, al_time = time\<rparr> (do_alarms (n_tables n))\<rparr>\<rparr>"

text \<open>The callback \<open>onAlarmSet\<close> the namespace gives each executor.\<close>

definition onAlarmSet :: "string \<Rightarrow> int option \<Rightarrow> namespace \<Rightarrow> namespace" where
  "onAlarmSet i time n =
     (case time of
        None \<Rightarrow> forget_timer i (clear_existing i n)
      | Some t \<Rightarrow> scheduleAlarmTimer i t n)"

text \<open>\<open>setAlarm\<close> and \<open>deleteAlarm\<close> of an object's storage, with the callback.\<close>

definition object_setAlarm :: "string \<Rightarrow> int \<Rightarrow> namespace \<Rightarrow> namespace" where
  "object_setAlarm i time n =
     (let (c, cb) = setAlarm (store_of i n) time \<lparr>tables = n_tables n, begun = None, saved = []\<rparr>
      in onAlarmSet i cb (n\<lparr>n_tables := tables c\<rparr>))"

definition object_deleteAlarm :: "string \<Rightarrow> namespace \<Rightarrow> namespace" where
  "object_deleteAlarm i n =
     (let (c, cb) = deleteAlarm (store_of i n) \<lparr>tables = n_tables n, begun = None, saved = []\<rparr>
      in onAlarmSet i cb (n\<lparr>n_tables := tables c\<rparr>))"

section \<open>Executors\<close>

definition dispose :: "executor \<Rightarrow> namespace \<Rightarrow> namespace" where
  "dispose ex n = n\<lparr>disposals := disposals n @ [ex_serial ex]\<rparr>"

definition drop_executor :: "string \<Rightarrow> namespace \<Rightarrow> namespace" where
  "drop_executor i n =
     n\<lparr>executors := obj_delete i (executors n), lastActivity := obj_delete i (lastActivity n)\<rparr>"

definition isWired :: "namespace \<Rightarrow> bool" where "isWired n = (n_class n \<noteq> NotWired)"

text \<open>
  \<open>_getOrCreateExecutor(idStr, doId)\<close>: \<open>doId\<close> is the optional id object, with its optional
  name; \<open>throws\<close> says whether the factory does (the constructor of the class can).
\<close>

datatype created = NoExecutor | Executor | ConstructorThrew

definition touch :: "string \<Rightarrow> namespace \<Rightarrow> namespace" where
  "touch i n = n\<lparr>lastActivity := obj_set (lastActivity n) i (n_now n)\<rparr>"

definition register_instance :: "string \<Rightarrow> string option \<Rightarrow> namespace \<Rightarrow> namespace" where
  "register_instance i nm n =
     (if \<exists>r \<in> set (n_instances n). in_namespace r = n_name n \<and> in_id r = i then n
      else n\<lparr>n_instances := sql_insert \<lparr>in_namespace = n_name n, in_id = i, in_name = nm\<rparr> (n_instances n)\<rparr>)"

definition create_executor :: "string \<Rightarrow> string option option \<Rightarrow> bool \<Rightarrow> namespace \<Rightarrow> created \<times> namespace" where
  "create_executor i doId throws n =
     (let nm = nullish doId (nullish (map_of (knownIds n) i) None);
          n1 = (case doId of None \<Rightarrow> n | Some d \<Rightarrow> n\<lparr>knownIds := obj_set (knownIds n) i d\<rparr>);
          n2 = register_instance i nm n1;
          ex = \<lparr>ex_serial = next_serial n2, ex_active = False, ex_blocked = False, ex_sockets = 0,
                ex_aborted = False, ex_disposed = False, ex_reloads = (case n_class n2 of InProcess _ _ \<Rightarrow> True | _ \<Rightarrow> False)\<rparr>
      in if throws then (ConstructorThrew, n2)
         else (Executor, touch i (n2\<lparr>executors := obj_set (executors n2) i ex, next_serial := Suc (next_serial n2)\<rparr>)))"

definition getOrCreateExecutor ::
    "string \<Rightarrow> string option option \<Rightarrow> bool \<Rightarrow> namespace \<Rightarrow> created \<times> namespace" where
  "getOrCreateExecutor i doId throws n =
     (case map_of (executors n) i of
        Some ex \<Rightarrow>
          if \<not> ex_disposed ex then (Executor, n)
          else (let n1 = drop_executor i (dispose ex n)
                in if isWired n1 then create_executor i doId throws n1 else (NoExecutor, n1))
      | None \<Rightarrow> if isWired n then create_executor i doId throws n else (NoExecutor, n))"

section \<open>Firing\<close>

text \<open>\<open>_fireAlarm\<close> up to the \<open>await\<close> of the handler, and from there.\<close>

definition fireAlarm :: "string \<Rightarrow> nat \<Rightarrow> bool \<Rightarrow> namespace \<Rightarrow> namespace" where
  "fireAlarm i retry throws n =
     (case getOrCreateExecutor i None throws n of
        (Executor, n1) \<Rightarrow>
          (let n2 = delete_alarm_row i (touch i n1)
           in n2\<lparr>running_alarms := running_alarms n2 @ [(i, retry)],
                 alarm_calls := alarm_calls n2 @ [(n_now n2, i, retry)]\<rparr>)
      | (_, n1) \<Rightarrow> n1)"

definition alarm_settled :: "string \<Rightarrow> nat \<Rightarrow> bool \<Rightarrow> namespace \<Rightarrow> namespace" where
  "alarm_settled i retry succeeded n =
     (if (i, retry) \<in> set (running_alarms n) then
        (let n1 = n\<lparr>running_alarms := remove1 (i, retry) (running_alarms n)\<rparr>
         in if succeeded \<or> \<not> retry < MAX_ALARM_RETRIES then n1
            else (let backoffMs = 2 ^ retry * 1000;
                      retryTime = n_now n1 + backoffMs
                  in set_alarm_timer i retryTime (retry + 1) (put_alarm_row i retryTime n1)))
      else n)"

definition timer_fires :: "nat \<Rightarrow> bool \<Rightarrow> namespace \<Rightarrow> namespace" where
  "timer_fires k throws n =
     (case map_of (pending_timers n) k of
        None \<Rightarrow> n
      | Some tm \<Rightarrow>
          if tm_due tm \<le> n_now n
          then fireAlarm (tm_id tm) (tm_retry tm) throws (forget_timer (tm_id tm) (clear_timeout k n))
          else n)"

definition triggerAlarm :: "string \<Rightarrow> bool \<Rightarrow> namespace \<Rightarrow> namespace" where
  "triggerAlarm i throws n = fireAlarm i 0 throws (forget_timer i (clear_existing i n))"

definition fireReadyAlarms :: "bool \<Rightarrow> namespace \<Rightarrow> namespace" where
  "fireReadyAlarms throws n =
     foldl (\<lambda>n' r. if al_time r \<le> n_now n then triggerAlarm (al_id r) throws n' else n') n (alarm_rows n)"

definition cancelAlarm :: "string \<Rightarrow> namespace \<Rightarrow> namespace" where
  "cancelAlarm i n = delete_alarm_row i (forget_timer i (clear_existing i n))"

definition clearAlarmTimers :: "namespace \<Rightarrow> namespace" where
  "clearAlarmTimers n =
     (foldl (\<lambda>n e. clear_timeout (snd e) n) n (alarmTimers n))\<lparr>alarmTimers := []\<rparr>"

section \<open>Reload, eviction and deletion\<close>

definition setClass_one :: "string \<times> executor \<Rightarrow> namespace \<Rightarrow> namespace" where
  "setClass_one e n =
     (if 0 < ex_sockets (snd e) \<and> ex_reloads (snd e) then n
      else drop_executor (fst e) (dispose (snd e) n))"

definition setClass :: "nat \<Rightarrow> bool \<Rightarrow> namespace \<Rightarrow> namespace" where
  "setClass cls has_alarm n =
     restoreAlarms ((foldl (\<lambda>n e. setClass_one e n) n (executors n))\<lparr>n_class := InProcess cls has_alarm\<rparr>)"

text \<open>An active executor is disposed of later, when its call has settled.\<close>

definition setExternalClass :: "string \<Rightarrow> namespace \<Rightarrow> namespace" where
  "setExternalClass cls n =
     restoreAlarms
       ((foldl (\<lambda>n e. if ex_active (snd e) then drop_executor (fst e) n
                      else dispose (snd e) (drop_executor (fst e) n)) n (executors n))
        \<lparr>n_class := External cls, alarmHint := None\<rparr>)"

definition setAlarmHandlerHint :: "bool \<Rightarrow> namespace \<Rightarrow> namespace" where
  "setAlarmHandlerHint v n = n\<lparr>alarmHint := Some v\<rparr>"

definition hasAlarmHandler :: "namespace \<Rightarrow> bool" where
  "hasAlarmHandler n =
     (case n_class n of External _ \<Rightarrow> nullish (alarmHint n) False | InProcess _ a \<Rightarrow> a | NotWired \<Rightarrow> False)"

definition evict_one :: "int \<Rightarrow> namespace \<Rightarrow> string \<times> int \<Rightarrow> namespace" where
  "evict_one now n e =
     (case map_of (executors n) (fst e) of
        None \<Rightarrow> n
      | Some ex \<Rightarrow>
          if ex_disposed ex then drop_executor (fst e) (dispose ex n)
          else if ex_aborted ex \<and> \<not> ex_active ex then drop_executor (fst e) (dispose ex n)
          else if now - snd e < n_evictionTimeoutMs n then n
          else if ex_blocked ex then n
          else if ex_active ex then n
          else if 0 < ex_sockets ex then n
          else drop_executor (fst e) (dispose ex n))"

definition evictIdle :: "namespace \<Rightarrow> namespace" where
  "evictIdle n = foldl (evict_one (n_now n)) n (lastActivity n)"

definition destroy_one :: "bool \<Rightarrow> namespace \<Rightarrow> string \<times> executor \<Rightarrow> namespace" where
  "destroy_one force n e =
     (if force \<or> ex_sockets (snd e) = 0 then drop_executor (fst e) (dispose (snd e) n) else n)"

definition destroy :: "bool \<Rightarrow> namespace \<Rightarrow> namespace" where
  "destroy force n =
     (let n1 = clearAlarmTimers (n\<lparr>evictionTimer := False\<rparr>);
          n2 = foldl (destroy_one force) n1 (executors n1)
      in if \<not> force \<and> executors n2 \<noteq> [] \<and> 0 < n_evictionTimeoutMs n2 then n2\<lparr>evictionTimer := True\<rparr>
         else n2\<lparr>lastActivity := []\<rparr>)"

definition deleteInstance :: "string \<Rightarrow> namespace \<Rightarrow> namespace" where
  "deleteInstance i n =
     (let n1 = cancelAlarm i n;
          n2 = (case map_of (executors n1) i of
                  None \<Rightarrow> n1
                | Some ex \<Rightarrow> (dispose ex n1)\<lparr>executors := obj_delete i (executors n1)\<rparr>)
      in n2\<lparr>stubs := filter (\<lambda>k. \<not> starts_with k (i @ '':'')) (stubs n2),
            knownIds := obj_delete i (knownIds n2),
            lastActivity := obj_delete i (lastActivity n2),
            n_instances := sql_delete (\<lambda>r. in_namespace r = n_name n2 \<and> in_id r = i) (n_instances n2),
            n_tables := \<lparr>do_storage = sql_delete (of_object (store_of i n2)) (do_storage (n_tables n2)),
                         do_alarms = sql_delete (of_alarm (store_of i n2)) (do_alarms (n_tables n2))\<rparr>\<rparr>)"

definition hasActiveWebSockets :: "namespace \<Rightarrow> bool" where
  "hasActiveWebSockets n = (\<exists>e \<in> set (executors n). 0 < ex_sockets (snd e))"

definition listActiveExecutors :: "namespace \<Rightarrow> (string \<times> nat) list" where
  "listActiveExecutors n = map (\<lambda>e. (fst e, ex_sockets (snd e))) (executors n)"

definition listInstanceIds :: "namespace \<Rightarrow> string list" where
  "listInstanceIds n = map in_id (sql_select (\<lambda>r. in_namespace r = n_name n) (n_instances n))"

section \<open>Stubs\<close>

datatype ns_error = NotWiredYet | ConstructorError

definition stub_key :: "string \<Rightarrow> string option \<Rightarrow> string" where
  "stub_key i nm = i @ '':'' @ nullish nm ''''"

definition get_stub :: "string \<Rightarrow> string option \<Rightarrow> bool \<Rightarrow> namespace \<Rightarrow> (ns_error, string) res \<times> namespace" where
  "get_stub i nm throws n =
     (if stub_key i nm \<in> set (stubs n) then (Inr (stub_key i nm), n)
      else if \<not> isWired n then (Inl NotWiredYet, n)
      else (case getOrCreateExecutor i (Some nm) throws (n\<lparr>knownIds := obj_set (knownIds n) i nm\<rparr>) of
              (ConstructorThrew, n1) \<Rightarrow> (Inl ConstructorError, n1)
            | (_, n1) \<Rightarrow> (Inr (stub_key i nm), n1\<lparr>stubs := stubs n1 @ [stub_key i nm]\<rparr>)))"

text \<open>What every call on a stub does before it reaches the executor.\<close>

definition stub_call :: "string \<Rightarrow> string option \<Rightarrow> bool \<Rightarrow> namespace \<Rightarrow> created \<times> namespace" where
  "stub_call i nm throws n =
     (case getOrCreateExecutor i (Some nm) throws n of
        (Executor, n1) \<Rightarrow> (Executor, touch i n1)
      | r \<Rightarrow> r)"

section \<open>Runs\<close>

datatype ns_event =
    NsTick nat
  | NsSetClass nat bool
  | NsSetExternalClass string
  | NsTimer nat bool
  | NsAlarmSettled string nat bool
  | NsSetAlarm string int
  | NsDeleteAlarm string
  | NsTrigger string bool
  | NsFireReady bool
  | NsCancel string
  | NsDelete string
  | NsGet string "string option" bool
  | NsCall string "string option" bool
  | NsExecutor string executor \<comment> \<open>an executor changes what it reports\<close>
  | NsEvict
  | NsClear
  | NsDestroy bool

fun ns_step :: "namespace \<Rightarrow> ns_event \<Rightarrow> namespace" where
  "ns_step n (NsTick ms) = n\<lparr>n_now := n_now n + int ms\<rparr>"
| "ns_step n (NsSetClass cls a) = setClass cls a n"
| "ns_step n (NsSetExternalClass cls) = setExternalClass cls n"
| "ns_step n (NsTimer k throws) = timer_fires k throws n"
| "ns_step n (NsAlarmSettled i retry ok) = alarm_settled i retry ok n"
| "ns_step n (NsSetAlarm i time) = object_setAlarm i time n"
| "ns_step n (NsDeleteAlarm i) = object_deleteAlarm i n"
| "ns_step n (NsTrigger i throws) = triggerAlarm i throws n"
| "ns_step n (NsFireReady throws) = fireReadyAlarms throws n"
| "ns_step n (NsCancel i) = cancelAlarm i n"
| "ns_step n (NsDelete i) = deleteInstance i n"
| "ns_step n (NsGet i nm throws) = snd (get_stub i nm throws n)"
| "ns_step n (NsCall i nm throws) = snd (stub_call i nm throws n)"
| "ns_step n (NsExecutor i ex) =
     (case map_of (executors n) i of
        None \<Rightarrow> n
      | Some old \<Rightarrow> n\<lparr>executors := obj_set (executors n) i (ex\<lparr>ex_serial := ex_serial old\<rparr>)\<rparr>)"
| "ns_step n NsEvict = evictIdle n"
| "ns_step n NsClear = clearAlarmTimers n"
| "ns_step n (NsDestroy force) = destroy force n"

end
