(* ===== verification/DurableNamespaceLaws.thy ===== *)
theory DurableNamespaceLaws
  imports DurableNamespace
begin

text \<open>
  The laws of the namespace of a Durable Object: every alarm in the table has a timer of the
  runtime behind it, the retries of a failing handler, and what eviction leaves alone.
\<close>

section \<open>What the alarms depend on\<close>

definition alarm_view ::
    "namespace \<Rightarrow> string \<times> alarm_row list \<times> (string \<times> nat) list \<times> (nat \<times> timer) list \<times> nat
      \<times> (string \<times> nat) list \<times> (int \<times> string \<times> nat) list \<times> int" where
  "alarm_view n =
     (n_name n, do_alarms (n_tables n), alarmTimers n, pending_timers n, next_timer n,
      running_alarms n, alarm_calls n, n_now n)"

definition base_inv :: "namespace \<Rightarrow> bool" where
  "base_inv n =
     (keyed_by alarm_key (do_alarms (n_tables n))
      \<and> distinct (map fst (pending_timers n))
      \<and> (\<forall>(k, tm) \<in> set (pending_timers n). k < next_timer n \<and> tm_retry tm \<le> MAX_ALARM_RETRIES)
      \<and> (\<forall>(i, k) \<in> set (alarmTimers n). k < next_timer n
           \<and> (\<forall>tm. (k, tm) \<in> set (pending_timers n) \<longrightarrow> tm_id tm = i))
      \<and> distinct (map fst (alarmTimers n))
      \<and> (\<forall>(i, r) \<in> set (running_alarms n). r \<le> MAX_ALARM_RETRIES)
      \<and> (\<forall>(t, i, r) \<in> set (alarm_calls n). r \<le> MAX_ALARM_RETRIES))"

text \<open>
  A timer due at \<open>due\<close> serves an alarm at \<open>t\<close>: it is due not before \<open>t\<close>, and at \<open>t\<close> when that is
  ahead; or the alarm was set more than \<open>MAX_TIMEOUT\<close> milliseconds ahead, so that the delay
  overflowed and the timer is due a millisecond after it was set.
\<close>

definition on_time :: "int \<Rightarrow> int \<Rightarrow> int \<Rightarrow> bool" where
  "on_time t now due =
     ((t \<le> due \<and> due \<le> max t now) \<or> (due \<le> now + 1 \<and> due - 1 + MAX_TIMEOUT < t))"

text \<open>The alarm of \<open>i\<close> at \<open>t\<close> has its timer pending under its name.\<close>

definition timed :: "string \<Rightarrow> int \<Rightarrow> namespace \<Rightarrow> bool" where
  "timed i t n =
     (\<exists>k tm. map_of (alarmTimers n) i = Some k \<and> map_of (pending_timers n) k = Some tm
        \<and> tm_id tm = i \<and> on_time t (n_now n) (tm_due tm))"

definition others_timed :: "string \<Rightarrow> namespace \<Rightarrow> bool" where
  "others_timed i n = (\<forall>r \<in> set (alarm_rows n). al_id r \<noteq> i \<longrightarrow> timed (al_id r) (al_time r) n)"

definition rows_timed :: "namespace \<Rightarrow> bool" where
  "rows_timed n = (\<forall>r \<in> set (alarm_rows n). timed (al_id r) (al_time r) n)"

lemma alarm_view_cong:
  assumes "alarm_view n = alarm_view n'"
  shows "base_inv n = base_inv n'" "timed i t n = timed i t n'" "alarm_rows n = alarm_rows n'"
    "others_timed i n = others_timed i n'" "rows_timed n = rows_timed n'"
  using assms by (simp_all add: alarm_view_def base_inv_def timed_def alarm_rows_def others_timed_def rows_timed_def)

lemma rows_timed_others: "rows_timed n \<Longrightarrow> others_timed i n"
  by (simp add: rows_timed_def others_timed_def)

named_theorems view_simps "operations the alarms do not depend on"

lemma alarm_view_executors [view_simps]:
  "alarm_view (dispose ex n) = alarm_view n"
  "alarm_view (drop_executor i n) = alarm_view n"
  "alarm_view (touch i n) = alarm_view n"
  "alarm_view (register_instance i nm n) = alarm_view n"
  "alarm_view (setClass_one e n) = alarm_view n"
  "alarm_view (evict_one now n e') = alarm_view n"
  "alarm_view (destroy_one force n e) = alarm_view n"
  by (simp_all add: alarm_view_def dispose_def drop_executor_def touch_def register_instance_def
      setClass_one_def evict_one_def destroy_one_def split: option.split)

lemma alarm_view_create [view_simps]: "alarm_view (snd (create_executor i d throws n)) = alarm_view n"
  by (simp add: create_executor_def Let_def alarm_view_def touch_def register_instance_def split: option.split)

lemma alarm_view_getOrCreate [view_simps]: "alarm_view (snd (getOrCreateExecutor i d throws n)) = alarm_view n"
  by (auto simp: getOrCreateExecutor_def Let_def view_simps split: option.split)

lemma getOrCreate_view:
  "getOrCreateExecutor i d throws n = (r, n') \<Longrightarrow> alarm_view n' = alarm_view n"
  using alarm_view_getOrCreate[of i d throws n] by simp

lemma alarm_view_foldl:
  "(\<And>n e. alarm_view (f n e) = alarm_view n) \<Longrightarrow> alarm_view (foldl f n es) = alarm_view n"
  by (induction es arbitrary: n) simp_all

lemma alarm_view_evictIdle [view_simps]: "alarm_view (evictIdle n) = alarm_view n"
  by (simp add: evictIdle_def alarm_view_foldl view_simps)

lemma alarm_view_get_stub [view_simps]: "alarm_view (snd (get_stub i nm throws n)) = alarm_view n"
  using alarm_view_getOrCreate[of i "Some nm" throws "n\<lparr>knownIds := obj_set (knownIds n) i nm\<rparr>"]
  by (auto simp: get_stub_def alarm_view_def split: prod.split created.split)

lemma alarm_view_stub_call [view_simps]: "alarm_view (snd (stub_call i nm throws n)) = alarm_view n"
  using alarm_view_getOrCreate[of i "Some nm" throws n]
  by (auto simp: stub_call_def view_simps dest: getOrCreate_view split: prod.split created.split)

section \<open>Elementary steps\<close>

lemma base_inv_clear_timeout: "base_inv n \<Longrightarrow> base_inv (clear_timeout k n)"
  by (auto simp: base_inv_def clear_timeout_def) (simp add: obj_delete_def distinct_map_filter)

lemma base_inv_clear_existing: "base_inv n \<Longrightarrow> base_inv (clear_existing i n)"
  by (auto simp: clear_existing_def base_inv_clear_timeout split: option.split)

lemma base_inv_forget: "base_inv n \<Longrightarrow> base_inv (forget_timer i n)"
  by (auto simp: base_inv_def forget_timer_def) (simp add: obj_delete_def distinct_map_filter)

lemma base_inv_delete_row: "base_inv n \<Longrightarrow> base_inv (delete_alarm_row i n)"
  by (auto simp: base_inv_def delete_alarm_row_def) (simp add: sql_defs keyed_by_filter)

lemma base_inv_put_row: "base_inv n \<Longrightarrow> base_inv (put_alarm_row i t n)"
  by (simp add: base_inv_def put_alarm_row_def keyed_by_replace)

lemma base_inv_set_timer:
  assumes "base_inv n" and "r \<le> MAX_ALARM_RETRIES"
  shows "base_inv (set_alarm_timer i due r n)"
proof -
  note old = set_obj_set[of _ "alarmTimers n" i "next_timer n"]
  have "distinct (map fst (obj_set (alarmTimers n) i (next_timer n)))"
    using assms by (intro distinct_obj_set) (simp add: base_inv_def)
  moreover have "next_timer n \<notin> fst ` set (pending_timers n)"
    using assms by (auto simp: base_inv_def)
  ultimately show ?thesis
    using assms by (force simp: base_inv_def set_alarm_timer_def dest!: set_obj_set)
qed

lemma base_inv_schedule: "base_inv n \<Longrightarrow> base_inv (scheduleAlarmTimer i t n)"
  by (simp add: scheduleAlarmTimer_def Let_def base_inv_set_timer base_inv_clear_existing)

lemma timed_forget [simp]: "j \<noteq> i \<Longrightarrow> timed j t (forget_timer i n) = timed j t n"
  by (simp add: timed_def forget_timer_def map_of_obj_delete)

lemma timed_rows [simp]:
  "timed j t (delete_alarm_row i n) = timed j t n"
  "timed j t (put_alarm_row i t' n) = timed j t n"
  by (simp_all add: timed_def delete_alarm_row_def put_alarm_row_def)

lemma timed_clear_timeout:
  assumes "timed j t n" and "map_of (pending_timers n) k = Some tm" and "tm_id tm \<noteq> j"
  shows "timed j t (clear_timeout k n)"
proof -
  from assms(1) obtain k' tm' where t: "map_of (alarmTimers n) j = Some k'"
      "map_of (pending_timers n) k' = Some tm'" "tm_id tm' = j" "on_time t (n_now n) (tm_due tm')"
    by (auto simp: timed_def)
  with assms have "k' \<noteq> k" by auto
  with t show ?thesis by (simp add: timed_def clear_timeout_def map_of_obj_delete)
qed

lemma timed_clear_existing:
  assumes "base_inv n" and "j \<noteq> i" and "timed j t n"
  shows "timed j t (clear_existing i n)"
proof (cases "map_of (alarmTimers n) i")
  case (Some k)
  show ?thesis
  proof (cases "map_of (pending_timers n) k")
    case None
    then have "obj_delete k (pending_timers n) = pending_timers n"
      by (auto simp: obj_delete_def map_of_eq_None_iff filter_id_conv)
    with Some assms show ?thesis by (simp add: clear_existing_def clear_timeout_def)
  next
    case (Some tm)
    with \<open>map_of (alarmTimers n) i = Some k\<close> assms(1) have "tm_id tm = i"
      by (auto simp: base_inv_def dest!: map_of_SomeD)
    with Some assms \<open>map_of (alarmTimers n) i = Some k\<close> show ?thesis
      by (simp add: clear_existing_def timed_clear_timeout)
  qed
qed (use assms in \<open>simp add: clear_existing_def\<close>)

lemma timed_set_timer_other:
  assumes "j \<noteq> i" and "timed j t n"
  shows "timed j t (set_alarm_timer i due r n)"
proof -
  from assms(2) obtain k tm where t: "map_of (alarmTimers n) j = Some k"
      "map_of (pending_timers n) k = Some tm" "tm_id tm = j" "on_time t (n_now n) (tm_due tm)"
    by (auto simp: timed_def)
  with assms(1) show ?thesis by (simp add: timed_def set_alarm_timer_def obj_set_map_of map_add_def)
qed

lemma timed_set_timer_same:
  assumes "base_inv n" and "on_time t (n_now n) due"
  shows "timed i t (set_alarm_timer i due r n)"
proof -
  have "map_of (pending_timers n) (next_timer n) = None"
    using assms(1) by (auto simp: base_inv_def map_of_eq_None_iff)
  with assms show ?thesis
    by (simp add: timed_def set_alarm_timer_def obj_set_map_of map_add_def)
qed

lemma on_time_timeout: "on_time t now (now + timeout_delay (max 0 (t - now)))"
  by (simp add: on_time_def timeout_delay_def max_def MAX_TIMEOUT_def)

lemma on_time_tick: "on_time t now due \<Longrightarrow> on_time t (now + int ms) due"
  by (auto simp: on_time_def)

lemma n_now_clear_existing [simp]: "n_now (clear_existing i n) = n_now n"
  by (simp add: clear_existing_def clear_timeout_def split: option.split)

lemma timed_schedule_same: "base_inv n \<Longrightarrow> timed i t (scheduleAlarmTimer i t n)"
  unfolding scheduleAlarmTimer_def Let_def
  by (rule timed_set_timer_same) (simp_all add: base_inv_clear_existing on_time_timeout)

lemma timed_schedule_other: "base_inv n \<Longrightarrow> j \<noteq> i \<Longrightarrow> timed j t n \<Longrightarrow> timed j t (scheduleAlarmTimer i t' n)"
  by (simp add: scheduleAlarmTimer_def Let_def timed_set_timer_other timed_clear_existing)

lemma alarm_rows_simps [simp]:
  "alarm_rows (clear_timeout k n) = alarm_rows n"
  "alarm_rows (clear_existing i n) = alarm_rows n"
  "alarm_rows (forget_timer i n) = alarm_rows n"
  "alarm_rows (set_alarm_timer i due r n) = alarm_rows n"
  "alarm_rows (scheduleAlarmTimer i t n) = alarm_rows n"
  by (simp_all add: alarm_rows_def clear_timeout_def clear_existing_def forget_timer_def
      set_alarm_timer_def scheduleAlarmTimer_def Let_def split: option.split)

lemma set_alarm_rows_delete [simp]:
  "set (alarm_rows (delete_alarm_row i n)) = {r \<in> set (alarm_rows n). al_id r \<noteq> i}"
  by (auto simp: alarm_rows_def delete_alarm_row_def of_alarm_def)

lemma set_alarm_rows_put [simp]:
  "set (alarm_rows (put_alarm_row i t n)) =
   insert \<lparr>al_namespace = n_name n, al_id = i, al_time = t\<rparr> {r \<in> set (alarm_rows n). al_id r \<noteq> i}"
  by (auto simp: alarm_rows_def put_alarm_row_def alarm_key_def)

lemma others_timed_detach:
  "base_inv n \<Longrightarrow> rows_timed n \<Longrightarrow> others_timed i (forget_timer i (clear_existing i n))"
  by (simp add: rows_timed_def others_timed_def timed_clear_existing)

lemma rows_timed_delete: "others_timed i n \<Longrightarrow> rows_timed (delete_alarm_row i n)"
  by (simp add: rows_timed_def others_timed_def)

lemma rows_timed_put_schedule:
  assumes "base_inv n" and "others_timed i n"
  shows "rows_timed (scheduleAlarmTimer i t (put_alarm_row i t n))"
  using assms
  by (auto simp: rows_timed_def others_timed_def timed_schedule_same timed_schedule_other base_inv_put_row)

lemma rows_timed_put_set_timer:
  assumes "base_inv n" and "others_timed i n" and "n_now n \<le> t"
  shows "rows_timed (set_alarm_timer i t r (put_alarm_row i t n))"
  using assms
  by (auto simp: rows_timed_def others_timed_def timed_set_timer_same timed_set_timer_other base_inv_put_row
      on_time_def)

section \<open>Every operation keeps the invariant\<close>

lemma base_inv_view: "base_inv n \<Longrightarrow> alarm_view n' = alarm_view n \<Longrightarrow> base_inv n'"
  using alarm_view_cong(1) by blast

lemma fireAlarm_cases:
  assumes "getOrCreateExecutor i None throws n = (r, n1)"
  shows "fireAlarm i retry throws n =
    (if r = Executor
     then (delete_alarm_row i (touch i n1))
       \<lparr>running_alarms := running_alarms n1 @ [(i, retry)],
        alarm_calls := alarm_calls n1 @ [(n_now n1, i, retry)]\<rparr>
     else n1)"
  using assms by (cases r) (simp_all add: fireAlarm_def Let_def delete_alarm_row_def touch_def)

lemma base_inv_call:
  "base_inv n \<Longrightarrow> r \<le> MAX_ALARM_RETRIES \<Longrightarrow>
   base_inv (n\<lparr>running_alarms := running_alarms n @ [(i, r)], alarm_calls := alarm_calls n @ [(t, i, r)]\<rparr>)"
  by (auto simp: base_inv_def)

lemma base_inv_fireAlarm:
  assumes "base_inv n" and "retry \<le> MAX_ALARM_RETRIES"
  shows "base_inv (fireAlarm i retry throws n)"
proof -
  obtain r n1 where g: "getOrCreateExecutor i None throws n = (r, n1)" by force
  then have "base_inv n1" using assms(1) getOrCreate_view base_inv_view by blast
  then have "base_inv (delete_alarm_row i (touch i n1))"
    using base_inv_view[of n1 "touch i n1"] by (simp add: view_simps base_inv_delete_row)
  from base_inv_call[OF this assms(2), where i = i and t = "n_now n1"] \<open>base_inv n1\<close> show ?thesis
    by (simp add: fireAlarm_cases[OF g] delete_alarm_row_def touch_def)
qed

lemma base_inv_triggerAlarm: "base_inv n \<Longrightarrow> base_inv (triggerAlarm i throws n)"
  by (simp add: triggerAlarm_def base_inv_fireAlarm base_inv_forget base_inv_clear_existing)

lemma base_inv_timer_fires: "base_inv n \<Longrightarrow> base_inv (timer_fires k throws n)"
proof -
  assume inv: "base_inv n"
  then have "tm_retry tm \<le> MAX_ALARM_RETRIES" if "map_of (pending_timers n) k = Some tm" for tm
    using that by (auto simp: base_inv_def dest!: map_of_SomeD)
  with inv show ?thesis
    by (auto simp: timer_fires_def base_inv_fireAlarm base_inv_forget base_inv_clear_timeout split: option.split)
qed

lemma base_inv_alarm_settled: "base_inv n \<Longrightarrow> base_inv (alarm_settled i retry ok n)"
proof -
  assume inv: "base_inv n"
  then have "base_inv (n\<lparr>running_alarms := remove1 (i, retry) (running_alarms n)\<rparr>)"
    by (auto simp: base_inv_def dest: notin_set_remove1)
  then show ?thesis
    using inv by (simp add: alarm_settled_def Let_def base_inv_set_timer base_inv_put_row)
qed

lemma base_inv_foldl:
  "(\<And>n e. base_inv n \<Longrightarrow> base_inv (f n e)) \<Longrightarrow> base_inv n \<Longrightarrow> base_inv (foldl f n es)"
  by (induction es arbitrary: n) simp_all

lemma base_inv_restore: "base_inv n \<Longrightarrow> base_inv (restoreAlarms n)"
  unfolding restoreAlarms_def by (rule base_inv_foldl) (simp_all add: base_inv_schedule)

lemma base_inv_clearAlarmTimers: "base_inv n \<Longrightarrow> base_inv (clearAlarmTimers n)"
proof -
  assume "base_inv n"
  then have "base_inv (foldl (\<lambda>n e. clear_timeout (snd e) n) n (alarmTimers n))"
    by (rule base_inv_foldl[rotated]) (rule base_inv_clear_timeout)
  then show ?thesis by (simp add: clearAlarmTimers_def base_inv_def)
qed

lemma setAlarm_onto:
  "object_setAlarm i t n = scheduleAlarmTimer i t (put_alarm_row i t n)"
  "object_deleteAlarm i n = cancelAlarm i n"
proof -
  show "object_setAlarm i t n = scheduleAlarmTimer i t (put_alarm_row i t n)"
    by (simp add: object_setAlarm_def setAlarm_def onAlarmSet_def put_alarm_row_def)
  show "object_deleteAlarm i n = cancelAlarm i n"
    by (cases n) (simp add: object_deleteAlarm_def deleteAlarm_def onAlarmSet_def cancelAlarm_def
        delete_alarm_row_def forget_timer_def clear_existing_def clear_timeout_def split: option.split)
qed

lemma base_inv_cancel: "base_inv n \<Longrightarrow> base_inv (cancelAlarm i n)"
  by (simp add: cancelAlarm_def base_inv_delete_row base_inv_forget base_inv_clear_existing)

lemma deleteInstance_view: "alarm_view (deleteInstance i n) = alarm_view (cancelAlarm i n)"
  by (auto simp: deleteInstance_def Let_def alarm_view_def dispose_def cancelAlarm_def delete_alarm_row_def
      sql_defs split: option.split)

lemma destroy_view:
  "alarm_view (destroy force n) = alarm_view (clearAlarmTimers (n\<lparr>evictionTimer := False\<rparr>))"
proof -
  have "alarm_view (foldl (destroy_one force) m es) = alarm_view m" for m es
    by (rule alarm_view_foldl) (simp add: view_simps)
  then show ?thesis by (cases force) (simp_all add: destroy_def Let_def alarm_view_def)
qed

lemma setClass_view:
  "\<exists>n'. setClass c a n = restoreAlarms n' \<and> alarm_view n' = alarm_view n \<and> isWired n'"
  "\<exists>n'. setExternalClass x n = restoreAlarms n' \<and> alarm_view n' = alarm_view n \<and> isWired n'"
proof -
  have "alarm_view (foldl (\<lambda>n e. setClass_one e n) n (executors n)) = alarm_view n"
    by (rule alarm_view_foldl) (simp add: view_simps)
  then show "\<exists>n'. setClass c a n = restoreAlarms n' \<and> alarm_view n' = alarm_view n \<and> isWired n'"
    unfolding setClass_def by (intro exI conjI) (rule refl, simp_all add: alarm_view_def isWired_def)
  have "alarm_view (foldl (\<lambda>n e. if ex_active (snd e) then drop_executor (fst e) n
      else dispose (snd e) (drop_executor (fst e) n)) n (executors n)) = alarm_view n"
    by (rule alarm_view_foldl) (simp add: view_simps)
  then show "\<exists>n'. setExternalClass x n = restoreAlarms n' \<and> alarm_view n' = alarm_view n \<and> isWired n'"
    unfolding setExternalClass_def by (intro exI conjI) (rule refl, simp_all add: alarm_view_def isWired_def)
qed

lemma base_inv_step: "base_inv n \<Longrightarrow> base_inv (ns_step n e)"
proof (cases e)
  case (NsSetClass c a)
  assume "base_inv n"
  with NsSetClass show ?thesis
    using setClass_view(1)[of c a n] base_inv_view[of n] base_inv_restore by force
next
  case (NsSetExternalClass c)
  assume "base_inv n"
  with NsSetExternalClass show ?thesis
    using setClass_view(2)[of c n] base_inv_view[of n] base_inv_restore by force
next
  case (NsFireReady throws)
  assume "base_inv n"
  then show ?thesis unfolding NsFireReady ns_step.simps fireReadyAlarms_def
    by (rule base_inv_foldl[rotated]) (simp add: base_inv_triggerAlarm)
next
  case (NsDestroy force)
  assume "base_inv n"
  then have "base_inv (n\<lparr>evictionTimer := False\<rparr>)" by (simp add: base_inv_def)
  then show ?thesis unfolding NsDestroy ns_step.simps
    by (rule base_inv_view[OF base_inv_clearAlarmTimers destroy_view])
next
  case (NsDelete i)
  assume "base_inv n"
  then show ?thesis unfolding NsDelete ns_step.simps
    by (rule base_inv_view[OF base_inv_cancel deleteInstance_view])
next
  case (NsTick ms)
  assume "base_inv n"
  with NsTick show ?thesis by (simp add: base_inv_def)
next
  case (NsExecutor i ex)
  assume "base_inv n"
  with NsExecutor show ?thesis by (auto simp: base_inv_def split: option.split)
qed (auto simp: base_inv_triggerAlarm base_inv_timer_fires base_inv_alarm_settled setAlarm_onto base_inv_cancel
    base_inv_schedule base_inv_put_row base_inv_clearAlarmTimers base_inv_view[OF _ alarm_view_evictIdle]
    base_inv_view[OF _ alarm_view_get_stub] base_inv_view[OF _ alarm_view_stub_call])

interpretation namespace: machine ns_step base_inv
  by unfold_locales (rule base_inv_step)

lemma base_inv_new: "keyed_by alarm_key (do_alarms t) \<Longrightarrow> base_inv (new_namespace nm t ins timeout now)"
  by (simp add: base_inv_def new_namespace_def)

section \<open>No alarm without its timer\<close>

lemma rows_timed_view: "rows_timed n \<Longrightarrow> alarm_view n' = alarm_view n \<Longrightarrow> rows_timed n'"
  using alarm_view_cong(5) by blast

definition armed :: "namespace \<Rightarrow> bool" where
  "armed n = (base_inv n \<and> rows_timed n \<and> isWired n)"

named_theorems class_simps "operations that leave the class alone"

lemma n_class_executors [class_simps]:
  "n_class (dispose ex n) = n_class n"
  "n_class (drop_executor i n) = n_class n"
  "n_class (touch i n) = n_class n"
  "n_class (register_instance i nm n) = n_class n"
  "n_class (evict_one now n e') = n_class n"
  "n_class (clear_timeout k n) = n_class n"
  "n_class (clear_existing i n) = n_class n"
  "n_class (forget_timer i n) = n_class n"
  "n_class (set_alarm_timer i due r n) = n_class n"
  "n_class (delete_alarm_row i n) = n_class n"
  "n_class (put_alarm_row i t n) = n_class n"
  by (simp_all add: dispose_def drop_executor_def touch_def register_instance_def evict_one_def
      clear_timeout_def clear_existing_def forget_timer_def set_alarm_timer_def delete_alarm_row_def
      put_alarm_row_def split: option.split)

lemma n_class_create [class_simps]: "n_class (snd (create_executor i d throws n)) = n_class n"
  by (simp add: create_executor_def Let_def touch_def register_instance_def split: option.split)

lemma n_class_getOrCreate [class_simps]: "n_class (snd (getOrCreateExecutor i d throws n)) = n_class n"
  by (auto simp: getOrCreateExecutor_def Let_def class_simps split: option.split)

lemma n_class_foldl:
  "(\<And>n e. n_class (f n e) = n_class n) \<Longrightarrow> n_class (foldl f n es) = n_class n"
  by (induction es arbitrary: n) simp_all

lemma n_class_fireAlarm [class_simps]: "n_class (fireAlarm i retry throws n) = n_class n"
proof -
  obtain r n1 where g: "getOrCreateExecutor i None throws n = (r, n1)" by force
  then have "n_class n1 = n_class n" using n_class_getOrCreate[of i None throws n] by simp
  then show ?thesis by (simp add: fireAlarm_cases[OF g] class_simps)
qed

lemma n_class_stubs [class_simps]:
  "n_class (snd (get_stub i nm throws n)) = n_class n"
  "n_class (snd (stub_call i nm throws n)) = n_class n"
  using n_class_getOrCreate[of i "Some nm" throws "n\<lparr>knownIds := obj_set (knownIds n) i nm\<rparr>"]
    n_class_getOrCreate[of i "Some nm" throws n]
  by (auto simp: get_stub_def stub_call_def touch_def split: prod.split created.split)

lemma n_class_rest [class_simps]:
  "n_class (evictIdle n) = n_class n"
  "n_class (scheduleAlarmTimer i t n) = n_class n"
  "n_class (triggerAlarm i throws n) = n_class n"
  "n_class (cancelAlarm i n) = n_class n"
  "n_class (timer_fires k throws n) = n_class n"
  "n_class (alarm_settled i retry ok n) = n_class n"
  by (simp_all add: evictIdle_def n_class_foldl scheduleAlarmTimer_def Let_def triggerAlarm_def
      cancelAlarm_def timer_fires_def alarm_settled_def class_simps split: option.split)

lemma n_class_deleteInstance [class_simps]: "n_class (deleteInstance i n) = n_class n"
proof -
  have "n_class (deleteInstance i n) = n_class (cancelAlarm i n)"
    by (simp add: deleteInstance_def Let_def dispose_def split: option.split)
  then show ?thesis by (simp add: class_simps)
qed

lemma n_class_restore [class_simps]: "n_class (restoreAlarms n) = n_class n"
  by (simp add: restoreAlarms_def n_class_foldl class_simps)

lemma n_class_fireReady [class_simps]: "n_class (fireReadyAlarms throws n) = n_class n"
  by (simp add: fireReadyAlarms_def n_class_foldl class_simps)

lemma getOrCreate_wired:
  assumes "isWired n" and "getOrCreateExecutor i d False n = (r, n1)"
  shows "r = Executor"
proof -
  have "fst (create_executor i d False m) = Executor" for m
    by (simp add: create_executor_def Let_def)
  moreover have "isWired (drop_executor i (dispose ex n))" for ex
    using assms(1) by (simp add: isWired_def class_simps)
  ultimately have "fst (getOrCreateExecutor i d False n) = Executor"
    using assms(1) by (simp add: getOrCreateExecutor_def Let_def split: option.split)
  with assms(2) show ?thesis by simp
qed

lemma rows_timed_fireAlarm:
  assumes "isWired n" and "others_timed i n"
  shows "rows_timed (fireAlarm i retry False n)"
proof -
  obtain r n1 where g: "getOrCreateExecutor i None False n = (r, n1)" by force
  then have "others_timed i (touch i n1)"
    using assms(2) getOrCreate_view[OF g] alarm_view_cong(4)[of "touch i n1" n] by (simp add: view_simps)
  then have "rows_timed (delete_alarm_row i (touch i n1))" by (rule rows_timed_delete)
  then show ?thesis
    using getOrCreate_wired[OF assms(1) g]
    by (simp add: fireAlarm_cases[OF g] rows_timed_def timed_def alarm_rows_def)
qed

lemma armed_triggerAlarm: "armed n \<Longrightarrow> armed (triggerAlarm i False n)"
  unfolding armed_def
  by (simp add: base_inv_triggerAlarm isWired_def class_simps)
    (simp add: triggerAlarm_def rows_timed_fireAlarm others_timed_detach isWired_def class_simps)

lemma armed_timer_fires: "armed n \<Longrightarrow> armed (timer_fires k False n)"
proof -
  assume n: "armed n"
  have "rows_timed (timer_fires k False n)"
  proof (cases "map_of (pending_timers n) k")
    case (Some tm)
    with n have "others_timed (tm_id tm) (forget_timer (tm_id tm) (clear_timeout k n))"
      by (auto simp: armed_def rows_timed_def others_timed_def timed_clear_timeout)
    with n Some show ?thesis
      by (simp add: timer_fires_def armed_def rows_timed_fireAlarm isWired_def class_simps)
  qed (use n in \<open>simp add: timer_fires_def armed_def\<close>)
  with n show ?thesis by (simp add: armed_def base_inv_timer_fires isWired_def class_simps)
qed

lemma armed_alarm_settled: "armed n \<Longrightarrow> armed (alarm_settled i retry ok n)"
proof -
  assume n: "armed n"
  let ?n1 = "n\<lparr>running_alarms := remove1 (i, retry) (running_alarms n)\<rparr>"
  have "base_inv ?n1" using n by (auto simp: armed_def base_inv_def dest: notin_set_remove1)
  moreover have "rows_timed ?n1" using n by (simp add: armed_def rows_timed_def timed_def alarm_rows_def)
  ultimately have "rows_timed (alarm_settled i retry ok n)"
    using n by (simp add: alarm_settled_def Let_def armed_def rows_timed_put_set_timer rows_timed_others)
  with n show ?thesis by (simp add: armed_def base_inv_alarm_settled isWired_def class_simps)
qed

lemma restore_list:
  "base_inv n \<Longrightarrow> distinct (map al_id rs) \<Longrightarrow>
   base_inv (foldl (\<lambda>n r. scheduleAlarmTimer (al_id r) (al_time r) n) n rs)
   \<and> alarm_rows (foldl (\<lambda>n r. scheduleAlarmTimer (al_id r) (al_time r) n) n rs) = alarm_rows n
   \<and> (\<forall>r \<in> set rs. timed (al_id r) (al_time r) (foldl (\<lambda>n r. scheduleAlarmTimer (al_id r) (al_time r) n) n rs))
   \<and> (\<forall>j t. j \<notin> al_id ` set rs \<longrightarrow> timed j t n \<longrightarrow>
        timed j t (foldl (\<lambda>n r. scheduleAlarmTimer (al_id r) (al_time r) n) n rs))"
proof (induction rs arbitrary: n)
  case (Cons r rs)
  let ?n1 = "scheduleAlarmTimer (al_id r) (al_time r) n"
  have "base_inv ?n1" using Cons.prems by (simp add: base_inv_schedule)
  with Cons.prems Cons.IH[of ?n1] show ?case
    by (auto simp: timed_schedule_same timed_schedule_other)
qed simp

lemma alarm_rows_distinct: "base_inv n \<Longrightarrow> distinct (map al_id (alarm_rows n))"
  by (auto simp: base_inv_def alarm_rows_def sql_defs distinct_map inj_on_def alarm_key_def)

lemma rows_timed_restore: "base_inv n \<Longrightarrow> rows_timed (restoreAlarms n)"
  using restore_list[of n "alarm_rows n"] by (simp add: alarm_rows_distinct rows_timed_def restoreAlarms_def)

lemma armed_setClass:
  assumes "base_inv n"
  shows "armed (setClass c a n)" and "armed (setExternalClass x n)"
proof -
  have "armed (restoreAlarms n')" if "alarm_view n' = alarm_view n" "isWired n'" for n'
    using that base_inv_view[OF assms that(1)]
    by (simp add: armed_def isWired_def class_simps base_inv_restore rows_timed_restore)
  then show "armed (setClass c a n)" "armed (setExternalClass x n)"
    using setClass_view(1)[of c a n] setClass_view(2)[of x n] by auto
qed

lemma armed_cancel: "armed n \<Longrightarrow> armed (cancelAlarm i n)"
  by (simp add: armed_def base_inv_cancel isWired_def class_simps)
    (simp add: cancelAlarm_def rows_timed_delete others_timed_detach)

lemma armed_view: "armed n \<Longrightarrow> alarm_view n' = alarm_view n \<Longrightarrow> n_class n' = n_class n \<Longrightarrow> armed n'"
  unfolding armed_def isWired_def using base_inv_view rows_timed_view by metis

text \<open>The events after which alarms are still armed: no shutdown, no constructor that throws.\<close>

fun calm :: "ns_event \<Rightarrow> bool" where
  "calm NsClear = False"
| "calm (NsDestroy force) = False"
| "calm (NsTimer k throws) = (\<not> throws)"
| "calm (NsTrigger i throws) = (\<not> throws)"
| "calm (NsFireReady throws) = (\<not> throws)"
| "calm _ = True"

lemma armed_step: "armed n \<Longrightarrow> calm e \<Longrightarrow> armed (ns_step n e)"
proof (cases e)
  case (NsTick ms)
  assume "armed n"
  moreover have "timed i t n \<Longrightarrow> timed i t (n\<lparr>n_now := n_now n + int ms\<rparr>)" for i t
    by (auto simp: timed_def on_time_tick)
  moreover have "base_inv (n\<lparr>n_now := n_now n + int ms\<rparr>) = base_inv n" by (simp add: base_inv_def)
  ultimately show ?thesis using NsTick by (simp add: armed_def rows_timed_def alarm_rows_def isWired_def)
next
  case (NsFireReady throws)
  assume n: "armed n" and "calm e"
  then have "armed (foldl (\<lambda>n' r. if al_time r \<le> t then triggerAlarm (al_id r) False n' else n') n rs)" for t rs
    by (induction rs arbitrary: n) (simp_all add: armed_triggerAlarm)
  with NsFireReady \<open>calm e\<close> show ?thesis by (simp add: fireReadyAlarms_def)
next
  case (NsExecutor i ex)
  assume "armed n"
  with NsExecutor show ?thesis
    by (auto intro!: armed_view[of n] simp: alarm_view_def split: option.split)
next
  case (NsDelete i)
  assume "armed n"
  with NsDelete show ?thesis
    by (simp add: armed_view[OF armed_cancel deleteInstance_view] class_simps)
next
  case (NsSetAlarm i t)
  assume "armed n"
  with NsSetAlarm show ?thesis
    by (simp add: armed_def setAlarm_onto rows_timed_put_schedule rows_timed_others base_inv_schedule
        base_inv_put_row isWired_def class_simps)
next
  case (NsSetClass c a)
  assume "armed n"
  with NsSetClass show ?thesis by (simp add: armed_def[of n] armed_setClass)
next
  case (NsSetExternalClass c)
  assume "armed n"
  with NsSetExternalClass show ?thesis by (simp add: armed_def[of n] armed_setClass)
qed (auto simp: armed_triggerAlarm armed_timer_fires armed_alarm_settled
    armed_cancel setAlarm_onto armed_view[OF _ alarm_view_evictIdle] armed_view[OF _ alarm_view_get_stub]
    armed_view[OF _ alarm_view_stub_call] class_simps)

lemma armed_run: "armed n \<Longrightarrow> \<forall>e \<in> set es. calm e \<Longrightarrow> armed (foldl ns_step n es)"
  by (induction es arbitrary: n) (simp_all add: armed_step)

lemma fireAlarm_wired:
  assumes "isWired n"
  shows "alarm_calls (fireAlarm i r False n) = alarm_calls n @ [(n_now n, i, r)]"
    "running_alarms (fireAlarm i r False n) = running_alarms n @ [(i, r)]"
    "pending_timers (fireAlarm i r False n) = pending_timers n"
    "alarmTimers (fireAlarm i r False n) = alarmTimers n"
    "next_timer (fireAlarm i r False n) = next_timer n"
    "n_now (fireAlarm i r False n) = n_now n"
    "set (alarm_rows (fireAlarm i r False n)) = {x \<in> set (alarm_rows n). al_id x \<noteq> i}"
proof -
  obtain q n1 where g: "getOrCreateExecutor i None False n = (q, n1)" by force
  have v: "alarm_view n1 = alarm_view n" by (rule getOrCreate_view[OF g])
  then show "alarm_calls (fireAlarm i r False n) = alarm_calls n @ [(n_now n, i, r)]"
    "running_alarms (fireAlarm i r False n) = running_alarms n @ [(i, r)]"
    "pending_timers (fireAlarm i r False n) = pending_timers n"
    "alarmTimers (fireAlarm i r False n) = alarmTimers n"
    "next_timer (fireAlarm i r False n) = next_timer n"
    "n_now (fireAlarm i r False n) = n_now n"
    using getOrCreate_wired[OF assms g]
    by (simp_all add: fireAlarm_cases[OF g] alarm_view_def delete_alarm_row_def touch_def)
  have "set (alarm_rows (fireAlarm i r False n)) = set (alarm_rows (delete_alarm_row i (touch i n1)))"
    using getOrCreate_wired[OF assms g] by (simp add: fireAlarm_cases[OF g] alarm_rows_def)
  also have "\<dots> = {x \<in> set (alarm_rows n). al_id x \<noteq> i}"
    using alarm_view_cong(3)[of "touch i n1" n] v by (simp add: view_simps)
  finally show "set (alarm_rows (fireAlarm i r False n)) = {x \<in> set (alarm_rows n). al_id x \<noteq> i}" .
qed

lemmas ns_run_defs =
  new_namespace_def setClass_def restoreAlarms_def alarm_rows_def sql_defs setAlarm_onto
  put_alarm_row_def scheduleAlarmTimer_def timeout_delay_def MAX_TIMEOUT_def Let_def set_alarm_timer_def clear_existing_def
  obj_set_def obj_delete_def isWired_def

fun sets_class :: "ns_event \<Rightarrow> bool" where
  "sets_class (NsSetClass _ _) = True"
| "sets_class (NsSetExternalClass _) = True"
| "sets_class _ = False"

text \<open>
  C7. No alarm is lost. Start with any table of alarms, let anything happen, load or reload the
  class, and then let objects set and delete alarms, alarms fire, fail and be retried, objects
  be evicted, created and deleted, in any order, until the timers are cleared for a shutdown or
  reload. The alarm calls are made outside transactions that are rolled back, and from the
  load on no constructor throws when an alarm fires (the lemmas
  \<open>rolled_back_deleteAlarm_drops_timer\<close> and \<open>constructor_error_drops_timer\<close> below show that
  both conditions are needed). At every point each alarm in the table has its timer pending
  under its name, and when the timer fires the handler is called. The timer is due not before
  the alarm's time and, if that time is ahead, exactly then; the exception is an alarm set more
  than \<open>2\<^sup>3\<^sup>1 - 1\<close> milliseconds (24.8 days) ahead, whose delay overflows: it is due a millisecond
  after it was set. No call has a retry count above \<open>MAX_ALARM_RETRIES\<close>.
\<close>

theorem no_alarm_lost:
  fixes t :: do_tables and ins :: "instance_row list" and nm :: string and timeout now :: int
    and es es' :: "ns_event list"
  assumes "keyed_by alarm_key (do_alarms t)" and "sets_class e" and "\<forall>e' \<in> set es'. calm e'"
  defines "n \<equiv> foldl ns_step (new_namespace nm t ins timeout now) (es @ e # es')"
  shows "(\<forall>r \<in> set (alarm_rows n). \<exists>k tm.
      map_of (alarmTimers n) (al_id r) = Some k \<and> map_of (pending_timers n) k = Some tm
      \<and> tm_id tm = al_id r
      \<and> (al_time r \<le> tm_due tm \<and> tm_due tm \<le> max (al_time r) (n_now n)
          \<or> tm_due tm \<le> n_now n + 1 \<and> tm_due tm - 1 + 2147483647 < al_time r)
      \<and> (tm_due tm \<le> n_now n \<longrightarrow>
          alarm_calls (ns_step n (NsTimer k False)) = alarm_calls n @ [(n_now n, al_id r, tm_retry tm)]))
    \<and> (\<forall>(time, i, retry) \<in> set (alarm_calls n). retry \<le> MAX_ALARM_RETRIES)"
proof -
  let ?n0 = "foldl ns_step (new_namespace nm t ins timeout now) es"
  have "base_inv ?n0" by (rule namespace.inv_run) (rule base_inv_new[OF assms(1)])
  then have "armed (ns_step ?n0 e)" using assms(2) by (cases e) (simp_all add: armed_setClass)
  from armed_run[OF this assms(3)] have n: "armed n" by (simp add: n_def)
  have "\<exists>k tm. map_of (alarmTimers n) (al_id r) = Some k \<and> map_of (pending_timers n) k = Some tm
      \<and> tm_id tm = al_id r
      \<and> (al_time r \<le> tm_due tm \<and> tm_due tm \<le> max (al_time r) (n_now n)
          \<or> tm_due tm \<le> n_now n + 1 \<and> tm_due tm - 1 + 2147483647 < al_time r)
      \<and> (tm_due tm \<le> n_now n \<longrightarrow>
          alarm_calls (ns_step n (NsTimer k False)) = alarm_calls n @ [(n_now n, al_id r, tm_retry tm)])"
    if "r \<in> set (alarm_rows n)" for r
  proof -
    from that n obtain k tm where k: "map_of (alarmTimers n) (al_id r) = Some k"
        "map_of (pending_timers n) k = Some tm" "tm_id tm = al_id r" "on_time (al_time r) (n_now n) (tm_due tm)"
      by (auto simp: armed_def rows_timed_def timed_def)
    have "isWired (forget_timer (al_id r) (clear_timeout k n))"
      using n by (simp add: armed_def isWired_def class_simps)
    from fireAlarm_wired(1)[OF this] k
    have "tm_due tm \<le> n_now n \<longrightarrow>
        alarm_calls (ns_step n (NsTimer k False)) = alarm_calls n @ [(n_now n, al_id r, tm_retry tm)]"
      by (simp add: timer_fires_def forget_timer_def clear_timeout_def)
    with k show ?thesis unfolding on_time_def MAX_TIMEOUT_def by blast
  qed
  moreover have "\<forall>(time, i, retry) \<in> set (alarm_calls n). retry \<le> MAX_ALARM_RETRIES"
    using n by (simp add: armed_def base_inv_def)
  ultimately show ?thesis by blast
qed

theorem no_alarm_lost_witness:
  "let n = foldl ns_step (new_namespace ''N'' \<lparr>do_storage = [], do_alarms = []\<rparr> [] 0 0)
             ([] @ NsSetClass 1 True # [NsSetAlarm ''a'' 5, NsTick 1])
   in map al_id (alarm_rows n) = [''a''] \<and> (\<forall>r \<in> set (alarm_rows n). \<exists>k tm.
        map_of (alarmTimers n) (al_id r) = Some k \<and> map_of (pending_timers n) k = Some tm
        \<and> tm_id tm = al_id r)"
proof -
  have "keyed_by alarm_key (do_alarms \<lparr>do_storage = [], do_alarms = []\<rparr>)"
    "sets_class (NsSetClass 1 True)" "\<forall>e' \<in> set [NsSetAlarm ''a'' 5, NsTick 1]. calm e'"
    by simp_all
  note no_alarm_lost[where nm = "''N''" and es = "[]" and ins = "[]" and timeout = 0 and now = 0, OF this, THEN conjunct1]
  moreover have "map al_id (alarm_rows (foldl ns_step (new_namespace ''N'' \<lparr>do_storage = [], do_alarms = []\<rparr> [] 0 0)
      ([] @ NsSetClass 1 True # [NsSetAlarm ''a'' 5, NsTick 1]))) = [''a'']"
    by (simp add: ns_run_defs)
  ultimately show ?thesis unfolding Let_def by blast
qed

section \<open>Retries\<close>

definition retry_round :: "nat \<Rightarrow> string \<Rightarrow> nat \<Rightarrow> ns_event list" where
  "retry_round k i r = [NsTimer k False, NsAlarmSettled i r False, NsTick (2 ^ r * 1000)]"

definition due_retry :: "nat \<Rightarrow> string \<Rightarrow> nat \<Rightarrow> namespace \<Rightarrow> bool" where
  "due_retry k i r n =
     (base_inv n \<and> isWired n
      \<and> (\<exists>due. (k, \<lparr>tm_due = due, tm_id = i, tm_retry = r\<rparr>) \<in> set (pending_timers n) \<and> due \<le> n_now n)
      \<and> (\<forall>(k', tm) \<in> set (pending_timers n). tm_id tm = i \<longrightarrow> k' = k))"

lemma retry_round_step:
  assumes "due_retry k i r n"
  defines "n' \<equiv> foldl ns_step n (retry_round k i r)"
  shows "alarm_calls n' = alarm_calls n @ [(n_now n, i, r)] \<and> n_now n' = n_now n + 2 ^ r * 1000
    \<and> (if r < MAX_ALARM_RETRIES then due_retry (next_timer n) i (r + 1) n' \<and> next_timer n' = Suc (next_timer n)
       else (\<forall>(k', tm) \<in> set (pending_timers n'). tm_id tm \<noteq> i) \<and> (\<forall>x \<in> set (alarm_rows n'). al_id x \<noteq> i))"
proof -
  from assms(1) obtain due where due: "(k, \<lparr>tm_due = due, tm_id = i, tm_retry = r\<rparr>) \<in> set (pending_timers n)"
      "due \<le> n_now n" and inv: "base_inv n" and wired: "isWired n"
      and only: "\<forall>(k', tm) \<in> set (pending_timers n). tm_id tm = i \<longrightarrow> k' = k"
    by (auto simp: due_retry_def)
  let ?n0 = "forget_timer i (clear_timeout k n)"
  let ?n1 = "fireAlarm i r False ?n0"
  have w0: "isWired ?n0" using wired by (simp add: isWired_def class_simps)
  have "map_of (pending_timers n) k = Some \<lparr>tm_due = due, tm_id = i, tm_retry = r\<rparr>"
    using inv due(1) by (simp add: base_inv_def)
  then have n1: "ns_step n (NsTimer k False) = ?n1" using due(2) by (simp add: timer_fires_def)
  have base: "base_inv n'" unfolding n'_def by (rule namespace.inv_run[OF inv])
  have wired': "isWired n'" using w0
    by (simp add: n'_def retry_round_def n1[simplified] isWired_def class_simps)
  have view1: "alarm_calls ?n1 = alarm_calls n @ [(n_now n, i, r)]" "n_now ?n1 = n_now n"
    "next_timer ?n1 = next_timer n" "(i, r) \<in> set (running_alarms ?n1)"
    "pending_timers ?n1 = obj_delete k (pending_timers n)"
    "set (alarm_rows ?n1) = {x \<in> set (alarm_rows n). al_id x \<noteq> i}"
    using fireAlarm_wired[OF w0] by (simp_all add: forget_timer_def clear_timeout_def alarm_rows_def)
  have gone: "\<forall>(k', tm) \<in> set (obj_delete k (pending_timers n)). tm_id tm \<noteq> i" using only by auto
  show ?thesis
  proof (cases "r < MAX_ALARM_RETRIES")
    case True
    then have n': "n' = (set_alarm_timer i (n_now n + 2 ^ r * 1000) (r + 1)
        (put_alarm_row i (n_now n + 2 ^ r * 1000) (?n1\<lparr>running_alarms := remove1 (i, r) (running_alarms ?n1)\<rparr>)))
        \<lparr>n_now := n_now n + 2 ^ r * 1000\<rparr>"
      using view1 by (simp add: n'_def retry_round_def n1[simplified] alarm_settled_def Let_def
          set_alarm_timer_def put_alarm_row_def)
    then have p: "pending_timers n' = obj_delete k (pending_timers n) @
        [(next_timer n, \<lparr>tm_due = n_now n + 2 ^ r * 1000, tm_id = i, tm_retry = r + 1\<rparr>)]"
        "alarm_calls n' = alarm_calls n @ [(n_now n, i, r)]" "n_now n' = n_now n + 2 ^ r * 1000"
        "next_timer n' = Suc (next_timer n)"
      using view1 by (simp_all add: set_alarm_timer_def put_alarm_row_def)
    moreover have "due_retry (next_timer n) i (r + 1) n'"
      using base wired' gone by (auto simp: due_retry_def p)
    ultimately show ?thesis using True by simp
  next
    case False
    then have "n' = (?n1\<lparr>running_alarms := remove1 (i, r) (running_alarms ?n1)\<rparr>)\<lparr>n_now := n_now n + 2 ^ r * 1000\<rparr>"
      using view1 by (simp add: n'_def retry_round_def n1[simplified] alarm_settled_def Let_def)
    then have "alarm_calls n' = alarm_calls n @ [(n_now n, i, r)]" "n_now n' = n_now n + 2 ^ r * 1000"
        "pending_timers n' = obj_delete k (pending_timers n)" "alarm_rows n' = alarm_rows ?n1"
      using view1 by (simp_all add: alarm_rows_def)
    then show ?thesis using False gone view1(6) by auto
  qed
qed

definition failing_alarm :: "nat \<Rightarrow> nat \<Rightarrow> string \<Rightarrow> nat \<Rightarrow> ns_event list" where
  "failing_alarm k m i j = concat (map (\<lambda>r. retry_round (if r = 0 then k else m + r - 1) i r) [0..<j])"

lemma failing_alarm_rounds:
  assumes "due_retry k i 0 n" and "j \<le> MAX_ALARM_RETRIES"
  defines "n' \<equiv> foldl ns_step n (failing_alarm k (next_timer n) i j)"
  shows "due_retry (if j = 0 then k else next_timer n + j - 1) i j n' \<and> next_timer n' = next_timer n + j
    \<and> n_now n' = n_now n + (2 ^ j - 1) * 1000
    \<and> alarm_calls n' = alarm_calls n @ map (\<lambda>r. (n_now n + (2 ^ r - 1) * 1000, i, r)) [0..<j]"
  using assms(2) unfolding n'_def
proof (induction j)
  case (Suc j)
  let ?m = "foldl ns_step n (failing_alarm k (next_timer n) i j)"
  let ?k = "if j = 0 then k else next_timer n + j - 1"
  have split: "foldl ns_step n (failing_alarm k (next_timer n) i (Suc j)) = foldl ns_step ?m (retry_round ?k i j)"
    by (simp add: failing_alarm_def)
  from Suc have "due_retry ?k i j ?m" and j: "j < MAX_ALARM_RETRIES" by simp_all
  from retry_round_step[OF this(1)] Suc j show ?case
    by (simp add: split algebra_simps)
qed (use assms(1) in \<open>simp add: failing_alarm_def\<close>)

text \<open>
  C16. An alarm whose handler always throws is attempted seven times, at once and then 1, 2, 4,
  8, 16 and 32 seconds after the previous failure, with the retry counts 0 to 6; after the
  last failure the alarm is discarded: the object has neither a row nor a timer. This holds in
  every reachable state of a loaded namespace in which the object's only timer is due.
\<close>

theorem alarm_retries:
  fixes t :: do_tables and ins :: "instance_row list" and nm i :: string and timeout now due :: int
    and es :: "ns_event list" and k :: nat
  assumes "keyed_by alarm_key (do_alarms t)"
  defines "n \<equiv> foldl ns_step (new_namespace nm t ins timeout now) es"
  assumes "isWired n" and "map_of (pending_timers n) k = Some \<lparr>tm_due = due, tm_id = i, tm_retry = 0\<rparr>"
    and "due \<le> n_now n" and "\<forall>(k', tm) \<in> set (pending_timers n). tm_id tm = i \<longrightarrow> k' = k"
  defines "n' \<equiv> foldl ns_step n (failing_alarm k (next_timer n) i 7)"
  shows "alarm_calls n' = alarm_calls n @
      map (\<lambda>(ms, r). (n_now n + ms, i, r))
        [(0, 0), (1000, 1), (3000, 2), (7000, 3), (15000, 4), (31000, 5), (63000, 6)]
    \<and> (\<forall>(k', tm) \<in> set (pending_timers n'). tm_id tm \<noteq> i)
    \<and> (\<forall>x \<in> set (alarm_rows n'). al_id x \<noteq> i)"
proof -
  have "base_inv n" unfolding n_def by (rule namespace.inv_run) (rule base_inv_new[OF assms(1)])
  then have "due_retry k i 0 n"
    using assms(3-6) by (auto simp: due_retry_def dest!: map_of_SomeD)
  from failing_alarm_rounds[OF this, of 6]
  have six: "due_retry (next_timer n + 5) i 6 (foldl ns_step n (failing_alarm k (next_timer n) i 6))"
      "n_now (foldl ns_step n (failing_alarm k (next_timer n) i 6)) = n_now n + 63000"
      "alarm_calls (foldl ns_step n (failing_alarm k (next_timer n) i 6)) =
        alarm_calls n @ map (\<lambda>r. (n_now n + (2 ^ r - 1) * 1000, i, r)) [0..<6]"
    by (simp_all add: MAX_ALARM_RETRIES_def add.commute)
  have "n' = foldl ns_step (foldl ns_step n (failing_alarm k (next_timer n) i 6)) (retry_round (next_timer n + 5) i 6)"
    by (simp add: n'_def failing_alarm_def upt_rec[of _ 7] upt_rec[of _ 6] numeral_eq_Suc)
  with retry_round_step[OF six(1)] six(2,3) show ?thesis
    by (simp add: MAX_ALARM_RETRIES_def upt_rec numeral_eq_Suc)
qed

theorem alarm_retries_witness:
  "let n = foldl ns_step (new_namespace ''N'' \<lparr>do_storage = [], do_alarms = []\<rparr> [] 0 0)
             [NsSetClass 1 True, NsSetAlarm ''a'' 0]
   in alarm_calls (foldl ns_step n (failing_alarm 0 (next_timer n) ''a'' 7)) =
      map (\<lambda>(ms, r). (ms, ''a'', r))
        [(0, 0), (1000, 1), (3000, 2), (7000, 3), (15000, 4), (31000, 5), (63000, 6)]"
proof -
  define n where "n = foldl ns_step (new_namespace ''N'' \<lparr>do_storage = [], do_alarms = []\<rparr> [] 0 0)
             [NsSetClass 1 True, NsSetAlarm ''a'' 0]"
  have k: "keyed_by alarm_key (do_alarms \<lparr>do_storage = [], do_alarms = []\<rparr>)" by simp
  have n: "isWired n" "map_of (pending_timers n) 0 = Some \<lparr>tm_due = 0, tm_id = ''a'', tm_retry = 0\<rparr>"
    "0 \<le> n_now n" "\<forall>(k', tm) \<in> set (pending_timers n). tm_id tm = ''a'' \<longrightarrow> k' = 0"
    and z: "alarm_calls n = []" "n_now n = 0"
    by (simp_all add: n_def ns_run_defs)
  from alarm_retries[OF k, where nm = "''N''" and ins = "[]" and timeout = 0 and now = 0
      and es = "[NsSetClass 1 True, NsSetAlarm ''a'' 0]", folded n_def, OF n]
  have "alarm_calls (foldl ns_step n (failing_alarm 0 (next_timer n) ''a'' 7)) = alarm_calls n @
      map (\<lambda>(ms, r). (n_now n + ms, ''a'', r))
        [(0, 0), (1000, 1), (3000, 2), (7000, 3), (15000, 4), (31000, 5), (63000, 6)]"
    by (rule conjunct1)
  then show ?thesis unfolding Let_def n_def[symmetric] by (simp add: z)
qed

text \<open>
  Two situations the invariant does not cover. A handler that sets an alarm and then throws:
  the retry replaces the entry of the timer it has set, which stays pending, outlives
  \<open>deleteAlarm\<close> and calls the handler of an object that has no alarm. And a constructor that
  throws when an alarm fires: the row stays without a timer until the next reload.
\<close>

lemma orphan_timer_outlives_deleteAlarm:
  "let n = foldl ns_step (new_namespace ''N'' \<lparr>do_storage = [], do_alarms = []\<rparr> [] 0 0)
             [NsSetClass 1 True, NsSetAlarm ''a'' 0, NsTimer 0 False, NsSetAlarm ''a'' 9,
              NsAlarmSettled ''a'' 0 False, NsDeleteAlarm ''a'']
   in alarm_rows n = [] \<and> alarmTimers n = []
      \<and> pending_timers n = [(1, \<lparr>tm_due = 9, tm_id = ''a'', tm_retry = 0\<rparr>)]"
  by (simp add: ns_run_defs timer_fires_def fireAlarm_def getOrCreateExecutor_def create_executor_def
      register_instance_def touch_def clear_timeout_def forget_timer_def delete_alarm_row_def of_alarm_def
      alarm_settled_def MAX_ALARM_RETRIES_def cancelAlarm_def alarm_key_def)

lemma constructor_error_drops_timer:
  "let n = foldl ns_step (new_namespace ''N'' \<lparr>do_storage = [], do_alarms = []\<rparr> [] 0 0)
             [NsSetClass 1 True, NsSetAlarm ''a'' 0, NsTimer 0 True]
   in map al_id (alarm_rows n) = [''a''] \<and> pending_timers n = [] \<and> alarm_calls n = []"
  by (simp add: ns_run_defs timer_fires_def fireAlarm_def getOrCreateExecutor_def create_executor_def
      register_instance_def clear_timeout_def forget_timer_def)

text \<open>
  The overflow: an alarm thirty days ahead calls the handler one millisecond after it was set.
\<close>

lemma far_alarm_fires_at_once:
  "let n = foldl ns_step (new_namespace ''N'' \<lparr>do_storage = [], do_alarms = []\<rparr> [] 0 0)
             [NsSetClass 1 True, NsSetAlarm ''a'' (30 * 24 * 3600000), NsTick 1, NsTimer 0 False]
   in alarm_calls n = [(1, ''a'', 0)] \<and> alarm_rows n = []"
  by (simp add: ns_run_defs timer_fires_def fireAlarm_def getOrCreateExecutor_def create_executor_def
      register_instance_def touch_def clear_timeout_def forget_timer_def delete_alarm_row_def of_alarm_def
      alarm_key_def)

section \<open>Eviction\<close>

definition evictable :: "int \<Rightarrow> int \<Rightarrow> int \<Rightarrow> executor \<Rightarrow> bool" where
  "evictable timeout now since ex =
     (ex_disposed ex \<or> (ex_aborted ex \<and> \<not> ex_active ex)
      \<or> (timeout \<le> now - since \<and> \<not> ex_blocked ex \<and> \<not> ex_active ex \<and> ex_sockets ex = 0))"

lemma evict_one_executors:
  "map_of (executors (evict_one now n e)) i =
   (case map_of (executors n) i of
      None \<Rightarrow> None
    | Some ex \<Rightarrow> if i = fst e \<and> evictable (n_evictionTimeoutMs n) now (snd e) ex then None else Some ex)"
  "n_evictionTimeoutMs (evict_one now n e) = n_evictionTimeoutMs n"
  by (auto simp: evict_one_def drop_executor_def dispose_def map_of_obj_delete evictable_def not_less split: option.split)

lemma evict_fold:
  "distinct (map fst la) \<Longrightarrow>
   map_of (executors (foldl (evict_one now) n la)) i =
   (case map_of (executors n) i of
      None \<Rightarrow> None
    | Some ex \<Rightarrow>
        (case map_of la i of
           None \<Rightarrow> Some ex
         | Some since \<Rightarrow> if evictable (n_evictionTimeoutMs n) now since ex then None else Some ex))"
proof (induction la arbitrary: n)
  case (Cons e la)
  then have "map_of la (fst e) = None" by (simp add: map_of_eq_None_iff)
  with Cons show ?case
    by (cases e) (auto simp: evict_one_executors split: option.split)
qed (simp split: option.split)

text \<open>
  The eviction of idle objects removes exactly the executors that are dead, that were
  aborted and run no request, or that have been idle for the time-out and neither run a
  request, nor block, nor hold a WebSocket; every other executor is kept as it is. The alarms,
  their timers and the remembered ids survive it.
\<close>

theorem eviction_exact:
  assumes "distinct (map fst (lastActivity n))"
  shows "(\<forall>i ex. map_of (executors (evictIdle n)) i = Some ex \<longleftrightarrow>
      map_of (executors n) i = Some ex
      \<and> \<not> (\<exists>since. map_of (lastActivity n) i = Some since
            \<and> (ex_disposed ex \<or> (ex_aborted ex \<and> \<not> ex_active ex)
               \<or> (n_evictionTimeoutMs n \<le> n_now n - since \<and> \<not> ex_blocked ex \<and> \<not> ex_active ex
                  \<and> ex_sockets ex = 0))))
    \<and> do_alarms (n_tables (evictIdle n)) = do_alarms (n_tables n)
    \<and> alarmTimers (evictIdle n) = alarmTimers n \<and> pending_timers (evictIdle n) = pending_timers n
    \<and> knownIds (evictIdle n) = knownIds n"
proof -
  have "knownIds (foldl (evict_one t) m la) = knownIds m" for t m la
    by (induction la arbitrary: m)
      (simp_all add: evict_one_def drop_executor_def dispose_def split: option.split)
  then have "knownIds (evictIdle n) = knownIds n" by (simp add: evictIdle_def)
  moreover have "do_alarms (n_tables (evictIdle n)) = do_alarms (n_tables n)
      \<and> alarmTimers (evictIdle n) = alarmTimers n \<and> pending_timers (evictIdle n) = pending_timers n"
    using alarm_view_evictIdle[of n] by (simp add: alarm_view_def)
  ultimately show ?thesis
    by (auto simp: evictIdle_def evict_fold[OF assms] evictable_def split: option.splits if_splits)
qed

theorem eviction_exact_witness:
  "let ex = \<lparr>ex_serial = 0, ex_active = True, ex_blocked = False, ex_sockets = 0, ex_aborted = False,
             ex_disposed = False, ex_reloads = True\<rparr>;
       n = (new_namespace ''N'' \<lparr>do_storage = [], do_alarms = []\<rparr> [] 10 100)
             \<lparr>executors := [(''a'', ex)], lastActivity := [(''a'', 0)]\<rparr>
   in map_of (executors (evictIdle n)) ''a'' = Some ex"
  using eviction_exact[of "(new_namespace ''N'' \<lparr>do_storage = [], do_alarms = []\<rparr> [] 10 100)
      \<lparr>executors := [(''a'', \<lparr>ex_serial = 0, ex_active = True, ex_blocked = False, ex_sockets = 0,
         ex_aborted = False, ex_disposed = False, ex_reloads = True\<rparr>)], lastActivity := [(''a'', 0)]\<rparr>"]
  by (simp add: Let_def)

text \<open>
  A third one: \<open>deleteAlarm\<close> inside a transaction that is rolled back. The row is restored,
  the timer is not.
\<close>

lemma rolled_back_deleteAlarm_drops_timer:
  "\<not> timed i t ((object_deleteAlarm i n)\<lparr>n_tables := n_tables n\<rparr>)"
  by (simp add: setAlarm_onto cancelAlarm_def timed_def delete_alarm_row_def forget_timer_def map_of_obj_delete)

end
