(* ===== verification/R2.thy ===== *)
theory R2
  imports Contracts Json Dates
begin

text \<open>
  The R2 bucket of \<^verbatim>\<open>src/bindings/r2.ts\<close>: rows in SQLite beside the bodies in files. A file
  system maps absolute paths (lists of names) to files and directories; \<open>join\<close> normalises a key.
  The MD5 digest in hexadecimal and the random version are parameters of the operations, \<open>now\<close>
  is the clock; a time is its number of milliseconds, which \<open>toISOString\<close> keeps. The operations
  on files that the code awaits are one step here. Errors of the file system are values.
\<close>

section \<open>Types\<close>

record r2_limits =
  r2_maxKeySize :: nat
  r2_maxCustomMetadataSize :: nat
  r2_maxBatchDeleteKeys :: nat
  r2_maxMultipartPartSize :: nat
  r2_minMultipartPartSize :: nat
  r2_maxMultipartParts :: nat

definition R2_DEFAULTS :: r2_limits where
  "R2_DEFAULTS =
     \<lparr>r2_maxKeySize = 1024, r2_maxCustomMetadataSize = 2048, r2_maxBatchDeleteKeys = 1000,
      r2_maxMultipartPartSize = 5 * 1024 * 1024 * 1024, r2_minMultipartPartSize = 5 * 1024 * 1024,
      r2_maxMultipartParts = 10000\<rparr>"

record r2_conditional =
  etagMatches :: "string list option"
  etagDoesNotMatch :: "string list option"
  uploadedBefore :: "int option"
  uploadedAfter :: "int option"

record r2_range =
  rg_offset :: "int option"
  rg_length :: "int option"
  rg_suffix :: "int option"

record r2_row =
  r2_bucket :: string
  r2_key :: string
  r2_size :: nat
  r2_etag :: string
  r2_version :: string
  r2_uploaded :: int
  r2_http_metadata :: "string option"
  r2_custom_metadata :: "string option"
  r2_checksums :: "string option"
  r2_tags :: "string option"

record upload_row =
  up_id :: string
  up_bucket :: string
  up_key :: string
  up_http_metadata :: "string option"
  up_custom_metadata :: "string option"
  up_created :: int

record part_row =
  pt_upload :: string
  pt_number :: int
  pt_etag :: string
  pt_size :: nat
  pt_path :: "string list"

datatype node = File bytes | Dir

type_synonym file_system = "(string list \<times> node) list"

record bucket_state =
  r2_objects :: "r2_row list"
  r2_uploads :: "upload_row list"
  r2_parts :: "part_row list"
  r2_files :: file_system

record bucket =
  bk_name :: string
  bk_base :: "string list" \<comment> \<open>\<open>join(dataDir, 'r2', bucket)\<close>\<close>
  bk_limits :: r2_limits

datatype r2_error =
    R2KeyTooLarge nat
  | R2PathTraversal
  | R2MetadataTooLarge nat
  | R2TooManyKeys nat
  | R2UploadNotFound
  | R2PartNotFound int
  | R2PartEtagMismatch int
  | R2BadCursor
  | FsNotADirectory
  | FsIsADirectory
  | FsNotFound
  | StreamFailed

section \<open>Paths and files\<close>

text \<open>\<open>join(base, key)\<close>: empty names and dots are dropped, two dots go up.\<close>

fun join_names :: "string list \<Rightarrow> string list \<Rightarrow> string list" where
  "join_names acc [] = acc"
| "join_names acc (s # ss) =
     join_names (if s = '''' \<or> s = ''.'' then acc else if s = ''..'' then butlast acc else acc @ [s]) ss"

definition join_path :: "string list \<Rightarrow> string \<Rightarrow> string list" where
  "join_path base key = join_names base (split_char CHR ''/'' key)"

text \<open>\<open>mkdirSync(p, { recursive: true })\<close>\<close>

fun mkdirs :: "string list list \<Rightarrow> file_system \<Rightarrow> (r2_error, file_system) res" where
  "mkdirs [] fs = Inr fs"
| "mkdirs (p # ps) fs =
     (case map_of fs p of
        None \<Rightarrow> mkdirs ps (obj_set fs p Dir)
      | Some Dir \<Rightarrow> mkdirs ps fs
      | Some (File _) \<Rightarrow> Inl FsNotADirectory)"

definition ancestors :: "string list \<Rightarrow> string list list" where
  "ancestors p = map (\<lambda>n. take n p) [1..<length p]"

definition write_file :: "string list \<Rightarrow> bytes \<Rightarrow> file_system \<Rightarrow> (r2_error, file_system) res" where
  "write_file p b fs =
     (case map_of fs p of
        Some Dir \<Rightarrow> Inl FsIsADirectory
      | _ \<Rightarrow> Inr (obj_set fs p (File b)))"

definition read_file :: "string list \<Rightarrow> file_system \<Rightarrow> (r2_error, bytes) res" where
  "read_file p fs =
     (case map_of fs p of None \<Rightarrow> Inl FsNotFound | Some Dir \<Rightarrow> Inl FsIsADirectory | Some (File b) \<Rightarrow> Inr b)"

text \<open>\<open>if (existsSync(fp)) rmSync(fp)\<close>\<close>

definition remove_file :: "string list \<Rightarrow> file_system \<Rightarrow> (r2_error, file_system) res" where
  "remove_file p fs =
     (case map_of fs p of
        None \<Rightarrow> Inr fs
      | Some Dir \<Rightarrow> Inl FsIsADirectory
      | Some (File _) \<Rightarrow> Inr (obj_delete p fs))"

section \<open>Values\<close>

text \<open>A stream yields its chunks and then ends or fails.\<close>

datatype r2_value = RNull | RString string | RBuffer bytes | RStream "bytes list" bool

definition value_bytes :: "r2_value \<Rightarrow> bytes" where
  "value_bytes v =
     (case v of RNull \<Rightarrow> '''' | RString s \<Rightarrow> utf8_encode s | RBuffer b \<Rightarrow> b | RStream chunks _ \<Rightarrow> concat chunks)"

text \<open>\<open>writeValueToFile\<close>: what a failing stream has yielded is in the file.\<close>

definition writeValueToFile ::
    "(bytes \<Rightarrow> string) \<Rightarrow> r2_value \<Rightarrow> string list \<Rightarrow> file_system
     \<Rightarrow> (r2_error, string \<times> nat) res \<times> file_system" where
  "writeValueToFile md5 v p fs =
     (case mkdirs (ancestors p) fs of
        Inl e \<Rightarrow> (Inl e, fs)
      | Inr fs1 \<Rightarrow>
          (case write_file p (value_bytes v) fs1 of
             Inl e \<Rightarrow> (Inl e, fs1)
           | Inr fs2 \<Rightarrow>
               (case v of
                  RStream _ True \<Rightarrow> (Inl StreamFailed, fs2)
                | _ \<Rightarrow> (Inr (md5 (value_bytes v), length (value_bytes v)), fs2))))"

text \<open>\<open>Buffer.from(s, 'hex')\<close> and its inverse.\<close>

fun unhex :: "string \<Rightarrow> bytes" where
  "unhex (a # b # s) =
     (case (hex_val (lower_char a), hex_val (lower_char b)) of
        (Some x, Some y) \<Rightarrow> char_of (16 * x + y) # unhex s
      | _ \<Rightarrow> [])"
| "unhex _ = []"

definition to_hex :: "bytes \<Rightarrow> string" where
  "to_hex b = concat (map (\<lambda>c. let n = of_char c :: nat in [hex_digit (n div 16), hex_digit (n mod 16)]) b)"

section \<open>Metadata\<close>

datatype meta_field = MText string | MDate int

type_synonym http_metadata = "(string \<times> meta_field) list"

definition HTTP_METADATA_FIELDS :: "(string \<times> string) list" where
  "HTTP_METADATA_FIELDS =
     [(''content-type'', ''contentType''), (''content-language'', ''contentLanguage''),
      (''content-disposition'', ''contentDisposition''), (''content-encoding'', ''contentEncoding''),
      (''cache-control'', ''cacheControl''), (''expires'', ''cacheExpiry'')]"

text \<open>The truthy value of a field: an empty text counts as absent.\<close>

definition field_value :: "(string \<times> meta_field) list \<Rightarrow> string \<Rightarrow> meta_field option" where
  "field_value m f =
     (case map_of m f of Some (MText t) \<Rightarrow> if t = '''' then None else Some (MText t) | v \<Rightarrow> v)"

definition serializeHttpMetadata :: "http_metadata option \<Rightarrow> string option" where
  "serializeHttpMetadata m =
     (case m of
        None \<Rightarrow> None
      | Some mds \<Rightarrow>
          (let obj = List.map_filter (\<lambda>(h, f).
                 case field_value mds f of
                   None \<Rightarrow> None
                 | Some (MText t) \<Rightarrow> Some (f, JStr t)
                 | Some (MDate d) \<Rightarrow> Some (f, JStr (toISOString d))) HTTP_METADATA_FIELDS
           in if obj = [] then None else Some (stringify (JObj obj))))"

text \<open>\<open>new Date(v)\<close> is read by the parameter \<open>parse_date\<close>; a text that is no JSON is an error.\<close>

definition deserializeHttpMetadata ::
    "(string \<Rightarrow> int) \<Rightarrow> string option \<Rightarrow> http_metadata option" where
  "deserializeHttpMetadata parse_date s =
     (case s of
        None \<Rightarrow> Some []
      | Some text0 \<Rightarrow>
          if text0 = '''' then Some []
          else (case json_parse text0 of
                  Some (JObj obj) \<Rightarrow>
                    Some (List.map_filter (\<lambda>(h, f).
                      case map_of obj f of
                        Some (JStr t) \<Rightarrow>
                          if t = '''' then None
                          else Some (f, if f = ''cacheExpiry'' then MDate (parse_date t) else MText t)
                      | _ \<Rightarrow> None) HTTP_METADATA_FIELDS)
                | _ \<Rightarrow> None))"

definition custom_text :: "(string \<times> string) list option \<Rightarrow> string option" where
  "custom_text m = map_option (\<lambda>kvs. stringify (JObj (map (\<lambda>(k, v). (k, JStr v)) kvs))) m"

definition serializeChecksums :: "(string \<times> bytes) list \<Rightarrow> string" where
  "serializeChecksums c = stringify (JObj (map (\<lambda>(k, v). (k, JStr (to_hex v))) c))"

text \<open>The metadata of a row, as the objects show it; a text that cannot be read back is an error.\<close>

record r2_meta =
  mt_key :: string
  mt_size :: nat
  mt_etag :: string
  mt_version :: string
  mt_uploaded :: int
  mt_http :: http_metadata
  mt_custom :: json
  mt_checksums :: "(string \<times> bytes) list"

fun checksum_entries :: "(string \<times> json) list \<Rightarrow> (string \<times> bytes) list option" where
  "checksum_entries [] = Some []"
| "checksum_entries ((k, v) # kvs) =
     (case v of JStr t \<Rightarrow> map_option (Cons (k, unhex t)) (checksum_entries kvs) | _ \<Rightarrow> None)"

definition deserializeChecksums :: "json \<Rightarrow> (string \<times> bytes) list option" where
  "deserializeChecksums v = (case v of JObj kvs \<Rightarrow> checksum_entries kvs | _ \<Rightarrow> None)"

definition stored_text :: "string option \<Rightarrow> string option" where
  "stored_text s = (case s of Some t \<Rightarrow> if t = '''' then None else Some t | None \<Rightarrow> None)"

definition rowToMeta :: "(string \<Rightarrow> int) \<Rightarrow> r2_row \<Rightarrow> r2_meta option" where
  "rowToMeta parse_date row =
     (case deserializeHttpMetadata parse_date (r2_http_metadata row) of
        None \<Rightarrow> None
      | Some http \<Rightarrow>
          (case (case stored_text (r2_custom_metadata row) of None \<Rightarrow> Some (JObj []) | Some t \<Rightarrow> json_parse t) of
             None \<Rightarrow> None
           | Some custom \<Rightarrow>
               (case (case stored_text (r2_checksums row) of
                        None \<Rightarrow> Some []
                      | Some t \<Rightarrow> Option.bind (json_parse t) deserializeChecksums) of
                  None \<Rightarrow> None
                | Some sums \<Rightarrow>
                    Some \<lparr>mt_key = r2_key row, mt_size = r2_size row, mt_etag = r2_etag row,
                          mt_version = r2_version row, mt_uploaded = r2_uploaded row, mt_http = http,
                          mt_custom = custom, mt_checksums = sums\<rparr>)))"

text \<open>\<open>writeHttpMetadata\<close>: a date is printed by the parameter \<open>toUTCString\<close>.\<close>

definition writeHttpMetadata ::
    "(int \<Rightarrow> string) \<Rightarrow> http_metadata \<Rightarrow> (string \<times> string) list \<Rightarrow> (string \<times> string) list" where
  "writeHttpMetadata toUTCString m headers =
     foldl (\<lambda>hs (h, f). case field_value m f of
        None \<Rightarrow> hs
      | Some (MText t) \<Rightarrow> obj_set hs h t
      | Some (MDate d) \<Rightarrow> obj_set hs h (toUTCString d)) headers HTTP_METADATA_FIELDS"

section \<open>Conditions\<close>

definition quoted :: "string \<Rightarrow> string" where "quoted etag = [CHR 0x22] @ etag @ [CHR 0x22]"

definition evaluateConditional :: "r2_conditional \<Rightarrow> string \<Rightarrow> int \<Rightarrow> bool" where
  "evaluateConditional cond etag uploaded =
     (if (case etagMatches cond of
            Some tags \<Rightarrow> \<not> (\<exists>t \<in> set tags. t = etag \<or> t = quoted etag \<or> t = ''*'') | None \<Rightarrow> False) then False
      else if (case etagDoesNotMatch cond of
            Some tags \<Rightarrow> \<exists>t \<in> set tags. t = etag \<or> t = quoted etag | None \<Rightarrow> False) then False
      else if (case uploadedBefore cond of Some b \<Rightarrow> b \<le> uploaded | None \<Rightarrow> False) then False
      else if (case uploadedAfter cond of Some a \<Rightarrow> uploaded \<le> a | None \<Rightarrow> False) then False
      else True)"

section \<open>Objects\<close>

definition r2_validateKey :: "r2_limits \<Rightarrow> string \<Rightarrow> (r2_error, unit) res" where
  "r2_validateKey lims key =
     (if r2_maxKeySize lims < length (utf8_encode key) then Inl (R2KeyTooLarge (r2_maxKeySize lims))
      else if includes_str key ''..'' then Inl R2PathTraversal
      else Inr ())"

definition validateCustomMetadata :: "r2_limits \<Rightarrow> (string \<times> string) list option \<Rightarrow> (r2_error, unit) res" where
  "validateCustomMetadata lims m =
     (case custom_text m of
        None \<Rightarrow> Inr ()
      | Some text0 \<Rightarrow>
          if r2_maxCustomMetadataSize lims < length (utf8_encode text0)
          then Inl (R2MetadataTooLarge (r2_maxCustomMetadataSize lims)) else Inr ())"

definition r2_filePath :: "bucket \<Rightarrow> string \<Rightarrow> string list" where
  "r2_filePath b key = join_path (bk_base b) key"

definition is_object :: "bucket \<Rightarrow> string \<Rightarrow> r2_row \<Rightarrow> bool" where
  "is_object b key r = (r2_bucket r = bk_name b \<and> r2_key r = key)"

definition getRow :: "bucket \<Rightarrow> string \<Rightarrow> bucket_state \<Rightarrow> r2_row option" where
  "getRow b key st = sql_get (is_object b key) (r2_objects st)"

definition object_key :: "r2_row \<Rightarrow> string \<times> string" where
  "object_key r = (r2_bucket r, r2_key r)"

record put_options =
  po_http :: "http_metadata option"
  po_custom :: "(string \<times> string) list option"
  po_onlyIf :: "r2_conditional option"
  po_sha :: "(string \<times> bytes) list" \<comment> \<open>the digests provided, by algorithm\<close>

definition no_options :: put_options where
  "no_options = \<lparr>po_http = None, po_custom = None, po_onlyIf = None, po_sha = []\<rparr>"

definition provided_digests :: "put_options \<Rightarrow> (string \<times> bytes) list" where
  "provided_digests opts =
     List.map_filter (\<lambda>algo. map_option (\<lambda>d. (algo, d)) (map_of (po_sha opts) algo))
       [''sha1'', ''sha256'', ''sha384'', ''sha512'']"

definition r2_put ::
    "(bytes \<Rightarrow> string) \<Rightarrow> bucket \<Rightarrow> string \<Rightarrow> r2_value \<Rightarrow> put_options \<Rightarrow> int \<Rightarrow> string \<Rightarrow> bucket_state
     \<Rightarrow> (r2_error, r2_row option) res \<times> bucket_state" where
  "r2_put md5 b key v opts now version st =
     (case bind_res (r2_validateKey (bk_limits b) key)
             (\<lambda>_. validateCustomMetadata (bk_limits b) (po_custom opts)) of
        Inl e \<Rightarrow> (Inl e, st)
      | Inr _ \<Rightarrow>
          (if (case (po_onlyIf opts, getRow b key st) of
                 (Some cond, Some row) \<Rightarrow> \<not> evaluateConditional cond (r2_etag row) (r2_uploaded row)
               | _ \<Rightarrow> False)
           then (Inr None, st)
           else
             (case writeValueToFile md5 v (r2_filePath b key) (r2_files st) of
                (Inl e, fs) \<Rightarrow> (Inl e, st\<lparr>r2_files := fs\<rparr>)
              | (Inr (etag, n), fs) \<Rightarrow>
                  (let row = \<lparr>r2_bucket = bk_name b, r2_key = key, r2_size = n, r2_etag = etag,
                         r2_version = version, r2_uploaded = now,
                         r2_http_metadata = serializeHttpMetadata (po_http opts),
                         r2_custom_metadata = custom_text (po_custom opts),
                         r2_checksums = Some (serializeChecksums ((''md5'', unhex etag) # provided_digests opts)),
                         r2_tags = None\<rparr>
                   in (Inr (Some row),
                       st\<lparr>r2_objects := sql_replace object_key row (r2_objects st), r2_files := fs\<rparr>)))))"

text \<open>\<open>get\<close>: nothing, the metadata alone when the condition fails, or a body with its range.\<close>

record r2_body =
  bo_row :: r2_row
  bo_path :: "string list"
  bo_offset :: int
  bo_length :: int
  bo_range :: "(int \<times> int) option"

datatype r2_got = GotNothing | GotMeta r2_row | GotBody r2_body

definition range_of :: "r2_range option \<Rightarrow> int \<Rightarrow> int \<times> int \<times> (int \<times> int) option" where
  "range_of rng totalSize =
     (case rng of
        None \<Rightarrow> (0, totalSize, None)
      | Some r \<Rightarrow>
          (case rg_suffix r of
             Some s \<Rightarrow>
               (let off = max 0 (totalSize - s); len = totalSize - off in (off, len, Some (off, len)))
           | None \<Rightarrow>
               (let off = nullish (rg_offset r) 0;
                    len0 = nullish (rg_length r) (totalSize - off);
                    len = (if totalSize < off + len0 then totalSize - off else len0)
                in (off, len, Some (off, len)))))"

definition r2_get :: "bucket \<Rightarrow> string \<Rightarrow> r2_conditional option \<Rightarrow> r2_range option \<Rightarrow> bucket_state \<Rightarrow> r2_got" where
  "r2_get b key onlyIf rng st =
     (case getRow b key st of
        None \<Rightarrow> GotNothing
      | Some row \<Rightarrow>
          (if (case onlyIf of None \<Rightarrow> False | Some cond \<Rightarrow> \<not> evaluateConditional cond (r2_etag row) (r2_uploaded row))
           then GotMeta row
           else (let (off, len, rg) = range_of rng (int (r2_size row))
                 in GotBody \<lparr>bo_row = row, bo_path = r2_filePath b key, bo_offset = off,
                             bo_length = len, bo_range = rg\<rparr>)))"

text \<open>\<open>Bun.file(p).slice(from, to)\<close>: negative positions count from the end.\<close>

definition file_slice :: "int \<Rightarrow> int \<Rightarrow> bytes \<Rightarrow> bytes" where
  "file_slice from0 to0 content =
     (let n = int (length content);
          pos = (\<lambda>i. if i < 0 then max 0 (n + i) else min i n)
      in take (nat (pos to0 - pos from0)) (drop (nat (pos from0)) content))"

definition body_bytes :: "r2_body \<Rightarrow> bucket_state \<Rightarrow> (r2_error, bytes) res" where
  "body_bytes bo st =
     bind_res (read_file (bo_path bo) (r2_files st)) (\<lambda>content.
       Inr (if bo_offset bo = 0 \<and> bo_length bo = int (r2_size (bo_row bo)) then content
            else file_slice (bo_offset bo) (bo_offset bo + bo_length bo) content))"

definition r2_head :: "bucket \<Rightarrow> string \<Rightarrow> bucket_state \<Rightarrow> r2_row option" where
  "r2_head b key st = getRow b key st"

fun delete_keys :: "bucket \<Rightarrow> string list \<Rightarrow> bucket_state \<Rightarrow> (r2_error, unit) res \<times> bucket_state" where
  "delete_keys b [] st = (Inr (), st)"
| "delete_keys b (k # ks) st =
     (let st1 = st\<lparr>r2_objects := sql_delete (is_object b k) (r2_objects st)\<rparr>
      in case remove_file (r2_filePath b k) (r2_files st1) of
           Inl e \<Rightarrow> (Inl e, st1)
         | Inr fs \<Rightarrow> delete_keys b ks (st1\<lparr>r2_files := fs\<rparr>))"

definition r2_delete :: "bucket \<Rightarrow> string list \<Rightarrow> bucket_state \<Rightarrow> (r2_error, unit) res \<times> bucket_state" where
  "r2_delete b keys st =
     (if r2_maxBatchDeleteKeys (bk_limits b) < length keys
      then (Inl (R2TooManyKeys (r2_maxBatchDeleteKeys (bk_limits b))), st)
      else delete_keys b keys st)"

section \<open>Listing\<close>

record r2_list_options =
  rl_prefix :: "string option"
  rl_limit :: "nat option"
  rl_cursor :: "string option"
  rl_delimiter :: "string option"

record r2_list_result =
  rr_objects :: "r2_row list"
  rr_truncated :: bool
  rr_cursor :: string
  rr_prefixes :: "string list"

definition cursor_offset :: "r2_list_options \<Rightarrow> (r2_error, int) res" where
  "cursor_offset opts =
     (case rl_cursor opts of
        None \<Rightarrow> Inr 0
      | Some c \<Rightarrow> if c = '''' then Inr 0 else (case parse_int c of None \<Rightarrow> Inl R2BadCursor | Some n \<Rightarrow> Inr n))"

definition matching_rows :: "bucket \<Rightarrow> string \<Rightarrow> bucket_state \<Rightarrow> r2_row list" where
  "matching_rows b pfx st =
     sort_key (\<lambda>r. code_units (r2_key r))
       (sql_select (\<lambda>r. r2_bucket r = bk_name b \<and> sql_like None (pfx @ ''%'') (r2_key r)) (r2_objects st))"

text \<open>The key's part up to its first delimiter after the prefix.\<close>

definition delimited :: "string \<Rightarrow> string \<Rightarrow> string \<Rightarrow> string option" where
  "delimited pfx delim key =
     (let rest = drop (length pfx) key
      in map_option (\<lambda>i. pfx @ take (i + length delim) rest) (substr_index delim rest))"

definition r2_list :: "bucket \<Rightarrow> r2_list_options \<Rightarrow> bucket_state \<Rightarrow> (r2_error, r2_list_result) res" where
  "r2_list b opts st =
     (let pfx = nullish (rl_prefix opts) '''';
          limit = nullish (rl_limit opts) 1000
      in bind_res (cursor_offset opts) (\<lambda>off.
           let rows = take (limit + 1) (drop (nat off) (matching_rows b pfx st));
               truncated = (limit < length rows);
               page = take limit rows;
               delim = nullish (rl_delimiter opts) '''';
               cursor = (if truncated then show_int (off + int limit) else '''')
           in if delim \<noteq> '''' then
                Inr \<lparr>rr_objects = filter (\<lambda>r. delimited pfx delim (r2_key r) = None) page,
                     rr_truncated = truncated, rr_cursor = cursor,
                     rr_prefixes = sort_key code_units
                       (remdups (List.map_filter (\<lambda>r. delimited pfx delim (r2_key r)) page))\<rparr>
              else
                Inr \<lparr>rr_objects = (if truncated then page else rows), rr_truncated = truncated,
                     rr_cursor = cursor, rr_prefixes = []\<rparr>))"

definition buildListObject ::
    "string list option \<Rightarrow> http_metadata \<times> (string \<times> string) list \<Rightarrow> http_metadata \<times> (string \<times> string) list" where
  "buildListObject include0 m =
     (case include0 of
        None \<Rightarrow> m
      | Some mds \<Rightarrow> (if ''httpMetadata'' \<in> set mds then fst m else [],
                        if ''customMetadata'' \<in> set mds then snd m else []))"

section \<open>Multipart uploads\<close>

definition createMultipartUpload ::
    "bucket \<Rightarrow> string \<Rightarrow> http_metadata option \<Rightarrow> (string \<times> string) list option \<Rightarrow> int \<Rightarrow> string \<Rightarrow> bucket_state
     \<Rightarrow> (r2_error, string) res \<times> bucket_state" where
  "createMultipartUpload b key http custom now uploadId st =
     (case bind_res (r2_validateKey (bk_limits b) key) (\<lambda>_. validateCustomMetadata (bk_limits b) custom) of
        Inl e \<Rightarrow> (Inl e, st)
      | Inr _ \<Rightarrow>
          (Inr uploadId,
           st\<lparr>r2_uploads := sql_insert \<lparr>up_id = uploadId, up_bucket = bk_name b, up_key = key,
                up_http_metadata = serializeHttpMetadata http, up_custom_metadata = custom_text custom,
                up_created = now\<rparr> (r2_uploads st)\<rparr>))"

definition find_upload :: "bucket \<Rightarrow> string \<Rightarrow> bucket_state \<Rightarrow> upload_row option" where
  "find_upload b uploadId st = sql_get (\<lambda>u. up_id u = uploadId \<and> up_bucket u = bk_name b) (r2_uploads st)"

definition part_dir :: "bucket \<Rightarrow> string \<Rightarrow> string list" where
  "part_dir b uploadId = bk_base b @ [''__multipart__'', uploadId]"

definition part_path :: "bucket \<Rightarrow> string \<Rightarrow> int \<Rightarrow> string list" where
  "part_path b uploadId n = part_dir b uploadId @ [''part-'' @ show_int n]"

definition part_key :: "part_row \<Rightarrow> string \<times> int" where
  "part_key p = (pt_upload p, pt_number p)"

definition uploadPart ::
    "(bytes \<Rightarrow> string) \<Rightarrow> bucket \<Rightarrow> string \<Rightarrow> int \<Rightarrow> r2_value \<Rightarrow> bucket_state
     \<Rightarrow> (r2_error, int \<times> string) res \<times> bucket_state" where
  "uploadPart md5 b uploadId n v st =
     (case find_upload b uploadId st of
        None \<Rightarrow> (Inl R2UploadNotFound, st)
      | Some _ \<Rightarrow>
          (case writeValueToFile md5 v (part_path b uploadId n) (r2_files st) of
             (Inl e, fs) \<Rightarrow> (Inl e, st\<lparr>r2_files := fs\<rparr>)
           | (Inr (etag, m), fs) \<Rightarrow>
               (Inr (n, etag),
                st\<lparr>r2_parts := sql_replace part_key
                     \<lparr>pt_upload = uploadId, pt_number = n, pt_etag = etag, pt_size = m,
                      pt_path = part_path b uploadId n\<rparr> (r2_parts st),
                   r2_files := fs\<rparr>)))"

definition parts_of :: "string \<Rightarrow> bucket_state \<Rightarrow> part_row list" where
  "parts_of uploadId st = sql_select (\<lambda>p. pt_upload p = uploadId) (r2_parts st)"

fun check_parts :: "part_row list \<Rightarrow> (int \<times> string) list \<Rightarrow> (r2_error, part_row list) res" where
  "check_parts rows [] = Inr []"
| "check_parts rows ((n, etag) # ps) =
     (case find (\<lambda>p. pt_number p = n) rows of
        None \<Rightarrow> Inl (R2PartNotFound n)
      | Some row \<Rightarrow>
          if pt_etag row \<noteq> etag then Inl (R2PartEtagMismatch n)
          else bind_res (check_parts rows ps) (\<lambda>rest. Inr (row # rest)))"

text \<open>The loop over the part files: what is written before one cannot be read, and the error.\<close>

fun gather_parts :: "part_row list \<Rightarrow> file_system \<Rightarrow> bytes \<times> r2_error option" where
  "gather_parts [] fs = ([], None)"
| "gather_parts (row # rows) fs =
     (case read_file (pt_path row) fs of
        Inl e \<Rightarrow> ([], Some e)
      | Inr b \<Rightarrow> (let (bs, r) = gather_parts rows fs in (b @ bs, r)))"

definition computeMultipartEtag :: "(bytes \<Rightarrow> string) \<Rightarrow> part_row list \<Rightarrow> string" where
  "computeMultipartEtag md5 rows =
     md5 (concat (map (\<lambda>r. unhex (pt_etag r)) rows)) @ ''-'' @ show_nat (length rows)"

definition drop_upload :: "string \<Rightarrow> bucket_state \<Rightarrow> bucket_state" where
  "drop_upload uploadId st =
     st\<lparr>r2_parts := sql_delete (\<lambda>p. pt_upload p = uploadId) (r2_parts st),
        r2_uploads := sql_delete (\<lambda>u. up_id u = uploadId) (r2_uploads st)\<rparr>"

text \<open>\<open>rmSync(partDir, { recursive: true, force: true })\<close>\<close>

definition removePartFiles :: "bucket \<Rightarrow> string \<Rightarrow> bucket_state \<Rightarrow> bucket_state" where
  "removePartFiles b uploadId st =
     st\<lparr>r2_files := filter (\<lambda>e. \<not> prefix (part_dir b uploadId) (fst e)) (r2_files st)\<rparr>"

definition complete_upload ::
    "(bytes \<Rightarrow> string) \<Rightarrow> bucket \<Rightarrow> string \<Rightarrow> string \<Rightarrow> (int \<times> string) list \<Rightarrow> int \<Rightarrow> string \<Rightarrow> bucket_state
     \<Rightarrow> (r2_error, r2_row) res \<times> bucket_state" where
  "complete_upload md5 b key uploadId parts now version st =
     (case find_upload b uploadId st of
        None \<Rightarrow> (Inl R2UploadNotFound, st)
      | Some upload \<Rightarrow>
          (case check_parts (parts_of uploadId st) (sort_key fst parts) of
             Inl e \<Rightarrow> (Inl e, st)
           | Inr rows \<Rightarrow>
               (case mkdirs (ancestors (r2_filePath b key)) (r2_files st) of
                  Inl e \<Rightarrow> (Inl e, st)
                | Inr fs1 \<Rightarrow>
                    (let (content, failure) = gather_parts rows fs1
                     in case write_file (r2_filePath b key) content fs1 of
                          Inl e \<Rightarrow> (Inl e, st\<lparr>r2_files := fs1\<rparr>)
                        | Inr fs2 \<Rightarrow>
                            (case failure of
                               Some e \<Rightarrow> (Inl e, st\<lparr>r2_files := fs2\<rparr>)
                             | None \<Rightarrow>
                                 (let row = \<lparr>r2_bucket = bk_name b, r2_key = key, r2_size = length content,
                                        r2_etag = computeMultipartEtag md5 rows, r2_version = version,
                                        r2_uploaded = now, r2_http_metadata = up_http_metadata upload,
                                        r2_custom_metadata = up_custom_metadata upload,
                                        r2_checksums = None, r2_tags = None\<rparr>
                                  in (Inr row,
                                      removePartFiles b uploadId (drop_upload uploadId
                                        (st\<lparr>r2_objects := sql_replace object_key row (r2_objects st),
                                           r2_files := fs2\<rparr>)))))))))"

definition abort_upload :: "bucket \<Rightarrow> string \<Rightarrow> bucket_state \<Rightarrow> bucket_state" where
  "abort_upload b uploadId st = removePartFiles b uploadId (drop_upload uploadId st)"

definition listParts :: "string \<Rightarrow> bucket_state \<Rightarrow> part_row list" where
  "listParts uploadId st = sort_key pt_number (parts_of uploadId st)"

definition listMultipartUploads :: "bucket \<Rightarrow> string option \<Rightarrow> bucket_state \<Rightarrow> upload_row list" where
  "listMultipartUploads b pfx st =
     sort_key (\<lambda>u. code_units (up_key u))
       (sql_select (\<lambda>u. up_bucket u = bk_name b
          \<and> (nullish pfx '''' \<noteq> '''' \<longrightarrow> sql_like None (nullish pfx '''' @ ''%'') (up_key u))) (r2_uploads st))"

section \<open>Tags\<close>

definition tags_json :: "(string \<times> string) list \<Rightarrow> json" where
  "tags_json tags = JArr (map (\<lambda>(k, v). JObj [(''key'', JStr k), (''value'', JStr v)]) tags)"

definition r2_getTags :: "bucket \<Rightarrow> string \<Rightarrow> bucket_state \<Rightarrow> json option" where
  "r2_getTags b key st =
     (case getRow b key st of
        None \<Rightarrow> Some (JArr [])
      | Some row \<Rightarrow>
          (case r2_tags row of
             None \<Rightarrow> Some (JArr [])
           | Some t \<Rightarrow> if t = '''' then Some (JArr []) else json_parse t))"

definition r2_setTags :: "bucket \<Rightarrow> string \<Rightarrow> (string \<times> string) list \<Rightarrow> bucket_state \<Rightarrow> bucket_state" where
  "r2_setTags b key tags st =
     st\<lparr>r2_objects := sql_update (is_object b key)
          (\<lambda>r. r\<lparr>r2_tags := (if tags = [] then None else Some (stringify (tags_json tags)))\<rparr>) (r2_objects st)\<rparr>"

end
