(* ===== verification/S3Xml.thy ===== *)
theory S3Xml
  imports R2
begin

text \<open>
  The XML of the S3 gateway, \<^verbatim>\<open>src/s3/xml.ts\<close>: the documents it writes and the request bodies
  it reads. The regular expressions are written as the scanners they are: each is tried at every
  position from the left, and none of them can match in two ways at one position. \<open>nl\<close> is the
  line break and \<open>dq\<close> puts a text between double quotes.
\<close>

section \<open>Writing\<close>

definition nl :: string where "nl = [CHR 0x0A]"
definition dq :: "string \<Rightarrow> string" where "dq s = [CHR 0x22] @ s @ [CHR 0x22]"

definition escape_char :: "char \<Rightarrow> string" where
  "escape_char c =
     (if c = CHR ''<'' then ''&lt;''
      else if c = CHR ''>'' then ''&gt;''
      else if c = CHR ''&'' then ''&amp;''
      else if c = CHR 0x27 then ''&apos;''
      else if c = CHR 0x22 then ''&quot;''
      else [c])"

definition escapeXML :: "string \<Rightarrow> string" where
  "escapeXML s = concat (map escape_char s)"

definition elem :: "string \<Rightarrow> string \<Rightarrow> string" where
  "elem name body = ''<'' @ name @ ''>'' @ body @ ''</'' @ name @ ''>''"

definition xml_prolog :: string where
  "xml_prolog = ''<?xml version='' @ dq ''1.0'' @ '' encoding='' @ dq ''UTF-8'' @ ''?>''"

definition s3_open :: "string \<Rightarrow> string" where
  "s3_open name = ''<'' @ name @ '' xmlns='' @ dq ''http://s3.amazonaws.com/doc/2006-03-01/'' @ ''>''"

definition s3_document :: "string \<Rightarrow> string list \<Rightarrow> string" where
  "s3_document name body = join nl ([xml_prolog, s3_open name] @ body @ [''</'' @ name @ ''>''])"

datatype s3_code =
    NoSuchBucket | NoSuchKey | NoSuchUpload | NoSuchCORSConfiguration | AccessDenied
  | PreconditionFailed | NotModified | InvalidArgument | InvalidRequest | InvalidRange
  | InvalidPart | MalformedXML | BadDigest | InternalError

fun statusForError :: "s3_code \<Rightarrow> nat" where
  "statusForError NoSuchBucket = 404"
| "statusForError NoSuchKey = 404"
| "statusForError NoSuchUpload = 404"
| "statusForError NoSuchCORSConfiguration = 404"
| "statusForError AccessDenied = 403"
| "statusForError PreconditionFailed = 412"
| "statusForError NotModified = 304"
| "statusForError InvalidArgument = 400"
| "statusForError InvalidRequest = 400"
| "statusForError InvalidRange = 416"
| "statusForError InvalidPart = 400"
| "statusForError MalformedXML = 400"
| "statusForError BadDigest = 400"
| "statusForError InternalError = 500"

fun code_name :: "s3_code \<Rightarrow> string" where
  "code_name NoSuchBucket = ''NoSuchBucket''"
| "code_name NoSuchKey = ''NoSuchKey''"
| "code_name NoSuchUpload = ''NoSuchUpload''"
| "code_name NoSuchCORSConfiguration = ''NoSuchCORSConfiguration''"
| "code_name AccessDenied = ''AccessDenied''"
| "code_name PreconditionFailed = ''PreconditionFailed''"
| "code_name NotModified = ''NotModified''"
| "code_name InvalidArgument = ''InvalidArgument''"
| "code_name InvalidRequest = ''InvalidRequest''"
| "code_name InvalidRange = ''InvalidRange''"
| "code_name InvalidPart = ''InvalidPart''"
| "code_name MalformedXML = ''MalformedXML''"
| "code_name BadDigest = ''BadDigest''"
| "code_name InternalError = ''InternalError''"

definition error_xml :: "s3_code \<Rightarrow> string \<Rightarrow> string \<Rightarrow> string" where
  "error_xml code message resource =
     join nl
       [xml_prolog, ''<Error>'',
        ''  '' @ elem ''Code'' (escapeXML (code_name code)),
        ''  '' @ elem ''Message'' (escapeXML message),
        ''  '' @ elem ''Resource'' (escapeXML resource),
        ''  '' @ elem ''RequestId'' ''0000000000000000'', ''</Error>'']"

definition content_xml :: "r2_row \<Rightarrow> string" where
  "content_xml o1 =
     join nl
       [''  <Contents>'',
        ''    '' @ elem ''Key'' (escapeXML (r2_key o1)),
        ''    '' @ elem ''LastModified'' (toISOString (r2_uploaded o1)),
        ''    '' @ elem ''ETag'' (dq (r2_etag o1)),
        ''    '' @ elem ''Size'' (show_nat (r2_size o1)),
        ''    <StorageClass>STANDARD</StorageClass>'',
        ''  </Contents>'']"

definition renderContents :: "r2_row list \<Rightarrow> string" where
  "renderContents items = join nl (map content_xml items)"

definition renderCommonPrefixes :: "string list \<Rightarrow> string" where
  "renderCommonPrefixes ps =
     join nl (map (\<lambda>p. ''  '' @ elem ''CommonPrefixes'' (elem ''Prefix'' (escapeXML p))) ps)"

text \<open>A truthy text inside its element, or nothing.\<close>

definition optional_elem :: "string \<Rightarrow> string option \<Rightarrow> string" where
  "optional_elem name v = (case stored_text v of None \<Rightarrow> '''' | Some t \<Rightarrow> elem name (escapeXML t))"

record list_params =
  lp_prefix :: "string option"
  lp_from :: "string option" \<comment> \<open>the continuation token of version 2, the marker of version 1\<close>
  lp_maxKeys :: "nat option"
  lp_delimiter :: "string option"

definition listBucketV2Xml ::
    "string \<Rightarrow> list_params \<Rightarrow> r2_row list \<Rightarrow> bool \<Rightarrow> string option \<Rightarrow> string list \<Rightarrow> string" where
  "listBucketV2Xml bucket params items truncated nextContinuation pfxs =
     s3_document ''ListBucketResult''
       [''  '' @ elem ''Name'' (escapeXML bucket),
        ''  '' @ elem ''Prefix'' (escapeXML (nullish (lp_prefix params) '''')),
        ''  '' @ optional_elem ''Delimiter'' (lp_delimiter params),
        ''  '' @ elem ''KeyCount'' (show_nat (length items + length pfxs)),
        ''  '' @ elem ''MaxKeys'' (show_nat (nullish (lp_maxKeys params) 1000)),
        ''  '' @ elem ''IsTruncated'' (if truncated then ''true'' else ''false''),
        ''  '' @ optional_elem ''NextContinuationToken'' nextContinuation,
        renderContents items, renderCommonPrefixes pfxs]"

definition listBucketV1Xml ::
    "string \<Rightarrow> list_params \<Rightarrow> r2_row list \<Rightarrow> bool \<Rightarrow> string option \<Rightarrow> string list \<Rightarrow> string" where
  "listBucketV1Xml bucket params items truncated nextMarker pfxs =
     s3_document ''ListBucketResult''
       [''  '' @ elem ''Name'' (escapeXML bucket),
        ''  '' @ elem ''Prefix'' (escapeXML (nullish (lp_prefix params) '''')),
        ''  '' @ (if stored_text (lp_from params) = None then ''<Marker/>'' else optional_elem ''Marker'' (lp_from params)),
        ''  '' @ optional_elem ''Delimiter'' (lp_delimiter params),
        ''  '' @ elem ''MaxKeys'' (show_nat (nullish (lp_maxKeys params) 1000)),
        ''  '' @ elem ''IsTruncated'' (if truncated then ''true'' else ''false''),
        ''  '' @ optional_elem ''NextMarker'' nextMarker,
        renderContents items, renderCommonPrefixes pfxs]"

definition getBucketLocationXml :: string where
  "getBucketLocationXml =
     join nl [xml_prolog, s3_open ''LocationConstraint'' @ ''auto</LocationConstraint>'']"

definition listAllMyBucketsXml :: "(string \<times> int) list \<Rightarrow> string" where
  "listAllMyBucketsXml buckets =
     s3_document ''ListAllMyBucketsResult''
       [''  <Owner>'', ''    '' @ elem ''ID'' ''00000000'', ''    '' @ elem ''DisplayName'' ''lopata'', ''  </Owner>'',
        ''  <Buckets>'',
        join nl (map (\<lambda>(name, t). join nl
          [''    <Bucket>'', ''      '' @ elem ''Name'' (escapeXML name),
           ''      '' @ elem ''CreationDate'' (toISOString t), ''    </Bucket>'']) buckets),
        ''  </Buckets>'']"

definition initiateMultipartUploadXml :: "string \<Rightarrow> string \<Rightarrow> string \<Rightarrow> string" where
  "initiateMultipartUploadXml bucket key uploadId =
     s3_document ''InitiateMultipartUploadResult''
       [''  '' @ elem ''Bucket'' (escapeXML bucket), ''  '' @ elem ''Key'' (escapeXML key),
        ''  '' @ elem ''UploadId'' (escapeXML uploadId)]"

definition completeMultipartUploadXml :: "string \<Rightarrow> string \<Rightarrow> string \<Rightarrow> string \<Rightarrow> string" where
  "completeMultipartUploadXml bucket key etag location =
     s3_document ''CompleteMultipartUploadResult''
       [''  '' @ elem ''Location'' (escapeXML location), ''  '' @ elem ''Bucket'' (escapeXML bucket),
        ''  '' @ elem ''Key'' (escapeXML key), ''  '' @ elem ''ETag'' (dq (escapeXML etag))]"

definition copyObjectResultXml :: "string \<Rightarrow> int \<Rightarrow> string" where
  "copyObjectResultXml etag t =
     s3_document ''CopyObjectResult''
       [''  '' @ elem ''LastModified'' (toISOString t), ''  '' @ elem ''ETag'' (dq (escapeXML etag))]"

definition copyPartResultXml :: "string \<Rightarrow> int \<Rightarrow> string" where
  "copyPartResultXml etag t =
     s3_document ''CopyPartResult''
       [''  '' @ elem ''LastModified'' (toISOString t), ''  '' @ elem ''ETag'' (dq (escapeXML etag))]"

record object_attributes =
  oa_etag :: "string option"
  oa_size :: "nat option"
  oa_storageClass :: "string option"

definition getObjectAttributesXml :: "object_attributes \<Rightarrow> string" where
  "getObjectAttributesXml a =
     s3_document ''GetObjectAttributesOutput''
       [join nl
          ((case oa_etag a of None \<Rightarrow> [] | Some e \<Rightarrow> [''  '' @ elem ''ETag'' (escapeXML e)])
           @ (case oa_size a of None \<Rightarrow> [] | Some n \<Rightarrow> [''  '' @ elem ''ObjectSize'' (show_nat n)])
           @ (case oa_storageClass a of None \<Rightarrow> [] | Some c \<Rightarrow> [''  '' @ elem ''StorageClass'' (escapeXML c)]))]"

definition tag_xml :: "string \<times> string \<Rightarrow> string" where
  "tag_xml t = ''    '' @ elem ''Tag'' (elem ''Key'' (escapeXML (fst t)) @ elem ''Value'' (escapeXML (snd t)))"

definition taggingXml :: "(string \<times> string) list \<Rightarrow> string" where
  "taggingXml tags = s3_document ''Tagging'' [''  <TagSet>'', join nl (map tag_xml tags), ''  </TagSet>'']"

type_synonym delete_entry = "string \<times> (string \<times> string) option"

definition deleteResultXml :: "delete_entry list \<Rightarrow> bool \<Rightarrow> string" where
  "deleteResultXml entries quiet =
     s3_document ''DeleteResult''
       [join nl (filter (\<lambda>s. s \<noteq> '''') (map (\<lambda>(key, err).
          case err of
            Some (code, message) \<Rightarrow>
              join nl [''  <Error>'', ''    '' @ elem ''Key'' (escapeXML key), ''    '' @ elem ''Code'' (escapeXML code),
                       ''    '' @ elem ''Message'' (escapeXML message), ''  </Error>'']
          | None \<Rightarrow>
              if quiet then ''''
              else join nl [''  <Deleted>'', ''    '' @ elem ''Key'' (escapeXML key), ''  </Deleted>'']) entries))]"

definition listMultipartUploadsXml :: "string \<Rightarrow> upload_row list \<Rightarrow> string" where
  "listMultipartUploadsXml bucket uploads =
     s3_document ''ListMultipartUploadsResult''
       [''  '' @ elem ''Bucket'' (escapeXML bucket), ''  '' @ elem ''IsTruncated'' ''false'',
        join nl (map (\<lambda>u. join nl
          [''  <Upload>'', ''    '' @ elem ''Key'' (escapeXML (up_key u)), ''    '' @ elem ''UploadId'' (escapeXML (up_id u)),
           ''    '' @ elem ''Initiated'' (toISOString (up_created u)),
           ''    <StorageClass>STANDARD</StorageClass>'', ''  </Upload>'']) uploads)]"

definition listPartsXml :: "string \<Rightarrow> string \<Rightarrow> string \<Rightarrow> int \<Rightarrow> part_row list \<Rightarrow> string" where
  "listPartsXml bucket key uploadId now parts =
     s3_document ''ListPartsResult''
       [''  '' @ elem ''Bucket'' (escapeXML bucket), ''  '' @ elem ''Key'' (escapeXML key),
        ''  '' @ elem ''UploadId'' (escapeXML uploadId), ''  <StorageClass>STANDARD</StorageClass>'',
        ''  '' @ elem ''IsTruncated'' ''false'',
        join nl (map (\<lambda>p. join nl
          [''  <Part>'', ''    '' @ elem ''PartNumber'' (show_int (pt_number p)),
           ''    '' @ elem ''LastModified'' (toISOString now), ''    '' @ elem ''ETag'' (dq (escapeXML (pt_etag p))),
           ''    '' @ elem ''Size'' (show_nat (pt_size p)), ''  </Part>'']) parts)]"

section \<open>Reading\<close>

text \<open>\<open>s.replace(/p/g, r)\<close> for a literal pattern.\<close>

function replace_all :: "string \<Rightarrow> string \<Rightarrow> string \<Rightarrow> string" where
  "replace_all p r s =
     (case s of
        [] \<Rightarrow> []
      | c # t \<Rightarrow> if p \<noteq> '''' \<and> prefix p s then r @ replace_all p r (drop (length p) s) else c # replace_all p r t)"
  by auto
termination by (relation "measure (\<lambda>(p, r, s). length s)") auto

declare replace_all.simps [simp del]

definition decodeXmlEntities :: "string \<Rightarrow> string" where
  "decodeXmlEntities s =
     replace_all ''&amp;'' ''&''
       (replace_all ''&apos;'' [CHR 0x27]
         (replace_all ''&quot;'' [CHR 0x22]
           (replace_all ''&gt;'' ''>'' (replace_all ''&lt;'' ''<'' s))))"

definition lit :: "string \<Rightarrow> string \<Rightarrow> string option" where
  "lit p s = (if prefix p s then Some (drop (length p) s) else None)"

definition up_to_lt :: "string \<Rightarrow> string \<times> string" where
  "up_to_lt s = (takeWhile (\<lambda>c. c \<noteq> CHR ''<'') s, dropWhile (\<lambda>c. c \<noteq> CHR ''<'') s)"

text \<open>A global regular expression: the matches of the scanner \<open>m\<close>, from the left.\<close>

function all_matches :: "(string \<Rightarrow> ('a \<times> string) option) \<Rightarrow> string \<Rightarrow> 'a list" where
  "all_matches m s =
     (case s of
        [] \<Rightarrow> []
      | c # t \<Rightarrow>
          (case m s of
             Some (x, rest) \<Rightarrow> if length rest < length s then x # all_matches m rest else []
           | None \<Rightarrow> all_matches m t))"
  by auto
termination by (relation "measure (\<lambda>(m, s). length s)") auto

declare all_matches.simps [simp del]

fun first_match :: "(string \<Rightarrow> ('a \<times> string) option) \<Rightarrow> string \<Rightarrow> 'a option" where
  "first_match m s =
     (case m s of Some (x, rest) \<Rightarrow> Some x | None \<Rightarrow> (case s of [] \<Rightarrow> None | c # t \<Rightarrow> first_match m t))"

declare first_match.simps [simp del]

definition match_tag :: "string \<Rightarrow> ((string \<times> string) \<times> string) option" where
  "match_tag s =
     Option.bind (lit ''<Tag>'' s) (\<lambda>s.
     Option.bind (lit ''<Key>'' (trim_start s)) (\<lambda>s.
     let (k, s) = up_to_lt s in
     Option.bind (lit ''</Key>'' s) (\<lambda>s.
     Option.bind (lit ''<Value>'' (trim_start s)) (\<lambda>s.
     let (v, s) = up_to_lt s in
     Option.bind (lit ''</Value>'' s) (\<lambda>s.
     Option.bind (lit ''</Tag>'' (trim_start s)) (\<lambda>s.
     Some ((k, v), s)))))))"

definition parseTaggingXml :: "string \<Rightarrow> (string \<times> string) list" where
  "parseTaggingXml body =
     map (\<lambda>(k, v). (decodeXmlEntities k, decodeXmlEntities v)) (all_matches match_tag body)"

text \<open>The text up to the first occurrence of \<open>p\<close>, and what follows it.\<close>

definition up_to :: "string \<Rightarrow> string \<Rightarrow> (string \<times> string) option" where
  "up_to p s = map_option (\<lambda>i. (take i s, drop (i + length p) s)) (substr_index p s)"

definition match_part :: "string \<Rightarrow> (string \<times> string) option" where
  "match_part s = Option.bind (lit ''<Part>'' s) (up_to ''</Part>'')"

definition match_number :: "string \<Rightarrow> (nat \<times> string) option" where
  "match_number s =
     Option.bind (lit ''<PartNumber>'' s) (\<lambda>s.
     let t = trim_start s; ds = takeWhile is_digit t in
     if ds = '''' then None
     else map_option (Pair (digits_val ds)) (lit ''</PartNumber>'' (trim_start (drop (length ds) t))))"

definition match_etag :: "string \<Rightarrow> (string \<times> string) option" where
  "match_etag s = map_option (\<lambda>(t, rest). (trim t, rest)) (Option.bind (lit ''<ETag>'' s) (up_to ''</ETag>''))"

definition strip_char :: "char \<Rightarrow> string \<Rightarrow> string" where
  "strip_char c s = rev (dropWhile (\<lambda>x. x = c) (rev (dropWhile (\<lambda>x. x = c) s)))"

text \<open>\<open>replace(/^&quot;+|&quot;+$/g, '')\<close>: the repetition is that of the semicolon.\<close>

definition strip_quot :: "string \<Rightarrow> string" where
  "strip_quot s =
     (let s1 = (if prefix ''&quot;'' s then dropWhile (\<lambda>x. x = CHR '';'') (drop 5 s) else s);
          r = dropWhile (\<lambda>x. x = CHR '';'') (rev s1)
      in if suffix '';'' s1 \<and> prefix (rev ''&quot'') r then rev (drop 5 r) else s1)"

definition parseCompletePartsXml :: "string \<Rightarrow> (int \<times> string) list" where
  "parseCompletePartsXml body =
     List.map_filter (\<lambda>block.
       case (first_match match_number block, first_match match_etag block) of
         (Some n, Some t) \<Rightarrow> Some (int n, strip_quot (strip_char CHR 0x22 (trim t)))
       | _ \<Rightarrow> None)
     (map (\<lambda>inner. ''<Part>'' @ inner @ ''</Part>'') (all_matches match_part body))"

definition match_version :: "string \<Rightarrow> string option" where
  "match_version s =
     Option.bind (lit ''<VersionId>'' (trim_start s)) (\<lambda>s. lit ''</VersionId>'' (snd (up_to_lt s)))"

definition match_object :: "string \<Rightarrow> (string \<times> string) option" where
  "match_object s =
     Option.bind (lit ''<Object>'' s) (\<lambda>s.
     Option.bind (lit ''<Key>'' (trim_start s)) (\<lambda>s.
     let (k, s) = up_to_lt s in
     if k = '''' then None
     else
       Option.bind (lit ''</Key>'' s) (\<lambda>s.
       map_option (Pair k) (lit ''</Object>'' (trim_start (nullish (match_version s) s))))))"

definition match_quiet :: "string \<Rightarrow> (unit \<times> string) option" where
  "match_quiet s =
     Option.bind (lit ''<quiet>'' s) (\<lambda>s.
     Option.bind (lit ''true'' (trim_start s)) (\<lambda>s.
     map_option (Pair ()) (lit ''</quiet>'' (trim_start s))))"

definition parseDeleteRequestXml :: "string \<Rightarrow> string list \<times> bool" where
  "parseDeleteRequestXml body =
     (map decodeXmlEntities (all_matches match_object body), first_match match_quiet (to_lower body) \<noteq> None)"

end
