(* ===== verification/S3Chunked.thy ===== *)
theory S3Chunked
  imports Json
begin

text \<open>
  The decoder of chunked S3 uploads, \<^verbatim>\<open>src/s3/chunked.ts\<close>. The source stream is the list of
  the chunks its reader will return; a call of \<open>pull\<close> ends with a chunk of data, the end of the
  stream or an error. Header lines are ASCII or two-byte UTF-8 (what \<open>utf8_decode\<close> covers).
\<close>

section \<open>Decoder\<close>

definition isAwsChunked :: "string option \<Rightarrow> bool" where
  "isAwsChunked h =
     (case h of
        None \<Rightarrow> False
      | Some v \<Rightarrow> v = ''STREAMING-AWS4-HMAC-SHA256-PAYLOAD''
          \<or> v = ''STREAMING-UNSIGNED-PAYLOAD-TRAILER''
          \<or> v = ''STREAMING-AWS4-HMAC-SHA256-PAYLOAD-TRAILER'')"

datatype decoder_state = Header | Data int | CrlfAfterData | Finished

record decoder =
  dc_input :: "bytes list"
  dc_buffer :: bytes
  dc_state :: decoder_state

datatype decode_error =
    InvalidChunkSize string
  | EndInsideData
  | EndBeforeCrlf
  | LineOutsideModel

datatype pulled = Enqueued bytes | Closed | Errored decode_error

fun indexOfCRLF :: "bytes \<Rightarrow> nat option" where
  "indexOfCRLF (a # b # s) =
     (if a = CHR 0x0D \<and> b = CHR 0x0A then Some 0 else map_option Suc (indexOfCRLF (b # s)))"
| "indexOfCRLF _ = None"

text \<open>\<open>parseInt(s, 16)\<close>: white space, a sign, an optional \<open>0x\<close>, the longest run of digits.\<close>

definition is_hex :: "char \<Rightarrow> bool" where
  "is_hex c = (hex_val (lower_char c) \<noteq> None)"

definition hex_num :: "string \<Rightarrow> nat" where
  "hex_num s = foldl (\<lambda>n c. n * 16 + the (hex_val (lower_char c))) 0 s"

definition parse_int16 :: "string \<Rightarrow> int option" where
  "parse_int16 s =
     (let t = trim_start s;
          neg = (t \<noteq> [] \<and> hd t = CHR ''-'');
          u = (if t \<noteq> [] \<and> (hd t = CHR ''-'' \<or> hd t = CHR ''+'') then tl t else t);
          v = (if prefix ''0x'' u \<or> prefix ''0X'' u then drop 2 u else u);
          ds = takeWhile is_hex v
      in if ds = [] then None else Some (if neg then - int (hex_num ds) else int (hex_num ds)))"

text \<open>\<open>subarray(0, n)\<close> and \<open>subarray(n)\<close>, a negative \<open>n\<close> counting from the end.\<close>

definition sub_to :: "int \<Rightarrow> bytes \<Rightarrow> bytes" where
  "sub_to n b = take (nat (if n < 0 then int (length b) + n else n)) b"

definition sub_from :: "int \<Rightarrow> bytes \<Rightarrow> bytes" where
  "sub_from n b = drop (nat (if n < 0 then int (length b) + n else n)) b"

definition append_chunk :: "bytes \<Rightarrow> bytes list \<Rightarrow> decoder \<Rightarrow> decoder" where
  "append_chunk chunk rest d = d\<lparr>dc_input := rest, dc_buffer := dc_buffer d @ chunk\<rparr>"

text \<open>The inner loop of \<open>crlf-after-data\<close>; \<open>None\<close> when the input ends.\<close>

function read_two :: "decoder \<Rightarrow> decoder option" where
  "read_two d =
     (if length (dc_buffer d) < 2
      then (case dc_input d of [] \<Rightarrow> None | chunk # rest \<Rightarrow> read_two (append_chunk chunk rest d))
      else Some d)"
  by auto
termination by (relation "measure (\<lambda>d. length (dc_input d))") (auto simp: append_chunk_def)

declare read_two.simps [simp del]

lemma read_two_measure:
  "read_two d = Some d' \<Longrightarrow>
   2 \<le> length (dc_buffer d') \<and> dc_buffer d' @ concat (dc_input d') = dc_buffer d @ concat (dc_input d)
   \<and> length (dc_input d') \<le> length (dc_input d)
   \<and> (length (dc_input d') = length (dc_input d) \<longrightarrow> d' = d) \<and> dc_state d' = dc_state d"
proof (induction d rule: read_two.induct)
  case (1 d)
  show ?case
  proof (cases "length (dc_buffer d) < 2")
    case True
    with 1(2) obtain chunk rest where v: "dc_input d = chunk # rest"
      by (subst (asm) read_two.simps) (auto split: list.splits)
    with 1 True have "read_two (append_chunk chunk rest d) = Some d'"
      by (subst (asm) (2) read_two.simps) simp
    from 1(1)[OF True v this] v show ?thesis by (auto simp: append_chunk_def)
  next
    case False
    with 1(2) show ?thesis by (subst (asm) read_two.simps) simp
  qed
qed

lemma indexOfCRLF_less: "indexOfCRLF b = Some i \<Longrightarrow> Suc i < length b"
  by (induction b arbitrary: i rule: indexOfCRLF.induct) (fastforce split: if_splits)+

function pull :: "decoder \<Rightarrow> pulled \<times> decoder" where
  "pull d =
     (case dc_state d of
        Finished \<Rightarrow> (Closed, d)
      | Header \<Rightarrow>
          (case indexOfCRLF (dc_buffer d) of
             None \<Rightarrow>
               (case dc_input d of
                  [] \<Rightarrow> (Closed, d)
                | chunk # rest \<Rightarrow> pull (append_chunk chunk rest d))
           | Some crlf \<Rightarrow>
               (case utf8_decode (take crlf (dc_buffer d)) of
                  None \<Rightarrow> (Errored LineOutsideModel, d\<lparr>dc_buffer := drop (crlf + 2) (dc_buffer d)\<rparr>)
                | Some line \<Rightarrow>
                    (let d1 = d\<lparr>dc_buffer := drop (crlf + 2) (dc_buffer d)\<rparr>
                     in case parse_int16 (trim (hd (split_char CHR '';'' line))) of
                          None \<Rightarrow> (Errored (InvalidChunkSize line), d1)
                        | Some sz \<Rightarrow>
                            if sz = 0 then (Closed, d1\<lparr>dc_state := Finished\<rparr>)
                            else pull (d1\<lparr>dc_state := Data sz\<rparr>))))
      | Data remaining \<Rightarrow>
          (if dc_buffer d = [] then
             (case dc_input d of
                [] \<Rightarrow> (Errored EndInsideData, d)
              | chunk # rest \<Rightarrow> pull (append_chunk chunk rest d))
           else
             (let n = min remaining (int (length (dc_buffer d)));
                  left = remaining - n
              in (Enqueued (sub_to n (dc_buffer d)),
                  d\<lparr>dc_buffer := sub_from n (dc_buffer d),
                    dc_state := (if left = 0 then CrlfAfterData else Data left)\<rparr>)))
      | CrlfAfterData \<Rightarrow>
          (case read_two d of
             None \<Rightarrow> (Errored EndBeforeCrlf, d\<lparr>dc_input := [], dc_buffer := dc_buffer d @ concat (dc_input d)\<rparr>)
           | Some d1 \<Rightarrow> pull (d1\<lparr>dc_buffer := drop 2 (dc_buffer d1), dc_state := Header\<rparr>)))"
  by auto
termination
proof (relation "measures [\<lambda>d. length (dc_input d), \<lambda>d. length (dc_buffer d)]", goal_cases)
  case (5 d d1)
  then show ?case using read_two_measure[of d d1] by auto
qed (auto simp: append_chunk_def dest: indexOfCRLF_less)

declare pull.simps [simp del]

definition decodeAwsChunked :: "bytes list \<Rightarrow> decoder" where
  "decodeAwsChunked input = \<lparr>dc_input = input, dc_buffer = [], dc_state = Header\<rparr>"

text \<open>A consumer that calls \<open>pull\<close> until the stream ends, at most \<open>fuel\<close> times.\<close>

fun drain_decoder :: "nat \<Rightarrow> decoder \<Rightarrow> (bytes list \<times> pulled) option" where
  "drain_decoder 0 d = None"
| "drain_decoder (Suc fuel) d =
     (case pull d of
        (Enqueued b, d') \<Rightarrow> map_option (\<lambda>(bs, e). (b # bs, e)) (drain_decoder fuel d')
      | (e, d') \<Rightarrow> Some ([], e))"

section \<open>The framing\<close>

text \<open>What a client sends: each chunk with its size in hexadecimal and a signature.\<close>

fun show_hex :: "nat \<Rightarrow> string" where
  "show_hex n = (if n < 16 then [hex_digit n] else show_hex (n div 16) @ [hex_digit (n mod 16)])"

declare show_hex.simps [simp del]

abbreviation crlf :: string where "crlf \<equiv> [CHR 0x0D, CHR 0x0A]"

definition chunk_header :: "nat \<Rightarrow> string \<Rightarrow> bytes" where
  "chunk_header n sig = show_hex n @ '';chunk-signature='' @ sig @ crlf"

definition encode_chunk :: "bytes \<times> string \<Rightarrow> bytes" where
  "encode_chunk c = chunk_header (length (fst c)) (snd c) @ fst c @ crlf"

definition encode_chunks :: "(bytes \<times> string) list \<Rightarrow> string \<Rightarrow> bytes \<Rightarrow> bytes" where
  "encode_chunks cs sig trailer = concat (map encode_chunk cs) @ chunk_header 0 sig @ trailer"

end
