(* ===== verification/S3Gateway.thy ===== *)
theory S3Gateway
  imports S3Xml S3Chunked
begin

text \<open>
  The S3 gateway over R2 buckets, \<^verbatim>\<open>src/s3/proxy.ts\<close> and \<^verbatim>\<open>src/s3/headers.ts\<close>. A request comes
  with its URL and its form already taken apart by the runtime; header names are in lower case,
  as \<open>Headers\<close> keeps them. The context holds what the code takes from outside: the digest, the
  reading and printing of HTTP dates, the texts of system errors, the clock, the next random
  identifier and the environment, whose R2 bindings all share one database and file system.
  Requests are handled one after the other; what a response streams from a file is read at once,
  so copying an object onto itself reads the old body.
\<close>

section \<open>Requests and responses\<close>

datatype form_value = FText string | FFile string bytes

record s3_request =
  rq_method :: string
  rq_path :: string
  rq_params :: "(string \<times> string) list"
  rq_headers :: "(string \<times> string) list"
  rq_body :: "bytes list option"
  rq_form :: "(string \<times> form_value) list"

datatype resp_body = NoBody | TextBody string | StreamBody "(r2_error, bytes) res"

record s3_response =
  rs_status :: nat
  rs_headers :: "(string \<times> string) list"
  rs_body :: resp_body

text \<open>What a request ends with instead of a response. Texts and numbers beyond the model are
  set apart.\<close>

datatype s3_failure = R2Threw r2_error | MetadataUnreadable | OutsideModel

record s3_context =
  sx_md5 :: "bytes \<Rightarrow> string"
  sx_date :: "string \<Rightarrow> int option"
  sx_utc :: "int \<Rightarrow> string"
  sx_errno :: "r2_error \<Rightarrow> string"
  sx_now :: int
  sx_random :: string
  sx_env :: "(string \<times> bucket option) list option"

record s3_state =
  s3_r2 :: bucket_state
  s3_cors :: "(string \<times> string) list"

type_synonym outcome = "(s3_failure, s3_response) res \<times> s3_state"

definition header :: "s3_request \<Rightarrow> string \<Rightarrow> string option" where
  "header rq name = map_of (rq_headers rq) name"

definition param :: "s3_request \<Rightarrow> string \<Rightarrow> string option" where
  "param rq name = map_of (rq_params rq) name"

definition has_param :: "s3_request \<Rightarrow> string \<Rightarrow> bool" where
  "has_param rq name = (param rq name \<noteq> None)"

text \<open>\<open>await req.text()\<close>\<close>

definition req_text :: "s3_request \<Rightarrow> string option" where
  "req_text rq = utf8_decode (concat (nullish (rq_body rq) []))"

definition respond :: "nat \<Rightarrow> (string \<times> string) list \<Rightarrow> resp_body \<Rightarrow> s3_state \<Rightarrow> outcome" where
  "respond status hs body st = (Inr \<lparr>rs_status = status, rs_headers = hs, rs_body = body\<rparr>, st)"

definition set_headers :: "(string \<times> string) list \<Rightarrow> (string \<times> string) list \<Rightarrow> (string \<times> string) list" where
  "set_headers hs extra = foldl (\<lambda>hs (k, v). obj_set hs k v) hs extra"

definition xmlResponse :: "string \<Rightarrow> nat \<Rightarrow> (string \<times> string) list \<Rightarrow> s3_state \<Rightarrow> outcome" where
  "xmlResponse body status extra st =
     respond status (set_headers [(''content-type'', ''application/xml'')] extra) (TextBody body) st"

definition xmlError :: "s3_code \<Rightarrow> string \<Rightarrow> string \<Rightarrow> (string \<times> string) list \<Rightarrow> s3_state \<Rightarrow> outcome" where
  "xmlError code message resource extra st =
     xmlResponse (error_xml code message resource) (statusForError code) extra st"

definition corsHeaders :: "string option \<Rightarrow> (string \<times> string) list" where
  "corsHeaders origin =
     [(''access-control-allow-origin'', nullish origin ''*''),
      (''access-control-allow-methods'', ''GET, PUT, POST, HEAD, DELETE, OPTIONS''),
      (''access-control-allow-headers'', ''*''), (''access-control-expose-headers'', ''*'')]"

section \<open>URI components\<close>

fun percent_bytes :: "string \<Rightarrow> bytes option" where
  "percent_bytes [] = Some []"
| "percent_bytes (c # s) =
     (if c = CHR ''%'' then
        (case s of
           a # b # t \<Rightarrow>
             (case (hex_val (lower_char a), hex_val (lower_char b)) of
                (Some x, Some y) \<Rightarrow> map_option (Cons (char_of (16 * x + y))) (percent_bytes t)
              | _ \<Rightarrow> None)
         | _ \<Rightarrow> None)
      else map_option (append (utf8_encode [c])) (percent_bytes s))"

text \<open>\<open>decodeURIComponent\<close>; \<open>None\<close> is its error (or a character beyond code unit 255).\<close>

definition decodeURIComponent :: "string \<Rightarrow> string option" where
  "decodeURIComponent s = Option.bind (percent_bytes s) utf8_decode"

definition upper_hex :: "nat \<Rightarrow> char" where "upper_hex n = upper_char (hex_digit n)"

definition percent_byte :: "char \<Rightarrow> string" where
  "percent_byte b = [CHR ''%'', upper_hex (of_char b div 16), upper_hex (of_char b mod 16)]"

definition encodeURIComponent :: "string \<Rightarrow> string" where
  "encodeURIComponent s =
     concat (map (\<lambda>c. if is_alnum c \<or> c \<in> set ''-_.!~*()'' \<or> c = CHR 0x27 then [c]
                      else concat (map percent_byte (utf8_encode [c]))) s)"

section \<open>Headers\<close>

definition META :: string where "META = ''x-amz-meta-''"

text \<open>The HTTP metadata taken from texts by header name.\<close>

definition http_from :: "(string \<Rightarrow> int option) \<Rightarrow> (string \<Rightarrow> string option) \<Rightarrow> http_metadata" where
  "http_from parse_date get =
     List.map_filter (\<lambda>(h, f).
       case stored_text (get h) of
         None \<Rightarrow> None
       | Some v \<Rightarrow>
           if f = ''cacheExpiry'' then map_option (\<lambda>d. (f, MDate d)) (parse_date v)
           else Some (f, MText v)) HTTP_METADATA_FIELDS"

definition meta_entries :: "(string \<times> string) list \<Rightarrow> (string \<times> string) list" where
  "meta_entries kvs =
     foldl (\<lambda>m (k, v). if starts_with (to_lower k) META then obj_set m (drop (length META) k) v else m) [] kvs"

definition extractPutOptions :: "s3_context \<Rightarrow> s3_request \<Rightarrow> put_options" where
  "extractPutOptions sx rq =
     no_options\<lparr>po_http := Some (http_from (sx_date sx) (header rq)),
                po_custom := Some (meta_entries (rq_headers rq))\<rparr>"

definition json_text :: "json \<Rightarrow> string" where
  "json_text v = (case v of JStr t \<Rightarrow> t | _ \<Rightarrow> stringify v)"

definition json_entries :: "json \<Rightarrow> (string \<times> json) list" where
  "json_entries v = (case v of JObj kvs \<Rightarrow> kvs | _ \<Rightarrow> [])"

definition applyObjectHeaders ::
    "s3_context \<Rightarrow> r2_meta \<Rightarrow> (string \<times> string) list \<Rightarrow> (string \<times> string) list" where
  "applyObjectHeaders sx m hs =
     (let hs1 = set_headers hs
            [(''etag'', quoted (mt_etag m)), (''last-modified'', sx_utc sx (mt_uploaded m)),
             (''content-length'', show_nat (mt_size m))];
          hs2 = writeHttpMetadata (sx_utc sx) (mt_http m) hs1
      in set_headers hs2 (map (\<lambda>(k, v). (META @ to_lower k, json_text v)) (json_entries (mt_custom m))))"

definition parseRange :: "string option \<Rightarrow> r2_range option" where
  "parseRange h =
     (case stored_text h of
        None \<Rightarrow> None
      | Some t \<Rightarrow>
          (case lit ''bytes='' t of
             None \<Rightarrow> None
           | Some u \<Rightarrow>
               (let a = takeWhile is_digit u; v = dropWhile is_digit u
                in case lit ''-'' v of
                     None \<Rightarrow> None
                   | Some w \<Rightarrow>
                       if \<not> list_all is_digit w then None
                       else if a = '''' \<and> w = '''' then None
                       else if a = '''' then Some \<lparr>rg_offset = None, rg_length = None, rg_suffix = Some (int (digits_val w))\<rparr>
                       else if w = '''' then Some \<lparr>rg_offset = Some (int (digits_val a)), rg_length = None, rg_suffix = None\<rparr>
                       else Some \<lparr>rg_offset = Some (int (digits_val a)),
                                  rg_length = Some (int (digits_val w) - int (digits_val a) + 1), rg_suffix = None\<rparr>)))"

record http_conditional =
  ifMatch :: "string list option"
  ifNoneMatch :: "string list option"
  ifModifiedSince :: "int option"
  ifUnmodifiedSince :: "int option"

text \<open>\<open>s.trim().replace(/^"|"$/g, '')\<close>\<close>

definition unquote :: "string \<Rightarrow> string" where
  "unquote s =
     (let t = trim s; u = (if prefix [CHR 0x22] t then tl t else t)
      in if suffix [CHR 0x22] u then butlast u else u)"

definition tag_list :: "string option \<Rightarrow> string list option" where
  "tag_list h = map_option (\<lambda>t. map unquote (split_char CHR '','' t)) (stored_text h)"

definition parseConditional :: "s3_context \<Rightarrow> s3_request \<Rightarrow> http_conditional" where
  "parseConditional sx rq =
     \<lparr>ifMatch = tag_list (header rq ''if-match''), ifNoneMatch = tag_list (header rq ''if-none-match''),
      ifModifiedSince = Option.bind (stored_text (header rq ''if-modified-since'')) (sx_date sx),
      ifUnmodifiedSince = Option.bind (stored_text (header rq ''if-unmodified-since'')) (sx_date sx)\<rparr>"

datatype conditional_result = Match | NotModifiedResult | Failed

definition names_tag :: "string list \<Rightarrow> string \<Rightarrow> bool" where
  "names_tag tags etag = list_ex (\<lambda>t. t = ''*'' \<or> t = etag) tags"

definition evaluateHttp :: "http_conditional \<Rightarrow> string \<Rightarrow> int \<Rightarrow> bool \<Rightarrow> conditional_result" where
  "evaluateHttp cond etag uploaded is_read =
     (let sec = uploaded div 1000 * 1000
      in if (case ifMatch cond of Some tags \<Rightarrow> \<not> names_tag tags etag | None \<Rightarrow> False) then Failed
         else if (case ifUnmodifiedSince cond of Some t \<Rightarrow> t < sec | None \<Rightarrow> False) then Failed
         else if (case ifNoneMatch cond of Some tags \<Rightarrow> names_tag tags etag | None \<Rightarrow> False)
              then (if is_read then NotModifiedResult else Failed)
         else if is_read \<and> (case ifModifiedSince cond of Some t \<Rightarrow> sec \<le> t | None \<Rightarrow> False) then NotModifiedResult
         else Match)"

section \<open>Bodies\<close>

text \<open>Draining the decoder needs at most two calls more than twice the bytes it is given.\<close>

definition decoded_stream :: "bytes list \<Rightarrow> r2_value" where
  "decoded_stream chunks =
     (case drain_decoder (2 * length (concat chunks) + 2) (decodeAwsChunked chunks) of
        Some (outs, e) \<Rightarrow> RStream outs (e \<noteq> Closed)
      | None \<Rightarrow> RStream [] True)"

definition decodedBody :: "s3_request \<Rightarrow> r2_value option" where
  "decodedBody rq =
     map_option (\<lambda>chunks. if isAwsChunked (header rq ''x-amz-content-sha256'') then decoded_stream chunks
                          else RStream chunks False) (rq_body rq)"

definition base64_char :: "nat \<Rightarrow> char" where
  "base64_char n =
     (if n < 26 then char_of (65 + n) else if n < 52 then char_of (71 + n) else if n < 62 then char_of (n - 4)
      else if n = 62 then CHR ''+'' else CHR ''/'')"

fun base64 :: "bytes \<Rightarrow> string" where
  "base64 (a # b # c # s) =
     (let x = of_char a; y = of_char b; z = of_char c :: nat
      in [base64_char (x div 4), base64_char (x mod 4 * 16 + y div 16), base64_char (y mod 16 * 4 + z div 64),
          base64_char (z mod 64)] @ base64 s)"
| "base64 [a, b] =
     (let x = of_char a; y = of_char b :: nat
      in [base64_char (x div 4), base64_char (x mod 4 * 16 + y div 16), base64_char (y mod 16 * 4), CHR ''='' ])"
| "base64 [a] = (let x = of_char a :: nat in [base64_char (x div 4), base64_char (x mod 4 * 16), CHR ''='', CHR ''='' ])"
| "base64 [] = []"

text \<open>The body of an object as the source of a copy.\<close>

definition copied :: "r2_body \<Rightarrow> bucket_state \<Rightarrow> r2_value" where
  "copied bo st = (case body_bytes bo st of Inr b \<Rightarrow> RStream [b] False | Inl _ \<Rightarrow> RStream [] True)"

text \<open>\<open>String(err)\<close>\<close>

definition error_text :: "s3_context \<Rightarrow> r2_error \<Rightarrow> string" where
  "error_text sx e =
     (case e of
        R2KeyTooLarge n \<Rightarrow> ''Error: Key exceeds max size of '' @ show_nat n @ '' bytes''
      | R2PathTraversal \<Rightarrow> ''Error: Invalid key: path traversal not allowed''
      | R2MetadataTooLarge n \<Rightarrow> ''Error: Custom metadata exceeds max size of '' @ show_nat n @ '' bytes''
      | R2TooManyKeys n \<Rightarrow> ''Error: Cannot delete more than '' @ show_nat n @ '' keys at once''
      | R2UploadNotFound \<Rightarrow> ''Error: Multipart upload not found or already completed/aborted''
      | R2PartNotFound n \<Rightarrow> ''Error: Part '' @ show_int n @ '' not found''
      | R2PartEtagMismatch n \<Rightarrow> ''Error: Part '' @ show_int n @ '' etag mismatch''
      | _ \<Rightarrow> sx_errno sx e)"

definition meta_of :: "s3_context \<Rightarrow> r2_row \<Rightarrow> r2_meta option" where
  "meta_of sx row = rowToMeta (\<lambda>t. nullish (sx_date sx t) 0) row"

definition with_r2 :: "bucket_state \<Rightarrow> s3_state \<Rightarrow> s3_state" where
  "with_r2 r st = st\<lparr>s3_r2 := r\<rparr>"

text \<open>\<open>await r2.head(key)\<close>, with the answer for a missing object.\<close>

definition on_head ::
    "s3_context \<Rightarrow> string \<Rightarrow> bucket \<Rightarrow> string \<Rightarrow> (string \<times> string) list \<Rightarrow> (r2_meta \<Rightarrow> outcome) \<Rightarrow> s3_state \<Rightarrow> outcome" where
  "on_head sx name b key cors found st =
     (case r2_head b key (s3_r2 st) of
        None \<Rightarrow> xmlError NoSuchKey ''The specified key does not exist.'' (''/'' @ name @ ''/'' @ key) cors st
      | Some row \<Rightarrow> (case meta_of sx row of None \<Rightarrow> (Inl MetadataUnreadable, st) | Some m \<Rightarrow> found m))"

section \<open>Objects\<close>

text \<open>\<open>await\<close> of an operation of the bucket whose error is not caught.\<close>

definition await_r2 :: "(r2_error, 'a) res \<times> bucket_state \<Rightarrow> s3_state \<Rightarrow> ('a \<Rightarrow> s3_state \<Rightarrow> outcome) \<Rightarrow> outcome" where
  "await_r2 r st k =
     (case r of (Inl e, r2) \<Rightarrow> (Inl (R2Threw e), with_r2 r2 st) | (Inr x, r2) \<Rightarrow> k x (with_r2 r2 st))"

definition object_path :: "string \<Rightarrow> string \<Rightarrow> string" where
  "object_path name key = ''/'' @ name @ ''/'' @ key"

definition handleGetObject ::
    "s3_context \<Rightarrow> s3_request \<Rightarrow> string \<Rightarrow> bucket \<Rightarrow> string \<Rightarrow> (string \<times> string) list \<Rightarrow> s3_state \<Rightarrow> outcome" where
  "handleGetObject sx rq name b key cors st =
     (let rng = parseRange (header rq ''range'')
      in on_head sx name b key cors (\<lambda>m.
        case evaluateHttp (parseConditional sx rq) (mt_etag m) (mt_uploaded m) True of
          Failed \<Rightarrow> xmlError PreconditionFailed ''At least one of the preconditions failed'' (object_path name key) cors st
        | NotModifiedResult \<Rightarrow> respond 304 (applyObjectHeaders sx m cors) NoBody st
        | Match \<Rightarrow>
            (case r2_get b key None rng (s3_r2 st) of
               GotBody bo \<Rightarrow>
                 (let hs = applyObjectHeaders sx m cors; body = StreamBody (body_bytes bo (s3_r2 st))
                  in case bo_range bo of
                       Some (off, len) \<Rightarrow>
                         respond 206
                           (set_headers hs
                              [(''content-length'', show_int len),
                               (''content-range'', ''bytes '' @ show_int off @ ''-'' @ show_int (off + len - 1)
                                  @ ''/'' @ show_nat (mt_size m))]) body st
                     | None \<Rightarrow> respond 200 hs body st)
             | _ \<Rightarrow> xmlError NoSuchKey ''The specified key does not exist.'' (object_path name key) cors st)) st)"

definition handleHeadObject ::
    "s3_context \<Rightarrow> s3_request \<Rightarrow> string \<Rightarrow> bucket \<Rightarrow> string \<Rightarrow> (string \<times> string) list \<Rightarrow> s3_state \<Rightarrow> outcome" where
  "handleHeadObject sx rq name b key cors st =
     on_head sx name b key cors (\<lambda>m.
       let hs = applyObjectHeaders sx m cors
       in respond (case evaluateHttp (parseConditional sx rq) (mt_etag m) (mt_uploaded m) True of
                     Failed \<Rightarrow> 412 | NotModifiedResult \<Rightarrow> 304 | Match \<Rightarrow> 200) hs NoBody st) st"

definition parseCopySource :: "string \<Rightarrow> (string \<times> string) option" where
  "parseCopySource raw =
     (case decodeURIComponent (trim raw) of
        None \<Rightarrow> None
      | Some s0 \<Rightarrow>
          (let s1 = takeWhile (\<lambda>c. c \<noteq> CHR ''?'') s0;
               s2 = (if starts_with s1 ''/'' then tl s1 else s1)
           in map_option (\<lambda>i. (take i s2, drop (Suc i) s2)) (char_index CHR ''/'' s2)))"

definition resolveBucket :: "s3_context \<Rightarrow> string \<Rightarrow> bucket option" where
  "resolveBucket sx name = Option.bind (sx_env sx) (\<lambda>env. Option.bind (map_of env name) (\<lambda>v. v))"

definition source_bucket :: "s3_context \<Rightarrow> string \<Rightarrow> bucket \<Rightarrow> string \<Rightarrow> bucket option" where
  "source_bucket sx destName dest src = (if src = destName then Some dest else resolveBucket sx src)"

definition handleCopyObject ::
    "s3_context \<Rightarrow> s3_request \<Rightarrow> string \<Rightarrow> bucket \<Rightarrow> string \<Rightarrow> string \<Rightarrow> (string \<times> string) list \<Rightarrow> s3_state \<Rightarrow> outcome" where
  "handleCopyObject sx rq destName dest destKey copySource cors st =
     (case parseCopySource copySource of
        None \<Rightarrow> xmlError InvalidArgument ''Invalid x-amz-copy-source header'' copySource cors st
      | Some (srcName, srcKey) \<Rightarrow>
          (case source_bucket sx destName dest srcName of
             None \<Rightarrow> xmlError NoSuchBucket (''Source bucket not found: '' @ srcName) copySource cors st
           | Some src \<Rightarrow>
               (case r2_get src srcKey None None (s3_r2 st) of
                  GotBody bo \<Rightarrow>
                    (case meta_of sx (bo_row bo) of
                       None \<Rightarrow> (Inl MetadataUnreadable, st)
                     | Some m \<Rightarrow>
                         (let directive = to_upper (nullish (header rq ''x-amz-metadata-directive'') ''COPY'');
                              opts = (if directive = ''REPLACE'' then extractPutOptions sx rq
                                      else no_options\<lparr>po_http := Some (mt_http m),
                                             po_custom := Some (map (\<lambda>(k, v). (k, json_text v)) (json_entries (mt_custom m)))\<rparr>)
                          in await_r2 (r2_put (sx_md5 sx) dest destKey (copied bo (s3_r2 st)) opts (sx_now sx) (sx_random sx) (s3_r2 st)) st
                               (\<lambda>put st'. case put of
                                  None \<Rightarrow> xmlError InvalidRequest ''Copy failed'' (object_path destName destKey) cors st'
                                | Some row \<Rightarrow> xmlResponse (copyObjectResultXml (r2_etag row) (r2_uploaded row)) 200 cors st')))
                | _ \<Rightarrow> xmlError NoSuchKey ''Source object not found'' copySource cors st)))"

text \<open>The preconditions of a write; \<open>None\<close> when it may go on.\<close>

definition write_refused ::
    "s3_context \<Rightarrow> s3_request \<Rightarrow> string \<Rightarrow> bucket \<Rightarrow> string \<Rightarrow> (string \<times> string) list \<Rightarrow> s3_state \<Rightarrow> outcome option" where
  "write_refused sx rq name b key cors st =
     (let cond = parseConditional sx rq
      in if ifMatch cond \<noteq> None \<or> ifNoneMatch cond \<noteq> None \<or> ifUnmodifiedSince cond \<noteq> None then
           (case r2_head b key (s3_r2 st) of
              Some row \<Rightarrow>
                (case meta_of sx row of
                   None \<Rightarrow> Some (Inl MetadataUnreadable, st)
                 | Some m \<Rightarrow>
                     if evaluateHttp cond (mt_etag m) (mt_uploaded m) False = Failed
                     then Some (xmlError PreconditionFailed ''At least one of the preconditions failed''
                            (object_path name key) cors st)
                     else None)
            | None \<Rightarrow>
                if ifMatch cond \<noteq> None
                then Some (xmlError PreconditionFailed ''If-Match precondition failed (no object)''
                       (object_path name key) cors st)
                else None)
         else None)"

definition handlePutObject ::
    "s3_context \<Rightarrow> s3_request \<Rightarrow> string \<Rightarrow> bucket \<Rightarrow> string \<Rightarrow> (string \<times> string) list \<Rightarrow> s3_state \<Rightarrow> outcome" where
  "handlePutObject sx rq name b key cors st =
     (case stored_text (header rq ''x-amz-copy-source'') of
        Some copySource \<Rightarrow> handleCopyObject sx rq name b key copySource cors st
      | None \<Rightarrow>
          (case write_refused sx rq name b key cors st of
             Some refused \<Rightarrow> refused
           | None \<Rightarrow>
               await_r2 (r2_put (sx_md5 sx) b key (nullish (decodedBody rq) RNull) (extractPutOptions sx rq)
                           (sx_now sx) (sx_random sx) (s3_r2 st)) st
                 (\<lambda>put st'.
                   case (stored_text (header rq ''content-md5''), put) of
                     (Some md5, Some row) \<Rightarrow>
                       if base64 (unhex (r2_etag row)) \<noteq> trim md5 then
                         await_r2 (r2_delete b [key] (s3_r2 st')) st' (\<lambda>u st''.
                           xmlError BadDigest ''The Content-MD5 you specified did not match what we received.''
                             (object_path name key) cors st'')
                       else respond 200 (obj_set cors ''etag'' (quoted (r2_etag row))) (TextBody '''') st'
                   | (_, Some row) \<Rightarrow> respond 200 (obj_set cors ''etag'' (quoted (r2_etag row))) (TextBody '''') st'
                   | (_, None) \<Rightarrow> respond 200 cors (TextBody '''') st')))"

definition handleDeleteObject :: "bucket \<Rightarrow> string \<Rightarrow> (string \<times> string) list \<Rightarrow> s3_state \<Rightarrow> outcome" where
  "handleDeleteObject b key cors st =
     await_r2 (r2_delete b [key] (s3_r2 st)) st (\<lambda>u st'. respond 204 cors (TextBody '''') st')"

section \<open>Multipart uploads\<close>

text \<open>\<open>Number(text)\<close> of decimal digits; the other notations of numbers are left out.\<close>

definition decimal :: "string \<Rightarrow> nat option" where
  "decimal t =
     (let s = trim t in if list_all is_digit s then Some (digits_val s) else None)"

definition part_number :: "s3_request \<Rightarrow> int option" where
  "part_number rq =
     (case decimal (nullish (param rq ''partNumber'') '''') of
        Some n \<Rightarrow> if n < 1 then None else Some (int n)
      | None \<Rightarrow> None)"

definition handleCreateMultipartUpload ::
    "s3_context \<Rightarrow> s3_request \<Rightarrow> string \<Rightarrow> bucket \<Rightarrow> string \<Rightarrow> (string \<times> string) list \<Rightarrow> s3_state \<Rightarrow> outcome" where
  "handleCreateMultipartUpload sx rq name b key cors st =
     (let opts = extractPutOptions sx rq
      in await_r2 (createMultipartUpload b key (po_http opts) (po_custom opts) (sx_now sx) (sx_random sx) (s3_r2 st)) st
           (\<lambda>uploadId st'. xmlResponse (initiateMultipartUploadXml name key uploadId) 200 cors st'))"

definition handleUploadPart ::
    "s3_context \<Rightarrow> s3_request \<Rightarrow> string \<Rightarrow> bucket \<Rightarrow> string \<Rightarrow> string \<Rightarrow> (string \<times> string) list \<Rightarrow> s3_state \<Rightarrow> outcome" where
  "handleUploadPart sx rq name b key uploadId cors st =
     (case part_number rq of
        None \<Rightarrow> xmlError InvalidArgument ''Invalid partNumber'' (object_path name key) cors st
      | Some n \<Rightarrow>
          (case uploadPart (sx_md5 sx) b uploadId n (nullish (decodedBody rq) (RStream [] False)) (s3_r2 st) of
             (Inl e, r2) \<Rightarrow> xmlError NoSuchUpload (error_text sx e) (object_path name key) cors (with_r2 r2 st)
           | (Inr (_, etag), r2) \<Rightarrow> respond 200 (obj_set cors ''etag'' (quoted etag)) (TextBody '''') (with_r2 r2 st)))"

definition handleUploadPartCopy ::
    "s3_context \<Rightarrow> s3_request \<Rightarrow> string \<Rightarrow> bucket \<Rightarrow> string \<Rightarrow> string \<Rightarrow> string \<Rightarrow> (string \<times> string) list \<Rightarrow> s3_state \<Rightarrow> outcome" where
  "handleUploadPartCopy sx rq destName dest destKey uploadId copySource cors st =
     (case part_number rq of
        None \<Rightarrow> xmlError InvalidArgument ''Invalid partNumber'' (object_path destName destKey) cors st
      | Some n \<Rightarrow>
          (case parseCopySource copySource of
             None \<Rightarrow> xmlError InvalidArgument ''Invalid x-amz-copy-source header'' copySource cors st
           | Some (srcName, srcKey) \<Rightarrow>
               (case source_bucket sx destName dest srcName of
                  None \<Rightarrow> xmlError NoSuchBucket (''Source bucket not found: '' @ srcName) copySource cors st
                | Some src \<Rightarrow>
                    (case r2_get src srcKey None (parseRange (header rq ''x-amz-copy-source-range'')) (s3_r2 st) of
                       GotBody bo \<Rightarrow>
                         (case meta_of sx (bo_row bo) of
                            None \<Rightarrow> (Inl MetadataUnreadable, st)
                          | Some m \<Rightarrow>
                              (case uploadPart (sx_md5 sx) dest uploadId n (copied bo (s3_r2 st)) (s3_r2 st) of
                                 (Inl e, r2) \<Rightarrow>
                                   xmlError NoSuchUpload (error_text sx e) (object_path destName destKey) cors (with_r2 r2 st)
                               | (Inr (_, etag), r2) \<Rightarrow>
                                   xmlResponse (copyPartResultXml etag (mt_uploaded m)) 200 cors (with_r2 r2 st)))
                     | _ \<Rightarrow> xmlError NoSuchKey ''Source object not found'' copySource cors st))))"

definition handleCompleteMultipartUpload ::
    "s3_context \<Rightarrow> s3_request \<Rightarrow> string \<Rightarrow> bucket \<Rightarrow> string \<Rightarrow> string \<Rightarrow> (string \<times> string) list \<Rightarrow> s3_state \<Rightarrow> outcome" where
  "handleCompleteMultipartUpload sx rq name b key uploadId cors st =
     (case req_text rq of
        None \<Rightarrow> (Inl OutsideModel, st)
      | Some xml \<Rightarrow>
          (let parts = parseCompletePartsXml xml
           in if parts = [] then xmlError MalformedXML ''No parts in request'' (object_path name key) cors st
              else
                (case complete_upload (sx_md5 sx) b key uploadId parts (sx_now sx) (sx_random sx) (s3_r2 st) of
                   (Inr row, r2) \<Rightarrow>
                     xmlResponse (completeMultipartUploadXml name key (r2_etag row)
                       (''/'' @ name @ ''/'' @ encodeURIComponent key)) 200 cors (with_r2 r2 st)
                 | (Inl e, r2) \<Rightarrow>
                     xmlError (if includes_str (error_text sx e) ''etag mismatch'' then InvalidPart else NoSuchUpload)
                       (error_text sx e) (object_path name key) cors (with_r2 r2 st))))"

definition handleAbortMultipartUpload ::
    "bucket \<Rightarrow> string \<Rightarrow> (string \<times> string) list \<Rightarrow> s3_state \<Rightarrow> outcome" where
  "handleAbortMultipartUpload b uploadId cors st =
     respond 204 cors (TextBody '''') (with_r2 (abort_upload b uploadId (s3_r2 st)) st)"

definition handleListParts ::
    "s3_context \<Rightarrow> string \<Rightarrow> string \<Rightarrow> string \<Rightarrow> (string \<times> string) list \<Rightarrow> s3_state \<Rightarrow> outcome" where
  "handleListParts sx name key uploadId cors st =
     xmlResponse (listPartsXml name key uploadId (sx_now sx) (listParts uploadId (s3_r2 st))) 200 cors st"

section \<open>Attributes and tags\<close>

definition handleGetObjectAttributes ::
    "s3_context \<Rightarrow> s3_request \<Rightarrow> string \<Rightarrow> bucket \<Rightarrow> string \<Rightarrow> (string \<times> string) list \<Rightarrow> s3_state \<Rightarrow> outcome" where
  "handleGetObjectAttributes sx rq name b key cors st =
     on_head sx name b key cors (\<lambda>m.
       let requested = map trim (split_char CHR '','' (nullish (header rq ''x-amz-object-attributes'') ''''))
       in xmlResponse (getObjectAttributesXml
            \<lparr>oa_etag = (if ''ETag'' \<in> set requested then Some (mt_etag m) else None),
             oa_size = (if ''ObjectSize'' \<in> set requested then Some (mt_size m) else None),
             oa_storageClass = (if ''StorageClass'' \<in> set requested then Some ''STANDARD'' else None)\<rparr>) 200 cors st) st"

definition json_tags :: "json \<Rightarrow> (string \<times> string) list option" where
  "json_tags v =
     (case v of
        JArr vs \<Rightarrow>
          Some (List.map_filter (\<lambda>t. case t of
            JObj kvs \<Rightarrow>
              (case (map_of kvs ''key'', map_of kvs ''value'') of
                 (Some (JStr k), Some (JStr x)) \<Rightarrow> Some (k, x) | _ \<Rightarrow> None)
          | _ \<Rightarrow> None) vs)
      | _ \<Rightarrow> None)"

definition handleGetObjectTagging ::
    "s3_context \<Rightarrow> string \<Rightarrow> bucket \<Rightarrow> string \<Rightarrow> (string \<times> string) list \<Rightarrow> s3_state \<Rightarrow> outcome" where
  "handleGetObjectTagging sx name b key cors st =
     on_head sx name b key cors (\<lambda>m.
       case Option.bind (r2_getTags b key (s3_r2 st)) json_tags of
         None \<Rightarrow> (Inl MetadataUnreadable, st)
       | Some tags \<Rightarrow> xmlResponse (taggingXml tags) 200 cors st) st"

definition handlePutObjectTagging ::
    "s3_context \<Rightarrow> s3_request \<Rightarrow> string \<Rightarrow> bucket \<Rightarrow> string \<Rightarrow> (string \<times> string) list \<Rightarrow> s3_state \<Rightarrow> outcome" where
  "handlePutObjectTagging sx rq name b key cors st =
     on_head sx name b key cors (\<lambda>m.
       case req_text rq of
         None \<Rightarrow> (Inl OutsideModel, st)
       | Some body \<Rightarrow> respond 200 cors (TextBody '''') (with_r2 (r2_setTags b key (parseTaggingXml body) (s3_r2 st)) st)) st"

definition handleDeleteObjectTagging ::
    "s3_context \<Rightarrow> string \<Rightarrow> bucket \<Rightarrow> string \<Rightarrow> (string \<times> string) list \<Rightarrow> s3_state \<Rightarrow> outcome" where
  "handleDeleteObjectTagging sx name b key cors st =
     on_head sx name b key cors (\<lambda>m. respond 204 cors (TextBody '''') (with_r2 (r2_setTags b key [] (s3_r2 st)) st)) st"

section \<open>Buckets\<close>

text \<open>\<open>max-keys\<close>; \<open>None\<close> for texts that are no decimal numbers.\<close>

definition max_keys :: "s3_request \<Rightarrow> nat option option" where
  "max_keys rq =
     (case stored_text (param rq ''max-keys'') of None \<Rightarrow> Some None | Some t \<Rightarrow> map_option Some (decimal t))"

definition list_objects ::
    "s3_context \<Rightarrow> bucket \<Rightarrow> list_params \<Rightarrow> s3_state \<Rightarrow> (s3_failure, r2_list_result) res" where
  "list_objects sx b params st =
     (case r2_list b \<lparr>rl_prefix = lp_prefix params, rl_limit = Some (nullish (lp_maxKeys params) 1000),
                      rl_cursor = lp_from params, rl_delimiter = lp_delimiter params\<rparr> (s3_r2 st) of
        Inl e \<Rightarrow> Inl (R2Threw e)
      | Inr page \<Rightarrow> if list_all (\<lambda>r. meta_of sx r \<noteq> None) (rr_objects page) then Inr page else Inl MetadataUnreadable)"

definition handleListObjects ::
    "s3_context \<Rightarrow> s3_request \<Rightarrow> string \<Rightarrow> bucket \<Rightarrow> (string \<times> string) list \<Rightarrow> s3_state \<Rightarrow> outcome" where
  "handleListObjects sx rq name b cors st =
     (case max_keys rq of
        None \<Rightarrow> (Inl OutsideModel, st)
      | Some maxKeys \<Rightarrow>
          (let v2 = (param rq ''list-type'' = Some ''2'');
               params = \<lparr>lp_prefix = param rq ''prefix'',
                         lp_from = param rq (if v2 then ''continuation-token'' else ''marker''),
                         lp_maxKeys = maxKeys, lp_delimiter = param rq ''delimiter''\<rparr>
           in case list_objects sx b params st of
                Inl e \<Rightarrow> (Inl e, st)
              | Inr page \<Rightarrow>
                  xmlResponse
                    (if v2 then
                       listBucketV2Xml name params (rr_objects page) (rr_truncated page)
                         (if rr_truncated page then stored_text (Some (rr_cursor page)) else None) (rr_prefixes page)
                     else
                       listBucketV1Xml name params (rr_objects page) (rr_truncated page)
                         (if rr_truncated page \<and> rr_objects page \<noteq> [] then Some (r2_key (last (rr_objects page))) else None)
                         (rr_prefixes page)) 200 cors st))"

fun delete_each :: "s3_context \<Rightarrow> bucket \<Rightarrow> string list \<Rightarrow> bucket_state \<Rightarrow> delete_entry list \<times> bucket_state" where
  "delete_each sx b [] r2 = ([], r2)"
| "delete_each sx b (k # ks) r2 =
     (let (res, r2') = r2_delete b [k] r2;
          entry = (k, case res of Inr u \<Rightarrow> None | Inl e \<Rightarrow> Some (''InternalError'', error_text sx e));
          (entries, r2'') = delete_each sx b ks r2'
      in (entry # entries, r2''))"

definition handleDeleteObjects ::
    "s3_context \<Rightarrow> s3_request \<Rightarrow> bucket \<Rightarrow> (string \<times> string) list \<Rightarrow> s3_state \<Rightarrow> outcome" where
  "handleDeleteObjects sx rq b cors st =
     (case req_text rq of
        None \<Rightarrow> (Inl OutsideModel, st)
      | Some body \<Rightarrow>
          (let (keys, quiet) = parseDeleteRequestXml body; (entries, r2) = delete_each sx b keys (s3_r2 st)
           in xmlResponse (deleteResultXml entries quiet) 200 cors (with_r2 r2 st)))"

text \<open>The fields of a form by name, and its file; a field name is compared without case.\<close>

definition form_field :: "s3_request \<Rightarrow> string \<Rightarrow> string option" where
  "form_field rq name =
     Option.bind (find (\<lambda>(k, v). to_lower k = to_lower name \<and> (case v of FText _ \<Rightarrow> True | _ \<Rightarrow> False)) (rq_form rq))
       (\<lambda>(k, v). case v of FText t \<Rightarrow> Some t | _ \<Rightarrow> None)"

definition form_texts :: "s3_request \<Rightarrow> (string \<times> string) list" where
  "form_texts rq = List.map_filter (\<lambda>(k, v). case v of FText t \<Rightarrow> Some (k, t) | _ \<Rightarrow> None) (rq_form rq)"

text \<open>\<open>key.replace('${filename}', name)\<close>: the first occurrence; dollar patterns in the name count.\<close>

fun expand_dollars :: "string \<Rightarrow> string \<Rightarrow> string \<Rightarrow> string \<Rightarrow> string" where
  "expand_dollars before matched after (a # b # s) =
     (if a = CHR ''$'' \<and> b = CHR ''$'' then CHR ''$'' # expand_dollars before matched after s
      else if a = CHR ''$'' \<and> b = CHR ''&'' then matched @ expand_dollars before matched after s
      else if a = CHR ''$'' \<and> b = CHR 0x60 then before @ expand_dollars before matched after s
      else if a = CHR ''$'' \<and> b = CHR 0x27 then after @ expand_dollars before matched after s
      else a # expand_dollars before matched after (b # s))"
| "expand_dollars before matched after s = s"

definition replace_filename :: "string \<Rightarrow> string \<Rightarrow> string" where
  "replace_filename key name =
     (let p = ''${filename}''
      in case up_to p key of
           None \<Rightarrow> key
         | Some (before, after) \<Rightarrow> before @ expand_dollars before p after name @ after)"

definition post_response_xml :: "string \<Rightarrow> string \<Rightarrow> string \<Rightarrow> string" where
  "post_response_xml bucket key etag =
     join nl
       [xml_prolog, ''<PostResponse>'',
        ''  '' @ elem ''Location'' (''/'' @ bucket @ ''/'' @ encodeURIComponent key),
        ''  '' @ elem ''Bucket'' bucket, ''  '' @ elem ''Key'' key, ''  '' @ elem ''ETag'' (dq etag), ''</PostResponse>'']"

definition post_status :: "s3_request \<Rightarrow> nat" where
  "post_status rq =
     (let n = nullish (decimal (nullish (form_field rq ''success_action_status'') '''')) 0
      in if n = 0 then 204 else n)"

definition handlePresignedPost ::
    "s3_context \<Rightarrow> s3_request \<Rightarrow> string \<Rightarrow> bucket \<Rightarrow> (string \<times> string) list \<Rightarrow> s3_state \<Rightarrow> outcome" where
  "handlePresignedPost sx rq name b cors st =
     (case stored_text (form_field rq ''key'') of
        None \<Rightarrow> xmlError InvalidArgument ''Missing required form field: key'' (''/'' @ name @ ''/'') cors st
      | Some key0 \<Rightarrow>
          (case map_of (rq_form rq) ''file'' of
             Some (FFile fileName content) \<Rightarrow>
               (let key = replace_filename key0 fileName;
                    opts = no_options\<lparr>po_http := Some (http_from (sx_date sx) (form_field rq)),
                                      po_custom := Some (meta_entries (form_texts rq))\<rparr>
                in await_r2 (r2_put (sx_md5 sx) b key (RStream [content] False) opts (sx_now sx) (sx_random sx) (s3_r2 st)) st
                     (\<lambda>put st'.
                       let etag = (case put of None \<Rightarrow> '''' | Some row \<Rightarrow> r2_etag row); status = post_status rq
                       in if status = 201 then xmlResponse (post_response_xml name key etag) 201 cors st'
                          else respond (if status = 200 then 200 else 204)
                                 (if etag = '''' then cors else obj_set cors ''etag'' (quoted etag)) (TextBody '''') st'))
           | _ \<Rightarrow> xmlError InvalidArgument ''Missing required form field: file'' (''/'' @ name @ ''/'') cors st))"

definition handleBucketLevel ::
    "s3_context \<Rightarrow> s3_request \<Rightarrow> string \<Rightarrow> bucket \<Rightarrow> (string \<times> string) list \<Rightarrow> s3_state \<Rightarrow> outcome" where
  "handleBucketLevel sx rq name b cors st =
     (let verb = rq_method rq
      in if verb = ''HEAD'' then respond 200 cors NoBody st
         else if verb = ''GET'' \<and> has_param rq ''location'' then xmlResponse getBucketLocationXml 200 cors st
         else if has_param rq ''cors'' \<and> verb = ''GET'' then
           (case stored_text (map_of (s3_cors st) name) of
              None \<Rightarrow> xmlError NoSuchCORSConfiguration ''The CORS configuration does not exist'' name cors st
            | Some stored \<Rightarrow> xmlResponse stored 200 cors st)
         else if has_param rq ''cors'' \<and> verb = ''PUT'' then
           (case req_text rq of
              None \<Rightarrow> (Inl OutsideModel, st)
            | Some t \<Rightarrow> respond 200 cors (TextBody '''') (st\<lparr>s3_cors := obj_set (s3_cors st) name t\<rparr>))
         else if has_param rq ''cors'' \<and> verb = ''DELETE'' then
           respond 204 cors (TextBody '''') (st\<lparr>s3_cors := obj_delete name (s3_cors st)\<rparr>)
         else if verb = ''GET'' \<and> has_param rq ''uploads'' then
           xmlResponse (listMultipartUploadsXml name (listMultipartUploads b (param rq ''prefix'') (s3_r2 st))) 200 cors st
         else if verb = ''POST'' \<and> has_param rq ''delete'' then handleDeleteObjects sx rq b cors st
         else if verb = ''POST'' \<and> starts_with (nullish (header rq ''content-type'') '''') ''multipart/form-data'' then
           handlePresignedPost sx rq name b cors st
         else if verb = ''GET'' then handleListObjects sx rq name b cors st
         else xmlError InvalidRequest (''Unsupported bucket operation: '' @ verb) (rq_path rq) cors st)"

section \<open>Dispatch\<close>

definition handleObjectLevel ::
    "s3_context \<Rightarrow> s3_request \<Rightarrow> string \<Rightarrow> bucket \<Rightarrow> string \<Rightarrow> (string \<times> string) list \<Rightarrow> s3_state \<Rightarrow> outcome" where
  "handleObjectLevel sx rq name b key cors st =
     (let verb = rq_method rq
      in if verb = ''GET'' then handleGetObject sx rq name b key cors st
         else if verb = ''HEAD'' then handleHeadObject sx rq name b key cors st
         else if verb = ''PUT'' then handlePutObject sx rq name b key cors st
         else if verb = ''DELETE'' then handleDeleteObject b key cors st
         else xmlError InvalidRequest (''Unsupported method: '' @ verb) (rq_path rq) cors st)"

definition handleSubResource ::
    "s3_context \<Rightarrow> s3_request \<Rightarrow> string \<Rightarrow> bucket \<Rightarrow> string \<Rightarrow> (string \<times> string) list \<Rightarrow> s3_state \<Rightarrow> outcome" where
  "handleSubResource sx rq name b key cors st =
     (let verb = rq_method rq
      in if has_param rq ''attributes'' \<and> verb = ''GET'' then handleGetObjectAttributes sx rq name b key cors st
         else if has_param rq ''tagging'' \<and> verb = ''GET'' then handleGetObjectTagging sx name b key cors st
         else if has_param rq ''tagging'' \<and> verb = ''PUT'' then handlePutObjectTagging sx rq name b key cors st
         else if has_param rq ''tagging'' \<and> verb = ''DELETE'' then handleDeleteObjectTagging sx name b key cors st
         else handleObjectLevel sx rq name b key cors st)"

definition handleUploadLevel ::
    "s3_context \<Rightarrow> s3_request \<Rightarrow> string \<Rightarrow> bucket \<Rightarrow> string \<Rightarrow> string \<Rightarrow> (string \<times> string) list \<Rightarrow> s3_state \<Rightarrow> outcome" where
  "handleUploadLevel sx rq name b key uploadId cors st =
     (let verb = rq_method rq
      in if verb = ''PUT'' \<and> has_param rq ''partNumber'' then
           (case stored_text (header rq ''x-amz-copy-source'') of
              Some src \<Rightarrow> handleUploadPartCopy sx rq name b key uploadId src cors st
            | None \<Rightarrow> handleUploadPart sx rq name b key uploadId cors st)
         else if verb = ''POST'' then handleCompleteMultipartUpload sx rq name b key uploadId cors st
         else if verb = ''DELETE'' then handleAbortMultipartUpload b uploadId cors st
         else if verb = ''GET'' then handleListParts sx name key uploadId cors st
         else handleSubResource sx rq name b key cors st)"

definition handleKey ::
    "s3_context \<Rightarrow> s3_request \<Rightarrow> string \<Rightarrow> bucket \<Rightarrow> string \<Rightarrow> (string \<times> string) list \<Rightarrow> s3_state \<Rightarrow> outcome" where
  "handleKey sx rq name b key cors st =
     (if has_param rq ''uploads'' \<and> rq_method rq = ''POST'' then handleCreateMultipartUpload sx rq name b key cors st
      else (case stored_text (param rq ''uploadId'') of
              Some uploadId \<Rightarrow> handleUploadLevel sx rq name b key uploadId cors st
            | None \<Rightarrow> handleSubResource sx rq name b key cors st))"

definition handleS3Request ::
    "s3_context \<Rightarrow> s3_request \<Rightarrow> string \<Rightarrow> bucket option \<Rightarrow> (string \<times> int) list option \<Rightarrow> s3_state \<Rightarrow> outcome" where
  "handleS3Request sx rq name r2 listAllBuckets st =
     (let cors = corsHeaders (header rq ''origin'')
      in if rq_method rq = ''OPTIONS'' then respond 200 cors NoBody st
         else if name = '''' \<and> rq_method rq = ''GET'' \<and> listAllBuckets \<noteq> None then
           xmlResponse (listAllMyBucketsXml (nullish listAllBuckets [])) 200 cors st
         else
           (case r2 of
              None \<Rightarrow> xmlError NoSuchBucket ''The specified bucket does not exist.'' name cors st
            | Some b \<Rightarrow>
                (case decodeURIComponent (dropWhile (\<lambda>c. c = CHR ''/'') (rq_path rq)) of
                   None \<Rightarrow> xmlError InvalidRequest ''Invalid URL-encoded key'' (rq_path rq) cors st
                 | Some key \<Rightarrow>
                     if key = '''' then handleBucketLevel sx rq name b cors st
                     else handleKey sx rq name b key cors st)))"

definition matchS3Path :: "string \<Rightarrow> (string \<times> string) option" where
  "matchS3Path pathname =
     map_option (\<lambda>rest.
       case char_index CHR ''/'' rest of
         None \<Rightarrow> (rest, '''')
       | Some i \<Rightarrow> (take i rest, drop (Suc i) rest)) (lit ''/__s3/'' pathname)"

definition r2_bindings :: "s3_context \<Rightarrow> (string \<times> int) list" where
  "r2_bindings sx =
     List.map_filter (\<lambda>(name, v). map_option (\<lambda>b. (name, 0)) v) (nullish (sx_env sx) [])"

text \<open>The request of the development server, with its path rewritten to the key.\<close>

definition handleS3ProxyRequest :: "s3_context \<Rightarrow> s3_request \<Rightarrow> string \<times> string \<Rightarrow> s3_state \<Rightarrow> outcome" where
  "handleS3ProxyRequest sx rq m st =
     handleS3Request sx (rq\<lparr>rq_path := ''/'' @ snd m\<rparr>) (fst m) (resolveBucket sx (fst m)) (Some (r2_bindings sx)) st"

end
