(* ===== verification/R2Laws.thy ===== *)
theory R2Laws
  imports R2
begin

text \<open>
  The laws of the R2 bucket: as long as keys name their own files, the bucket is a map from keys
  to bodies; ranges, listings and multipart uploads of it.
\<close>

section \<open>Files\<close>

definition files_of :: "file_system \<Rightarrow> string list \<Rightarrow> bytes option" where
  "files_of fs p = (case map_of fs p of Some (File c) \<Rightarrow> Some c | _ \<Rightarrow> None)"

lemma read_file_Some: "files_of fs p = Some c \<Longrightarrow> read_file p fs = Inr c"
  by (auto simp: files_of_def read_file_def split: option.splits node.splits)

lemma read_file_Inr: "read_file p fs = Inr c \<longleftrightarrow> files_of fs p = Some c"
  by (auto simp: files_of_def read_file_def split: option.split node.split)

lemma files_of_mkdirs: "mkdirs ps fs = Inr fs' \<Longrightarrow> files_of fs' = files_of fs"
proof (induction ps arbitrary: fs)
  case (Cons p ps)
  show ?case
  proof (cases "map_of fs p")
    case None
    with Cons have "files_of fs' = files_of (obj_set fs p Dir)" by simp
    with None show ?thesis by (auto simp: files_of_def obj_set_map_of fun_eq_iff)
  next
    case (Some nd)
    with Cons show ?thesis by (cases nd) auto
  qed
qed simp

lemma files_of_write: "write_file p b fs = Inr fs' \<Longrightarrow> files_of fs' = (files_of fs)(p \<mapsto> b)"
proof (rule ext)
  fix q
  assume "write_file p b fs = Inr fs'"
  then have "fs' = obj_set fs p (File b)" by (auto simp: write_file_def split: option.splits node.splits)
  then show "files_of fs' q = ((files_of fs)(p \<mapsto> b)) q"
    by (cases "q = p") (simp_all add: files_of_def obj_set_map_of)
qed

lemma files_of_remove: "remove_file p fs = Inr fs' \<Longrightarrow> files_of fs' = (files_of fs)(p := None)"
proof (rule ext)
  fix q
  assume "remove_file p fs = Inr fs'"
  then have "fs' = obj_delete p fs \<or> fs' = fs \<and> map_of fs p = None"
    by (auto simp: remove_file_def split: option.splits node.splits)
  then show "files_of fs' q = ((files_of fs)(p := None)) q"
    by (cases "q = p") (auto simp: files_of_def map_of_obj_delete)
qed

lemma files_of_filter:
  "files_of (filter (\<lambda>e. \<not> P (fst e)) fs) = (\<lambda>p. if P p then None else files_of fs p)"
proof -
  have "map_of (filter (\<lambda>e. \<not> P (fst e)) fs) p = (if P p then None else map_of fs p)" for p
    by (induction fs) auto
  then show ?thesis by (simp add: files_of_def fun_eq_iff)
qed

definition fails :: "r2_value \<Rightarrow> bool" where
  "fails v = (case v of RStream _ f \<Rightarrow> f | _ \<Rightarrow> False)"

lemma writeValue_Inr:
  assumes "writeValueToFile md5 v p fs = (Inr (etag, n), fs')"
  shows "etag = md5 (value_bytes v) \<and> n = length (value_bytes v)
    \<and> files_of fs' = (files_of fs)(p \<mapsto> value_bytes v) \<and> \<not> fails v"
  using assms files_of_mkdirs files_of_write
  by (auto simp: writeValueToFile_def fails_def split: sum.splits r2_value.splits bool.splits)

lemma writeValue_Inl:
  assumes "writeValueToFile md5 v p fs = (Inl e, fs')" and "\<not> fails v"
  shows "files_of fs' = files_of fs"
  using assms files_of_mkdirs
  by (auto simp: writeValueToFile_def fails_def split: sum.splits r2_value.splits bool.splits)

section \<open>Keys and their paths\<close>

definition clean_key :: "string \<Rightarrow> bool" where
  "clean_key k =
     (list_all (\<lambda>s. s \<noteq> '''' \<and> s \<noteq> ''.'' \<and> s \<noteq> ''..'') (split_char CHR ''/'' k)
      \<and> hd (split_char CHR ''/'' k) \<noteq> ''__multipart__'')"

lemma join_names_clean:
  "list_all (\<lambda>s. s \<noteq> '''' \<and> s \<noteq> ''.'' \<and> s \<noteq> ''..'') ss \<Longrightarrow> join_names acc ss = acc @ ss"
  by (induction ss arbitrary: acc) auto

lemma clean_path: "clean_key k \<Longrightarrow> r2_filePath b k = bk_base b @ split_char CHR ''/'' k"
  by (simp add: clean_key_def r2_filePath_def join_path_def join_names_clean)

lemma split_char_inj: "split_char c s = split_char c t \<Longrightarrow> s = t"
proof -
  have "join [c] (split_char c s) = s" for s
  proof (induction s)
    case (Cons x s)
    obtain y ys where ys: "split_char c s = y # ys" by (cases "split_char c s") auto
    with Cons show ?case by (cases ys) auto
  qed simp
  then show "split_char c s = split_char c t \<Longrightarrow> s = t" by metis
qed

lemma clean_path_inj: "clean_key k \<Longrightarrow> clean_key k' \<Longrightarrow> r2_filePath b k = r2_filePath b k' \<longleftrightarrow> k = k'"
  by (auto simp: clean_path dest: split_char_inj)

lemma clean_path_not_part: "clean_key k \<Longrightarrow> \<not> prefix (part_dir b u) (r2_filePath b k)"
proof -
  assume k: "clean_key k"
  obtain y ys where "split_char CHR ''/'' k = y # ys" by (cases "split_char CHR ''/'' k") auto
  with k show ?thesis by (simp add: clean_path part_dir_def) (auto simp: clean_key_def)
qed

lemma show_int_inj: "show_int m = show_int n \<Longrightarrow> m = n"
  using parse_num_show_int[of "[]" m] parse_num_show_int[of "[]" n] by (simp add: json_stop_def)

lemma part_path_inj: "part_path b u n = part_path b u' n' \<longleftrightarrow> u = u' \<and> n = n'"
  by (auto simp: part_path_def part_dir_def dest: show_int_inj)

lemma part_path_under: "prefix (part_dir b u) (part_path b u' n) \<longleftrightarrow> u = u'"
  by (auto simp: part_path_def part_dir_def)

lemma part_path_not_key: "clean_key k \<Longrightarrow> part_path b u n \<noteq> r2_filePath b k"
  using clean_path_not_part[of k b u] part_path_under[of b u u n] by metis

section \<open>The invariant\<close>

definition own_row :: "bucket \<Rightarrow> bucket_state \<Rightarrow> r2_row \<Rightarrow> bool" where
  "own_row b st r =
     (clean_key (r2_key r)
      \<and> (\<exists>c. files_of (r2_files st) (r2_filePath b (r2_key r)) = Some c \<and> length c = r2_size r))"

definition own_part :: "(bytes \<Rightarrow> string) \<Rightarrow> bucket \<Rightarrow> bucket_state \<Rightarrow> part_row \<Rightarrow> bool" where
  "own_part md5 b st p =
     (pt_path p = part_path b (pt_upload p) (pt_number p)
      \<and> (\<exists>c. files_of (r2_files st) (pt_path p) = Some c \<and> pt_etag p = md5 c \<and> pt_size p = length c))"

definition r2_inv :: "(bytes \<Rightarrow> string) \<Rightarrow> bucket \<Rightarrow> bucket_state \<Rightarrow> bool" where
  "r2_inv md5 b st =
     (keyed_by object_key (r2_objects st) \<and> keyed_by part_key (r2_parts st)
      \<and> (\<forall>r \<in> set (r2_objects st). r2_bucket r = bk_name b \<longrightarrow> own_row b st r)
      \<and> (\<forall>p \<in> set (r2_parts st). find_upload b (pt_upload p) st \<noteq> None \<longrightarrow> own_part md5 b st p))"

text \<open>The bucket as a map from keys to bodies.\<close>

definition contents :: "bucket \<Rightarrow> bucket_state \<Rightarrow> string \<Rightarrow> bytes option" where
  "contents b st k =
     (case getRow b k st of None \<Rightarrow> None | Some row \<Rightarrow> files_of (r2_files st) (r2_filePath b k))"

lemma is_object_key: "is_object b k = (\<lambda>r. object_key r = (bk_name b, k))"
  by (auto simp: is_object_def object_key_def fun_eq_iff)

lemma getRow_replace:
  assumes "object_key row = (bk_name b, k)"
  shows "sql_get (is_object b k') (sql_replace object_key row t) =
    (if k' = k then Some row else sql_get (is_object b k') t)"
  using sql_get_replace_same[of object_key row t] sql_get_replace_other[of "(bk_name b, k')" object_key row t] assms
  by (auto simp: is_object_key)

lemma getRow_delete:
  "sql_get (is_object b k') (sql_delete (is_object b k) t) = (if k' = k then None else sql_get (is_object b k') t)"
  using sql_get_delete_disjoint[of "is_object b k'" "is_object b k" t]
  by (auto simp: is_object_key)

lemma getRow_own:
  assumes "r2_inv md5 b st" and "getRow b k st = Some row"
  shows "own_row b st row \<and> r2_key row = k \<and> clean_key k"
  using sql_get_SomeD[of "is_object b k" "r2_objects st" row] assms
  by (auto simp: getRow_def r2_inv_def is_object_def own_row_def)

lemma contents_row:
  assumes "r2_inv md5 b st" and "getRow b k st = Some row"
  obtains c where "contents b st k = Some c" "length c = r2_size row"
    "files_of (r2_files st) (r2_filePath b k) = Some c"
  using getRow_own[OF assms] assms(2) by (auto simp: own_row_def contents_def)

lemma own_row_cong:
  "files_of (r2_files st') (r2_filePath b (r2_key r)) = files_of (r2_files st) (r2_filePath b (r2_key r)) \<Longrightarrow>
   own_row b st r \<Longrightarrow> own_row b st' r"
  by (simp add: own_row_def)

lemma own_part_cong:
  "files_of (r2_files st') (pt_path p) = files_of (r2_files st) (pt_path p) \<Longrightarrow>
   own_part md5 b st p \<Longrightarrow> own_part md5 b st' p"
  unfolding own_part_def by metis

text \<open>Storing an object: the row replaces the one of its key, the file of the key is written.\<close>

lemma store_object:
  assumes inv: "r2_inv md5 b st" and k: "clean_key k" "object_key row = (bk_name b, k)" "r2_size row = length c"
    and fs: "files_of fs = (files_of (r2_files st))(r2_filePath b k \<mapsto> c)"
  defines "st' \<equiv> st\<lparr>r2_objects := sql_replace object_key row (r2_objects st), r2_files := fs\<rparr>"
  shows "r2_inv md5 b st' \<and> (\<forall>k'. clean_key k' \<longrightarrow> contents b st' k' = ((contents b st)(k \<mapsto> c)) k')"
proof -
  have key: "r2_key row = k" using k(2) by (simp add: object_key_def)
  have "own_row b st' r" if "r \<in> set (r2_objects st')" "r2_bucket r = bk_name b" for r
  proof (cases "r = row")
    case True
    then show ?thesis using k key fs by (simp add: own_row_def st'_def)
  next
    case False
    with that have r: "r \<in> set (r2_objects st)" "object_key r \<noteq> object_key row" by (auto simp: st'_def)
    then have "own_row b st r" "r2_key r \<noteq> k" using inv that k(2) by (auto simp: r2_inv_def object_key_def)
    then show ?thesis
      using k(1) clean_path_inj[of "r2_key r" k b] by (intro own_row_cong[of st']) (auto simp: st'_def fs own_row_def)
  qed
  moreover have "own_part md5 b st' p"
    if "p \<in> set (r2_parts st')" "find_upload b (pt_upload p) st' \<noteq> None" for p
  proof -
    from that have "own_part md5 b st p" using inv by (auto simp: r2_inv_def st'_def find_upload_def)
    then show ?thesis
      using part_path_not_key[OF k(1), of b] by (intro own_part_cong[of st']) (auto simp: st'_def fs own_part_def)
  qed
  moreover have "contents b st' k' = ((contents b st)(k \<mapsto> c)) k'" if "clean_key k'" for k'
    using that k(1) clean_path_inj[of k' k b]
    by (auto simp: contents_def getRow_def st'_def getRow_replace[OF k(2)] fs split: option.split)
  ultimately show ?thesis
    using inv by (auto simp: r2_inv_def st'_def keyed_by_replace)
qed

lemma same_files:
  assumes "r2_inv md5 b st" and "files_of fs = files_of (r2_files st)"
  shows "r2_inv md5 b (st\<lparr>r2_files := fs\<rparr>) \<and> contents b (st\<lparr>r2_files := fs\<rparr>) = contents b st"
  using assms by (auto simp: r2_inv_def own_row_def own_part_def contents_def getRow_def find_upload_def
      fun_eq_iff split: option.split)

lemma put_stores:
  assumes "r2_inv md5 b st" and "clean_key k" and "\<not> fails v"
    and "r2_put md5 b k v opts now version st = (res, st')"
  shows "r2_inv md5 b st'
    \<and> (case res of
         Inr (Some row) \<Rightarrow> r2_size row = length (value_bytes v) \<and> r2_etag row = md5 (value_bytes v)
           \<and> r2_head b k st' = Some row
           \<and> (\<forall>k'. clean_key k' \<longrightarrow> contents b st' k' = ((contents b st)(k \<mapsto> value_bytes v)) k')
       | Inr None \<Rightarrow> st' = st
       | Inl e \<Rightarrow> contents b st' = contents b st)"
proof (cases "bind_res (r2_validateKey (bk_limits b) k) (\<lambda>_. validateCustomMetadata (bk_limits b) (po_custom opts))")
  case (Inl e)
  with assms show ?thesis by (auto simp: r2_put_def)
next
  case ok: (Inr u)
  let ?cond = "case (po_onlyIf opts, getRow b k st) of
      (Some cond, Some row) \<Rightarrow> \<not> evaluateConditional cond (r2_etag row) (r2_uploaded row) | _ \<Rightarrow> False"
  show ?thesis
  proof (cases ?cond)
    case True
    with ok assms(4) have "res = Inr None" "st' = st" by (simp_all add: r2_put_def)
    with assms(1) show ?thesis by simp
  next
    case False
    obtain r fs where w: "writeValueToFile md5 v (r2_filePath b k) (r2_files st) = (r, fs)" by force
    show ?thesis
    proof (cases r)
      case (Inl e)
      then have "res = Inl e" "st' = st\<lparr>r2_files := fs\<rparr>" using assms(4) ok False w by (simp_all add: r2_put_def)
      with same_files[OF assms(1) writeValue_Inl[OF _ assms(3)]] w Inl show ?thesis by simp
    next
      case (Inr en)
      obtain etag n where en: "en = (etag, n)" by force
      note wv = writeValue_Inr[OF w[unfolded Inr en]]
      obtain row where row: "res = Inr (Some row)"
          "st' = st\<lparr>r2_objects := sql_replace object_key row (r2_objects st), r2_files := fs\<rparr>"
          "object_key row = (bk_name b, k)" "r2_size row = n" "r2_etag row = etag"
        using assms(4) ok False w Inr en by (auto simp: r2_put_def Let_def object_key_def)
      have "r2_head b k st' = Some row"
        by (simp add: r2_head_def getRow_def row(2) getRow_replace[OF row(3)])
      with store_object[OF assms(1,2) row(3), of "value_bytes v" fs] wv row show ?thesis by simp
    qed
  qed
qed

text \<open>What a write leaves alone: the other rows and files, the uploads and their parts.\<close>

lemma put_frame:
  assumes "\<not> fails v" and "r2_put md5 b k v opts now version st = (res, st')"
  shows "r2_uploads st' = r2_uploads st \<and> r2_parts st' = r2_parts st
    \<and> (case res of
         Inr (Some row) \<Rightarrow>
           r2_bucket row = bk_name b \<and> r2_key row = k \<and> r2_uploaded row = now \<and> r2_version row = version
           \<and> r2_http_metadata row = serializeHttpMetadata (po_http opts)
           \<and> r2_custom_metadata row = custom_text (po_custom opts)
           \<and> r2_objects st' = sql_replace object_key row (r2_objects st)
           \<and> files_of (r2_files st') = (files_of (r2_files st))(r2_filePath b k \<mapsto> value_bytes v)
       | Inr None \<Rightarrow> \<exists>cond row. po_onlyIf opts = Some cond \<and> r2_head b k st = Some row
           \<and> \<not> evaluateConditional cond (r2_etag row) (r2_uploaded row)
       | Inl e \<Rightarrow> r2_objects st' = r2_objects st \<and> files_of (r2_files st') = files_of (r2_files st))"
proof (cases "bind_res (r2_validateKey (bk_limits b) k) (\<lambda>_. validateCustomMetadata (bk_limits b) (po_custom opts))")
  case (Inl e)
  with assms show ?thesis by (auto simp: r2_put_def)
next
  case ok: (Inr u)
  obtain r fs where w: "writeValueToFile md5 v (r2_filePath b k) (r2_files st) = (r, fs)" by force
  show ?thesis
  proof (cases "case (po_onlyIf opts, getRow b k st) of
      (Some cond, Some row) \<Rightarrow> \<not> evaluateConditional cond (r2_etag row) (r2_uploaded row) | _ \<Rightarrow> False")
    case True
    with ok assms(2) show ?thesis by (auto simp: r2_put_def r2_head_def split: option.splits)
  next
    case False
    show ?thesis
    proof (cases r)
      case (Inl e)
      then have "res = Inl e" "st' = st\<lparr>r2_files := fs\<rparr>" using assms(2) ok False w by (simp_all add: r2_put_def)
      with writeValue_Inl[OF w[unfolded Inl] assms(1)] show ?thesis by simp
    next
      case (Inr en)
      obtain etag n where en: "en = (etag, n)" by force
      from assms(2) ok False w Inr en writeValue_Inr[OF w[unfolded Inr en]] show ?thesis
        by (auto simp: r2_put_def Let_def)
    qed
  qed
qed

text \<open>
  C32. Writing an object changes exactly that object. In a bucket whose objects own their files
  (each object has a clean key, that is, one without empty, \<open>.\<close> and \<open>..\<close> names that does not
  start with the directory of the uploads), a write of a clean key with a body that does not
  fail has one of three outcomes. It is stored: then reading the key gives the body, with its
  length as the size, its digest as the tag and the metadata given, and the row, metadata and
  body of every other object, in this and every other bucket, are as before. Or its condition
  does not hold for the object stored and nothing changes. Or it throws, and every row and
  file is as before. In each case the uploads and their parts are as before and the objects
  own their files again.
\<close>

theorem put_stores_object:
  assumes "r2_inv md5 b st" and "clean_key k" and "\<not> fails v"
    and "r2_put md5 b k v opts now version st = (res, st')"
  shows "r2_inv md5 b st' \<and> r2_uploads st' = r2_uploads st \<and> r2_parts st' = r2_parts st
    \<and> (case res of
         Inr (Some row) \<Rightarrow> r2_size row = length (value_bytes v) \<and> r2_etag row = md5 (value_bytes v)
           \<and> r2_uploaded row = now \<and> r2_version row = version
           \<and> r2_http_metadata row = serializeHttpMetadata (po_http opts)
           \<and> r2_custom_metadata row = custom_text (po_custom opts)
           \<and> r2_head b k st' = Some row
           \<and> (\<forall>k'. clean_key k' \<longrightarrow> contents b st' k' = ((contents b st)(k \<mapsto> value_bytes v)) k')
           \<and> (\<forall>b' k'. (bk_name b', k') \<noteq> (bk_name b, k) \<longrightarrow> r2_head b' k' st' = r2_head b' k' st)
           \<and> (\<forall>p. p \<noteq> r2_filePath b k \<longrightarrow> files_of (r2_files st') p = files_of (r2_files st) p)
       | Inr None \<Rightarrow> st' = st \<and> (\<exists>cond row. po_onlyIf opts = Some cond \<and> r2_head b k st = Some row
           \<and> \<not> evaluateConditional cond (r2_etag row) (r2_uploaded row))
       | Inl e \<Rightarrow> contents b st' = contents b st
           \<and> r2_objects st' = r2_objects st \<and> files_of (r2_files st') = files_of (r2_files st))"
proof -
  have "r2_head b' k' st' = r2_head b' k' st"
    if "res = Inr (Some row)" "(bk_name b', k') \<noteq> (bk_name b, k)" for row b' k'
    using put_frame[OF assms(3,4)] that sql_get_replace_other[of "(bk_name b', k')" object_key row "r2_objects st"]
    by (simp add: r2_head_def getRow_def is_object_key object_key_def)
  with put_stores[OF assms] put_frame[OF assms(3,4)] show ?thesis
    by (auto split: sum.splits option.splits)
qed

section \<open>Deletion\<close>

lemma delete_object:
  assumes "r2_inv md5 b st" and "clean_key k" and "remove_file (r2_filePath b k) (r2_files st) = Inr fs"
  defines "st' \<equiv> st\<lparr>r2_objects := sql_delete (is_object b k) (r2_objects st), r2_files := fs\<rparr>"
  shows "r2_inv md5 b st' \<and> (\<forall>k'. clean_key k' \<longrightarrow> contents b st' k' = ((contents b st)(k := None)) k')"
proof -
  note fs = files_of_remove[OF assms(3)]
  have "own_row b st' r" if "r \<in> set (r2_objects st')" "r2_bucket r = bk_name b" for r
  proof -
    from that have r: "own_row b st r" "r2_key r \<noteq> k"
      using assms(1) by (auto simp: st'_def r2_inv_def is_object_def)
    then show ?thesis
      using assms(2) clean_path_inj[of "r2_key r" k b]
      by (intro own_row_cong[of st']) (auto simp: st'_def fs own_row_def)
  qed
  moreover have "own_part md5 b st' p"
    if "p \<in> set (r2_parts st')" "find_upload b (pt_upload p) st' \<noteq> None" for p
  proof -
    from that have "own_part md5 b st p" using assms(1) by (auto simp: r2_inv_def st'_def find_upload_def)
    then show ?thesis
      using part_path_not_key[OF assms(2), of b] by (intro own_part_cong[of st']) (auto simp: st'_def fs own_part_def)
  qed
  moreover have "contents b st' k' = ((contents b st)(k := None)) k'" if "clean_key k'" for k'
    using that assms(2) clean_path_inj[of k' k b]
    by (auto simp: contents_def getRow_def st'_def getRow_delete fs split: option.split)
  moreover have "keyed_by object_key (r2_objects st')"
    using assms(1) by (simp add: st'_def r2_inv_def sql_defs keyed_by_filter)
  ultimately show ?thesis using assms(1) by (auto simp: r2_inv_def st'_def)
qed

lemma delete_keys_removes:
  "r2_inv md5 b st \<Longrightarrow> list_all clean_key ks \<Longrightarrow> delete_keys b ks st = (Inr (), st') \<Longrightarrow>
   r2_inv md5 b st' \<and> (\<forall>k'. clean_key k' \<longrightarrow> contents b st' k' = (if k' \<in> set ks then None else contents b st k'))"
proof (induction ks arbitrary: st)
  case (Cons k ks)
  let ?st1 = "st\<lparr>r2_objects := sql_delete (is_object b k) (r2_objects st)\<rparr>"
  obtain fs where fs: "remove_file (r2_filePath b k) (r2_files st) = Inr fs"
      "delete_keys b ks (?st1\<lparr>r2_files := fs\<rparr>) = (Inr (), st')"
    using Cons.prems(3) by (auto simp: Let_def split: sum.splits)
  have "r2_inv md5 b (?st1\<lparr>r2_files := fs\<rparr>) \<and>
      (\<forall>k'. clean_key k' \<longrightarrow> contents b (?st1\<lparr>r2_files := fs\<rparr>) k' = ((contents b st)(k := None)) k')"
    using delete_object[OF Cons.prems(1) _ fs(1)] Cons.prems(2) by simp
  with Cons.IH[OF _ _ fs(2)] Cons.prems(2) show ?case by auto
qed simp

lemma delete_removes_objects:
  assumes "r2_inv md5 b st" and "list_all clean_key keys" and "r2_delete b keys st = (Inr (), st')"
  shows "r2_inv md5 b st' \<and> (\<forall>k. clean_key k \<longrightarrow> contents b st' k = (if k \<in> set keys then None else contents b st k))"
  using delete_keys_removes[OF assms(1,2)] assms(3) by (simp add: r2_delete_def split: if_splits)

section \<open>Reading\<close>

definition range_ok :: "r2_range option \<Rightarrow> int \<Rightarrow> bool" where
  "range_ok rng n =
     (case rng of
        None \<Rightarrow> True
      | Some r \<Rightarrow>
          (case rg_suffix r of
             Some s \<Rightarrow> 0 \<le> s
           | None \<Rightarrow> 0 \<le> nullish (rg_offset r) 0 \<and> nullish (rg_offset r) 0 \<le> n
               \<and> (case rg_length r of None \<Rightarrow> True | Some l \<Rightarrow> 0 \<le> l)))"

lemma range_of_bounds:
  assumes "range_ok rng n" and "0 \<le> n" and "range_of rng n = (off, len, rg)"
  shows "0 \<le> off \<and> 0 \<le> len \<and> off + len \<le> n"
  using assms by (auto simp: range_ok_def range_of_def Let_def nullish_def split: option.splits if_splits)

lemma file_slice_inside:
  "0 \<le> off \<Longrightarrow> 0 \<le> len \<Longrightarrow> off + len \<le> int (length c) \<Longrightarrow>
   file_slice off (off + len) c = take (nat len) (drop (nat off) c)"
  by (simp add: file_slice_def Let_def)

lemma get_range:
  assumes "r2_inv md5 b st" and "getRow b k st = Some row" and "range_ok rng (int (r2_size row))"
  shows "\<exists>c. contents b st k = Some c \<and> length c = r2_size row
    \<and> (case r2_get b k onlyIf rng st of
         GotBody bo \<Rightarrow>
           body_bytes bo st = Inr (take (nat (bo_length bo)) (drop (nat (bo_offset bo)) c))
           \<and> 0 \<le> bo_offset bo \<and> 0 \<le> bo_length bo \<and> bo_offset bo + bo_length bo \<le> int (length c)
           \<and> (bo_offset bo, bo_length bo) =
               (case rng of
                  None \<Rightarrow> (0, int (length c))
                | Some r \<Rightarrow>
                    (case rg_suffix r of
                       Some s \<Rightarrow> (max 0 (int (length c) - s), min s (int (length c)))
                     | None \<Rightarrow> (nullish (rg_offset r) 0,
                         (case rg_length r of
                            None \<Rightarrow> int (length c) - nullish (rg_offset r) 0
                          | Some l \<Rightarrow> min l (int (length c) - nullish (rg_offset r) 0)))))
       | GotMeta r \<Rightarrow> r = row \<and> (\<exists>cond. onlyIf = Some cond \<and> \<not> evaluateConditional cond (r2_etag row) (r2_uploaded row))
       | GotNothing \<Rightarrow> False)"
proof -
  obtain c where c: "contents b st k = Some c" "length c = r2_size row"
      "files_of (r2_files st) (r2_filePath b k) = Some c"
    using contents_row[OF assms(1,2)] .
  obtain off len rg where r: "range_of rng (int (r2_size row)) = (off, len, rg)" by (metis surj_pair)
  note bounds = range_of_bounds[OF assms(3) _ r]
  have slice: "body_bytes \<lparr>bo_row = row, bo_path = r2_filePath b k, bo_offset = off, bo_length = len, bo_range = rg\<rparr> st =
      Inr (take (nat len) (drop (nat off) c))"
    using bounds c by (simp add: body_bytes_def read_file_Some[OF c(3)] file_slice_inside)
  have shape: "(off, len) = (case rng of
      None \<Rightarrow> (0, int (length c))
    | Some r \<Rightarrow>
        (case rg_suffix r of
           Some s \<Rightarrow> (max 0 (int (length c) - s), min s (int (length c)))
         | None \<Rightarrow> (nullish (rg_offset r) 0,
             (case rg_length r of
                None \<Rightarrow> int (length c) - nullish (rg_offset r) 0
              | Some l \<Rightarrow> min l (int (length c) - nullish (rg_offset r) 0)))))"
    using r c(2) assms(3) by (auto simp: range_of_def Let_def range_ok_def nullish_def split: option.splits if_splits)
  show ?thesis
  proof (cases "case onlyIf of None \<Rightarrow> False | Some cond \<Rightarrow> \<not> evaluateConditional cond (r2_etag row) (r2_uploaded row)")
    case True
    then have "r2_get b k onlyIf rng st = GotMeta row" using assms(2) by (simp add: r2_get_def)
    with True c show ?thesis by (auto split: option.splits)
  next
    case False
    then have "r2_get b k onlyIf rng st = GotBody \<lparr>bo_row = row, bo_path = r2_filePath b k, bo_offset = off,
        bo_length = len, bo_range = rg\<rparr>"
      using assms(2) r by (simp add: r2_get_def)
    with slice shape bounds c(1,2) show ?thesis by (simp del: Product_Type.prod.inject)
  qed
qed


section \<open>Multipart uploads\<close>

lemma check_parts_rows:
  assumes "check_parts rows ps = Inr out"
  shows "set out \<subseteq> set rows \<and> map (\<lambda>p. (pt_number p, pt_etag p)) out = ps"
  using assms
proof (induction ps arbitrary: out)
  case (Cons p ps)
  obtain n etag where p: "p = (n, etag)" by force
  with Cons.prems obtain row rest where r: "find (\<lambda>p. pt_number p = n) rows = Some row" "pt_etag row = etag"
      "check_parts rows ps = Inr rest" "out = row # rest"
    by (auto simp: bind_res_eq_Inr split: option.splits if_splits)
  from find_SomeD[OF r(1)] Cons.IH[OF r(3)] r p show ?case by auto
qed simp

lemma gather_parts_bodies:
  assumes "\<And>p. p \<in> set rows \<Longrightarrow> files_of fs (pt_path p) = Some (body p)"
  shows "gather_parts rows fs = (concat (map body rows), None)"
  using assms by (induction rows) (simp_all add: read_file_Some)

lemma drop_finished_upload:
  fixes u :: string
  assumes "r2_inv md5 b st"
  defines "st' \<equiv> removePartFiles b u (drop_upload u st)"
  shows "r2_inv md5 b st' \<and> (\<forall>k. clean_key k \<longrightarrow> contents b st' k = contents b st k) \<and> find_upload b u st' = None"
proof -
  have fs: "files_of (r2_files st') = (\<lambda>p. if prefix (part_dir b u) p then None else files_of (r2_files st) p)"
    by (simp add: st'_def removePartFiles_def drop_upload_def files_of_filter)
  have "own_row b st' r" if "r \<in> set (r2_objects st')" "r2_bucket r = bk_name b" for r
  proof -
    from that have r: "own_row b st r"
      using assms(1) by (auto simp: st'_def removePartFiles_def drop_upload_def r2_inv_def)
    then have "clean_key (r2_key r)" by (simp add: own_row_def)
    with r show ?thesis by (intro own_row_cong[of st']) (simp_all add: fs clean_path_not_part)
  qed
  moreover have "own_part md5 b st' p"
    if "p \<in> set (r2_parts st')" "find_upload b (pt_upload p) st' \<noteq> None" for p
  proof -
    have other: "pt_upload p \<noteq> u" using that by (simp add: st'_def removePartFiles_def drop_upload_def)
    have "find_upload b (pt_upload p) st' = find_upload b (pt_upload p) st"
      unfolding st'_def removePartFiles_def drop_upload_def find_upload_def
      by simp (rule sql_get_delete_disjoint, use other in auto)
    with that have "own_part md5 b st p"
      using assms(1) by (auto simp: st'_def removePartFiles_def drop_upload_def r2_inv_def)
    moreover then have "\<not> prefix (part_dir b u) (pt_path p)"
      using other by (auto simp: own_part_def part_path_under)
    ultimately show ?thesis by (intro own_part_cong[of st']) (simp_all add: fs)
  qed
  moreover have "contents b st' k = contents b st k" if "clean_key k" for k
  proof -
    have "r2_objects st' = r2_objects st" by (simp add: st'_def removePartFiles_def drop_upload_def)
    then show ?thesis
      using clean_path_not_part[OF that, of b u] by (simp add: contents_def getRow_def fs split: option.split)
  qed
  moreover have "find_upload b u st' = None"
    by (simp add: st'_def removePartFiles_def drop_upload_def find_upload_def sql_get_None_iff)
  moreover have "keyed_by part_key (r2_parts st')"
    using assms(1) by (simp add: st'_def removePartFiles_def drop_upload_def r2_inv_def sql_defs keyed_by_filter)
  ultimately show ?thesis
    using assms(1) by (auto simp: r2_inv_def st'_def removePartFiles_def drop_upload_def)
qed

lemma uploadPart_stores:
  assumes inv: "r2_inv md5 b st" and "uploadPart md5 b u n v st = (Inr (m, etag), st')"
  shows "r2_inv md5 b st' \<and> m = n \<and> etag = md5 (value_bytes v)
    \<and> files_of (r2_files st') (part_path b u n) = Some (value_bytes v)
    \<and> (\<forall>k. clean_key k \<longrightarrow> contents b st' k = contents b st k)"
proof -
  obtain row0 where up: "find_upload b u st = Some row0"
    using assms(2) by (cases "find_upload b u st") (simp_all add: uploadPart_def)
  obtain r fs where w0: "writeValueToFile md5 v (part_path b u n) (r2_files st) = (r, fs)" by force
  then obtain tag sz where r: "r = Inr (tag, sz)"
    using assms(2) up by (cases r) (auto simp: uploadPart_def)
  note wv0 = writeValue_Inr[OF w0[unfolded r]]
  then have st': "m = n" "st' = st\<lparr>r2_parts := sql_replace part_key
          \<lparr>pt_upload = u, pt_number = n, pt_etag = etag, pt_size = length (value_bytes v), pt_path = part_path b u n\<rparr>
          (r2_parts st), r2_files := fs\<rparr>" and tag: "tag = etag"
    using assms(2) up w0 r by (auto simp: uploadPart_def)
  note wv = wv0[unfolded tag]
  have "own_row b st' r" if "r \<in> set (r2_objects st')" "r2_bucket r = bk_name b" for r
  proof -
    from that have r: "own_row b st r" using inv by (auto simp: st' r2_inv_def)
    then show ?thesis
      using part_path_not_key[of "r2_key r" b u n]
      by (intro own_row_cong[of st']) (auto simp: st' wv own_row_def)
  qed
  moreover have "own_part md5 b st' p"
    if p: "p \<in> set (r2_parts st')" "find_upload b (pt_upload p) st' \<noteq> None" for p
  proof (cases "part_key p = (u, n)")
    case True
    with p have "p = \<lparr>pt_upload = u, pt_number = n, pt_etag = etag, pt_size = length (value_bytes v), pt_path = part_path b u n\<rparr>"
      by (auto simp: st' part_key_def)
    then show ?thesis using wv by (simp add: own_part_def st')
  next
    case False
    with p have "p \<in> set (r2_parts st)" by (auto simp: st' part_key_def)
    with p have "own_part md5 b st p" using inv by (auto simp: st' r2_inv_def find_upload_def)
    then show ?thesis
      using False by (intro own_part_cong[of st']) (auto simp: st' wv own_part_def part_path_inj part_key_def)
  qed
  moreover have "contents b st' k = contents b st k" if "clean_key k" for k
    using part_path_not_key[OF that, of b u n] by (auto simp: contents_def getRow_def st' wv split: option.split)
  ultimately show ?thesis
    using inv wv by (auto simp: r2_inv_def st' keyed_by_replace)
qed

lemma complete_cases:
  assumes "complete_upload md5 b k u parts now version st = (Inr row, st')" and "r2_inv md5 b st" and "clean_key k"
  obtains upload rows fs content where
    "find_upload b u st = Some upload" "check_parts (parts_of u st) (sort_key fst parts) = Inr rows"
    "content = concat (map (\<lambda>p. the (files_of (r2_files st) (pt_path p))) rows)"
    "files_of fs = (files_of (r2_files st))(r2_filePath b k \<mapsto> content)"
    "object_key row = (bk_name b, k)" "r2_size row = length content" "r2_etag row = computeMultipartEtag md5 rows"
    "st' = removePartFiles b u (drop_upload u
       (st\<lparr>r2_objects := sql_replace object_key row (r2_objects st), r2_files := fs\<rparr>))"
    "\<And>p. p \<in> set rows \<Longrightarrow> own_part md5 b st p \<and> pt_upload p = u"
proof -
  obtain upload where up: "find_upload b u st = Some upload"
    using assms(1) by (cases "find_upload b u st") (simp_all add: complete_upload_def)
  obtain rows where rows: "check_parts (parts_of u st) (sort_key fst parts) = Inr rows"
    using assms(1) up by (cases "check_parts (parts_of u st) (sort_key fst parts)") (simp_all add: complete_upload_def)
  obtain fs1 where fs1: "mkdirs (ancestors (r2_filePath b k)) (r2_files st) = Inr fs1"
    using assms(1) up rows by (cases "mkdirs (ancestors (r2_filePath b k)) (r2_files st)") (simp_all add: complete_upload_def)
  have own: "own_part md5 b st p \<and> pt_upload p = u" if "p \<in> set rows" for p
    using that check_parts_rows[OF rows] assms(2) up by (auto simp: r2_inv_def parts_of_def)
  then have "files_of fs1 (pt_path p) = Some (the (files_of (r2_files st) (pt_path p)))" if "p \<in> set rows" for p
    using that files_of_mkdirs[OF fs1] by (fastforce simp: own_part_def)
  from gather_parts_bodies[OF this]
  have g: "gather_parts rows fs1 = (concat (map (\<lambda>p. the (files_of (r2_files st) (pt_path p))) rows), None)" .
  let ?content = "concat (map (\<lambda>p. the (files_of (r2_files st) (pt_path p))) rows)"
  obtain fs where fs: "write_file (r2_filePath b k) ?content fs1 = Inr fs"
    using assms(1) up rows fs1 g by (cases "write_file (r2_filePath b k) ?content fs1") (simp_all add: complete_upload_def)
  have "files_of fs = (files_of (r2_files st))(r2_filePath b k \<mapsto> ?content)"
    using files_of_write[OF fs] files_of_mkdirs[OF fs1] by simp
  moreover have "object_key row = (bk_name b, k)" "r2_size row = length ?content"
    "r2_etag row = computeMultipartEtag md5 rows"
    "st' = removePartFiles b u (drop_upload u
       (st\<lparr>r2_objects := sql_replace object_key row (r2_objects st), r2_files := fs\<rparr>))"
    using assms(1) up rows fs1 g fs by (auto simp: complete_upload_def Let_def object_key_def)
  ultimately show ?thesis using that up rows own by blast
qed

lemma part_bodies:
  assumes "check_parts (parts_of u st) (sort_key fst parts) = Inr rows"
    and own: "\<And>p. p \<in> set rows \<Longrightarrow> own_part md5 b st p \<and> pt_upload p = u"
  defines "bodies \<equiv> map (\<lambda>p. the (files_of (r2_files st) (pt_path p))) rows"
  shows "list_all2 (\<lambda>(n, etag) c. files_of (r2_files st) (part_path b u n) = Some c \<and> md5 c = etag)
      (sort_key fst parts) bodies
    \<and> computeMultipartEtag md5 rows
      = md5 (concat (map (\<lambda>c. unhex (md5 c)) bodies)) @ [CHR ''-''] @ show_nat (length parts)"
proof
  note checked = check_parts_rows[OF assms(1)]
  have body: "files_of (r2_files st) (part_path b u (pt_number p)) = Some (the (files_of (r2_files st) (pt_path p)))
      \<and> md5 (the (files_of (r2_files st) (pt_path p))) = pt_etag p" if "p \<in> set rows" for p
    using own[OF that] by (auto simp: own_part_def)
  have "sort_key fst parts = map (\<lambda>p. (pt_number p, pt_etag p)) rows" using checked by simp
  then show "list_all2 (\<lambda>(n, etag) c. files_of (r2_files st) (part_path b u n) = Some c \<and> md5 c = etag)
      (sort_key fst parts) bodies"
    using body by (simp add: bodies_def list_all2_map1 list_all2_map2 list_all2_same)
  have "length rows = length parts" using arg_cong[OF checked[THEN conjunct2], of length] by simp
  moreover have "map (\<lambda>r. unhex (pt_etag r)) rows = map (\<lambda>c. unhex (md5 c)) bodies"
    using body by (auto simp: bodies_def)
  ultimately show "computeMultipartEtag md5 rows
      = md5 (concat (map (\<lambda>c. unhex (md5 c)) bodies)) @ [CHR ''-''] @ show_nat (length parts)"
    by (simp add: computeMultipartEtag_def)
qed

text \<open>
  C34. Completing a multipart upload assembles the object. When it succeeds, the parts named in
  the call, taken in the order of their numbers, have the tags named there, the object's body
  is the concatenation of their bodies, its size the sum of their sizes, and its tag the
  digest of their digests with their number; every other object is as before and the upload
  is finished: it cannot be completed or added to again. When a part is missing or its tag
  differs, the call throws and nothing changes.
\<close>

theorem multipart_assembles:
  assumes "r2_inv md5 b st" and "clean_key k"
    and "complete_upload md5 b k u parts now version st = (res, st')"
  shows "(\<forall>row. res = Inr row \<longrightarrow>
      (\<exists>bodies. list_all2 (\<lambda>(n, etag) c. files_of (r2_files st) (part_path b u n) = Some c \<and> md5 c = etag)
            (sort_key fst parts) bodies
        \<and> r2_size row = sum_list (map length bodies)
        \<and> r2_etag row = md5 (concat (map (\<lambda>c. unhex (md5 c)) bodies)) @ ''-'' @ show_nat (length parts)
        \<and> (\<forall>k'. clean_key k' \<longrightarrow> contents b st' k' = ((contents b st)(k \<mapsto> concat bodies)) k'))
      \<and> r2_inv md5 b st'
      \<and> (\<forall>ps t ver. fst (complete_upload md5 b k u ps t ver st') = Inl R2UploadNotFound)
      \<and> (\<forall>n v. fst (uploadPart md5 b u n v st') = Inl R2UploadNotFound))
    \<and> (\<not> is_ok (check_parts (parts_of u st) (sort_key fst parts)) \<longrightarrow> \<not> is_ok res \<and> st' = st)"
proof (intro conjI impI)
  show "\<forall>row. res = Inr row \<longrightarrow>
      (\<exists>bodies. list_all2 (\<lambda>(n, etag) c. files_of (r2_files st) (part_path b u n) = Some c \<and> md5 c = etag)
            (sort_key fst parts) bodies
        \<and> r2_size row = sum_list (map length bodies)
        \<and> r2_etag row = md5 (concat (map (\<lambda>c. unhex (md5 c)) bodies)) @ ''-'' @ show_nat (length parts)
        \<and> (\<forall>k'. clean_key k' \<longrightarrow> contents b st' k' = ((contents b st)(k \<mapsto> concat bodies)) k'))
      \<and> r2_inv md5 b st'
      \<and> (\<forall>ps t ver. fst (complete_upload md5 b k u ps t ver st') = Inl R2UploadNotFound)
      \<and> (\<forall>n v. fst (uploadPart md5 b u n v st') = Inl R2UploadNotFound)"
  proof (intro allI impI)
    fix row
    assume "res = Inr row"
    with assms(3) have "complete_upload md5 b k u parts now version st = (Inr row, st')" by simp
    from complete_cases[OF this assms(1,2)] obtain upload rows fs content where c:
      "check_parts (parts_of u st) (sort_key fst parts) = Inr rows"
      "content = concat (map (\<lambda>p. the (files_of (r2_files st) (pt_path p))) rows)"
      "files_of fs = (files_of (r2_files st))(r2_filePath b k \<mapsto> content)"
      "object_key row = (bk_name b, k)" "r2_size row = length content" "r2_etag row = computeMultipartEtag md5 rows"
      "st' = removePartFiles b u (drop_upload u
         (st\<lparr>r2_objects := sql_replace object_key row (r2_objects st), r2_files := fs\<rparr>))"
      and own: "\<And>p. p \<in> set rows \<Longrightarrow> own_part md5 b st p \<and> pt_upload p = u" by metis
    let ?st1 = "st\<lparr>r2_objects := sql_replace object_key row (r2_objects st), r2_files := fs\<rparr>"
    note stored = store_object[OF assms(1,2) c(4,5,3)]
    note finished = drop_finished_upload[of md5 b ?st1 u, folded c(7), OF conjunct1[OF stored]]
    let ?Q = "\<lambda>bodies. list_all2 (\<lambda>(n, etag) c. files_of (r2_files st) (part_path b u n) = Some c \<and> md5 c = etag)
            (sort_key fst parts) bodies
        \<and> r2_size row = sum_list (map length bodies)
        \<and> r2_etag row = md5 (concat (map (\<lambda>c. unhex (md5 c)) bodies)) @ ''-'' @ show_nat (length parts)"
    let ?bodies = "map (\<lambda>p. the (files_of (r2_files st) (pt_path p))) rows"
    have "?Q ?bodies"
      using part_bodies[OF c(1) own] c(5,6) unfolding c(2) by (simp add: length_concat)
    moreover have "contents b st' k' = ((contents b st)(k \<mapsto> concat ?bodies)) k'" if "clean_key k'" for k'
      using stored finished that c(2) by simp
    moreover have "r2_inv md5 b st'" using finished by blast
    moreover have "fst (complete_upload md5 b k u ps t ver st') = Inl R2UploadNotFound" for ps t ver
      using finished by (simp add: complete_upload_def)
    moreover have "fst (uploadPart md5 b u n v st') = Inl R2UploadNotFound" for n v
      using finished by (simp add: uploadPart_def)
    ultimately show "(\<exists>bodies. list_all2 (\<lambda>(n, etag) c. files_of (r2_files st) (part_path b u n) = Some c \<and> md5 c = etag)
            (sort_key fst parts) bodies
        \<and> r2_size row = sum_list (map length bodies)
        \<and> r2_etag row = md5 (concat (map (\<lambda>c. unhex (md5 c)) bodies)) @ ''-'' @ show_nat (length parts)
        \<and> (\<forall>k'. clean_key k' \<longrightarrow> contents b st' k' = ((contents b st)(k \<mapsto> concat bodies)) k'))
      \<and> r2_inv md5 b st'
      \<and> (\<forall>ps t ver. fst (complete_upload md5 b k u ps t ver st') = Inl R2UploadNotFound)
      \<and> (\<forall>n v. fst (uploadPart md5 b u n v st') = Inl R2UploadNotFound)" by blast
  qed
next
  assume "\<not> is_ok (check_parts (parts_of u st) (sort_key fst parts))"
  then obtain e where "check_parts (parts_of u st) (sort_key fst parts) = Inl e"
    by (cases "check_parts (parts_of u st) (sort_key fst parts)") simp_all
  with assms(3) show "\<not> is_ok res" "st' = st"
    by (auto simp: complete_upload_def split: option.splits)
qed

section \<open>Listing\<close>

lemma parse_int_show_nat: "parse_int (show_int (int n)) = Some (int n)"
proof -
  have d: "\<forall>c \<in> set (show_nat n). is_digit c" using show_nat_digits by blast
  obtain c s where cs: "show_nat n = c # s" by (cases "show_nat n") auto
  with d have "\<not> is_ws c \<and> c \<noteq> CHR ''-'' \<and> c \<noteq> CHR ''+''" by (auto simp: is_digit_def is_ws_def)
  moreover have "takeWhile is_digit (show_nat n) = show_nat n" using d by (simp add: takeWhile_eq_all_conv)
  ultimately show ?thesis
    using cs digits_val_show_nat[of n] by (simp add: parse_int_def show_int_def trim_start_def del: digits_val_show_nat)
qed

lemma sql_like_plain:
  assumes "CHR ''%'' \<notin> set p" and "CHR ''_'' \<notin> set p"
  shows "sql_like None (p @ ''%'') k \<longleftrightarrow> prefix (to_lower p) (to_lower k)"
  using assms
proof (induction p arbitrary: k)
  case (Cons x p)
  then show ?case by (cases k) (auto simp: to_lower_def)
qed (simp add: to_lower_def del: sql_like.simps)

text \<open>A client that follows the cursors, and collects the objects and the common prefixes.\<close>

fun follow_cursors ::
    "nat \<Rightarrow> bucket \<Rightarrow> r2_list_options \<Rightarrow> bucket_state \<Rightarrow> (r2_error, r2_row list \<times> string list) res" where
  "follow_cursors 0 b opts st = Inr ([], [])"
| "follow_cursors (Suc n) b opts st =
     bind_res (r2_list b opts st) (\<lambda>page.
       if rr_truncated page then
         bind_res (follow_cursors n b (opts\<lparr>rl_cursor := Some (rr_cursor page)\<rparr>) st) (\<lambda>(objs, pfxs).
           Inr (rr_objects page @ objs, rr_prefixes page @ pfxs))
       else Inr (rr_objects page, rr_prefixes page))"

definition direct :: "r2_list_options \<Rightarrow> r2_row \<Rightarrow> bool" where
  "direct opts r =
     (nullish (rl_delimiter opts) '''' = ''''
      \<or> delimited (nullish (rl_prefix opts) '''') (nullish (rl_delimiter opts) '''') (r2_key r) = None)"

lemma direct_cursor [simp]: "direct (opts\<lparr>rl_cursor := c\<rparr>) = direct opts"
  by (simp add: direct_def fun_eq_iff)

lemma list_page:
  fixes b :: bucket and st :: bucket_state
  assumes "cursor_offset opts = Inr (int off)" and "nullish (rl_limit opts) 1000 = l"
  defines "rows \<equiv> drop off (matching_rows b (nullish (rl_prefix opts) '''') st)"
  obtains pfxs where "r2_list b opts st = Inr \<lparr>rr_objects = filter (direct opts) (take l rows),
      rr_truncated = (l < length rows),
      rr_cursor = (if l < length rows then show_int (int (off + l)) else ''''), rr_prefixes = pfxs\<rparr>"
    "set pfxs = {p. \<exists>r \<in> set (take l rows). \<not> direct opts r
        \<and> delimited (nullish (rl_prefix opts) '''') (nullish (rl_delimiter opts) '''') (r2_key r) = Some p}"
proof -
  let ?pfx = "nullish (rl_prefix opts) ''''" and ?delim = "nullish (rl_delimiter opts) ''''"
  have t: "(l < length (take (l + 1) rows)) = (l < length rows)" "take l (take (l + 1) rows) = take l rows"
    by (simp_all add: min_def)
  show ?thesis
  proof (cases "?delim = ''''")
    case True
    then have "direct opts = (\<lambda>r. True)" by (simp add: direct_def fun_eq_iff)
    moreover have "r2_list b opts st = Inr \<lparr>rr_objects = take l rows, rr_truncated = (l < length rows),
      rr_cursor = (if l < length rows then show_int (int (off + l)) else ''''), rr_prefixes = []\<rparr>"
      using assms(1,2) True t by (auto simp: r2_list_def Let_def rows_def)
    ultimately show ?thesis using that[of "[]"] by simp
  next
    case False
    then have d: "direct opts = (\<lambda>r. delimited ?pfx ?delim (r2_key r) = None)" by (simp add: direct_def fun_eq_iff)
    have "r2_list b opts st = Inr \<lparr>rr_objects = filter (direct opts) (take l rows),
      rr_truncated = (l < length rows),
      rr_cursor = (if l < length rows then show_int (int (off + l)) else ''''),
      rr_prefixes = sort_key code_units (remdups (List.map_filter (\<lambda>r. delimited ?pfx ?delim (r2_key r)) (take l rows)))\<rparr>"
      using assms(1,2) False t by (simp add: r2_list_def Let_def rows_def d)
    then show ?thesis
      by (rule that) (force simp: d List.map_filter_def image_iff)
  qed
qed

lemma follow_cursors_rows:
  assumes "cursor_offset opts = Inr (int off)" and "nullish (rl_limit opts) 1000 = l" and "0 < l"
    and "length (drop off (matching_rows b (nullish (rl_prefix opts) '''') st)) < fuel"
  shows "\<exists>pfxs. follow_cursors fuel b opts st
      = Inr (filter (direct opts) (drop off (matching_rows b (nullish (rl_prefix opts) '''') st)), pfxs)
    \<and> set pfxs = {p. \<exists>r \<in> set (drop off (matching_rows b (nullish (rl_prefix opts) '''') st)). \<not> direct opts r
        \<and> delimited (nullish (rl_prefix opts) '''') (nullish (rl_delimiter opts) '''') (r2_key r) = Some p}"
  using assms
proof (induction fuel arbitrary: off opts)
  case (Suc fuel)
  let ?rows = "drop off (matching_rows b (nullish (rl_prefix opts) '''') st)"
  obtain pfxs where page: "r2_list b opts st = Inr \<lparr>rr_objects = filter (direct opts) (take l ?rows),
      rr_truncated = (l < length ?rows),
      rr_cursor = (if l < length ?rows then show_int (int (off + l)) else ''''), rr_prefixes = pfxs\<rparr>"
    and pfxs: "set pfxs = {p. \<exists>r \<in> set (take l ?rows). \<not> direct opts r
        \<and> delimited (nullish (rl_prefix opts) '''') (nullish (rl_delimiter opts) '''') (r2_key r) = Some p}"
    using list_page[OF Suc.prems(1,2), of b st] .
  show ?case
  proof (cases "l < length ?rows")
    case False
    then have "take l ?rows = ?rows" by simp
    with False page pfxs show ?thesis by simp
  next
    case True
    let ?opts = "opts\<lparr>rl_cursor := Some (show_int (int (off + l)))\<rparr>"
    have "show_int (int (off + l)) \<noteq> ''''" using show_int_start by blast
    then have "cursor_offset ?opts = Inr (int (off + l))"
      using parse_int_show_nat[of "off + l"] by (simp add: cursor_offset_def del: of_nat_add)
    from Suc.IH[OF this, of] Suc.prems True have "\<exists>rest. follow_cursors fuel b ?opts st =
        Inr (filter (direct ?opts) (drop (off + l) (matching_rows b (nullish (rl_prefix opts) '''') st)), rest)
      \<and> set rest = {p. \<exists>r \<in> set (drop (off + l) (matching_rows b (nullish (rl_prefix opts) '''') st)). \<not> direct ?opts r
        \<and> delimited (nullish (rl_prefix opts) '''') (nullish (rl_delimiter opts) '''') (r2_key r) = Some p}"
      by simp
    then obtain rest where rest:
      "follow_cursors fuel b ?opts st = Inr (filter (direct ?opts) (drop l ?rows), rest)"
      "set rest = {p. \<exists>r \<in> set (drop l ?rows). \<not> direct ?opts r
        \<and> delimited (nullish (rl_prefix opts) '''') (nullish (rl_delimiter opts) '''') (r2_key r) = Some p}"
      by (auto simp: add.commute)
    have split: "?rows = take l ?rows @ drop l ?rows" by (rule append_take_drop_id[symmetric])
    have "filter (direct opts) ?rows = filter (direct opts) (take l ?rows) @ filter (direct opts) (drop l ?rows)"
      by (subst split) (simp only: filter_append)
    moreover have "set ?rows = set (take l ?rows) \<union> set (drop l ?rows)"
      by (subst split) (simp only: set_append)
    ultimately show ?thesis using page pfxs rest True by auto
  qed
qed simp

lemma matching_rows_set:
  "set (matching_rows b pfx st) = {r \<in> set (r2_objects st). r2_bucket r = bk_name b \<and> sql_like None (pfx @ ''%'') (r2_key r)}"
  by (simp add: matching_rows_def)

text \<open>
  C35. Following the cursors lists the bucket. With any limit above zero and enough pages, the
  objects a client collects are exactly those of the bucket whose key starts with the prefix
  (its letters compared without case; the prefix has no wildcard of the query), each once and
  in the order of the keys; with a delimiter, the keys that have it after the prefix are left
  out and reported by their common prefix instead, and only those. The common prefixes are a
  set: one whose keys lie on several pages is reported on each of them.
\<close>

theorem list_follows_cursors:
  assumes "keyed_by object_key (r2_objects st)" and "rl_cursor opts = None" and "rl_limit opts \<noteq> Some 0"
    and "length (r2_objects st) < fuel" and "nullish (rl_prefix opts) '''' = pfx"
    and "CHR ''%'' \<notin> set pfx" and "CHR ''_'' \<notin> set pfx"
  shows "\<exists>objs pfxs. follow_cursors fuel b opts st = Inr (objs, pfxs)
    \<and> sorted (map (\<lambda>r. code_units (r2_key r)) objs) \<and> List.distinct (map r2_key objs)
    \<and> set objs = {r \<in> set (r2_objects st). r2_bucket r = bk_name b
        \<and> prefix (to_lower pfx) (to_lower (r2_key r)) \<and> direct opts r}
    \<and> set pfxs = {p. \<exists>r \<in> set (r2_objects st). r2_bucket r = bk_name b
        \<and> prefix (to_lower pfx) (to_lower (r2_key r)) \<and> \<not> direct opts r
        \<and> delimited pfx (nullish (rl_delimiter opts) '''') (r2_key r) = Some p}"
proof -
  let ?rows = "matching_rows b pfx st"
  obtain l where l: "nullish (rl_limit opts) 1000 = l" "0 < l"
    using assms(3) by (cases "rl_limit opts") auto
  have "length ?rows \<le> length (r2_objects st)" by (simp add: matching_rows_def sql_defs)
  with follow_cursors_rows[of opts 0 l b st fuel] assms(2,4,5) l obtain pfxs where f:
    "follow_cursors fuel b opts st = Inr (filter (direct opts) ?rows, pfxs)"
    "set pfxs = {p. \<exists>r \<in> set ?rows. \<not> direct opts r
        \<and> delimited pfx (nullish (rl_delimiter opts) '''') (r2_key r) = Some p}"
    by (auto simp: cursor_offset_def)
  have "sorted (map (\<lambda>r. code_units (r2_key r)) (filter (direct opts) ?rows))"
    by (rule sorted_filter) (simp add: matching_rows_def)
  moreover have "List.distinct (map r2_key (filter (direct opts) ?rows))"
  proof -
    have "List.distinct (map object_key (r2_objects st))" using assms(1) .
    then have "List.distinct ?rows" "inj_on object_key (set (r2_objects st))"
      by (auto simp: matching_rows_def sql_defs distinct_map)
    then show ?thesis by (fastforce simp: distinct_map inj_on_def object_key_def matching_rows_set)
  qed
  ultimately show ?thesis
    using f assms(6,7) by (auto simp: matching_rows_set sql_like_plain)
qed
section \<open>Examples\<close>

definition ex_bucket :: bucket where
  "ex_bucket =
     \<lparr>bk_name = ''b'', bk_base = [''r2'', ''b''],
      bk_limits = \<lparr>r2_maxKeySize = 40, r2_maxCustomMetadataSize = 10, r2_maxBatchDeleteKeys = 2,
        r2_maxMultipartPartSize = 10, r2_minMultipartPartSize = 1, r2_maxMultipartParts = 3\<rparr>\<rparr>"

definition ex_row :: "string \<Rightarrow> nat \<Rightarrow> r2_row" where
  "ex_row k n =
     \<lparr>r2_bucket = ''b'', r2_key = k, r2_size = n, r2_etag = '''', r2_version = '''', r2_uploaded = 0,
      r2_http_metadata = None, r2_custom_metadata = None, r2_checksums = None, r2_tags = None\<rparr>"

definition ex_state :: bucket_state where
  "ex_state =
     \<lparr>r2_objects = [ex_row ''k'' 5],
      r2_uploads = [\<lparr>up_id = ''u'', up_bucket = ''b'', up_key = ''m'', up_http_metadata = None,
                     up_custom_metadata = None, up_created = 0\<rparr>],
      r2_parts = [\<lparr>pt_upload = ''u'', pt_number = 2, pt_etag = ''63'', pt_size = 1,
                   pt_path = part_path ex_bucket ''u'' 2\<rparr>,
                  \<lparr>pt_upload = ''u'', pt_number = 1, pt_etag = ''6162'', pt_size = 2,
                   pt_path = part_path ex_bucket ''u'' 1\<rparr>],
      r2_files = [(r2_filePath ex_bucket ''k'', File ''hello''),
                  (part_path ex_bucket ''u'' 2, File ''c''), (part_path ex_bucket ''u'' 1, File ''ab'')]\<rparr>"

lemma ex_inv: "r2_inv to_hex ex_bucket ex_state"
proof -
  have paths: "clean_key ''k''" "r2_filePath ex_bucket ''k'' = [''r2'', ''b'', ''k'']"
    "part_path ex_bucket ''u'' 2 = [''r2'', ''b'', ''__multipart__'', ''u'', ''part-2'']"
    "part_path ex_bucket ''u'' 1 = [''r2'', ''b'', ''__multipart__'', ''u'', ''part-1'']"
    "to_hex ''ab'' = ''6162''" "to_hex ''c'' = ''63''"
    by code_simp+
  then show ?thesis
    by (simp add: r2_inv_def ex_state_def ex_row_def own_row_def own_part_def object_key_def part_key_def files_of_def)
qed

theorem put_stores_object_witness:
  "\<exists>row st'. r2_put to_hex ex_bucket ''n/x'' (RString ''hi'') no_options 7 ''v'' ex_state = (Inr (Some row), st')
    \<and> r2_inv to_hex ex_bucket st' \<and> contents ex_bucket st' ''n/x'' = Some ''hi''
    \<and> contents ex_bucket st' ''k'' = Some ''hello''"
proof -
  obtain res st' where p: "r2_put to_hex ex_bucket ''n/x'' (RString ''hi'') no_options 7 ''v'' ex_state = (res, st')"
    by force
  have keys: "clean_key ''n/x''" "clean_key ''k''" "\<not> fails (RString ''hi'')" by code_simp+
  have "case fst (r2_put to_hex ex_bucket ''n/x'' (RString ''hi'') no_options 7 ''v'' ex_state) of
      Inr (Some row) \<Rightarrow> True | _ \<Rightarrow> False"
    by code_simp
  then obtain row where res: "res = Inr (Some row)" using p by (auto split: sum.splits option.splits)
  have "contents ex_bucket ex_state ''k'' = Some ''hello''" "value_bytes (RString ''hi'') = ''hi''" by code_simp+
  with put_stores_object[OF ex_inv keys(1,3) p] res p keys(1,2) show ?thesis by simp
qed


theorem multipart_assembles_witness:
  "\<exists>row st'. complete_upload to_hex ex_bucket ''m'' ''u'' [(2, ''63''), (1, ''6162'')] 9 ''v'' ex_state = (Inr row, st')
    \<and> contents ex_bucket st' ''m'' = Some ''abc'' \<and> r2_size row = 3 \<and> r2_inv to_hex ex_bucket st'"
proof -
  let ?parts = "[(2, ''63''), (1, ''6162'')] :: (int \<times> string) list"
  obtain res st' where p: "complete_upload to_hex ex_bucket ''m'' ''u'' ?parts 9 ''v'' ex_state = (res, st')" by force
  have key: "clean_key ''m''" by code_simp
  have "is_ok (fst (complete_upload to_hex ex_bucket ''m'' ''u'' ?parts 9 ''v'' ex_state))" by code_simp
  then obtain row where res: "res = Inr row" using p by (cases res) auto
  have sorted: "sort_key fst ?parts = [(1, ''6162''), (2, ''63'')]" by simp
  have files: "files_of (r2_files ex_state) (part_path ex_bucket ''u'' 1) = Some ''ab''"
    "files_of (r2_files ex_state) (part_path ex_bucket ''u'' 2) = Some ''c''"
    by code_simp+
  from multipart_assembles[OF ex_inv key p] res obtain bodies where b:
    "list_all2 (\<lambda>(n, etag) c. files_of (r2_files ex_state) (part_path ex_bucket ''u'' n) = Some c \<and> to_hex c = etag)
      (sort_key fst ?parts) bodies"
    "r2_size row = sum_list (map length bodies)" "r2_inv to_hex ex_bucket st'"
    "contents ex_bucket st' ''m'' = Some (concat bodies)"
    using key by auto
  then have "bodies = [''ab'', ''c'']"
    unfolding sorted using files by (auto simp: list_all2_Cons1)
  with b p res show ?thesis by auto
qed

theorem list_follows_cursors_witness:
  "\<exists>objs pfxs. follow_cursors 4 ex_bucket
      \<lparr>rl_prefix = Some ''a'', rl_limit = Some 1, rl_cursor = None, rl_delimiter = Some ''/''\<rparr>
      (ex_state\<lparr>r2_objects := [ex_row ''az'' 1, ex_row ''ab/c'' 2, ex_row ''x'' 3]\<rparr>) = Inr (objs, pfxs)
    \<and> ex_row ''az'' 1 \<in> set objs \<and> set pfxs = {''ab/''}"
proof -
  let ?opts = "\<lparr>rl_prefix = Some ''a'', rl_limit = Some 1, rl_cursor = None, rl_delimiter = Some ''/''\<rparr>"
  let ?st = "ex_state\<lparr>r2_objects := [ex_row ''az'' 1, ex_row ''ab/c'' 2, ex_row ''x'' 3]\<rparr>"
  have k: "keyed_by object_key (r2_objects ?st)" by (simp add: object_key_def ex_row_def)
  have d: "direct ?opts (ex_row ''az'' 1)" "\<not> direct ?opts (ex_row ''ab/c'' 2)" "direct ?opts (ex_row ''x'' 3)"
    "delimited ''a'' ''/'' ''ab/c'' = Some ''ab/''" "to_lower ''a'' = ''a''" "to_lower ''az'' = ''az''"
    "to_lower ''ab/c'' = ''ab/c''" "to_lower ''x'' = ''x''"
    by code_simp+
  have row: "r2_bucket (ex_row k n) = ''b''" "r2_key (ex_row k n) = k" "bk_name ex_bucket = ''b''" for k n
    by (simp_all add: ex_row_def ex_bucket_def)
  show ?thesis
    using list_follows_cursors[OF k, of ?opts 4 "''a''" ex_bucket] d by (auto simp: row)
qed
section \<open>Where the bucket is not a map\<close>

text \<open>An offset behind the end of the object is not rejected: the reported length is negative.\<close>

lemma range_behind_the_end:
  "case r2_get ex_bucket ''k'' None (Some \<lparr>rg_offset = Some 9, rg_length = None, rg_suffix = None\<rparr>) ex_state of
     GotBody bo \<Rightarrow> bo_range bo = Some (9, -4) \<and> body_bytes bo ex_state = Inr '''' | _ \<Rightarrow> False"
  by code_simp

text \<open>A stream that fails while it is stored has already replaced the file of the old object.\<close>

lemma failing_stream_damages_object:
  "let (res, st) = r2_put to_hex ex_bucket ''k'' (RStream [''x''] True) no_options 0 ''v'' ex_state
   in res = Inl StreamFailed \<and> getRow ex_bucket ''k'' st = getRow ex_bucket ''k'' ex_state
     \<and> contents ex_bucket st ''k'' = Some ''x''"
  by code_simp

text \<open>Keys that the path normalisation identifies share a file.\<close>

lemma keys_share_a_file:
  "let st1 = snd (r2_put to_hex ex_bucket ''a/b'' (RString ''one'') no_options 0 ''v'' ex_state);
       st2 = snd (r2_put to_hex ex_bucket ''a//b'' (RString ''second'') no_options 0 ''w'' st1)
   in map_option r2_size (getRow ex_bucket ''a/b'' st2) = Some 3
     \<and> contents ex_bucket st2 ''a/b'' = Some ''second''"
  by code_simp

text \<open>Deletion does not validate its keys: a key with two dots removes a file of another bucket.\<close>

lemma delete_leaves_the_bucket:
  "files_of (r2_files (snd (r2_delete ex_bucket [''../c/k'']
      (ex_state\<lparr>r2_files := [([''r2'', ''c'', ''k''], File ''other'')]\<rparr>)))) [''r2'', ''c'', ''k''] = None"
  by code_simp

text \<open>Deleting a key whose path is a directory throws, after the rows before it are gone.\<close>

lemma delete_of_directory_throws:
  "let st = snd (r2_put to_hex ex_bucket ''a/b'' (RString ''one'') no_options 0 ''v'' ex_state)
   in fst (r2_delete ex_bucket [''a''] st) = Inl FsIsADirectory"
  by code_simp

text \<open>An underscore in the prefix matches any character, and letters match in either case.\<close>

lemma prefix_is_a_pattern:
  "map r2_key (matching_rows ex_bucket ''a_'' (ex_state\<lparr>r2_objects := [ex_row ''abc'' 1, ex_row ''a_'' 2, ex_row ''A_'' 3]\<rparr>))
   = [''A_'', ''a_'', ''abc'']"
  by code_simp

text \<open>A key below the directory of the parts replaces the body of a part.\<close>

lemma put_overwrites_part:
  "let st = snd (r2_put to_hex ex_bucket ''__multipart__/u/part-1''
     (RString ''zz'') no_options 0 ''v'' ex_state)
   in files_of (r2_files st) (part_path ex_bucket ''u'' 1) = Some ''zz''"
  by code_simp
section \<open>Metadata\<close>

lemma to_hex_simps [simp]:
  "to_hex [] = []"
  "to_hex (c # b) = hex_digit (of_char c div 16) # hex_digit (of_char c mod 16) # to_hex b"
  by (simp_all add: to_hex_def Let_def)

lemma lower_hex_digit [simp]: "k < 16 \<Longrightarrow> lower_char (hex_digit k) = hex_digit k"
  by (simp add: hex_digit_def lower_char_def Let_def)

lemma unhex_to_hex [simp]: "unhex (to_hex b) = b"
proof (induction b)
  case (Cons c b)
  have "(of_char c :: nat) div 16 < 16" "(of_char c :: nat) mod 16 < 16" using of_char_lt_256[of c] by linarith+
  with Cons show ?case by (simp add: hex_val_hex_digit)
qed simp

lemma checksums_round_trip:
  "List.distinct (map fst c) \<Longrightarrow> Option.bind (json_parse (serializeChecksums c)) deserializeChecksums = Some c"
proof -
  assume "List.distinct (map fst c)"
  then have "json_wf (JObj (map (\<lambda>(k, v). (k, JStr (to_hex v))) c))"
    by (simp add: comp_def case_prod_beta list_all_iff)
  then have "json_parse (serializeChecksums c) = Some (JObj (map (\<lambda>(k, v). (k, JStr (to_hex v))) c))"
    unfolding serializeChecksums_def by (rule json_round_trip)
  moreover have "checksum_entries (map (\<lambda>(k, v). (k, JStr (to_hex v))) c) = Some c" by (induction c) auto
  ultimately show ?thesis by (simp add: deserializeChecksums_def)
qed

definition http_ok :: "(string \<Rightarrow> int) \<Rightarrow> http_metadata \<Rightarrow> bool" where
  "http_ok parse_date m =
     list_all (\<lambda>(f, v). case v of MText _ \<Rightarrow> f \<noteq> ''cacheExpiry''
       | MDate d \<Rightarrow> f = ''cacheExpiry'' \<and> parse_date (toISOString d) = d) m"

definition http_fields :: "http_metadata \<Rightarrow> http_metadata" where
  "http_fields m = List.map_filter (\<lambda>(h, f). map_option (Pair f) (field_value m f)) HTTP_METADATA_FIELDS"

lemma toISOString_nonempty [simp]: "toISOString d \<noteq> ''''"
  by (simp add: toISOString_def Let_def)
definition http_json :: "meta_field \<Rightarrow> json" where
  "http_json v = (case v of MText t \<Rightarrow> JStr t | MDate d \<Rightarrow> JStr (toISOString d))"

lemma serializeHttp_json:
  "serializeHttpMetadata (Some m) =
     (if http_fields m = [] then None
      else Some (stringify (JObj (map (\<lambda>(f, v). (f, http_json v)) (http_fields m)))))"
proof -
  have "List.map_filter (\<lambda>(h, f). case field_value m f of None \<Rightarrow> None
        | Some (MText t) \<Rightarrow> Some (f, JStr t) | Some (MDate d) \<Rightarrow> Some (f, JStr (toISOString d))) fs
      = map (\<lambda>(f, v). (f, http_json v)) (List.map_filter (\<lambda>(h, f). map_option (Pair f) (field_value m f)) fs)"
    for fs :: "(string \<times> string) list"
    by (induction fs) (auto simp: http_json_def split: option.split meta_field.split)
  then show ?thesis by (simp add: serializeHttpMetadata_def http_fields_def)
qed

lemma map_of_fields:
  assumes "List.distinct (map snd fs)"
  shows "List.distinct (map fst (List.map_filter (\<lambda>(h, f). map_option (Pair f) (g f)) fs))
    \<and> map_of (List.map_filter (\<lambda>(h, f). map_option (Pair f) (g f)) fs) f = (if f \<in> snd ` set fs then g f else None)"
  using assms
proof (induction fs)
  case (Cons a fs)
  have "fst ` set (List.map_filter (\<lambda>(h, f). map_option (Pair f) (g f)) fs) \<subseteq> snd ` set fs"
    by (force simp: List.map_filter_def)
  with Cons show ?case by (cases a) (auto split: option.split)
qed simp

lemma distinct_fields: "List.distinct (map snd HTTP_METADATA_FIELDS)"
  by code_simp

lemma field_value_ok:
  assumes "http_ok parse_date m" and "field_value m f = Some v"
  shows "case v of MText t \<Rightarrow> f \<noteq> ''cacheExpiry'' \<and> t \<noteq> '''' | MDate d \<Rightarrow> f = ''cacheExpiry'' \<and> parse_date (toISOString d) = d"
proof -
  have "(f, v) \<in> set m" using assms(2) by (auto simp: field_value_def dest: map_of_SomeD split: option.splits meta_field.splits if_splits)
  with assms show ?thesis
    by (fastforce simp: http_ok_def list_all_iff field_value_def split: option.splits meta_field.splits if_splits)
qed

lemma map_filter_eq: "(\<And>x. x \<in> set xs \<Longrightarrow> f x = g x) \<Longrightarrow> List.map_filter f xs = List.map_filter g xs"
  by (induction xs) (simp_all split: option.split)

lemma http_round_trip:
  assumes "http_ok parse_date m"
  shows "deserializeHttpMetadata parse_date (serializeHttpMetadata (Some m)) = Some (http_fields m)"
proof (cases "http_fields m = []")
  case False
  let ?obj = "map (\<lambda>(f, v). (f, http_json v)) (http_fields m)"
  note d = map_of_fields[OF distinct_fields, of "field_value m", folded http_fields_def]
  have keys: "map fst ?obj = map fst (http_fields m)" by (simp add: comp_def case_prod_beta)
  have "json_wf (JObj ?obj)"
    using d keys by (auto simp: list_all_iff http_json_def simp del: map_map split: meta_field.split)
  then have p: "json_parse (stringify (JObj ?obj)) = Some (JObj ?obj)" by (rule json_round_trip)
  then have ne: "stringify (JObj ?obj) \<noteq> ''''" by (metis json_parse_empty option.distinct(1))
  have "map_of ?obj f = map_option http_json (map_of (http_fields m) f)" for f
    by (induction "http_fields m") (auto simp: map_of_map)
  then have m: "map_of ?obj f = (if f \<in> snd ` set HTTP_METADATA_FIELDS then map_option http_json (field_value m f) else None)" for f
    using d[of f] by simp
  have "(case map_of ?obj f of Some (JStr t) \<Rightarrow>
            if t = '''' then None else Some (f, if f = ''cacheExpiry'' then MDate (parse_date t) else MText t) | _ \<Rightarrow> None)
        = map_option (Pair f) (field_value m f)" if "f \<in> snd ` set HTTP_METADATA_FIELDS" for f
  proof -
    have mf: "map_of ?obj f = map_option http_json (field_value m f)" using that m by simp
    show ?thesis
    proof (cases "field_value m f")
      case (Some v)
      then show ?thesis
        unfolding mf using field_value_ok[OF assms Some] by (cases v) (simp_all add: http_json_def)
    qed (simp add: mf)
  qed
  then have "List.map_filter (\<lambda>(h, f). case map_of ?obj f of Some (JStr t) \<Rightarrow>
            if t = '''' then None else Some (f, if f = ''cacheExpiry'' then MDate (parse_date t) else MText t) | _ \<Rightarrow> None)
        HTTP_METADATA_FIELDS = http_fields m"
    unfolding http_fields_def by (intro map_filter_eq) (auto simp: rev_image_eqI)
  with p ne False show ?thesis by (simp only: serializeHttp_json deserializeHttpMetadata_def option.case json.case if_False)
qed (simp add: serializeHttp_json deserializeHttpMetadata_def)
lemma stored_metadata:
  assumes "r2_put md5 b k v opts now version st = (Inr (Some row), st')"
    and "http_ok parse_date (nullish (po_http opts) [])" and "List.distinct (map fst (nullish (po_custom opts) []))"
  shows "rowToMeta parse_date row = Some
    \<lparr>mt_key = k, mt_size = length (value_bytes v), mt_etag = md5 (value_bytes v), mt_version = version,
     mt_uploaded = now, mt_http = http_fields (nullish (po_http opts) []),
     mt_custom = JObj (map (\<lambda>(f, t). (f, JStr t)) (nullish (po_custom opts) [])),
     mt_checksums = (''md5'', unhex (md5 (value_bytes v))) # provided_digests opts\<rparr>"
proof -
  obtain r fs where w: "writeValueToFile md5 v (r2_filePath b k) (r2_files st) = (r, fs)" by force
  then obtain etag n where r: "r = Inr (etag, n)"
    using assms(1) by (cases r) (auto simp: r2_put_def split: sum.splits if_splits)
  note wv = writeValue_Inr[OF w[unfolded r]]
  let ?sums = "(''md5'', unhex etag) # provided_digests opts"
  have row: "row = \<lparr>r2_bucket = bk_name b, r2_key = k, r2_size = n, r2_etag = etag, r2_version = version,
      r2_uploaded = now, r2_http_metadata = serializeHttpMetadata (po_http opts),
      r2_custom_metadata = custom_text (po_custom opts),
      r2_checksums = Some (serializeChecksums ?sums), r2_tags = None\<rparr>"
    using assms(1) w r by (auto simp: r2_put_def Let_def split: sum.splits if_splits)
  have http: "deserializeHttpMetadata parse_date (serializeHttpMetadata (po_http opts)) = Some (http_fields (nullish (po_http opts) []))"
  proof (cases "po_http opts")
    case None
    then show ?thesis by (simp add: serializeHttpMetadata_def deserializeHttpMetadata_def http_fields_def field_value_def HTTP_METADATA_FIELDS_def)
  next
    case (Some m)
    with http_round_trip[of parse_date m] assms(2) show ?thesis by simp
  qed
  have custom: "(case stored_text (custom_text (po_custom opts)) of None \<Rightarrow> Some (JObj []) | Some t \<Rightarrow> json_parse t)
      = Some (JObj (map (\<lambda>(f, t). (f, JStr t)) (nullish (po_custom opts) [])))"
  proof (cases "po_custom opts")
    case (Some m)
    let ?v = "JObj (map (\<lambda>(f, t). (f, JStr t)) m)"
    have "json_wf ?v" using assms(3) Some by (simp add: comp_def case_prod_beta list_all_iff)
    then have p: "json_parse (stringify ?v) = Some ?v" by (rule json_round_trip)
    then have "stringify ?v \<noteq> ''''" by (metis json_parse_empty option.distinct(1))
    with p Some show ?thesis by (simp only: custom_text_def stored_text_def option.map option.case if_False nullish_Some)
  qed (simp add: custom_text_def stored_text_def)
  have "List.distinct (map fst (provided_digests opts)) \<and> ''md5'' \<notin> fst ` set (provided_digests opts)"
    by (auto simp: provided_digests_def split: option.split)
  then have sums: "Option.bind (json_parse (serializeChecksums ?sums)) deserializeChecksums = Some ?sums"
    by (intro checksums_round_trip) auto
  then have "serializeChecksums ?sums \<noteq> ''''" by (metis json_parse_empty bind_eq_None_conv option.distinct(1))
  with sums have sums': "(case stored_text (Some (serializeChecksums ?sums)) of None \<Rightarrow> Some []
      | Some t \<Rightarrow> Option.bind (json_parse t) deserializeChecksums) = Some ?sums"
    by (simp only: stored_text_def option.case if_False)
  show ?thesis
    using wv sums' by (simp only: row rowToMeta_def http custom option.case r2_row.simps)
qed

text \<open>
  C36. What is stored about an object is what comes back. When a write stores an object, its
  metadata can be read: the HTTP fields are those of the write that have a value (texts that
  are not empty; the date is the same instant), the custom metadata and the digests are those
  of the write, with the digest of the body first, provided the reader of dates understands
  what \<open>toISOString\<close> prints for the dates given.
\<close>

theorem metadata_round_trip:
  assumes "r2_put md5 b k v opts now version st = (Inr (Some row), st')"
    and "http_ok parse_date (nullish (po_http opts) [])" and "List.distinct (map fst (nullish (po_custom opts) []))"
  shows "rowToMeta parse_date row = Some
    \<lparr>mt_key = k, mt_size = length (value_bytes v), mt_etag = md5 (value_bytes v), mt_version = version,
     mt_uploaded = now, mt_http = http_fields (nullish (po_http opts) []),
     mt_custom = JObj (map (\<lambda>(f, t). (f, JStr t)) (nullish (po_custom opts) [])),
     mt_checksums = (''md5'', unhex (md5 (value_bytes v))) # provided_digests opts\<rparr>"
  by (rule stored_metadata[OF assms])

theorem metadata_round_trip_witness:
  "\<exists>row st'. r2_put to_hex ex_bucket ''k'' (RString ''hi'')
      \<lparr>po_http = Some [(''contentType'', MText ''t''), (''cacheExpiry'', MDate 0)], po_custom = Some [(''a'', ''b'')],
       po_onlyIf = None, po_sha = [(''sha1'', ''xy'')]\<rparr> 7 ''v'' ex_state = (Inr (Some row), st')
    \<and> map_option mt_checksums (rowToMeta (\<lambda>_. 0) row) = Some [(''md5'', ''hi''), (''sha1'', ''xy'')]
    \<and> map_option mt_http (rowToMeta (\<lambda>_. 0) row) = Some [(''contentType'', MText ''t''), (''cacheExpiry'', MDate 0)]"
proof -
  let ?opts = "\<lparr>po_http = Some [(''contentType'', MText ''t''), (''cacheExpiry'', MDate 0)], po_custom = Some [(''a'', ''b'')],
       po_onlyIf = None, po_sha = [(''sha1'', ''xy'')]\<rparr>"
  obtain res st' where p: "r2_put to_hex ex_bucket ''k'' (RString ''hi'') ?opts 7 ''v'' ex_state = (res, st')"
    by force
  have "case fst (r2_put to_hex ex_bucket ''k'' (RString ''hi'') ?opts 7 ''v'' ex_state) of
      Inr (Some row) \<Rightarrow> True | _ \<Rightarrow> False"
    by code_simp
  then obtain row where res: "res = Inr (Some row)" using p by (auto split: sum.splits option.splits)
  have "value_bytes (RString ''hi'') = ''hi''" by code_simp
  moreover have "http_ok (\<lambda>_. 0) (nullish (po_http ?opts) [])" by (simp add: http_ok_def)
  moreover have "http_fields [(''contentType'', MText ''t''), (''cacheExpiry'', MDate 0)]
      = [(''contentType'', MText ''t''), (''cacheExpiry'', MDate 0)]" by code_simp
  moreover have "provided_digests ?opts = [(''sha1'', ''xy'')]" by (simp add: provided_digests_def)
  ultimately show ?thesis using metadata_round_trip[OF p[unfolded res], of "\<lambda>_. 0"] p res by (simp del: to_hex_simps)
qed
end
