(* ===== verification/S3ChunkedLaws.thy ===== *)
theory S3ChunkedLaws
  imports S3Chunked
begin

text \<open>
  The laws of the decoder of chunked uploads: however the framed upload is cut into reads, the
  decoder emits exactly the data and then ends.
\<close>

section \<open>Header lines\<close>

definition hex_digit_ok :: "nat \<Rightarrow> bool" where
  "hex_digit_ok n =
     (let c = hex_digit n
      in hex_val (lower_char c) = Some n \<and> \<not> is_ws c
         \<and> c \<notin> {CHR '';'', CHR ''-'', CHR ''+'', CHR ''x'', CHR ''X'', CHR 0x0D} \<and> (of_char c :: nat) < 128)"

lemma hex_digits_ok: "list_all hex_digit_ok [0, 1, 2, 3, 4, 5, 6, 7, 8, 9, 10, 11, 12, 13, 14, 15]"
  by code_simp

lemma hex_digit_props:
  assumes "n < 16"
  shows "is_hex (hex_digit n)" "hex_val (lower_char (hex_digit n)) = Some n"
    "\<not> is_ws (hex_digit n)"
    "hex_digit n \<notin> {CHR '';'', CHR ''-'', CHR ''+'', CHR ''x'', CHR ''X'', CHR 0x0D}"
    "(of_char (hex_digit n) :: nat) < 128"
proof -
  from assms have "n \<in> set [0, 1, 2, 3, 4, 5, 6, 7, 8, 9, 10, 11, 12, 13, 14, 15]" by (simp, presburger)
  with hex_digits_ok have "hex_digit_ok n" by (metis list_all_iff)
  then show "hex_val (lower_char (hex_digit n)) = Some n" "\<not> is_ws (hex_digit n)"
    "hex_digit n \<notin> {CHR '';'', CHR ''-'', CHR ''+'', CHR ''x'', CHR ''X'', CHR 0x0D}"
    "(of_char (hex_digit n) :: nat) < 128"
    unfolding hex_digit_ok_def Let_def by blast+
  then show "is_hex (hex_digit n)" by (simp add: is_hex_def)
qed

lemma show_hex_digits: "c \<in> set (show_hex n) \<Longrightarrow> \<exists>k < 16. c = hex_digit k"
proof (induction n rule: show_hex.induct)
  case (1 n)
  show ?case
  proof (cases "n < 16")
    case True
    with 1(2) show ?thesis by (subst (asm) show_hex.simps) auto
  next
    case False
    then have "c \<in> set (show_hex (n div 16)) \<or> c = hex_digit (n mod 16)"
      using 1(2) by (subst (asm) show_hex.simps) auto
    moreover have "n mod 16 < 16" by simp
    ultimately show ?thesis using 1(1)[OF False] by blast
  qed
qed

lemma show_hex_neq_Nil: "show_hex n \<noteq> []"
  by (subst show_hex.simps) simp

lemma hex_num_snoc: "hex_num (s @ [c]) = hex_num s * 16 + the (hex_val (lower_char c))"
  by (simp add: hex_num_def)

lemma hex_num_show_hex: "hex_num (show_hex n) = n"
proof (induction n rule: show_hex.induct)
  case (1 n)
  show ?case
  proof (cases "n < 16")
    case True
    then have "show_hex n = [hex_digit n]" by (subst show_hex.simps) simp
    with True show ?thesis by (simp add: hex_num_def hex_digit_props)
  next
    case False
    then have "show_hex n = show_hex (n div 16) @ [hex_digit (n mod 16)]" by (subst show_hex.simps) simp
    with 1[OF False] show ?thesis by (simp add: hex_num_snoc hex_digit_props)
  qed
qed

lemma show_hex_avoids:
  "c \<in> set (show_hex n) \<Longrightarrow> is_hex c \<and> \<not> is_ws c \<and> (of_char c :: nat) < 128
     \<and> c \<notin> {CHR '';'', CHR ''-'', CHR ''+'', CHR ''x'', CHR ''X'', CHR 0x0D}"
  using show_hex_digits[of c n] hex_digit_props by metis

lemma trim_no_ws: "(\<And>c. c \<in> set s \<Longrightarrow> \<not> is_ws c) \<Longrightarrow> trim_start s = s \<and> trim s = s"
proof -
  have drop: "dropWhile P xs = xs" if "\<And>c. c \<in> set xs \<Longrightarrow> \<not> P c" for P and xs :: string
    using that by (cases xs) auto
  assume no: "\<And>c. c \<in> set s \<Longrightarrow> \<not> is_ws c"
  have "dropWhile is_ws s = s" "dropWhile is_ws (rev s) = rev s"
    by (rule drop, simp add: no)+
  then show ?thesis by (simp add: trim_def trim_start_def trim_end_def)
qed

lemma takeWhile_all: "(\<And>c. c \<in> set s \<Longrightarrow> P c) \<Longrightarrow> takeWhile P s = s"
  by (simp add: takeWhile_eq_all_conv)

lemma parse_int16_plain:
  assumes "trim_start s = s" and "s \<noteq> []" and "hd s \<noteq> CHR ''-''" and "hd s \<noteq> CHR ''+''"
    and "\<not> prefix ''0x'' s" and "\<not> prefix ''0X'' s" and "takeWhile is_hex s = s"
  shows "parse_int16 s = Some (int (hex_num s))"
  using assms(1-6) by (simp add: parse_int16_def Let_def assms(7))

lemma parse_int16_show_hex: "parse_int16 (show_hex n) = Some (int n)"
proof -
  obtain c s where cs: "show_hex n = c # s" using show_hex_neq_Nil by (cases "show_hex n") auto
  have all: "\<And>d. d \<in> set (c # s) \<Longrightarrow> is_hex d \<and> \<not> is_ws d
      \<and> d \<notin> {CHR '';'', CHR ''-'', CHR ''+'', CHR ''x'', CHR ''X'', CHR 0x0D}"
    using show_hex_avoids[of _ n] unfolding cs by blast
  then have "CHR ''x'' \<notin> set (c # s)" "CHR ''X'' \<notin> set (c # s)" by blast+
  then have "\<not> prefix ''0x'' (c # s)" "\<not> prefix ''0X'' (c # s)"
    using set_mono_prefix[of "''0x''" "c # s"] set_mono_prefix[of "''0X''" "c # s"] by auto
  moreover have "trim_start (c # s) = c # s" using trim_no_ws[of "c # s"] all by blast
  moreover have "takeWhile is_hex (c # s) = c # s" using takeWhile_all[of "c # s" is_hex] all by blast
  moreover have "c \<noteq> CHR ''-''" "c \<noteq> CHR ''+''" using all[of c, OF list.set_intros(1)] by blast+
  ultimately have "parse_int16 (c # s) = Some (int (hex_num (c # s)))"
    by (intro parse_int16_plain) auto
  then show ?thesis using cs hex_num_show_hex[of n] by simp
qed

lemma utf8_decode_ascii: "(\<And>c. c \<in> set s \<Longrightarrow> (of_char c :: nat) < 128) \<Longrightarrow> utf8_decode s = Some s"
  by (induction s) auto

definition plain_text :: "string \<Rightarrow> bool" where
  "plain_text s = (\<forall>c \<in> set s. (of_char c :: nat) < 128 \<and> c \<noteq> CHR 0x0D)"

definition header_line :: "nat \<Rightarrow> string \<Rightarrow> string" where
  "header_line n sig = show_hex n @ '';chunk-signature='' @ sig"

lemma header_line_parses:
  assumes "plain_text sig"
  shows "utf8_decode (header_line n sig) = Some (header_line n sig)"
    "parse_int16 (trim (hd (split_char CHR '';'' (header_line n sig)))) = Some (int n)"
    "CHR 0x0D \<notin> set (header_line n sig)"
proof -
  have chars: "(of_char c :: nat) < 128 \<and> c \<noteq> CHR 0x0D" if "c \<in> set (header_line n sig)" for c
  proof -
    from that consider "c \<in> set (show_hex n)" | "c \<in> set '';chunk-signature=''" | "c \<in> set sig"
      unfolding header_line_def set_append by blast
    then show ?thesis
    proof cases
      case 1
      then show ?thesis using show_hex_avoids by blast
    next
      case 2
      then show ?thesis by auto
    next
      case 3
      then show ?thesis using assms by (simp add: plain_text_def)
    qed
  qed
  then show "utf8_decode (header_line n sig) = Some (header_line n sig)" "CHR 0x0D \<notin> set (header_line n sig)"
    by (auto intro: utf8_decode_ascii)
  have "\<And>c. c \<in> set (show_hex n) \<Longrightarrow> c \<noteq> CHR '';''" using show_hex_avoids[of _ n] by blast
  then have "takeWhile (\<lambda>x. x \<noteq> CHR '';'') (header_line n sig) = show_hex n"
    by (simp add: header_line_def takeWhile_append2)
  moreover have "trim (show_hex n) = show_hex n" using trim_no_ws[of "show_hex n"] show_hex_avoids[of _ n] by blast
  ultimately show "parse_int16 (trim (hd (split_char CHR '';'' (header_line n sig)))) = Some (int n)"
    by (simp add: split_char_hd parse_int16_show_hex)
qed

section \<open>One pull\<close>

definition rest_of :: "decoder \<Rightarrow> bytes" where
  "rest_of d = dc_buffer d @ concat (dc_input d)"

lemma rest_of_append [simp]:
  "dc_input d = c # cs \<Longrightarrow> rest_of (append_chunk c cs d) = rest_of d"
  "dc_state (append_chunk c cs d) = dc_state d" "dc_input (append_chunk c cs d) = cs"
  by (simp_all add: rest_of_def append_chunk_def)

lemma indexOfCRLF_append: "indexOfCRLF b = Some i \<Longrightarrow> indexOfCRLF (b @ t) = Some i"
  by (induction b arbitrary: i rule: indexOfCRLF.induct) (auto split: if_splits)

lemma indexOfCRLF_first: "CHR 0x0D \<notin> set l \<Longrightarrow> indexOfCRLF (l @ crlf @ r) = Some (length l)"
proof (induction l)
  case (Cons a l)
  then show ?case by (cases l) auto
qed simp

lemma found_index:
  assumes "rest_of d = l @ crlf @ r" and "CHR 0x0D \<notin> set l" and "indexOfCRLF (dc_buffer d) = Some i"
  shows "i = length l" "take i (dc_buffer d) = l" "drop (i + 2) (dc_buffer d) @ concat (dc_input d) = r"
proof -
  from indexOfCRLF_append[OF assms(3)] have "indexOfCRLF (rest_of d) = Some i" by (simp add: rest_of_def)
  with indexOfCRLF_first[OF assms(2), of r] show i: "i = length l" by (simp add: assms(1))
  have len: "i + 2 \<le> length (dc_buffer d)" using indexOfCRLF_less[OF assms(3)] by simp
  have "take i (rest_of d) = take i (dc_buffer d)" using len by (simp add: rest_of_def)
  then show "take i (dc_buffer d) = l" using i assms(1) by simp
  have "drop (i + 2) (rest_of d) = drop (i + 2) (dc_buffer d) @ concat (dc_input d)"
    using len by (simp add: rest_of_def)
  then show "drop (i + 2) (dc_buffer d) @ concat (dc_input d) = r" using i assms(1) by simp
qed

lemma pull_header:
  assumes "dc_state d = Header" and "rest_of d = header_line n sig @ crlf @ r" and "plain_text sig"
  shows "if n = 0 then fst (pull d) = Closed
    else (\<exists>d'. pull d = pull d' \<and> dc_state d' = Data (int n) \<and> rest_of d' = r)"
  using assms
proof (induction "dc_input d" arbitrary: d)
  case Nil
  then have "indexOfCRLF (dc_buffer d) = Some (length (header_line n sig))"
    using indexOfCRLF_first[OF header_line_parses(3)[OF Nil.prems(3)]] by (simp add: rest_of_def)
  note found = this found_index[OF Nil.prems(2) header_line_parses(3)[OF Nil.prems(3)] this]
  let ?d' = "d\<lparr>dc_buffer := drop (length (header_line n sig) + 2) (dc_buffer d), dc_state := Data (int n)\<rparr>"
  show ?case
  proof (cases "n = 0")
    case False
    then have "pull d = pull ?d'"
      using Nil.prems(1) found header_line_parses[OF Nil.prems(3)]
      by (subst pull.simps) (simp add: Let_def)
    with False found show ?thesis by (auto simp: rest_of_def intro!: exI[of _ ?d'])
  next
    case True
    then show ?thesis
      using Nil.prems(1) found header_line_parses[OF Nil.prems(3), of 0]
      by (subst pull.simps) (simp add: Let_def)
  qed
next
  case (Cons c cs)
  show ?case
  proof (cases "indexOfCRLF (dc_buffer d)")
    case None
    then have "pull d = pull (append_chunk c cs d)"
      using Cons.prems(1) Cons.hyps(2)[symmetric] by (subst pull.simps) simp
    with Cons.hyps(1)[of "append_chunk c cs d"] Cons.hyps(2)[symmetric] Cons.prems show ?thesis by simp
  next
    case (Some i)
    note found = Some found_index[OF Cons.prems(2) header_line_parses(3)[OF Cons.prems(3)] Some]
    let ?d' = "d\<lparr>dc_buffer := drop (i + 2) (dc_buffer d), dc_state := Data (int n)\<rparr>"
    show ?thesis
    proof (cases "n = 0")
      case False
      then have "pull d = pull ?d'"
        using Cons.prems(1) found header_line_parses[OF Cons.prems(3)]
        by (subst pull.simps) (simp add: Let_def)
      with False found show ?thesis by (auto simp: rest_of_def intro!: exI[of _ ?d'])
    next
      case True
      then show ?thesis
        using Cons.prems(1) found header_line_parses[OF Cons.prems(3), of 0]
        by (subst pull.simps) (simp add: Let_def)
    qed
  qed
qed

lemma pull_data:
  assumes "dc_state d = Data n" and "0 < n" and "n \<le> int (length (rest_of d))"
  shows "\<exists>c d'. pull d = (Enqueued c, d') \<and> c \<noteq> [] \<and> int (length c) \<le> n \<and> rest_of d = c @ rest_of d'
    \<and> dc_state d' = (if int (length c) = n then CrlfAfterData else Data (n - int (length c)))"
  using assms
proof (induction "dc_input d" arbitrary: d)
  case Nil
  then have "dc_buffer d \<noteq> []" by (auto simp: rest_of_def)
  with Nil show ?case
    by (subst pull.simps) (auto simp: Let_def rest_of_def sub_to_def sub_from_def min_def)
next
  case (Cons c cs)
  show ?case
  proof (cases "dc_buffer d = []")
    case True
    then have "pull d = pull (append_chunk c cs d)"
      using Cons.prems(1) Cons.hyps(2)[symmetric] by (subst pull.simps) simp
    with Cons.hyps(1)[of "append_chunk c cs d"] Cons.hyps(2)[symmetric] Cons.prems show ?thesis by simp
  next
    case False
    with Cons.prems show ?thesis
      by (subst pull.simps) (auto simp: Let_def rest_of_def sub_to_def sub_from_def min_def)
  qed
qed

lemma read_two_total: "2 \<le> length (rest_of d) \<Longrightarrow> \<exists>d'. read_two d = Some d'"
proof (induction d rule: read_two.induct)
  case (1 d)
  show ?case
  proof (cases "length (dc_buffer d) < 2 \<and> dc_input d \<noteq> []")
    case True
    then obtain c cs where c: "dc_input d = c # cs" by (cases "dc_input d") auto
    with 1 True show ?thesis by (subst read_two.simps) simp
  next
    case False
    with 1(2) show ?thesis by (subst read_two.simps) (auto simp: rest_of_def)
  qed
qed

lemma pull_crlf:
  assumes "dc_state d = CrlfAfterData" and "rest_of d = a # b # r"
  shows "\<exists>d'. pull d = pull d' \<and> dc_state d' = Header \<and> rest_of d' = r"
proof -
  obtain d1 where d1: "read_two d = Some d1" using read_two_total[of d] assms(2) by auto
  let ?d' = "d1\<lparr>dc_buffer := drop 2 (dc_buffer d1), dc_state := Header\<rparr>"
  have "2 \<le> length (dc_buffer d1)" "rest_of d1 = a # b # r"
    using read_two_measure[OF d1] assms(2) by (simp_all add: rest_of_def)
  then have "rest_of ?d' = r"
    by (cases "dc_buffer d1"; cases "tl (dc_buffer d1)") (auto simp: rest_of_def)
  moreover have "pull d = pull ?d'" using assms(1) d1 by (subst pull.simps) simp
  ultimately show ?thesis by (intro exI[of _ ?d']) simp
qed

section \<open>The whole stream\<close>

text \<open>The decoder is about to deliver \<open>payload\<close> and then to end.\<close>

inductive delivers :: "decoder \<Rightarrow> bytes \<Rightarrow> bool" where
  at_header: "dc_state d = Header \<Longrightarrow> rest_of d = encode_chunks cs sig trailer \<Longrightarrow>
    \<forall>(b, s) \<in> set cs. b \<noteq> [] \<and> plain_text s \<Longrightarrow> plain_text sig \<Longrightarrow> delivers d (concat (map fst cs))"
| in_data: "dc_state d = Data (int (length b)) \<Longrightarrow> b \<noteq> [] \<Longrightarrow>
    rest_of d = b @ crlf @ encode_chunks cs sig trailer \<Longrightarrow>
    \<forall>(b, s) \<in> set cs. b \<noteq> [] \<and> plain_text s \<Longrightarrow> plain_text sig \<Longrightarrow> delivers d (b @ concat (map fst cs))"
| at_crlf: "dc_state d = CrlfAfterData \<Longrightarrow> rest_of d = crlf @ encode_chunks cs sig trailer \<Longrightarrow>
    \<forall>(b, s) \<in> set cs. b \<noteq> [] \<and> plain_text s \<Longrightarrow> plain_text sig \<Longrightarrow> delivers d (concat (map fst cs))"

lemma pull_in_data:
  assumes "dc_state d = Data (int (length b))" and "b \<noteq> []"
    and "rest_of d = b @ crlf @ encode_chunks cs sig trailer"
    and "\<forall>(b, s) \<in> set cs. b \<noteq> [] \<and> plain_text s" and "plain_text sig"
  shows "\<exists>c d' p. pull d = (Enqueued c, d') \<and> c \<noteq> [] \<and> b @ concat (map fst cs) = c @ p \<and> delivers d' p"
proof -
  obtain c d' where p: "pull d = (Enqueued c, d')" "c \<noteq> []" "length c \<le> length b" "rest_of d = c @ rest_of d'"
      "dc_state d' = (if length c = length b then CrlfAfterData else Data (int (length b) - int (length c)))"
    using pull_data[OF assms(1)] assms(2,3) by auto
  then have "take (length c) b = c" and r: "rest_of d' = drop (length c) b @ crlf @ encode_chunks cs sig trailer"
    using assms(3) by (auto simp: append_eq_append_conv_if split: if_splits)
  then have b: "b = c @ drop (length c) b" by (metis append_take_drop_id)
  have "delivers d' (drop (length c) b @ concat (map fst cs))"
  proof (cases "length c = length b")
    case True
    with p(5) r show ?thesis using at_crlf[OF _ _ assms(4,5), of d'] by simp
  next
    case False
    with p(3,5) r show ?thesis
      by (intro in_data[OF _ _ _ assms(4,5)]) (auto simp: of_nat_diff)
  qed
  with p b show ?thesis by (metis append.assoc)
qed

lemma pull_at_header:
  assumes "dc_state d = Header" and "rest_of d = encode_chunks cs sig trailer"
    and "\<forall>(b, s) \<in> set cs. b \<noteq> [] \<and> plain_text s" and "plain_text sig"
  shows "if cs = [] then fst (pull d) = Closed
    else \<exists>c d' p. pull d = (Enqueued c, d') \<and> c \<noteq> [] \<and> concat (map fst cs) = c @ p \<and> delivers d' p"
proof (cases cs)
  case Nil
  have "rest_of d = header_line 0 sig @ crlf @ trailer"
    using assms(2) Nil by (simp add: encode_chunks_def chunk_header_def header_line_def)
  from pull_header[OF assms(1) this assms(4)] Nil show ?thesis by simp
next
  case (Cons a cs')
  obtain b s where a: "a = (b, s)" by force
  have "rest_of d = header_line (length b) s @ crlf @ b @ crlf @ encode_chunks cs' sig trailer"
    using assms(2) Cons a by (simp add: encode_chunks_def encode_chunk_def chunk_header_def header_line_def)
  from pull_header[OF assms(1) this] assms(3) Cons a obtain d1 where d1:
      "pull d = pull d1" "dc_state d1 = Data (int (length b))" "rest_of d1 = b @ crlf @ encode_chunks cs' sig trailer"
    by auto
  with pull_in_data[OF d1(2) _ d1(3)] assms(3,4) Cons a show ?thesis by auto
qed

lemma delivers_pull:
  assumes "delivers d payload"
  shows "if payload = [] then fst (pull d) = Closed
    else \<exists>c d' p. pull d = (Enqueued c, d') \<and> c \<noteq> [] \<and> payload = c @ p \<and> delivers d' p"
  using assms
proof cases
  case (at_header cs sig trailer)
  have "concat (map fst cs) = [] \<longleftrightarrow> cs = []" using at_header(4) by (cases cs) auto
  with pull_at_header[OF at_header(2-5)] at_header(1) show ?thesis by (simp split: if_splits)
next
  case (in_data b cs sig trailer)
  with pull_in_data[OF in_data(2-6)] show ?thesis by simp
next
  case (at_crlf cs sig trailer)
  then obtain d1 where d1: "pull d = pull d1" "dc_state d1 = Header" "rest_of d1 = encode_chunks cs sig trailer"
    using pull_crlf[of d] by auto
  have "concat (map fst cs) = [] \<longleftrightarrow> cs = []" using at_crlf(4) by (cases cs) auto
  with pull_at_header[OF d1(2,3) at_crlf(4,5)] d1(1) at_crlf(1) show ?thesis by (simp split: if_splits)
qed

lemma delivers_drain:
  "delivers d payload \<Longrightarrow> length payload < fuel \<Longrightarrow>
   \<exists>outs. drain_decoder fuel d = Some (outs, Closed) \<and> concat outs = payload"
proof (induction "length payload" arbitrary: d payload fuel rule: less_induct)
  case less
  then obtain f where f: "fuel = Suc f" by (cases fuel) auto
  show ?case
  proof (cases "payload = []")
    case True
    with delivers_pull[OF less.prems(1)] have "fst (pull d) = Closed" by simp
    then show ?thesis by (cases "pull d") (simp add: f True)
  next
    case False
    with delivers_pull[OF less.prems(1)] obtain c d' p where
        p: "pull d = (Enqueued c, d')" "c \<noteq> []" "payload = c @ p" "delivers d' p" by auto
    then have "length p < length payload" "length p < f" using less.prems(2) f by (cases c; simp)+
    then obtain outs where "drain_decoder f d' = Some (outs, Closed)" "concat outs = p"
      using less.hyps[of p d' f] p by auto
    with p show ?thesis by (simp add: f)
  qed
qed

text \<open>
  C28. Decoding a chunked upload gives back the data. For every list of non-empty chunks with
  signatures (and whatever follows the final header), and every way the framed bytes are cut
  into reads, with empty reads among them, calling \<open>pull\<close> one time more than there are bytes
  of data is enough to see the end of the stream, no error occurs, and what was emitted is
  exactly the data of the chunks in order.
\<close>

theorem chunked_round_trip:
  assumes "concat reads = encode_chunks cs sig trailer"
    and "\<forall>(b, s) \<in> set cs. b \<noteq> [] \<and> plain_text s" and "plain_text sig"
  shows "\<exists>outs. drain_decoder (Suc (length (concat (map fst cs)))) (decodeAwsChunked reads) = Some (outs, Closed)
    \<and> concat outs = concat (map fst cs)"
proof -
  have "delivers (decodeAwsChunked reads) (concat (map fst cs))"
    using assms by (intro at_header[where sig = sig and trailer = trailer])
      (simp_all add: decodeAwsChunked_def rest_of_def)
  then show ?thesis by (rule delivers_drain) simp
qed

theorem chunked_round_trip_witness:
  "\<exists>outs. drain_decoder 3 (decodeAwsChunked
     [''2;chunk-sig'', [], ''nature=f'' @ crlf @ ''h'', ''i'' @ crlf @ ''0;chunk-signature=f'' @ crlf @ crlf])
     = Some (outs, Closed) \<and> concat outs = ''hi''"
proof -
  have "concat [''2;chunk-sig'', [], ''nature=f'' @ crlf @ ''h'', ''i'' @ crlf @ ''0;chunk-signature=f'' @ crlf @ crlf]
      = encode_chunks [(''hi'', ''f'')] ''f'' crlf"
    by code_simp
  from chunked_round_trip[OF this] show ?thesis by (simp add: plain_text_def numeral_eq_Suc)
qed

text \<open>An upload that breaks off between two chunks, or inside a header, passes for a complete one.\<close>

lemma truncated_upload_accepted:
  "drain_decoder 3 (decodeAwsChunked [''2;s'' @ crlf @ ''hi'' @ crlf @ ''1f'']) = Some ([''hi''], Closed)"
  by code_simp

end
