(* ===== verification/S3XmlLaws.thy ===== *)
theory S3XmlLaws
  imports S3Xml
begin

text \<open>
  The XML of the S3 gateway is read back: the entities of a text, a set of tags, and the bodies
  of the requests that delete objects or complete an upload, as clients write them.
\<close>

section \<open>Entities\<close>

lemma replace_all_skip:
  "CHR ''&'' \<notin> set u \<Longrightarrow> replace_all (CHR ''&'' # q) r (u @ s) = u @ replace_all (CHR ''&'' # q) r s"
proof (induction u)
  case (Cons c u)
  have "replace_all (CHR ''&'' # q) r ((c # u) @ s) = c # replace_all (CHR ''&'' # q) r (u @ s)"
    using Cons.prems by (subst replace_all.simps) auto
  with Cons show ?case by simp
qed simp

text \<open>One replacement restores one character, when the texts of the others are told apart from it.\<close>

definition other_block :: "string \<Rightarrow> char \<Rightarrow> string \<Rightarrow> bool" where
  "other_block p c b =
     (b = [c] \<and> c \<noteq> CHR ''&''
      \<or> (b \<noteq> [] \<and> hd b = CHR ''&'' \<and> CHR ''&'' \<notin> set (tl b) \<and> \<not> prefix p b \<and> \<not> prefix b p))"

lemma not_prefix_append: "\<not> prefix p b \<Longrightarrow> \<not> prefix b p \<Longrightarrow> \<not> prefix p (b @ s)"
  using prefix_same_cases[of p "b @ s" b] by auto

lemma replace_stage:
  assumes "f c0 = CHR ''&'' # q" and "\<And>c. c \<noteq> c0 \<Longrightarrow> other_block (CHR ''&'' # q) c (f c)"
  shows "replace_all (CHR ''&'' # q) [c0] (concat (map f s)) = concat (map (f(c0 := [c0])) s)"
proof (induction s)
  case (Cons c s)
  let ?p = "CHR ''&'' # q" and ?rest = "concat (map f s)"
  show ?case
  proof (cases "c = c0")
    case True
    have "replace_all ?p [c0] (?p @ ?rest) = [c0] @ replace_all ?p [c0] ?rest"
      by (subst replace_all.simps) simp
    with True Cons assms(1) show ?thesis by simp
  next
    case False
    then have b: "other_block ?p c (f c)" by (rule assms(2))
    then obtain x t where ft: "f c = x # t" and t: "CHR ''&'' \<notin> set t" and np: "\<not> prefix ?p (f c @ ?rest)"
      using assms(1) not_prefix_append[of ?p "f c" ?rest] by (cases "f c") (auto simp: other_block_def)
    have "replace_all ?p [c0] (f c @ ?rest) = x # replace_all ?p [c0] (t @ ?rest)"
      using np ft by (subst replace_all.simps) auto
    with replace_all_skip[OF t] ft Cons False show ?thesis by simp
  qed
qed (subst replace_all.simps, simp)

lemma decode_escape [simp]: "decodeXmlEntities (escapeXML s) = s"
proof -
  let ?f1 = "escape_char(CHR ''<'' := ''<'')"
  let ?f2 = "?f1(CHR ''>'' := ''>'')"
  let ?f3 = "?f2(CHR 0x22 := [CHR 0x22])"
  let ?f4 = "?f3(CHR 0x27 := [CHR 0x27])"
  have 1: "replace_all ''&lt;'' ''<'' (concat (map escape_char s)) = concat (map ?f1 s)"
    by (rule replace_stage) (auto simp: escape_char_def other_block_def)
  have 2: "replace_all ''&gt;'' ''>'' (concat (map ?f1 s)) = concat (map ?f2 s)"
    by (rule replace_stage) (auto simp: escape_char_def other_block_def)
  have 3: "replace_all ''&quot;'' [CHR 0x22] (concat (map ?f2 s)) = concat (map ?f3 s)"
    by (rule replace_stage) (auto simp: escape_char_def other_block_def)
  have 4: "replace_all ''&apos;'' [CHR 0x27] (concat (map ?f3 s)) = concat (map ?f4 s)"
    by (rule replace_stage) (auto simp: escape_char_def other_block_def)
  have 5: "replace_all ''&amp;'' ''&'' (concat (map ?f4 s)) = concat (map (?f4(CHR ''&'' := ''&'')) s)"
    by (rule replace_stage) (auto simp: escape_char_def other_block_def)
  have "?f4(CHR ''&'' := ''&'') = (\<lambda>c. [c])" by (auto simp: escape_char_def fun_eq_iff)
  with 1 2 3 4 5 show ?thesis by (simp add: decodeXmlEntities_def escapeXML_def)
qed

lemma escape_no_lt: "CHR ''<'' \<notin> set (escapeXML s)"
  by (auto simp: escapeXML_def escape_char_def split: if_splits)

lemma escape_empty [simp]: "escapeXML s = '''' \<longleftrightarrow> s = ''''"
  by (cases s) (auto simp: escapeXML_def escape_char_def)

lemma up_to_lt_append: "CHR ''<'' \<notin> set u \<Longrightarrow> up_to_lt (u @ CHR ''<'' # s) = (u, CHR ''<'' # s)"
  by (induction u) (auto simp: up_to_lt_def)

lemma up_to_lt_escape [simp]: "up_to_lt (escapeXML t @ CHR ''<'' # s) = (escapeXML t, CHR ''<'' # s)"
  by (rule up_to_lt_append[OF escape_no_lt])

section \<open>Scanning\<close>

lemma trim_start_lt [simp]: "trim_start (CHR ''<'' # s) = CHR ''<'' # s"
  by (simp add: trim_start_def is_ws_def)

lemma all_matches_Nil [simp]: "all_matches m [] = []"
  by (subst all_matches.simps) simp

lemma all_matches_None: "m (c # s) = None \<Longrightarrow> all_matches m (c # s) = all_matches m s"
  by (subst all_matches.simps) simp

lemma all_matches_Some: "m s = Some (x, rest) \<Longrightarrow> length rest < length s \<Longrightarrow> all_matches m s = x # all_matches m rest"
  by (subst all_matches.simps) (cases s, simp_all)

lemma all_matches_skip:
  "(\<And>i. i < length u \<Longrightarrow> m (drop i u @ s) = None) \<Longrightarrow> all_matches m (u @ s) = all_matches m s"
proof (induction u)
  case (Cons c u)
  have "m (c # u @ s) = None" using Cons.prems[of 0] by simp
  moreover have "m (drop i u @ s) = None" if "i < length u" for i using Cons.prems[of "Suc i"] that by simp
  ultimately show ?case using Cons.IH by (simp add: all_matches_None)
qed simp

text \<open>A scanner that begins with the literal \<open>p\<close> finds nothing in a text without it.\<close>

fun misses :: "string \<Rightarrow> string \<Rightarrow> bool" where
  "misses p [] = True"
| "misses p (c # u) = (\<not> prefix p (c # u) \<and> \<not> prefix (c # u) p \<and> misses p u)"

lemma misses_drop: "misses p u \<Longrightarrow> i < length u \<Longrightarrow> \<not> prefix p (drop i u @ s)"
proof (induction u arbitrary: i)
  case (Cons c u)
  then show ?case
    using not_prefix_append[of p "c # u" s] by (cases i) simp_all
qed simp

lemma all_matches_misses:
  assumes "misses p u" and "\<And>t. \<not> prefix p t \<Longrightarrow> m t = None"
  shows "all_matches m (u @ s) = all_matches m s"
  by (rule all_matches_skip) (use assms misses_drop in blast)

lemma match_tag_None: "\<not> prefix ''<Tag>'' t \<Longrightarrow> match_tag t = None"
  by (simp add: match_tag_def lit_def)

lemma match_object_None: "\<not> prefix ''<Object>'' t \<Longrightarrow> match_object t = None"
  by (simp add: match_object_def lit_def)

lemma match_part_None: "\<not> prefix ''<Part>'' t \<Longrightarrow> match_part t = None"
  by (simp add: match_part_def lit_def)

section \<open>Tags\<close>

lemma all_matches_tag:
  "all_matches match_tag (tag_xml t @ s) = (escapeXML (fst t), escapeXML (snd t)) # all_matches match_tag s"
proof -
  let ?el = "elem ''Tag'' (elem ''Key'' (escapeXML (fst t)) @ elem ''Value'' (escapeXML (snd t)))"
  have "match_tag (?el @ s) = Some ((escapeXML (fst t), escapeXML (snd t)), s)"
    by (simp add: match_tag_def lit_def elem_def)
  moreover have "?el \<noteq> []" by (simp add: elem_def)
  ultimately have "all_matches match_tag (?el @ s) = (escapeXML (fst t), escapeXML (snd t)) # all_matches match_tag s"
    by (intro all_matches_Some) auto
  moreover have "all_matches match_tag (''    '' @ ?el @ s) = all_matches match_tag (?el @ s)"
    by (rule all_matches_misses[of "''<Tag>''"]) (auto intro: match_tag_None)
  ultimately show ?thesis by (simp add: tag_xml_def)
qed

lemma all_matches_tags:
  "all_matches match_tag (join nl (map tag_xml tags) @ s)
   = map (\<lambda>t. (escapeXML (fst t), escapeXML (snd t))) tags @ all_matches match_tag s"
proof (induction tags rule: induct_list012)
  case (3 t u ts)
  have "all_matches match_tag (nl @ join nl (map tag_xml (u # ts)) @ s)
      = all_matches match_tag (join nl (map tag_xml (u # ts)) @ s)"
    by (rule all_matches_misses[of "''<Tag>''"]) (auto simp: nl_def intro: match_tag_None)
  with 3 show ?case by (simp add: all_matches_tag)
qed (auto simp: all_matches_tag)

lemma tagging_back: "parseTaggingXml (taggingXml tags) = tags"
proof -
  have head: "all_matches match_tag (xml_prolog @ nl @ s3_open ''Tagging'' @ nl @ ''  <TagSet>'' @ nl @ s)
      = all_matches match_tag s" for s
    using all_matches_misses[of "''<Tag>''" "xml_prolog @ nl @ s3_open ''Tagging'' @ nl @ ''  <TagSet>'' @ nl" match_tag s]
    by (simp add: match_tag_None xml_prolog_def s3_open_def nl_def dq_def)
  have tail: "all_matches match_tag (nl @ ''  </TagSet>'' @ nl @ ''</Tagging>'') = []"
    using all_matches_misses[of "''<Tag>''" "nl @ ''  </TagSet>'' @ nl @ ''</Tagging>''" match_tag "[]"]
    by (simp add: match_tag_None nl_def)
  have "all_matches match_tag (taggingXml tags) = map (\<lambda>t. (escapeXML (fst t), escapeXML (snd t))) tags"
    using head[of "join nl (map tag_xml tags) @ nl @ ''  </TagSet>'' @ nl @ ''</Tagging>''"] tail
    by (simp add: taggingXml_def s3_document_def all_matches_tags del: append_Cons append.simps append_assoc
        flip: append_assoc) (simp add: all_matches_tags)
  then show ?thesis by (simp add: parseTaggingXml_def comp_def case_prod_beta)
qed

section \<open>Requests of clients\<close>

definition delete_request :: "string list \<Rightarrow> bool \<Rightarrow> string" where
  "delete_request keys quiet =
     elem ''Delete''
       (concat (map (\<lambda>k. elem ''Object'' (elem ''Key'' (escapeXML k))) keys)
        @ (if quiet then elem ''Quiet'' ''true'' else ''''))"

definition complete_request :: "(nat \<times> string) list \<Rightarrow> string" where
  "complete_request parts =
     elem ''CompleteMultipartUpload''
       (concat (map (\<lambda>(n, t). elem ''Part'' (elem ''PartNumber'' (show_nat n) @ elem ''ETag'' (dq t))) parts))"

lemma all_matches_objects:
  "'''' \<notin> set keys \<Longrightarrow>
   all_matches match_object (concat (map (\<lambda>k. elem ''Object'' (elem ''Key'' (escapeXML k))) keys) @ s)
   = map escapeXML keys @ all_matches match_object s"
proof (induction keys)
  case (Cons k keys)
  have "match_object (elem ''Object'' (elem ''Key'' (escapeXML k)) @ t) = Some (escapeXML k, t)" for t
    using Cons.prems by (auto simp: match_object_def match_version_def lit_def elem_def)
  moreover have "elem ''Object'' (elem ''Key'' (escapeXML k)) \<noteq> []" by (simp add: elem_def)
  ultimately have "all_matches match_object (elem ''Object'' (elem ''Key'' (escapeXML k)) @ t)
      = escapeXML k # all_matches match_object t" for t
    by (intro all_matches_Some) auto
  with Cons show ?case by simp
qed simp

lemma first_match_skip: "m (c # s) = None \<Longrightarrow> first_match m (c # s) = first_match m s"
  by (subst first_match.simps) simp

lemma first_match_misses:
  assumes "misses p u" and "\<And>t. \<not> prefix p t \<Longrightarrow> m t = None"
  shows "first_match m (u @ s) = first_match m s"
  using assms(1)
proof (induction u)
  case (Cons c u)
  have "m (c # u @ s) = None" using misses_drop[OF Cons.prems, of 0 s] assms(2) by simp
  with Cons show ?case by (simp add: first_match_skip)
qed simp

lemma misses_no_lt: "CHR ''<'' \<notin> set u \<Longrightarrow> misses (CHR ''<'' # q) u"
  by (induction u) auto

lemma match_quiet_None: "\<not> prefix ''<quiet>'' t \<Longrightarrow> match_quiet t = None"
  by (simp add: match_quiet_def lit_def)

lemma to_lower_append: "to_lower (u @ v) = to_lower u @ to_lower v"
  by (simp add: to_lower_def)

lemma lower_lt: "lower_char c = CHR ''<'' \<longleftrightarrow> c = CHR ''<''"
proof
  assume "lower_char c = CHR ''<''"
  then have "of_char (lower_char c) = (60 :: nat)" by simp
  then have "of_char c = (of_char (CHR ''<'') :: nat)" by (auto simp: lower_char_def Let_def split: if_splits)
  then show "c = CHR ''<''" by (simp only: of_char_eq_iff)
qed (simp add: lower_char_def)

lemma first_quiet_objects:
  "first_match match_quiet (to_lower (concat (map (\<lambda>k. elem ''Object'' (elem ''Key'' (escapeXML k))) keys)) @ s)
   = first_match match_quiet s"
proof (induction keys)
  case (Cons k keys)
  have lits: "to_lower ''<Object><Key>'' = ''<object><key>''" "to_lower ''</Key></Object>'' = ''</key></object>''"
    by code_simp+
  have a: "first_match match_quiet (''<object><key>'' @ t) = first_match match_quiet t" for t
    by (rule first_match_misses[of "''<quiet>''"]) (auto intro: match_quiet_None)
  have b: "first_match match_quiet (to_lower (escapeXML k) @ t) = first_match match_quiet t" for t
  proof (rule first_match_misses[of "''<quiet>''"])
    show "misses ''<quiet>'' (to_lower (escapeXML k))"
      using escape_no_lt[of k] unfolding to_lower_def by (intro misses_no_lt) (metis imageE list.set_map lower_lt)
  qed (rule match_quiet_None)
  have c: "first_match match_quiet (''</key></object>'' @ t) = first_match match_quiet t" for t
    by (rule first_match_misses[of "''<quiet>''"]) (auto intro: match_quiet_None)
  have "elem ''Object'' (elem ''Key'' (escapeXML k)) = ''<Object><Key>'' @ escapeXML k @ ''</Key></Object>''"
    by (simp add: elem_def)
  then show ?case using Cons.IH a b c by (simp only: list.map concat.simps to_lower_append lits append_assoc)
qed (simp add: to_lower_def)

lemma delete_back:
  assumes "'''' \<notin> set keys"
  shows "parseDeleteRequestXml (delete_request keys quiet) = (keys, quiet)"
proof -
  let ?objects = "concat (map (\<lambda>k. elem ''Object'' (elem ''Key'' (escapeXML k))) keys)"
  have body: "delete_request keys quiet
      = ''<Delete>'' @ ?objects @ (if quiet then elem ''Quiet'' ''true'' else '''') @ ''</Delete>''"
    by (simp add: delete_request_def elem_def)
  have 1: "all_matches match_object (''<Delete>'' @ t) = all_matches match_object t" for t
    by (rule all_matches_misses[of "''<Object>''"]) (auto intro: match_object_None)
  have 2: "all_matches match_object ((if quiet then elem ''Quiet'' ''true'' else '''') @ ''</Delete>'') = []"
    using all_matches_misses[of "''<Object>''" "(if quiet then elem ''Quiet'' ''true'' else '''') @ ''</Delete>''" match_object "[]"]
    by (simp add: match_object_None elem_def)
  have "all_matches match_object (delete_request keys quiet) = map escapeXML keys"
    unfolding body 1 all_matches_objects[OF assms] 2 by simp
  moreover have "first_match match_quiet (to_lower (delete_request keys quiet)) = (if quiet then Some () else None)"
  proof -
    have lits: "to_lower ''<Delete>'' = ''<delete>''" "to_lower ''</Delete>'' = ''</delete>''"
        "to_lower (elem ''Quiet'' ''true'') = ''<quiet>true</quiet>''" "to_lower '''' = ''''"
      by code_simp+
    have a: "first_match match_quiet (''<delete>'' @ t) = first_match match_quiet t" for t
      by (rule first_match_misses[of "''<quiet>''"]) (auto intro: match_quiet_None)
    have b: "first_match match_quiet ''</delete>'' = None"
      using first_match_misses[of "''<quiet>''" "''</delete>''" match_quiet "[]"]
      by (simp add: match_quiet_None first_match.simps[of match_quiet "[]"])
    have c: "first_match match_quiet (''<quiet>true</quiet>'' @ t) = Some ()" for t
      by (subst first_match.simps) (simp add: match_quiet_def lit_def trim_start_def is_ws_def)
    show ?thesis
      unfolding body by (simp only: to_lower_append lits a first_quiet_objects append_Nil b c split: if_split) simp
  qed
  ultimately show ?thesis by (simp add: parseDeleteRequestXml_def comp_def)
qed

lemma up_to_close:
  assumes "\<And>i. i < length u \<Longrightarrow> \<not> prefix p (drop i u @ p)" and "p \<noteq> ''''"
  shows "up_to p (u @ p @ s) = Some (u, s)"
proof -
  have "substr_index p (u @ p @ s) = Some (length u)"
    using assms(1)
  proof (induction u)
    case Nil
    then show ?case using assms(2) by (cases p) auto
  next
    case (Cons c u)
    have "\<not> prefix p (c # u @ p)" using Cons.prems[of 0] by simp
    then have "\<not> prefix p (c # u @ p @ s)"
      by (metis append_Cons append_assoc length_append le_add2 length_Cons prefix_length_prefix prefix_append take_is_prefix prefixI add_Suc le_SucI)
    moreover have "\<not> prefix p (drop i u @ p)" if "i < length u" for i using Cons.prems[of "Suc i"] that by simp
    ultimately show ?case using Cons.IH by simp
  qed
  then show ?thesis by (simp add: up_to_def)
qed

lemma misses_append: "CHR ''<'' \<notin> set u \<Longrightarrow> misses (CHR ''<'' # q) v \<Longrightarrow> misses (CHR ''<'' # q) (u @ v)"
  by (induction u) auto

text \<open>A digest in hexadecimal, or any tag without white space, quotes and markup.\<close>

definition plain_tag :: "string \<Rightarrow> bool" where
  "plain_tag t =
     (t \<noteq> '''' \<and> list_all (\<lambda>c. \<not> is_ws c \<and> c \<noteq> CHR 0x22 \<and> c \<noteq> CHR ''<'' \<and> c \<noteq> CHR ''&'' \<and> c \<noteq> CHR '';'') t)"

lemma digits_no_lt: "CHR ''<'' \<notin> set (show_nat n)"
  using show_nat_digits[of "CHR ''<''" n] by (auto simp: is_digit_def)

lemma trim_quoted: "trim (dq t) = dq t"
  by (simp add: trim_def trim_start_def trim_end_def dq_def is_ws_def)

lemma strip_quoted: "plain_tag t \<Longrightarrow> strip_quot (strip_char CHR 0x22 (dq t)) = t"
proof -
  assume p: "plain_tag t"
  then have ne: "t \<noteq> []" and all: "\<forall>c \<in> set t. c \<noteq> CHR 0x22 \<and> c \<noteq> CHR ''&'' \<and> c \<noteq> CHR '';''"
    by (auto simp: plain_tag_def list_all_iff)
  obtain c s where cs: "t = c # s" using ne by (cases t) auto
  obtain d u where du: "t = u @ [d]" using ne by (cases t rule: rev_cases) auto
  have "dropWhile (\<lambda>x. x = CHR 0x22) (dq t) = t @ [CHR 0x22]" using all cs by (simp add: dq_def)
  moreover have "dropWhile (\<lambda>x. x = CHR 0x22) (rev (t @ [CHR 0x22])) = rev t" using all du by simp
  ultimately have "strip_char CHR 0x22 (dq t) = t" by (simp add: strip_char_def)
  moreover have "\<not> prefix ''&quot;'' t" using all cs by auto
  moreover have "\<not> suffix '';'' t" using all by (metis list.set_intros(1) set_mono_suffix subsetD)
  ultimately show ?thesis by (simp add: strip_quot_def)
qed

lemma part_inner:
  assumes "plain_tag t"
  shows "match_part (elem ''Part'' (elem ''PartNumber'' (show_nat n) @ elem ''ETag'' (dq t)) @ s)
      = Some (elem ''PartNumber'' (show_nat n) @ elem ''ETag'' (dq t), s)"
proof -
  let ?inner = "elem ''PartNumber'' (show_nat n) @ elem ''ETag'' (dq t)"
  have t: "CHR ''<'' \<notin> set (dq t)" using assms by (auto simp: plain_tag_def list_all_iff dq_def)
  have "misses ''</Part>'' (''</PartNumber><ETag>'' @ dq t @ ''</ETag>'')"
    using misses_append[of "dq t" "''/Part>''" "''</ETag>''"] t by simp
  then have "misses ''</Part>'' (show_nat n @ ''</PartNumber><ETag>'' @ dq t @ ''</ETag>'')"
    by (rule misses_append[OF digits_no_lt])
  then have "misses ''</Part>'' ?inner" by (simp add: elem_def)
  then have "up_to ''</Part>'' (?inner @ ''</Part>'' @ s) = Some (?inner, s)"
    by (intro up_to_close) (auto dest: misses_drop simp del: append_assoc)
  then show ?thesis by (simp add: match_part_def lit_def elem_def)
qed

lemma block_back:
  fixes n :: nat
  assumes "plain_tag t"
  defines "block \<equiv> ''<Part>'' @ (elem ''PartNumber'' (show_nat n) @ elem ''ETag'' (dq t)) @ ''</Part>''"
  shows "first_match match_number block = Some n \<and> first_match match_etag block = Some (dq t)"
proof -
  have d: "takeWhile is_digit (show_nat n @ CHR ''<'' # s) = show_nat n"
    "trim_start (show_nat n @ s) = show_nat n @ s" for s
  proof -
    obtain c u where cu: "show_nat n = c # u" by (cases "show_nat n") auto
    then have "is_digit c" using show_nat_digits[of c n] by simp
    then show "trim_start (show_nat n @ s) = show_nat n @ s"
      using cu by (auto simp: trim_start_def is_ws_def is_digit_def)
    show "takeWhile is_digit (show_nat n @ CHR ''<'' # s) = show_nat n"
      using show_nat_digits by (subst takeWhile_append2) (auto simp: is_digit_def)
  qed
  have num: "match_number (elem ''PartNumber'' (show_nat n) @ s) = Some (n, s)" for s
    by (simp add: match_number_def lit_def elem_def d Let_def)
  have n1: "\<not> prefix ''<PartNumber>'' u \<Longrightarrow> match_number u = None" for u by (simp add: match_number_def lit_def)
  have e1: "\<not> prefix ''<ETag>'' u \<Longrightarrow> match_etag u = None" for u by (simp add: match_etag_def lit_def)
  have "first_match match_number block = first_match match_number (elem ''PartNumber'' (show_nat n) @ elem ''ETag'' (dq t) @ ''</Part>'')"
    unfolding block_def append_assoc by (rule first_match_misses[of "''<PartNumber>''"]) (auto intro: n1)
  also have "\<dots> = Some n" by (subst first_match.simps) (simp add: num)
  finally have a: "first_match match_number block = Some n" .
  have t: "CHR ''<'' \<notin> set (dq t)" using assms(1) by (auto simp: plain_tag_def list_all_iff dq_def)
  have "misses ''</ETag>'' (dq t)" by (rule misses_no_lt) (rule t)
  then have "up_to ''</ETag>'' (dq t @ ''</ETag>'' @ ''</Part>'') = Some (dq t, ''</Part>'')"
    by (intro up_to_close) (auto dest: misses_drop simp del: append_assoc)
  then have et: "match_etag (elem ''ETag'' (dq t) @ ''</Part>'') = Some (dq t, ''</Part>'')"
    by (simp add: match_etag_def lit_def elem_def trim_quoted)
  have "misses ''<ETag>'' (show_nat n @ ''</PartNumber>'')"
    by (rule misses_append[OF digits_no_lt]) simp_all
  then have "misses ''<ETag>'' (''<Part>'' @ elem ''PartNumber'' (show_nat n))"
    by (simp add: elem_def)
  from first_match_misses[OF this, of match_etag "elem ''ETag'' (dq t) @ ''</Part>''", OF e1]
  have "first_match match_etag block = first_match match_etag (elem ''ETag'' (dq t) @ ''</Part>'')"
    by (simp add: block_def)
  also have "\<dots> = Some (dq t)" by (subst first_match.simps) (simp add: et)
  finally show ?thesis using a by simp
qed

lemma all_matches_parts:
  "list_all (\<lambda>(n, t). plain_tag t) parts \<Longrightarrow>
   all_matches match_part (concat (map (\<lambda>(n, t). elem ''Part'' (elem ''PartNumber'' (show_nat n) @ elem ''ETag'' (dq t))) parts) @ s)
   = map (\<lambda>(n, t). elem ''PartNumber'' (show_nat n) @ elem ''ETag'' (dq t)) parts @ all_matches match_part s"
proof (induction parts)
  case (Cons p parts)
  obtain n t where p: "p = (n, t)" by force
  have "elem ''Part'' (elem ''PartNumber'' (show_nat n) @ elem ''ETag'' (dq t)) \<noteq> []" by (simp add: elem_def)
  then have "all_matches match_part (elem ''Part'' (elem ''PartNumber'' (show_nat n) @ elem ''ETag'' (dq t)) @ u)
      = (elem ''PartNumber'' (show_nat n) @ elem ''ETag'' (dq t)) # all_matches match_part u" for u
    using Cons.prems p by (intro all_matches_Some part_inner) auto
  with Cons p show ?case by simp
qed simp

lemma complete_back:
  assumes "list_all (\<lambda>(n, t). plain_tag t) parts"
  shows "parseCompletePartsXml (complete_request parts) = map (\<lambda>(n, t). (int n, t)) parts"
proof -
  have 1: "all_matches match_part (''<CompleteMultipartUpload>'' @ t) = all_matches match_part t" for t
    by (rule all_matches_misses[of "''<Part>''"]) (auto intro: match_part_None)
  have 2: "all_matches match_part ''</CompleteMultipartUpload>'' = []"
    using all_matches_misses[of "''<Part>''" "''</CompleteMultipartUpload>''" match_part "[]"] by (simp add: match_part_None)
  have "complete_request parts = ''<CompleteMultipartUpload>''
      @ concat (map (\<lambda>(n, t). elem ''Part'' (elem ''PartNumber'' (show_nat n) @ elem ''ETag'' (dq t))) parts)
      @ ''</CompleteMultipartUpload>''"
    by (simp add: complete_request_def elem_def)
  then have m: "all_matches match_part (complete_request parts)
      = map (\<lambda>(n, t). elem ''PartNumber'' (show_nat n) @ elem ''ETag'' (dq t)) parts"
    by (simp only: 1 2 all_matches_parts[OF assms] append_Nil2)
  show ?thesis
    using assms unfolding parseCompletePartsXml_def m
    by (induction parts) (auto simp: block_back[simplified] trim_quoted strip_quoted)
qed

text \<open>
  C31. The documents are read back. The tags written by \<open>taggingXml\<close> are read as exactly those
  tags, whatever characters they have; the body by which a client asks for the deletion of keys
  that are not empty is read as exactly those keys with their mode; and the body that completes
  an upload is read as exactly its numbers and quoted tags.
\<close>

theorem xml_read_back:
  "parseTaggingXml (taggingXml tags) = tags
   \<and> ('''' \<notin> set keys \<longrightarrow> parseDeleteRequestXml (delete_request keys quiet) = (keys, quiet))
   \<and> (list_all (\<lambda>(n, t). plain_tag t) parts \<longrightarrow>
        parseCompletePartsXml (complete_request parts) = map (\<lambda>(n, t). (int n, t)) parts)"
  by (simp add: tagging_back delete_back complete_back)

theorem xml_read_back_witness:
  "parseTaggingXml (taggingXml [(''a<b'', ''&amp;'')]) = [(''a<b'', ''&amp;'')]
   \<and> parseDeleteRequestXml (delete_request [''x&y''] True) = ([''x&y''], True)
   \<and> parseCompletePartsXml (complete_request [(2, ''6f''), (1, ''a0'')]) = [(2, ''6f''), (1, ''a0'')]"
proof -
  have p: "list_all (\<lambda>(n, t). plain_tag t) [(2 :: nat, ''6f''), (1, ''a0'')]"
    by (simp add: plain_tag_def is_ws_def)
  from xml_read_back[of "[(''a<b'', ''&amp;'')]" "[''x&y'']" True "[(2, ''6f''), (1, ''a0'')]"] p
  show ?thesis by simp
qed

end
