(* ===== verification/S3GatewayLaws.thy ===== *)
theory S3GatewayLaws
  imports S3Gateway R2Laws S3ChunkedLaws S3XmlLaws
begin

text \<open>
  The laws of the S3 gateway: what a client stores over HTTP it gets back, whole or by ranges,
  chunked or plain; requests that only read, and those whose preconditions fail, change nothing.
\<close>

section \<open>The decoder always ends\<close>

definition drain_measure :: "decoder \<Rightarrow> nat" where
  "drain_measure d = 2 * length (rest_of d) + (case dc_state d of Data _ \<Rightarrow> 1 | _ \<Rightarrow> 0)"

lemma pull_progress: "pull d = (Enqueued b, d') \<Longrightarrow> drain_measure d' < drain_measure d"
proof (induction d rule: pull.induct)
  case (1 d)
  show ?case
  proof (cases "dc_state d")
    case Finished
    with 1(5) show ?thesis by (subst (asm) pull.simps) simp
  next
    case Header
    show ?thesis
    proof (cases "indexOfCRLF (dc_buffer d)")
      case None
      with 1(5) Header obtain c cs where c: "dc_input d = c # cs" "pull (append_chunk c cs d) = (Enqueued b, d')"
        by (subst (asm) pull.simps) (auto split: list.splits)
      from 1(1)[OF Header None c] have "drain_measure d' < drain_measure (append_chunk c cs d)" .
      with c Header show ?thesis by (simp add: drain_measure_def)
    next
      case (Some i)
      let ?d1 = "d\<lparr>dc_buffer := drop (i + 2) (dc_buffer d)\<rparr>"
      obtain line sz where l: "utf8_decode (take i (dc_buffer d)) = Some line"
          "parse_int16 (trim (hd (split_char CHR '';'' line))) = Some sz" "sz \<noteq> 0"
          "pull (?d1\<lparr>dc_state := Data sz\<rparr>) = (Enqueued b, d')"
        using 1(5) Header Some by (subst (asm) pull.simps) (auto simp: Let_def split: option.splits if_splits)
      from 1(2)[OF Header Some l(1) refl l(2,3) l(4)]
      have "drain_measure d' < drain_measure (?d1\<lparr>dc_state := Data sz\<rparr>)" .
      with Header indexOfCRLF_less[OF Some] show ?thesis by (simp add: drain_measure_def rest_of_def)
    qed
  next
    case (Data n)
    show ?thesis
    proof (cases "dc_buffer d = []")
      case True
      with 1(5) Data obtain c cs where c: "dc_input d = c # cs" "pull (append_chunk c cs d) = (Enqueued b, d')"
        by (subst (asm) pull.simps) (auto split: list.splits)
      from 1(3)[OF Data True c] have "drain_measure d' < drain_measure (append_chunk c cs d)" .
      with c Data show ?thesis by (simp add: drain_measure_def)
    next
      case False
      then have "d' = d\<lparr>dc_buffer := sub_from (min n (int (length (dc_buffer d)))) (dc_buffer d),
          dc_state := (if n - min n (int (length (dc_buffer d))) = 0 then CrlfAfterData
                       else Data (n - min n (int (length (dc_buffer d)))))\<rparr>"
        using 1(5) Data by (subst (asm) pull.simps) (auto simp: Let_def)
      then show ?thesis
        using False Data by (auto simp: drain_measure_def rest_of_def sub_from_def min_def)
    qed
  next
    case CrlfAfterData
    then obtain d1 where d1: "read_two d = Some d1"
        "pull (d1\<lparr>dc_buffer := drop 2 (dc_buffer d1), dc_state := Header\<rparr>) = (Enqueued b, d')"
      using 1(5) by (subst (asm) pull.simps) (auto split: option.splits)
    from 1(4)[OF CrlfAfterData d1]
    have "drain_measure d' < drain_measure (d1\<lparr>dc_buffer := drop 2 (dc_buffer d1), dc_state := Header\<rparr>)" .
    moreover have "length (rest_of d1) = length (rest_of d)" "2 \<le> length (dc_buffer d1)"
      using read_two_measure[OF d1(1)] arg_cong[of "rest_of d1" "rest_of d" length] by (auto simp: rest_of_def)
    ultimately show ?thesis using CrlfAfterData by (simp add: drain_measure_def rest_of_def)
  qed
qed

lemma drain_total: "drain_measure d < fuel \<Longrightarrow> drain_decoder fuel d \<noteq> None"
proof (induction fuel arbitrary: d)
  case (Suc fuel)
  obtain e d' where p: "pull d = (e, d')" by force
  show ?case
  proof (cases e)
    case (Enqueued b)
    with p have "pull d = (Enqueued b, d')" by simp
    with pull_progress[OF this] Suc.prems have "drain_measure d' < fuel" by simp
    with Suc.IH Enqueued p show ?thesis by auto
  qed (use p in simp_all)
qed simp

lemma drain_enough: "drain_decoder fuel d = Some r \<Longrightarrow> fuel \<le> fuel' \<Longrightarrow> drain_decoder fuel' d = Some r"
proof (induction fuel arbitrary: fuel' d r)
  case (Suc fuel)
  obtain f where f: "fuel' = Suc f" "fuel \<le> f" using Suc.prems(2) by (cases fuel') auto
  obtain e d' where p: "pull d = (e, d')" by force
  show ?case
  proof (cases e)
    case (Enqueued b)
    with Suc.prems(1) p obtain bs x where "drain_decoder fuel d' = Some (bs, x)" "r = (b # bs, x)" by auto
    with Suc.IH[OF this(1) f(2)] Enqueued p f show ?thesis by simp
  qed (use Suc.prems(1) p f in simp_all)
qed simp

lemma decoded_stream_total: "\<exists>outs e. decoded_stream chunks = RStream outs (e \<noteq> Closed)
    \<and> drain_decoder (2 * length (concat chunks) + 2) (decodeAwsChunked chunks) = Some (outs, e)"
proof -
  have "drain_measure (decodeAwsChunked chunks) < 2 * length (concat chunks) + 2"
    by (simp add: drain_measure_def rest_of_def decodeAwsChunked_def)
  then obtain outs e where "drain_decoder (2 * length (concat chunks) + 2) (decodeAwsChunked chunks) = Some (outs, e)"
    using drain_total by fastforce
  then show ?thesis by (auto simp: decoded_stream_def)
qed

lemma encode_chunks_length: "length (concat (map fst cs)) \<le> length (encode_chunks cs sig trailer)"
proof -
  have "length (concat (map fst cs)) \<le> length (concat (map encode_chunk cs))"
    by (induction cs) (simp_all add: encode_chunk_def)
  then show ?thesis by (simp add: encode_chunks_def)
qed

lemma decoded_stream_back:
  assumes "concat chunks = encode_chunks cs sig trailer" and "\<forall>(b, s) \<in> set cs. b \<noteq> [] \<and> plain_text s" and "plain_text sig"
  shows "\<exists>outs. decoded_stream chunks = RStream outs False \<and> concat outs = concat (map fst cs)"
proof -
  have "delivers (decodeAwsChunked chunks) (concat (map fst cs))"
    using assms by (intro at_header[where sig = sig and trailer = trailer])
      (simp_all add: decodeAwsChunked_def rest_of_def)
  then obtain outs where "drain_decoder (Suc (length (concat (map fst cs)))) (decodeAwsChunked chunks) = Some (outs, Closed)"
      "concat outs = concat (map fst cs)"
    using delivers_drain by blast
  with drain_enough[OF this(1), of "2 * length (concat chunks) + 2"] encode_chunks_length[of cs sig trailer] assms(1)
  show ?thesis by (simp add: decoded_stream_def)
qed

section \<open>Keys in URLs\<close>

lemma hex_val_upper_hex: "n < 16 \<Longrightarrow> hex_val (lower_char (upper_hex n)) = Some n"
proof -
  assume "n < 16"
  moreover have "lower_char (upper_char (hex_digit n)) = hex_digit n"
    using \<open>n < 16\<close> by (simp add: hex_digit_def lower_char_def upper_char_def Let_def)
  ultimately show ?thesis by (simp add: upper_hex_def hex_val_hex_digit)
qed

lemma percent_bytes_byte: "percent_bytes (percent_byte b @ s) = map_option (Cons b) (percent_bytes s)"
proof -
  have "(of_char b :: nat) div 16 < 16" "(of_char b :: nat) mod 16 < 16" using of_char_lt_256[of b] by linarith+
  then show ?thesis by (simp add: percent_byte_def hex_val_upper_hex)
qed

lemma percent_bytes_all: "percent_bytes (concat (map percent_byte bs) @ s) = map_option (append bs) (percent_bytes s)"
  by (induction bs) (simp_all add: percent_bytes_byte option.map_comp comp_def option.map_ident)

lemma percent_bytes_encode: "percent_bytes (encodeURIComponent s) = Some (utf8_encode s)"
proof (induction s)
  case (Cons c s)
  have u: "utf8_encode (c # s) = utf8_encode [c] @ utf8_encode s" by (simp add: utf8_encode_def)
  show ?case
  proof (cases "is_alnum c \<or> c \<in> set ''-_.!~*()'' \<or> c = CHR 0x27")
    case True
    then have "c \<noteq> CHR ''%''" by (auto simp: is_alnum_def is_alpha_def is_digit_def)
    with True Cons show ?thesis by (simp add: encodeURIComponent_def u)
  next
    case False
    then have "encodeURIComponent (c # s) = concat (map percent_byte (utf8_encode [c])) @ encodeURIComponent s"
      by (simp add: encodeURIComponent_def)
    with Cons show ?thesis by (simp add: percent_bytes_all u)
  qed
qed (simp add: encodeURIComponent_def utf8_encode_def)

lemma decode_encodeURI [simp]: "decodeURIComponent (encodeURIComponent s) = Some s"
  by (simp add: decodeURIComponent_def percent_bytes_encode)

lemma encode_no_slash: "CHR ''/'' \<notin> set (encodeURIComponent s)"
proof (induction s)
  case (Cons c s)
  have "hex_val (lower_char (CHR ''/'')) = None" by code_simp
  then have up: "n < 16 \<Longrightarrow> upper_hex n \<noteq> CHR ''/''" for n using hex_val_upper_hex[of n] by auto
  have "CHR ''/'' \<notin> set (percent_byte x)" for x
  proof -
    have "(of_char x :: nat) div 16 < 16" "(of_char x :: nat) mod 16 < 16" using of_char_lt_256[of x] by linarith+
    then show ?thesis using up[of "of_char x div 16"] up[of "of_char x mod 16"] by (auto simp: percent_byte_def)
  qed
  with Cons show ?case
    by (auto simp: encodeURIComponent_def is_alnum_def is_alpha_def is_digit_def split: if_splits)
qed (simp add: encodeURIComponent_def)

section \<open>Headers of an object\<close>

lemma map_of_set_headers:
  "map_of (set_headers hs extra) k = (case map_of (rev extra) k of None \<Rightarrow> map_of hs k | Some v \<Rightarrow> Some v)"
proof (induction extra arbitrary: hs)
  case (Cons a extra)
  obtain k' v' where a: "a = (k', v')" by force
  have "set_headers hs (a # extra) = set_headers (obj_set hs k' v') extra" by (simp add: set_headers_def a)
  with Cons show ?case by (simp add: a obj_set_map_of map_add_def split: option.split)
qed (simp add: set_headers_def)

lemma http_headers_other:
  "k \<notin> fst ` set HTTP_METADATA_FIELDS \<Longrightarrow> map_of (writeHttpMetadata utc m hs) k = map_of hs k"
proof -
  have "k \<notin> fst ` set fs \<Longrightarrow> map_of (foldl (\<lambda>hs (h, f). case field_value m f of
        None \<Rightarrow> hs | Some (MText t) \<Rightarrow> obj_set hs h t | Some (MDate d) \<Rightarrow> obj_set hs h (utc d)) hs fs) k = map_of hs k"
    for fs :: "(string \<times> string) list"
    by (induction fs arbitrary: hs) (auto simp: obj_set_map_of split: option.split meta_field.split)
  then show "k \<notin> fst ` set HTTP_METADATA_FIELDS \<Longrightarrow> map_of (writeHttpMetadata utc m hs) k = map_of hs k"
    by (simp add: writeHttpMetadata_def)
qed

lemma http_headers_text:
  assumes "(h, f) \<in> set HTTP_METADATA_FIELDS" and "field_value m f = Some (MText t)"
  shows "map_of (writeHttpMetadata utc m hs) h = Some t"
proof -
  let ?step = "\<lambda>hs (h, f). case field_value m f of
        None \<Rightarrow> hs | Some (MText t) \<Rightarrow> obj_set hs h t | Some (MDate d) \<Rightarrow> obj_set hs h (utc d)"
  have keep: "h \<notin> fst ` set fs \<Longrightarrow> map_of (foldl ?step hs fs) h = map_of hs h" for fs :: "(string \<times> string) list" and hs
    by (induction fs arbitrary: hs) (auto simp: obj_set_map_of split: option.split meta_field.split)
  have "List.distinct (map fst fs) \<Longrightarrow> (h, f) \<in> set fs \<Longrightarrow> map_of (foldl ?step hs fs) h = Some t"
    for fs :: "(string \<times> string) list"
  proof (induction fs arbitrary: hs)
    case (Cons a fs)
    show ?case
    proof (cases "a = (h, f)")
      case True
      with Cons.prems have "h \<notin> fst ` set fs" by auto
      with keep[of fs "obj_set hs h t"] True assms(2) show ?thesis by (simp add: obj_set_map_of)
    next
      case False
      with Cons show ?thesis by (cases a) auto
    qed
  qed simp
  moreover have "List.distinct (map fst HTTP_METADATA_FIELDS)" by code_simp
  ultimately show ?thesis using assms(1) by (simp add: writeHttpMetadata_def)
qed

lemma meta_name_prefix: "map_of (rev (map (\<lambda>(k, v). (META @ to_lower k, json_text v)) kvs)) n \<noteq> None \<Longrightarrow> prefix META n"
  by (auto simp: map_of_eq_None_iff rev_map[symmetric] image_iff dest!: map_of_SomeD)

lemma object_header:
  assumes "\<not> prefix META n"
  shows "map_of (applyObjectHeaders sx m hs) n
    = map_of (writeHttpMetadata (sx_utc sx) (mt_http m) (set_headers hs
        [(''etag'', quoted (mt_etag m)), (''last-modified'', sx_utc sx (mt_uploaded m)),
         (''content-length'', show_nat (mt_size m))])) n"
  using meta_name_prefix[of "json_entries (mt_custom m)" n] assms
  by (auto simp: applyObjectHeaders_def Let_def map_of_set_headers split: option.split)

lemma object_header_fields:
  "map_of (applyObjectHeaders sx m hs) ''etag'' = Some (quoted (mt_etag m))"
  "map_of (applyObjectHeaders sx m hs) ''content-length'' = Some (show_nat (mt_size m))"
  by (simp_all add: object_header META_def http_headers_other HTTP_METADATA_FIELDS_def map_of_set_headers)

lemma object_content_type:
  "field_value (mt_http m) ''contentType'' = Some (MText t) \<Longrightarrow>
   map_of (applyObjectHeaders sx m hs) ''content-type'' = Some t"
  by (simp add: object_header META_def http_headers_text[of "''content-type''" "''contentType''"] HTTP_METADATA_FIELDS_def)

section \<open>What the request says about the object\<close>

lemma meta_entries_distinct: "List.distinct (map fst (meta_entries kvs))"
proof -
  have "List.distinct (map fst m) \<Longrightarrow> List.distinct (map fst (obj_set m k v))" for m :: "(string \<times> string) list" and k v
    by (auto simp: obj_set_def comp_def case_prod_beta)
  then have "List.distinct (map fst m) \<Longrightarrow> List.distinct (map fst (foldl (\<lambda>m (k, v).
      if starts_with (to_lower k) META then obj_set m (drop (length META) k) v else m) m kvs))" for m :: "(string \<times> string) list"
    by (induction kvs arbitrary: m) auto
  then show ?thesis by (simp add: meta_entries_def)
qed

definition date_reads_back :: "s3_context \<Rightarrow> string option \<Rightarrow> bool" where
  "date_reads_back sx h =
     (case Option.bind (stored_text h) (sx_date sx) of
        None \<Rightarrow> True | Some d \<Rightarrow> sx_date sx (toISOString d) = Some d)"

lemma http_from_ok:
  assumes "date_reads_back sx (get ''expires'')"
  shows "http_ok (\<lambda>t. nullish (sx_date sx t) 0) (http_from (sx_date sx) get)"
  using assms
  by (auto simp: http_ok_def http_from_def HTTP_METADATA_FIELDS_def date_reads_back_def list_all_iff
      split: option.splits)

section \<open>A write and a read over HTTP\<close>

text \<open>The request sends these bytes, plainly or framed into signed chunks.\<close>

definition carries :: "s3_request \<Rightarrow> bytes \<Rightarrow> bool" where
  "carries rq payload =
     (\<exists>chunks. rq_body rq = Some chunks
        \<and> (if isAwsChunked (header rq ''x-amz-content-sha256'')
           then \<exists>cs sig trailer. concat chunks = encode_chunks cs sig trailer \<and> concat (map fst cs) = payload
             \<and> (\<forall>(b, s) \<in> set cs. b \<noteq> [] \<and> plain_text s) \<and> plain_text sig
           else concat chunks = payload))"

lemma carries_chunked:
  "rq_body rq = Some chunks \<Longrightarrow> isAwsChunked (header rq ''x-amz-content-sha256'') \<Longrightarrow>
   concat chunks = encode_chunks cs sig trailer \<Longrightarrow> \<forall>(b, s) \<in> set cs. b \<noteq> [] \<and> plain_text s \<Longrightarrow> plain_text sig \<Longrightarrow>
   carries rq (concat (map fst cs))"
  unfolding carries_def by fastforce

lemma carries_body:
  assumes "carries rq payload"
  shows "\<exists>outs. decodedBody rq = Some (RStream outs False) \<and> concat outs = payload"
proof -
  obtain chunks where c: "rq_body rq = Some chunks" using assms by (auto simp: carries_def)
  show ?thesis
  proof (cases "isAwsChunked (header rq ''x-amz-content-sha256'')")
    case True
    with assms c obtain cs sig trailer where "concat chunks = encode_chunks cs sig trailer" "concat (map fst cs) = payload"
        "\<forall>(b, s) \<in> set cs. b \<noteq> [] \<and> plain_text s" "plain_text sig"
      by (auto simp: carries_def)
    with decoded_stream_back[OF this(1,3,4)] c True show ?thesis by (auto simp: decodedBody_def)
  next
    case False
    with assms c show ?thesis by (auto simp: carries_def decodedBody_def)
  qed
qed

lemma put_unconditional: "po_onlyIf opts = None \<Longrightarrow> fst (r2_put md5 b k v opts now version st) \<noteq> Inr None"
  by (auto simp: r2_put_def Let_def split: sum.split prod.split)

lemma object_dispatch:
  assumes "clean_key k" and "rq_path rq = ''/'' @ encodeURIComponent k" and "rq_params rq = []"
    and "rq_method rq \<noteq> ''OPTIONS''" and "name \<noteq> '''' "
  shows "handleS3Request sx rq name (Some b) bs st
    = handleObjectLevel sx rq name b k (corsHeaders (header rq ''origin'')) st"
proof -
  have "k \<noteq> ''''" using assms(1) by (auto simp: clean_key_def)
  moreover have "dropWhile (\<lambda>c. c = CHR ''/'') (rq_path rq) = encodeURIComponent k"
    using encode_no_slash[of k] assms(2) by (cases "encodeURIComponent k") auto
  ultimately show ?thesis
    using assms(3-5)
    by (simp add: handleS3Request_def handleKey_def handleSubResource_def has_param_def param_def stored_text_def Let_def)
qed

text \<open>A write without preconditions, copy source and digest, as it ends when the response is 200.\<close>

definition plain_write :: "s3_request \<Rightarrow> bool" where
  "plain_write rq =
     list_all (\<lambda>h. stored_text (header rq h) = None)
       [''x-amz-copy-source'', ''content-md5'', ''if-match'', ''if-none-match'', ''if-unmodified-since'']"

lemma plain_write_puts:
  assumes "plain_write rq" and "carries rq payload"
    and "handlePutObject sx rq name b k cors st = (Inr resp, st')" and "rs_status resp = 200"
  obtains outs row r2 where "concat outs = payload"
    "r2_put (sx_md5 sx) b k (RStream outs False) (extractPutOptions sx rq) (sx_now sx) (sx_random sx) (s3_r2 st) = (Inr (Some row), r2)"
    "st' = with_r2 r2 st" "map_of (rs_headers resp) ''etag'' = Some (quoted (r2_etag row))"
proof -
  obtain outs where outs: "decodedBody rq = Some (RStream outs False)" "concat outs = payload"
    using carries_body[OF assms(2)] by blast
  have go: "write_refused sx rq name b k cors st = None" "stored_text (header rq ''x-amz-copy-source'') = None"
    "stored_text (header rq ''content-md5'') = None"
    using assms(1) by (simp_all add: plain_write_def write_refused_def parseConditional_def tag_list_def)
  obtain r r2 where put: "r2_put (sx_md5 sx) b k (RStream outs False) (extractPutOptions sx rq) (sx_now sx) (sx_random sx) (s3_r2 st) = (r, r2)"
    by force
  have none: "r \<noteq> Inr None"
  proof -
    have "po_onlyIf (extractPutOptions sx rq) = None" by (simp add: extractPutOptions_def no_options_def)
    from put_unconditional[OF this] put show ?thesis by (metis fst_conv)
  qed
  obtain row where r: "r = Inr (Some row)"
  proof (cases r)
    case (Inl e)
    with assms(3) go outs put show ?thesis by (simp add: handlePutObject_def await_r2_def)
  next
    case (Inr x)
    with none show ?thesis using that by (cases x) auto
  qed
  with assms(3) go outs put have "st' = with_r2 r2 st" "map_of (rs_headers resp) ''etag'' = Some (quoted (r2_etag row))"
    by (auto simp: handlePutObject_def await_r2_def respond_def obj_set_map_of)
  with that outs(2) put r show ?thesis by blast
qed

text \<open>A read without a range and preconditions.\<close>

definition plain_read :: "s3_request \<Rightarrow> bool" where
  "plain_read rq =
     (rq_method rq = ''GET''
      \<and> list_all (\<lambda>h. stored_text (header rq h) = None)
          [''range'', ''if-match'', ''if-none-match'', ''if-modified-since'', ''if-unmodified-since''])"

lemma no_conditions:
  assumes "list_all (\<lambda>h. stored_text (header rq h) = None) [''if-match'', ''if-none-match'', ''if-modified-since'', ''if-unmodified-since'']"
  shows "evaluateHttp (parseConditional sx rq) etag uploaded is_read = Match"
  using assms by (simp add: parseConditional_def tag_list_def evaluateHttp_def)

lemma get_object_found:
  assumes "r2_head b k (s3_r2 st) = Some row" and "meta_of sx row = Some m"
    and "evaluateHttp (parseConditional sx rq) (mt_etag m) (mt_uploaded m) True = Match"
    and "r2_get b k None (parseRange (header rq ''range'')) (s3_r2 st) = GotBody bo"
  shows "handleGetObject sx rq name b k cors st =
    (case bo_range bo of
       Some (off, len) \<Rightarrow>
         respond 206
           (set_headers (applyObjectHeaders sx m cors)
              [(''content-length'', show_int len),
               (''content-range'', ''bytes '' @ show_int off @ ''-'' @ show_int (off + len - 1) @ ''/'' @ show_nat (mt_size m))])
           (StreamBody (body_bytes bo (s3_r2 st))) st
     | None \<Rightarrow> respond 200 (applyObjectHeaders sx m cors) (StreamBody (body_bytes bo (s3_r2 st))) st)"
  using assms by (simp add: handleGetObject_def on_head_def Let_def)

lemma whole_object:
  assumes "r2_inv md5 b r2" and "getRow b k r2 = Some row"
  obtains c bo where "contents b r2 k = Some c" "length c = r2_size row" "r2_get b k None None r2 = GotBody bo"
    "bo_range bo = None" "body_bytes bo r2 = Inr c"
proof -
  obtain c where c: "contents b r2 k = Some c" "length c = r2_size row" "files_of (r2_files r2) (r2_filePath b k) = Some c"
    using contents_row[OF assms] .
  then show ?thesis
    using that assms(2) by (simp add: r2_get_def range_of_def body_bytes_def read_file_Some[OF c(3)])
qed

text \<open>
  C29. What is stored over HTTP is what is read over HTTP. When a write of a key (its URL is the
  encoded key; the body plain or framed into signed chunks; no precondition and no digest to
  check) is answered 200, a plain read of the key is answered 200 with exactly the bytes that
  were sent, their number as the content length, the digest of them as the tag, the same tag the
  write reported, and the content type the write gave. The bucket's objects own their files again.
\<close>

theorem put_get_over_http:
  assumes "r2_inv (sx_md5 sx) b (s3_r2 st)" and "clean_key k" and "name \<noteq> ''''"
    and "date_reads_back sx (header put ''expires'')"
    and "rq_method put = ''PUT''" and "rq_path put = ''/'' @ encodeURIComponent k" and "rq_params put = []"
    and "plain_write put" and "carries put payload"
    and "handleS3Request sx put name (Some b) bs st = (Inr stored, st')" and "rs_status stored = 200"
    and "plain_read rd" and "rq_path rd = rq_path put" and "rq_params rd = []"
  shows "\<exists>got. handleS3Request sx rd name (Some b) bs st' = (Inr got, st')
    \<and> rs_status got = 200 \<and> rs_body got = StreamBody (Inr payload)
    \<and> map_of (rs_headers got) ''etag'' = Some (quoted (sx_md5 sx payload))
    \<and> map_of (rs_headers stored) ''etag'' = Some (quoted (sx_md5 sx payload))
    \<and> map_of (rs_headers got) ''content-length'' = Some (show_nat (length payload))
    \<and> (\<forall>t. stored_text (header put ''content-type'') = Some t \<longrightarrow> map_of (rs_headers got) ''content-type'' = Some t)
    \<and> r2_inv (sx_md5 sx) b (s3_r2 st')"
proof -
  let ?opts = "extractPutOptions sx put" and ?http = "http_from (sx_date sx) (header put)"
  have "handlePutObject sx put name b k (corsHeaders (header put ''origin'')) st = (Inr stored, st')"
    using object_dispatch[OF assms(2,6,7) _ assms(3), of sx b bs st] assms(5,10) by (simp add: handleObjectLevel_def)
  from plain_write_puts[OF assms(8,9) this assms(11)] obtain outs row r2 where put:
      "concat outs = payload"
      "r2_put (sx_md5 sx) b k (RStream outs False) ?opts (sx_now sx) (sx_random sx) (s3_r2 st) = (Inr (Some row), r2)"
      "st' = with_r2 r2 st" "map_of (rs_headers stored) ''etag'' = Some (quoted (r2_etag row))" .
  have v: "value_bytes (RStream outs False) = payload" "\<not> fails (RStream outs False)"
    using put(1) by (simp_all add: value_bytes_def fails_def)
  have stored: "r2_inv (sx_md5 sx) b r2" "r2_size row = length payload" "r2_etag row = sx_md5 sx payload"
      "getRow b k r2 = Some row" "contents b r2 k = Some payload"
    using put_stores[OF assms(1,2) v(2) put(2)] v(1) assms(2) by (auto simp: r2_head_def)
  have "http_ok (\<lambda>t. nullish (sx_date sx t) 0) (nullish (po_http ?opts) [])"
    using http_from_ok[where get = "header put", OF assms(4)] by (simp add: extractPutOptions_def no_options_def)
  moreover have "List.distinct (map fst (nullish (po_custom ?opts) []))"
    using meta_entries_distinct by (simp add: extractPutOptions_def no_options_def)
  ultimately obtain m where m: "meta_of sx row = Some m" "mt_size m = length payload" "mt_etag m = sx_md5 sx payload"
      "mt_http m = http_fields ?http"
    using stored_metadata[OF put(2)] v(1) by (simp add: meta_of_def extractPutOptions_def no_options_def)
  obtain bo where bo: "r2_get b k None None r2 = GotBody bo" "bo_range bo = None" "body_bytes bo r2 = Inr payload"
    using whole_object[OF stored(1,4)] stored(5) by auto
  have r2: "s3_r2 st' = r2" using put(3) by (simp add: with_r2_def)
  have "parseRange (header rd ''range'') = None" "rq_method rd = ''GET''"
    and cond: "evaluateHttp (parseConditional sx rd) (mt_etag m) (mt_uploaded m) True = Match"
    using assms(12) no_conditions[of rd sx] by (simp_all add: plain_read_def parseRange_def)
  then have "handleS3Request sx rd name (Some b) bs st'
      = respond 200 (applyObjectHeaders sx m (corsHeaders (header rd ''origin''))) (StreamBody (Inr payload)) st'"
    using object_dispatch[OF assms(2) _ assms(14) _ assms(3), of sx b bs st'] assms(6,13)
      get_object_found[of b k st' row sx m rd bo name] stored(4) m(1) bo r2
    by (simp add: handleObjectLevel_def r2_head_def)
  moreover have "map_of (applyObjectHeaders sx m cors) ''content-type'' = Some t"
    if t: "stored_text (header put ''content-type'') = Some t" for t cors
  proof (rule object_content_type)
    have "t \<noteq> ''''" using t by (auto simp: stored_text_def split: option.splits if_splits)
    then have "field_value ?http ''contentType'' = Some (MText t)"
      using t by (simp add: field_value_def http_from_def HTTP_METADATA_FIELDS_def)
    then show "field_value (mt_http m) ''contentType'' = Some (MText t)"
      using map_of_fields[OF distinct_fields, of "field_value ?http" "''contentType''", folded http_fields_def] m(4) \<open>t \<noteq> ''''\<close>
      by (simp add: field_value_def[of "http_fields ?http"] HTTP_METADATA_FIELDS_def)
  qed
  ultimately show ?thesis
    using m stored put(4) r2 by (simp add: respond_def object_header_fields)
qed

definition ex_context :: s3_context where
  "ex_context =
     \<lparr>sx_md5 = to_hex, sx_date = (\<lambda>_. None), sx_utc = (\<lambda>_. ''''), sx_errno = (\<lambda>_. ''Error''), sx_now = 0,
      sx_random = ''r'', sx_env = Some [(''B'', Some ex_bucket), (''OTHER'', None)]\<rparr>"

definition ex_request :: "string \<Rightarrow> string \<Rightarrow> (string \<times> string) list \<Rightarrow> bytes list option \<Rightarrow> s3_request" where
  "ex_request verb path hs body =
     \<lparr>rq_method = verb, rq_path = path, rq_params = [], rq_headers = hs, rq_body = body, rq_form = []\<rparr>"

definition ex_gateway :: s3_state where
  "ex_gateway = \<lparr>s3_r2 = ex_state, s3_cors = []\<rparr>"

theorem put_get_over_http_witness:
  "\<exists>stored st' got. handleS3Request ex_context
       (ex_request ''PUT'' ''/n%2Fx'' [(''content-type'', ''t'')] (Some [''h'', ''i''])) ''B'' (Some ex_bucket) None ex_gateway
       = (Inr stored, st')
     \<and> handleS3Request ex_context (ex_request ''GET'' ''/n%2Fx'' [] None) ''B'' (Some ex_bucket) None st' = (Inr got, st')
     \<and> rs_body got = StreamBody (Inr ''hi'') \<and> map_of (rs_headers got) ''content-type'' = Some ''t''"
proof -
  let ?put = "ex_request ''PUT'' ''/n%2Fx'' [(''content-type'', ''t'')] (Some [''h'', ''i''])" and ?get = "ex_request ''GET'' ''/n%2Fx'' [] None"
  have key: "clean_key ''n/x''" "''/'' @ encodeURIComponent ''n/x'' = ''/n%2Fx''" by code_simp+
  have "\<not> isAwsChunked (header ?put ''x-amz-content-sha256'')" by code_simp
  then have carries: "carries ?put ''hi''" by (simp add: carries_def) (simp add: ex_request_def)
  have plain: "plain_write ?put" "plain_read ?get" "stored_text (header ?put ''content-type'') = Some ''t''" by code_simp+
  have to_put: "handleS3Request ex_context ?put ''B'' (Some ex_bucket) None ex_gateway
      = handlePutObject ex_context ?put ''B'' ex_bucket ''n/x'' (corsHeaders (header ?put ''origin'')) ex_gateway"
    using object_dispatch[OF key(1), of ?put "''B''" ex_context ex_bucket None ex_gateway] key(2)
    by (simp add: ex_request_def handleObjectLevel_def Let_def)
  have "case fst (handlePutObject ex_context ?put ''B'' ex_bucket ''n/x'' (corsHeaders (header ?put ''origin'')) ex_gateway) of
      Inr r \<Rightarrow> rs_status r = 200 | _ \<Rightarrow> False"
    by code_simp
  with to_put have "case fst (handleS3Request ex_context ?put ''B'' (Some ex_bucket) None ex_gateway) of
      Inr r \<Rightarrow> rs_status r = 200 | _ \<Rightarrow> False" by simp
  then obtain stored st' where p: "handleS3Request ex_context ?put ''B'' (Some ex_bucket) None ex_gateway = (Inr stored, st')"
      "rs_status stored = 200"
    by (cases "handleS3Request ex_context ?put ''B'' (Some ex_bucket) None ex_gateway") (auto split: sum.splits)
  have "r2_inv (sx_md5 ex_context) ex_bucket (s3_r2 ex_gateway)"
    using ex_inv by (simp add: ex_context_def ex_gateway_def)
  from put_get_over_http[OF this key(1) _ _ _ _ _ plain(1) carries p plain(2)] key(2) plain(3) p(1) show ?thesis
    by (auto simp: ex_request_def date_reads_back_def ex_context_def)
qed

section \<open>Requests that change nothing\<close>

text \<open>An outcome that answers 304 or 412 left the state \<open>st\<close> as it was.\<close>

definition harmless :: "outcome \<Rightarrow> s3_state \<Rightarrow> bool" where
  "harmless out st =
     (case out of (Inr r, st') \<Rightarrow> rs_status r \<in> {304, 412} \<longrightarrow> st' = st | (Inl _, _) \<Rightarrow> True)"

lemma harmless_simps [simp]:
  "harmless (respond s hs body st') st \<longleftrightarrow> (s \<in> {304, 412} \<longrightarrow> st' = st)"
  "harmless (xmlResponse t s hs st') st \<longleftrightarrow> (s \<in> {304, 412} \<longrightarrow> st' = st)"
  "harmless (xmlError code t u hs st') st \<longleftrightarrow> (statusForError code \<in> {304, 412} \<longrightarrow> st' = st)"
  "harmless (Inl e, st') st"
  by (simp_all add: harmless_def respond_def xmlResponse_def xmlError_def)

lemma harmless_await: "(\<And>x st'. harmless (k x st') st) \<Longrightarrow> harmless (await_r2 r st k) st"
  by (auto simp: await_r2_def split: sum.split prod.split)

lemma harmless_digest [simp]:
  "harmless (await_r2 r st' (\<lambda>u. xmlError BadDigest t p hs)) st"
  by (auto simp: await_r2_def split: sum.split prod.split)

lemma harmless_head: "(\<And>m. harmless (found m) st) \<Longrightarrow> harmless (on_head sx name b key cors found st) st"
  by (auto simp: on_head_def split: option.split)

lemma snd_simps [simp]:
  "snd (respond s hs body st) = st" "snd (xmlResponse t s hs st) = st" "snd (xmlError code t u hs st) = st"
  by (simp_all add: respond_def xmlResponse_def xmlError_def)

lemma snd_head: "(\<And>m. snd (found m) = st) \<Longrightarrow> snd (on_head sx name b key cors found st) = st"
  by (auto simp: on_head_def split: option.split)

lemma snd_get: "snd (handleGetObject sx rq name b key cors st) = st"
  unfolding handleGetObject_def Let_def
  by (rule snd_head) (auto split: conditional_result.split r2_got.split option.split)

lemma snd_head_request: "snd (handleHeadObject sx rq name b key cors st) = st"
  unfolding handleHeadObject_def Let_def by (rule snd_head) simp

lemma snd_attributes: "snd (handleGetObjectAttributes sx rq name b key cors st) = st"
  unfolding handleGetObjectAttributes_def Let_def by (rule snd_head) simp

lemma snd_tagging: "snd (handleGetObjectTagging sx name b key cors st) = st"
  unfolding handleGetObjectTagging_def by (rule snd_head) (auto split: option.split)

lemma snd_list: "snd (handleListObjects sx rq name b cors st) = st"
  by (auto simp: handleListObjects_def Let_def split: option.split sum.split)

lemma snd_bucket_level: "rq_method rq \<in> {''GET'', ''HEAD''} \<Longrightarrow> snd (handleBucketLevel sx rq name b cors st) = st"
  by (auto simp: handleBucketLevel_def Let_def snd_list split: option.split)

lemma snd_sub_resource: "rq_method rq \<in> {''GET'', ''HEAD''} \<Longrightarrow> snd (handleSubResource sx rq name b key cors st) = st"
  by (auto simp: handleSubResource_def handleObjectLevel_def Let_def snd_get snd_head_request snd_attributes snd_tagging)

lemma snd_key: "rq_method rq \<in> {''GET'', ''HEAD''} \<Longrightarrow> snd (handleKey sx rq name b key cors st) = st"
  by (auto simp: handleKey_def handleUploadLevel_def handleListParts_def Let_def snd_sub_resource split: option.split)

lemma harmless_of_snd: "snd out = st \<Longrightarrow> harmless out st"
  by (cases out) (auto simp: harmless_def split: sum.split)

lemma harmless_copy: "harmless (handleCopyObject sx rq name b key src cors st) st"
  by (auto simp: handleCopyObject_def Let_def intro!: harmless_await split: option.split r2_got.split)

lemma harmless_put: "harmless (handlePutObject sx rq name b key cors st) st"
proof -
  have "\<exists>out. write_refused sx rq name b key cors st = Some out \<Longrightarrow> harmless (the (write_refused sx rq name b key cors st)) st"
    by (auto simp: write_refused_def Let_def split: if_splits option.splits)
  then show ?thesis
    by (auto simp: handlePutObject_def harmless_copy intro!: harmless_await split: option.split)
qed

lemma harmless_uploads:
  "harmless (handleUploadPart sx rq name b key u cors st) st"
  "harmless (handleUploadPartCopy sx rq name b key u src cors st) st"
  "harmless (handleCompleteMultipartUpload sx rq name b key u cors st) st"
  "harmless (handleAbortMultipartUpload b u cors st) st"
  "harmless (handleCreateMultipartUpload sx rq name b key cors st) st"
  by (auto simp: handleUploadPart_def handleUploadPartCopy_def handleCompleteMultipartUpload_def
      handleAbortMultipartUpload_def handleCreateMultipartUpload_def Let_def intro!: harmless_await
      split: option.split sum.split prod.split r2_got.split)

lemma harmless_tags:
  "harmless (handlePutObjectTagging sx rq name b key cors st) st"
  "harmless (handleDeleteObjectTagging sx name b key cors st) st"
  by (auto simp: handlePutObjectTagging_def handleDeleteObjectTagging_def intro!: harmless_head split: option.split)

lemma harmless_delete: "harmless (handleDeleteObject b key cors st) st"
  by (auto simp: handleDeleteObject_def intro!: harmless_await)

lemma harmless_sub_resource: "harmless (handleSubResource sx rq name b key cors st) st"
  using harmless_of_snd[OF snd_get] harmless_of_snd[OF snd_head_request] harmless_of_snd[OF snd_attributes]
    harmless_of_snd[OF snd_tagging]
  by (simp add: handleSubResource_def handleObjectLevel_def Let_def harmless_put harmless_delete harmless_tags)

lemma harmless_key: "harmless (handleKey sx rq name b key cors st) st"
  by (simp add: handleKey_def handleUploadLevel_def handleListParts_def Let_def harmless_uploads harmless_sub_resource
      split: option.split)

lemma harmless_bucket_level: "harmless (handleBucketLevel sx rq name b cors st) st"
proof -
  have "harmless (handlePresignedPost sx rq name b cors st) st"
    by (auto simp: handlePresignedPost_def Let_def intro!: harmless_await split: option.split form_value.split)
  moreover have "harmless (handleDeleteObjects sx rq b cors st) st"
    by (auto simp: handleDeleteObjects_def Let_def split: option.split prod.split)
  ultimately show ?thesis
    using harmless_of_snd[OF snd_list] by (auto simp: handleBucketLevel_def Let_def split: option.split)
qed

text \<open>
  C30. Requests that only read change nothing, and neither does any request that is answered 304
  or 412: for every request of every kind, bucket and state, after GET, HEAD and OPTIONS, and
  whenever a precondition refuses the request, all objects, uploads, parts, files and bucket
  settings are as before.
\<close>

theorem safe_requests:
  "(rq_method rq \<in> {''GET'', ''HEAD'', ''OPTIONS''} \<longrightarrow> snd (handleS3Request sx rq name r2 bs st) = st)
   \<and> (case fst (handleS3Request sx rq name r2 bs st) of
        Inr r \<Rightarrow> rs_status r \<in> {304, 412} \<longrightarrow> snd (handleS3Request sx rq name r2 bs st) = st
      | Inl e \<Rightarrow> True)"
proof
  show "rq_method rq \<in> {''GET'', ''HEAD'', ''OPTIONS''} \<longrightarrow> snd (handleS3Request sx rq name r2 bs st) = st"
    by (auto simp: handleS3Request_def Let_def snd_key snd_bucket_level split: option.split)
  have "harmless (handleS3Request sx rq name r2 bs st) st"
    by (simp add: handleS3Request_def Let_def harmless_key harmless_bucket_level split: option.split)
  then show "case fst (handleS3Request sx rq name r2 bs st) of
        Inr r \<Rightarrow> rs_status r \<in> {304, 412} \<longrightarrow> snd (handleS3Request sx rq name r2 bs st) = st
      | Inl e \<Rightarrow> True"
    by (cases "handleS3Request sx rq name r2 bs st") (auto simp: harmless_def split: sum.splits)
qed

theorem safe_requests_witness:
  "snd (handleS3Request ex_context (ex_request ''HEAD'' ''/k'' [] None) ''B'' (Some ex_bucket) None ex_gateway) = ex_gateway
   \<and> (let out = handlePutObject ex_context (ex_request ''PUT'' ''/k'' [(''if-none-match'', ''*'')] (Some [''hi''])) ''B'' ex_bucket ''k'' []
        ex_gateway in map_option rs_status (case fst out of Inr r \<Rightarrow> Some r | Inl e \<Rightarrow> None) = Some 412)"
proof
  show "snd (handleS3Request ex_context (ex_request ''HEAD'' ''/k'' [] None) ''B'' (Some ex_bucket) None ex_gateway) = ex_gateway"
    using safe_requests[of "ex_request ''HEAD'' ''/k'' [] None" ex_context "''B''" "Some ex_bucket" None ex_gateway]
    by (simp add: ex_request_def)
qed code_simp

section \<open>Where the gateway differs from S3\<close>

text \<open>The marker of a version 1 listing is a key, but the bucket reads it as an offset.\<close>

lemma marker_is_no_cursor:
  "list_objects ex_context ex_bucket \<lparr>lp_prefix = None, lp_from = Some ''k'', lp_maxKeys = Some 1, lp_delimiter = None\<rparr> ex_gateway
   = Inl (R2Threw R2BadCursor)"
  by code_simp

text \<open>A write with a wrong digest is rejected, and the object that was there before is gone.\<close>

lemma bad_digest_loses_object:
  "let out = handlePutObject ex_context (ex_request ''PUT'' ''/k'' [(''content-md5'', ''AAAA'')] (Some [''hi''])) ''B'' ex_bucket ''k'' [] ex_gateway
   in contents ex_bucket (s3_r2 ex_gateway) ''k'' = Some ''hello'' \<and> contents ex_bucket (s3_r2 (snd out)) ''k'' = None
     \<and> (case fst out of Inr r \<Rightarrow> rs_status r = 400 | Inl e \<Rightarrow> False)"
  by code_simp

text \<open>A range behind the end is answered 206 with a negative length instead of 416.\<close>

lemma unsatisfiable_range_accepted:
  "case fst (handleGetObject ex_context (ex_request ''GET'' ''/k'' [(''range'', ''bytes=9-'')] None) ''B'' ex_bucket ''k'' [] ex_gateway) of
     Inr r \<Rightarrow> rs_status r = 206 \<and> map_of (rs_headers r) ''content-length'' = Some ''-4''
       \<and> map_of (rs_headers r) ''content-range'' = Some ''bytes 9-4/5''
   | Inl e \<Rightarrow> False"
  by code_simp

text \<open>An escaped question mark in the source of a copy ends the key.\<close>

lemma copy_source_cut:
  "parseCopySource (''b/'' @ encodeURIComponent ''a?b'') = Some (''b'', ''a'')"
proof -
  have enc: "utf8_encode ''b'' = ''b''" "utf8_encode ''/'' = ''/''" "utf8_encode ''a?b'' = ''a?b''"
    "utf8_encode ''b/a?b'' = ''b/a?b''"
    by code_simp+
  have "trim (''b/'' @ encodeURIComponent ''a?b'') = ''b/'' @ encodeURIComponent ''a?b''" by code_simp
  moreover have "percent_bytes (''b/'' @ encodeURIComponent ''a?b'') = Some ''b/a?b''"
    by (simp add: percent_bytes_encode enc)
  moreover have "utf8_decode ''b/a?b'' = Some ''b/a?b''" using utf8_round_trip[of "''b/a?b''"] enc(4) by simp
  ultimately have d: "decodeURIComponent (trim (''b/'' @ encodeURIComponent ''a?b'')) = Some ''b/a?b''"
    by (simp only: decodeURIComponent_def bind.bind_lunit)
  show ?thesis unfolding parseCopySource_def d by (simp add: starts_with_def)
qed

text \<open>The answer to a form upload does not escape the key.\<close>

lemma post_response_unescaped:
  "includes_str (post_response_xml ''b'' ''<x>'' ''e'') ''<Key><x></Key>''"
  by code_simp

end
