(* ===== verification/Generations.thy ===== *)
theory Generations
  imports StaticAssets
begin

text \<open>
  The generations of a worker, \<^verbatim>\<open>src/generation.ts\<close> and \<^verbatim>\<open>src/generation-manager.ts\<close>: each reload
  loads the module in a new worker thread, switches to it and drains the one before. The
  configuration of a manager never changes. A caller of \<open>reload\<close> is a number with the number of
  reloads begun when it called; the events are the calls, what the thread and the timers report,
  and the commands of the dashboard. The worker thread itself is the counters of its work in
  flight, which may change at any time.
\<close>

section \<open>Generations\<close>

datatype gen_state = GenActive | GenDraining | GenStopped

record thread_executor =
  te_waitUntil :: nat
  te_handlers :: nat
  te_fetches :: nat
  te_streams :: nat
  te_consuming :: bool
  te_disposed :: bool

record generation =
  g_state :: gen_state
  g_activeRequests :: nat
  g_executor :: "thread_executor option"
  g_cronTimer :: bool
  g_classes :: "string list"
  g_workflows :: "string list"

definition new_executor :: thread_executor where
  "new_executor =
     \<lparr>te_waitUntil = 0, te_handlers = 0, te_fetches = 0, te_streams = 0, te_consuming = True, te_disposed = False\<rparr>"

definition isIdle :: "generation \<Rightarrow> bool" where
  "isIdle g =
     (if 0 < g_activeRequests g then False
      else (case g_executor g of
              None \<Rightarrow> True
            | Some ex \<Rightarrow>
                if 0 < te_waitUntil ex then False
                else if 0 < te_handlers ex then False
                else if 0 < te_fetches ex then False
                else if 0 < te_streams ex then False
                else True))"

text \<open>\<open>drain\<close>, with the classes whose alarm timers it clears.\<close>

definition gen_drain :: "string list \<Rightarrow> generation \<Rightarrow> generation \<times> string list" where
  "gen_drain shared g =
     (if g_state g = GenStopped then (g, [])
      else (g\<lparr>g_state := GenDraining, g_cronTimer := False,
              g_executor := map_option (\<lambda>ex. ex\<lparr>te_consuming := False\<rparr>) (g_executor g)\<rparr>,
            filter (\<lambda>c. c \<notin> set shared) (g_classes g)))"

text \<open>\<open>stop\<close>, with the classes it destroys.\<close>

definition gen_stop :: "string list \<Rightarrow> generation \<Rightarrow> generation \<times> string list" where
  "gen_stop shared g =
     (if g_state g = GenStopped then (g, [])
      else ((fst (gen_drain shared g))
              \<lparr>g_state := GenStopped,
               g_executor := map_option (\<lambda>ex. ex\<lparr>te_consuming := False, te_disposed := True\<rparr>) (g_executor g)\<rparr>,
            filter (\<lambda>c. c \<notin> set shared) (g_classes g)))"

section \<open>The manager\<close>

record gm_config =
  gc_script :: bool
  gc_cronEnabled :: bool
  gc_crons :: "string list"
  gc_classes :: "string list"
  gc_workflows :: "string list"

type_synonym caller = "nat \<times> nat"

text \<open>The reload that runs: its number, its callers and, once it has settled, its outcome:
  the generation it made, or none when it failed.\<close>

record reload_run =
  rr_number :: nat
  rr_callers :: "caller list"
  rr_outcome :: "nat option option"

record namespace_owner =
  no_generation :: nat
  no_alarmHint :: bool

record manager =
  generations :: "(nat \<times> generation) list"
  nextGenId :: nat
  activeGenId :: "nat option"
  reloading :: "reload_run option"
  pendingReload :: "caller list option"
  followUps :: "caller list list"
  resumedGenIds :: "nat list"
  doNamespaces :: "(string \<times> namespace_owner) list"
  startedReloads :: nat
  drains :: "nat list" \<comment> \<open>generations that stop when idle or out of time\<close>
  removals :: "nat list" \<comment> \<open>stopped generations to be forgotten\<close>
  answered :: "(caller \<times> nat \<times> nat option) list" \<comment> \<open>what each caller got, with the number of the reload\<close>
  resumeOrders :: "nat list" \<comment> \<open>generations whose worker was told to resume workflows\<close>
  destroyedClasses :: "string list"

definition new_manager :: manager where
  "new_manager =
     \<lparr>generations = [], nextGenId = 1, activeGenId = None, reloading = None, pendingReload = None,
      followUps = [], resumedGenIds = [], doNamespaces = [], startedReloads = 0, drains = [],
      removals = [], answered = [], resumeOrders = [], destroyedClasses = []\<rparr>"

definition get_generation :: "manager \<Rightarrow> nat \<Rightarrow> generation option" where
  "get_generation m i = map_of (generations m) i"

definition set_generation :: "nat \<Rightarrow> generation \<Rightarrow> manager \<Rightarrow> manager" where
  "set_generation i g m = m\<lparr>generations := obj_set (generations m) i g\<rparr>"

definition active :: "manager \<Rightarrow> (nat \<times> generation) option" where
  "active m =
     (case activeGenId m of
        None \<Rightarrow> None
      | Some i \<Rightarrow> map_option (Pair i) (get_generation m i))"

definition shared_classes :: "manager \<Rightarrow> string list" where
  "shared_classes m = map fst (doNamespaces m)"

text \<open>\<open>_resumeWorkflows\<close>\<close>

definition resumeWorkflows :: "nat \<times> generation \<Rightarrow> manager \<Rightarrow> manager" where
  "resumeWorkflows a m =
     (if g_workflows (snd a) = [] then m
      else if fst a \<in> set (resumedGenIds m) then m
      else m\<lparr>resumedGenIds := resumedGenIds m @ [fst a], resumeOrders := resumeOrders m @ [fst a]\<rparr>)"

definition stopGeneration :: "nat \<Rightarrow> manager \<Rightarrow> manager" where
  "stopGeneration i m =
     (case get_generation m i of
        None \<Rightarrow> m
      | Some g \<Rightarrow>
          if g_state g = GenStopped then m
          else (let (g', gone) = gen_stop (shared_classes m) g
                in (set_generation i g' m)
                     \<lparr>removals := removals m @ [i], destroyedClasses := destroyedClasses m @ gone\<rparr>))"

text \<open>The end of a drain: stop, and resume the workflows once no older generation is left.\<close>

definition finishDrain :: "nat \<Rightarrow> manager \<Rightarrow> manager" where
  "finishDrain i m =
     (let m1 = stopGeneration i m
      in case active m1 of
           None \<Rightarrow> m1
         | Some a \<Rightarrow>
             if list_ex (\<lambda>(j, g). j < fst a \<and> g_state g \<noteq> GenStopped) (generations m1) then m1
             else resumeWorkflows a m1)"

definition scheduleDrainAndStop :: "nat \<Rightarrow> manager \<Rightarrow> manager" where
  "scheduleDrainAndStop i m =
     (case get_generation m i of
        None \<Rightarrow> m
      | Some g \<Rightarrow> if isIdle g then finishDrain i m else m\<lparr>drains := drains m @ [i]\<rparr>)"

definition drainGeneration :: "nat \<Rightarrow> manager \<Rightarrow> manager" where
  "drainGeneration i m =
     (case get_generation m i of
        None \<Rightarrow> m
      | Some g \<Rightarrow> set_generation i (fst (gen_drain (shared_classes m) g)) m)"

text \<open>The previous generation, when it is still active, is drained and stopped.\<close>

definition retireOld :: "manager \<Rightarrow> manager" where
  "retireOld m =
     (case active m of
        None \<Rightarrow> m
      | Some (i, g) \<Rightarrow>
          if g_state g = GenActive then scheduleDrainAndStop i (drainGeneration i m) else m)"

section \<open>Reloading\<close>

text \<open>The namespaces of the classes: repointed to the new generation, the others destroyed.\<close>

definition rewireNamespaces :: "gm_config \<Rightarrow> (string \<Rightarrow> bool) \<Rightarrow> manager \<Rightarrow> manager" where
  "rewireNamespaces cfg hints m =
     (let ns = foldl (\<lambda>ns c. obj_set ns c \<lparr>no_generation = nextGenId m, no_alarmHint = hints c\<rparr>) (doNamespaces m) (gc_classes cfg);
          live = (\<lambda>e. fst e \<in> set (gc_classes cfg))
      in m\<lparr>doNamespaces := filter live ns,
           destroyedClasses := destroyedClasses m @ map fst (filter (\<lambda>e. \<not> live e) ns)\<rparr>)"

definition new_generation :: "gm_config \<Rightarrow> generation" where
  "new_generation cfg =
     \<lparr>g_state = GenActive, g_activeRequests = 0,
      g_executor = (if gc_script cfg then Some new_executor else None),
      g_cronTimer = False, g_classes = gc_classes cfg, g_workflows = gc_workflows cfg\<rparr>"

definition startConsumers :: "gm_config \<Rightarrow> generation \<Rightarrow> generation" where
  "startConsumers cfg g =
     (if \<not> gc_cronEnabled cfg \<or> g_executor g = None then g
      else if gc_crons cfg = [] then g
      else g\<lparr>g_cronTimer := True\<rparr>)"

text \<open>The part of \<open>_doReload\<close> after the worker is ready; an assets-only worker has only the
  generation to switch.\<close>

definition installGeneration :: "gm_config \<Rightarrow> (string \<Rightarrow> bool) \<Rightarrow> manager \<Rightarrow> manager" where
  "installGeneration cfg hints m =
     (let m1 = (if gc_script cfg then rewireNamespaces cfg hints m else m);
          i = nextGenId m1;
          m2 = (set_generation i (new_generation cfg) m1)\<lparr>nextGenId := i + 1\<rparr>;
          m3 = (retireOld m2)\<lparr>activeGenId := Some i\<rparr>
      in if gc_script cfg then
           (let m4 = set_generation i (startConsumers cfg (new_generation cfg)) m3
            in if activeGenId m = None then resumeWorkflows (i, new_generation cfg) m4 else m4)
         else m3)"

definition settle_with :: "nat option \<Rightarrow> manager \<Rightarrow> manager" where
  "settle_with outcome m = m\<lparr>reloading := map_option (\<lambda>r. r\<lparr>rr_outcome := Some outcome\<rparr>) (reloading m)\<rparr>"

text \<open>\<open>reload\<close>, called by those who wait for one promise.\<close>

definition reload :: "gm_config \<Rightarrow> caller list \<Rightarrow> manager \<Rightarrow> manager" where
  "reload cfg callers m =
     (case reloading m of
        Some r \<Rightarrow> m\<lparr>pendingReload := Some (nullish (pendingReload m) [] @ callers)\<rparr>
      | None \<Rightarrow>
          (let m1 = m\<lparr>reloading := Some \<lparr>rr_number = startedReloads m + 1, rr_callers = callers, rr_outcome = None\<rparr>,
                      startedReloads := startedReloads m + 1\<rparr>
           in if gc_script cfg then m1
              else settle_with (Some (nextGenId m1)) (installGeneration cfg (\<lambda>_. False) m1)))"

definition reload_waits :: "manager \<Rightarrow> bool" where
  "reload_waits m = (case reloading m of None \<Rightarrow> False | Some r \<Rightarrow> rr_outcome r = None)"

text \<open>The callers of the reload get its outcome; those who came meanwhile call again.\<close>

definition reload_ends :: "manager \<Rightarrow> manager" where
  "reload_ends m =
     (case reloading m of
        None \<Rightarrow> m
      | Some r \<Rightarrow>
          (case rr_outcome r of
             None \<Rightarrow> m
           | Some out \<Rightarrow>
               m\<lparr>answered := answered m @ map (\<lambda>c. (c, rr_number r, out)) (rr_callers r), reloading := None,
                 followUps := followUps m @ (case pendingReload m of None \<Rightarrow> [] | Some cs \<Rightarrow> [cs]), pendingReload := None\<rparr>))"

datatype gm_event =
    ReloadCalled nat
  | WorkerReady "string \<Rightarrow> bool"
  | WorkerFailed
  | ReloadEnds
  | FollowUp
  | DrainEnds nat
  | RemovalDue nat
  | DrainCommand nat
  | StopCommand nat
  | WorkChanged nat nat nat nat nat

definition set_work :: "nat \<Rightarrow> nat \<Rightarrow> nat \<Rightarrow> nat \<Rightarrow> generation \<Rightarrow> generation" where
  "set_work a b c d g =
     g\<lparr>g_executor := map_option (\<lambda>ex. ex\<lparr>te_waitUntil := a, te_handlers := b, te_fetches := c, te_streams := d\<rparr>) (g_executor g)\<rparr>"

fun gm_step :: "gm_config \<Rightarrow> gm_event \<Rightarrow> manager \<Rightarrow> manager" where
  "gm_step cfg (ReloadCalled c) m = reload cfg [(c, startedReloads m)] m"
| "gm_step cfg (WorkerReady hints) m =
     (if reload_waits m then settle_with (Some (nextGenId m)) (installGeneration cfg hints m) else m)"
| "gm_step cfg WorkerFailed m = (if reload_waits m then settle_with None m else m)"
| "gm_step cfg ReloadEnds m = reload_ends m"
| "gm_step cfg FollowUp m =
     (case followUps m of [] \<Rightarrow> m | cs # rest \<Rightarrow> reload cfg cs (m\<lparr>followUps := rest\<rparr>))"
| "gm_step cfg (DrainEnds i) m =
     (if i \<in> set (drains m) then finishDrain i (m\<lparr>drains := remove1 i (drains m)\<rparr>) else m)"
| "gm_step cfg (RemovalDue i) m =
     (if i \<in> set (removals m)
      then m\<lparr>removals := remove1 i (removals m), generations := obj_delete i (generations m),
             resumedGenIds := filter (\<lambda>j. j \<noteq> i) (resumedGenIds m)\<rparr>
      else m)"
| "gm_step cfg (DrainCommand i) m = drainGeneration i m"
| "gm_step cfg (StopCommand i) m = stopGeneration i m"
| "gm_step cfg (WorkChanged i a b c d) m =
     (case get_generation m i of None \<Rightarrow> m | Some g \<Rightarrow> set_generation i (set_work a b c d g) m)"

definition gm_run :: "gm_config \<Rightarrow> gm_event list \<Rightarrow> manager" where
  "gm_run cfg evs = foldl (\<lambda>m e. gm_step cfg e m) new_manager evs"

section \<open>Requests\<close>

datatype worker_first = FirstAlways | FirstFor "string list" | FirstNever

definition first_pattern :: "string \<Rightarrow> string \<Rightarrow> bool" where
  "first_pattern pathname pat =
     (if pat = pathname then True
      else if ends_with pat ''/*'' then
        starts_with pathname (butlast pat) \<or> pathname = take (length pat - 2) pat
      else False)"

definition shouldRunWorkerFirst :: "worker_first \<Rightarrow> string \<Rightarrow> bool" where
  "shouldRunWorkerFirst cfg pathname =
     (case cfg of FirstAlways \<Rightarrow> True | FirstNever \<Rightarrow> False | FirstFor ps \<Rightarrow> list_ex (first_pattern pathname) ps)"

text \<open>A reply of the worker, with the WebSocket it may carry; \<open>None\<close> when the call throws.\<close>

record worker_reply =
  wr_response :: assets_response
  wr_socket :: bool

datatype dispatched = Reply assets_response | Upgraded | UpgradeFailed | NothingToServe | ErrorPage

definition worker_result :: "bool \<Rightarrow> worker_reply option \<Rightarrow> dispatched" where
  "worker_result upgrades r =
     (case r of
        None \<Rightarrow> ErrorPage
      | Some w \<Rightarrow>
          if rs_status (wr_response w) = 101 \<and> wr_socket w then (if upgrades then Upgraded else UpgradeFailed)
          else Reply (wr_response w))"

definition assets_result :: "assets_response option \<Rightarrow> dispatched" where
  "assets_result r = (case r of None \<Rightarrow> ErrorPage | Some a \<Rightarrow> Reply a)"

definition dispatchFetch ::
    "(assets_request \<Rightarrow> worker_reply option) option \<Rightarrow> (assets_request \<Rightarrow> assets_response option) option
     \<Rightarrow> worker_first \<Rightarrow> bool \<Rightarrow> string \<Rightarrow> assets_request \<Rightarrow> dispatched" where
  "dispatchFetch worker assets cfg upgrades path rq =
     (case worker of
        None \<Rightarrow>
          (case assets of
             None \<Rightarrow> NothingToServe
           | Some serve \<Rightarrow>
               (case assetsOnlyRejection rq of Some rejection \<Rightarrow> Reply rejection | None \<Rightarrow> assets_result (serve rq)))
      | Some run \<Rightarrow>
          (case assets of
             None \<Rightarrow> worker_result upgrades (run rq)
           | Some serve \<Rightarrow>
               if \<not> shouldRunWorkerFirst cfg path \<and> canServeAssets rq then
                 (case serve rq of
                    None \<Rightarrow> ErrorPage
                  | Some a \<Rightarrow> if rs_status a \<noteq> 404 then Reply a else worker_result upgrades (run rq))
               else
                 (case run rq of
                    Some w \<Rightarrow>
                      if rs_status (wr_response w) = 404 \<and> canServeAssets rq then assets_result (serve rq)
                      else worker_result upgrades (Some w)
                  | None \<Rightarrow> ErrorPage)))"

text \<open>\<open>callFetch\<close> counts the request, and stops counting it as soon as the dispatch has returned
  its promise: the answer is not awaited inside the \<open>try\<close>.\<close>

definition callFetch_begins :: "generation \<Rightarrow> generation" where
  "callFetch_begins g = g\<lparr>g_activeRequests := g_activeRequests g + 1\<rparr>"

definition callFetch_returns :: "generation \<Rightarrow> generation" where
  "callFetch_returns g = g\<lparr>g_activeRequests := g_activeRequests g - 1\<rparr>"

definition isInfrastructurePath :: "string \<Rightarrow> bool" where
  "isInfrastructurePath p = (starts_with p ''/_bun/'' \<or> starts_with p ''/.well-known/'')"

end
