(* ===== verification/GenerationsLaws.thy ===== *)
theory GenerationsLaws
  imports Generations Contracts "HOL-Library.Multiset"
begin

text \<open>
  The laws of the generations: every caller of a reload gets the result of one that began after
  its call, workflows are never resumed in two live workers, a failed reload changes nothing, and
  what serves a request.
\<close>

section \<open>Callers\<close>

definition waiting :: "manager \<Rightarrow> caller list" where
  "waiting m =
     (case reloading m of None \<Rightarrow> [] | Some r \<Rightarrow> rr_callers r) @ nullish (pendingReload m) [] @ concat (followUps m)"

definition fresh_inv :: "manager \<Rightarrow> bool" where
  "fresh_inv m =
     ((case reloading m of
         None \<Rightarrow> pendingReload m = None
       | Some r \<Rightarrow> rr_number r \<le> startedReloads m \<and> (\<forall>c \<in> set (rr_callers r). snd c < rr_number r))
      \<and> (\<forall>c \<in> set (waiting m). snd c \<le> startedReloads m)
      \<and> (\<forall>(c, n, out) \<in> set (answered m). snd c < n))"

text \<open>What the operations on generations leave alone.\<close>

definition same_calls :: "manager \<Rightarrow> manager \<Rightarrow> bool" where
  "same_calls m m' =
     (reloading m' = reloading m \<and> pendingReload m' = pendingReload m \<and> followUps m' = followUps m
      \<and> startedReloads m' = startedReloads m \<and> answered m' = answered m)"

named_theorems calls

lemma same_calls_refl [calls]: "same_calls m m"
  by (simp add: same_calls_def)

lemma same_calls_trans: "same_calls m m' \<Longrightarrow> same_calls m' m'' \<Longrightarrow> same_calls m m''"
  by (simp add: same_calls_def)

lemma set_generation_calls [calls]: "same_calls m (set_generation i g m)"
  by (simp add: same_calls_def set_generation_def)

lemma resume_calls [calls]: "same_calls m (resumeWorkflows a m)"
  by (simp add: same_calls_def resumeWorkflows_def)

lemma stop_calls [calls]: "same_calls m (stopGeneration i m)"
  by (auto simp: same_calls_def stopGeneration_def set_generation_def Let_def split: option.split prod.split)

lemma finish_calls [calls]: "same_calls m (finishDrain i m)"
  using stop_calls[of m i] same_calls_trans resume_calls
  by (auto simp: finishDrain_def Let_def split: option.split)

lemma drain_calls [calls]: "same_calls m (drainGeneration i m)"
  by (auto simp: drainGeneration_def same_calls_def set_generation_def split: option.split)

lemma schedule_calls [calls]: "same_calls m (scheduleDrainAndStop i m)"
  using finish_calls[of m i] by (auto simp: scheduleDrainAndStop_def same_calls_def split: option.split)

lemma retire_calls [calls]: "same_calls m (retireOld m)"
  using same_calls_trans[OF drain_calls schedule_calls]
  by (auto simp: retireOld_def same_calls_refl split: option.split)

lemma install_calls [calls]: "same_calls m (installGeneration cfg hints m)"
proof -
  let ?m1 = "if gc_script cfg then rewireNamespaces cfg hints m else m"
  let ?m2 = "(set_generation (nextGenId ?m1) (new_generation cfg) ?m1)\<lparr>nextGenId := nextGenId ?m1 + 1\<rparr>"
  have "same_calls m ?m2" by (simp add: same_calls_def rewireNamespaces_def set_generation_def Let_def)
  then have r: "same_calls m (retireOld ?m2)" using same_calls_trans retire_calls by blast
  then show ?thesis
    by (auto simp: installGeneration_def Let_def same_calls_def set_generation_def resumeWorkflows_def)
qed

lemma same_calls_inv: "same_calls m m' \<Longrightarrow> fresh_inv m' = fresh_inv m \<and> waiting m' = waiting m \<and> answered m' = answered m"
  by (simp add: same_calls_def fresh_inv_def waiting_def cong: option.case_cong)

text \<open>What the callers see of a reload that starts or joins.\<close>

definition called_with :: "caller list \<Rightarrow> manager \<Rightarrow> manager \<Rightarrow> bool" where
  "called_with cs m m' =
     (fresh_inv m' \<and> mset (waiting m') = mset (waiting m) + mset cs \<and> answered m' = answered m)"

lemma settle_inv: "fresh_inv (settle_with out m) = fresh_inv m \<and> waiting (settle_with out m) = waiting m
    \<and> answered (settle_with out m) = answered m"
  by (simp add: settle_with_def fresh_inv_def waiting_def split: option.split)

lemma reload_called:
  assumes "fresh_inv m" and "\<forall>c \<in> set cs. snd c \<le> startedReloads m"
  shows "called_with cs m (reload cfg cs m)"
proof (cases "reloading m")
  case (Some r)
  with assms show ?thesis
    by (auto simp: reload_def called_with_def fresh_inv_def waiting_def nullish_def split: option.splits)
next
  case None
  let ?m1 = "m\<lparr>reloading := Some \<lparr>rr_number = startedReloads m + 1, rr_callers = cs, rr_outcome = None\<rparr>,
                      startedReloads := startedReloads m + 1\<rparr>"
  have 1: "called_with cs m ?m1"
    using assms None by (fastforce simp: called_with_def fresh_inv_def waiting_def)
  have "same_calls ?m1 (installGeneration cfg (\<lambda>_. False) ?m1)" by (rule install_calls)
  from same_calls_inv[OF this] 1
  have "called_with cs m (settle_with (Some (nextGenId ?m1)) (installGeneration cfg (\<lambda>_. False) ?m1))"
    by (simp add: called_with_def settle_inv)
  with 1 None show ?thesis by (simp add: reload_def Let_def)
qed

lemma reload_ends_inv:
  assumes "fresh_inv m"
  shows "fresh_inv (reload_ends m)
    \<and> mset (map fst (answered (reload_ends m))) + mset (waiting (reload_ends m))
      = mset (map fst (answered m)) + mset (waiting m)"
  using assms
  by (auto simp: reload_ends_def fresh_inv_def waiting_def nullish_def comp_def multiset.map_comp split: option.splits)

definition callers_of :: "gm_event list \<Rightarrow> nat list" where
  "callers_of evs = List.map_filter (\<lambda>e. case e of ReloadCalled c \<Rightarrow> Some c | _ \<Rightarrow> None) evs"

lemma gm_step_calls:
  assumes "fresh_inv m"
  shows "fresh_inv (gm_step cfg e m)
    \<and> image_mset fst (mset (map fst (answered (gm_step cfg e m))) + mset (waiting (gm_step cfg e m)))
      = image_mset fst (mset (map fst (answered m)) + mset (waiting m)) + mset (callers_of [e])"
proof (cases e)
  case (ReloadCalled c)
  from reload_called[OF assms, of "[(c, startedReloads m)]" cfg] ReloadCalled show ?thesis
    by (simp add: called_with_def callers_of_def)
next
  case ReloadEnds
  from reload_ends_inv[OF assms] ReloadEnds show ?thesis by (simp add: callers_of_def)
next
  case FollowUp
  show ?thesis
  proof (cases "followUps m")
    case (Cons cs rest)
    let ?m = "m\<lparr>followUps := rest\<rparr>"
    have f: "fresh_inv ?m" "\<forall>c \<in> set cs. snd c \<le> startedReloads ?m"
      using assms Cons by (auto simp: fresh_inv_def waiting_def split: option.splits)
    have "mset (waiting m) = mset (waiting ?m) + mset cs" using Cons by (simp add: waiting_def)
    with reload_called[OF f, of cfg] Cons FollowUp show ?thesis by (simp add: called_with_def callers_of_def)
  qed (use assms FollowUp in \<open>simp add: callers_of_def\<close>)
next
  case (WorkerReady hints)
  from same_calls_inv[OF install_calls[of m cfg hints]] assms WorkerReady show ?thesis
    by (simp add: settle_inv callers_of_def)
next
  case WorkerFailed
  with assms show ?thesis by (simp add: settle_inv callers_of_def)
next
  case (DrainEnds i)
  have "same_calls m (m\<lparr>drains := remove1 i (drains m)\<rparr>)" by (simp add: same_calls_def)
  from same_calls_inv[OF same_calls_trans[OF this finish_calls[of _ i]]] assms DrainEnds show ?thesis
    by (simp add: callers_of_def)
next
  case (RemovalDue i)
  have "same_calls m (gm_step cfg (RemovalDue i) m)" by (simp add: same_calls_def)
  from same_calls_inv[OF this] assms RemovalDue show ?thesis by (simp add: callers_of_def)
next
  case (DrainCommand i)
  from same_calls_inv[OF drain_calls[of m i]] assms DrainCommand show ?thesis by (simp add: callers_of_def)
next
  case (StopCommand i)
  from same_calls_inv[OF stop_calls[of m i]] assms StopCommand show ?thesis by (simp add: callers_of_def)
next
  case (WorkChanged i a b c d)
  have "same_calls m (gm_step cfg e m)" using WorkChanged by (auto simp: calls split: option.split)
  from same_calls_inv[OF this] assms WorkChanged show ?thesis by (simp add: callers_of_def)
qed

lemma gm_run_snoc: "gm_run cfg (evs @ [e]) = gm_step cfg e (gm_run cfg evs)"
  by (simp add: gm_run_def)

lemma callers_of_append: "callers_of (evs @ evs') = callers_of evs @ callers_of evs'"
  by (simp add: callers_of_def List.map_filter_def)

text \<open>
  C22. Reloads are coalesced without losing or misleading a caller. After any sequence of calls,
  results of the worker, timers and commands: every call has been answered exactly once or waits
  for exactly one answer, and every answer came from a reload that had not begun when the call
  was made, so it reflects the edit that caused the call.
\<close>

theorem reload_answers_fresh:
  "mset (map (\<lambda>(c, n, out). fst c) (answered (gm_run cfg evs))) + mset (map fst (waiting (gm_run cfg evs)))
     = mset (callers_of evs)
   \<and> list_all (\<lambda>(c, n, out). snd c < n) (answered (gm_run cfg evs))"
proof -
  have "fresh_inv (gm_run cfg evs)
    \<and> image_mset fst (mset (map fst (answered (gm_run cfg evs))) + mset (waiting (gm_run cfg evs))) = mset (callers_of evs)"
  proof (induction evs rule: rev_induct)
    case Nil
    show ?case by (simp add: gm_run_def new_manager_def fresh_inv_def waiting_def callers_of_def)
  next
    case (snoc e evs)
    with gm_step_calls[of "gm_run cfg evs" cfg e] show ?case by (simp add: gm_run_snoc callers_of_append)
  qed
  moreover have "image_mset fst (mset (map fst xs)) = mset (map (\<lambda>(c, n, out). fst c) xs)"
    for xs :: "(caller \<times> nat \<times> nat option) list"
    by (induction xs) auto
  ultimately show ?thesis by (simp add: fresh_inv_def list_all_iff)
qed

section \<open>Generations\<close>

definition consistent :: "generation \<Rightarrow> bool" where
  "consistent g = (\<forall>ex. g_executor g = Some ex \<longrightarrow> te_disposed ex = (g_state g = GenStopped))"

text \<open>Whatever is older than \<open>a\<close> has stopped, or \<open>a\<close> itself has.\<close>

definition older_stopped :: "manager \<Rightarrow> nat \<Rightarrow> bool" where
  "older_stopped m a =
     ((\<forall>i g. get_generation m i = Some g \<longrightarrow> i < a \<longrightarrow> g_state g = GenStopped)
      \<or> (\<forall>g. get_generation m a = Some g \<longrightarrow> g_state g = GenStopped))"

definition base_inv :: "manager \<Rightarrow> bool" where
  "base_inv m =
     ((\<forall>i g. get_generation m i = Some g \<longrightarrow> i < nextGenId m \<and> consistent g)
      \<and> (\<forall>a \<in> set (resumeOrders m). a < nextGenId m \<and> older_stopped m a))"

definition act_inv :: "manager \<Rightarrow> bool" where
  "act_inv m =
     ((\<forall>i g. get_generation m i = Some g \<longrightarrow> g_state g = GenActive \<longrightarrow> activeGenId m = Some i)
      \<and> (case activeGenId m of None \<Rightarrow> generations m = [] | Some a \<Rightarrow> a + 1 = nextGenId m))"

text \<open>An operation that at most retires generations.\<close>

definition retires :: "manager \<Rightarrow> manager \<Rightarrow> bool" where
  "retires m m' =
     (nextGenId m' = nextGenId m \<and> activeGenId m' = activeGenId m
      \<and> (\<forall>i g'. get_generation m' i = Some g' \<longrightarrow>
           (\<exists>g. get_generation m i = Some g \<and> (g_state g = GenStopped \<longrightarrow> g_state g' = GenStopped)
              \<and> (g_state g' = GenActive \<longrightarrow> g_state g = GenActive) \<and> (consistent g \<longrightarrow> consistent g'))))"

lemma retires_refl: "retires m m"
  by (simp add: retires_def)

lemma retires_trans: "retires m m' \<Longrightarrow> retires m' m'' \<Longrightarrow> retires m m''"
  unfolding retires_def by metis

lemma get_set_generation: "get_generation (set_generation i g m) j = (if j = i then Some g else get_generation m j)"
  by (simp add: get_generation_def set_generation_def obj_set_map_of)

lemma retires_set:
  assumes "get_generation m i = Some g" and "g_state g = GenStopped \<longrightarrow> g_state g' = GenStopped"
    and "g_state g' = GenActive \<longrightarrow> g_state g = GenActive" and "consistent g \<longrightarrow> consistent g'"
  shows "retires m (set_generation i g' m)"
  using assms by (auto simp: retires_def get_set_generation) (simp_all add: set_generation_def)

lemma retires_get_cong:
  "retires m m' \<Longrightarrow> generations m'' = generations m' \<Longrightarrow> nextGenId m'' = nextGenId m' \<Longrightarrow> activeGenId m'' = activeGenId m' \<Longrightarrow>
   retires m m''"
  by (simp add: retires_def get_generation_def)

lemma stop_retires: "retires m (stopGeneration i m) \<and> resumeOrders (stopGeneration i m) = resumeOrders m"
proof (cases "get_generation m i")
  case (Some g)
  show ?thesis
  proof (cases "g_state g = GenStopped")
    case False
    have "retires m (set_generation i (fst (gen_stop (shared_classes m) g)) m)"
      by (rule retires_set[OF Some]) (use False in \<open>auto simp: gen_stop_def gen_drain_def consistent_def\<close>)
    then show ?thesis
      using False Some by (auto simp: stopGeneration_def Let_def set_generation_def split: prod.split intro: retires_get_cong)
  qed (use Some in \<open>simp add: stopGeneration_def retires_refl\<close>)
qed (simp add: stopGeneration_def retires_refl)

lemma drain_retires: "retires m (drainGeneration i m) \<and> resumeOrders (drainGeneration i m) = resumeOrders m"
proof (cases "get_generation m i")
  case (Some g)
  have "retires m (set_generation i (fst (gen_drain (shared_classes m) g)) m)"
    by (rule retires_set[OF Some]) (auto simp: gen_drain_def consistent_def)
  with Some show ?thesis by (simp add: drainGeneration_def) (simp add: set_generation_def)
qed (simp add: drainGeneration_def retires_refl)

lemma retires_base:
  assumes "base_inv m" and "retires m m'" and "resumeOrders m' = resumeOrders m"
  shows "base_inv m'"
proof -
  have "older_stopped m' a" if "a \<in> set (resumeOrders m)" for a
  proof -
    have "older_stopped m a" using assms(1) that by (simp add: base_inv_def)
    then show ?thesis using assms(2) unfolding older_stopped_def retires_def by metis
  qed
  then show ?thesis using assms unfolding base_inv_def retires_def by metis
qed

lemma retires_act:
  assumes "act_inv m" and "retires m m'" and "generations m = [] \<longrightarrow> generations m' = []"
  shows "act_inv m'"
proof -
  have "activeGenId m' = activeGenId m" "nextGenId m' = nextGenId m" using assms(2) by (simp_all add: retires_def)
  moreover have "g_state g' = GenActive \<longrightarrow> activeGenId m = Some i" if "get_generation m' i = Some g'" for i g'
    using that assms(1,2) unfolding act_inv_def retires_def by metis
  ultimately show ?thesis using assms(1,3) by (auto simp: act_inv_def split: option.splits)
qed

lemma resume_base:
  assumes "base_inv m" and "get_generation m (fst a) = Some g" and "older_stopped m (fst a)"
  shows "base_inv (resumeWorkflows a m)"
  using assms by (auto simp: base_inv_def resumeWorkflows_def get_generation_def older_stopped_def)

lemma resume_retires: "retires m (resumeWorkflows a m)"
  by (auto simp: resumeWorkflows_def intro: retires_get_cong[OF retires_refl])

lemma finish_retires: "retires m (finishDrain i m)"
  using stop_retires[of m i] retires_trans[OF _ resume_retires]
  by (auto simp: finishDrain_def Let_def split: option.split)

lemma finish_base:
  assumes "base_inv m"
  shows "base_inv (finishDrain i m)"
proof -
  let ?m = "stopGeneration i m"
  have b: "base_inv ?m" using stop_retires[of m i] retires_base[OF assms] by simp
  show ?thesis
  proof (cases "active ?m")
    case (Some a)
    then have a: "get_generation ?m (fst a) = Some (snd a)" by (auto simp: active_def split: option.splits)
    show ?thesis
    proof (cases "list_ex (\<lambda>(j, g). j < fst a \<and> g_state g \<noteq> GenStopped) (generations ?m)")
      case False
      then have "older_stopped ?m (fst a)"
        by (fastforce simp: older_stopped_def list_ex_iff get_generation_def dest: map_of_SomeD)
      from resume_base[OF b a this] False Some show ?thesis by (simp add: finishDrain_def)
    qed (use b Some in \<open>simp add: finishDrain_def\<close>)
  qed (use b in \<open>simp add: finishDrain_def\<close>)
qed

lemma schedule_retires: "retires m (scheduleDrainAndStop i m)"
  using finish_retires[of m i]
  by (auto simp: scheduleDrainAndStop_def retires_refl intro: retires_get_cong[OF retires_refl] split: option.split)

lemma schedule_base:
  assumes "base_inv m"
  shows "base_inv (scheduleDrainAndStop i m)"
proof -
  have "base_inv (m\<lparr>drains := drains m @ [i]\<rparr>)"
    using assms by (simp add: base_inv_def older_stopped_def get_generation_def)
  with finish_base[OF assms] assms show ?thesis by (simp add: scheduleDrainAndStop_def split: option.split)
qed

lemma retireOld_retires: "retires m (retireOld m)"
  using retires_trans[OF conjunct1[OF drain_retires] schedule_retires]
  by (auto simp: retireOld_def retires_refl split: option.split)

lemma retireOld_base: "base_inv m \<Longrightarrow> base_inv (retireOld m)"
  using schedule_base retires_base drain_retires
  by (auto simp: retireOld_def split: option.split)

lemma retireOld_act:
  assumes "\<And>i g. get_generation m i = Some g \<Longrightarrow> g_state g = GenActive \<Longrightarrow> activeGenId m = Some i \<or> i = n"
    and "get_generation (retireOld m) i = Some g" and "g_state g = GenActive" and "activeGenId m \<noteq> Some n"
  shows "i = n"
proof (rule ccontr)
  assume "i \<noteq> n"
  from retireOld_retires[of m] assms(2,3) obtain g0
    where g0: "get_generation m i = Some g0" "g_state g0 = GenActive"
    unfolding retires_def by metis
  with assms(1) \<open>i \<noteq> n\<close> have a: "activeGenId m = Some i" by blast
  let ?d = "drainGeneration i m"
  have old: "retireOld m = scheduleDrainAndStop i ?d" using a g0 by (simp add: retireOld_def active_def)
  have d: "get_generation ?d i = Some (fst (gen_drain (shared_classes m) g0))"
    using g0 by (simp add: drainGeneration_def get_set_generation)
  have "g_state (fst (gen_drain (shared_classes m) g0)) \<noteq> GenActive" using g0 by (simp add: gen_drain_def)
  with schedule_retires[of ?d i] assms(2,3) d show False unfolding retires_def old by (metis option.inject)
qed

text \<open>Putting in the new generation, before the old one retires.\<close>

lemma rewire_same:
  "generations (rewireNamespaces cfg hints m) = generations m" "nextGenId (rewireNamespaces cfg hints m) = nextGenId m"
  "activeGenId (rewireNamespaces cfg hints m) = activeGenId m" "resumeOrders (rewireNamespaces cfg hints m) = resumeOrders m"
  by (simp_all add: rewireNamespaces_def Let_def)

lemma base_inv_cong:
  "base_inv m \<Longrightarrow> generations m' = generations m \<Longrightarrow> nextGenId m' = nextGenId m \<Longrightarrow> resumeOrders m' = resumeOrders m \<Longrightarrow>
   base_inv m'"
  by (simp add: base_inv_def older_stopped_def get_generation_def)

lemma act_inv_cong:
  "act_inv m \<Longrightarrow> generations m' = generations m \<Longrightarrow> nextGenId m' = nextGenId m \<Longrightarrow> activeGenId m' = activeGenId m \<Longrightarrow>
   act_inv m'"
  by (simp add: act_inv_def get_generation_def cong: option.case_cong)

lemma add_base:
  assumes "base_inv m" and "consistent g"
  shows "base_inv ((set_generation (nextGenId m) g m)\<lparr>nextGenId := nextGenId m + 1\<rparr>)" (is "base_inv ?m")
proof -
  have get: "get_generation ?m j = (if j = nextGenId m then Some g else get_generation m j)" for j
    using get_set_generation[of "nextGenId m" g m j] by (simp add: get_generation_def)
  have ids: "i < nextGenId m" if "get_generation m i = Some g'" for i g' using assms(1) that by (simp add: base_inv_def)
  have "older_stopped ?m a" if "a \<in> set (resumeOrders m)" for a
    using assms(1) that unfolding base_inv_def older_stopped_def get by auto
  moreover have "resumeOrders ?m = resumeOrders m" by (simp add: set_generation_def)
  ultimately show ?thesis
    using assms ids unfolding base_inv_def get by (auto split: if_splits intro: less_SucI)
qed

lemma add_act:
  assumes "act_inv m" and "get_generation ((set_generation (nextGenId m) g m)\<lparr>nextGenId := nextGenId m + 1\<rparr>) i = Some g'"
    and "g_state g' = GenActive"
  shows "activeGenId m = Some i \<or> i = nextGenId m"
proof -
  have "get_generation (set_generation (nextGenId m) g m) i = Some g'" using assms(2) by (simp add: get_generation_def)
  with assms show ?thesis by (auto simp: get_set_generation act_inv_def split: if_splits)
qed

text \<open>The manager once the new generation is in and the old one is retired.\<close>

definition switched :: "gm_config \<Rightarrow> manager \<Rightarrow> manager" where
  "switched cfg m =
     (retireOld ((set_generation (nextGenId m) (new_generation cfg) m)\<lparr>nextGenId := nextGenId m + 1\<rparr>))
       \<lparr>activeGenId := Some (nextGenId m)\<rparr>"

lemma new_generation_consistent: "consistent (new_generation cfg)"
  by (simp add: consistent_def new_generation_def new_executor_def)

lemma consumers_consistent: "consistent (startConsumers cfg (new_generation cfg))"
  using new_generation_consistent[of cfg] by (auto simp: startConsumers_def consistent_def)

lemma switched_base:
  assumes "base_inv m"
  shows "base_inv (switched cfg m)"
  using base_inv_cong[OF retireOld_base[OF add_base[OF assms new_generation_consistent]], of "switched cfg m" cfg]
  by (simp add: switched_def)

lemma switched_ids: "nextGenId (switched cfg m) = nextGenId m + 1" "activeGenId (switched cfg m) = Some (nextGenId m)"
  using retireOld_retires by (simp_all add: switched_def retires_def)

lemma switched_act:
  assumes "act_inv m"
  shows "act_inv (switched cfg m)"
proof -
  let ?m = "(set_generation (nextGenId m) (new_generation cfg) m)\<lparr>nextGenId := nextGenId m + 1\<rparr>"
  have n: "activeGenId ?m \<noteq> Some (nextGenId m)"
    using assms by (auto simp: act_inv_def set_generation_def split: option.splits)
  have "i = nextGenId m" if "get_generation (switched cfg m) i = Some g" "g_state g = GenActive" for i g
  proof (rule retireOld_act[of ?m "nextGenId m" i g])
    show "activeGenId ?m = Some j \<or> j = nextGenId m" if "get_generation ?m j = Some g'" "g_state g' = GenActive" for j g'
      using add_act[OF assms that] by (simp add: set_generation_def)
    show "get_generation (retireOld ?m) i = Some g" using that(1) by (simp add: switched_def get_generation_def)
  qed (use that n in simp_all)
  then show ?thesis by (simp add: act_inv_def switched_ids)
qed

lemma get_switched_old:
  assumes "generations m = []" and "i \<noteq> nextGenId m" and "activeGenId m = None"
  shows "get_generation (switched cfg m) i = None"
  using assms by (simp add: switched_def retireOld_def active_def get_generation_def set_generation_def obj_set_map_of)

lemma install_cases:
  "installGeneration cfg hints m =
     (let m1 = (if gc_script cfg then rewireNamespaces cfg hints m else m);
          m3 = switched cfg m1
      in if gc_script cfg then
           (let m4 = set_generation (nextGenId m) (startConsumers cfg (new_generation cfg)) m3
            in if activeGenId m = None then resumeWorkflows (nextGenId m, new_generation cfg) m4 else m4)
         else m3)"
  by (simp add: installGeneration_def switched_def Let_def rewire_same)

lemma set_base:
  assumes "base_inv m" and "consistent g" and "i < nextGenId m"
    and "\<And>a. a \<in> set (resumeOrders m) \<Longrightarrow> a < i"
  shows "base_inv (set_generation i g m)"
proof -
  have "older_stopped (set_generation i g m) a" if "a \<in> set (resumeOrders m)" for a
    using assms(1) assms(4)[OF that] that by (auto simp: base_inv_def older_stopped_def get_set_generation)
  moreover have "resumeOrders (set_generation i g m) = resumeOrders m" "nextGenId (set_generation i g m) = nextGenId m"
    by (simp_all add: set_generation_def)
  ultimately show ?thesis using assms by (auto simp: base_inv_def get_set_generation split: if_splits)
qed

text \<open>Retiring resumes at most in the generation that is still the active one.\<close>

lemma finish_orders: "set (resumeOrders (finishDrain i m)) \<subseteq> set (resumeOrders m) \<union> set_option (activeGenId m)"
  using stop_retires[of m i]
  by (auto simp: finishDrain_def Let_def resumeWorkflows_def active_def retires_def split: option.splits if_splits)

lemma retireOld_orders: "set (resumeOrders (retireOld m)) \<subseteq> set (resumeOrders m) \<union> set_option (activeGenId m)"
proof (cases "active m")
  case (Some a)
  then obtain i g where a: "a = (i, g)" "activeGenId m = Some i" by (auto simp: active_def split: option.splits)
  show ?thesis
    using finish_orders[of i "drainGeneration i m"] drain_retires[of m i] a Some
    by (auto simp: retireOld_def scheduleDrainAndStop_def retires_def split: option.splits if_splits)
qed (simp add: retireOld_def)

lemma switched_orders:
  assumes "base_inv m" and "act_inv m" and "a \<in> set (resumeOrders (switched cfg m))"
  shows "a < nextGenId m"
proof -
  let ?m = "(set_generation (nextGenId m) (new_generation cfg) m)\<lparr>nextGenId := nextGenId m + 1\<rparr>"
  have "a \<in> set (resumeOrders ?m) \<union> set_option (activeGenId ?m)"
    using assms(3) retireOld_orders[of ?m] by (auto simp: switched_def)
  then show ?thesis using assms(1,2) by (auto simp: set_generation_def base_inv_def act_inv_def split: option.splits)
qed


lemma install_inv:
  assumes "base_inv m" and "act_inv m"
  shows "base_inv (installGeneration cfg hints m) \<and> act_inv (installGeneration cfg hints m)"
proof -
  let ?m1 = "if gc_script cfg then rewireNamespaces cfg hints m else m"
  let ?i = "nextGenId m" and ?g = "startConsumers cfg (new_generation cfg)"
  let ?m3 = "switched cfg ?m1"
  let ?m4 = "set_generation ?i ?g ?m3"
  have i: "base_inv ?m1" "act_inv ?m1"
    using base_inv_cong[OF assms(1)] act_inv_cong[OF assms(2)] assms by (simp_all add: rewire_same)
  have n: "nextGenId ?m1 = ?i" by (simp add: rewire_same)
  note 3 = switched_base[OF i(1), of cfg] switched_act[OF i(2), of cfg] switched_ids[of cfg ?m1]
  have 4: "base_inv ?m4"
    by (rule set_base[OF 3(1) consumers_consistent]) (use 3 n switched_orders[OF i] in auto)
  have a4: "activeGenId ?m4 = Some ?i" "nextGenId ?m4 = ?i + 1" using 3 n by (simp_all add: set_generation_def)
  have act4: "act_inv ?m4"
    using 3(2) 3(4) n a4 by (auto simp: act_inv_def get_set_generation)
  have res: "base_inv (resumeWorkflows (?i, new_generation cfg) ?m4) \<and> act_inv (resumeWorkflows (?i, new_generation cfg) ?m4)"
    if "activeGenId m = None"
  proof
    have "generations m = []" using assms(2) that by (simp add: act_inv_def)
    then have "older_stopped ?m4 ?i"
      using get_switched_old[of ?m1 _ cfg] that n by (auto simp: older_stopped_def get_set_generation rewire_same)
    with 4 show "base_inv (resumeWorkflows (?i, new_generation cfg) ?m4)"
      by (rule_tac g = ?g in resume_base) (simp_all add: get_set_generation)
    show "act_inv (resumeWorkflows (?i, new_generation cfg) ?m4)"
      using act_inv_cong[OF act4] by (simp add: resumeWorkflows_def)
  qed
  show ?thesis using 3 4 act4 res by (simp add: install_cases Let_def split: if_split_asm if_split)
qed

lemma settle_gm_inv:
  "base_inv m \<Longrightarrow> base_inv (settle_with out m)" "act_inv m \<Longrightarrow> act_inv (settle_with out m)"
  using base_inv_cong[of m "settle_with out m"] act_inv_cong[of m "settle_with out m"] by (simp_all add: settle_with_def)

lemma reload_gm_inv:
  assumes "base_inv m" and "act_inv m"
  shows "base_inv (reload cfg cs m) \<and> act_inv (reload cfg cs m)"
proof -
  let ?m1 = "m\<lparr>reloading := Some \<lparr>rr_number = startedReloads m + 1, rr_callers = cs, rr_outcome = None\<rparr>,
                      startedReloads := startedReloads m + 1\<rparr>"
  have "base_inv ?m1" "act_inv ?m1" using base_inv_cong[OF assms(1)] act_inv_cong[OF assms(2)] by simp_all
  note 1 = this settle_gm_inv[of "installGeneration cfg (\<lambda>_. False) ?m1"] install_inv[OF this]
  have "base_inv (m\<lparr>pendingReload := p\<rparr>)" "act_inv (m\<lparr>pendingReload := p\<rparr>)" for p
    using base_inv_cong[OF assms(1)] act_inv_cong[OF assms(2)] by simp_all
  with 1 show ?thesis by (auto simp: reload_def Let_def split: option.split)
qed

lemma retires_keeps:
  assumes "base_inv m" and "act_inv m" and "retires m m'" and "resumeOrders m' = resumeOrders m"
    and "generations m = [] \<longrightarrow> generations m' = []"
  shows "base_inv m' \<and> act_inv m'"
  using retires_base[OF assms(1,3,4)] retires_act[OF assms(2,3,5)] by simp

lemma finish_nil: "generations m = [] \<Longrightarrow> finishDrain i m = m"
  by (simp add: finishDrain_def stopGeneration_def get_generation_def active_def split: option.split)

lemma gm_step_inv:
  assumes "base_inv m" and "act_inv m"
  shows "base_inv (gm_step cfg e m) \<and> act_inv (gm_step cfg e m)"
proof (cases e)
  case (ReloadCalled c)
  then show ?thesis using reload_gm_inv[OF assms] by simp
next
  case (WorkerReady hints)
  then show ?thesis using assms settle_gm_inv install_inv[OF assms] by simp
next
  case WorkerFailed
  then show ?thesis using assms settle_gm_inv by simp
next
  case ReloadEnds
  then show ?thesis
    using base_inv_cong[OF assms(1), of "reload_ends m"] act_inv_cong[OF assms(2), of "reload_ends m"]
    by (simp add: reload_ends_def split: option.split)
next
  case FollowUp
  have "base_inv (m\<lparr>followUps := rest\<rparr>)" "act_inv (m\<lparr>followUps := rest\<rparr>)" for rest
    using base_inv_cong[OF assms(1)] act_inv_cong[OF assms(2)] by simp_all
  then show ?thesis using FollowUp assms reload_gm_inv by (auto split: list.split)
next
  case (DrainEnds i)
  let ?m = "m\<lparr>drains := remove1 i (drains m)\<rparr>"
  have m: "base_inv ?m" "act_inv ?m" using base_inv_cong[OF assms(1)] act_inv_cong[OF assms(2)] by simp_all
  have "generations ?m = [] \<longrightarrow> generations (finishDrain i ?m) = []" using finish_nil[of ?m i] by simp
  then have "act_inv (finishDrain i ?m)" by (rule retires_act[OF m(2) finish_retires])
  with finish_base[OF m(1)] DrainEnds assms show ?thesis by simp
next
  case (RemovalDue i)
  have get: "get_generation (gm_step cfg e m) j = Some g \<Longrightarrow> get_generation m j = Some g" for j g
    using RemovalDue by (auto simp: get_generation_def map_of_obj_delete split: if_splits)
  have "retires m (gm_step cfg e m)" unfolding retires_def using get RemovalDue by auto
  from retires_keeps[OF assms this] RemovalDue show ?thesis by (simp add: obj_delete_def)
next
  case (DrainCommand i)
  have "generations m = [] \<longrightarrow> generations (drainGeneration i m) = []" by (simp add: drainGeneration_def get_generation_def)
  from retires_keeps[OF assms _ _ this] drain_retires[of m i] DrainCommand show ?thesis by simp
next
  case (StopCommand i)
  have "generations m = [] \<longrightarrow> generations (stopGeneration i m) = []" by (simp add: stopGeneration_def get_generation_def)
  from retires_keeps[OF assms _ _ this] stop_retires[of m i] StopCommand show ?thesis by simp
next
  case (WorkChanged i a b c d)
  show ?thesis
  proof (cases "get_generation m i")
    case (Some g)
    have "retires m (set_generation i (set_work a b c d g) m)"
      by (rule retires_set[OF Some]) (auto simp: set_work_def consistent_def)
    moreover have "generations m \<noteq> []" using Some by (auto simp: get_generation_def)
    ultimately have "base_inv (set_generation i (set_work a b c d g) m) \<and> act_inv (set_generation i (set_work a b c d g) m)"
      by (intro retires_keeps[OF assms]) (simp_all add: set_generation_def)
    with Some WorkChanged show ?thesis by simp
  qed (use assms WorkChanged in simp)
qed

interpretation manager: machine "\<lambda>m e. gm_step cfg e m" "\<lambda>m. base_inv m \<and> act_inv m" for cfg
  by unfold_locales (rule gm_step_inv; simp)

lemma gm_run_inv: "base_inv (gm_run cfg evs) \<and> act_inv (gm_run cfg evs)"
  unfolding gm_run_def
  by (rule manager.inv_run) (simp add: new_manager_def base_inv_def act_inv_def get_generation_def)

section \<open>What holds of every run\<close>

text \<open>The generations whose worker thread was told to resume workflows and still runs.\<close>

definition resumed_alive :: "manager \<Rightarrow> nat \<Rightarrow> bool" where
  "resumed_alive m a =
     (a \<in> set (resumeOrders m)
      \<and> (case Option.bind (get_generation m a) g_executor of None \<Rightarrow> False | Some ex \<Rightarrow> \<not> te_disposed ex))"

lemma resumed_alive_unique:
  assumes "base_inv m" and "resumed_alive m a" and "resumed_alive m b"
  shows "a \<le> b"
proof (rule ccontr)
  assume "\<not> a \<le> b"
  then have ba: "b < a" by simp
  have running: "\<exists>g. get_generation m x = Some g \<and> g_state g \<noteq> GenStopped" if "resumed_alive m x" for x
    using that assms(1) by (fastforce simp: resumed_alive_def base_inv_def consistent_def bind_eq_Some_conv split: option.splits)
  have "older_stopped m a" using assms(1,2) by (simp add: base_inv_def resumed_alive_def)
  with running[OF assms(2)] running[OF assms(3)] ba show False by (auto simp: older_stopped_def)
qed

text \<open>
  C23. Workflows never run twice: after any sequence of reloads, timers, stops and drains, at most
  one worker thread that is still running has been told to resume the interrupted workflows.
\<close>

theorem one_worker_resumes:
  "card {a. resumed_alive (gm_run cfg evs) a} \<le> 1"
proof -
  have "a = b" if "resumed_alive (gm_run cfg evs) a" "resumed_alive (gm_run cfg evs) b" for a b
    using resumed_alive_unique[OF conjunct1[OF gm_run_inv]] that le_antisym by blast
  then have one: "{b. resumed_alive (gm_run cfg evs) b} \<subseteq> {a}" if "resumed_alive (gm_run cfg evs) a" for a
    using that by blast
  show ?thesis
  proof (cases "\<exists>a. resumed_alive (gm_run cfg evs) a")
    case True
    then obtain a where "resumed_alive (gm_run cfg evs) a" by blast
    from card_mono[OF _ one[OF this]] show ?thesis by simp
  qed simp
qed

text \<open>Nothing but the generation the manager serves from is active.\<close>

lemma one_active_generation:
  "{i. map_option g_state (get_generation (gm_run cfg evs) i) = Some GenActive} \<subseteq> set_option (activeGenId (gm_run cfg evs))"
  using gm_run_inv[of cfg evs] by (auto simp: act_inv_def)

text \<open>A worker that fails to load changes nothing of what serves the requests.\<close>

lemma failed_reload_keeps_serving:
  "generations (gm_step cfg WorkerFailed m) = generations m \<and> activeGenId (gm_step cfg WorkerFailed m) = activeGenId m
   \<and> doNamespaces (gm_step cfg WorkerFailed m) = doNamespaces m"
  by (simp add: settle_with_def)

text \<open>
  The end of a drain looks for the active generation while the old one still is it: a reload over
  an idle generation stops that one at once, and the new generation is never told to resume.
\<close>

definition workflow_config :: gm_config where
  "workflow_config =
     \<lparr>gc_script = True, gc_cronEnabled = False, gc_crons = [], gc_classes = [''Room''], gc_workflows = [''Flow'']\<rparr>"

definition two_reloads :: "gm_event list \<Rightarrow> gm_event list" where
  "two_reloads between =
     [ReloadCalled 1, WorkerReady (\<lambda>_. False), ReloadEnds] @ between @ [ReloadCalled 2, WorkerReady (\<lambda>_. False), ReloadEnds]"

lemmas gm_eval = two_reloads_def workflow_config_def gm_run_def new_manager_def reload_def reload_waits_def reload_ends_def
  settle_with_def installGeneration_def rewireNamespaces_def new_generation_def new_executor_def startConsumers_def
  retireOld_def active_def get_generation_def set_generation_def scheduleDrainAndStop_def drainGeneration_def finishDrain_def
  stopGeneration_def resumeWorkflows_def isIdle_def gen_drain_def gen_stop_def shared_classes_def nullish_def obj_set_def
  set_work_def Let_def

lemma idle_reload_skips_resume:
  "let m = gm_run workflow_config (two_reloads [])
   in resumeOrders m = [1] \<and> map (\<lambda>(i, g). (i, g_state g)) (generations m) = [(1, GenStopped), (2, GenActive)]
      \<and> drains m = [] \<and> activeGenId m = Some 2"
  by (simp add: gm_eval)

lemma busy_reload_resumes:
  "resumeOrders (gm_run workflow_config (two_reloads [WorkChanged 1 1 0 0 0] @ [DrainEnds 1])) = [1, 2]"
  by (simp add: gm_eval)

text \<open>
  A generation drained from the dashboard is no longer active when the next reload comes, so
  nothing stops it: its worker stays and no later generation resumes workflows.
\<close>

lemma drained_generation_stays:
  "let m = gm_run workflow_config (two_reloads [DrainCommand 1])
   in map (\<lambda>(i, g). (i, g_state g, map_option te_disposed (g_executor g))) (generations m)
        = [(1, GenDraining, Some False), (2, GenActive, Some False)]
      \<and> drains m = [] \<and> removals m = []"
  by (simp add: gm_eval)

section \<open>What serves a request\<close>

text \<open>A write, or the start of a WebSocket, reaches the worker whatever the assets hold.\<close>

lemma write_reaches_worker:
  assumes "\<not> canServeAssets rq"
  shows "dispatchFetch (Some run) assets cfg upgrades path rq = worker_result upgrades (run rq)"
  using assms by (auto simp: dispatchFetch_def worker_result_def split: option.split)

text \<open>The assets answer a request the worker does not know, and before the worker where it is not first.\<close>

lemma assets_answer_reads:
  assumes "canServeAssets rq" and "serve rq = Some a" and "rs_status a \<noteq> 404"
    and "shouldRunWorkerFirst cfg path \<longrightarrow> (\<exists>w. run rq = Some w \<and> rs_status (wr_response w) = 404)"
  shows "dispatchFetch (Some run) (Some serve) cfg upgrades path rq = Reply a"
  using assms by (auto simp: dispatchFetch_def assets_result_def)

end
