(* ===== verification/Keyset.thy ===== *)
theory Keyset
  imports Contracts
begin

text \<open>
  Listings by keyset: a page holds the rows below the cursor, from the greatest key down, and its
  cursor is made from its last row. \<open>keyset_page\<close> is the query; the locale \<open>keyset\<close> is what a
  listing with such a query promises to a client that follows the cursors.
\<close>

definition keyset_page :: "('r \<Rightarrow> 'k::linorder) \<Rightarrow> ('k \<Rightarrow> bool) \<Rightarrow> nat \<Rightarrow> 'r list \<Rightarrow> 'r list \<times> bool" where
  "keyset_page key below limit rows =
     (let found = take (limit + 1) (rev (sort_key key (filter (\<lambda>r. below (key r)) rows)))
      in (if limit < length found then take limit found else found, limit < length found))"

lemma keyset_page_all:
  "keyset_page key below limit rows =
     (let found = rev (sort_key key (filter (\<lambda>r. below (key r)) rows)) in (take limit found, limit < length found))"
  by (auto simp: keyset_page_def Let_def min_def)

text \<open>The rows in a descending order with distinct keys, below one of them, are those after it.\<close>

lemma descending_below:
  fixes key :: "'r \<Rightarrow> 'k::linorder"
  assumes "sorted (rev (map key xs))" and "List.distinct (map key xs)" and "n < length xs"
  shows "filter (\<lambda>r. key r < key (xs ! n)) xs = drop (Suc n) xs"
proof -
  have desc: "key (xs ! j) < key (xs ! i)" if "i < j" "j < length xs" for i j
  proof -
    have "key (xs ! j) \<le> key (xs ! i)" using sorted_rev_nth_mono[OF assms(1), of i j] that by simp
    moreover have "key (xs ! i) \<noteq> key (xs ! j)"
      using assms(2) that by (auto simp: distinct_conv_nth)
    ultimately show ?thesis by simp
  qed
  have split: "xs = take (Suc n) xs @ drop (Suc n) xs" by simp
  have "filter (\<lambda>r. key r < key (xs ! n)) (take (Suc n) xs) = []"
  proof -
    have "\<not> key r < key (xs ! n)" if "r \<in> set (take (Suc n) xs)" for r
    proof -
      from that obtain i where "i < Suc n" "r = xs ! i" using assms(3) by (auto simp: in_set_conv_nth)
      then show ?thesis using desc[of i n] assms(3) by (cases "i = n") auto
    qed
    then show ?thesis by (simp add: filter_empty_conv)
  qed
  moreover have "filter (\<lambda>r. key r < key (xs ! n)) (drop (Suc n) xs) = drop (Suc n) xs"
  proof (rule filter_True, rule ballI)
    fix r assume "r \<in> set (drop (Suc n) xs)"
    then obtain i where "i < length xs - Suc n" "r = xs ! (Suc n + i)" by (auto simp: in_set_conv_nth)
    then show "key r < key (xs ! n)" using desc[of n "Suc n + i"] by simp
  qed
  ultimately show ?thesis by (metis append_Nil filter_append split)
qed

lemma rev_sort_key_filter:
  "rev (sort_key key (filter P rows)) = filter P (rev (sort_key key rows))"
  by (metis filter_sort rev_filter)

text \<open>A client that reads pages until there is no further cursor, at most \<open>fuel\<close> of them.\<close>

fun follow_pages :: "nat \<Rightarrow> (string option \<Rightarrow> 'r list \<times> string option) \<Rightarrow> string option \<Rightarrow> 'r list option" where
  "follow_pages 0 page c = None"
| "follow_pages (Suc fuel) page c =
     (case page c of
        (items, None) \<Rightarrow> Some items
      | (items, Some c') \<Rightarrow> map_option (\<lambda>rest. items @ rest) (follow_pages fuel page (Some c')))"

locale keyset =
  fixes key :: "'r \<Rightarrow> 'k::linorder"
    and rows :: "'s \<Rightarrow> 'r list"
    and ok :: "'s \<Rightarrow> bool"
    and below :: "string option \<Rightarrow> 'k \<Rightarrow> bool"
    and cursor_of :: "'r \<Rightarrow> string"
    and listing :: "nat \<Rightarrow> string option \<Rightarrow> 's \<Rightarrow> 'r list \<times> string option"
  assumes listing: "ok s \<Longrightarrow> listing limit c s =
      (let (items, more) = keyset_page key (below c) limit (rows s)
       in (items, if more \<and> items \<noteq> [] then Some (cursor_of (last items)) else None))"
    and keys_distinct: "ok s \<Longrightarrow> List.distinct (map key (rows s))"
    and below_first: "ok s \<Longrightarrow> r \<in> set (rows s) \<Longrightarrow> below None (key r)"
    and below_cursor: "below (Some (cursor_of r)) k \<longleftrightarrow> k < key r"
begin

definition ordered_rows :: "'s \<Rightarrow> 'r list" where
  "ordered_rows s = rev (sort_key key (rows s))"

lemma ordered_rows_props:
  assumes "ok s"
  shows "sorted (rev (map key (ordered_rows s)))" "List.distinct (map key (ordered_rows s))"
proof -
  have "rev (map key (ordered_rows s)) = map key (sort_key key (rows s))" by (simp add: ordered_rows_def rev_map)
  then show "sorted (rev (map key (ordered_rows s)))" by simp
  have "mset (map key (ordered_rows s)) = mset (map key (rows s))" by (simp add: ordered_rows_def)
  then show "List.distinct (map key (ordered_rows s))"
    using keys_distinct[OF assms] mset_eq_imp_distinct_iff by blast
qed

lemma listing_ordered:
  assumes "ok s"
  shows "listing limit c s =
     (let found = filter (\<lambda>r. below c (key r)) (ordered_rows s)
      in (take limit found, if limit < length found \<and> take limit found \<noteq> [] then Some (cursor_of (last (take limit found))) else None))"
  by (simp add: listing[OF assms] keyset_page_all rev_sort_key_filter ordered_rows_def Let_def)

lemma after_cursor:
  assumes "ok s" and "filter (\<lambda>r. below c (key r)) (ordered_rows s) = drop n (ordered_rows s)"
    and "0 < limit" and "n + limit < length (ordered_rows s)"
  shows "filter (\<lambda>r. below (Some (cursor_of (last (take limit (drop n (ordered_rows s)))))) (key r)) (ordered_rows s)
    = drop (n + limit) (ordered_rows s)"
proof -
  have "last (take limit (drop n (ordered_rows s))) = ordered_rows s ! (n + limit - 1)"
    using assms(3,4) by (simp add: last_conv_nth take_Suc_conv_app_nth)
  then show ?thesis
    using descending_below[OF ordered_rows_props[OF assms(1)], of "n + limit - 1"] assms(3,4)
    by (simp add: below_cursor)
qed

lemma pages_from:
  assumes "ok s" and "0 < limit" and "filter (\<lambda>r. below c (key r)) (ordered_rows s) = drop n (ordered_rows s)"
    and "length (drop n (ordered_rows s)) < fuel"
  shows "follow_pages fuel (\<lambda>c. listing limit c s) c = Some (drop n (ordered_rows s))"
  using assms(3,4)
proof (induction fuel arbitrary: c n)
  case (Suc fuel)
  let ?xs = "drop n (ordered_rows s)"
  show ?case
  proof (cases "limit < length ?xs")
    case False
    then have "listing limit c s = (?xs, None)" unfolding listing_ordered[OF assms(1)] Let_def Suc.prems(1) by simp
    then show ?thesis by simp
  next
    case True
    let ?c = "Some (cursor_of (last (take limit ?xs)))"
    from True have "n + limit < length (ordered_rows s)" by simp
    from after_cursor[OF assms(1) Suc.prems(1) assms(2) this]
    have "filter (\<lambda>r. below ?c (key r)) (ordered_rows s) = drop (n + limit) (ordered_rows s)" .
    moreover have "length (drop (n + limit) (ordered_rows s)) < fuel" using Suc.prems(2) assms(2) True by simp
    ultimately have "follow_pages fuel (\<lambda>c. listing limit c s) ?c = Some (drop (n + limit) (ordered_rows s))" by (rule Suc.IH)
    moreover have "listing limit c s = (take limit ?xs, ?c)"
      using True assms(2) unfolding listing_ordered[OF assms(1)] Let_def Suc.prems(1) by auto
    moreover have "take limit ?xs @ drop (n + limit) (ordered_rows s) = ?xs"
      by (metis add.commute append_take_drop_id drop_drop)
    ultimately show ?thesis by simp
  qed
qed simp

lemma pages_complete:
  assumes "ok s" and "0 < limit" and "length (rows s) < fuel"
  shows "follow_pages fuel (\<lambda>c. listing limit c s) None = Some (rev (sort_key key (rows s)))"
proof -
  have "filter (\<lambda>r. below None (key r)) (ordered_rows s) = drop 0 (ordered_rows s)"
    using below_first[OF assms(1)] by (auto simp: ordered_rows_def intro!: filter_True)
  from pages_from[OF assms(1,2) this, of fuel] assms(3) show ?thesis by (simp add: ordered_rows_def)
qed

end

end
