(* ===== verification/Tracing.thy ===== *)
theory Tracing
  imports Keyset Json "HOL-Library.Product_Lexorder"
begin

text \<open>
  The traces of the requests, \<^verbatim>\<open>src/tracing/store.ts\<close>, \<^verbatim>\<open>src/tracing/span.ts\<close> and the handlers
  of \<^verbatim>\<open>src/api/handlers/traces.ts\<close>: spans with their events, the errors, their limits, the listings and
  the spans a running callback opens and ends. A column with JSON text is the value the text is
  read as. \<open>\uffff\<close>, above every id, is the id \<open>None\<close> of a cursor.
\<close>

section \<open>Rows\<close>

datatype span_kind = KServer | KInternal | KClient

datatype span_status = StatusOk | StatusError | StatusUnset

record span_data =
  spanId :: string
  span_traceId :: string
  parentSpanId :: "string option"
  span_name :: string
  span_kind :: span_kind
  span_status :: span_status
  statusMessage :: "string option"
  span_startTime :: int
  endTime :: "int option"
  durationMs :: "int option"
  span_attributes :: json
  span_workerName :: "string option"

record event_data =
  ev_id :: nat
  ev_spanId :: string
  ev_traceId :: string
  ev_timestamp :: int
  ev_name :: string
  ev_level :: "string option"
  ev_message :: "string option"
  ev_attributes :: json

record error_row =
  er_id :: string
  er_timestamp :: int
  er_errorName :: string
  er_errorMessage :: string
  er_requestMethod :: "string option"
  er_requestUrl :: "string option"
  er_workerName :: "string option"
  er_traceId :: "string option"
  er_spanId :: "string option"
  er_source :: "string option"
  er_data :: string

datatype trace_event = SpanStarted span_data | SpanEnded span_data | EventAdded event_data

datatype trace_error = UniqueViolation | BadInput string

record trace_store =
  spans :: "span_data list"
  events :: "event_data list"
  lastEventId :: nat
  errors :: "error_row list"
  ts_listeners :: "nat list"
  delivered :: "(nat \<times> trace_event) list"
  startTimeCache :: "(string \<times> int) list"
  rootSpanCount :: int

definition TRACE_CAP :: int where "TRACE_CAP = 10000"
definition PRUNE_BATCH :: nat where "PRUNE_BATCH = 100"
definition STALE_SPAN_TTL_MS :: int where "STALE_SPAN_TTL_MS = 10 * 60 * 1000"

definition is_root :: "span_data \<Rightarrow> bool" where "is_root r = (parentSpanId r = None)"

text \<open>The constructor, over the tables of the database.\<close>

definition open_store :: "span_data list \<Rightarrow> event_data list \<Rightarrow> nat \<Rightarrow> error_row list \<Rightarrow> trace_store" where
  "open_store sp evs lastId errs =
     \<lparr>spans = sql_update (\<lambda>r. endTime r = None)
        (\<lambda>r. r\<lparr>endTime := Some (span_startTime r), durationMs := Some 0, span_status := StatusError,
              statusMessage := Some ''Server shutdown (unfinished span)''\<rparr>) sp,
      events = evs, lastEventId = lastId, errors = errs, ts_listeners = [], delivered = [], startTimeCache = [],
      rootSpanCount = int (length (sql_select is_root sp))\<rparr>"

definition broadcast :: "trace_event \<Rightarrow> trace_store \<Rightarrow> trace_store" where
  "broadcast ev st = st\<lparr>delivered := delivered st @ map (\<lambda>l. (l, ev)) (ts_listeners st)\<rparr>"

definition subscribe :: "nat \<Rightarrow> trace_store \<Rightarrow> trace_store" where
  "subscribe l st = (if l \<in> set (ts_listeners st) then st else st\<lparr>ts_listeners := ts_listeners st @ [l]\<rparr>)"

definition unsubscribe :: "nat \<Rightarrow> trace_store \<Rightarrow> trace_store" where
  "unsubscribe l st = st\<lparr>ts_listeners := filter (\<lambda>x. x \<noteq> l) (ts_listeners st)\<rparr>"

section \<open>Spans\<close>

definition oldest_traces :: "trace_store \<Rightarrow> string list" where
  "oldest_traces st = map span_traceId (sql_select_ordered is_root span_startTime PRUNE_BATCH (spans st))"

definition enforceTraceCap :: "trace_store \<Rightarrow> trace_store" where
  "enforceTraceCap st =
     (if rootSpanCount st \<le> TRACE_CAP then st
      else (let ids = oldest_traces st
            in if ids = [] then st
               else st\<lparr>events := sql_delete (\<lambda>e. ev_traceId e \<in> set ids) (events st),
                       spans := sql_delete (\<lambda>r. span_traceId r \<in> set ids) (spans st),
                       rootSpanCount := rootSpanCount st - int (length ids)\<rparr>))"

definition insertSpan :: "span_data \<Rightarrow> trace_store \<Rightarrow> (trace_error, unit) res \<times> trace_store" where
  "insertSpan span st =
     (let st1 = st\<lparr>startTimeCache := obj_set (startTimeCache st) (spanId span) (span_startTime span)\<rparr>
      in if spanId span \<in> spanId ` set (spans st) then (Inl UniqueViolation, st1)
         else (let st2 = broadcast (SpanStarted span) (st1\<lparr>spans := sql_insert span (spans st1)\<rparr>)
               in (Inr (),
                   if parentSpanId span = None \<or> parentSpanId span = Some ''''
                   then enforceTraceCap (st2\<lparr>rootSpanCount := rootSpanCount st2 + 1\<rparr>) else st2)))"

definition update_span :: "string \<Rightarrow> (span_data \<Rightarrow> span_data) \<Rightarrow> trace_store \<Rightarrow> trace_store" where
  "update_span i f st = st\<lparr>spans := sql_update (\<lambda>r. spanId r = i) f (spans st)\<rparr>"

definition get_span :: "string \<Rightarrow> trace_store \<Rightarrow> span_data option" where
  "get_span i st = sql_get (\<lambda>r. spanId r = i) (spans st)"

definition endSpan :: "string \<Rightarrow> int \<Rightarrow> span_status \<Rightarrow> string option \<Rightarrow> trace_store \<Rightarrow> trace_store" where
  "endSpan i now status message st =
     (case map_of (startTimeCache st) i of
        None \<Rightarrow> st
      | Some start \<Rightarrow>
          (let st1 = update_span i (\<lambda>r. r\<lparr>endTime := Some now, durationMs := Some (now - start), span_status := status,
                                          statusMessage := message\<rparr>) st;
               st2 = st1\<lparr>startTimeCache := obj_delete i (startTimeCache st1)\<rparr>
           in case get_span i st2 of None \<Rightarrow> st2 | Some span \<Rightarrow> broadcast (SpanEnded span) st2))"

definition getSpanStatus :: "string \<Rightarrow> trace_store \<Rightarrow> span_status option" where
  "getSpanStatus i st = map_option span_status (get_span i st)"

definition store_setSpanStatus :: "string \<Rightarrow> span_status \<Rightarrow> string option \<Rightarrow> trace_store \<Rightarrow> trace_store" where
  "store_setSpanStatus i status message st =
     update_span i (\<lambda>r. r\<lparr>span_status := status, statusMessage := message\<rparr>) st"

text \<open>\<open>json_patch\<close>, the merge patch of RFC 7396.\<close>

fun json_patch :: "json \<Rightarrow> json \<Rightarrow> json"
  and patch_fields :: "(string \<times> json) list \<Rightarrow> (string \<times> json) list \<Rightarrow> (string \<times> json) list" where
  "json_patch target (JObj kvs) = JObj (patch_fields (case target of JObj fs \<Rightarrow> fs | _ \<Rightarrow> []) kvs)"
| "json_patch target patch = patch"
| "patch_fields fs [] = fs"
| "patch_fields fs ((k, v) # kvs) =
     patch_fields (if v = JNull then obj_delete k fs else obj_set fs k (json_patch (nullish (map_of fs k) JNull) v)) kvs"

definition updateAttributes :: "string \<Rightarrow> json \<Rightarrow> trace_store \<Rightarrow> trace_store" where
  "updateAttributes i attrs st = update_span i (\<lambda>r. r\<lparr>span_attributes := json_patch (span_attributes r) attrs\<rparr>) st"

text \<open>\<open>addEvent\<close>: the id of the given event is replaced by that of its row.\<close>

definition addEvent :: "event_data \<Rightarrow> trace_store \<Rightarrow> trace_store" where
  "addEvent ev st =
     (let ev' = ev\<lparr>ev_id := lastEventId st + 1\<rparr>
      in broadcast (EventAdded ev') (st\<lparr>events := sql_insert ev' (events st), lastEventId := lastEventId st + 1\<rparr>))"

definition evictStaleSpans :: "int \<Rightarrow> trace_store \<Rightarrow> trace_store" where
  "evictStaleSpans now st =
     st\<lparr>startTimeCache := filter (\<lambda>(i, start). \<not> start < now - STALE_SPAN_TTL_MS) (startTimeCache st)\<rparr>"

definition close_store :: "int \<Rightarrow> trace_store \<Rightarrow> trace_store" where
  "close_store now st =
     (foldl (\<lambda>st i. endSpan i now StatusError (Some ''Server shutdown'') st) st (map fst (startTimeCache st)))\<lparr>startTimeCache := []\<rparr>"

definition clearTraces :: "trace_store \<Rightarrow> trace_store" where
  "clearTraces st = st\<lparr>events := [], spans := [], rootSpanCount := 0, startTimeCache := []\<rparr>"

section \<open>Errors\<close>

definition enforceErrorCap :: "trace_store \<Rightarrow> trace_store" where
  "enforceErrorCap st =
     (if length (errors st) \<le> 1000 then st
      else (let ids = map er_id (sql_select_ordered (\<lambda>_. True) er_timestamp 50 (errors st))
            in st\<lparr>errors := sql_delete (\<lambda>r. er_id r \<in> set ids) (errors st)\<rparr>))"

definition insertError :: "error_row \<Rightarrow> trace_store \<Rightarrow> (trace_error, unit) res \<times> trace_store" where
  "insertError r st =
     (if er_id r \<in> er_id ` set (errors st) then (Inl UniqueViolation, st)
      else (Inr (), enforceErrorCap (st\<lparr>errors := sql_insert r (errors st)\<rparr>)))"

definition getError :: "string \<Rightarrow> trace_store \<Rightarrow> (error_row \<times> json option) option" where
  "getError i st = map_option (\<lambda>r. (r, json_parse (er_data r))) (sql_get (\<lambda>r. er_id r = i) (errors st))"

definition getErrorsForTrace :: "string \<Rightarrow> trace_store \<Rightarrow> error_row list" where
  "getErrorsForTrace t st = sort_key er_timestamp (sql_select (\<lambda>r. er_traceId r = Some t) (errors st))"

definition deleteError :: "string \<Rightarrow> trace_store \<Rightarrow> trace_store" where
  "deleteError i st = st\<lparr>errors := sql_delete (\<lambda>r. er_id r = i) (errors st)\<rparr>"

definition clearErrors :: "trace_store \<Rightarrow> trace_store" where
  "clearErrors st = st\<lparr>errors := []\<rparr>"

definition getErrorCount :: "trace_store \<Rightarrow> nat" where
  "getErrorCount st = length (errors st)"

section \<open>Listings\<close>

text \<open>A cursor is a time and an id; a time that is no number matches nothing.\<close>

definition MAX_SAFE_INTEGER :: int where "MAX_SAFE_INTEGER = 9007199254740991"

definition buildCursor :: "int \<Rightarrow> string \<Rightarrow> string" where
  "buildCursor time i = show_int time @ '':'' @ i"

definition parseCursor :: "string option \<Rightarrow> int option \<times> string option" where
  "parseCursor cursor =
     (if nullish cursor '''' = '''' then (Some MAX_SAFE_INTEGER, None)
      else (case char_index (CHR '':'') (nullish cursor '''') of
              None \<Rightarrow> (parse_int (nullish cursor ''''), None)
            | Some sep \<Rightarrow> (parse_int (take sep (nullish cursor '''')), Some (drop (sep + 1) (nullish cursor '''')))))"

definition before_cursor :: "string option \<Rightarrow> int \<times> nat list \<Rightarrow> bool" where
  "before_cursor cursor k =
     (case parseCursor cursor of
        (None, _) \<Rightarrow> False
      | (Some t, i) \<Rightarrow> fst k < t \<or> fst k = t \<and> (case i of None \<Rightarrow> True | Some i \<Rightarrow> snd k < code_units i))"

definition with_cursor :: "('r \<Rightarrow> string) \<Rightarrow> 'r list \<times> bool \<Rightarrow> 'r list \<times> string option" where
  "with_cursor cursor_of page =
     (fst page, if snd page \<and> fst page \<noteq> [] then Some (cursor_of (last (fst page))) else None)"

definition span_key :: "span_data \<Rightarrow> int \<times> nat list" where
  "span_key r = (span_startTime r, code_units (spanId r))"

definition span_cursor :: "span_data \<Rightarrow> string" where
  "span_cursor r = buildCursor (span_startTime r) (spanId r)"

definition listAllSpans :: "nat \<Rightarrow> string option \<Rightarrow> trace_store \<Rightarrow> span_data list \<times> string option" where
  "listAllSpans limit cursor st = with_cursor span_cursor (keyset_page span_key (before_cursor cursor) limit (spans st))"

definition error_key :: "error_row \<Rightarrow> int \<times> nat list" where
  "error_key r = (er_timestamp r, code_units (er_id r))"

definition error_cursor :: "error_row \<Rightarrow> string" where
  "error_cursor r = buildCursor (er_timestamp r) (er_id r)"

definition listErrors :: "nat \<Rightarrow> string option \<Rightarrow> trace_store \<Rightarrow> error_row list \<times> string option" where
  "listErrors limit cursor st = with_cursor error_cursor (keyset_page error_key (before_cursor cursor) limit (errors st))"

definition before_log :: "string option \<Rightarrow> nat \<Rightarrow> bool" where
  "before_log cursor i =
     (case (if nullish cursor '''' = '''' then Some MAX_SAFE_INTEGER else parse_int (nullish cursor '''')) of
        None \<Rightarrow> False
      | Some n \<Rightarrow> int i < n)"

definition log_cursor :: "event_data \<Rightarrow> string" where
  "log_cursor e = show_int (int (ev_id e))"

definition listAllLogs :: "nat \<Rightarrow> string option \<Rightarrow> trace_store \<Rightarrow> event_data list \<times> string option" where
  "listAllLogs limit cursor st = with_cursor log_cursor (keyset_page ev_id (before_log cursor) limit (events st))"

section \<open>Summaries of traces\<close>

record trace_summary =
  tr_traceId :: string
  tr_rootSpanName :: string
  tr_workerName :: "string option"
  tr_status :: span_status
  tr_statusMessage :: "string option"
  tr_startTime :: int
  tr_durationMs :: "int option"
  tr_spanCount :: nat
  tr_errorCount :: nat
  tr_generationId :: json

text \<open>\<open>json_extract\<close> of a field: booleans are numbers and objects are their text.\<close>

definition json_extract :: "string \<Rightarrow> json \<Rightarrow> json" where
  "json_extract k j =
     (case j of
        JObj fs \<Rightarrow>
          (case nullish (map_of fs k) JNull of
             JBool b \<Rightarrow> JNum (if b then 1 else 0)
           | JObj x \<Rightarrow> JStr (stringify (JObj x))
           | JArr x \<Rightarrow> JStr (stringify (JArr x))
           | v \<Rightarrow> v)
      | _ \<Rightarrow> JNull)"

definition summary_of :: "nat \<Rightarrow> nat \<Rightarrow> span_data \<Rightarrow> trace_summary" where
  "summary_of n errs r =
     \<lparr>tr_traceId = span_traceId r, tr_rootSpanName = span_name r, tr_workerName = span_workerName r, tr_status = span_status r,
      tr_statusMessage = (if nullish (statusMessage r) '''' = '''' then None else map_option (take 80) (statusMessage r)),
      tr_startTime = span_startTime r, tr_durationMs = durationMs r, tr_spanCount = n, tr_errorCount = errs,
      tr_generationId = json_extract ''lopata.generation_id'' (span_attributes r)\<rparr>"

definition spans_of_trace :: "string \<Rightarrow> trace_store \<Rightarrow> span_data list" where
  "spans_of_trace t st = sql_select (\<lambda>r. span_traceId r = t) (spans st)"

definition errors_of_trace :: "string \<Rightarrow> trace_store \<Rightarrow> span_data list" where
  "errors_of_trace t st = sql_select (\<lambda>r. span_traceId r = t \<and> span_status r = StatusError) (spans st)"

text \<open>
  The join of the roots with the spans of their traces, grouped by trace. The columns of a group
  with several roots are those of the first; its spans count once for each root.
\<close>

definition grouped :: "(span_data \<Rightarrow> bool) \<Rightarrow> trace_store \<Rightarrow> trace_summary list" where
  "grouped P st =
     (let roots = sql_select (\<lambda>r. is_root r \<and> P r) (spans st)
      in map (\<lambda>t. let group = filter (\<lambda>r. span_traceId r = t) roots
                  in summary_of (length group * length (spans_of_trace t st)) (length group * length (errors_of_trace t st)) (hd group))
             (remdups (map span_traceId roots)))"

definition trace_key :: "trace_summary \<Rightarrow> int \<times> nat list" where
  "trace_key t = (tr_startTime t, code_units (tr_traceId t))"

definition trace_cursor :: "trace_summary \<Rightarrow> string" where
  "trace_cursor t = buildCursor (tr_startTime t) (tr_traceId t)"

text \<open>\<open>listTraces\<close>: the cursor restricts the roots before they are grouped.\<close>

definition listTraces :: "nat \<Rightarrow> string option \<Rightarrow> trace_store \<Rightarrow> trace_summary list \<times> string option" where
  "listTraces limit cursor st =
     with_cursor trace_cursor
       (keyset_page trace_key (\<lambda>_. True) limit
          (grouped (\<lambda>r. before_cursor cursor (span_startTime r, code_units (span_traceId r))) st))"

record trace_filter =
  tf_path :: "string option"
  tf_status :: "string option"

definition status_name :: "span_status \<Rightarrow> string" where
  "status_name s = (case s of StatusOk \<Rightarrow> ''ok'' | StatusError \<Rightarrow> ''error'' | StatusUnset \<Rightarrow> ''unset'')"

definition recent_root :: "(string \<Rightarrow> string \<Rightarrow> bool) \<Rightarrow> int \<Rightarrow> trace_filter \<Rightarrow> span_data \<Rightarrow> bool" where
  "recent_root glob since flt r =
     (since \<le> span_startTime r
      \<and> (let s = nullish (tf_status flt) '''' in s = '''' \<or> s = ''all'' \<or> status_name (span_status r) = s)
      \<and> (let p = nullish (tf_path flt) '''' in p = '''' \<or> glob p (span_name r)))"

text \<open>\<open>getRecentTraces\<close>; \<open>glob\<close> is the \<open>GLOB\<close> of the database.\<close>

definition getRecentTraces ::
    "(string \<Rightarrow> string \<Rightarrow> bool) \<Rightarrow> int \<Rightarrow> nat \<Rightarrow> trace_filter \<Rightarrow> trace_store \<Rightarrow> trace_summary list" where
  "getRecentTraces glob since limit flt st =
     sql_select_ordered (\<lambda>_. True) (\<lambda>t. - tr_startTime t) limit (grouped (recent_root glob since flt) st)"

definition like_text :: "string \<Rightarrow> string option \<Rightarrow> bool" where
  "like_text pat t = (case t of None \<Rightarrow> False | Some t \<Rightarrow> sql_like None pat t)"

definition search_matches :: "string \<Rightarrow> trace_store \<Rightarrow> span_data \<Rightarrow> bool" where
  "search_matches pat st r =
     (like_text pat (Some (span_name r)) \<or> like_text pat (Some (stringify (span_attributes r))) \<or> like_text pat (statusMessage r)
      \<or> list_ex (\<lambda>e. ev_traceId e = span_traceId r \<and> like_text pat (ev_message e)) (events st))"

text \<open>\<open>DISTINCT\<close> compares the selected columns only.\<close>

definition selected_columns :: "span_data \<Rightarrow> span_data" where
  "selected_columns r =
     r\<lparr>spanId := [], span_kind := KInternal, endTime := None,
       span_attributes := JObj [(''lopata.generation_id'', json_extract ''lopata.generation_id'' (span_attributes r))]\<rparr>"

definition searchTraces :: "string \<Rightarrow> nat \<Rightarrow> trace_store \<Rightarrow> trace_summary list" where
  "searchTraces query limit st =
     (let pat = ''%'' @ query @ ''%'';
          found = remdups (map selected_columns (sql_select (\<lambda>r. is_root r \<and> search_matches pat st r) (spans st)))
      in map (\<lambda>r. summary_of (length (spans_of_trace (span_traceId r) st)) (length (errors_of_trace (span_traceId r) st)) r)
           (sql_select_ordered (\<lambda>_. True) (\<lambda>r. - span_startTime r) limit found))"

definition getTrace :: "string \<Rightarrow> trace_store \<Rightarrow> span_data list \<times> event_data list" where
  "getTrace t st =
     (sort_key span_startTime (spans_of_trace t st), sort_key ev_timestamp (sql_select (\<lambda>e. ev_traceId e = t) (events st)))"

section \<open>The handlers of the dashboard\<close>

text \<open>The input is what a client sent; a missing field is \<open>None\<close>.\<close>

definition check_limit :: "json option \<Rightarrow> (trace_error, nat) res" where
  "check_limit limit =
     (case limit of
        None \<Rightarrow> Inr 50
      | Some (JNum n) \<Rightarrow> if n < 1 then Inl (BadInput ''limit must be a positive number'') else Inr (nat n)
      | Some _ \<Rightarrow> Inl (BadInput ''limit must be a positive number''))"

definition check_cursor :: "json option \<Rightarrow> (trace_error, string option) res" where
  "check_cursor cursor =
     (case cursor of
        None \<Rightarrow> Inr None
      | Some (JStr c) \<Rightarrow> Inr (Some c)
      | Some _ \<Rightarrow> Inl (BadInput ''cursor must be a string''))"

definition check_text :: "string \<Rightarrow> json option \<Rightarrow> (trace_error, string) res" where
  "check_text field v =
     (case v of
        Some (JStr t) \<Rightarrow> if t = '''' then Inl (BadInput (field @ '' is required and must be a string'')) else Inr t
      | _ \<Rightarrow> Inl (BadInput (field @ '' is required and must be a string'')))"

definition traces_list ::
    "json option \<Rightarrow> json option \<Rightarrow> trace_store \<Rightarrow> (trace_error, trace_summary list \<times> string option) res" where
  "traces_list limit cursor st =
     bind_res (check_limit limit) (\<lambda>n. bind_res (check_cursor cursor) (\<lambda>c. Inr (listTraces n c st)))"

text \<open>The other two listings do not check their cursor; it is a text, as its type says.\<close>

definition traces_listSpans ::
    "json option \<Rightarrow> string option \<Rightarrow> trace_store \<Rightarrow> (trace_error, span_data list \<times> string option) res" where
  "traces_listSpans limit cursor st = bind_res (check_limit limit) (\<lambda>n. Inr (listAllSpans n cursor st))"

definition traces_listLogs ::
    "json option \<Rightarrow> string option \<Rightarrow> trace_store \<Rightarrow> (trace_error, event_data list \<times> string option) res" where
  "traces_listLogs limit cursor st = bind_res (check_limit limit) (\<lambda>n. Inr (listAllLogs n cursor st))"

definition traces_getTrace :: "json option \<Rightarrow> trace_store \<Rightarrow> (trace_error, span_data list \<times> event_data list) res" where
  "traces_getTrace t st = bind_res (check_text ''traceId'' t) (\<lambda>t. Inr (getTrace t st))"

definition traces_search :: "json option \<Rightarrow> json option \<Rightarrow> trace_store \<Rightarrow> (trace_error, trace_summary list) res" where
  "traces_search query limit st =
     bind_res (check_text ''query'' query) (\<lambda>q. bind_res (check_limit limit) (\<lambda>n. Inr (searchTraces q n st)))"

definition traces_errors :: "json option \<Rightarrow> trace_store \<Rightarrow> (trace_error, error_row list) res" where
  "traces_errors t st = bind_res (check_text ''traceId'' t) (\<lambda>t. Inr (getErrorsForTrace t st))"

section \<open>Running inside a span\<close>

text \<open>
  \<open>runInSpan\<close> begins a span, runs the callback with the span as its context and ends the span when the callback
  returns, throws or its promise settles. What the callback does happens in between: the begin and the
  two ends are separate steps. Ids, times and stacks are arguments.
\<close>

record span_context =
  sc_traceId :: string
  sc_spanId :: string

record span_options =
  so_name :: string
  so_kind :: "span_kind option"
  so_attributes :: "json option"
  so_workerName :: "string option"
  so_newTrace :: bool

definition span_parent :: "span_options \<Rightarrow> span_context option \<Rightarrow> span_context option" where
  "span_parent opts ctx = (if so_newTrace opts then None else ctx)"

definition new_span :: "span_options \<Rightarrow> span_context option \<Rightarrow> string \<Rightarrow> string \<Rightarrow> int \<Rightarrow> span_data" where
  "new_span opts ctx freshSpan freshTrace now =
     \<lparr>spanId = freshSpan,
      span_traceId = (case span_parent opts ctx of None \<Rightarrow> freshTrace | Some p \<Rightarrow> sc_traceId p),
      parentSpanId = map_option sc_spanId (span_parent opts ctx),
      span_name = so_name opts, span_kind = nullish (so_kind opts) KInternal, span_status = StatusUnset, statusMessage = None,
      span_startTime = now, endTime = None, durationMs = None, span_attributes = nullish (so_attributes opts) (JObj []),
      span_workerName = so_workerName opts\<rparr>"

definition context_of :: "span_data \<Rightarrow> span_context" where
  "context_of span = \<lparr>sc_traceId = span_traceId span, sc_spanId = spanId span\<rparr>"

definition span_begins ::
    "span_options \<Rightarrow> span_context option \<Rightarrow> string \<Rightarrow> string \<Rightarrow> int \<Rightarrow> trace_store \<Rightarrow> (trace_error, span_context) res \<times> trace_store" where
  "span_begins opts ctx freshSpan freshTrace now st =
     (let span = new_span opts ctx freshSpan freshTrace now
      in case insertSpan span st of (r, st') \<Rightarrow> (bind_res r (\<lambda>_. Inr (context_of span)), st'))"

text \<open>\<open>flagServerErrorStatus\<close>: the status of the response a callback of \<open>startSpan\<close> returned.\<close>

definition flagServerErrorStatus :: "nat option \<Rightarrow> string \<Rightarrow> trace_store \<Rightarrow> trace_store" where
  "flagServerErrorStatus response i st =
     (case response of
        None \<Rightarrow> st
      | Some status \<Rightarrow>
          if 500 \<le> status then store_setSpanStatus i StatusError (Some (''HTTP '' @ show_nat status)) st else st)"

definition span_succeeds :: "nat option \<Rightarrow> string \<Rightarrow> int \<Rightarrow> trace_store \<Rightarrow> trace_store" where
  "span_succeeds response i now st =
     (let st1 = flagServerErrorStatus response i st
      in endSpan i now (if getSpanStatus i st1 = Some StatusError then StatusError else StatusOk) None st1)"

definition span_fails :: "span_context \<Rightarrow> string \<Rightarrow> string option \<Rightarrow> int \<Rightarrow> trace_store \<Rightarrow> trace_store" where
  "span_fails ctx message stack now st =
     addEvent
       \<lparr>ev_id = 0, ev_spanId = sc_spanId ctx, ev_traceId = sc_traceId ctx, ev_timestamp = now, ev_name = ''exception'',
        ev_level = Some ''error'', ev_message = Some message,
        ev_attributes = JObj (case stack of None \<Rightarrow> [] | Some s \<Rightarrow> [(''stack'', JStr s)])\<rparr>
       (endSpan (sc_spanId ctx) now StatusError (Some message) st)"

definition handle_setAttribute :: "string \<Rightarrow> string \<Rightarrow> json option \<Rightarrow> trace_store \<Rightarrow> trace_store" where
  "handle_setAttribute i k v st = (case v of None \<Rightarrow> st | Some j \<Rightarrow> updateAttributes i (JObj [(k, j)]) st)"

definition setSpanStatus :: "span_context option \<Rightarrow> span_status \<Rightarrow> string option \<Rightarrow> trace_store \<Rightarrow> trace_store" where
  "setSpanStatus ctx status message st =
     (case ctx of None \<Rightarrow> st | Some c \<Rightarrow> store_setSpanStatus (sc_spanId c) status message st)"

definition setSpanAttribute :: "span_context option \<Rightarrow> string \<Rightarrow> json \<Rightarrow> trace_store \<Rightarrow> trace_store" where
  "setSpanAttribute ctx k v st = (case ctx of None \<Rightarrow> st | Some c \<Rightarrow> updateAttributes (sc_spanId c) (JObj [(k, v)]) st)"

definition addSpanEvent :: "span_context option \<Rightarrow> string \<Rightarrow> string \<Rightarrow> string \<Rightarrow> json option \<Rightarrow> int \<Rightarrow> trace_store \<Rightarrow> trace_store" where
  "addSpanEvent ctx name level message attrs now st =
     (case ctx of
        None \<Rightarrow> st
      | Some c \<Rightarrow>
          addEvent
            \<lparr>ev_id = 0, ev_spanId = sc_spanId c, ev_traceId = sc_traceId c, ev_timestamp = now, ev_name = name,
             ev_level = Some level, ev_message = Some message, ev_attributes = nullish attrs (JObj [])\<rparr> st)"

text \<open>\<open>persistError\<close>; the text of the details is an argument, and a failing write is swallowed.\<close>

definition persistError ::
    "span_context option \<Rightarrow> string \<Rightarrow> string \<Rightarrow> string \<Rightarrow> string option \<Rightarrow> string option \<Rightarrow> string option \<Rightarrow> string \<Rightarrow> string \<Rightarrow> int
     \<Rightarrow> trace_store \<Rightarrow> string option \<times> trace_store" where
  "persistError ctx name message source workerName traceId spanId' freshId details now st =
     (case insertError
        \<lparr>er_id = freshId, er_timestamp = now, er_errorName = name, er_errorMessage = message, er_requestMethod = None,
         er_requestUrl = None, er_workerName = workerName,
         er_traceId = (case traceId of Some t \<Rightarrow> Some t | None \<Rightarrow> map_option sc_traceId ctx),
         er_spanId = (case spanId' of Some s \<Rightarrow> Some s | None \<Rightarrow> map_option sc_spanId ctx),
         er_source = Some source, er_data = details\<rparr> st of
        (Inl _, st') \<Rightarrow> (None, st')
      | (Inr _, st') \<Rightarrow> (Some freshId, st'))"

end
