(* ===== verification/TracingLaws.thy ===== *)
theory TracingLaws
  imports Tracing
begin

text \<open>
  The laws of the traces: the listings are complete when their cursors are followed, the limits on
  traces and errors hold after any history, and the spans form trees with the durations of
  their callbacks.
\<close>

section \<open>Cursors\<close>

lemma show_int_chars: "c \<in> set (show_int n) \<Longrightarrow> is_digit c \<or> c = CHR ''-''"
  using show_nat_digits by (auto simp: show_int_def split: if_splits)

lemma parse_int_show_int [simp]: "parse_int (show_int n) = Some n"
proof -
  let ?m = "nat (if n < 0 then - n else n)"
  have d: "\<forall>c \<in> set (show_nat ?m). is_digit c" using show_nat_digits by blast
  obtain c s where cs: "show_nat ?m = c # s" by (cases "show_nat ?m") auto
  with d have c: "\<not> is_ws c \<and> c \<noteq> CHR ''-'' \<and> c \<noteq> CHR ''+''" by (auto simp: is_digit_def is_ws_def)
  have t: "takeWhile is_digit (c # s) = c # s" using d unfolding cs takeWhile_eq_all_conv by simp
  have v: "digits_val (c # s) = ?m" using digits_val_show_nat[of ?m] unfolding cs .
  show ?thesis
  proof (cases "n < 0")
    case True
    then have "show_int n = CHR ''-'' # c # s" using cs by (simp add: show_int_def)
    moreover have "\<not> is_ws (CHR ''-'')" by (simp add: is_ws_def)
    ultimately show ?thesis using True by (simp add: parse_int_def trim_start_def Let_def t v del: takeWhile.simps)
  next
    case False
    then have "show_int n = c # s" using cs by (simp add: show_int_def)
    then show ?thesis using False c by (simp add: parse_int_def trim_start_def Let_def t v del: takeWhile.simps)
  qed
qed

lemma char_index_after: "c \<notin> set s \<Longrightarrow> char_index c (s @ c # t) = Some (length s)"
  by (induction s) auto

lemma show_int_nonempty [simp]: "show_int n \<noteq> []"
  by (simp add: show_int_def)

lemma parse_build [simp]: "parseCursor (Some (buildCursor t i)) = (Some t, Some i)"
proof -
  have "CHR '':'' \<notin> set (show_int t)" using show_int_chars[of "CHR '':''" t] by (auto simp: is_digit_def)
  from char_index_after[OF this, of i] show ?thesis by (simp add: parseCursor_def buildCursor_def nullish_def)
qed

lemma before_build: "before_cursor (Some (buildCursor t i)) k \<longleftrightarrow> k < (t, code_units i)"
  by (cases k) (auto simp: before_cursor_def less_prod_def')

lemma before_first: "fst k \<le> MAX_SAFE_INTEGER \<Longrightarrow> before_cursor None k"
  by (auto simp: before_cursor_def parseCursor_def nullish_def)

lemma before_log_cursor: "before_log (Some (log_cursor e)) i \<longleftrightarrow> i < ev_id e"
  by (simp add: before_log_def log_cursor_def nullish_def)

lemma with_cursor_split:
  "with_cursor cursor_of page =
     (let (items, more) = page in (items, if more \<and> items \<noteq> [] then Some (cursor_of (last items)) else None))"
  by (simp add: with_cursor_def case_prod_unfold)

section \<open>The listings follow the contract\<close>

definition listed_ok :: "trace_store \<Rightarrow> bool" where
  "listed_ok st =
     (keyed_by spanId (spans st) \<and> keyed_by er_id (errors st) \<and> keyed_by ev_id (events st)
      \<and> list_all (\<lambda>r. span_startTime r \<le> MAX_SAFE_INTEGER) (spans st)
      \<and> list_all (\<lambda>r. er_timestamp r \<le> MAX_SAFE_INTEGER) (errors st)
      \<and> list_all (\<lambda>e. int (ev_id e) < MAX_SAFE_INTEGER) (events st))"

lemma distinct_map_finer: "List.distinct (map f xs) \<Longrightarrow> (\<And>x y. g x = g y \<Longrightarrow> f x = f y) \<Longrightarrow> List.distinct (map g xs)"
  unfolding distinct_map inj_on_def by metis

interpretation span_listing: keyset span_key spans listed_ok before_cursor span_cursor listAllSpans
proof
  show "List.distinct (map span_key (spans st))" if "listed_ok st" for st
    by (rule distinct_map_finer[of spanId]) (use that in \<open>auto simp: listed_ok_def span_key_def code_units_eq\<close>)
qed (auto simp: listAllSpans_def with_cursor_split span_key_def span_cursor_def before_build listed_ok_def list_all_iff
      intro: before_first)

interpretation error_listing: keyset error_key errors listed_ok before_cursor error_cursor listErrors
proof
  show "List.distinct (map error_key (errors st))" if "listed_ok st" for st
    by (rule distinct_map_finer[of er_id]) (use that in \<open>auto simp: listed_ok_def error_key_def code_units_eq\<close>)
qed (auto simp: listErrors_def with_cursor_split error_key_def error_cursor_def before_build listed_ok_def list_all_iff
      intro: before_first)

interpretation log_listing: keyset ev_id events listed_ok before_log log_cursor listAllLogs
proof
  show "before_log (Some (log_cursor r)) k \<longleftrightarrow> k < ev_id r" for r k by (rule before_log_cursor)
qed (auto simp: listAllLogs_def with_cursor_split before_log_def nullish_def listed_ok_def list_all_iff)

text \<open>With one root in each trace, the summaries of the roots below the cursor are the summaries below it.\<close>

definition one_root :: "trace_store \<Rightarrow> bool" where
  "one_root st = List.distinct (map span_traceId (filter is_root (spans st)))"

lemma filter_key_single:
  assumes "List.distinct (map f xs)" and "x \<in> set xs"
  shows "filter (\<lambda>y. f y = f x) xs = [x]"
  using assms
proof (induction xs)
  case (Cons a xs)
  then show ?case by (auto simp: filter_empty_conv rev_image_eqI)
qed simp

lemma grouped_one_root:
  assumes "one_root st"
  shows "grouped P st =
    map (\<lambda>r. summary_of (length (spans_of_trace (span_traceId r) st)) (length (errors_of_trace (span_traceId r) st)) r)
      (filter (\<lambda>r. is_root r \<and> P r) (spans st))"
proof -
  let ?roots = "filter (\<lambda>r. is_root r \<and> P r) (spans st)"
  have "?roots = filter P (filter is_root (spans st))" by (simp add: conj_commute)
  then have d: "List.distinct (map span_traceId ?roots)"
    using keyed_by_filter[OF assms[unfolded one_root_def]] by metis
  have rd: "remdups (map span_traceId ?roots) = map span_traceId ?roots" using d by (rule distinct_remdups_id)
  have one: "filter (\<lambda>r'. span_traceId r' = span_traceId r) ?roots = [r]" if "r \<in> set ?roots" for r
    using filter_key_single[OF d that] .
  have g: "grouped P st = map (\<lambda>t. let group = filter (\<lambda>r. span_traceId r = t) ?roots
                  in summary_of (length group * length (spans_of_trace t st)) (length group * length (errors_of_trace t st)) (hd group))
             (remdups (map span_traceId ?roots))"
    by (simp only: grouped_def sql_defs Let_def)
  show ?thesis unfolding g rd by (simp add: Let_def comp_def one del: filter_filter)
qed

interpretation trace_listing: keyset trace_key "grouped (\<lambda>_. True)" "\<lambda>st. listed_ok st \<and> one_root st" before_cursor trace_cursor listTraces
proof
  fix limit c st
  assume ok: "listed_ok st \<and> one_root st"
  have "grouped (\<lambda>r. before_cursor c (span_startTime r, code_units (span_traceId r))) st
      = filter (\<lambda>t. before_cursor c (trace_key t)) (grouped (\<lambda>_. True) st)"
    using ok by (simp add: grouped_one_root filter_map comp_def trace_key_def summary_of_def conj_commute)
  then show "listTraces limit c st =
      (let (items, more) = keyset_page trace_key (before_cursor c) limit (grouped (\<lambda>_. True) st)
       in (items, if more \<and> items \<noteq> [] then Some (trace_cursor (last items)) else None))"
    by (simp add: listTraces_def with_cursor_split keyset_page_def)
next
  fix st assume ok: "listed_ok st \<and> one_root st"
  then have d: "List.distinct (map tr_traceId (grouped (\<lambda>_. True) st))"
    by (simp add: grouped_one_root comp_def summary_of_def one_root_def)
  show "List.distinct (map trace_key (grouped (\<lambda>_. True) st))"
    by (rule distinct_map_finer[OF d]) (simp add: trace_key_def code_units_eq)
  fix t assume "t \<in> set (grouped (\<lambda>_. True) st)"
  with ok show "before_cursor None (trace_key t)"
    by (intro before_first) (auto simp: grouped_one_root trace_key_def summary_of_def listed_ok_def list_all_iff)
qed (simp add: trace_cursor_def before_build trace_key_def)

text \<open>
  C20. Following the cursors of a listing yields everything, once and newest first: the spans, the
  errors, the logs by their number and the traces, whatever the size of the pages, as long as
  the ids are unique, every trace has one root and the times are exact integers. The bound
  on the number of pages is any number above that of the rows.
\<close>

theorem listings_complete:
  assumes "listed_ok st" and "one_root st" and "0 < limit"
    and "length (spans st) < fuel" and "length (errors st) < fuel" and "length (events st) < fuel"
  shows "follow_pages fuel (\<lambda>c. listAllSpans limit c st) None = Some (rev (sort_key span_key (spans st)))
    \<and> follow_pages fuel (\<lambda>c. listErrors limit c st) None = Some (rev (sort_key error_key (errors st)))
    \<and> follow_pages fuel (\<lambda>c. listAllLogs limit c st) None = Some (rev (sort_key ev_id (events st)))
    \<and> follow_pages fuel (\<lambda>c. listTraces limit c st) None = Some (rev (sort_key trace_key (grouped (\<lambda>_. True) st)))"
proof -
  have "length (grouped (\<lambda>_. True) st) \<le> length (spans st)" using assms(2) by (simp add: grouped_one_root)
  then show ?thesis
    using span_listing.pages_complete[OF assms(1,3,4)] error_listing.pages_complete[OF assms(1,3,5)]
      log_listing.pages_complete[OF assms(1,3,6)] trace_listing.pages_complete[of st limit fuel] assms
    by simp
qed

section \<open>Histories\<close>

datatype trace_op =
    OpBegin span_options "span_context option" string string int
  | OpSucceed "nat option" string int
  | OpFail span_context string "string option" int
  | OpAttribute string string "json option"
  | OpStatus "span_context option" span_status "string option"
  | OpEvent event_data
  | OpEvict int
  | OpClear
  | OpError error_row
  | OpDeleteError string
  | OpClearErrors
  | OpSubscribe nat
  | OpUnsubscribe nat
  | OpRestart int

fun trace_step :: "trace_op \<Rightarrow> trace_store \<Rightarrow> trace_store" where
  "trace_step (OpBegin opts ctx i t now) st = snd (span_begins opts ctx i t now st)"
| "trace_step (OpSucceed response i now) st = span_succeeds response i now st"
| "trace_step (OpFail ctx message stack now) st = span_fails ctx message stack now st"
| "trace_step (OpAttribute i k v) st = handle_setAttribute i k v st"
| "trace_step (OpStatus ctx status message) st = setSpanStatus ctx status message st"
| "trace_step (OpEvent e) st = addEvent e st"
| "trace_step (OpEvict now) st = evictStaleSpans now st"
| "trace_step OpClear st = clearTraces st"
| "trace_step (OpError r) st = snd (insertError r st)"
| "trace_step (OpDeleteError i) st = deleteError i st"
| "trace_step OpClearErrors st = clearErrors st"
| "trace_step (OpSubscribe l) st = subscribe l st"
| "trace_step (OpUnsubscribe l) st = unsubscribe l st"
| "trace_step (OpRestart now) st =
     (let st' = close_store now st in open_store (spans st') (events st') (lastEventId st') (errors st'))"

definition empty_store :: trace_store where "empty_store = open_store [] [] 0 []"

section \<open>The limits\<close>

definition roots :: "trace_store \<Rightarrow> span_data list" where "roots st = filter is_root (spans st)"

definition caps_inv :: "trace_store \<Rightarrow> bool" where
  "caps_inv st =
     (int (length (roots st)) \<le> rootSpanCount st \<and> length (roots st) \<le> 10000 \<and> length (errors st) \<le> 1000
      \<and> keyed_by er_id (errors st))"

lemma removed_bound:
  assumes "\<And>x. x \<in> set (take n (sort_key k xs)) \<Longrightarrow> \<not> Q x"
  shows "length (filter Q xs) \<le> length xs - n"
proof -
  let ?s = "sort_key k xs"
  have "length (filter Q xs) = length (filter Q ?s)"
    by (metis mset_filter mset_sort size_mset)
  also have "filter Q ?s = filter Q (take n ?s) @ filter Q (drop n ?s)"
    by (metis append_take_drop_id filter_append)
  also have "filter Q (take n ?s) = []" using assms by (simp add: filter_empty_conv)
  finally show ?thesis using length_filter_le[of Q "drop n ?s"] by simp
qed

lemma trace_cap_bound:
  assumes "int (length (roots st)) \<le> rootSpanCount st" and "length (roots st) \<le> 10001"
  shows "int (length (roots (enforceTraceCap st))) \<le> rootSpanCount (enforceTraceCap st)
    \<and> length (roots (enforceTraceCap st)) \<le> 10000 \<and> errors (enforceTraceCap st) = errors st"
proof (cases "rootSpanCount st \<le> TRACE_CAP \<or> roots st = []")
  case True
  then show ?thesis
    using assms by (auto simp: enforceTraceCap_def TRACE_CAP_def oldest_traces_def sql_defs roots_def PRUNE_BATCH_def)
next
  case False
  let ?first = "take PRUNE_BATCH (sort_key span_startTime (roots st))"
  let ?ids = "oldest_traces st"
  have ids: "?ids = map span_traceId ?first" by (simp add: oldest_traces_def sql_defs roots_def)
  have len: "length ?ids = min (length (roots st)) PRUNE_BATCH" unfolding ids by simp
  from False have "0 < length (roots st)" by simp
  with len have "length ?ids \<noteq> 0" by (simp add: PRUNE_BATCH_def)
  then have ne: "?ids \<noteq> []" by (metis length_0_conv)
  let ?Q = "\<lambda>r. span_traceId r \<notin> set ?ids"
  have "length (filter ?Q (roots st)) \<le> length (roots st) - PRUNE_BATCH"
    by (rule removed_bound[of PRUNE_BATCH span_startTime]) (simp add: ids)
  moreover have "roots (enforceTraceCap st) = filter ?Q (roots st)"
    using False ne by (auto simp: enforceTraceCap_def roots_def sql_defs Let_def conj_commute)
  moreover have "rootSpanCount (enforceTraceCap st) = rootSpanCount st - int (length ?ids)"
    using False ne by (simp add: enforceTraceCap_def Let_def)
  moreover have "errors (enforceTraceCap st) = errors st" by (simp add: enforceTraceCap_def Let_def)
  ultimately show ?thesis using assms len by (auto simp: PRUNE_BATCH_def min_def split: if_splits)
qed

lemma error_cap_bound:
  assumes "length (errors st) \<le> 1001" and "keyed_by er_id (errors st)"
  shows "length (errors (enforceErrorCap st)) \<le> 1000 \<and> keyed_by er_id (errors (enforceErrorCap st))"
proof (cases "length (errors st) \<le> 1000")
  case False
  let ?ids = "map er_id (take 50 (sort_key er_timestamp (errors st)))"
  let ?rest = "filter (\<lambda>r. er_id r \<notin> set ?ids) (errors st)"
  have "errors (enforceErrorCap st) = ?rest"
    using False by (simp add: enforceErrorCap_def sql_defs Let_def)
  moreover have "length ?rest \<le> length (errors st) - 50" by (rule removed_bound[of 50 er_timestamp]) simp
  moreover have "keyed_by er_id ?rest" by (rule keyed_by_filter[OF assms(2)])
  ultimately show ?thesis using assms(1) by simp
qed (use assms in \<open>simp add: enforceErrorCap_def\<close>)

text \<open>What the other operations leave as it is.\<close>

definition caps_view :: "trace_store \<Rightarrow> nat \<times> int \<times> error_row list" where
  "caps_view st = (length (roots st), rootSpanCount st, errors st)"

named_theorems caps_simps "the view of the operations that do not touch it"

lemma caps_inv_view: "caps_view st' = caps_view st \<Longrightarrow> caps_inv st' = caps_inv st"
  by (simp add: caps_view_def caps_inv_def)

lemma length_filter_update:
  "(\<And>x. Q (f x) = Q x) \<Longrightarrow> length (filter Q (map (\<lambda>x. if P x then f x else x) xs)) = length (filter Q xs)"
  by (induction xs) auto

lemma caps_update_span [caps_simps]: "(\<And>r. parentSpanId (f r) = parentSpanId r) \<Longrightarrow> caps_view (update_span i f st) = caps_view st"
  using length_filter_update[of is_root f "\<lambda>r. spanId r = i" "spans st"]
  by (simp add: caps_view_def update_span_def roots_def sql_defs is_root_def del: filter_map)

lemma caps_broadcast [caps_simps]: "caps_view (broadcast ev st) = caps_view st"
  by (simp add: caps_view_def broadcast_def roots_def)

lemma caps_endSpan [caps_simps]: "caps_view (endSpan i now status message st) = caps_view st"
proof (cases "map_of (startTimeCache st) i")
  case (Some start)
  let ?f = "\<lambda>r. r\<lparr>endTime := Some now, durationMs := Some (now - start), span_status := status, statusMessage := message\<rparr>"
  have "caps_view ((update_span i ?f st)\<lparr>startTimeCache := c\<rparr>) = caps_view st" for c
    using caps_update_span[of ?f i st] by (simp add: caps_view_def roots_def)
  with Some show ?thesis by (auto simp: endSpan_def Let_def caps_broadcast split: option.split)
qed (simp add: endSpan_def)

lemma caps_setSpanStatus [caps_simps]: "caps_view (store_setSpanStatus i status message st) = caps_view st"
  by (simp add: store_setSpanStatus_def caps_simps)

lemma caps_updateAttributes [caps_simps]: "caps_view (updateAttributes i attrs st) = caps_view st"
  by (simp add: updateAttributes_def caps_simps)

lemma caps_addEvent [caps_simps]: "caps_view (addEvent e st) = caps_view st"
  by (simp add: addEvent_def Let_def caps_simps) (simp add: caps_view_def roots_def)

lemma caps_fold_end: "caps_view (foldl (\<lambda>st i. endSpan i now status message st) st is) = caps_view st"
  by (induction "is" arbitrary: st) (simp_all add: caps_simps)

lemma caps_close [caps_simps]: "caps_view (close_store now st) = caps_view st"
  using caps_fold_end[of now StatusError "Some ''Server shutdown''" st "map fst (startTimeCache st)"]
  by (simp add: close_store_def caps_view_def roots_def)

lemma caps_evict [caps_simps]: "caps_view (evictStaleSpans now st) = caps_view st"
  by (simp add: evictStaleSpans_def caps_view_def roots_def)

lemma caps_insertSpan:
  assumes "caps_inv st"
  shows "caps_inv (snd (insertSpan span st))"
proof (cases "spanId span \<in> spanId ` set (spans st)")
  case True
  with assms show ?thesis by (simp add: insertSpan_def caps_inv_def roots_def)
next
  case False
  define st2 where "st2 = broadcast (SpanStarted span)
    (st\<lparr>startTimeCache := obj_set (startTimeCache st) (spanId span) (span_startTime span), spans := spans st @ [span]\<rparr>)"
  have r: "roots st2 = roots st @ (if is_root span then [span] else [])" "rootSpanCount st2 = rootSpanCount st"
    "errors st2 = errors st"
    by (simp_all add: st2_def roots_def broadcast_def)
  show ?thesis
  proof (cases "parentSpanId span = None \<or> parentSpanId span = Some ''''")
    case True
    let ?st3 = "st2\<lparr>rootSpanCount := rootSpanCount st2 + 1\<rparr>"
    have "roots ?st3 = roots st2" "errors ?st3 = errors st" using r by (simp_all add: roots_def)
    with trace_cap_bound[of ?st3] assms r have "caps_inv (enforceTraceCap ?st3)" by (auto simp: caps_inv_def)
    then show ?thesis using True False by (simp add: insertSpan_def Let_def sql_defs st2_def)
  next
    case no: False
    then have "\<not> is_root span" by (simp add: is_root_def)
    then have "caps_inv st2" using assms r by (simp add: caps_inv_def)
    then show ?thesis using no False by (auto simp: insertSpan_def Let_def sql_defs st2_def)
  qed
qed

lemma caps_insertError:
  assumes "caps_inv st"
  shows "caps_inv (snd (insertError r st))"
proof (cases "er_id r \<in> er_id ` set (errors st)")
  case False
  let ?st = "st\<lparr>errors := errors st @ [r]\<rparr>"
  have "keyed_by er_id (errors ?st)" "length (errors ?st) \<le> 1001"
    using False assms by (auto simp: caps_inv_def)
  from error_cap_bound[OF this(2,1)] False assms show ?thesis
    by (simp add: insertError_def sql_defs caps_inv_def enforceErrorCap_def roots_def Let_def)
qed (use assms in \<open>simp add: insertError_def\<close>)

text \<open>The operations that change neither the roots nor the errors.\<close>

fun quiet :: "trace_op \<Rightarrow> bool" where
  "quiet (OpBegin opts ctx i t now) = False"
| "quiet OpClear = False"
| "quiet (OpError r) = False"
| "quiet (OpDeleteError i) = False"
| "quiet OpClearErrors = False"
| "quiet (OpRestart now) = False"
| "quiet op = True"

lemma caps_quiet: "quiet op \<Longrightarrow> caps_view (trace_step op st) = caps_view st"
proof (cases op)
  case (OpSucceed response i now)
  have "caps_view (flagServerErrorStatus response i st) = caps_view st"
    by (simp add: flagServerErrorStatus_def caps_simps split: option.split)
  with OpSucceed show ?thesis by (simp add: span_succeeds_def Let_def caps_simps)
next
  case (OpSubscribe l)
  then show ?thesis by (simp add: subscribe_def caps_view_def roots_def)
next
  case (OpUnsubscribe l)
  then show ?thesis by (simp add: unsubscribe_def caps_view_def roots_def)
qed (simp_all add: caps_simps span_fails_def handle_setAttribute_def setSpanStatus_def split: option.split)

lemma roots_open_store: "length (roots (open_store sp evs n errs)) = length (filter is_root sp)"
  by (induction sp) (simp_all add: roots_def open_store_def sql_defs is_root_def)

lemma caps_step:
  assumes "caps_inv st"
  shows "caps_inv (trace_step op st)"
proof (cases "quiet op")
  case True
  from caps_inv_view[OF caps_quiet[OF this]] assms show ?thesis by simp
next
  case False
  then show ?thesis
  proof (cases op)
    case (OpBegin opts ctx i t now)
    then show ?thesis using caps_insertSpan[OF assms, of "new_span opts ctx i t now"]
      by (cases "insertSpan (new_span opts ctx i t now) st") (simp add: span_begins_def)
  next
    case (OpError r)
    then show ?thesis using caps_insertError[OF assms] by simp
  next
    case OpClear
    then show ?thesis using assms by (simp add: clearTraces_def caps_inv_def roots_def)
  next
    case (OpDeleteError i)
    have "length (filter P (errors st)) \<le> 1000" for P
      by (rule order_trans[OF length_filter_le]) (use assms in \<open>simp add: caps_inv_def\<close>)
    then show ?thesis
      using assms OpDeleteError by (simp add: deleteError_def caps_inv_def roots_def sql_defs keyed_by_filter)
  next
    case OpClearErrors
    then show ?thesis using assms by (simp add: clearErrors_def caps_inv_def roots_def)
  next
    case (OpRestart now)
    have c: "caps_inv (close_store now st)" using assms caps_inv_view[OF caps_close] by simp
    let ?st = "close_store now st"
    have "rootSpanCount (trace_step op st) = int (length (roots ?st))" "errors (trace_step op st) = errors ?st"
      using OpRestart by (simp_all add: Let_def open_store_def sql_defs roots_def)
    moreover have "length (roots (trace_step op st)) = length (roots ?st)"
      using OpRestart by (simp add: Let_def roots_open_store) (simp add: roots_def)
    ultimately show ?thesis using c by (simp add: caps_inv_def)
  qed simp_all
qed

interpretation caps: machine "\<lambda>st op. trace_step op st" caps_inv
  by unfold_locales (rule caps_step)

text \<open>
  The limits hold after every history of spans, errors, clearings and restarts: at most 10000
  traces are kept, counted by their roots, the counter the limit is enforced with never lies
  below that number, and at most 1000 errors are kept.
\<close>

lemma trace_limits:
  "int (length (filter is_root (spans (foldl (\<lambda>st op. trace_step op st) empty_store ops))))
     \<le> rootSpanCount (foldl (\<lambda>st op. trace_step op st) empty_store ops)
   \<and> length (filter is_root (spans (foldl (\<lambda>st op. trace_step op st) empty_store ops))) \<le> 10000
   \<and> length (errors (foldl (\<lambda>st op. trace_step op st) empty_store ops)) \<le> 1000"
proof -
  have "caps_inv empty_store" by (simp add: caps_inv_def empty_store_def open_store_def roots_def sql_defs)
  from caps.inv_run[OF this, of ops] show ?thesis by (simp add: caps_inv_def roots_def)
qed

section \<open>Trees of spans\<close>

definition exact :: "span_data \<Rightarrow> bool" where
  "exact r = (endTime r = map_option (\<lambda>d. span_startTime r + d) (durationMs r))"

definition tree :: "span_data list \<Rightarrow> bool" where
  "tree rs = (\<forall>r \<in> set rs. \<forall>q \<in> set rs. parentSpanId r = Some (spanId q) \<longrightarrow> span_traceId r = span_traceId q)"

definition running :: "(string \<times> int) list \<Rightarrow> span_data list \<Rightarrow> bool" where
  "running cache rs =
     (\<forall>i t. (i, t) \<in> set cache \<longrightarrow> (\<forall>r \<in> set rs. spanId r = i \<longrightarrow> span_startTime r = t \<and> endTime r = None))"

definition spans_inv :: "trace_store \<Rightarrow> bool" where
  "spans_inv st =
     (keyed_by spanId (spans st) \<and> (\<forall>r \<in> set (spans st). exact r) \<and> tree (spans st) \<and> running (startTimeCache st) (spans st))"

text \<open>The ids are fresh, and a context names its span with its trace.\<close>

fun op_ok :: "trace_op \<Rightarrow> trace_store \<Rightarrow> bool" where
  "op_ok (OpBegin opts ctx i t now) st =
     (i \<notin> spanId ` set (spans st) \<and> Some i \<notin> parentSpanId ` set (spans st)
      \<and> (case span_parent opts ctx of
           None \<Rightarrow> True
         | Some c \<Rightarrow> sc_spanId c \<noteq> i \<and> list_all (\<lambda>q. spanId q = sc_spanId c \<longrightarrow> span_traceId q = sc_traceId c) (spans st)))"
| "op_ok op st = True"

definition history_step :: "trace_store \<Rightarrow> trace_op \<Rightarrow> trace_store" where
  "history_step st op = (if op_ok op st then trace_step op st else st)"

lemma tree_subset: "tree rs \<Longrightarrow> set rs' \<subseteq> set rs \<Longrightarrow> tree rs'"
  unfolding tree_def by blast

lemma running_subset: "running cache rs \<Longrightarrow> set rs' \<subseteq> set rs \<Longrightarrow> running cache rs'"
  unfolding running_def by blast

lemma spans_inv_filter: "spans_inv st \<Longrightarrow> spans_inv (st\<lparr>spans := filter P (spans st)\<rparr>)"
  by (auto simp: spans_inv_def keyed_by_filter intro: tree_subset running_subset)

lemma spans_inv_cong:
  "spans st' = spans st \<Longrightarrow> startTimeCache st' = startTimeCache st \<Longrightarrow> spans_inv st' = spans_inv st"
  by (simp add: spans_inv_def)

text \<open>An update of a row that leaves its place in the tree.\<close>

definition same_place :: "span_data \<Rightarrow> span_data \<Rightarrow> bool" where
  "same_place r r' =
     (spanId r' = spanId r \<and> span_traceId r' = span_traceId r \<and> parentSpanId r' = parentSpanId r \<and> span_startTime r' = span_startTime r)"

lemma tree_map:
  assumes "tree rs" and "\<And>r. same_place r (g r)"
  shows "tree (map g rs)"
  using assms unfolding tree_def same_place_def by (metis (no_types, lifting) imageE list.set_map)

lemma keyed_map: "keyed_by spanId rs \<Longrightarrow> (\<And>r. same_place r (g r)) \<Longrightarrow> keyed_by spanId (map g rs)"
  by (simp add: comp_def same_place_def)

lemma running_map:
  "(\<And>r. same_place r (g r)) \<Longrightarrow> (\<And>r. endTime (g r) = endTime r) \<Longrightarrow> running c rs \<Longrightarrow> running c (map g rs)"
  by (simp add: running_def same_place_def)

lemma exact_map: "(\<And>r. r \<in> set rs \<Longrightarrow> exact (g r)) \<Longrightarrow> \<forall>r \<in> set (map g rs). exact r"
  by simp

lemma spans_inv_update:
  assumes "spans_inv st" and "\<And>r. same_place r (f r)" and "\<And>r. endTime (f r) = endTime r \<and> durationMs (f r) = durationMs r"
  shows "spans_inv (update_span i f st)"
proof -
  let ?g = "\<lambda>r. if spanId r = i then f r else r"
  have g: "same_place r (?g r)" for r using assms(2) by (simp add: same_place_def)
  have e: "endTime (?g r) = endTime r \<and> durationMs (?g r) = durationMs r" for r using assms(3) by simp
  have x: "exact (?g r) = exact r" for r using g[of r] e[of r] by (simp add: exact_def same_place_def)
  have s: "spans (update_span i f st) = map ?g (spans st)" "startTimeCache (update_span i f st) = startTimeCache st"
    by (simp_all add: update_span_def sql_defs)
  show ?thesis
    unfolding spans_inv_def s
  proof (intro conjI)
    show "keyed_by spanId (map ?g (spans st))" by (rule keyed_map[OF _ g]) (use assms(1) in \<open>simp add: spans_inv_def\<close>)
    show "\<forall>r \<in> set (map ?g (spans st)). exact r"
      by (rule exact_map) (use assms(1) x in \<open>simp add: spans_inv_def\<close>)
    show "tree (map ?g (spans st))" by (rule tree_map[OF _ g]) (use assms(1) in \<open>simp add: spans_inv_def\<close>)
    show "running (startTimeCache st) (map ?g (spans st))"
      by (rule running_map[OF g]) (use assms(1) e in \<open>simp_all add: spans_inv_def\<close>)
  qed
qed

lemma spans_inv_broadcast: "spans_inv (broadcast ev st) = spans_inv st"
  by (simp add: broadcast_def spans_inv_def)

lemma running_delete: "running c rs \<Longrightarrow> running (obj_delete i c) rs"
  by (auto simp: running_def)

lemma spans_inv_end:
  assumes "spans_inv st"
  shows "spans_inv (endSpan i now status message st)"
proof (cases "map_of (startTimeCache st) i")
  case (Some start)
  let ?f = "\<lambda>r. r\<lparr>endTime := Some now, durationMs := Some (now - start), span_status := status, statusMessage := message\<rparr>"
  let ?g = "\<lambda>r. if spanId r = i then ?f r else r"
  let ?st = "(update_span i ?f st)\<lparr>startTimeCache := obj_delete i (startTimeCache st)\<rparr>"
  have g: "same_place r (?g r)" for r by (simp add: same_place_def)
  have s: "spans ?st = map ?g (spans st)" by (simp add: update_span_def sql_defs)
  have x: "exact (?g r)" if "r \<in> set (spans st)" for r
    using assms map_of_SomeD[OF Some] that by (auto simp: spans_inv_def running_def exact_def)
  have run: "running (obj_delete i (startTimeCache st)) (map ?g (spans st))"
    using assms by (auto simp: spans_inv_def running_def split: if_splits)
  have "spans_inv ?st"
    unfolding spans_inv_def s
  proof (intro conjI)
    show "keyed_by spanId (map ?g (spans st))" by (rule keyed_map[OF _ g]) (use assms in \<open>simp add: spans_inv_def\<close>)
    show "\<forall>r \<in> set (map ?g (spans st)). exact r" by (rule exact_map) (rule x)
    show "tree (map ?g (spans st))" by (rule tree_map[OF _ g]) (use assms in \<open>simp add: spans_inv_def\<close>)
    show "running (startTimeCache ?st) (map ?g (spans st))" using run by (simp add: update_span_def)
  qed
  then show ?thesis
    using Some by (auto simp: endSpan_def Let_def update_span_def spans_inv_broadcast split: option.split)
qed (use assms in \<open>simp add: endSpan_def\<close>)

lemma spans_inv_prune: "spans_inv st \<Longrightarrow> spans_inv (enforceTraceCap st)"
  using spans_inv_filter[of st "\<lambda>r. span_traceId r \<notin> set (oldest_traces st)"]
  by (simp add: enforceTraceCap_def Let_def sql_defs spans_inv_def)

lemma spans_inv_begin:
  assumes "spans_inv st" and "op_ok (OpBegin opts ctx i t now) st"
  shows "spans_inv (snd (insertSpan (new_span opts ctx i t now) st))"
proof -
  let ?r = "new_span opts ctx i t now"
  let ?st = "st\<lparr>startTimeCache := obj_set (startTimeCache st) i now, spans := spans st @ [?r]\<rparr>"
  have r: "spanId ?r = i" "span_startTime ?r = now" "endTime ?r = None" "durationMs ?r = None"
    "parentSpanId ?r = map_option sc_spanId (span_parent opts ctx)" by (simp_all add: new_span_def)
  have new: "i \<notin> spanId ` set (spans st)" "Some i \<notin> parentSpanId ` set (spans st)" using assms(2) by simp_all
  have "span_traceId ?r = span_traceId q" if "q \<in> set (spans st)" "parentSpanId ?r = Some (spanId q)" for q
  proof -
    from that(2) r obtain c where c: "span_parent opts ctx = Some c" "sc_spanId c = spanId q" by auto
    with assms(2) that(1) show ?thesis by (auto simp: new_span_def list_all_iff)
  qed
  moreover have "parentSpanId ?r \<noteq> Some i" using assms(2) r by (auto split: option.splits)
  ultimately have "tree (spans st @ [?r])"
    using assms(1) new r unfolding spans_inv_def tree_def by (auto simp: image_iff)
  moreover have "running (obj_set (startTimeCache st) i now) (spans st @ [?r])"
    using assms(1) new r by (auto simp: spans_inv_def running_def image_iff dest!: set_obj_set)
  moreover have "keyed_by spanId (spans st @ [?r])" using assms(1) new r by (auto simp: spans_inv_def)
  moreover have "exact ?r" using r by (simp add: exact_def)
  ultimately have "spans_inv ?st" using assms(1) by (simp add: spans_inv_def)
  then have b: "spans_inv (broadcast (SpanStarted ?r) ?st)" by (simp add: spans_inv_broadcast)
  then have "spans_inv ((broadcast (SpanStarted ?r) ?st)\<lparr>rootSpanCount := n\<rparr>)" for n by (simp add: spans_inv_def)
  with b spans_inv_prune new r show ?thesis by (simp add: insertSpan_def Let_def sql_defs)
qed

lemma spans_inv_fold_end: "spans_inv st \<Longrightarrow> spans_inv (foldl (\<lambda>st i. endSpan i now status message st) st is)"
  by (induction "is" arbitrary: st) (simp_all add: spans_inv_end)

lemma spans_inv_close:
  assumes "spans_inv st"
  shows "spans_inv (close_store now st)"
  using spans_inv_fold_end[OF assms, of now StatusError "Some ''Server shutdown''" "map fst (startTimeCache st)"]
  by (simp add: close_store_def spans_inv_def running_def)

lemma spans_inv_open:
  assumes "keyed_by spanId sp" and "\<forall>r \<in> set sp. exact r" and "tree sp"
  shows "spans_inv (open_store sp evs n errs)"
proof -
  let ?g = "\<lambda>r. if endTime r = None then r\<lparr>endTime := Some (span_startTime r), durationMs := Some 0, span_status := StatusError,
      statusMessage := Some ''Server shutdown (unfinished span)''\<rparr> else r"
  have g: "same_place r (?g r)" for r by (simp add: same_place_def)
  have s: "spans (open_store sp evs n errs) = map ?g sp" by (simp add: open_store_def sql_defs)
  show ?thesis
    unfolding spans_inv_def s
  proof (intro conjI)
    show "keyed_by spanId (map ?g sp)" by (rule keyed_map[OF assms(1) g])
    show "\<forall>r \<in> set (map ?g sp). exact r" by (rule exact_map) (use assms(2) in \<open>simp add: exact_def\<close>)
    show "tree (map ?g sp)" by (rule tree_map[OF assms(3) g])
  qed (simp add: running_def open_store_def)
qed

lemma spans_inv_setSpanStatus: "spans_inv st \<Longrightarrow> spans_inv (store_setSpanStatus i status message st)"
  unfolding store_setSpanStatus_def by (rule spans_inv_update) (simp_all add: same_place_def)

lemma spans_inv_attributes: "spans_inv st \<Longrightarrow> spans_inv (updateAttributes i attrs st)"
  unfolding updateAttributes_def by (rule spans_inv_update) (simp_all add: same_place_def)

lemma spans_inv_addEvent: "spans_inv (addEvent e st) = spans_inv st"
  by (simp add: addEvent_def Let_def spans_inv_broadcast) (simp add: spans_inv_def)

lemma spans_inv_step:
  assumes "spans_inv st"
  shows "spans_inv (history_step st op)"
proof (cases "op_ok op st")
  case ok: True
  have "spans_inv (trace_step op st)"
  proof (cases op)
    case (OpBegin opts ctx i t now)
    with ok spans_inv_begin[OF assms, of opts ctx i t now] show ?thesis
      by (cases "insertSpan (new_span opts ctx i t now) st") (simp add: span_begins_def)
  next
    case (OpSucceed response i now)
    have "spans_inv (flagServerErrorStatus response i st)"
      using assms spans_inv_setSpanStatus by (simp add: flagServerErrorStatus_def split: option.split)
    with OpSucceed show ?thesis by (simp add: span_succeeds_def Let_def spans_inv_end)
  next
    case (OpEvict now)
    then show ?thesis using assms by (fastforce simp: evictStaleSpans_def spans_inv_def running_def)
  next
    case OpClear
    then show ?thesis by (simp add: clearTraces_def spans_inv_def tree_def running_def)
  next
    case (OpError r)
    then show ?thesis using assms by (simp add: insertError_def enforceErrorCap_def Let_def spans_inv_def)
  next
    case (OpRestart now)
    from spans_inv_close[OF assms, of now] have "spans_inv (close_store now st)" .
    then show ?thesis using OpRestart spans_inv_open[of "spans (close_store now st)"] by (simp add: Let_def spans_inv_def)
  qed (use assms in \<open>simp_all add: spans_inv_attributes spans_inv_setSpanStatus spans_inv_addEvent spans_inv_end span_fails_def
        handle_setAttribute_def setSpanStatus_def split: option.split\<close>,
     simp_all add: spans_inv_def deleteError_def clearErrors_def subscribe_def unsubscribe_def)
  with ok show ?thesis by (simp add: history_step_def)
qed (use assms in \<open>simp add: history_step_def\<close>)

interpretation span_trees: machine history_step spans_inv
  by unfold_locales (rule spans_inv_step)

text \<open>
  Spans form trees with exact durations. After every history in which ids are fresh and contexts name
  their spans, whatever was pruned, cleared or restarted in between: the end of a span is its start plus its
  duration, no span whose parent is stored lies in another trace than the parent, a span that can still be
  ended has not ended, and after a restart every span has ended.
\<close>

theorem spans_form_trees:
  "list_all (\<lambda>r. endTime r = map_option (\<lambda>d. span_startTime r + d) (durationMs r)) (spans (foldl history_step empty_store ops))
   \<and> list_all (\<lambda>r. filter (\<lambda>q. parentSpanId r = Some (spanId q) \<and> span_traceId r \<noteq> span_traceId q)
        (spans (foldl history_step empty_store ops)) = []) (spans (foldl history_step empty_store ops))
   \<and> list_all (\<lambda>r. endTime r = None \<or> spanId r \<notin> fst ` set (startTimeCache (foldl history_step empty_store ops)))
        (spans (foldl history_step empty_store ops))
   \<and> list_all (\<lambda>r. endTime r \<noteq> None) (spans (history_step (foldl history_step empty_store ops) (OpRestart now)))"
proof -
  let ?st = "foldl history_step empty_store ops"
  have "spans_inv empty_store" unfolding empty_store_def by (rule spans_inv_open) (simp_all add: tree_def)
  from span_trees.inv_run[OF this, of ops] have inv: "spans_inv ?st" .
  have "list_all (\<lambda>r. endTime r \<noteq> None) (spans (open_store sp evs n errs))" for sp evs n errs
    by (auto simp: open_store_def sql_defs list_all_iff)
  then have "list_all (\<lambda>r. endTime r \<noteq> None) (spans (history_step ?st (OpRestart now)))"
    by (simp add: history_step_def Let_def)
  with inv show ?thesis
    by (auto simp: spans_inv_def exact_def tree_def running_def list_all_iff filter_empty_conv)
qed

section \<open>Where the code does something else\<close>

definition a_span :: "string \<Rightarrow> trace_op" where
  "a_span i = OpBegin \<lparr>so_name = ''GET /'', so_kind = Some KServer, so_attributes = None, so_workerName = None, so_newTrace = False\<rparr>
     None i ''t1'' 1000"

lemmas trace_eval = a_span_def history_step_def span_begins_def new_span_def insertSpan_def broadcast_def span_parent_def
  enforceTraceCap_def empty_store_def open_store_def context_of_def nullish_def obj_set_def obj_delete_def sql_defs
  span_succeeds_def flagServerErrorStatus_def store_setSpanStatus_def update_span_def endSpan_def get_span_def
  getSpanStatus_def evictStaleSpans_def STALE_SPAN_TTL_MS_def TRACE_CAP_def Let_def is_root_def bind_res_def

text \<open>
  The end of a span writes its message anew: the text a response with an error status or \<open>setSpanStatus\<close>
  has set is gone, only the status stays.
\<close>

lemma error_message_lost:
  "map (\<lambda>r. (span_status r, statusMessage r)) (spans (foldl history_step empty_store [a_span ''s1'', OpSucceed (Some 500) ''s1'' 1200]))
     = [(StatusError, None)]"
  by (simp add: trace_eval)

text \<open>A span that runs longer than ten minutes is forgotten: its end is never stored.\<close>

lemma long_span_never_ends:
  "map (\<lambda>r. (endTime r, span_status r))
     (spans (foldl history_step empty_store [a_span ''s1'', OpEvict 601001, OpSucceed None ''s1'' 700000]))
     = [(None, StatusUnset)]"
  by (simp add: trace_eval)

definition demo_traces :: trace_store where
  "demo_traces = open_store
     (map (\<lambda>(i, t). \<lparr>spanId = i, span_traceId = ''t'' @ i, parentSpanId = None, span_name = ''GET /'', span_kind = KServer,
        span_status = StatusOk, statusMessage = None, span_startTime = t, endTime = Some (t + 1), durationMs = Some 1,
        span_attributes = JObj [], span_workerName = None\<rparr>) [(''a'', 10), (''b'', 10), (''c'', 5)]) [] 0 []"

theorem listings_complete_witness:
  "follow_pages 4 (\<lambda>c. listAllSpans 2 c demo_traces) None = Some (rev (sort_key span_key (spans demo_traces)))
   \<and> length (spans demo_traces) = 3"
proof -
  have "listed_ok demo_traces" "one_root demo_traces" "length (spans demo_traces) = 3" "errors demo_traces = []"
    "events demo_traces = []"
    by (simp_all add: demo_traces_def open_store_def sql_defs listed_ok_def one_root_def is_root_def MAX_SAFE_INTEGER_def)
  then show ?thesis using listings_complete[of demo_traces 2 4] by simp
qed

end
