(* ===== verification/Spec2Isabelle.thy ===== *)
theory Spec2Isabelle
  imports Routes QueueLaws KvLaws WorkflowStepLaws WorkflowLaws CronLaws StaticAssetsLaws
    SqlRoundTrip SqlTranslateLaws StreamFlow
    DurableStorageLaws DurableState DurableNamespaceLaws S3GatewayLaws GenerationsLaws TracingLaws
begin

text \<open>
  Lopata runs workers written for Cloudflare's platform on a developer's machine: it implements
  the bindings of the platform over SQLite and the file system, routes requests to the workers
  and reloads them when their sources change. This library models the parts of it that hold
  state or decide something, and proves what they promise.

  \<^bold>\<open>How the parts interact.\<close> A request is routed to the manager of a worker by its host and path
  (\<open>Routes\<close>); the manager hands it to its active generation (\<open>Generations\<close>), which answers from
  the static assets (\<open>StaticAssets\<close>) or in the worker's thread, whose request and response bodies
  travel as message streams (\<open>Streams\<close>, \<open>StreamFlow\<close>). The code of the worker calls the bindings:
  key-value namespaces (\<open>Kv\<close>), queues (\<open>Queue\<close>), R2 buckets (\<open>R2\<close>, which tools also reach over
  HTTP through the S3 gateway, \<open>S3Gateway\<close>), Durable Objects (\<open>DurableNamespace\<close> over
  \<open>DurableState\<close> and \<open>DurableStorage\<close>), workflows (\<open>Workflow\<close> over \<open>WorkflowSteps\<close>), and the SQL
  interface of the Analytics Engine (\<open>SqlTokens\<close> to \<open>SqlTranslate\<close>). Timers run the cron triggers
  (\<open>Cron\<close>), the polls of the queues, the alarms of Durable Objects and the drains of generations.
  A generation that is replaced hands its namespaces to the next, and interrupted workflows
  are resumed there from their checkpoints. The requests and what they call are recorded as spans
  in a store of their own, which the dashboard lists (\<open>Tracing\<close>).

  \<^bold>\<open>Shared theories.\<close>
  \<^item> \<open>Prelude\<close>: strings and results of JavaScript, its sort with a comparison function, and lemmas
    on lists; \<open>Comparators\<close>: comparisons that are total preorders, as a locale.
  \<^item> \<open>Contracts\<close>: the interfaces as locales. \<open>machine\<close> (a step function with an invariant,
    carried to every run) is interpreted on the routes, the key-value namespace, the storage, gate
    and namespace of Durable Objects, the capacity of workflows, the generations and the traces;
    \<open>record_store\<close> (a keyed store and its laws) on the key-value namespace, the storage and the
    steps. The table operations (\<open>sql_select\<close>, \<open>sql_delete\<close>, \<open>sql_like\<close>) carry the bindings
    over SQLite.
  \<^item> \<open>Keyset\<close>: listings whose cursor is made from the last row of a page; the locale \<open>keyset\<close>, interpreted
    on the four listings of the traces, shows that following the cursors yields everything once.
  \<^item> \<open>Json\<close>: JSON values, \<open>JSON.stringify\<close> and \<open>JSON.parse\<close>, objects in insertion order, UTF-8 and
    the component decoding of URIs; \<open>Dates\<close>: the calendar behind \<open>Date\<close>.

  \<^bold>\<open>Components\<close>, each theory with its laws in the theory named \<open>\<dots>Laws\<close>:
  \<^item> \<open>Routes\<close> (\<^verbatim>\<open>src/route-matcher.ts\<close>): patterns, their specificity and \<open>RouteDispatcher\<close>; the
    dispatcher returns an applicable entry of least rank, than which no other serves strictly
    fewer paths (for stars at the end), and keeps its invariant.
  \<^item> \<open>Kv\<close> (\<^verbatim>\<open>src/bindings/kv.ts\<close>): reads, bulk reads, writes, deletions, listings by cursor; a map
    of live entries, and a listing read page by page is complete.
  \<^item> \<open>Queue\<close> (\<^verbatim>\<open>src/bindings/queue.ts\<close>): producer, push consumer, pull consumer with leases; what
    settles a message, batches as single sends; a pulled message is not pulled again while its
    lease runs. Messages are JSON values with integral numbers, texts, bytes or \<open>undefined\<close>; dates
    and maps under \<open>v8\<close> are outside the model.
  \<^item> \<open>Cron\<close> (\<^verbatim>\<open>src/bindings/scheduled.ts\<close>): parsing, calendar rules and the timer; once per minute.
  \<^item> \<open>StaticAssets\<close> (\<^verbatim>\<open>src/bindings/static-assets.ts\<close>): rule files, patterns, resolution of paths
    and responses; patterns match what an inductive meaning on their text says (\<open>redirect_covers\<close>,
    \<open>headers_covers\<close>), no file outside the directory is served. \<open>rmatch\<close> is the language's
    matching of regular expressions, not code of the program; the translation of patterns is.
  \<^item> \<open>WorkflowSteps\<close>, \<open>Workflow\<close> (\<^verbatim>\<open>src/bindings/workflow.ts\<close>): durable steps with retries and
    checkpoints; instances, events, concurrency. Each step completes once and is answered from its checkpoint
    from then on; events are a queue.
  \<^item> \<open>SqlTokens\<close>, \<open>SqlParser\<close>, \<open>SqlEmit\<close>, \<open>SqlTranslate\<close>, with \<open>SqlLexLaws\<close>, \<open>SqlParserLaws\<close>,
    \<open>SqlRoundTrip\<close>, \<open>SqlTranslateLaws\<close> (\<^verbatim>\<open>src/bindings/analytics-engine-sql.ts\<close>): the translation
    of queries; the parser returns, what is emitted for a \<open>core\<close> expression is read back by the
    program's own parser as its \<open>meaning\<close>, the expression after the emitter's rewritings.
    Quantiles are computed with exact rationals, so doubles that overflow are outside the model.
  \<^item> \<open>Streams\<close>, \<open>StreamLaws\<close>, \<open>StreamFlow\<close> (\<^verbatim>\<open>src/worker-thread/stream-shared.ts\<close>): pumps,
    receivers and credits of one direction of a channel; bytes arrive in order, no pump is stuck.
  \<^item> \<open>DurableStorage\<close>, \<open>DurableState\<close>, \<open>DurableNamespace\<close> (\<^verbatim>\<open>src/bindings/durable-object.ts\<close>,
    \<^verbatim>\<open>do-executor-inprocess.ts\<close>): storage with transactions, the gate of an object, executors and
    alarms; transactions are serial, and no alarm is lost as long as constructors do not throw,
    alarm calls are not rolled back and nothing is shut down. The timers of the runtime take
    delays up to \<open>MAX_TIMEOUT\<close>; a longer one fires after a millisecond.
  \<^item> \<open>R2\<close> (\<^verbatim>\<open>src/bindings/r2.ts\<close>): objects as rows and files, conditions, ranges, listings, multipart
    uploads; a map of objects as long as distinct keys name distinct files.
  \<^item> \<open>S3Chunked\<close>, \<open>S3Xml\<close>, \<open>S3Gateway\<close> (\<^verbatim>\<open>src/s3/\<close>): the decoder of chunked uploads, the XML
    written and read, every handler; what is stored over HTTP is read back over HTTP.
  \<^item> \<open>Generations\<close> (\<^verbatim>\<open>src/generation-manager.ts\<close>, \<^verbatim>\<open>src/generation.ts\<close>): reloads, draining and
    stopping; every caller of a reload is answered by a reload that began after its call, and
    workflows never resume in two workers.
  \<^item> \<open>Tracing\<close> (\<^verbatim>\<open>src/tracing/store.ts\<close>, \<^verbatim>\<open>src/tracing/span.ts\<close>, \<^verbatim>\<open>src/api/handlers/traces.ts\<close>): spans,
    their events and errors, the limits, the listings and the life of a span; the listings are
    complete, the limits hold and spans form trees after every history.

  \<^bold>\<open>Conventions.\<close> A record has the fields of the class or interface it models; rows of a table are a
  list in row order. An operation takes the state and returns its result with the new state;
  what it throws is the left side of a sum. Where the code awaits, the model has either separate
  steps (\<open>enter_begin\<close>, \<open>enter_wake\<close>, \<open>enter_finish\<close>; the events of \<open>Streams\<close> and \<open>Generations\<close>), so
  that everything may happen in between, or what happens meanwhile is an argument. A file or
  database operation is one step. Strings are character lists of code units below 256; numbers are
  integers, naturals or rationals as the code uses them. Digests, clocks, random values, the
  reading of HTTP dates and other parts of the runtime are parameters; what a property needs of
  them stands in its hypotheses, and its witness instantiates them.

  \<^bold>\<open>Bounds.\<close> \<open>parseExpr\<close> bounds the nesting of expressions by the number of tokens; the laws
  of the parser show that the bound is never reached. \<open>drain_decoder\<close> bounds the calls of \<open>pull\<close> by twice
  the length of the upload, and every call emits, consumes a line or ends (the laws of the gateway).
  \<open>list_pages\<close> and \<open>follow_cursors\<close> bound the number of pages; with more pages than there are
  entries both return. The retry loop of a step is bounded by its limit, and recursion over a
  range with a step (\<open>step_loop\<close>) is partial: it does not return for a step of zero, as in the code.
  The runs of events are of any length.

  \<^bold>\<open>What modelling showed.\<close> Lemmas named after a failure (\<open>idle_reload_skips_resume\<close>,
  \<open>failing_stream_damages_object\<close>, \<open>overlapping_blocks_open_gate\<close>, \<open>marker_is_no_cursor\<close> and others) give
  concrete runs on which the code does not do what its comments say.

  \<^bold>\<open>Not modelled.\<close>
  \<^item> The worker and Durable Object threads, the RPC between them and the service bindings
    (\<^verbatim>\<open>worker-thread/\<close> except the streams, \<^verbatim>\<open>do-executor-worker.ts\<close>, \<^verbatim>\<open>service-binding.ts\<close>,
    \<^verbatim>\<open>rpc-stub.ts\<close>): proxies and structured clone of the runtime.
  \<^item> D1, caches, hyperdrive: mostly calls of the database library or of the runtime.
  \<^item> Containers, browser, media, AI, mail and artifacts: external processes and services.
  \<^item> Configuration, command line, file watching, the instrumentation of the bindings
    (\<^verbatim>\<open>tracing/instrument.ts\<close>, \<^verbatim>\<open>tracing/frames.ts\<close>), dashboard, error pages, test utilities and
    the Vite plugin: set-up, printing and user interface around the operations modelled here.
  \<^item> In the components above: spans and notification callbacks, warnings on the console, the
    garbage collector (a cancellation at any time), containers of Durable Objects, and the ordering
    of query results by locale.
\<close>

end
